(* ===== verification/Prelude.thy ===== *)
theory Prelude
  imports Main
begin

text \<open>
  Shared ground of the development: the theorem collections that carry the component proofs
  (\<open>option_simps\<close> for early returns, \<open>eval_simps\<close> for the expression semantics,
  \<open>store_simps\<close> for the ordered containers), the early-return macros of
  \<open>core/lib/return_macros.h\<close> as binds of the option type, the results of the interpreter, and a few
  facts about lists, integers and bits that several components use.
\<close>

named_theorems option_simps
named_theorems eval_simps
named_theorems store_simps

section \<open>Early returns\<close>

text \<open>
  \<open>ASSIGN_OR_RETURN(x, e, std::nullopt)\<close> binds the value of \<open>e\<close> or leaves the function with
  \<open>std::nullopt\<close>; \<open>RETURN_IF_FALSE(b, std::nullopt)\<close> leaves it when the test fails.
\<close>

definition assign_or_return :: "'a option \<Rightarrow> ('a \<Rightarrow> 'b option) \<Rightarrow> 'b option" where
  "assign_or_return e k = (case e of None \<Rightarrow> None | Some x \<Rightarrow> k x)"

definition return_if_false :: "bool \<Rightarrow> 'b option \<Rightarrow> 'b option" where
  "return_if_false b k = (if b then k else None)"

lemma assign_or_return_simps [simp]:
  "assign_or_return None k = None"
  "assign_or_return (Some x) k = k x"
  by (simp_all add: assign_or_return_def)

lemma return_if_false_simps [simp]:
  "return_if_false True k = k"
  "return_if_false False k = None"
  by (simp_all add: return_if_false_def)

lemma assign_or_return_Some [option_simps]:
  "assign_or_return e k = Some y \<longleftrightarrow> (\<exists>x. e = Some x \<and> k x = Some y)"
  by (cases e) simp_all

lemma return_if_false_Some [option_simps]:
  "return_if_false b k = Some y \<longleftrightarrow> b \<and> k = Some y"
  by (cases b) simp_all

lemma assign_or_return_cong [fundef_cong]:
  "e = e' \<Longrightarrow> (\<And>x. e' = Some x \<Longrightarrow> k x = k' x) \<Longrightarrow> assign_or_return e k = assign_or_return e' k'"
  by (cases e') simp_all

section \<open>Results\<close>

text \<open>
  What the interpreter does when it does not return: \<open>P4C_UNIMPLEMENTED\<close>, and \<open>BUG\<close>, a failed check or
  a null pointer. \<open>Unresolved\<close> and \<open>Out_of_fuel\<close> are values of the models: an expression of the
  program where the models only have values, and a call that is nested deeper than its fuel.
\<close>

datatype failure = Unimplemented | Bug | Unresolved | Out_of_fuel

type_synonym 'a result = "failure + 'a"

definition and_then :: "'f + 'a \<Rightarrow> ('a \<Rightarrow> 'f + 'b) \<Rightarrow> 'f + 'b" where
  "and_then r k = (case r of Inl f \<Rightarrow> Inl f | Inr x \<Rightarrow> k x)"

definition or_fail :: "'f \<Rightarrow> 'a option \<Rightarrow> 'f + 'a" where
  "or_fail f r = (case r of None \<Rightarrow> Inl f | Some x \<Rightarrow> Inr x)"

lemma and_then_simps [simp]:
  "and_then (Inl f) k = Inl f"
  "and_then (Inr x) k = k x"
  by (simp_all add: and_then_def)

lemma or_fail_simps [simp]:
  "or_fail f None = Inl f"
  "or_fail f (Some x) = Inr x"
  by (simp_all add: or_fail_def)

lemma and_then_Inr [option_simps]: "and_then r k = Inr y \<longleftrightarrow> (\<exists>x. r = Inr x \<and> k x = Inr y)"
  by (cases r) simp_all

lemma and_then_Inl [option_simps]: "and_then r k = Inl f \<longleftrightarrow> r = Inl f \<or> (\<exists>x. r = Inr x \<and> k x = Inl f)"
  by (cases r) simp_all

lemma or_fail_Inr [option_simps]: "or_fail f r = Inr x \<longleftrightarrow> r = Some x"
  by (cases r) simp_all

lemma or_fail_Inl [option_simps]: "or_fail f r = Inl g \<longleftrightarrow> r = None \<and> g = f"
  by (cases r) auto

lemma and_then_cong [fundef_cong]:
  "r = r' \<Longrightarrow> (\<And>x. r' = Inr x \<Longrightarrow> k x = k' x) \<Longrightarrow> and_then r k = and_then r' k'"
  by (cases r') simp_all

lemma and_then_mono:
  assumes "and_then r k = Inr y" and "\<And>x. r = Inr x \<Longrightarrow> r' = Inr x" and "\<And>x. k x = Inr y \<Longrightarrow> k' x = Inr y"
  shows "and_then r' k' = Inr y"
  using assms by (auto simp: option_simps)

section \<open>Lists of optional results\<close>

fun all_some :: "'a option list \<Rightarrow> 'a list option" where
  "all_some [] = Some []"
| "all_some (x # xs) =
     (case x of None \<Rightarrow> None
      | Some y \<Rightarrow> (case all_some xs of None \<Rightarrow> None | Some ys \<Rightarrow> Some (y # ys)))"

lemma all_some_map_Some [simp]: "all_some (map Some ys) = Some ys"
  by (induction ys) simp_all

lemma all_some_Some [option_simps]: "all_some xs = Some ys \<longleftrightarrow> xs = map Some ys"
proof
  show "all_some xs = Some ys \<Longrightarrow> xs = map Some ys"
    by (induction xs arbitrary: ys) (auto split: option.splits)
qed simp

lemma all_some_length: "all_some xs = Some ys \<Longrightarrow> length ys = length xs"
  by (simp add: option_simps)

lemma all_some_nth: "all_some xs = Some ys \<Longrightarrow> i < length xs \<Longrightarrow> xs ! i = Some (ys ! i)"
  by (auto simp add: option_simps)

lemma all_some_map_transfer:
  assumes "map f xs = map Some vs" and "\<And>x v. x \<in> set xs \<Longrightarrow> f x = Some v \<Longrightarrow> g v = h x"
  shows "map g vs = map h xs"
  using assms
proof (induction xs arbitrary: vs)
  case (Cons x xs)
  then obtain w ws where vs: "vs = w # ws" by (cases vs) auto
  with Cons.prems(1) have fx: "f x = Some w" and rest: "map f xs = map Some ws" by auto
  from rest have "map g ws = map h xs" by (rule Cons.IH) (simp add: Cons.prems(2))
  moreover from fx have "g w = h x" using Cons.prems(2) by simp
  ultimately show ?case by (simp add: vs)
qed simp

lemma all_some_map_mono:
  assumes "all_some (map f xs) = Some ys"
    and "\<And>x y. x \<in> set xs \<Longrightarrow> f x = Some y \<Longrightarrow> g x = Some y"
  shows "all_some (map g xs) = Some ys"
  using assms by (induction xs arbitrary: ys) (auto split: option.splits)

fun all_results :: "('f + 'a) list \<Rightarrow> 'f + 'a list" where
  "all_results [] = Inr []"
| "all_results (r # rs) = and_then r (\<lambda>x. and_then (all_results rs) (\<lambda>xs. Inr (x # xs)))"

lemma all_results_Inr [option_simps]: "all_results rs = Inr xs \<longleftrightarrow> rs = map Inr xs"
proof
  show "all_results rs = Inr xs \<Longrightarrow> rs = map Inr xs"
    by (induction rs arbitrary: xs) (auto simp: option_simps)
next
  show "rs = map Inr xs \<Longrightarrow> all_results rs = Inr xs"
    by (induction xs arbitrary: rs) auto
qed

section \<open>Powers of two and shifts\<close>

lemma div_pow2_add: "(n::int) div 2 ^ (a + b) = n div 2 ^ a div 2 ^ b"
  by (simp add: power_add zdiv_zmult2_eq)

lemma mult_pow2_mod_mod: "((n * 2 ^ a) mod m * 2 ^ b) mod m = (n * 2 ^ (a + b)) mod (m::int)"
  by (simp add: power_add mod_mult_left_eq mult.assoc)

end
