(* ===== verification/IR.thy ===== *)
theory IR
  imports Prelude
begin

text \<open>
  The expression language the analysis works on: the classes of the compiler's intermediate
  representation that occur as values of the symbolic execution, with the two classes Flay adds to
  it in \<open>flay.def\<close> (\<open>Placeholder\<close> and \<open>DataPlaneVariable\<close>, the latter a flag of the symbolic
  variable it extends). Every operation carries its type, as every node does in the source.

  The second half gives the expressions their meaning: an evaluation under an assignment of values
  to the symbolic variables. It follows the language definition: fixed-width values wrap around,
  \<open>&&\<close>, \<open>||\<close> and the conditional evaluate only the operand they need, and an expression that is
  ill-typed, divides by zero or indexes out of range has no value. The passes that rewrite
  expressions are compared against this evaluation by \<open>refines_in\<close>.
\<close>

unbundle bit_operations_syntax

section \<open>Types, symbolic variables and expressions\<close>

datatype ty =
    Type_Unknown
  | Type_Boolean
  | Type_Bits nat bool
  | Type_InfInt
  | Type_String
  | Type_Stack ty nat
  | Type_Tuple "ty list"
  | Type_Struct "string list" "ty list"

text \<open>\<open>width_bits()\<close> of the base types; the other types have no width.\<close>

fun width_bits :: "ty \<Rightarrow> nat" where
  "width_bits (Type_Bits w s) = w"
| "width_bits Type_Boolean = 1"
| "width_bits _ = 0"

text \<open>
  A symbolic variable, or the data-plane variable that extends it. Variables are compared by class
  and label only; the type is ignored (\<open>isSemanticallyLess\<close>).
\<close>

datatype svar = SVar (sv_dataplane: bool) (sv_type: ty) (sv_label: string)

type_synonym svkey = "bool \<times> string"

definition sv_key :: "svar \<Rightarrow> svkey" where
  "sv_key x = (sv_dataplane x, sv_label x)"

datatype unop = Cmpl | LNot | Neg | UPlus | Cast

datatype binop =
    BAnd | BOr | BXor | Add | Sub | Mul | Div | Mod | Shl | Shr
  | LAnd | LOr | Equ | Neq | Lss | Leq | Grt | Geq
  | Concat | Mask | Range | ArrayIndex

datatype expr =
    BoolLiteral bool
  | Constant ty int
  | StringLiteral string
  | DefaultExpression
  | SymbolicVariable svar
  | Placeholder string expr
  | Unary ty unop expr
  | Binary ty binop expr expr
  | Slice ty expr nat nat
  | Mux ty expr expr expr
  | ListExpression "expr list"
  | StructExpression "string list" "expr list"
  | HeaderStackExpression ty "expr list"

abbreviation getSymbolicVariable :: "ty \<Rightarrow> string \<Rightarrow> svar" where
  "getSymbolicVariable t l \<equiv> SVar False t l"

abbreviation DataPlaneVariable :: "ty \<Rightarrow> string \<Rightarrow> expr" where
  "DataPlaneVariable t l \<equiv> SymbolicVariable (SVar True t l)"

fun type_of :: "expr \<Rightarrow> ty" where
  "type_of (BoolLiteral b) = Type_Boolean"
| "type_of (Constant t n) = t"
| "type_of (StringLiteral s) = Type_String"
| "type_of DefaultExpression = Type_Unknown"
| "type_of (SymbolicVariable x) = sv_type x"
| "type_of (Placeholder l d) = type_of d"
| "type_of (Unary t op e) = t"
| "type_of (Binary t op l r) = t"
| "type_of (Slice t e hi lo) = t"
| "type_of (Mux t c a b) = t"
| "type_of (ListExpression es) = Type_Tuple (map type_of es)"
| "type_of (StructExpression ns es) = Type_Struct ns (map type_of es)"
| "type_of (HeaderStackExpression t es) = Type_Stack t (length es)"

text \<open>
  The constructors the code calls without a type: logical and relational operations are Boolean,
  the other operations take the type of their first operand.
\<close>

definition mk_LAnd :: "expr \<Rightarrow> expr \<Rightarrow> expr" where "mk_LAnd l r = Binary Type_Boolean LAnd l r"
definition mk_LOr :: "expr \<Rightarrow> expr \<Rightarrow> expr" where "mk_LOr l r = Binary Type_Boolean LOr l r"
definition mk_LNot :: "expr \<Rightarrow> expr" where "mk_LNot e = Unary Type_Boolean LNot e"
definition mk_Equ :: "expr \<Rightarrow> expr \<Rightarrow> expr" where "mk_Equ l r = Binary Type_Boolean Equ l r"
definition mk_Lss :: "expr \<Rightarrow> expr \<Rightarrow> expr" where "mk_Lss l r = Binary Type_Boolean Lss l r"
definition mk_Leq :: "expr \<Rightarrow> expr \<Rightarrow> expr" where "mk_Leq l r = Binary Type_Boolean Leq l r"
definition mk_BAnd :: "expr \<Rightarrow> expr \<Rightarrow> expr" where "mk_BAnd l r = Binary (type_of l) BAnd l r"
definition mk_Shl :: "expr \<Rightarrow> expr \<Rightarrow> expr" where "mk_Shl l r = Binary (type_of l) Shl l r"

lemmas mk_defs = mk_LAnd_def mk_LOr_def mk_LNot_def mk_Equ_def mk_Lss_def mk_Leq_def mk_BAnd_def
  mk_Shl_def

text \<open>Size with every leaf counted, the measure of the passes that rewrite before they descend.\<close>

fun esize :: "expr \<Rightarrow> nat" where
  "esize (Placeholder l d) = Suc (esize d)"
| "esize (Unary t op e) = Suc (esize e)"
| "esize (Binary t op l r) = Suc (esize l + esize r)"
| "esize (Slice t e hi lo) = Suc (esize e)"
| "esize (Mux t c a b) = Suc (esize c + esize a + esize b)"
| "esize (ListExpression es) = Suc (sum_list (map esize es))"
| "esize (StructExpression ns es) = Suc (sum_list (map esize es))"
| "esize (HeaderStackExpression t es) = Suc (sum_list (map esize es))"
| "esize _ = 1"

lemma esize_pos [simp]: "0 < esize e"
  by (cases e) auto

lemma esize_elem: "e \<in> set es \<Longrightarrow> esize e < Suc (sum_list (map esize es))"
  by (induction es) auto

section \<open>Values\<close>

text \<open>
  A fixed-width value is its width, its signedness and its bit pattern, a number below
  \<open>2 ^ w\<close>; \<open>raw_to_int\<close> reads the pattern as the number it stands for.
\<close>

datatype val =
    VBool bool
  | VBits nat bool int
  | VInt int
  | VStr string
  | VStack ty "val list"
  | VTuple "val list"
  | VStruct "string list" "val list"

fun val_type :: "val \<Rightarrow> ty" where
  "val_type (VBool b) = Type_Boolean"
| "val_type (VBits w s n) = Type_Bits w s"
| "val_type (VInt n) = Type_InfInt"
| "val_type (VStr x) = Type_String"
| "val_type (VStack t vs) = Type_Stack t (length vs)"
| "val_type (VTuple vs) = Type_Tuple (map val_type vs)"
| "val_type (VStruct ns vs) = Type_Struct ns (map val_type vs)"

fun in_range :: "val \<Rightarrow> bool" where
  "in_range (VBits w s n) \<longleftrightarrow> 0 \<le> n \<and> n < 2 ^ w"
| "in_range _ \<longleftrightarrow> True"

definition raw_to_int :: "nat \<Rightarrow> bool \<Rightarrow> int \<Rightarrow> int" where
  "raw_to_int w s n = (if s \<and> 2 ^ w \<le> 2 * n then n - 2 ^ w else n)"

definition const_val :: "ty \<Rightarrow> int \<Rightarrow> val option" where
  "const_val t n =
     (case t of
        Type_Bits w s \<Rightarrow>
          if (if s then - (2 ^ w) \<le> 2 * n \<and> 2 * n < 2 ^ w else 0 \<le> n \<and> n < 2 ^ w)
          then Some (VBits w s (take_bit w n)) else None
      | Type_InfInt \<Rightarrow> Some (VInt n)
      | _ \<Rightarrow> None)"

definition typed :: "ty \<Rightarrow> val option \<Rightarrow> val option" where
  "typed t r = (case r of None \<Rightarrow> None
                | Some v \<Rightarrow> if val_type v = t \<and> in_range v then Some v else None)"

lemma typed_Some [eval_simps]: "typed t r = Some v \<longleftrightarrow> r = Some v \<and> val_type v = t \<and> in_range v"
  by (auto simp: typed_def split: option.splits)

lemma typed_None [simp]: "typed t None = None"
  by (simp add: typed_def)

lemma const_val_Some_type: "const_val t n = Some v \<Longrightarrow> val_type v = t"
  by (auto simp: const_val_def split: ty.splits if_splits)

lemma const_val_in_range: "const_val t n = Some v \<Longrightarrow> in_range v"
  by (auto simp: const_val_def take_bit_int_less_exp split: ty.splits if_splits)

section \<open>The operations on values\<close>

fun unop_val :: "ty \<Rightarrow> unop \<Rightarrow> val \<Rightarrow> val option" where
  "unop_val t Cmpl v = (case v of VBits w s n \<Rightarrow> Some (VBits w s (take_bit w (NOT n))) | _ \<Rightarrow> None)"
| "unop_val t LNot v = (case v of VBool b \<Rightarrow> Some (VBool (\<not> b)) | _ \<Rightarrow> None)"
| "unop_val t Neg v =
     (case v of VBits w s n \<Rightarrow> Some (VBits w s (take_bit w (- n))) | VInt n \<Rightarrow> Some (VInt (- n))
      | _ \<Rightarrow> None)"
| "unop_val t UPlus v = Some v"
| "unop_val t Cast v =
     (case (v, t) of
        (VBits w s n, Type_Bits w' s') \<Rightarrow> Some (VBits w' s' (take_bit w' (raw_to_int w s n)))
      | (VBits w s n, Type_Boolean) \<Rightarrow> if w = 1 \<and> \<not> s then Some (VBool (n = 1)) else None
      | (VBool b, Type_Bits w s) \<Rightarrow>
          if w = 1 \<and> \<not> s then Some (VBits 1 False (if b then 1 else 0)) else None
      | (VInt n, Type_Bits w s) \<Rightarrow> Some (VBits w s (take_bit w n))
      | _ \<Rightarrow> None)"

definition bits_val :: "(int \<Rightarrow> int \<Rightarrow> int) \<Rightarrow> val \<Rightarrow> val \<Rightarrow> val option" where
  "bits_val f a b =
     (case (a, b) of
        (VBits w s m, VBits w' s' n) \<Rightarrow>
          if w = w' \<and> s = s' then Some (VBits w s (take_bit w (f m n))) else None
      | _ \<Rightarrow> None)"

definition num_val :: "(int \<Rightarrow> int \<Rightarrow> int) \<Rightarrow> val \<Rightarrow> val \<Rightarrow> val option" where
  "num_val f a b =
     (case (a, b) of (VInt m, VInt n) \<Rightarrow> Some (VInt (f m n)) | _ \<Rightarrow> bits_val f a b)"

definition div_val :: "(int \<Rightarrow> int \<Rightarrow> int) \<Rightarrow> val \<Rightarrow> val \<Rightarrow> val option" where
  "div_val f a b =
     (case (a, b) of
        (VBits w s m, VBits w' s' n) \<Rightarrow>
          if w = w' \<and> s = s' \<and> \<not> s \<and> n \<noteq> 0 then Some (VBits w s (f m n)) else None
      | (VInt m, VInt n) \<Rightarrow> if 0 \<le> m \<and> 0 < n then Some (VInt (f m n)) else None
      | _ \<Rightarrow> None)"

definition shift_amount :: "val \<Rightarrow> nat option" where
  "shift_amount v =
     (case v of VBits w s n \<Rightarrow> if s then None else Some (nat n)
      | VInt n \<Rightarrow> if 0 \<le> n then Some (nat n) else None
      | _ \<Rightarrow> None)"

definition shl_val :: "val \<Rightarrow> val \<Rightarrow> val option" where
  "shl_val a b =
     (case shift_amount b of None \<Rightarrow> None
      | Some k \<Rightarrow>
          (case a of VBits w s n \<Rightarrow> Some (VBits w s (take_bit w (n * 2 ^ k)))
           | VInt n \<Rightarrow> Some (VInt (n * 2 ^ k)) | _ \<Rightarrow> None))"

definition shr_val :: "val \<Rightarrow> val \<Rightarrow> val option" where
  "shr_val a b =
     (case shift_amount b of None \<Rightarrow> None
      | Some k \<Rightarrow>
          (case a of VBits w s n \<Rightarrow> Some (VBits w s (take_bit w (raw_to_int w s n div 2 ^ k)))
           | VInt n \<Rightarrow> Some (VInt (n div 2 ^ k)) | _ \<Rightarrow> None))"

definition bool_val :: "(bool \<Rightarrow> bool \<Rightarrow> bool) \<Rightarrow> val \<Rightarrow> val \<Rightarrow> val option" where
  "bool_val f a b = (case (a, b) of (VBool p, VBool q) \<Rightarrow> Some (VBool (f p q)) | _ \<Rightarrow> None)"

definition eq_val :: "bool \<Rightarrow> val \<Rightarrow> val \<Rightarrow> val option" where
  "eq_val positive a b =
     (if val_type a = val_type b then Some (VBool ((a = b) = positive)) else None)"

definition rel_val :: "(int \<Rightarrow> int \<Rightarrow> bool) \<Rightarrow> val \<Rightarrow> val \<Rightarrow> val option" where
  "rel_val f a b =
     (case (a, b) of
        (VBits w s m, VBits w' s' n) \<Rightarrow>
          if w = w' \<and> s = s' then Some (VBool (f (raw_to_int w s m) (raw_to_int w s n))) else None
      | (VInt m, VInt n) \<Rightarrow> Some (VBool (f m n))
      | _ \<Rightarrow> None)"

text \<open>Concatenation has a value for operands of one signedness only.\<close>

definition concat_val :: "val \<Rightarrow> val \<Rightarrow> val option" where
  "concat_val a b =
     (case (a, b) of
        (VBits w s m, VBits w' s' n) \<Rightarrow>
          if s = s' then Some (VBits (w + w') s (m * 2 ^ w' + n)) else None
      | _ \<Rightarrow> None)"

definition index_val :: "val \<Rightarrow> val \<Rightarrow> val option" where
  "index_val a b =
     (case a of
        VStack t vs \<Rightarrow>
          (case b of
             VBits w s n \<Rightarrow>
               let i = raw_to_int w s n in
               if 0 \<le> i \<and> i < int (length vs) then Some (vs ! nat i) else None
           | VInt i \<Rightarrow> if 0 \<le> i \<and> i < int (length vs) then Some (vs ! nat i) else None
           | _ \<Rightarrow> None)
      | _ \<Rightarrow> None)"

fun binop_val :: "binop \<Rightarrow> val \<Rightarrow> val \<Rightarrow> val option" where
  "binop_val BAnd a b = bits_val (\<lambda>m n. m AND n) a b"
| "binop_val BOr a b = bits_val (\<lambda>m n. m OR n) a b"
| "binop_val BXor a b = bits_val (\<lambda>m n. m XOR n) a b"
| "binop_val Add a b = num_val (\<lambda>m n. m + n) a b"
| "binop_val Sub a b = num_val (\<lambda>m n. m - n) a b"
| "binop_val Mul a b = num_val (\<lambda>m n. m * n) a b"
| "binop_val Div a b = div_val (\<lambda>m n. m div n) a b"
| "binop_val Mod a b = div_val (\<lambda>m n. m mod n) a b"
| "binop_val Shl a b = shl_val a b"
| "binop_val Shr a b = shr_val a b"
| "binop_val LAnd a b = bool_val (\<and>) a b"
| "binop_val LOr a b = bool_val (\<or>) a b"
| "binop_val Equ a b = eq_val True a b"
| "binop_val Neq a b = eq_val False a b"
| "binop_val Lss a b = rel_val (<) a b"
| "binop_val Leq a b = rel_val (\<le>) a b"
| "binop_val Grt a b = rel_val (>) a b"
| "binop_val Geq a b = rel_val (\<ge>) a b"
| "binop_val Concat a b = concat_val a b"
| "binop_val Mask a b = None"
| "binop_val Range a b = None"
| "binop_val ArrayIndex a b = index_val a b"

text \<open>The left operand decides \<open>&&\<close> and \<open>||\<close> alone when it can.\<close>

definition short_circuit :: "binop \<Rightarrow> val \<Rightarrow> val option" where
  "short_circuit op a =
     (if op = LAnd \<and> a = VBool False then Some (VBool False)
      else if op = LOr \<and> a = VBool True then Some (VBool True) else None)"

definition slice_val :: "nat \<Rightarrow> nat \<Rightarrow> val \<Rightarrow> val option" where
  "slice_val hi lo v =
     (case v of
        VBits w s n \<Rightarrow>
          if lo \<le> hi \<and> hi < w
          then Some (VBits (hi - lo + 1) False (take_bit (hi - lo + 1) (n div 2 ^ lo))) else None
      | _ \<Rightarrow> None)"

definition stack_val :: "ty \<Rightarrow> val list \<Rightarrow> val option" where
  "stack_val t vs = (if \<forall>v \<in> set vs. val_type v = t \<and> in_range v then Some (VStack t vs) else None)"

definition struct_val :: "string list \<Rightarrow> val list \<Rightarrow> val option" where
  "struct_val ns vs = (if length ns = length vs then Some (VStruct ns vs) else None)"

section \<open>Evaluation\<close>

type_synonym env = "svkey \<Rightarrow> val"

fun eval :: "env \<Rightarrow> expr \<Rightarrow> val option" where
  "eval env (BoolLiteral b) = Some (VBool b)"
| "eval env (Constant t n) = const_val t n"
| "eval env (StringLiteral s) = Some (VStr s)"
| "eval env DefaultExpression = None"
| "eval env (SymbolicVariable x) = typed (sv_type x) (Some (env (sv_key x)))"
| "eval env (Placeholder l d) = None"
| "eval env (Unary t op e) = typed t (assign_or_return (eval env e) (unop_val t op))"
| "eval env (Binary t op l r) =
     typed t (assign_or_return (eval env l) (\<lambda>a.
       case short_circuit op a of
         Some v \<Rightarrow> Some v
       | None \<Rightarrow> assign_or_return (eval env r) (binop_val op a)))"
| "eval env (Slice t e hi lo) = typed t (assign_or_return (eval env e) (slice_val hi lo))"
| "eval env (Mux t c a b) =
     typed t (assign_or_return (eval env c) (\<lambda>v.
       case v of VBool p \<Rightarrow> if p then eval env a else eval env b | _ \<Rightarrow> None))"
| "eval env (ListExpression es) = map_option VTuple (all_some (map (eval env) es))"
| "eval env (StructExpression ns es) =
     assign_or_return (all_some (map (eval env) es)) (struct_val ns)"
| "eval env (HeaderStackExpression t es) =
     assign_or_return (all_some (map (eval env) es)) (stack_val t)"


lemma eval_type: "eval env e = Some v \<Longrightarrow> val_type v = type_of e"
proof (induction e arbitrary: v)
  case (ListExpression es)
  then obtain vs where "map (eval env) es = map Some vs" and v: "v = VTuple vs"
    by (auto simp: option_simps)
  from this(1) have "map val_type vs = map type_of es"
    by (rule all_some_map_transfer) (rule ListExpression.IH)
  then show ?case by (simp add: v)
next
  case (StructExpression ns es)
  then obtain vs where "map (eval env) es = map Some vs" and v: "v = VStruct ns vs"
    by (auto simp: option_simps struct_val_def split: if_splits)
  from this(1) have "map val_type vs = map type_of es"
    by (rule all_some_map_transfer) (rule StructExpression.IH)
  then show ?case by (simp add: v)
next
  case (HeaderStackExpression t es)
  then obtain vs where m: "map (eval env) es = map Some vs" and v: "v = VStack t vs"
    by (auto simp: option_simps stack_val_def split: if_splits)
  from m have "length es = length vs" by (metis length_map)
  then show ?case by (simp add: v)
qed (auto simp: eval_simps option_simps const_val_Some_type)

lemma eval_in_range: "eval env e = Some v \<Longrightarrow> in_range v"
  by (cases e) (auto simp: eval_simps option_simps struct_val_def stack_val_def const_val_in_range
      split: if_splits)

section \<open>Refinement of expressions\<close>

text \<open>
  \<open>e'\<close> refines \<open>e\<close> in \<open>env\<close>: whenever \<open>e\<close> has a value, \<open>e'\<close> has the same one. This is
  what a rewriting pass has to establish; a pass may make an expression more defined (it may drop
  an operand that divides by zero), never less, and never change its value.
\<close>

definition refines_in :: "env \<Rightarrow> expr \<Rightarrow> expr \<Rightarrow> bool" where
  "refines_in env e e' \<longleftrightarrow> (\<forall>v. eval env e = Some v \<longrightarrow> eval env e' = Some v)"

lemma refines_inI: "(\<And>v. eval env e = Some v \<Longrightarrow> eval env e' = Some v) \<Longrightarrow> refines_in env e e'"
  by (simp add: refines_in_def)

lemma refines_inD: "refines_in env e e' \<Longrightarrow> eval env e = Some v \<Longrightarrow> eval env e' = Some v"
  by (simp add: refines_in_def)

lemma refines_in_refl [simp, intro]: "refines_in env e e"
  by (simp add: refines_in_def)

lemma refines_in_trans: "refines_in env a b \<Longrightarrow> refines_in env b c \<Longrightarrow> refines_in env a c"
  by (simp add: refines_in_def)

lemma refines_in_same_eval: "eval env e = eval env e' \<Longrightarrow> refines_in env e e'"
  by (simp add: refines_in_def)

text \<open>
  The congruences are proved for two environments at once: substitution changes the expression and
  the environment together.
\<close>

definition refines_via :: "env \<Rightarrow> env \<Rightarrow> expr \<Rightarrow> expr \<Rightarrow> bool" where
  "refines_via env env' e e' \<longleftrightarrow> (\<forall>v. eval env e = Some v \<longrightarrow> eval env' e' = Some v)"

lemma refines_in_via: "refines_in env = refines_via env env"
  by (simp add: fun_eq_iff refines_in_def refines_via_def)

lemma refines_viaI:
  "(\<And>v. eval env e = Some v \<Longrightarrow> eval env' e' = Some v) \<Longrightarrow> refines_via env env' e e'"
  by (simp add: refines_via_def)

lemma refines_viaD: "refines_via env env' e e' \<Longrightarrow> eval env e = Some v \<Longrightarrow> eval env' e' = Some v"
  by (simp add: refines_via_def)

lemma via_Unary:
  "refines_via env env' e e' \<Longrightarrow> refines_via env env' (Unary t op e) (Unary t op e')"
  by (auto simp: refines_via_def eval_simps option_simps)

lemma via_Binary:
  "refines_via env env' l l' \<Longrightarrow> refines_via env env' r r' \<Longrightarrow>
   refines_via env env' (Binary t op l r) (Binary t op l' r')"
  by (auto simp: refines_via_def eval_simps option_simps split: option.splits)

lemma via_Slice:
  "refines_via env env' e e' \<Longrightarrow> refines_via env env' (Slice t e hi lo) (Slice t e' hi lo)"
  by (auto simp: refines_via_def eval_simps option_simps)

lemmas refines_Unary = via_Unary [of env env for env, folded refines_in_via]
lemmas refines_Binary = via_Binary [of env env for env, folded refines_in_via]
lemmas refines_Slice = via_Slice [of env env for env, folded refines_in_via]

lemma eval_Mux_Some:
  "eval env (Mux t c a b) = Some v \<longleftrightarrow>
     (eval env c = Some (VBool True) \<and> eval env a = Some v \<or>
      eval env c = Some (VBool False) \<and> eval env b = Some v) \<and>
     val_type v = t \<and> in_range v"
  by (cases "eval env c") (auto simp: typed_Some split: val.splits)

lemma eval_Unary_Some:
  "eval env (Unary t op e) = Some v \<longleftrightarrow>
     (\<exists>a. eval env e = Some a \<and> unop_val t op a = Some v) \<and> val_type v = t \<and> in_range v"
  by (auto simp: typed_Some assign_or_return_Some)

lemma eval_Binary_Some:
  assumes "op \<noteq> LAnd" and "op \<noteq> LOr"
  shows "eval env (Binary t op l r) = Some v \<longleftrightarrow>
     (\<exists>a b. eval env l = Some a \<and> eval env r = Some b \<and> binop_val op a b = Some v) \<and>
     val_type v = t \<and> in_range v"
  using assms by (auto simp: typed_Some assign_or_return_Some short_circuit_def)

lemma eval_LAnd_Some:
  "eval env (Binary t LAnd l r) = Some v \<longleftrightarrow>
     t = Type_Boolean \<and>
     (eval env l = Some (VBool False) \<and> v = VBool False \<or>
      eval env l = Some (VBool True) \<and> eval env r = Some v \<and> (v = VBool True \<or> v = VBool False))"
  by (cases "eval env l"; cases "eval env r")
    (auto simp: typed_Some assign_or_return_Some short_circuit_def bool_val_def split: val.splits)

lemma eval_LOr_Some:
  "eval env (Binary t LOr l r) = Some v \<longleftrightarrow>
     t = Type_Boolean \<and>
     (eval env l = Some (VBool True) \<and> v = VBool True \<or>
      eval env l = Some (VBool False) \<and> eval env r = Some v \<and> (v = VBool True \<or> v = VBool False))"
  by (cases "eval env l"; cases "eval env r")
    (auto simp: typed_Some assign_or_return_Some short_circuit_def bool_val_def split: val.splits)

lemma unop_LNot_Some:
  "unop_val t LNot a = Some v \<longleftrightarrow>
     a = VBool True \<and> v = VBool False \<or> a = VBool False \<and> v = VBool True"
  by (cases a) auto

lemma eval_LNot_Some:
  "eval env (Unary t LNot e) = Some v \<longleftrightarrow>
     t = Type_Boolean \<and>
     (eval env e = Some (VBool True) \<and> v = VBool False \<or>
      eval env e = Some (VBool False) \<and> v = VBool True)"
  unfolding eval_Unary_Some unop_LNot_Some by auto

lemma slice_val_Some:
  "slice_val hi lo a = Some v \<longleftrightarrow>
     (\<exists>w s n. a = VBits w s n \<and> lo \<le> hi \<and> hi < w \<and>
        v = VBits (hi - lo + 1) False (take_bit (hi - lo + 1) (n div 2 ^ lo)))"
  by (cases a) (auto simp: slice_val_def)

lemma eval_Slice_Some:
  "eval env (Slice t e hi lo) = Some v \<longleftrightarrow>
     (\<exists>a. eval env e = Some a \<and> slice_val hi lo a = Some v) \<and> val_type v = t \<and> in_range v"
  by (auto simp: typed_Some assign_or_return_Some)

lemma via_Mux:
  assumes c: "refines_via env env' c c'"
    and a: "eval env c = Some (VBool True) \<Longrightarrow> refines_via env env' a a'"
    and b: "eval env c = Some (VBool False) \<Longrightarrow> refines_via env env' b b'"
  shows "refines_via env env' (Mux t c a b) (Mux t c' a' b')"
proof (rule refines_viaI)
  fix v
  assume "eval env (Mux t c a b) = Some v"
  then show "eval env' (Mux t c' a' b') = Some v"
    unfolding eval_Mux_Some using c a b by (metis refines_viaD)
qed

lemmas refines_Mux = via_Mux [of env env for env, folded refines_in_via]

lemma via_all_some:
  assumes "all_some (map (eval env) es) = Some vs"
    and "list_all2 (refines_via env env') es es'"
  shows "all_some (map (eval env') es') = Some vs"
  using assms(2,1)
proof (induction es es' arbitrary: vs rule: list_all2_induct)
  case (Cons e es e' es')
  then show ?case by (auto simp: refines_via_def split: option.splits)
qed simp

lemma via_lists:
  assumes "list_all2 (refines_via env env') es es'"
  shows "refines_via env env' (ListExpression es) (ListExpression es')"
    and "refines_via env env' (StructExpression ns es) (StructExpression ns es')"
    and "refines_via env env' (HeaderStackExpression t es) (HeaderStackExpression t es')"
proof -
  have "all_some (map (eval env') es') = Some vs" if "all_some (map (eval env) es) = Some vs" for vs
    using that assms by (rule via_all_some)
  then show "refines_via env env' (ListExpression es) (ListExpression es')"
    and "refines_via env env' (StructExpression ns es) (StructExpression ns es')"
    and "refines_via env env' (HeaderStackExpression t es) (HeaderStackExpression t es')"
    by (cases "all_some (map (eval env) es)"; simp add: refines_via_def)+
qed

lemma refines_lists:
  assumes "\<And>e. e \<in> set es \<Longrightarrow> refines_in env e (f e)"
  shows "refines_in env (ListExpression es) (ListExpression (map f es))"
    and "refines_in env (StructExpression ns es) (StructExpression ns (map f es))"
    and "refines_in env (HeaderStackExpression t es) (HeaderStackExpression t (map f es))"
proof -
  have "list_all2 (refines_via env env) es (map f es)"
    using assms by (induction es) (simp_all add: refines_in_via)
  then show "refines_in env (ListExpression es) (ListExpression (map f es))"
    and "refines_in env (StructExpression ns es) (StructExpression ns (map f es))"
    and "refines_in env (HeaderStackExpression t es) (HeaderStackExpression t (map f es))"
    unfolding refines_in_via by (rule via_lists)+
qed

text \<open>
  From here on the composite expressions are evaluated by the equivalences above; the defining
  equations stay available under the name \<open>eval_unfold\<close> for concrete expressions.
\<close>

lemmas eval_unfold = eval.simps(7-10)

declare eval_unfold [simp del]

text \<open>The rules for the composite expressions, as one bundle for the passes.\<close>

lemmas via_congs = via_Unary via_Binary via_Slice via_Mux via_lists

lemmas refines_congs = refines_Unary refines_Binary refines_Slice refines_Mux refines_lists

section \<open>Values by type\<close>

lemma val_type_Bits: "val_type v = Type_Bits w s \<longleftrightarrow> (\<exists>n. v = VBits w s n)"
  by (cases v) auto

lemma val_type_Boolean: "val_type v = Type_Boolean \<longleftrightarrow> (\<exists>b. v = VBool b)"
  by (cases v) auto

lemma val_type_InfInt: "val_type v = Type_InfInt \<longleftrightarrow> (\<exists>n. v = VInt n)"
  by (cases v) auto

lemma in_range_take_bit [simp]: "0 \<le> n \<Longrightarrow> n < 2 ^ w \<Longrightarrow> take_bit w n = (n::int)"
  by (simp add: take_bit_eq_mod)

end
