(* ===== verification/StrengthReduction.thy ===== *)
theory StrengthReduction
  imports IR
begin

text \<open>
  \<open>core/lib/expression_strength_reduction.cpp\<close>: a bottom-up rewriting pass with one handler per
  operation. Each handler is a definition that takes the (already rewritten) operands; \<open>reduce\<close> is
  the dispatch on the node and \<open>strength_reduce\<close> the traversal. Structural comparison (\<open>equiv\<close>)
  is equality, since source positions are not part of an expression here. The handlers of division,
  modulo and indexing also report errors: \<open>reduce_error\<close> says when.

  The lemmas show that every handler refines the node it replaces, that errors are reported for
  expressions without a value only, and that the mask reduction keeps what a key set matches.
\<close>

section \<open>Recognising constants\<close>

function bitcount :: "int \<Rightarrow> nat" where
  "bitcount n = (if n \<le> 0 then 0 else nat (n mod 2) + bitcount (n div 2))"
  by pat_completeness auto
termination by (relation "measure nat") auto

declare bitcount.simps [simp del]

definition isOne :: "expr \<Rightarrow> bool" where
  "isOne e = (case e of Constant t n \<Rightarrow> n = 1 | _ \<Rightarrow> False)"

definition isZero :: "expr \<Rightarrow> bool" where
  "isZero e =
     ((case type_of e of Type_Bits w s \<Rightarrow> w = 0 | _ \<Rightarrow> False) \<or>
      (case e of Constant t n \<Rightarrow> n = 0 | _ \<Rightarrow> False))"

definition isTrue :: "expr \<Rightarrow> bool" where
  "isTrue e = (case e of BoolLiteral b \<Rightarrow> b | _ \<Rightarrow> False)"

definition isFalse :: "expr \<Rightarrow> bool" where
  "isFalse e = (case e of BoolLiteral b \<Rightarrow> \<not> b | _ \<Rightarrow> False)"

definition isAllOnes :: "expr \<Rightarrow> bool" where
  "isAllOnes e =
     (case e of Constant t n \<Rightarrow> if n \<le> 0 then False else bitcount n = width_bits t | _ \<Rightarrow> False)"

text \<open>The operand of an expression that is a complement, \<open>to<IR::Cmpl>()\<close>.\<close>

definition as_Cmpl :: "expr \<Rightarrow> expr option" where
  "as_Cmpl e = (case e of Unary t Cmpl a \<Rightarrow> Some a | _ \<Rightarrow> None)"

definition as_LNot :: "expr \<Rightarrow> expr option" where
  "as_LNot e = (case e of Unary t LNot a \<Rightarrow> Some a | _ \<Rightarrow> None)"

section \<open>The handlers\<close>

definition reduce_Cmpl :: "ty \<Rightarrow> expr \<Rightarrow> expr" where
  "reduce_Cmpl t e = (case as_Cmpl e of Some a \<Rightarrow> a | None \<Rightarrow> Unary t Cmpl e)"

definition reduce_BAnd :: "ty \<Rightarrow> expr \<Rightarrow> expr \<Rightarrow> expr" where
  "reduce_BAnd t l r =
     (if isAllOnes l then r
      else if isAllOnes r then l
      else case (as_Cmpl l, as_Cmpl r) of
        (Some a, Some b) \<Rightarrow> Unary t Cmpl (Binary t BOr a b)
      | _ \<Rightarrow>
          if isZero l then l
          else if isZero r then r
          else if l = r then l
          else Binary t BAnd l r)"

definition reduce_BOr :: "ty \<Rightarrow> expr \<Rightarrow> expr \<Rightarrow> expr" where
  "reduce_BOr t l r =
     (if isZero l then r
      else if isZero r then l
      else case (as_Cmpl l, as_Cmpl r) of
        (Some a, Some b) \<Rightarrow> Unary t Cmpl (Binary t BAnd a b)
      | _ \<Rightarrow> if l = r then l else Binary t BOr l r)"

definition reduce_Equ :: "ty \<Rightarrow> expr \<Rightarrow> expr \<Rightarrow> expr" where
  "reduce_Equ t l r =
     (if isTrue l then r
      else if isTrue r then l
      else if isFalse l then Unary t LNot r
      else if isFalse r then Unary t LNot l
      else Binary t Equ l r)"

definition reduce_Neq :: "ty \<Rightarrow> expr \<Rightarrow> expr \<Rightarrow> expr" where
  "reduce_Neq t l r =
     (if isTrue l then Unary t LNot r
      else if isTrue r then Unary t LNot l
      else if isFalse l then r
      else if isFalse r then l
      else Binary t Neq l r)"

text \<open>Both operands are stripped of a complement in place; an odd number of them is put back.\<close>

definition reduce_BXor :: "ty \<Rightarrow> expr \<Rightarrow> expr \<Rightarrow> expr" where
  "reduce_BXor t l r =
     (if isZero l then r
      else if isZero r then l
      else
        let l' = (case as_Cmpl l of Some a \<Rightarrow> a | None \<Rightarrow> l);
            r' = (case as_Cmpl r of Some b \<Rightarrow> b | None \<Rightarrow> r);
            cmpl = ((as_Cmpl l \<noteq> None) \<noteq> (as_Cmpl r \<noteq> None))
        in if cmpl then Unary t Cmpl (Binary t BXor l' r')
           else if l' = r' \<and> type_of l' \<noteq> Type_Unknown then Constant (type_of l') 0
           else Binary t BXor l' r')"

definition reduce_LAnd :: "ty \<Rightarrow> expr \<Rightarrow> expr \<Rightarrow> expr" where
  "reduce_LAnd t l r =
     (if isFalse l then l
      else if isFalse r then r
      else if isTrue l then r
      else if isTrue r then l
      else Binary t LAnd l r)"

definition reduce_LOr :: "ty \<Rightarrow> expr \<Rightarrow> expr \<Rightarrow> expr" where
  "reduce_LOr t l r =
     (if isTrue l then l
      else if isTrue r then r
      else if isFalse l then r
      else if isFalse r then l
      else Binary t LOr l r)"

definition reduce_LNot :: "ty \<Rightarrow> expr \<Rightarrow> expr" where
  "reduce_LNot t e =
     (case e of
        Unary t' LNot a \<Rightarrow> a
      | Binary t' Equ l r \<Rightarrow> Binary t Neq l r
      | Binary t' Neq l r \<Rightarrow> Binary t Equ l r
      | Binary t' Leq l r \<Rightarrow> Binary t Grt l r
      | Binary t' Geq l r \<Rightarrow> Binary t Lss l r
      | Binary t' Lss l r \<Rightarrow> Binary t Geq l r
      | Binary t' Grt l r \<Rightarrow> Binary t Leq l r
      | _ \<Rightarrow> Unary t LNot e)"

definition reduce_Sub :: "ty \<Rightarrow> expr \<Rightarrow> expr \<Rightarrow> expr" where
  "reduce_Sub t l r =
     (if isZero r then l
      else if isZero l then Unary t Neg r
      else if l = r \<and> type_of l \<noteq> Type_Unknown then Constant (type_of l) 0
      else Binary t Sub l r)"

definition reduce_Add :: "ty \<Rightarrow> expr \<Rightarrow> expr \<Rightarrow> expr" where
  "reduce_Add t l r = (if isZero r then l else if isZero l then r else Binary t Add l r)"

definition reduce_UPlus :: "ty \<Rightarrow> expr \<Rightarrow> expr" where
  "reduce_UPlus t e = e"

text \<open>Two shifts by amounts of unbounded integer type become one.\<close>

definition reduce_shift :: "binop \<Rightarrow> ty \<Rightarrow> expr \<Rightarrow> expr \<Rightarrow> expr" where
  "reduce_shift op t l r =
     (let rest = (if isZero l then l else Binary t op l r) in
      if isZero r then l
      else case l of
        Binary t' op' a b \<Rightarrow>
          if op' = op \<and> type_of b = Type_InfInt \<and> type_of r = Type_InfInt
          then Binary (type_of a) op a (Binary (type_of b) Add b r)
          else rest
      | _ \<Rightarrow> rest)"

definition reduce_Shl :: "ty \<Rightarrow> expr \<Rightarrow> expr \<Rightarrow> expr" where
  "reduce_Shl t l r = reduce_shift Shl t l r"

definition reduce_Shr :: "ty \<Rightarrow> expr \<Rightarrow> expr \<Rightarrow> expr" where
  "reduce_Shr t l r = reduce_shift Shr t l r"

definition reduce_Mul :: "ty \<Rightarrow> expr \<Rightarrow> expr \<Rightarrow> expr" where
  "reduce_Mul t l r =
     (if isOne l then r
      else if isOne r then l
      else if isZero l then l
      else if isZero r then r
      else Binary t Mul l r)"

definition reduce_Div :: "ty \<Rightarrow> expr \<Rightarrow> expr \<Rightarrow> expr" where
  "reduce_Div t l r =
     (if isZero r then Binary t Div l r
      else if isOne r then l
      else if isZero l then l
      else Binary t Div l r)"

definition reduce_Mod :: "ty \<Rightarrow> expr \<Rightarrow> expr \<Rightarrow> expr" where
  "reduce_Mod t l r =
     (if isZero r then Binary t Mod l r
      else if isZero l then l
      else Binary t Mod l r)"

definition reduce_Mux :: "ty \<Rightarrow> expr \<Rightarrow> expr \<Rightarrow> expr \<Rightarrow> expr" where
  "reduce_Mux t c a b =
     (if isTrue a \<and> isFalse b then c
      else if isFalse a \<and> isTrue b then Unary t LNot c
      else case as_LNot c of
        Some c' \<Rightarrow> Mux t c' b a
      | None \<Rightarrow> if a = b then a else Mux t c a b)"

definition reduce_Mask :: "ty \<Rightarrow> expr \<Rightarrow> expr \<Rightarrow> expr" where
  "reduce_Mask t l r = (if isAllOnes r then l else Binary t Mask l r)"

definition reduce_Range :: "ty \<Rightarrow> expr \<Rightarrow> expr \<Rightarrow> expr" where
  "reduce_Range t l r =
     (case (l, r) of
        (Constant t0 m, Constant t1 n) \<Rightarrow> if m = n then l else Binary t Range l r
      | _ \<Rightarrow> Binary t Range l r)"

definition reduce_Concat :: "ty \<Rightarrow> expr \<Rightarrow> expr \<Rightarrow> expr" where
  "reduce_Concat t l r =
     (if (case type_of l of Type_Bits w s \<Rightarrow> w = 0 | _ \<Rightarrow> False) then r
      else if (case type_of r of Type_Bits w s \<Rightarrow> w = 0 | _ \<Rightarrow> False) then l
      else Binary t Concat l r)"

definition reduce_ArrayIndex :: "ty \<Rightarrow> expr \<Rightarrow> expr \<Rightarrow> expr" where
  "reduce_ArrayIndex t l r =
     (case (l, r) of
        (HeaderStackExpression t' es, Constant t'' i) \<Rightarrow>
          if i < 0 \<or> int (length es) \<le> i then Binary t ArrayIndex l r else es ! nat i
      | _ \<Rightarrow> Binary t ArrayIndex l r)"

section \<open>Dispatch, errors and traversal\<close>

fun reduce :: "expr \<Rightarrow> expr" where
  "reduce (Unary t Cmpl e) = reduce_Cmpl t e"
| "reduce (Unary t LNot e) = reduce_LNot t e"
| "reduce (Unary t UPlus e) = reduce_UPlus t e"
| "reduce (Binary t BAnd l r) = reduce_BAnd t l r"
| "reduce (Binary t BOr l r) = reduce_BOr t l r"
| "reduce (Binary t BXor l r) = reduce_BXor t l r"
| "reduce (Binary t Equ l r) = reduce_Equ t l r"
| "reduce (Binary t Neq l r) = reduce_Neq t l r"
| "reduce (Binary t LAnd l r) = reduce_LAnd t l r"
| "reduce (Binary t LOr l r) = reduce_LOr t l r"
| "reduce (Binary t Sub l r) = reduce_Sub t l r"
| "reduce (Binary t Add l r) = reduce_Add t l r"
| "reduce (Binary t Shl l r) = reduce_Shl t l r"
| "reduce (Binary t Shr l r) = reduce_Shr t l r"
| "reduce (Binary t Mul l r) = reduce_Mul t l r"
| "reduce (Binary t Div l r) = reduce_Div t l r"
| "reduce (Binary t Mod l r) = reduce_Mod t l r"
| "reduce (Binary t Mask l r) = reduce_Mask t l r"
| "reduce (Binary t Range l r) = reduce_Range t l r"
| "reduce (Binary t Concat l r) = reduce_Concat t l r"
| "reduce (Binary t ArrayIndex l r) = reduce_ArrayIndex t l r"
| "reduce (Mux t c a b) = reduce_Mux t c a b"
| "reduce e = e"

fun reduce_error :: "expr \<Rightarrow> bool" where
  "reduce_error (Binary t Div l r) = isZero r"
| "reduce_error (Binary t Mod l r) = isZero r"
| "reduce_error (Binary t ArrayIndex l r) =
     (case (l, r) of
        (HeaderStackExpression t' es, Constant t'' i) \<Rightarrow> i < 0 \<or> int (length es) \<le> i
      | _ \<Rightarrow> False)"
| "reduce_error e = False"

fun strength_reduce :: "expr \<Rightarrow> expr" where
  "strength_reduce (Placeholder n d) = reduce (Placeholder n (strength_reduce d))"
| "strength_reduce (Unary t op e) = reduce (Unary t op (strength_reduce e))"
| "strength_reduce (Binary t op l r) =
     reduce (Binary t op (strength_reduce l) (strength_reduce r))"
| "strength_reduce (Slice t e hi lo) = reduce (Slice t (strength_reduce e) hi lo)"
| "strength_reduce (Mux t c a b) =
     reduce (Mux t (strength_reduce c) (strength_reduce a) (strength_reduce b))"
| "strength_reduce (ListExpression es) = ListExpression (map strength_reduce es)"
| "strength_reduce (StructExpression ns es) = StructExpression ns (map strength_reduce es)"
| "strength_reduce (HeaderStackExpression t es) =
     HeaderStackExpression t (map strength_reduce es)"
| "strength_reduce e = reduce e"


section \<open>Facts about the recognisers\<close>

lemma bitcount_le: "n < 2 ^ w \<Longrightarrow> bitcount n \<le> w"
proof (induction w arbitrary: n)
  case 0
  then show ?case by (subst bitcount.simps) simp
next
  case (Suc w)
  show ?case
  proof (cases "n \<le> 0")
    case True
    then show ?thesis by (subst bitcount.simps) simp
  next
    case False
    from Suc.prems have "bitcount (n div 2) \<le> w" by (intro Suc.IH) simp
    moreover have "nat (n mod 2) \<le> 1" by simp
    ultimately have "nat (n mod 2) + bitcount (n div 2) \<le> Suc w" by linarith
    with False show ?thesis by (subst bitcount.simps) simp
  qed
qed

lemma bitcount_full: "0 \<le> n \<Longrightarrow> n < 2 ^ w \<Longrightarrow> bitcount n = w \<Longrightarrow> n = 2 ^ w - 1"
proof (induction w arbitrary: n)
  case 0
  then show ?case by simp
next
  case (Suc w)
  then have pos: "0 < n" by (cases "n = 0") (auto simp: bitcount.simps)
  then have split: "nat (n mod 2) + bitcount (n div 2) = Suc w"
    using Suc.prems(3) by (simp add: bitcount.simps [of n])
  have half: "n div 2 < 2 ^ w" using Suc.prems(2) by simp
  have "bitcount (n div 2) \<le> w" using half by (rule bitcount_le)
  moreover have "nat (n mod 2) \<le> 1" by simp
  ultimately have odd: "n mod 2 = 1" and cnt: "bitcount (n div 2) = w"
    using split by linarith+
  have "n div 2 = 2 ^ w - 1" using Suc.IH [OF _ half cnt] pos by simp
  moreover have "n = 2 * (n div 2) + n mod 2" by simp
  ultimately show ?case using odd by simp
qed

lemma bitcount_pos: "0 < n \<Longrightarrow> 0 < bitcount n"
proof (induction n rule: bitcount.induct)
  case (1 n)
  then show ?case
    by (cases "n = 1") (auto simp: bitcount.simps [of n] bitcount.simps [of 0] bitcount.simps [of 1] intro: trans_less_add2)
qed

definition ones_value :: "val \<Rightarrow> bool" where
  "ones_value v = (case v of VBits w s n \<Rightarrow> n = mask w | _ \<Rightarrow> False)"

definition zero_value :: "val \<Rightarrow> bool" where
  "zero_value v = (case v of VBits w s n \<Rightarrow> n = 0 | VInt n \<Rightarrow> n = 0 | _ \<Rightarrow> False)"

definition one_value :: "val \<Rightarrow> bool" where
  "one_value v = (case v of VBits w s n \<Rightarrow> 0 < w \<and> n = 1 | VInt n \<Rightarrow> n = 1 | _ \<Rightarrow> False)"

lemma isAllOnes_eval:
  assumes "isAllOnes e" and "eval env e = Some v"
  shows "ones_value v"
proof -
  from assms(1) obtain t n where e: "e = Constant t n" and n: "0 < n" "bitcount n = width_bits t"
    by (cases e) (auto simp: isAllOnes_def split: if_splits)
  have "width_bits t \<noteq> 0" using bitcount_pos [OF n(1)] n(2) by simp
  then obtain w s where t: "t = Type_Bits w s"
    using assms(2) by (cases t) (auto simp: e const_val_def)
  have "n < 2 ^ w" using assms(2) n(1) by (auto simp: e t const_val_def split: if_splits)
  then have "n = 2 ^ w - 1" using n by (intro bitcount_full) (simp_all add: t)
  then have "take_bit w n = mask w" using n(1) by (simp add: mask_eq_exp_minus_1)
  then show ?thesis
    using assms(2) by (auto simp: e t const_val_def ones_value_def split: if_splits)
qed

lemma isZero_eval:
  assumes "isZero e" and "eval env e = Some v"
  shows "zero_value v"
proof -
  have ty: "val_type v = type_of e" and rng: "in_range v"
    using eval_type [OF assms(2)] eval_in_range [OF assms(2)] by simp_all
  show ?thesis
  proof (cases "\<exists>t. e = Constant t 0")
    case True
    then show ?thesis
      using assms(2) by (auto simp: const_val_def zero_value_def split: ty.splits if_splits)
  next
    case False
    with assms(1) obtain s where "type_of e = Type_Bits 0 s"
      by (auto simp: isZero_def split: ty.splits expr.splits)
    then show ?thesis using ty rng by (auto simp: val_type_Bits zero_value_def)
  qed
qed

lemma isOne_eval:
  assumes "isOne e" and "eval env e = Some v"
  shows "one_value v"
proof -
  from assms(1) obtain t where "e = Constant t 1" by (cases e) (auto simp: isOne_def)
  with assms(2) show ?thesis
    by (cases t) (auto simp: const_val_def one_value_def split: if_splits intro!: gr0I)
qed

lemma isTrue_iff: "isTrue e \<longleftrightarrow> e = BoolLiteral True"
  by (cases e) (auto simp: isTrue_def)

lemma isFalse_iff: "isFalse e \<longleftrightarrow> e = BoolLiteral False"
  by (cases e) (auto simp: isFalse_def)

lemma as_Cmpl_Some: "as_Cmpl e = Some a \<longleftrightarrow> (\<exists>t. e = Unary t Cmpl a)"
  by (auto simp: as_Cmpl_def split: expr.splits unop.splits)


section \<open>The laws on values behind the handlers\<close>

lemma bits_val_Some:
  "bits_val f a b = Some v \<longleftrightarrow>
     (\<exists>w s m n. a = VBits w s m \<and> b = VBits w s n \<and> v = VBits w s (take_bit w (f m n)))"
  by (auto simp: bits_val_def split: val.splits)

lemma num_val_Some:
  "num_val f a b = Some v \<longleftrightarrow>
     (\<exists>m n. a = VInt m \<and> b = VInt n \<and> v = VInt (f m n)) \<or> bits_val f a b = Some v"
  by (auto simp: num_val_def bits_val_def split: val.splits)

lemma bits_val_cases:
  assumes "bits_val f a b = Some v" and "in_range a" and "in_range b"
  obtains w s m n where "a = VBits w s m" and "b = VBits w s n" and "v = VBits w s (take_bit w (f m n))"
    and "take_bit w m = m" and "take_bit w n = n"
  using assms by (auto simp: bits_val_Some)

lemma mask_and_in_range:
  "0 \<le> n \<Longrightarrow> n < 2 ^ w \<Longrightarrow> mask w AND n = (n::int)"
  "0 \<le> n \<Longrightarrow> n < 2 ^ w \<Longrightarrow> n AND mask w = (n::int)"
  using in_range_take_bit [of n w] by (simp_all add: take_bit_eq_mask and.commute)

lemma BAnd_ones_left:
  "ones_value a \<Longrightarrow> in_range b \<Longrightarrow> bits_val (\<lambda>m n. m AND n) a b = Some v \<Longrightarrow> v = b"
  by (auto simp: bits_val_Some ones_value_def mask_and_in_range)

lemma BAnd_ones_right:
  "ones_value b \<Longrightarrow> in_range a \<Longrightarrow> bits_val (\<lambda>m n. m AND n) a b = Some v \<Longrightarrow> v = a"
  by (auto simp: bits_val_Some ones_value_def mask_and_in_range)

lemma bits_zero_left:
  "zero_value a \<Longrightarrow> bits_val f a b = Some v \<Longrightarrow> in_range b \<Longrightarrow>
    (\<And>n. f 0 n = n) \<Longrightarrow> v = b"
  by (auto simp: bits_val_Some zero_value_def)

lemma bits_zero_right:
  "zero_value b \<Longrightarrow> bits_val f a b = Some v \<Longrightarrow> in_range a \<Longrightarrow>
    (\<And>m. f m 0 = m) \<Longrightarrow> v = a"
  by (auto simp: bits_val_Some zero_value_def)

lemma bits_absorb_left:
  "zero_value a \<Longrightarrow> bits_val f a b = Some v \<Longrightarrow> (\<And>n. f 0 n = 0) \<Longrightarrow> v = a"
  by (auto simp: bits_val_Some zero_value_def)

lemma bits_absorb_right:
  "zero_value b \<Longrightarrow> bits_val f a b = Some v \<Longrightarrow> (\<And>m. f m 0 = 0) \<Longrightarrow> v = b"
  by (auto simp: bits_val_Some zero_value_def)

lemma bits_idem: "bits_val f a a = Some v \<Longrightarrow> in_range a \<Longrightarrow> (\<And>n. f n n = n) \<Longrightarrow> v = a"
  by (auto simp: bits_val_Some)

lemma take_bit_xor_not:
  "take_bit w (take_bit w (NOT m) XOR n) = take_bit w (NOT (take_bit w (m XOR n)))"
  "take_bit w (m XOR take_bit w (NOT n)) = take_bit w (NOT (take_bit w (m XOR n)))"
  "take_bit w (take_bit w (NOT m) XOR take_bit w (NOT n)) = take_bit w (m XOR n)"
  for m n :: int
  by (rule bit_eqI; auto simp: bit_simps)+

lemma raw_to_int_take_bit:
  assumes "if s then - (2 ^ w) \<le> 2 * x \<and> 2 * x < 2 ^ w else 0 \<le> x \<and> x < 2 ^ w"
  shows "raw_to_int w s (take_bit w x) = x"
proof (cases "s \<and> x < 0")
  case True
  with assms have b: "- (2 ^ w) \<le> 2 * x" and n: "x < 0" by auto
  have "take_bit w x = x + 2 ^ w"
    using b n mod_pos_pos_trivial [of "x + 2 ^ w" "2 ^ w"] by (simp add: take_bit_eq_mod)
  with True b show ?thesis by (simp add: raw_to_int_def)
next
  case False
  with assms have "0 \<le> x" and lt: "x < 2 ^ w" by (auto split: if_splits)
  then have "take_bit w x = x" by (rule in_range_take_bit)
  with False assms show ?thesis by (auto simp: raw_to_int_def split: if_splits)
qed

lemma raw_to_int_range:
  assumes "0 \<le> n" and "n < 2 ^ w"
  shows "if s then - (2 ^ w) \<le> 2 * raw_to_int w s n \<and> 2 * raw_to_int w s n < 2 ^ w
         else 0 \<le> raw_to_int w s n \<and> raw_to_int w s n < 2 ^ w"
  using assms by (auto simp: raw_to_int_def)


section \<open>Every handler refines its node\<close>

text \<open>The value of a node with strict operands, with the ranges of the operands' values.\<close>

lemma Binary_cases:
  assumes "eval env (Binary t op l r) = Some v" and "op \<noteq> LAnd" and "op \<noteq> LOr"
  obtains a b where "eval env l = Some a" and "eval env r = Some b" and "binop_val op a b = Some v"
    and "val_type v = t" and "in_range v" and "in_range a" and "in_range b"
    and "val_type a = type_of l" and "val_type b = type_of r"
  using assms eval_in_range eval_type unfolding eval_Binary_Some [OF assms(2,3)] by blast

lemma Cmpl_cases:
  assumes "eval env (Unary t Cmpl e) = Some v"
  obtains w s n where "eval env e = Some (VBits w s n)" and "v = VBits w s (take_bit w (NOT n))"
    and "0 \<le> n" and "n < 2 ^ w" and "t = Type_Bits w s"
proof -
  from assms obtain a where a: "eval env e = Some a" "unop_val t Cmpl a = Some v" "val_type v = t"
    unfolding eval_Unary_Some by blast
  moreover have "in_range a" using a(1) by (rule eval_in_range)
  ultimately show ?thesis using that by (cases a) auto
qed

lemma eval_CmplI:
  "eval env e = Some (VBits w s n) \<Longrightarrow>
   eval env (Unary (Type_Bits w s) Cmpl e) = Some (VBits w s (take_bit w (NOT n)))"
  unfolding eval_Unary_Some by (simp add: take_bit_int_less_exp)

lemma eval_bits_opI:
  assumes "eval env l = Some (VBits w s m)" and "eval env r = Some (VBits w s n)"
    and "op = BAnd \<and> f = (\<lambda>m n. m AND n) \<or> op = BOr \<and> f = (\<lambda>m n. m OR n) \<or>
         op = BXor \<and> f = (\<lambda>m n. m XOR n)"
  shows "eval env (Binary (Type_Bits w s) op l r) = Some (VBits w s (take_bit w (f m n)))"
  using assms by (auto simp: eval_Binary_Some bits_val_Some take_bit_int_less_exp take_bit_nonnegative
      simp del: take_bit_and take_bit_or take_bit_xor)

lemma reduce_Cmpl_refines: "refines_in env (Unary t Cmpl e) (reduce_Cmpl t e)"
proof (cases "as_Cmpl e")
  case (Some a)
  then obtain t' where e: "e = Unary t' Cmpl a" by (auto simp: as_Cmpl_Some)
  show ?thesis
    by (rule refines_inI)
      (auto simp: reduce_Cmpl_def as_Cmpl_def e take_bit_not_take_bit elim!: Cmpl_cases)
qed (simp add: reduce_Cmpl_def)

lemma reduce_BAnd_refines: "refines_in env (Binary t BAnd l r) (reduce_BAnd t l r)"
proof (rule refines_inI)
  fix v
  assume ev: "eval env (Binary t BAnd l r) = Some v"
  then obtain a b where l: "eval env l = Some a" and r: "eval env r = Some b"
    and v: "bits_val (\<lambda>m n. m AND n) a b = Some v" and ra: "in_range a" and rb: "in_range b"
    and t: "val_type v = t"
    by (rule Binary_cases) simp_all
  consider "isAllOnes l" | "\<not> isAllOnes l" "isAllOnes r"
    | x y where "\<not> isAllOnes l" "\<not> isAllOnes r" "as_Cmpl l = Some x" "as_Cmpl r = Some y"
    | "\<not> isAllOnes l" "\<not> isAllOnes r" "as_Cmpl l = None \<or> as_Cmpl r = None"
    by fastforce
  then show "eval env (reduce_BAnd t l r) = Some v"
  proof cases
    case 1
    with BAnd_ones_left [OF isAllOnes_eval [OF _ l] rb v] r show ?thesis
      by (simp add: reduce_BAnd_def)
  next
    case 2
    with BAnd_ones_right [OF isAllOnes_eval [OF _ r] ra v] l show ?thesis
      by (simp add: reduce_BAnd_def)
  next
    case (3 x y)
    then obtain tl tr where e: "l = Unary tl Cmpl x" "r = Unary tr Cmpl y"
      by (auto simp: as_Cmpl_Some)
    with l r v t obtain w s m n where
      x: "eval env x = Some (VBits w s m)" "eval env y = Some (VBits w s n)" "t = Type_Bits w s"
      and "v = VBits w s (take_bit w (take_bit w (NOT m) AND take_bit w (NOT n)))"
      by (auto simp: bits_val_Some elim!: Cmpl_cases)
    then show ?thesis
      using 3 eval_CmplI [OF eval_bits_opI [OF x(1,2), of BOr "\<lambda>m n. m OR n"]]
      by (simp add: reduce_BAnd_def take_bit_not_take_bit)
  next
    case 4
    show ?thesis
      using 4 l r ev bits_absorb_left [OF isZero_eval [OF _ l] v]
        bits_absorb_right [OF isZero_eval [OF _ r] v] bits_idem [of "\<lambda>m n. m AND n" a v] v ra
      by (auto simp: reduce_BAnd_def split: option.splits)
  qed
qed

lemma reduce_BOr_refines: "refines_in env (Binary t BOr l r) (reduce_BOr t l r)"
proof (rule refines_inI)
  fix v
  assume ev: "eval env (Binary t BOr l r) = Some v"
  then obtain a b where l: "eval env l = Some a" and r: "eval env r = Some b"
    and v: "bits_val (\<lambda>m n. m OR n) a b = Some v" and ra: "in_range a" and rb: "in_range b"
    and t: "val_type v = t"
    by (rule Binary_cases) simp_all
  consider "isZero l" | "\<not> isZero l" "isZero r"
    | x y where "\<not> isZero l" "\<not> isZero r" "as_Cmpl l = Some x" "as_Cmpl r = Some y"
    | "\<not> isZero l" "\<not> isZero r" "as_Cmpl l = None \<or> as_Cmpl r = None"
    by fastforce
  then show "eval env (reduce_BOr t l r) = Some v"
  proof cases
    case 1
    with bits_zero_left [OF isZero_eval [OF _ l] v rb] r show ?thesis by (simp add: reduce_BOr_def)
  next
    case 2
    with bits_zero_right [OF isZero_eval [OF _ r] v ra] l show ?thesis by (simp add: reduce_BOr_def)
  next
    case (3 x y)
    then obtain tl tr where e: "l = Unary tl Cmpl x" "r = Unary tr Cmpl y"
      by (auto simp: as_Cmpl_Some)
    with l r v t obtain w s m n where
      x: "eval env x = Some (VBits w s m)" "eval env y = Some (VBits w s n)" "t = Type_Bits w s"
      and "v = VBits w s (take_bit w (take_bit w (NOT m) OR take_bit w (NOT n)))"
      by (auto simp: bits_val_Some elim!: Cmpl_cases)
    then show ?thesis
      using 3 eval_CmplI [OF eval_bits_opI [OF x(1,2), of BAnd "\<lambda>m n. m AND n"]]
      by (simp add: reduce_BOr_def take_bit_not_take_bit)
  next
    case 4
    show ?thesis
      using 4 l r ev bits_idem [of "\<lambda>m n. m OR n" a v] v ra
      by (auto simp: reduce_BOr_def split: option.splits)
  qed
qed


lemma Cmpl_or_self:
  assumes "eval env e = Some (VBits w s n)"
  obtains m where
    "eval env (case as_Cmpl e of Some a \<Rightarrow> a | None \<Rightarrow> e) = Some (VBits w s m)"
    and "n = (if as_Cmpl e = None then m else take_bit w (NOT m))"
proof (cases "as_Cmpl e")
  case None
  with assms that show ?thesis by simp
next
  case (Some a)
  then obtain t where "e = Unary t Cmpl a" by (auto simp: as_Cmpl_Some)
  with assms Some that show ?thesis by (auto elim!: Cmpl_cases)
qed

lemma reduce_BXor_refines: "refines_in env (Binary t BXor l r) (reduce_BXor t l r)"
proof (rule refines_inI)
  fix v
  assume ev: "eval env (Binary t BXor l r) = Some v"
  then obtain a b where l: "eval env l = Some a" and r: "eval env r = Some b"
    and v: "bits_val (\<lambda>m n. m XOR n) a b = Some v" and ra: "in_range a" and rb: "in_range b"
    and t: "val_type v = t" and rv: "in_range v"
    by (rule Binary_cases) simp_all
  consider "isZero l" | "\<not> isZero l" "isZero r" | "\<not> isZero l" "\<not> isZero r" by blast
  then show "eval env (reduce_BXor t l r) = Some v"
  proof cases
    case 1
    with bits_zero_left [OF isZero_eval [OF _ l] v rb] r show ?thesis by (simp add: reduce_BXor_def)
  next
    case 2
    with bits_zero_right [OF isZero_eval [OF _ r] v ra] l show ?thesis
      by (simp add: reduce_BXor_def)
  next
    case 3
    define l' where "l' = (case as_Cmpl l of Some a \<Rightarrow> a | None \<Rightarrow> l)"
    define r' where "r' = (case as_Cmpl r of Some a \<Rightarrow> a | None \<Rightarrow> r)"
    from v obtain w s m n where ab: "a = VBits w s m" "b = VBits w s n"
      and v': "v = VBits w s (take_bit w (m XOR n))" by (auto simp: bits_val_Some)
    obtain m' where m': "eval env l' = Some (VBits w s m')"
      "m = (if as_Cmpl l = None then m' else take_bit w (NOT m'))"
      using Cmpl_or_self [OF l [unfolded ab]] unfolding l'_def by blast
    obtain n' where n': "eval env r' = Some (VBits w s n')"
      "n = (if as_Cmpl r = None then n' else take_bit w (NOT n'))"
      using Cmpl_or_self [OF r [unfolded ab]] unfolding r'_def by blast
    have ty: "t = Type_Bits w s" "type_of l' = Type_Bits w s"
      using t v' eval_type [OF m'(1)] by simp_all
    have xor: "eval env (Binary t BXor l' r') = Some (VBits w s (take_bit w (m' XOR n')))"
      unfolding ty by (rule eval_bits_opI [OF m'(1) n'(1)]) simp
    show ?thesis
    proof (cases "(as_Cmpl l \<noteq> None) \<noteq> (as_Cmpl r \<noteq> None)")
      case True
      have "reduce_BXor t l r = Unary t Cmpl (Binary t BXor l' r')"
        using 3 True by (simp add: reduce_BXor_def l'_def r'_def Let_def)
      moreover have "take_bit w (NOT (take_bit w (m' XOR n'))) = take_bit w (m XOR n)"
        using True m'(2) n'(2) take_bit_xor_not(1) [of w m' n'] take_bit_xor_not(2) [of w m' n']
        by (cases "as_Cmpl l"; cases "as_Cmpl r") simp_all
      ultimately show ?thesis using eval_CmplI [OF xor] by (simp add: ty v')
    next
      case False
      have eq: "take_bit w (m' XOR n') = take_bit w (m XOR n)"
        using False m'(2) n'(2) take_bit_xor_not(3) [of w m' n']
        by (cases "as_Cmpl l"; cases "as_Cmpl r") simp_all
      have red: "reduce_BXor t l r =
          (if l' = r' then Constant (Type_Bits w s) 0 else Binary t BXor l' r')"
        using 3 False ty by (auto simp add: reduce_BXor_def l'_def [symmetric] r'_def [symmetric] Let_def)
      have "v = VBits w s 0" if "l' = r'"
        using that m'(1) n'(1) eq v' by simp
      then show ?thesis using red xor eq v' by (simp add: const_val_def)
    qed
  qed
qed

lemma eq_val_bool:
  "eq_val p (VBool x) b = Some v \<longleftrightarrow> (\<exists>y. b = VBool y \<and> v = VBool ((x = y) = p))"
  "eq_val p a (VBool x) = Some v \<longleftrightarrow> (\<exists>y. a = VBool y \<and> v = VBool ((x = y) = p))"
  by (cases b; auto simp: eq_val_def)
    (cases a; auto simp: eq_val_def)

lemma reduce_Equ_refines: "refines_in env (Binary t Equ l r) (reduce_Equ t l r)"
proof (rule refines_inI)
  fix v
  assume ev: "eval env (Binary t Equ l r) = Some v"
  then obtain a b where "eval env l = Some a" "eval env r = Some b" "eq_val True a b = Some v"
    "val_type v = t" by (rule Binary_cases) simp_all
  with ev show "eval env (reduce_Equ t l r) = Some v"
    by (auto simp: reduce_Equ_def isTrue_iff isFalse_iff eval_LNot_Some eq_val_bool)
qed

lemma reduce_Neq_refines: "refines_in env (Binary t Neq l r) (reduce_Neq t l r)"
proof (rule refines_inI)
  fix v
  assume ev: "eval env (Binary t Neq l r) = Some v"
  then obtain a b where "eval env l = Some a" "eval env r = Some b" "eq_val False a b = Some v"
    "val_type v = t" by (rule Binary_cases) simp_all
  with ev show "eval env (reduce_Neq t l r) = Some v"
    by (auto simp: reduce_Neq_def isTrue_iff isFalse_iff eval_LNot_Some eq_val_bool)
qed

lemma reduce_LAnd_refines: "refines_in env (Binary t LAnd l r) (reduce_LAnd t l r)"
  by (rule refines_inI) (auto simp: reduce_LAnd_def isTrue_iff isFalse_iff eval_LAnd_Some)

lemma reduce_LOr_refines: "refines_in env (Binary t LOr l r) (reduce_LOr t l r)"
  by (rule refines_inI) (auto simp: reduce_LOr_def isTrue_iff isFalse_iff eval_LOr_Some)

text \<open>Negating a comparison gives the complementary comparison.\<close>

lemma eq_val_not: "eq_val True a b = Some (VBool p) \<Longrightarrow> eq_val False a b = Some (VBool (\<not> p))"
  "eq_val False a b = Some (VBool p) \<Longrightarrow> eq_val True a b = Some (VBool (\<not> p))"
  by (auto simp: eq_val_def split: if_splits)

lemma rel_val_Some:
  "rel_val f a b = Some v \<longleftrightarrow>
     (\<exists>w s m n. a = VBits w s m \<and> b = VBits w s n \<and>
        v = VBool (f (raw_to_int w s m) (raw_to_int w s n))) \<or>
     (\<exists>m n. a = VInt m \<and> b = VInt n \<and> v = VBool (f m n))"
  by (cases a; cases b) (auto simp: rel_val_def)

lemma rel_val_not:
  assumes "rel_val f a b = Some (VBool p)" and "\<And>m n. g m n = (\<not> f m n)"
  shows "rel_val g a b = Some (VBool (\<not> p))"
  using assms unfolding rel_val_Some by auto

lemma eval_LNot_comparison:
  assumes "eval env (Binary t' op l r) = Some (VBool p)"
    and "(op, op') \<in> {(Equ, Neq), (Neq, Equ), (Leq, Grt), (Geq, Lss), (Lss, Geq), (Grt, Leq)}"
  shows "eval env (Binary Type_Boolean op' l r) = Some (VBool (\<not> p))"
proof -
  have op: "op \<noteq> LAnd" "op \<noteq> LOr" "op' \<noteq> LAnd" "op' \<noteq> LOr" using assms(2) by auto
  from assms(1) obtain a b where ab: "eval env l = Some a" "eval env r = Some b"
    and v: "binop_val op a b = Some (VBool p)"
    unfolding eval_Binary_Some [OF op(1,2)] by blast
  have "binop_val op' a b = Some (VBool (\<not> p))"
    using assms(2) v
    by (elim insertE) (auto dest: eq_val_not intro: rel_val_not)
  with ab show ?thesis unfolding eval_Binary_Some [OF op(3,4)] by simp
qed

lemma reduce_LNot_refines: "refines_in env (Unary t LNot e) (reduce_LNot t e)"
proof (rule refines_inI)
  fix v
  assume ev: "eval env (Unary t LNot e) = Some v"
  then obtain p where t: "t = Type_Boolean" and e: "eval env e = Some (VBool p)"
    and v: "v = VBool (\<not> p)" by (auto simp: eval_LNot_Some)
  show "eval env (reduce_LNot t e) = Some v"
  proof (cases e)
    case (Unary t' op a)
    with e ev show ?thesis
      by (cases op) (auto simp: reduce_LNot_def eval_LNot_Some)
  next
    case (Binary t' op l r)
    with e ev show ?thesis
      by (cases op) (auto simp: reduce_LNot_def t v intro!: eval_LNot_comparison)
  qed (use ev in \<open>auto simp: reduce_LNot_def\<close>)
qed

lemma num_zero_right:
  "zero_value b \<Longrightarrow> num_val f a b = Some v \<Longrightarrow> in_range a \<Longrightarrow>
    (\<And>m. f m 0 = m) \<Longrightarrow> v = a"
  by (auto simp: num_val_Some bits_val_Some zero_value_def)

lemma num_absorb:
  "zero_value a \<Longrightarrow> num_val (\<lambda>m n. m * n) a b = Some v \<Longrightarrow> v = a"
  "zero_value b \<Longrightarrow> num_val (\<lambda>m n. m * n) a b = Some v \<Longrightarrow> v = b"
  by (auto simp: num_val_Some bits_val_Some zero_value_def)

lemma num_one:
  "one_value a \<Longrightarrow> num_val (\<lambda>m n. m * n) a b = Some v \<Longrightarrow> in_range b \<Longrightarrow> v = b"
  "one_value b \<Longrightarrow> num_val (\<lambda>m n. m * n) a b = Some v \<Longrightarrow> in_range a \<Longrightarrow> v = a"
  by (auto simp: num_val_Some bits_val_Some one_value_def)

lemma num_sub_self: "num_val (\<lambda>m n. m - n) a a = Some v \<Longrightarrow> const_val (val_type a) 0 = Some v"
  by (auto simp: num_val_Some bits_val_Some const_val_def)

lemma num_add_laws:
  "num_val (\<lambda>m n. m + n) a b = Some v \<Longrightarrow> zero_value b \<Longrightarrow> in_range a \<Longrightarrow> v = a"
  "num_val (\<lambda>m n. m + n) a b = Some v \<Longrightarrow> zero_value a \<Longrightarrow> in_range b \<Longrightarrow> v = b"
  by (auto simp: num_val_Some bits_val_Some zero_value_def)

lemma reduce_Add_refines: "refines_in env (Binary t Add l r) (reduce_Add t l r)"
proof (rule refines_inI)
  fix v
  assume ev: "eval env (Binary t Add l r) = Some v"
  then obtain a b where "eval env l = Some a" "eval env r = Some b"
    "num_val (\<lambda>m n. m + n) a b = Some v" "in_range a" "in_range b" by (rule Binary_cases) simp_all
  with ev show "eval env (reduce_Add t l r) = Some v"
    by (auto simp: reduce_Add_def dest: isZero_eval num_add_laws)
qed

lemma reduce_Sub_refines: "refines_in env (Binary t Sub l r) (reduce_Sub t l r)"
proof (rule refines_inI)
  fix v
  assume ev: "eval env (Binary t Sub l r) = Some v"
  then obtain a b where l: "eval env l = Some a" and r: "eval env r = Some b"
    and v: "num_val (\<lambda>m n. m - n) a b = Some v" and rng: "in_range a" "in_range b" "in_range v"
    and t: "val_type v = t" "val_type a = type_of l"
    by (rule Binary_cases) simp_all
  consider "isZero r" | "\<not> isZero r" "isZero l" | "\<not> isZero r" "\<not> isZero l" by blast
  then show "eval env (reduce_Sub t l r) = Some v"
  proof cases
    case 1
    with num_zero_right [OF isZero_eval [OF _ r] v] rng l show ?thesis by (simp add: reduce_Sub_def)
  next
    case 2
    from 2(2) l have "zero_value a" by (rule isZero_eval)
    with v have "unop_val t Neg b = Some v"
      by (auto simp: num_val_Some bits_val_Some zero_value_def)
    with 2 r t rng show ?thesis by (simp add: reduce_Sub_def eval_Unary_Some)
  next
    case 3
    have "const_val (type_of l) 0 = Some v" if "l = r"
      using that l r v t num_sub_self [of a v] by simp
    with 3 ev show ?thesis by (simp add: reduce_Sub_def)
  qed
qed

lemma reduce_Mul_refines: "refines_in env (Binary t Mul l r) (reduce_Mul t l r)"
proof (rule refines_inI)
  fix v
  assume ev: "eval env (Binary t Mul l r) = Some v"
  then obtain a b where "eval env l = Some a" "eval env r = Some b"
    "num_val (\<lambda>m n. m * n) a b = Some v" "in_range a" "in_range b" by (rule Binary_cases) simp_all
  with ev num_one [of a b v] num_one [of b a v] num_absorb [of a b v] num_absorb [of b a v]
    num_one(2) [of b a v] num_absorb(2) [of b a v]
  show "eval env (reduce_Mul t l r) = Some v"
    by (auto simp: reduce_Mul_def dest: isZero_eval isOne_eval)
qed

lemma div_val_Some:
  "div_val f a b = Some v \<longleftrightarrow>
     (\<exists>w m n. a = VBits w False m \<and> b = VBits w False n \<and> n \<noteq> 0 \<and> v = VBits w False (f m n)) \<or>
     (\<exists>m n. a = VInt m \<and> b = VInt n \<and> 0 \<le> m \<and> 0 < n \<and> v = VInt (f m n))"
  by (cases a; cases b) (auto simp: div_val_def)

lemma div_val_laws:
  "div_val f a b = Some v \<Longrightarrow> \<not> zero_value b"
  "div_val (\<lambda>m n. m div n) a b = Some v \<Longrightarrow> one_value b \<Longrightarrow> v = a"
  "div_val (\<lambda>m n. m div n) a b = Some v \<Longrightarrow> zero_value a \<Longrightarrow> v = a"
  "div_val (\<lambda>m n. m mod n) a b = Some v \<Longrightarrow> zero_value a \<Longrightarrow> v = a"
  by (auto simp: div_val_Some zero_value_def one_value_def)

lemma reduce_Div_refines: "refines_in env (Binary t Div l r) (reduce_Div t l r)"
proof (rule refines_inI)
  fix v
  assume ev: "eval env (Binary t Div l r) = Some v"
  then obtain a b where "eval env l = Some a" "eval env r = Some b"
    "div_val (\<lambda>m n. m div n) a b = Some v" by (rule Binary_cases) simp_all
  with ev show "eval env (reduce_Div t l r) = Some v"
    by (auto simp: reduce_Div_def dest: isZero_eval isOne_eval div_val_laws)
qed

lemma reduce_Mod_refines: "refines_in env (Binary t Mod l r) (reduce_Mod t l r)"
proof (rule refines_inI)
  fix v
  assume ev: "eval env (Binary t Mod l r) = Some v"
  then obtain a b where "eval env l = Some a" "eval env r = Some b"
    "div_val (\<lambda>m n. m mod n) a b = Some v" by (rule Binary_cases) simp_all
  with ev show "eval env (reduce_Mod t l r) = Some v"
    by (auto simp: reduce_Mod_def dest: isZero_eval isOne_eval div_val_laws)
qed


text \<open>Shifts. The two directions share their laws.\<close>

definition shift_val :: "binop \<Rightarrow> val \<Rightarrow> val \<Rightarrow> val option" where
  "shift_val op a b = (if op = Shl then shl_val a b else shr_val a b)"

lemma shift_zero_amount:
  "shift_val op a b = Some v \<Longrightarrow> zero_value b \<Longrightarrow> in_range a \<Longrightarrow> v = a"
  using raw_to_int_range
  by (cases a; cases b)
    (auto simp: shift_val_def shl_val_def shr_val_def shift_amount_def zero_value_def raw_to_int_def
      take_bit_eq_mod split: if_splits)

lemma shift_of_zero: "shift_val op a b = Some v \<Longrightarrow> zero_value a \<Longrightarrow> v = a"
  by (cases a; cases b)
    (auto simp: shift_val_def shl_val_def shr_val_def shift_amount_def zero_value_def raw_to_int_def
      split: if_splits)

lemma raw_to_int_div:
  assumes "0 \<le> n" and "n < 2 ^ w"
  shows "raw_to_int w s (take_bit w (raw_to_int w s n div 2 ^ k)) = raw_to_int w s n div 2 ^ k"
proof (rule raw_to_int_take_bit)
  let ?x = "raw_to_int w s n"
  note rng = raw_to_int_range [OF assms, of s]
  have one: "(1::int) \<le> 2 ^ k" by simp
  have up: "?x div 2 ^ k \<le> ?x" if "0 \<le> ?x"
    using that one zdiv_mono2 [of ?x 1 "2 ^ k"] by simp
  have low: "?x \<le> ?x div 2 ^ k" if "?x < 0"
    using that one zdiv_mono2_neg [of ?x 1 "2 ^ k"] by simp
  have sgn: "(0 \<le> ?x div 2 ^ k) = (0 \<le> ?x)"
    by (simp add: pos_imp_zdiv_nonneg_iff)
  show "if s then - (2 ^ w) \<le> 2 * (?x div 2 ^ k) \<and> 2 * (?x div 2 ^ k) < 2 ^ w
        else 0 \<le> ?x div 2 ^ k \<and> ?x div 2 ^ k < 2 ^ w"
  proof (cases "0 \<le> ?x")
    case True
    with rng up sgn show ?thesis by (auto split: if_splits)
  next
    case False
    with rng low sgn show ?thesis by (auto split: if_splits)
  qed
qed

lemma shift_shift:
  assumes "shift_val op a (VInt b) = Some x" and "shift_val op x (VInt c) = Some v" and "in_range a"
  shows "shift_val op a (VInt (b + c)) = Some v"
  using assms raw_to_int_div
  by (cases a)
    (auto simp: shift_val_def shl_val_def shr_val_def shift_amount_def nat_add_distrib
      mult_pow2_mod_mod div_pow2_add power_add mult.assoc take_bit_eq_mod zdiv_zmult2_eq
      mod_mult_left_eq split: if_splits)


lemma binop_shift: "op \<in> {Shl, Shr} \<Longrightarrow> binop_val op a b = shift_val op a b"
  by (auto simp: shift_val_def)

lemma shift_val_type: "shift_val op a b = Some v \<Longrightarrow> val_type v = val_type a"
  by (cases a)
    (auto simp: shift_val_def shl_val_def shr_val_def split: option.splits if_splits)

lemma reduce_shift_refines:
  assumes op: "op \<in> {Shl, Shr}"
  shows "refines_in env (Binary t op l r) (reduce_shift op t l r)"
proof (rule refines_inI)
  fix v
  have nl: "op \<noteq> LAnd" "op \<noteq> LOr" using op by auto
  assume ev: "eval env (Binary t op l r) = Some v"
  then obtain a b where l: "eval env l = Some a" and r: "eval env r = Some b"
    and v: "shift_val op a b = Some v" and ra: "in_range a" and rv: "in_range v"
    and ty: "val_type v = t" "val_type b = type_of r"
    using nl by (rule Binary_cases) (simp_all add: binop_shift [OF op])
  have rest: "eval env (if isZero l then l else Binary t op l r) = Some v"
    using ev l shift_of_zero [OF v] by (auto dest: isZero_eval)
  have zero: "eval env l = Some v" if "isZero r"
    using l shift_zero_amount [OF v _ ra] isZero_eval [OF that r] by simp
  have fuse: "eval env (Binary (type_of x) op x (Binary (type_of y) Add y r)) = Some v"
    if lx: "l = Binary t' op x y" and inf: "type_of y = Type_InfInt" "type_of r = Type_InfInt"
    for t' x y
  proof -
    from l [unfolded lx] obtain p q where p: "eval env x = Some p" and q: "eval env y = Some q"
      and a: "shift_val op p q = Some a" and rp: "in_range p"
      and qt: "val_type q = type_of y" "val_type p = type_of x"
      using nl by (rule Binary_cases) (simp_all add: binop_shift [OF op])
    from qt inf ty obtain k m where k: "q = VInt k" "b = VInt m"
      by (auto simp: val_type_InfInt)
    have "eval env (Binary (type_of y) Add y r) = Some (VInt (k + m))"
      using q r inf by (simp add: eval_Binary_Some num_val_Some k)
    moreover have "shift_val op p (VInt (k + m)) = Some v"
      using shift_shift [OF _ _ rp] a v k by simp
    ultimately show ?thesis
      using p rv qt shift_val_type [OF v] shift_val_type [OF a]
      by (simp add: eval_Binary_Some [OF nl] binop_shift [OF op])
  qed
  show "eval env (reduce_shift op t l r) = Some v"
    using rest zero fuse by (auto simp: reduce_shift_def Let_def split: expr.splits)
qed

lemma as_LNot_Some: "as_LNot e = Some a \<longleftrightarrow> (\<exists>t. e = Unary t LNot a)"
  by (auto simp: as_LNot_def split: expr.splits unop.splits)

lemma reduce_Mux_refines: "refines_in env (Mux t c a b) (reduce_Mux t c a b)"
proof (rule refines_inI)
  fix v
  assume ev: "eval env (Mux t c a b) = Some v"
  consider "isTrue a" "isFalse b" | "isFalse a" "isTrue b"
    | "\<not> (isTrue a \<and> isFalse b)" "\<not> (isFalse a \<and> isTrue b)" by blast
  then show "eval env (reduce_Mux t c a b) = Some v"
  proof cases
    case 3
    have red: "reduce_Mux t c a b =
        (case as_LNot c of Some c' \<Rightarrow> Mux t c' b a | None \<Rightarrow> if a = b then a else Mux t c a b)"
      by (simp only: reduce_Mux_def if_not_P [OF 3(1)] if_not_P [OF 3(2)])
    show ?thesis
    proof (cases "as_LNot c")
      case None
      with ev show ?thesis unfolding red by (auto simp: eval_Mux_Some)
    next
      case (Some c')
      then obtain t' where "c = Unary t' LNot c'" by (auto simp: as_LNot_Some)
      with ev Some show ?thesis unfolding red by (auto simp: eval_Mux_Some eval_LNot_Some)
    qed
  qed (use ev in \<open>auto simp: reduce_Mux_def isTrue_iff isFalse_iff eval_Mux_Some eval_LNot_Some\<close>)
qed

lemma reduce_Concat_refines: "refines_in env (Binary t Concat l r) (reduce_Concat t l r)"
proof (rule refines_inI)
  fix v
  assume ev: "eval env (Binary t Concat l r) = Some v"
  then obtain a b where "eval env l = Some a" "eval env r = Some b" "concat_val a b = Some v"
    "in_range a" "in_range b" "val_type a = type_of l" "val_type b = type_of r"
    by (rule Binary_cases) simp_all
  then obtain w s m w' n where lr: "eval env l = Some (VBits w s m)" "eval env r = Some (VBits w' s n)"
    and v: "v = VBits (w + w') s (m * 2 ^ w' + n)" and rng: "0 \<le> m" "m < 2 ^ w" "0 \<le> n" "n < 2 ^ w'"
    and ty: "type_of l = Type_Bits w s" "type_of r = Type_Bits w' s"
    by (cases a; cases b) (auto simp: concat_val_def split: if_splits)
  have "m = 0" if "w = 0" using that rng by simp
  moreover have "n = 0" if "w' = 0" using that rng by simp
  ultimately show "eval env (reduce_Concat t l r) = Some v"
    using ev lr v ty by (auto simp: reduce_Concat_def)
qed

lemma const_val_raw: "const_val t i = Some (VBits w s n) \<Longrightarrow> raw_to_int w s n = i"
  by (auto simp: const_val_def simp del: in_range_take_bit split: ty.splits if_splits
      intro!: raw_to_int_take_bit)

lemma index_const_val:
  assumes "const_val t i = Some b" and "index_val (VStack t' vs) b = Some v"
  shows "0 \<le> i \<and> i < int (length vs) \<and> v = vs ! nat i"
proof (cases b)
  case (VBits w s n)
  with assms const_val_raw [of t i w s n] show ?thesis
    by (auto simp: index_val_def Let_def split: if_splits)
qed (use assms in \<open>auto simp: const_val_def index_val_def split: ty.splits if_splits\<close>)

lemma reduce_ArrayIndex_refines:
  "refines_in env (Binary t ArrayIndex l r) (reduce_ArrayIndex t l r)"
proof (cases "\<exists>t' es t'' i. l = HeaderStackExpression t' es \<and> r = Constant t'' i")
  case False
  then have "reduce_ArrayIndex t l r = Binary t ArrayIndex l r"
    by (auto simp: reduce_ArrayIndex_def split: expr.splits)
  then show ?thesis by simp
next
  case True
  then obtain t' es t'' i where e: "l = HeaderStackExpression t' es" "r = Constant t'' i" by blast
  show ?thesis
  proof (rule refines_inI)
    fix v
    assume ev: "eval env (Binary t ArrayIndex l r) = Some v"
    then obtain a b where l: "eval env l = Some a" and r: "eval env r = Some b"
      and v: "index_val a b = Some v" by (rule Binary_cases) simp_all
    from l e obtain vs where vs: "map (eval env) es = map Some vs" and a: "a = VStack t' vs"
      by (auto simp: assign_or_return_Some all_some_Some stack_val_def split: if_splits)
    from vs have len: "length es = length vs" by (metis length_map)
    from r e v a have i: "0 \<le> i \<and> i < int (length vs) \<and> v = vs ! nat i"
      using index_const_val [of t'' i b t' vs v] by simp
    then have "eval env (es ! nat i) = Some (vs ! nat i)"
      using len vs by (metis nat_less_iff nth_map)
    with e i len show "eval env (reduce_ArrayIndex t l r) = Some v"
      by (simp add: reduce_ArrayIndex_def)
  qed
qed


section \<open>The pass\<close>

lemma reduce_refines: "refines_in env e (reduce e)"
proof (cases e)
  case (Unary t op a)
  then show ?thesis
    by (cases op)
      (auto simp: reduce_Cmpl_refines reduce_LNot_refines reduce_UPlus_def eval_Unary_Some
        intro: refines_inI)
next
  case (Binary t op l r)
  then show ?thesis
    by (cases op)
      (simp_all add: reduce_BAnd_refines reduce_BOr_refines reduce_BXor_refines reduce_Equ_refines
        reduce_Neq_refines reduce_LAnd_refines reduce_LOr_refines reduce_Sub_refines
        reduce_Add_refines reduce_Mul_refines reduce_Div_refines reduce_Mod_refines
        reduce_Concat_refines reduce_ArrayIndex_refines reduce_Shl_def reduce_Shr_def
        reduce_shift_refines, auto simp: refines_in_def eval_Binary_Some)
next
  case (Mux t c a b)
  then show ?thesis by (simp add: reduce_Mux_refines)
qed simp_all

lemma strength_reduce_refines: "refines_in env e (strength_reduce e)"
proof (induction e)
  case (Placeholder n d)
  then show ?case by (simp add: refines_in_def)
next
  case (Unary t op e)
  show ?case
    using refines_in_trans [OF refines_Unary [OF Unary.IH] reduce_refines] by simp
next
  case (Binary t op l r)
  show ?case
    using refines_in_trans [OF refines_Binary [OF Binary.IH] reduce_refines] by simp
next
  case (Slice t e hi lo)
  show ?case
    using refines_in_trans [OF refines_Slice [OF Slice.IH] reduce_refines] by simp
next
  case (Mux t c a b)
  show ?case
    using refines_in_trans [OF refines_Mux [OF Mux.IH] reduce_refines] by simp
qed (auto simp: reduce_refines intro: refines_lists)

text \<open>
  Claim C11. Strength reduction never changes the value of an expression: whenever the original
  expression has a value under an assignment of the symbolic variables, the reduced one has the
  same value.
\<close>

theorem strength_reduction_preserves_value:
  assumes "eval env e = Some v"
  shows "eval env (strength_reduce e) = Some v"
  using strength_reduce_refines assms by (rule refines_inD)

text \<open>
  Claim C20. An error is reported only where the node has no value: the divisor evaluates to zero
  or the constant index lies outside the stack, whatever the assignment of the variables.
\<close>

theorem reported_error_means_no_value:
  assumes "reduce_error e"
  shows "eval env e = None"
proof (rule ccontr)
  assume "eval env e \<noteq> None"
  then obtain v where ev: "eval env e = Some v" by blast
  from assms obtain t op l r where e: "e = Binary t op l r" and op: "op \<in> {Div, Mod, ArrayIndex}"
    by (cases e rule: reduce_error.cases) auto
  have nl: "op \<noteq> LAnd" "op \<noteq> LOr" using op by auto
  from ev e obtain a b where l: "eval env l = Some a" and r: "eval env r = Some b"
    and v: "binop_val op a b = Some v"
    using eval_Binary_Some [OF nl] by blast
  show False
  proof (cases "op = ArrayIndex")
    case True
    with assms e obtain t' es t'' i where lr: "l = HeaderStackExpression t' es" "r = Constant t'' i"
      and i: "i < 0 \<or> int (length es) \<le> i"
      by (auto split: expr.splits)
    from l lr obtain vs where "map (eval env) es = map Some vs" and a: "a = VStack t' vs"
      by (auto simp: assign_or_return_Some all_some_Some stack_val_def split: if_splits)
    then have "length es = length vs" by (metis length_map)
    then show False using index_const_val [of t'' i b t' vs v] i r lr v a True by simp
  next
    case False
    with op assms e have "isZero r" by auto
    then have "zero_value b" using r by (rule isZero_eval)
    with v op False show False by (auto dest: div_val_laws(1))
  qed
qed


text \<open>A concrete run of both claims: \<open>0xFF & x\<close> and a division by the constant zero.\<close>

theorem strength_reduction_preserves_value_witness:
  "eval (\<lambda>_. VBits 8 False 5)
     (Binary (Type_Bits 8 False) BAnd (Constant (Type_Bits 8 False) 255)
       (SymbolicVariable (SVar False (Type_Bits 8 False) ''x''))) = Some (VBits 8 False 5) \<and>
   eval (\<lambda>_. VBits 8 False 5)
     (strength_reduce (Binary (Type_Bits 8 False) BAnd (Constant (Type_Bits 8 False) 255)
       (SymbolicVariable (SVar False (Type_Bits 8 False) ''x'')))) = Some (VBits 8 False 5)"
proof -
  have h: "eval (\<lambda>_. VBits 8 False 5)
     (Binary (Type_Bits 8 False) BAnd (Constant (Type_Bits 8 False) 255)
       (SymbolicVariable (SVar False (Type_Bits 8 False) ''x''))) = Some (VBits 8 False 5)"
    by (simp add: eval_unfold const_val_def typed_def short_circuit_def bits_val_def take_bit_eq_mod)
  show ?thesis using h strength_reduction_preserves_value [OF h] by (rule conjI)
qed

theorem reported_error_means_no_value_witness:
  "eval (\<lambda>_. VBits 8 False 5)
     (Binary (Type_Bits 8 False) Div (Constant (Type_Bits 8 False) 7)
       (Constant (Type_Bits 8 False) 0)) = None"
  by (rule reported_error_means_no_value) (simp add: isZero_def)

section \<open>Key sets\<close>

text \<open>
  A key set matches a value: a mask compares the bits it selects, a range is inclusive, the default
  matches everything and any other expression matches its own value.
\<close>

definition value_matches :: "val \<Rightarrow> val \<Rightarrow> bool option" where
  "value_matches x v =
     (case (x, v) of
        (VBits w s m, VBits w' s' n) \<Rightarrow> if w = w' then Some (n = m) else None
      | _ \<Rightarrow> Some (v = x))"

fun keyset_matches :: "env \<Rightarrow> expr \<Rightarrow> val \<Rightarrow> bool option" where
  "keyset_matches env (Binary t Mask l r) v =
     (case (eval env l, eval env r, v) of
        (Some (VBits w s m), Some (VBits w' s' k), VBits w'' s'' n) \<Rightarrow>
          if w = w' \<and> w = w'' then Some (n AND k = m AND k) else None
      | _ \<Rightarrow> None)"
| "keyset_matches env (Binary t Range l r) v =
     (case (eval env l, eval env r, v) of
        (Some (VBits w s lo), Some (VBits w' s' hi), VBits w'' s'' n) \<Rightarrow>
          if w = w' \<and> w = w'' \<and> s = s' \<and> s = s''
          then Some (raw_to_int w s lo \<le> raw_to_int w s n \<and> raw_to_int w s n \<le> raw_to_int w s hi)
          else None
      | _ \<Rightarrow> None)"
| "keyset_matches env DefaultExpression v = Some True"
| "keyset_matches env e v = assign_or_return (eval env e) (\<lambda>x. value_matches x v)"

lemma eval_keyset: "eval env (Binary t Mask l r) \<noteq> Some x" "eval env (Binary t Range l r) \<noteq> Some x"
  by (auto simp: eval_Binary_Some)

lemma keyset_matches_value:
  assumes "eval env e = Some (VBits w s m)"
  shows "keyset_matches env e (VBits w s' n) = Some (n = m)"
  using assms eval_keyset
  by (cases "(env, e, VBits w s' n)" rule: keyset_matches.cases) (simp_all add: value_matches_def)

lemma raw_to_int_inj:
  "0 \<le> m \<Longrightarrow> m < 2 ^ w \<Longrightarrow> 0 \<le> n \<Longrightarrow> n < 2 ^ w \<Longrightarrow>
   raw_to_int w s m = raw_to_int w s n \<Longrightarrow> m = n"
  by (auto simp: raw_to_int_def split: if_splits)

lemma reduce_Mask_matches:
  assumes "keyset_matches env (Binary t Mask l r) v = Some b" and "in_range v"
  shows "keyset_matches env (reduce_Mask t l r) v = Some b"
proof (cases "isAllOnes r")
  case True
  from assms(1) obtain w s m s' k s'' n where l: "eval env l = Some (VBits w s m)"
    and r: "eval env r = Some (VBits w s' k)" and v: "v = VBits w s'' n"
    and b: "b = (n AND k = m AND k)"
    by (auto split: option.splits val.splits if_splits)
  have "k = mask w" using isAllOnes_eval [OF True r] by (simp add: ones_value_def)
  then have "b = (n = m)"
    using b assms(2) v eval_in_range [OF l] by (simp add: mask_and_in_range)
  with True l v show ?thesis by (simp add: reduce_Mask_def keyset_matches_value)
qed (use assms in \<open>simp add: reduce_Mask_def\<close>)

lemma reduce_Range_matches:
  assumes "keyset_matches env (Binary t Range l r) v = Some b" and "in_range v"
  shows "keyset_matches env (reduce_Range t l r) v = Some b"
proof (cases "\<exists>t0 t1 m. l = Constant t0 m \<and> r = Constant t1 m")
  case True
  then obtain t0 t1 i where lr: "l = Constant t0 i" "r = Constant t1 i" by blast
  from assms(1) obtain w s lo hi n where l: "eval env l = Some (VBits w s lo)"
    and r: "eval env r = Some (VBits w s hi)" and v: "v = VBits w s n"
    and b: "b = (raw_to_int w s lo \<le> raw_to_int w s n \<and> raw_to_int w s n \<le> raw_to_int w s hi)"
    by (auto split: option.splits val.splits if_splits)
  have "raw_to_int w s lo = i" "raw_to_int w s hi = i"
    using l r lr const_val_raw by auto
  moreover have "raw_to_int w s n = raw_to_int w s lo \<longleftrightarrow> n = lo"
    using raw_to_int_inj [of n w lo s] assms(2) v eval_in_range [OF l] by auto
  ultimately have "b = (n = lo)" using b by auto
  moreover have "reduce_Range t l r = l" by (simp add: reduce_Range_def lr)
  ultimately show ?thesis using l v by (simp add: keyset_matches_value)
next
  case False
  then have "reduce_Range t l r = Binary t Range l r"
    by (auto simp: reduce_Range_def split: expr.splits)
  with assms show ?thesis by simp
qed

text \<open>
  Simplifying a key set keeps what it matches: dropping an all-ones mask and collapsing
  a one-element range give a key set with the same answer on every value of the key.
\<close>

theorem keyset_reduction_keeps_matches:
  assumes "keyset_matches env e v = Some b" and "in_range v"
    and "e = Binary t Mask l r \<or> e = Binary t Range l r"
  shows "keyset_matches env (reduce e) v = Some b"
  using assms(3)
proof
  assume "e = Binary t Mask l r"
  with assms(1,2) show ?thesis by (simp only: reduce.simps reduce_Mask_matches)
next
  assume "e = Binary t Range l r"
  with assms(1,2) show ?thesis by (simp only: reduce.simps reduce_Range_matches)
qed

theorem keyset_reduction_keeps_matches_witness:
  "keyset_matches (\<lambda>_. VInt 0) (reduce (Binary Type_Unknown Range (Constant (Type_Bits 8 False) 3)
     (Constant (Type_Bits 8 False) 3))) (VBits 8 False 3) = Some True"
  by (rule keyset_reduction_keeps_matches [where t = Type_Unknown])
    (simp_all add: const_val_def)

end
