(* ===== verification/SimplifyExpression.thy ===== *)
theory SimplifyExpression
  imports IR
begin

text \<open>
  \<open>core/lib/simplify_expression.cpp\<close>: the rewriting of conditional (\<open>Mux\<close>) expressions. The class
  \<open>FoldExpression\<close> folds logical operations under a map of conditions with a known value
  (\<open>fold_expression\<close>), \<open>FoldMuxConditionDown\<close> applies it to the branches of a conditional
  under the branch's condition (\<open>fold_mux\<close>), \<open>LiftMuxConditions\<close> merges a conditional with one
  directly below it (\<open>lift_step\<close>, \<open>lift_mux\<close>), and \<open>simplify\<close> runs both, the passes of
  \<open>ExpressionRewriter\<close> that are always on. The third, optional pass is in
  \<open>CollapseDataplaneVariables\<close>.

  The expression map is keyed by semantic comparison of expressions, which is equality here. The
  lemmas show that both passes refine their argument; the conditional's lazy evaluation is what
  makes folding under a condition sound.
\<close>

section \<open>Folding under known conditions\<close>

type_synonym expression_map = "(expr \<times> bool) list"

definition optionalValue :: "expression_map \<Rightarrow> expr \<Rightarrow> bool option" where
  "optionalValue m cond =
     (case cond of BoolLiteral b \<Rightarrow> Some b | _ \<Rightarrow> map_of m cond)"

definition fold_LAnd :: "expression_map \<Rightarrow> ty \<Rightarrow> expr \<Rightarrow> expr \<Rightarrow> expr" where
  "fold_LAnd m t l r =
     (case optionalValue m l of
        Some lv \<Rightarrow>
          if lv then (case optionalValue m r of Some rv \<Rightarrow> BoolLiteral rv | None \<Rightarrow> r)
          else BoolLiteral False
      | None \<Rightarrow>
          (case optionalValue m r of
             Some rv \<Rightarrow> if rv then l else BoolLiteral False
           | None \<Rightarrow> Binary t LAnd l r))"

definition fold_LOr :: "expression_map \<Rightarrow> ty \<Rightarrow> expr \<Rightarrow> expr \<Rightarrow> expr" where
  "fold_LOr m t l r =
     (case optionalValue m l of
        Some lv \<Rightarrow>
          if lv then BoolLiteral True
          else (case optionalValue m r of Some rv \<Rightarrow> BoolLiteral rv | None \<Rightarrow> r)
      | None \<Rightarrow>
          (case optionalValue m r of
             Some rv \<Rightarrow> if rv then BoolLiteral True else l
           | None \<Rightarrow> Binary t LOr l r))"

definition fold_LNot :: "expression_map \<Rightarrow> ty \<Rightarrow> expr \<Rightarrow> expr" where
  "fold_LNot m t e = (case map_of m e of Some b \<Rightarrow> BoolLiteral (\<not> b) | None \<Rightarrow> Unary t LNot e)"

definition fold_Mux :: "expression_map \<Rightarrow> ty \<Rightarrow> expr \<Rightarrow> expr \<Rightarrow> expr \<Rightarrow> expr" where
  "fold_Mux m t c a b =
     (case optionalValue m c of
        Some cv \<Rightarrow> if cv then a else b
      | None \<Rightarrow> if a = b then a else Mux t c a b)"

fun fold_node :: "expression_map \<Rightarrow> expr \<Rightarrow> expr" where
  "fold_node m (Binary t LAnd l r) = fold_LAnd m t l r"
| "fold_node m (Binary t LOr l r) = fold_LOr m t l r"
| "fold_node m (Unary t LNot e) = fold_LNot m t e"
| "fold_node m (Mux t c a b) = fold_Mux m t c a b"
| "fold_node m e = e"

fun fold_expression :: "expression_map \<Rightarrow> expr \<Rightarrow> expr" where
  "fold_expression m (Placeholder n d) = Placeholder n (fold_expression m d)"
| "fold_expression m (Unary t op e) = fold_node m (Unary t op (fold_expression m e))"
| "fold_expression m (Binary t op l r) =
     fold_node m (Binary t op (fold_expression m l) (fold_expression m r))"
| "fold_expression m (Slice t e hi lo) = Slice t (fold_expression m e) hi lo"
| "fold_expression m (Mux t c a b) =
     fold_node m (Mux t (fold_expression m c) (fold_expression m a) (fold_expression m b))"
| "fold_expression m (ListExpression es) = ListExpression (map (fold_expression m) es)"
| "fold_expression m (StructExpression ns es) = StructExpression ns (map (fold_expression m) es)"
| "fold_expression m (HeaderStackExpression t es) =
     HeaderStackExpression t (map (fold_expression m) es)"
| "fold_expression m e = e"

text \<open>
  The pass itself: a conditional is folded once and not entered again (\<open>prune\<close>); its branches are
  folded under the folded condition.
\<close>

fun fold_mux :: "expr \<Rightarrow> expr" where
  "fold_mux (Mux t c a b) =
     (let c' = fold_expression [] c in
      Mux t c' (fold_expression [(c', True)] a) (fold_expression [(c', False)] b))"
| "fold_mux (Placeholder n d) = Placeholder n (fold_mux d)"
| "fold_mux (Unary t op e) = Unary t op (fold_mux e)"
| "fold_mux (Binary t op l r) = Binary t op (fold_mux l) (fold_mux r)"
| "fold_mux (Slice t e hi lo) = Slice t (fold_mux e) hi lo"
| "fold_mux (ListExpression es) = ListExpression (map fold_mux es)"
| "fold_mux (StructExpression ns es) = StructExpression ns (map fold_mux es)"
| "fold_mux (HeaderStackExpression t es) = HeaderStackExpression t (map fold_mux es)"
| "fold_mux e = e"

section \<open>Lifting conditions\<close>

definition lift_true_mux :: "expr \<Rightarrow> expr \<Rightarrow> expr \<Rightarrow> (expr \<times> expr \<times> expr) option" where
  "lift_true_mux c a b =
     (case a of
        Mux t c2 x y \<Rightarrow>
          if b = x then Some (mk_LAnd c (mk_LNot c2), y, b)
          else if b = y then Some (mk_LAnd c c2, x, b)
          else None
      | _ \<Rightarrow> None)"

definition lift_false_mux :: "expr \<Rightarrow> expr \<Rightarrow> expr \<Rightarrow> (expr \<times> expr \<times> expr) option" where
  "lift_false_mux c a b =
     (case b of
        Mux t c2 x y \<Rightarrow>
          if a = x then Some (mk_LOr c c2, a, y)
          else if a = y then Some (mk_LOr c (mk_LNot c2), a, x)
          else None
      | _ \<Rightarrow> None)"

definition lift_step :: "expr \<Rightarrow> expr \<Rightarrow> expr \<Rightarrow> expr \<times> expr \<times> expr" where
  "lift_step c a b =
     (case lift_true_mux c a b of
        Some r \<Rightarrow> r
      | None \<Rightarrow> (case lift_false_mux c a b of Some r \<Rightarrow> r | None \<Rightarrow> (c, a, b)))"

lemma lift_step_smaller:
  assumes "lift_step c a b = (c', a', b')"
  shows "esize c' < esize (Mux t c a b)" and "esize a' < esize (Mux t c a b)"
    and "esize b' < esize (Mux t c a b)"
  using assms
  by (auto simp: lift_step_def lift_true_mux_def lift_false_mux_def mk_defs
      split: option.splits expr.splits if_splits)

text \<open>
  The visitor rewrites a conditional before it enters it and drops it afterwards when both
  branches have become equal.
\<close>

function lift_mux :: "expr \<Rightarrow> expr" where
  "lift_mux (Mux t c a b) =
     (case lift_step c a b of
        (c', a', b') \<Rightarrow>
          let c'' = lift_mux c'; a'' = lift_mux a'; b'' = lift_mux b' in
          if a'' = b'' then a'' else Mux t c'' a'' b'')"
| "lift_mux (Placeholder n d) = Placeholder n (lift_mux d)"
| "lift_mux (Unary t op e) = Unary t op (lift_mux e)"
| "lift_mux (Binary t op l r) = Binary t op (lift_mux l) (lift_mux r)"
| "lift_mux (Slice t e hi lo) = Slice t (lift_mux e) hi lo"
| "lift_mux (ListExpression es) = ListExpression (map lift_mux es)"
| "lift_mux (StructExpression ns es) = StructExpression ns (map lift_mux es)"
| "lift_mux (HeaderStackExpression t es) = HeaderStackExpression t (map lift_mux es)"
| "lift_mux (BoolLiteral b) = BoolLiteral b"
| "lift_mux (Constant t n) = Constant t n"
| "lift_mux (StringLiteral s) = StringLiteral s"
| "lift_mux DefaultExpression = DefaultExpression"
| "lift_mux (SymbolicVariable x) = SymbolicVariable x"
  by pat_completeness auto
termination
  by (relation "measure esize")
    (auto dest: esize_elem simp: lift_step_smaller [OF sym] simp del: esize.simps(5))

section \<open>Simplification\<close>

definition simplify :: "expr \<Rightarrow> expr" where
  "simplify e = lift_mux (fold_mux e)"

definition produceSimplifiedMux :: "expr \<Rightarrow> expr \<Rightarrow> expr \<Rightarrow> expr" where
  "produceSimplifiedMux cond trueExpression falseExpression =
     simplify (Mux (type_of trueExpression) cond trueExpression falseExpression)"

section \<open>Folding is sound under its map\<close>

definition map_holds :: "env \<Rightarrow> expression_map \<Rightarrow> bool" where
  "map_holds env m \<longleftrightarrow> (\<forall>(k, b) \<in> set m. eval env k = Some (VBool b))"

lemma map_holds_lookup: "map_holds env m \<Longrightarrow> map_of m k = Some b \<Longrightarrow> eval env k = Some (VBool b)"
  by (auto simp: map_holds_def dest: map_of_SomeD)

lemma optionalValue_eval:
  "map_holds env m \<Longrightarrow> optionalValue m e = Some b \<Longrightarrow> eval env e = Some (VBool b)"
  by (cases e) (auto simp: optionalValue_def dest: map_holds_lookup)

lemma fold_LAnd_refines:
  assumes "map_holds env m"
  shows "refines_in env (Binary t LAnd l r) (fold_LAnd m t l r)"
  using optionalValue_eval [OF assms, of l] optionalValue_eval [OF assms, of r]
  by (auto intro!: refines_inI simp: fold_LAnd_def eval_LAnd_Some split: option.splits)

lemma fold_LOr_refines:
  assumes "map_holds env m"
  shows "refines_in env (Binary t LOr l r) (fold_LOr m t l r)"
  using optionalValue_eval [OF assms, of l] optionalValue_eval [OF assms, of r]
  by (auto intro!: refines_inI simp: fold_LOr_def eval_LOr_Some split: option.splits)

lemma fold_LNot_refines:
  assumes "map_holds env m"
  shows "refines_in env (Unary t LNot e) (fold_LNot m t e)"
  using map_holds_lookup [OF assms, of e]
  by (auto intro!: refines_inI simp: fold_LNot_def eval_LNot_Some split: option.splits)

lemma fold_Mux_refines:
  assumes "map_holds env m"
  shows "refines_in env (Mux t c a b) (fold_Mux m t c a b)"
  using optionalValue_eval [OF assms, of c]
  by (auto intro!: refines_inI simp: fold_Mux_def eval_Mux_Some split: option.splits)

lemma fold_node_refines:
  assumes "map_holds env m"
  shows "refines_in env e (fold_node m e)"
proof (cases e)
  case (Unary t op a)
  then show ?thesis by (cases op) (simp_all add: fold_LNot_refines assms)
next
  case (Binary t op l r)
  then show ?thesis by (cases op) (simp_all add: fold_LAnd_refines fold_LOr_refines assms)
qed (simp_all add: fold_Mux_refines assms)

lemma fold_expression_refines:
  assumes m: "map_holds env m"
  shows "refines_in env e (fold_expression m e)"
proof (induction e)
  case (Placeholder n d)
  then show ?case by (simp add: refines_in_def)
next
  case (Unary t op e)
  show ?case
    using refines_in_trans [OF refines_Unary [OF Unary.IH] fold_node_refines [OF m]] by simp
next
  case (Binary t op l r)
  show ?case
    using refines_in_trans [OF refines_Binary [OF Binary.IH] fold_node_refines [OF m]] by simp
next
  case (Mux t c a b)
  show ?case
    using refines_in_trans [OF refines_Mux [OF Mux.IH] fold_node_refines [OF m]] by simp
qed (auto intro: refines_Slice refines_lists)

lemma fold_mux_refines: "refines_in env e (fold_mux e)"
proof (induction e)
  case (Placeholder n d)
  then show ?case by (simp add: refines_in_def)
next
  case (Mux t c a b)
  define c' where "c' = fold_expression [] c"
  have c: "refines_in env c c'"
    unfolding c'_def by (rule fold_expression_refines) (simp add: map_holds_def)
  have "refines_in env a (fold_expression [(c', True)] a)" if "eval env c = Some (VBool True)"
    using refines_inD [OF c that] by (intro fold_expression_refines) (simp add: map_holds_def)
  moreover have "refines_in env b (fold_expression [(c', False)] b)"
    if "eval env c = Some (VBool False)"
    using refines_inD [OF c that] by (intro fold_expression_refines) (simp add: map_holds_def)
  ultimately have "refines_in env (Mux t c a b)
      (Mux t c' (fold_expression [(c', True)] a) (fold_expression [(c', False)] b))"
    using c by (intro refines_Mux)
  then show ?case by (simp add: c'_def Let_def)
qed (auto intro: refines_Unary refines_Binary refines_Slice refines_lists)

section \<open>Lifting is sound\<close>

text \<open>The four conditions the pass builds, by the value they take.\<close>

lemma lift_conditions:
  "eval env (mk_LAnd c d) = Some (VBool True) \<longleftrightarrow>
     eval env c = Some (VBool True) \<and> eval env d = Some (VBool True)"
  "eval env (mk_LAnd c d) = Some (VBool False) \<longleftrightarrow>
     eval env c = Some (VBool False) \<or>
     eval env c = Some (VBool True) \<and> eval env d = Some (VBool False)"
  "eval env (mk_LOr c d) = Some (VBool True) \<longleftrightarrow>
     eval env c = Some (VBool True) \<or>
     eval env c = Some (VBool False) \<and> eval env d = Some (VBool True)"
  "eval env (mk_LOr c d) = Some (VBool False) \<longleftrightarrow>
     eval env c = Some (VBool False) \<and> eval env d = Some (VBool False)"
  "eval env (mk_LNot c) = Some (VBool p) \<longleftrightarrow> eval env c = Some (VBool (\<not> p))"
  by (cases p; simp add: mk_defs eval_LAnd_Some eval_LOr_Some eval_LNot_Some)+

lemma lift_true_mux_Some:
  assumes "lift_true_mux c a b = Some (c', a', b')"
  obtains (first) u c2 y where "a = Mux u c2 b y" "c' = mk_LAnd c (mk_LNot c2)" "a' = y" "b' = b"
    | (second) u c2 x where "a = Mux u c2 x b" "c' = mk_LAnd c c2" "a' = x" "b' = b"
proof (cases a)
  case (Mux u c2 x y)
  show thesis
  proof (cases "b = x")
    case True
    show thesis by (rule first [of u c2 y]) (use assms Mux True in \<open>simp_all add: lift_true_mux_def\<close>)
  next
    case False
    with assms Mux have "b = y" by (simp add: lift_true_mux_def split: if_splits)
    with False show thesis
      by (intro second [of u c2 x]) (use assms Mux in \<open>simp_all add: lift_true_mux_def\<close>)
  qed
qed (use assms in \<open>simp_all add: lift_true_mux_def\<close>)

lemma lift_false_mux_Some:
  assumes "lift_false_mux c a b = Some (c', a', b')"
  obtains (first) u c2 y where "b = Mux u c2 a y" "c' = mk_LOr c c2" "a' = a" "b' = y"
    | (second) u c2 x where "b = Mux u c2 x a" "c' = mk_LOr c (mk_LNot c2)" "a' = a" "b' = x"
proof (cases b)
  case (Mux u c2 x y)
  show thesis
  proof (cases "a = x")
    case True
    show thesis by (rule first [of u c2 y]) (use assms Mux True in \<open>simp_all add: lift_false_mux_def\<close>)
  next
    case False
    with assms Mux have "a = y" by (simp add: lift_false_mux_def split: if_splits)
    with False show thesis
      by (intro second [of u c2 x]) (use assms Mux in \<open>simp_all add: lift_false_mux_def\<close>)
  qed
qed (use assms in \<open>simp_all add: lift_false_mux_def\<close>)

lemma lift_true_mux_refines:
  assumes "lift_true_mux c a b = Some (c', a', b')"
  shows "refines_in env (Mux t c a b) (Mux t c' a' b')"
  using assms
  by (cases rule: lift_true_mux_Some)
    (simp_all only: refines_in_def eval_Mux_Some lift_conditions not_True_eq_False not_False_eq_True,
      blast+)

lemma lift_false_mux_refines:
  assumes "lift_false_mux c a b = Some (c', a', b')"
  shows "refines_in env (Mux t c a b) (Mux t c' a' b')"
  using assms
  by (cases rule: lift_false_mux_Some)
    (simp_all only: refines_in_def eval_Mux_Some lift_conditions not_True_eq_False not_False_eq_True,
      blast+)

lemma lift_step_refines:
  assumes "lift_step c a b = (c', a', b')"
  shows "refines_in env (Mux t c a b) (Mux t c' a' b')"
  using assms
  by (auto simp: lift_step_def lift_true_mux_refines lift_false_mux_refines split: option.splits)

lemma refines_Mux_same: "refines_in env (Mux t c a a) a"
  by (auto simp: refines_in_def eval_Mux_Some)

lemma lift_mux_refines: "refines_in env e (lift_mux e)"
proof (induction e rule: lift_mux.induct)
  case (1 t c a b)
  obtain c' a' b' where step: "lift_step c a b = (c', a', b')" by (metis prod_cases3)
  have "refines_in env (Mux t c' a' b') (Mux t (lift_mux c') (lift_mux a') (lift_mux b'))"
    using 1(1) [OF step [symmetric] refl] 1(2) [OF step [symmetric] refl refl]
      1(3) [OF step [symmetric] refl refl refl] by (rule refines_Mux)
  with lift_step_refines [OF step] have
    "refines_in env (Mux t c a b) (Mux t (lift_mux c') (lift_mux a') (lift_mux b'))"
    by (rule refines_in_trans)
  note lifted = this
  show ?case
  proof (cases "lift_mux a' = lift_mux b'")
    case True
    with refines_in_trans [OF lifted] refines_Mux_same show ?thesis by (simp add: step)
  next
    case False
    with lifted show ?thesis by (simp add: step)
  qed
next
  case (2 n d)
  then show ?case by (simp add: refines_in_def)
qed (auto intro: refines_Unary refines_Binary refines_Slice refines_lists)

lemma simplify_refines: "refines_in env e (simplify e)"
  unfolding simplify_def by (rule refines_in_trans [OF fold_mux_refines lift_mux_refines])

text \<open>
  Claim C12. Simplification keeps the value of every expression: the conditions of conditionals are
  folded into their branches and merged upwards without changing what the expression evaluates to.
\<close>

theorem simplify_preserves_value:
  assumes "eval env e = Some v"
  shows "eval env (simplify e) = Some v"
  using simplify_refines assms by (rule refines_inD)

theorem simplify_preserves_value_witness:
  "eval (\<lambda>k. if snd k = ''x'' then VBool True else VBits 8 False 7)
     (simplify (Mux (Type_Bits 8 False) (SymbolicVariable (SVar False Type_Boolean ''x''))
       (Mux (Type_Bits 8 False) (SymbolicVariable (SVar False Type_Boolean ''x''))
         (SymbolicVariable (SVar False (Type_Bits 8 False) ''a'')) (Constant (Type_Bits 8 False) 1))
       (Constant (Type_Bits 8 False) 1))) = Some (VBits 8 False 7)"
  by (rule simplify_preserves_value) (simp add: eval_Mux_Some typed_def sv_key_def)

end
