(* ===== verification/CollapseDataplaneVariables.thy ===== *)
theory CollapseDataplaneVariables
  imports SimplifyExpression
begin

text \<open>
  \<open>core/lib/collapse_dataplane_variables.cpp\<close>: the optional pass that replaces expressions which
  depend on data-plane input by a fresh data-plane variable, and the complete
  \<open>SimplifyExpression::simplify\<close>, which runs it before the two passes of \<open>SimplifyExpression\<close> when
  the option is set.

  A \<open>bitvec\<close> is an integer whose binary digits are the set bits. \<open>rand()\<close> is a parameter: a
  function from a generator state to a number and the next state, threaded through the pass. A
  \<open>BUG\<close> (an expression class the code does not support) is \<open>None\<close>.
\<close>

section \<open>Fresh variables\<close>

definition alphaNumericCharacters :: string where
  "alphaNumericCharacters =
     ''0123456789'' @ ''ABCDEFGHIJKLMNOPQRSTUVWXYZ'' @ ''abcdefghijklmnopqrstuvwxyz''"

fun random_chars :: "('r \<Rightarrow> nat \<times> 'r) \<Rightarrow> nat \<Rightarrow> 'r \<Rightarrow> string \<times> 'r" where
  "random_chars rand 0 s = ([], s)"
| "random_chars rand (Suc k) s =
     (let (n, s') = rand s;
          (cs, s'') = random_chars rand k s' in
      (alphaNumericCharacters ! (n mod length alphaNumericCharacters) # cs, s''))"

definition generateRandomString :: "('r \<Rightarrow> nat \<times> 'r) \<Rightarrow> 'r \<Rightarrow> string \<times> 'r" where
  "generateRandomString rand s = random_chars rand 20 s"

definition getRandomDataPlaneVariable :: "('r \<Rightarrow> nat \<times> 'r) \<Rightarrow> ty \<Rightarrow> 'r \<Rightarrow> expr \<times> 'r" where
  "getRandomDataPlaneVariable rand t s =
     (let (l, s') = generateRandomString rand s in (DataPlaneVariable t l, s'))"

section \<open>Tainted bits\<close>

definition bitvec_range :: "nat \<Rightarrow> nat \<Rightarrow> int" where
  "bitvec_range lo sz = push_bit lo (mask sz)"

text \<open>A shift amount as an \<open>int\<close>; what the conversion makes of other constants is not modelled.\<close>

definition shift_int :: "int \<Rightarrow> nat option" where
  "shift_int n = (if 0 \<le> n \<and> n < 2 ^ 31 then Some (nat n) else None)"

fun computeDataPlaneBits :: "expr \<Rightarrow> int option" where
  "computeDataPlaneBits (SymbolicVariable x) =
     Some (if sv_dataplane x then bitvec_range 0 (width_bits (sv_type x)) else 0)"
| "computeDataPlaneBits (Slice t e hi lo) =
     assign_or_return (computeDataPlaneBits e) (\<lambda>b.
       Some (take_bit (width_bits t) (drop_bit lo b)))"
| "computeDataPlaneBits (Binary t op l r) =
     (if op = Concat then
        assign_or_return (computeDataPlaneBits l) (\<lambda>lb.
        assign_or_return (computeDataPlaneBits r) (\<lambda>rb.
          Some (push_bit (width_bits (type_of r)) lb OR rb)))
      else
        let fullmask = bitvec_range 0 (width_bits t) in
        if op = Shl then
          (case r of
             Constant rt n \<Rightarrow>
               assign_or_return (shift_int n) (\<lambda>k.
               assign_or_return (computeDataPlaneBits l) (\<lambda>lb. Some (fullmask AND push_bit k lb)))
           | _ \<Rightarrow> Some fullmask)
        else if op = Shr then
          (case r of
             Constant rt n \<Rightarrow>
               assign_or_return (shift_int n) (\<lambda>k.
               assign_or_return (computeDataPlaneBits l) (\<lambda>lb. Some (drop_bit k lb)))
           | _ \<Rightarrow> Some fullmask)
        else
          assign_or_return (computeDataPlaneBits l) (\<lambda>lb.
          assign_or_return (computeDataPlaneBits r) (\<lambda>rb.
            if op = BAnd \<or> op = BOr \<or> op = BXor then Some (lb OR rb)
            else if lb = 0 \<and> rb = 0 then Some 0 else Some fullmask)))"
| "computeDataPlaneBits (Unary t op e) = computeDataPlaneBits e"
| "computeDataPlaneBits (BoolLiteral b) = Some 0"
| "computeDataPlaneBits (Constant t n) = Some 0"
| "computeDataPlaneBits (StringLiteral s) = Some 0"
| "computeDataPlaneBits DefaultExpression = Some 0"
| "computeDataPlaneBits (Mux t c a b) =
     assign_or_return (computeDataPlaneBits a) (\<lambda>ab.
     assign_or_return (computeDataPlaneBits b) (\<lambda>bb. Some (ab AND bb)))"
| "computeDataPlaneBits (Placeholder l d) = None"
| "computeDataPlaneBits (ListExpression es) = None"
| "computeDataPlaneBits (StructExpression ns es) = None"
| "computeDataPlaneBits (HeaderStackExpression t es) = None"

section \<open>Collapsible expressions\<close>

definition or_else :: "bool option \<Rightarrow> bool option \<Rightarrow> bool option" where
  "or_else a b = assign_or_return a (\<lambda>p. if p then Some True else b)"

definition and_then :: "bool option \<Rightarrow> bool option \<Rightarrow> bool option" where
  "and_then a b = assign_or_return a (\<lambda>p. if p then b else Some False)"

fun hasDataPlaneVariable :: "expr \<Rightarrow> bool option" where
  "hasDataPlaneVariable (SymbolicVariable x) = Some (sv_dataplane x)"
| "hasDataPlaneVariable (StructExpression ns es) =
     foldr (\<lambda>r acc. or_else r acc) (map hasDataPlaneVariable es) (Some False)"
| "hasDataPlaneVariable (ListExpression es) =
     foldr (\<lambda>r acc. or_else r acc) (map hasDataPlaneVariable es) (Some False)"
| "hasDataPlaneVariable (Binary t op l r) =
     (if op = LAnd \<and> l = BoolLiteral False then Some False
      else if op = LOr \<and> l = BoolLiteral True then Some False
      else or_else (hasDataPlaneVariable l) (hasDataPlaneVariable r))"
| "hasDataPlaneVariable (Unary t op e) = hasDataPlaneVariable e"
| "hasDataPlaneVariable (BoolLiteral b) = Some False"
| "hasDataPlaneVariable (Constant t n) = Some False"
| "hasDataPlaneVariable (StringLiteral s) = Some False"
| "hasDataPlaneVariable (Slice t e hi lo) =
     assign_or_return (computeDataPlaneBits e) (\<lambda>b.
       Some (b AND bitvec_range lo (hi - lo + 1) \<noteq> 0))"
| "hasDataPlaneVariable (Mux t c a b) =
     and_then (hasDataPlaneVariable a) (hasDataPlaneVariable b)"
| "hasDataPlaneVariable DefaultExpression = Some False"
| "hasDataPlaneVariable (Placeholder l d) = None"
| "hasDataPlaneVariable (HeaderStackExpression t es) = None"

section \<open>The pass\<close>

definition propagate_unary :: "ty \<Rightarrow> unop \<Rightarrow> expr \<Rightarrow> expr option" where
  "propagate_unary t op e =
     (if op = Cast then Some (Unary t op e)
      else assign_or_return (hasDataPlaneVariable e) (\<lambda>h.
        Some (if h then e else Unary t op e)))"

definition is_relation :: "binop \<Rightarrow> bool" where
  "is_relation op \<longleftrightarrow> op \<in> {Equ, Neq, Lss, Leq, Grt, Geq}"

definition propagate_binary ::
  "('r \<Rightarrow> nat \<times> 'r) \<Rightarrow> ty \<Rightarrow> binop \<Rightarrow> expr \<Rightarrow> expr \<Rightarrow> 'r \<Rightarrow> (expr \<times> 'r) option" where
  "propagate_binary rand t op l r s =
     (if op = Concat then Some (Binary t op l r, s)
      else if op = LAnd then
        (case (l, r) of
           (SymbolicVariable x, SymbolicVariable y) \<Rightarrow>
             if sv_dataplane x \<and> sv_dataplane y
             then Some (getRandomDataPlaneVariable rand Type_Boolean s)
             else Some (Binary t op l r, s)
         | _ \<Rightarrow> Some (Binary t op l r, s))
      else if is_relation op then
        assign_or_return (or_else (hasDataPlaneVariable l) (hasDataPlaneVariable r)) (\<lambda>h.
          Some (if h then getRandomDataPlaneVariable rand Type_Boolean s
                else (Binary t op l r, s)))
      else
        assign_or_return (hasDataPlaneVariable l) (\<lambda>hl.
          if hl then Some (l, s)
          else assign_or_return (hasDataPlaneVariable r) (\<lambda>hr.
            Some (if hr then r else Binary t op l r, s))))"

definition propagate_slice ::
  "('r \<Rightarrow> nat \<times> 'r) \<Rightarrow> ty \<Rightarrow> expr \<Rightarrow> nat \<Rightarrow> nat \<Rightarrow> 'r \<Rightarrow> (expr \<times> 'r) option" where
  "propagate_slice rand t e hi lo s =
     assign_or_return (hasDataPlaneVariable (Slice t e hi lo)) (\<lambda>h.
       Some (if h then getRandomDataPlaneVariable rand (Type_Bits (1 + hi - lo) False) s
             else (Slice t e hi lo, s)))"

definition propagate_mux ::
  "('r \<Rightarrow> nat \<times> 'r) \<Rightarrow> ty \<Rightarrow> expr \<Rightarrow> expr \<Rightarrow> expr \<Rightarrow> 'r \<Rightarrow> (expr \<times> 'r) option" where
  "propagate_mux rand t c a b s =
     assign_or_return (and_then (hasDataPlaneVariable a) (hasDataPlaneVariable b)) (\<lambda>h.
       Some (if h then getRandomDataPlaneVariable rand t s else (Mux t c a b, s)))"

text \<open>
  The traversal: the children first, left to right, then the handler of the node; a conditional is
  handled before its children and not entered.
\<close>

fun propagate :: "('r \<Rightarrow> nat \<times> 'r) \<Rightarrow> expr \<Rightarrow> 'r \<Rightarrow> (expr \<times> 'r) option"
and propagate_list :: "('r \<Rightarrow> nat \<times> 'r) \<Rightarrow> expr list \<Rightarrow> 'r \<Rightarrow> (expr list \<times> 'r) option" where
  "propagate rand (Unary t op e) s =
     assign_or_return (propagate rand e s) (\<lambda>(e', s').
     assign_or_return (propagate_unary t op e') (\<lambda>r. Some (r, s')))"
| "propagate rand (Binary t op l r) s =
     assign_or_return (propagate rand l s) (\<lambda>(l', s1).
     assign_or_return (propagate rand r s1) (\<lambda>(r', s2). propagate_binary rand t op l' r' s2))"
| "propagate rand (Slice t e hi lo) s =
     assign_or_return (propagate rand e s) (\<lambda>(e', s'). propagate_slice rand t e' hi lo s')"
| "propagate rand (Mux t c a b) s = propagate_mux rand t c a b s"
| "propagate rand (Placeholder l d) s =
     assign_or_return (propagate rand d s) (\<lambda>(d', s'). Some (Placeholder l d', s'))"
| "propagate rand (ListExpression es) s =
     assign_or_return (propagate_list rand es s) (\<lambda>(es', s'). Some (ListExpression es', s'))"
| "propagate rand (StructExpression ns es) s =
     assign_or_return (propagate_list rand es s) (\<lambda>(es', s'). Some (StructExpression ns es', s'))"
| "propagate rand (HeaderStackExpression t es) s =
     assign_or_return (propagate_list rand es s) (\<lambda>(es', s').
       Some (HeaderStackExpression t es', s'))"
| "propagate rand e s = Some (e, s)"
| "propagate_list rand [] s = Some ([], s)"
| "propagate_list rand (e # es) s =
     assign_or_return (propagate rand e s) (\<lambda>(e', s').
     assign_or_return (propagate_list rand es s') (\<lambda>(es', s''). Some (e' # es', s'')))"

text \<open>\<open>SimplifyExpression::simplify\<close> with its options: the pass is appended to the other two.\<close>

definition simplify_with ::
  "bool \<Rightarrow> bool \<Rightarrow> ('r \<Rightarrow> nat \<times> 'r) \<Rightarrow> expr \<Rightarrow> 'r \<Rightarrow> (expr \<times> 'r) option" where
  "simplify_with collapseDataPlaneOperations skipParsers rand e s =
     (if collapseDataPlaneOperations \<and> \<not> skipParsers then propagate rand (simplify e) s
      else Some (simplify e, s))"

section \<open>Fresh labels\<close>

lemma random_chars_length: "length (fst (random_chars rand k s)) = k"
  by (induction k arbitrary: s) (auto simp: split_beta Let_def)

lemma random_chars_alphabet: "set (fst (random_chars rand k s)) \<subseteq> set alphaNumericCharacters"
proof (induction k arbitrary: s)
  case (Suc k)
  have "n mod length alphaNumericCharacters < length alphaNumericCharacters" for n
    by (simp add: alphaNumericCharacters_def)
  with Suc show ?case by (auto simp: split_beta Let_def)
qed simp

text \<open>
  The label of a fresh data-plane variable is a string of twenty characters of the
  alphanumeric alphabet, whatever the random numbers are: the index into the alphabet never leaves
  it (in particular it never reads the terminating zero of the array).
\<close>

theorem random_label_shape:
  "length (fst (generateRandomString rand s)) = 20 \<and>
   set (fst (generateRandomString rand s)) \<subseteq> set alphaNumericCharacters"
  by (simp add: generateRandomString_def random_chars_length random_chars_alphabet)

section \<open>Expressions without data-plane input\<close>

fun dataplane_free :: "expr \<Rightarrow> bool" where
  "dataplane_free (SymbolicVariable x) \<longleftrightarrow> \<not> sv_dataplane x"
| "dataplane_free (Placeholder l d) \<longleftrightarrow> dataplane_free d"
| "dataplane_free (Unary t op e) \<longleftrightarrow> dataplane_free e"
| "dataplane_free (Binary t op l r) \<longleftrightarrow> dataplane_free l \<and> dataplane_free r"
| "dataplane_free (Slice t e hi lo) \<longleftrightarrow> dataplane_free e"
| "dataplane_free (Mux t c a b) \<longleftrightarrow> dataplane_free c \<and> dataplane_free a \<and> dataplane_free b"
| "dataplane_free (ListExpression es) \<longleftrightarrow> (\<forall>e \<in> set es. dataplane_free e)"
| "dataplane_free (StructExpression ns es) \<longleftrightarrow> (\<forall>e \<in> set es. dataplane_free e)"
| "dataplane_free (HeaderStackExpression t es) \<longleftrightarrow> (\<forall>e \<in> set es. dataplane_free e)"
| "dataplane_free _ \<longleftrightarrow> True"

text \<open>
  The expressions the pass supports without a \<open>BUG\<close>. Under a slice, a shift by a non-constant
  amount is excluded as well: the code taints all its bits although no operand may be tainted.
\<close>

fun bits_supported :: "expr \<Rightarrow> bool" where
  "bits_supported (Unary t op e) \<longleftrightarrow> bits_supported e"
| "bits_supported (Binary t op l r) \<longleftrightarrow>
     bits_supported l \<and> bits_supported r \<and>
     (op \<in> {Shl, Shr} \<longrightarrow> (case r of Constant rt n \<Rightarrow> 0 \<le> n \<and> n < 2 ^ 31 | _ \<Rightarrow> False))"
| "bits_supported (Slice t e hi lo) \<longleftrightarrow> bits_supported e"
| "bits_supported (Mux t c a b) \<longleftrightarrow> bits_supported a \<and> bits_supported b"
| "bits_supported (Placeholder l d) \<longleftrightarrow> False"
| "bits_supported (ListExpression es) \<longleftrightarrow> False"
| "bits_supported (StructExpression ns es) \<longleftrightarrow> False"
| "bits_supported (HeaderStackExpression t es) \<longleftrightarrow> False"
| "bits_supported _ \<longleftrightarrow> True"

fun collapse_supported :: "expr \<Rightarrow> bool" where
  "collapse_supported (Unary t op e) \<longleftrightarrow> collapse_supported e"
| "collapse_supported (Binary t op l r) \<longleftrightarrow> collapse_supported l \<and> collapse_supported r"
| "collapse_supported (Slice t e hi lo) \<longleftrightarrow> bits_supported e \<and> collapse_supported e"
| "collapse_supported (Mux t c a b) \<longleftrightarrow> collapse_supported a \<and> collapse_supported b"
| "collapse_supported (ListExpression es) \<longleftrightarrow> (\<forall>e \<in> set es. collapse_supported e)"
| "collapse_supported (StructExpression ns es) \<longleftrightarrow> (\<forall>e \<in> set es. collapse_supported e)"
| "collapse_supported (HeaderStackExpression t es) \<longleftrightarrow> False"
| "collapse_supported (Placeholder l d) \<longleftrightarrow> False"
| "collapse_supported _ \<longleftrightarrow> True"

lemma dataplane_free_bits:
  "dataplane_free e \<Longrightarrow> bits_supported e \<Longrightarrow> computeDataPlaneBits e = Some 0"
proof (induction e)
  case (Binary t op l r)
  then have l: "computeDataPlaneBits l = Some 0" and r: "computeDataPlaneBits r = Some 0" by simp_all
  show ?case
  proof (cases "op \<in> {Shl, Shr}")
    case True
    with Binary.prems(2) obtain rt n where "r = Constant rt n" "0 \<le> n" "n < 2 ^ 31"
      by (cases r) auto
    with True l show ?thesis by (auto simp: shift_int_def)
  qed (simp add: l r)
qed simp_all

lemma has_any_False:
  "(\<And>e. e \<in> set es \<Longrightarrow> hasDataPlaneVariable e = Some False) \<Longrightarrow>
   foldr (\<lambda>r acc. or_else r acc) (map hasDataPlaneVariable es) (Some False) = Some False"
  by (induction es) (simp_all add: or_else_def)

lemma dataplane_free_has:
  "dataplane_free e \<Longrightarrow> collapse_supported e \<Longrightarrow> hasDataPlaneVariable e = Some False"
proof (induction e)
  case (ListExpression es)
  then show ?case by (simp add: has_any_False)
next
  case (StructExpression ns es)
  then show ?case by (simp add: has_any_False)
qed (simp_all add: or_else_def and_then_def dataplane_free_bits)

lemma propagate_free:
  "dataplane_free e \<Longrightarrow> collapse_supported e \<Longrightarrow> propagate rand e s = Some (e, s)"
  "\<forall>e \<in> set es. dataplane_free e \<and> collapse_supported e \<Longrightarrow> propagate_list rand es s = Some (es, s)"
proof (induction rand e s and rand es s rule: propagate_propagate_list.induct)
  case (2 rand t op l r s)
  then show ?case
    by (auto simp: propagate_binary_def dataplane_free_has or_else_def split: expr.split)
next
  case (3 rand t e hi lo s)
  then show ?case
    by (simp add: propagate_slice_def dataplane_free_bits)
qed (simp_all add: propagate_unary_def propagate_mux_def dataplane_free_has and_then_def)

text \<open>
  The pass only touches expressions that depend on data-plane input: on a supported
  expression without data-plane variables it succeeds, returns the expression unchanged and
  draws no random number.
\<close>

theorem collapse_keeps_control_plane:
  assumes "dataplane_free e" and "collapse_supported e"
  shows "propagate rand e s = Some (e, s)"
  using assms by (rule propagate_free(1))

theorem collapse_keeps_control_plane_witness:
  "propagate (\<lambda>n. (n, Suc n))
     (Mux Type_Boolean (BoolLiteral True)
       (mk_Equ (Slice (Type_Bits 4 False) (SymbolicVariable (SVar False (Type_Bits 8 False) ''x'')) 3 0)
         (Constant (Type_Bits 4 False) 2)) (BoolLiteral False)) (0 :: nat) =
   Some (Mux Type_Boolean (BoolLiteral True)
       (mk_Equ (Slice (Type_Bits 4 False) (SymbolicVariable (SVar False (Type_Bits 8 False) ''x'')) 3 0)
         (Constant (Type_Bits 4 False) 2)) (BoolLiteral False), 0)"
  by (rule collapse_keeps_control_plane) (simp_all add: mk_defs)

lemma variable_shift_taints_without_data_plane:
  "let x = SymbolicVariable (SVar False (Type_Bits 8 False) ''x'') in
   dataplane_free x \<and>
   computeDataPlaneBits (Binary (Type_Bits 8 False) Shl x x) = Some 255"
  by (simp add: Let_def bitvec_range_def mask_eq_exp_minus_1)

section \<open>Untainted bits do not depend on the data plane\<close>

text \<open>
  The fragment on which the tainted bits are a sound over-approximation: unsigned arithmetic on
  fixed-width values. Negation, casts and conditionals are outside it: the code gives a negation
  the bits of its operand, although a borrow reaches higher bits, and a conditional only the bits
  that both branches taint.
\<close>

fun taint_fragment :: "expr \<Rightarrow> bool" where
  "taint_fragment (Constant (Type_Bits w s) n) \<longleftrightarrow> \<not> s"
| "taint_fragment (SymbolicVariable x) \<longleftrightarrow> (\<exists>w. sv_type x = Type_Bits w False)"
| "taint_fragment (Unary t op e) \<longleftrightarrow> op = Cmpl \<and> taint_fragment e"
| "taint_fragment (Binary t op l r) \<longleftrightarrow>
     taint_fragment l \<and> taint_fragment r \<and>
     op \<in> {Concat, Shl, Shr, BAnd, BOr, BXor, Add, Sub, Mul, Div, Mod}"
| "taint_fragment (Slice t e hi lo) \<longleftrightarrow> taint_fragment e"
| "taint_fragment _ \<longleftrightarrow> False"

text \<open>Two environments that give every symbol of the control plane the same value.\<close>

definition same_control :: "env \<Rightarrow> env \<Rightarrow> bool" where
  "same_control env env' \<longleftrightarrow> (\<forall>l. env (False, l) = env' (False, l))"

definition agree_off :: "int \<Rightarrow> nat \<Rightarrow> int \<Rightarrow> int \<Rightarrow> bool" where
  "agree_off b w m n \<longleftrightarrow> (\<forall>i < w. \<not> bit b i \<longrightarrow> bit m i = bit n i)"

lemma taint_ops_cases:
  assumes "taint_fragment (Binary t op l r)"
  obtains "op = Concat" | "op = Shl" | "op = Shr" | "op \<in> {BAnd, BOr, BXor}"
    | "op \<in> {Add, Sub, Mul, Div, Mod}"
  using assms by auto

lemma taint_binary_value:
  assumes "taint_fragment (Binary t op l r)" and "eval env (Binary t op l r) = Some v"
  obtains a b where "eval env l = Some a" "eval env r = Some b" "binop_val op a b = Some v"
    "val_type v = t" "in_range v"
proof -
  have "op \<noteq> LAnd" "op \<noteq> LOr" using assms(1) by auto
  with assms(2) that show thesis by (auto simp: eval_Binary_Some)
qed

lemma taint_binop_unsigned:
  assumes "op \<in> {Concat, Shl, Shr, BAnd, BOr, BXor, Add, Sub, Mul, Div, Mod}"
    and "binop_val op (VBits w False m) (VBits w' False n) = Some v"
  shows "\<exists>u k. v = VBits u False k"
  using assms
  by (auto simp: concat_val_def shl_val_def shr_val_def bits_val_def num_val_def div_val_def
      split: option.splits if_splits)

lemma taint_fragment_unsigned:
  "taint_fragment e \<Longrightarrow> eval env e = Some v \<Longrightarrow> \<exists>w n. v = VBits w False n"
proof (induction e arbitrary: v)
  case (Constant t n)
  then show ?case by (cases t) (auto simp: const_val_def split: if_splits)
next
  case (SymbolicVariable x)
  then show ?case by (auto simp: typed_Some val_type_Bits)
next
  case (Unary t op e)
  then obtain u where "eval env e = Some u" "unop_val t Cmpl u = Some v"
    by (auto simp: eval_Unary_Some)
  with Unary show ?case by (fastforce split: val.splits)
next
  case (Binary t op l r)
  from Binary.prems obtain a b where ab: "eval env l = Some a" "eval env r = Some b"
    "binop_val op a b = Some v" by (rule taint_binary_value)
  moreover have "taint_fragment l" "taint_fragment r" using Binary.prems(1) by simp_all
  ultimately obtain w m w' n where "a = VBits w False m" "b = VBits w' False n"
    using Binary.IH by blast
  with ab(3) Binary.prems(1) show ?case
    by (intro taint_binop_unsigned [of op w m w' n]) simp_all
next
  case (Slice t e hi lo)
  then show ?case
    by (auto simp: eval_Slice_Some slice_val_Some)
qed simp_all

lemma taint_fragment_value:
  assumes "taint_fragment e" and "eval env e = Some v"
  obtains w n where "v = VBits w False n" and "type_of e = Type_Bits w False"
    and "0 \<le> n" and "n < 2 ^ w"
proof -
  from taint_fragment_unsigned [OF assms] obtain w n where "v = VBits w False n" by blast
  with eval_type [OF assms(2)] eval_in_range [OF assms(2)] that show thesis by auto
qed

lemma agree_all:
  assumes "agree_off 0 w m n" and "0 \<le> m" "m < 2 ^ w" "0 \<le> n" "n < 2 ^ w"
  shows "m = n"
proof -
  have "take_bit w m = take_bit w n"
    using assms(1) by (auto simp: agree_off_def bit_eq_iff bit_take_bit_iff)
  then show ?thesis using assms by simp
qed

lemma agree_full [simp]: "agree_off (bitvec_range 0 w) w m n"
  by (simp add: agree_off_def bitvec_range_def bit_mask_iff)

lemma agree_refl [simp]: "agree_off b w m m"
  by (simp add: agree_off_def)

lemma agree_Cmpl: "agree_off b w m n \<Longrightarrow> agree_off b w (take_bit w (NOT m)) (take_bit w (NOT n))"
  by (simp add: agree_off_def bit_simps)

lemma agree_slice:
  assumes "agree_off b w m n" and "lo \<le> hi" and "hi < w"
  shows "agree_off (take_bit (hi - lo + 1) (drop_bit lo b)) (hi - lo + 1)
    (take_bit (hi - lo + 1) (m div 2 ^ lo)) (take_bit (hi - lo + 1) (n div 2 ^ lo))"
  using assms by (auto simp: agree_off_def bit_simps simp flip: drop_bit_eq_div)

lemma bit_concat:
  assumes "0 \<le> n" and "n < 2 ^ w"
  shows "bit (m * 2 ^ w + n) i = (if i < w then bit n i else bit (m::int) (i - w))"
proof -
  have "m * 2 ^ w + n = push_bit w m + take_bit w n"
    using assms by (simp add: push_bit_eq_mult)
  also have "\<dots> = push_bit w m OR take_bit w n"
    by (rule disjunctive_add) (auto simp: bit_simps)
  finally show ?thesis by (auto simp: bit_simps)
qed

lemma agree_concat:
  assumes "agree_off b w m n" and "agree_off b' w' m' n'"
    and "0 \<le> m'" "m' < 2 ^ w'" "0 \<le> n'" "n' < 2 ^ w'"
  shows "agree_off (push_bit w' b OR b') (w + w') (m * 2 ^ w' + m') (n * 2 ^ w' + n')"
  using assms by (auto simp: agree_off_def bit_concat bit_simps)

lemma agree_shl:
  assumes "agree_off b w m n"
  shows "agree_off (bitvec_range 0 w AND push_bit k b) w
    (take_bit w (m * 2 ^ k)) (take_bit w (n * 2 ^ k))"
  using assms
  by (auto simp: agree_off_def bitvec_range_def bit_simps simp flip: push_bit_eq_mult)

lemma agree_shr:
  assumes "agree_off b w m n" and "m < 2 ^ w" "n < 2 ^ w" "0 \<le> m" "0 \<le> n"
  shows "agree_off (drop_bit k b) w (take_bit w (m div 2 ^ k)) (take_bit w (n div 2 ^ k))"
proof -
  have m: "m = take_bit w m" and n: "n = take_bit w n" using assms by simp_all
  have "bit m i = bit n i" if "\<not> bit b i" for i
    using assms(1) that by (subst m, subst n) (auto simp: agree_off_def bit_simps)
  then show ?thesis by (auto simp: agree_off_def bit_simps simp flip: drop_bit_eq_div)
qed

lemma agree_bitwise:
  assumes "agree_off b w m n" and "agree_off b' w m' n'"
  shows "agree_off (b OR b') w (take_bit w m AND take_bit w m') (take_bit w n AND take_bit w n')"
    and "agree_off (b OR b') w (take_bit w m OR take_bit w m') (take_bit w n OR take_bit w n')"
    and "agree_off (b OR b') w (take_bit w m XOR take_bit w m') (take_bit w n XOR take_bit w n')"
  using assms by (auto simp: agree_off_def bit_simps)

lemma shift_by_constant:
  assumes "eval env (Constant t n) = Some (VBits w False c)" and "shift_int n = Some k"
  shows "c = int k"
  using assms by (cases t) (auto simp: const_val_def shift_int_def split: if_splits)

lemma shift_bits_cases:
  assumes "computeDataPlaneBits (Binary t op l r) = Some b" and "op \<in> {Shl, Shr}"
  obtains (full) "b = bitvec_range 0 (width_bits t)"
    | (const) rt n k lb where "r = Constant rt n" "shift_int n = Some k"
        "computeDataPlaneBits l = Some lb"
        "b = (if op = Shl then bitvec_range 0 (width_bits t) AND push_bit k lb else drop_bit k lb)"
proof (cases r)
  case (Constant rt n)
  with assms const show thesis by (auto simp: assign_or_return_Some Let_def)
qed (use assms full in \<open>auto simp: Let_def\<close>)

text \<open>One operation on two operands whose tainted bits are sound.\<close>

lemma taint_sound_binop:
  assumes frag: "taint_fragment (Binary t op l r)"
    and bits: "computeDataPlaneBits (Binary t op l r) = Some b"
    and l: "eval env l = Some (VBits wl False ml)" "eval env' l = Some (VBits wl False nl)"
    and r: "eval env r = Some (VBits wr False mr)" "eval env' r = Some (VBits wr False nr)"
    and v: "binop_val op (VBits wl False ml) (VBits wr False mr) = Some (VBits w False m)"
    and v': "binop_val op (VBits wl False nl) (VBits wr False nr) = Some (VBits w False n)"
    and t: "t = Type_Bits w False"
    and agl: "\<And>lb. computeDataPlaneBits l = Some lb \<Longrightarrow> agree_off lb wl ml nl"
    and agr: "\<And>rb. computeDataPlaneBits r = Some rb \<Longrightarrow> agree_off rb wr mr nr"
  shows "agree_off b w m n"
proof -
  note ranges = l [THEN eval_in_range] r [THEN eval_in_range]
  have shift: "mr = int k \<and> nr = int k" if "r = Constant rt c" "shift_int c = Some k" for rt c k
    using r that shift_by_constant by blast
  from frag show ?thesis
  proof (cases rule: taint_ops_cases)
    case 1
    with bits obtain lb rb where "computeDataPlaneBits l = Some lb" "computeDataPlaneBits r = Some rb"
      "b = push_bit (width_bits (type_of r)) lb OR rb"
      by (auto simp: assign_or_return_Some)
    moreover have "type_of r = Type_Bits wr False" using eval_type [OF r(1)] by simp
    ultimately show ?thesis
      using 1 v v' agl agr ranges by (auto simp: concat_val_def intro!: agree_concat)
  next
    case 2
    with v have "w = wl" by (auto simp: shl_val_def split: option.splits)
    from 2 have "op \<in> {Shl, Shr}" by simp
    with bits show ?thesis
    proof (cases rule: shift_bits_cases)
      case full
      then show ?thesis by (simp add: t)
    next
      case (const rt c k lb)
      with 2 v v' shift [OF const(1,2)] agl [OF const(3)] show ?thesis
        by (auto simp: t shl_val_def shift_amount_def intro!: agree_shl)
    qed
  next
    case 3
    with v have "w = wl" by (auto simp: shr_val_def split: option.splits)
    from 3 have "op \<in> {Shl, Shr}" by simp
    with bits show ?thesis
    proof (cases rule: shift_bits_cases)
      case full
      then show ?thesis by (simp add: t)
    next
      case (const rt c k lb)
      with 3 v v' shift [OF const(1,2)] agl [OF const(3)] ranges show ?thesis
        by (auto simp: shr_val_def shift_amount_def raw_to_int_def intro!: agree_shr)
    qed
  next
    case 4
    with bits obtain lb rb where "computeDataPlaneBits l = Some lb" "computeDataPlaneBits r = Some rb"
      "b = lb OR rb"
      by (auto simp: assign_or_return_Some)
    with 4 v v' agl agr show ?thesis
      by (auto simp: bits_val_def agree_bitwise split: if_splits)
  next
    case 5
    with bits obtain lb rb where lb: "computeDataPlaneBits l = Some lb"
      and rb: "computeDataPlaneBits r = Some rb"
      and b: "(if lb = 0 \<and> rb = 0 then Some 0 else Some (bitvec_range 0 w)) = Some b"
      by (auto simp: assign_or_return_Some t)
    show ?thesis
    proof (cases "lb = 0 \<and> rb = 0")
      case True
      with agl [OF lb] agr [OF rb] ranges have "ml = nl" "mr = nr" by (auto dest: agree_all)
      with v v' show ?thesis by simp
    qed (use b in auto)
  qed
qed

lemma taint_sound:
  assumes "same_control env env'"
  shows "taint_fragment e \<Longrightarrow> computeDataPlaneBits e = Some b \<Longrightarrow>
    eval env e = Some (VBits w s m) \<Longrightarrow> eval env' e = Some (VBits w s n) \<Longrightarrow> agree_off b w m n"
proof (induction e arbitrary: b w s m n)
  case (SymbolicVariable x)
  then show ?case
    using assms by (auto simp: typed_Some same_control_def sv_key_def split: if_splits)
next
  case (Unary t op e)
  then obtain u v where "eval env e = Some u" "unop_val t Cmpl u = Some (VBits w s m)"
    "eval env' e = Some v" "unop_val t Cmpl v = Some (VBits w s n)"
    by (auto simp: eval_Unary_Some)
  with Unary show ?case by (auto split: val.splits intro!: agree_Cmpl)
next
  case (Binary t op l r)
  note fr = Binary.prems(1)
  from fr have frl: "taint_fragment l" and frr: "taint_fragment r" by simp_all
  from fr Binary.prems(3) obtain a c where ac: "eval env l = Some a" "eval env r = Some c"
    "binop_val op a c = Some (VBits w s m)" "t = Type_Bits w s"
    by (rule taint_binary_value) auto
  from fr Binary.prems(4) obtain a' c' where ac': "eval env' l = Some a'" "eval env' r = Some c'"
    "binop_val op a' c' = Some (VBits w s n)"
    by (rule taint_binary_value)
  obtain wl ml where a: "a = VBits wl False ml" "type_of l = Type_Bits wl False"
    using taint_fragment_value [OF frl ac(1)] by metis
  obtain wl' nl where a': "a' = VBits wl' False nl" "type_of l = Type_Bits wl' False"
    using taint_fragment_value [OF frl ac'(1)] by metis
  obtain wr mr where c: "c = VBits wr False mr" "type_of r = Type_Bits wr False"
    using taint_fragment_value [OF frr ac(2)] by metis
  obtain wr' nr where c': "c' = VBits wr' False nr" "type_of r = Type_Bits wr' False"
    using taint_fragment_value [OF frr ac'(2)] by metis
  have w: "wl' = wl" "wr' = wr" using a a' c c' by simp_all
  have s: "s = False" using taint_fragment_unsigned [OF fr Binary.prems(3)] by simp
  show ?case
  proof (rule taint_sound_binop [OF fr Binary.prems(2)])
    show l: "eval env l = Some (VBits wl False ml)" "eval env' l = Some (VBits wl False nl)"
      and r: "eval env r = Some (VBits wr False mr)" "eval env' r = Some (VBits wr False nr)"
      using ac ac' by (simp_all add: a a' c c' w)
    show "agree_off lb wl ml nl" if "computeDataPlaneBits l = Some lb" for lb
      using frl that l by (rule Binary.IH(1))
    show "agree_off rb wr mr nr" if "computeDataPlaneBits r = Some rb" for rb
      using frr that r by (rule Binary.IH(2))
  qed (use ac ac' in \<open>simp_all add: a a' c c' w s\<close>)
next
  case (Slice t e hi lo)
  from Slice.prems(3) obtain w1 s1 m' where m: "eval env e = Some (VBits w1 s1 m')"
    "lo \<le> hi" "hi < w1" "w = hi - lo + 1" "m = take_bit (hi - lo + 1) (m' div 2 ^ lo)"
    "t = Type_Bits w False"
    by (auto simp: eval_Slice_Some slice_val_Some)
  from Slice.prems(4) obtain w2 s2 n' where n: "eval env' e = Some (VBits w2 s2 n')"
    "n = take_bit (hi - lo + 1) (n' div 2 ^ lo)"
    by (auto simp: eval_Slice_Some slice_val_Some)
  from eval_type [OF m(1)] eval_type [OF n(1)] have "w2 = w1" "s2 = s1"
    by (metis val_type.simps(2) ty.inject(1))+
  note n = n [unfolded this]
  from Slice.prems(2) m(4,6) obtain lb where lb: "computeDataPlaneBits e = Some lb"
    "b = take_bit (hi - lo + 1) (drop_bit lo lb)" by (auto simp: assign_or_return_Some)
  have "agree_off lb w1 m' n'" using Slice.prems(1) lb(1) m(1) n(1) by (intro Slice.IH) simp_all
  then show ?case unfolding m(4,5) n(2) lb(2) using m(2,3) by (rule agree_slice)
qed auto



text \<open>
  Outside the fragment the computation is not an over-approximation: a negation carries a tainted
  low bit into the high ones, which the code reports as untainted.
\<close>

lemma negation_taint_incomplete:
  "let x = DataPlaneVariable (Type_Bits 4 False) ''x'';
       e = Unary (Type_Bits 8 False) Neg
             (Binary (Type_Bits 8 False) Concat (Constant (Type_Bits 4 False) 0) x);
       env = (\<lambda>k. VBits 4 False 0); env' = (\<lambda>k. VBits 4 False 1)
   in computeDataPlaneBits e = Some 15 \<and> same_control env (\<lambda>k. if fst k then env' k else env k) \<and>
      eval env e = Some (VBits 8 False 0) \<and>
      eval (\<lambda>k. if fst k then env' k else env k) e = Some (VBits 8 False 255)"
  by (simp add: Let_def same_control_def bitvec_range_def mask_eq_exp_minus_1 eval_unfold
      const_val_def typed_def sv_key_def short_circuit_def concat_val_def take_bit_eq_mod)

end
