(* ===== verification/OrderedContainers.thy ===== *)
theory OrderedContainers
  imports Prelude
begin

text \<open>
  The containers the control-plane state is kept in, as the code uses them.

  An \<open>ordered_map\<close> iterates in insertion order and finds a key with its comparator: an
  association list with at most one pair per key (\<open>distinct_keys\<close>). A \<open>std::set\<close> or
  \<open>std::map\<close> is sorted by a comparator and holds one representative of every class of
  incomparable elements: a list that is strictly increasing (\<open>sorted_wrt\<close>).

  \<open>strict_order\<close> is what the containers expect of a comparator, a strict weak order;
  \<open>assignment_store\<close> is what the clients of the maps expect of them.
\<close>

section \<open>Ordered maps\<close>

text \<open>
  Two keys are the same for the map when \<open>kf\<close> gives them the same image (the comparator finds
  neither smaller); the key that was inserted first is the one that stays.
\<close>

type_synonym ('k, 'v) ordered_map = "('k \<times> 'v) list"

fun om_find :: "('k \<Rightarrow> 'q) \<Rightarrow> ('k, 'v) ordered_map \<Rightarrow> 'k \<Rightarrow> 'v option" where
  "om_find kf [] k = None"
| "om_find kf ((k', v) # m) k = (if kf k = kf k' then Some v else om_find kf m k)"

text \<open>\<open>emplace\<close> and \<open>insert\<close> append a new key and leave an existing one alone.\<close>

definition om_emplace ::
  "('k \<Rightarrow> 'q) \<Rightarrow> ('k, 'v) ordered_map \<Rightarrow> 'k \<Rightarrow> 'v \<Rightarrow> ('k, 'v) ordered_map" where
  "om_emplace kf m k v = (if om_find kf m k = None then m @ [(k, v)] else m)"

text \<open>\<open>it->second = v\<close> for the iterator \<open>it\<close> found at \<open>k\<close>.\<close>

fun om_assign :: "('k \<Rightarrow> 'q) \<Rightarrow> ('k, 'v) ordered_map \<Rightarrow> 'k \<Rightarrow> 'v \<Rightarrow> ('k, 'v) ordered_map" where
  "om_assign kf [] k v = []"
| "om_assign kf ((k', v') # m) k v =
     (if kf k = kf k' then (k', v) # m else (k', v') # om_assign kf m k v)"

definition distinct_keys :: "('k \<Rightarrow> 'q) \<Rightarrow> ('k, 'v) ordered_map \<Rightarrow> bool" where
  "distinct_keys kf m \<longleftrightarrow> distinct (map (kf \<circ> fst) m)"

lemma om_find_None: "om_find kf m k = None \<longleftrightarrow> kf k \<notin> (kf \<circ> fst) ` set m"
proof (induction m)
  case (Cons kv m)
  then show ?case by (cases kv) auto
qed simp

lemma om_find_cong: "kf k = kf k' \<Longrightarrow> om_find kf m k = om_find kf m k'"
  by (induction m) auto

lemma om_find_append:
  "om_find kf (m @ m') k = (case om_find kf m k of Some v \<Rightarrow> Some v | None \<Rightarrow> om_find kf m' k)"
  by (induction m) auto

lemma om_find_emplace [store_simps]:
  "om_find kf (om_emplace kf m k v) k' =
     (if om_find kf m k = None \<and> kf k' = kf k then Some v else om_find kf m k')"
proof (cases "om_find kf m k")
  case None
  have "om_find kf m k' = None" if "kf k' = kf k"
    using None om_find_cong [of kf k' k m] that by simp
  with None show ?thesis by (auto simp: om_emplace_def om_find_append split: option.splits)
qed (simp add: om_emplace_def)

lemma om_find_assign [store_simps]:
  "om_find kf (om_assign kf m k v) k' =
     (if kf k' = kf k \<and> om_find kf m k \<noteq> None then Some v else om_find kf m k')"
  by (induction m) (auto split: if_splits)

lemma om_assign_keys [simp]: "map (kf \<circ> fst) (om_assign kf m k v) = map (kf \<circ> fst) m"
  by (induction m) auto

lemma om_assign_vars [simp]: "map fst (om_assign kf m k v) = map fst m"
  by (induction m) auto

lemma distinct_keys_Nil [simp]: "distinct_keys kf []"
  by (simp add: distinct_keys_def)

lemma distinct_keys_emplace [store_simps]: "distinct_keys kf (om_emplace kf m k v) = distinct_keys kf m"
  by (auto simp: distinct_keys_def om_emplace_def om_find_None)

lemma distinct_keys_assign [store_simps]: "distinct_keys kf (om_assign kf m k v) = distinct_keys kf m"
  by (simp only: distinct_keys_def om_assign_keys)

lemma om_find_in_set: "distinct_keys kf m \<Longrightarrow> (k, v) \<in> set m \<Longrightarrow> om_find kf m k = Some v"
  by (induction m) (auto simp: distinct_keys_def image_iff)

lemma om_find_SomeD: "om_find kf m k = Some v \<Longrightarrow> \<exists>k'. (k', v) \<in> set m \<and> kf k' = kf k"
  by (induction m) (auto split: if_splits)

section \<open>Comparators\<close>

locale strict_order =
  fixes lt :: "'a \<Rightarrow> 'a \<Rightarrow> bool"
  assumes irrefl: "\<not> lt x x"
    and trans: "lt x y \<Longrightarrow> lt y z \<Longrightarrow> lt x z"
    and incomparable_trans:
      "\<not> lt x y \<Longrightarrow> \<not> lt y x \<Longrightarrow> \<not> lt y z \<Longrightarrow> \<not> lt z y \<Longrightarrow> \<not> lt x z \<and> \<not> lt z x"
begin

definition same :: "'a \<Rightarrow> 'a \<Rightarrow> bool" where
  "same x y \<longleftrightarrow> \<not> lt x y \<and> \<not> lt y x"

lemma same_refl [simp]: "same x x"
  by (simp add: same_def irrefl)

lemma same_sym: "same x y \<Longrightarrow> same y x"
  by (simp add: same_def)

lemma same_trans: "same x y \<Longrightarrow> same y z \<Longrightarrow> same x z"
  using incomparable_trans [of x y z] by (simp add: same_def)

lemma asym: "lt x y \<Longrightarrow> \<not> lt y x"
  using trans [of x y x] irrefl [of x] by blast

lemma lt_same_left:
  assumes "same x y" and "lt x z"
  shows "lt y z"
  using assms incomparable_trans [of x y z] trans [of x z y] unfolding same_def by metis

lemma lt_same_right:
  assumes "same x y" and "lt z x"
  shows "lt z y"
  using assms incomparable_trans [of x y z] trans [of y z x] unfolding same_def by metis

end

lemma strict_order_measure:
  fixes f :: "'a \<Rightarrow> 'b :: linorder"
  shows "strict_order (\<lambda>x y. f x < f y)"
proof unfold_locales
  fix x y z
  show "\<not> f x < f x" by simp
  show "f x < f z" if "f x < f y" "f y < f z" using that by (rule less_trans)
  show "\<not> f x < f z \<and> \<not> f z < f x"
    if "\<not> f x < f y" "\<not> f y < f x" "\<not> f y < f z" "\<not> f z < f y"
    using that by (simp add: not_less)
qed

lemma strict_order_image:
  assumes "strict_order lt"
  shows "strict_order (\<lambda>x y. lt (f x) (f y))"
proof
  show "\<not> lt (f x) (f x)" for x by (rule strict_order.irrefl [OF assms])
  show "lt (f x) (f z)" if "lt (f x) (f y)" "lt (f y) (f z)" for x y z
    using that by (rule strict_order.trans [OF assms])
  show "\<not> lt (f x) (f z) \<and> \<not> lt (f z) (f x)"
    if "\<not> lt (f x) (f y)" "\<not> lt (f y) (f x)" "\<not> lt (f y) (f z)" "\<not> lt (f z) (f y)" for x y z
    using that by (rule strict_order.incomparable_trans [OF assms])
qed

text \<open>Pairs and lists compared lexicographically.\<close>

definition lex_pair :: "('a \<Rightarrow> 'a \<Rightarrow> bool) \<Rightarrow> ('b \<Rightarrow> 'b \<Rightarrow> bool) \<Rightarrow> 'a \<times> 'b \<Rightarrow> 'a \<times> 'b \<Rightarrow> bool" where
  "lex_pair r s p q \<longleftrightarrow> r (fst p) (fst q) \<or> \<not> r (fst q) (fst p) \<and> s (snd p) (snd q)"

fun lex_list :: "('a \<Rightarrow> 'a \<Rightarrow> bool) \<Rightarrow> 'a list \<Rightarrow> 'a list \<Rightarrow> bool" where
  "lex_list r [] ys = (ys \<noteq> [])"
| "lex_list r (x # xs) [] = False"
| "lex_list r (x # xs) (y # ys) = (if r x y then True else if r y x then False else lex_list r xs ys)"

lemma lex_pair_alt:
  assumes "strict_order r"
  shows "lex_pair r s p q \<longleftrightarrow>
    r (fst p) (fst q) \<or> strict_order.same r (fst p) (fst q) \<and> s (snd p) (snd q)"
  using assms by (auto simp: lex_pair_def strict_order.same_def)

lemma lex_pair_same:
  assumes "strict_order r"
  shows "\<not> lex_pair r s p q \<and> \<not> lex_pair r s q p \<longleftrightarrow>
    strict_order.same r (fst p) (fst q) \<and> \<not> s (snd p) (snd q) \<and> \<not> s (snd q) (snd p)"
  using assms by (auto simp: lex_pair_def strict_order.same_def)

lemma strict_order_lex_pair:
  assumes r: "strict_order r" and s: "strict_order s"
  shows "strict_order (lex_pair r s)"
proof
  fix x y z
  show "\<not> lex_pair r s x x"
    by (simp add: lex_pair_def strict_order.irrefl [OF r] strict_order.irrefl [OF s])
  show "lex_pair r s x z" if xy: "lex_pair r s x y" and yz: "lex_pair r s y z"
  proof -
    consider "r (fst x) (fst y)" | "strict_order.same r (fst x) (fst y)" "s (snd x) (snd y)"
      using xy unfolding lex_pair_alt [OF r] by blast
    then show ?thesis
    proof cases
      case 1
      then have "r (fst x) (fst z)"
        using yz strict_order.trans [OF r] strict_order.lt_same_right [OF r]
        unfolding lex_pair_alt [OF r] by metis
      then show ?thesis by (simp add: lex_pair_def)
    next
      case 2
      then have "r (fst x) (fst z) \<or> strict_order.same r (fst x) (fst z) \<and> s (snd x) (snd z)"
        using yz strict_order.lt_same_left [OF r strict_order.same_sym [OF r]]
          strict_order.same_trans [OF r] strict_order.trans [OF s]
        unfolding lex_pair_alt [OF r] by metis
      then show ?thesis by (simp add: lex_pair_alt [OF r])
    qed
  qed
  show "\<not> lex_pair r s x z \<and> \<not> lex_pair r s z x"
    if "\<not> lex_pair r s x y" "\<not> lex_pair r s y x" "\<not> lex_pair r s y z" "\<not> lex_pair r s z y"
    using that lex_pair_same [OF r, of s x y] lex_pair_same [OF r, of s y z]
      lex_pair_same [OF r, of s x z] strict_order.same_trans [OF r, of "fst x" "fst y" "fst z"]
      strict_order.incomparable_trans [OF s, of "snd x" "snd y" "snd z"] by blast
qed

context strict_order
begin

lemma lex_list_irrefl: "\<not> lex_list lt xs xs"
  by (induction xs) (simp_all add: irrefl)

lemma lex_list_same: "\<not> lex_list lt xs ys \<and> \<not> lex_list lt ys xs \<longleftrightarrow> list_all2 same xs ys"
proof (induction xs arbitrary: ys)
  case Nil
  then show ?case by (cases ys) simp_all
next
  case (Cons x xs)
  then show ?case by (cases ys) (auto simp: same_def)
qed

lemma lex_list_Cons: "lex_list lt (x # xs) (y # ys) \<longleftrightarrow> lt x y \<or> same x y \<and> lex_list lt xs ys"
  by (auto simp: same_def)

lemma lex_list_trans: "lex_list lt xs ys \<Longrightarrow> lex_list lt ys zs \<Longrightarrow> lex_list lt xs zs"
proof (induction xs arbitrary: ys zs)
  case Nil
  then show ?case by (cases ys; cases zs) simp_all
next
  case (Cons x xs)
  then obtain y ys' where ys: "ys = y # ys'" by (cases ys) auto
  with Cons.prems obtain z zs' where zs: "zs = z # zs'" by (cases zs) auto
  from Cons.prems show ?case
    unfolding ys zs lex_list_Cons
    using Cons.IH [of ys' zs'] trans [of x y z] lt_same_left [of y x z] lt_same_right [of y z x]
      same_trans [of x y z] same_sym [of x y] by metis
qed

lemma strict_order_lex_list: "strict_order (lex_list lt)"
proof
  fix xs ys zs
  show "\<not> lex_list lt xs xs" by (rule lex_list_irrefl)
  show "lex_list lt xs zs" if "lex_list lt xs ys" "lex_list lt ys zs"
    using that by (rule lex_list_trans)
  show "\<not> lex_list lt xs zs \<and> \<not> lex_list lt zs xs"
    if "\<not> lex_list lt xs ys" "\<not> lex_list lt ys xs" "\<not> lex_list lt ys zs" "\<not> lex_list lt zs ys"
    using that list_all2_trans [of same same same xs ys zs] same_trans lex_list_same by metis
qed

end

section \<open>Sorted sets\<close>

fun set_contains :: "('a \<Rightarrow> 'a \<Rightarrow> bool) \<Rightarrow> 'a \<Rightarrow> 'a list \<Rightarrow> bool" where
  "set_contains lt x [] = False"
| "set_contains lt x (y # ys) =
     (if lt y x then set_contains lt x ys else \<not> lt x y)"

fun set_emplace :: "('a \<Rightarrow> 'a \<Rightarrow> bool) \<Rightarrow> 'a \<Rightarrow> 'a list \<Rightarrow> 'a list" where
  "set_emplace lt x [] = [x]"
| "set_emplace lt x (y # ys) =
     (if lt y x then y # set_emplace lt x ys else if lt x y then x # y # ys else y # ys)"

fun set_erase :: "('a \<Rightarrow> 'a \<Rightarrow> bool) \<Rightarrow> 'a \<Rightarrow> 'a list \<Rightarrow> 'a list" where
  "set_erase lt x [] = []"
| "set_erase lt x (y # ys) =
     (if lt y x then y # set_erase lt x ys else if lt x y then y # ys else ys)"

context strict_order
begin

lemma set_emplace_elems: "set (set_emplace lt x ys) \<subseteq> insert x (set ys)"
  by (induction ys) auto

lemma set_emplace_sorted: "sorted_wrt lt ys \<Longrightarrow> sorted_wrt lt (set_emplace lt x ys)"
proof (induction ys)
  case (Cons y ys)
  have "lt y z" if "z \<in> set (set_emplace lt x ys)" "lt y x" for z
    using that Cons.prems set_emplace_elems [of x ys] by auto
  moreover have "lt x z" if "z \<in> set ys" "lt x y" for z
    using that Cons.prems trans [of x y z] by simp
  ultimately show ?case using Cons by simp
qed simp

lemma set_erase_elems: "set (set_erase lt x ys) \<subseteq> set ys"
  by (induction ys) auto

lemma set_erase_sorted: "sorted_wrt lt ys \<Longrightarrow> sorted_wrt lt (set_erase lt x ys)"
  by (induction ys) (use set_erase_elems in \<open>auto simp: subset_eq\<close>)

lemma set_contains_iff: "sorted_wrt lt ys \<Longrightarrow> set_contains lt x ys \<longleftrightarrow> (\<exists>y \<in> set ys. same x y)"
proof (induction ys)
  case (Cons y ys)
  show ?case
  proof (cases "lt y x")
    case True
    with Cons show ?thesis by (auto simp: same_def)
  next
    case False
    have "\<not> same x z" if "z \<in> set ys" "lt x y" for z
      using that Cons.prems trans by (auto simp: same_def)
    with False show ?thesis by (auto simp: same_def)
  qed
qed simp

lemma set_emplace_contained: "set_contains lt x ys \<Longrightarrow> set_emplace lt x ys = ys"
  by (induction ys) (auto split: if_splits)

lemma set_emplace_new:
  "\<not> set_contains lt x ys \<Longrightarrow> set (set_emplace lt x ys) = insert x (set ys)"
  by (induction ys) (auto split: if_splits)

lemma set_emplace_length:
  "length (set_emplace lt x ys) = (if set_contains lt x ys then length ys else Suc (length ys))"
  by (induction ys) auto

lemma set_erase_set:
  assumes "sorted_wrt lt ys"
  shows "set (set_erase lt x ys) = {y \<in> set ys. \<not> same x y}"
  using assms
proof (induction ys)
  case (Cons y ys)
  have later: "\<not> same x z" if "z \<in> set ys" "\<not> lt y x" for z
    using that Cons.prems lt_same_right [of z x y] same_sym [of x z] by auto
  with Cons show ?case by (auto simp: same_def)
qed simp

lemma set_erase_not_contained: "\<not> set_contains lt x ys \<Longrightarrow> set_erase lt x ys = ys"
  by (induction ys) (auto split: if_splits)

lemma set_erase_length:
  "length ys = length (set_erase lt x ys) + (if set_contains lt x ys then 1 else 0)"
  by (induction ys) auto

lemma set_erase_removes: "sorted_wrt lt ys \<Longrightarrow> \<not> set_contains lt x (set_erase lt x ys)"
  using set_contains_iff [OF set_erase_sorted] set_erase_set by auto

lemma set_erase_emplace:
  "\<not> set_contains lt x ys \<Longrightarrow> set_erase lt x (set_emplace lt x ys) = ys \<and> set_contains lt x (set_emplace lt x ys)"
  by (induction ys) (auto simp: irrefl split: if_splits)

text \<open>Insertion after an optional erasure, and erasure, seen as sets.\<close>

lemma set_replace:
  assumes "sorted_wrt lt ys"
  shows "(\<not> set_contains lt x (if b then set_erase lt x ys else ys)) =
      (b \<or> (\<forall>y \<in> set ys. \<not> same x y)) \<and>
    set (set_emplace lt x (if b then set_erase lt x ys else ys)) =
      (if b \<or> (\<forall>y \<in> set ys. \<not> same x y) then insert x {y \<in> set ys. \<not> same x y} else set ys)"
proof (cases b)
  case True
  with assms show ?thesis by (simp add: set_emplace_new set_erase_removes set_erase_set)
next
  case False
  show ?thesis
  proof (cases "set_contains lt x ys")
    case True
    with False assms show ?thesis by (auto simp: set_emplace_contained set_contains_iff)
  next
    case notin: False
    with assms have "\<forall>y \<in> set ys. \<not> same x y" by (simp add: set_contains_iff)
    with False notin show ?thesis by (auto simp: set_emplace_new)
  qed
qed

lemma set_remove:
  assumes "sorted_wrt lt ys"
  shows "length ys = length (set_erase lt x ys) + (if set_contains lt x ys then 1 else 0) \<and>
    set (set_erase lt x ys) = {y \<in> set ys. \<not> same x y}"
  using assms set_erase_length set_erase_set by blast

end

section \<open>Sorted maps\<close>

text \<open>A \<open>std::map\<close>: pairs sorted by key. \<open>insert\<close> and \<open>emplace\<close> leave a present key alone.\<close>

type_synonym ('k, 'v) std_map = "('k \<times> 'v) list"

definition map_find :: "('k, 'v) std_map \<Rightarrow> 'k \<Rightarrow> 'v option" where
  "map_find m k = om_find (\<lambda>k. k) m k"

definition map_insert :: "('k :: linorder) \<Rightarrow> 'v \<Rightarrow> ('k, 'v) std_map \<Rightarrow> ('k, 'v) std_map" where
  "map_insert k v m = set_emplace (\<lambda>a b. fst a < fst b) (k, v) m"

text \<open>Assignment to the value found at a key.\<close>

definition map_assign :: "'k \<Rightarrow> 'v \<Rightarrow> ('k, 'v) std_map \<Rightarrow> ('k, 'v) std_map" where
  "map_assign k v m = om_assign (\<lambda>k. k) m k v"

definition map_sorted :: "('k :: linorder, 'v) std_map \<Rightarrow> bool" where
  "map_sorted m \<longleftrightarrow> sorted_wrt (\<lambda>a b. fst a < fst b) m"

lemma map_find_Nil [simp]: "map_find [] k = None"
  by (simp add: map_find_def)

lemma map_find_Cons [simp]: "map_find ((k', v) # m) k = (if k = k' then Some v else map_find m k)"
  by (simp add: map_find_def)

lemma map_find_assign [store_simps]:
  "map_find (map_assign k v m) k' = (if k' = k \<and> map_find m k \<noteq> None then Some v else map_find m k')"
  by (simp add: map_find_def map_assign_def store_simps)

lemma map_assign_back:
  "map_find m k = Some v \<Longrightarrow> map_assign k v (map_assign k w m) = m"
  by (induction m) (auto simp: map_assign_def map_find_def split: if_splits)

lemma map_find_less: "map_sorted ((k', v) # m) \<Longrightarrow> k < k' \<Longrightarrow> map_find ((k', v) # m) k = None"
  by (induction m arbitrary: k' v) (auto simp: map_sorted_def)

lemma map_find_insert [store_simps]:
  "map_sorted m \<Longrightarrow>
   map_find (map_insert k v m) k' = (if k' = k \<and> map_find m k = None then Some v else map_find m k')"
proof (induction m)
  case (Cons kv m)
  obtain k1 v1 where kv: "kv = (k1, v1)" by (cases kv)
  have sorted: "map_sorted m" using Cons.prems by (simp add: map_sorted_def)
  show ?case
  proof (cases k1 k rule: linorder_cases)
    case less
    with Cons.IH [OF sorted] show ?thesis by (auto simp: kv map_insert_def)
  next
    case equal
    then show ?thesis by (simp add: kv map_insert_def)
  next
    case greater
    then show ?thesis using map_find_less [of k1 v1 m k] Cons.prems by (auto simp: kv map_insert_def)
  qed
qed (simp add: map_insert_def)

lemma map_sorted_insert [store_simps]: "map_sorted m \<Longrightarrow> map_sorted (map_insert k v m)"
  unfolding map_sorted_def map_insert_def
  by (rule strict_order.set_emplace_sorted [OF strict_order_measure])

lemma map_sorted_assign [store_simps]: "map_sorted (map_assign k v m) = map_sorted m"
proof -
  have "map fst (map_assign k v m) = map fst m"
    by (induction m) (auto simp: map_assign_def)
  moreover have "map_sorted m = sorted_wrt (<) (map fst m)" for m :: "('a, 'b) std_map"
    by (simp add: map_sorted_def sorted_wrt_map)
  ultimately show ?thesis by metis
qed

lemma map_find_in_set: "map_sorted m \<Longrightarrow> (k, v) \<in> set m \<Longrightarrow> map_find m k = Some v"
  by (induction m) (auto simp: map_sorted_def)

lemma map_find_SomeD: "map_find m k = Some v \<Longrightarrow> (k, v) \<in> set m"
  by (induction m) (auto split: if_splits)

section \<open>What the clients of a map rely on\<close>

locale assignment_store =
  fixes kf :: "'k \<Rightarrow> 'q"
    and find :: "'m \<Rightarrow> 'k \<Rightarrow> 'v option"
    and emplace :: "'m \<Rightarrow> 'k \<Rightarrow> 'v \<Rightarrow> 'm"
    and assign :: "'m \<Rightarrow> 'k \<Rightarrow> 'v \<Rightarrow> 'm"
  assumes find_key: "kf k = kf k' \<Longrightarrow> find m k = find m k'"
    and find_emplace_new:
      "find m k = None \<Longrightarrow> find (emplace m k v) k' = (if kf k' = kf k then Some v else find m k')"
    and emplace_present: "find m k \<noteq> None \<Longrightarrow> emplace m k v = m"
    and find_assign_present:
      "find m k \<noteq> None \<Longrightarrow> find (assign m k v) k' = (if kf k' = kf k then Some v else find m k')"
begin

text \<open>Add a variable, or combine its value with the one that is there.\<close>

definition combine :: "('v \<Rightarrow> 'v \<Rightarrow> 'v) \<Rightarrow> 'm \<Rightarrow> 'k \<times> 'v \<Rightarrow> 'm" where
  "combine f m kv =
     (case find m (fst kv) of
        None \<Rightarrow> emplace m (fst kv) (snd kv)
      | Some old \<Rightarrow> assign m (fst kv) (f (snd kv) old))"

lemma find_combine:
  "find (combine f m (k, v)) k' =
     (if kf k' = kf k then Some (case find m k of None \<Rightarrow> v | Some old \<Rightarrow> f v old) else find m k')"
  by (simp add: combine_def find_emplace_new find_assign_present split: option.splits)

lemma find_combine_other:
  "kf k' \<notin> (kf \<circ> fst) ` set kvs \<Longrightarrow> find (foldl (combine f) m kvs) k' = find m k'"
proof (induction kvs arbitrary: m)
  case (Cons kv kvs)
  then show ?case by (cases kv) (simp add: find_combine)
qed simp

lemma find_combine_all:
  assumes "distinct (map (kf \<circ> fst) kvs)" and "(k, v) \<in> set kvs"
  shows "find (foldl (combine f) m kvs) k = Some (case find m k of None \<Rightarrow> v | Some old \<Rightarrow> f v old)"
  using assms
proof (induction kvs arbitrary: m)
  case (Cons kv kvs)
  obtain k' v' where kv: "kv = (k', v')" by (cases kv)
  show ?case
  proof (cases "(k, v) = kv")
    case True
    with Cons.prems have "kf k \<notin> (kf \<circ> fst) ` set kvs" by (auto simp: kv)
    with True kv show ?thesis by (auto simp add: find_combine find_combine_other)
  next
    case False
    with Cons.prems have *: "(k, v) \<in> set kvs" and "kf k \<noteq> kf k'" by (force simp: kv)+
    then show ?thesis using Cons by (simp add: kv find_combine)
  qed
qed simp

end

lemma ordered_map_store: "assignment_store kf (om_find kf) (om_emplace kf) (om_assign kf)"
proof unfold_locales
  show "om_find kf m k = om_find kf m k'" if "kf k = kf k'" for k k' m
    using that by (rule om_find_cong)
  show "om_emplace kf m k v = m" if "om_find kf m k \<noteq> None" for m k v
    using that by (simp add: om_emplace_def)
qed (simp_all add: store_simps)

end
