(* ===== verification/ControlPlaneAssignment.thy ===== *)
theory ControlPlaneAssignment
  imports SimplifyExpression OrderedContainers
    "HOL-Library.List_Lexorder" "HOL-Library.Char_ord" "HOL-Library.Product_Lexorder"
begin

text \<open>
  Assignments of the control plane to symbolic variables: \<open>control_plane_assignment.h\<close> (the sets
  and their comparison), \<open>substitute_variable.cpp\<close> (applying a set to an expression),
  \<open>symbols.h\<close> (collecting the variables of an expression), \<open>z3_cache.h\<close> and
  \<open>z3_control_plane_assignment.h\<close> (the same with solver expressions).

  The order of expressions (\<open>isSemanticallyLess\<close>) and the solver are code outside the repository:
  the order is a parameter \<open>lt\<close> of which only the laws of \<open>strict_order\<close> are used, the solver a
  record of four functions with the laws of the locale \<open>z3_semantics\<close>.
\<close>

section \<open>Assignment sets\<close>

type_synonym 'a assignments = "(svar, 'a) ordered_map"
type_synonym ControlPlaneAssignmentSet = "expr assignments"

definition sv_less :: "svar \<Rightarrow> svar \<Rightarrow> bool" where
  "sv_less x y \<longleftrightarrow> sv_key x < sv_key y"

interpretation sv: strict_order sv_less
proof -
  have "sv_less = (\<lambda>x y. sv_key x < sv_key y)" by (simp add: fun_eq_iff sv_less_def)
  then show "strict_order sv_less" using strict_order_measure [of sv_key] by simp
qed

lemma sv_same: "sv.same x y \<longleftrightarrow> sv_key x = sv_key y"
  by (auto simp: sv.same_def sv_less_def)

text \<open>The assignment sets are stores of their variables.\<close>

interpretation cp: assignment_store sv_key "om_find sv_key" "om_emplace sv_key" "om_assign sv_key"
  by (rule ordered_map_store)

lemma fold_combine_lookup:
  assumes "distinct_keys sv_key kvs"
  shows "om_find sv_key (foldl (cp.combine f) s kvs) x =
    (case om_find sv_key kvs x of
       None \<Rightarrow> om_find sv_key s x
     | Some v \<Rightarrow> Some (case om_find sv_key s x of None \<Rightarrow> v | Some old \<Rightarrow> f v old))"
proof (cases "om_find sv_key kvs x")
  case None
  then have "om_find sv_key (foldl (cp.combine f) s kvs) x = om_find sv_key s x"
    unfolding om_find_None by (rule cp.find_combine_other)
  with None show ?thesis by simp
next
  case (Some v)
  then obtain y where y: "(y, v) \<in> set kvs" "sv_key y = sv_key x"
    using om_find_SomeD [of sv_key kvs x v] by auto
  have "om_find sv_key (foldl (cp.combine f) s kvs) y =
      Some (case om_find sv_key s y of None \<Rightarrow> v | Some old \<Rightarrow> f v old)"
    by (rule cp.find_combine_all) (use assms y in \<open>simp_all add: distinct_keys_def\<close>)
  moreover have "om_find sv_key m y = om_find sv_key m x" for m :: "'a assignments"
    using y(2) by (rule om_find_cong)
  ultimately show ?thesis using Some by (simp split: option.splits)
qed

text \<open>\<open>find\<close>, then \<open>emplace\<close> or assignment through the iterator: \<open>m[var] = v\<close>.\<close>

definition set_value :: "svar \<Rightarrow> 'a \<Rightarrow> 'a assignments \<Rightarrow> 'a assignments" where
  "set_value var v s =
     (if om_find sv_key s var = None then om_emplace sv_key s var v else om_assign sv_key s var v)"

lemma find_set_value:
  "om_find sv_key (set_value x v s) y = (if sv_key y = sv_key x then Some v else om_find sv_key s y)"
  by (auto simp: set_value_def store_simps)

lemma set_value_present: "om_find sv_key s x \<noteq> None \<Longrightarrow> map fst (set_value x v s) = map fst s"
  by (auto simp: set_value_def)

lemma fold_set_value_other:
  "sv_key y \<notin> sv_key ` set xs \<Longrightarrow>
   om_find sv_key (fold (\<lambda>x. set_value x (f x)) xs s) y = om_find sv_key s y"
  by (induction xs arbitrary: s) (simp_all add: find_set_value)

lemma fold_set_value_find:
  "distinct (map sv_key xs) \<Longrightarrow> x \<in> set xs \<Longrightarrow>
   om_find sv_key (fold (\<lambda>x. set_value x (f x)) xs s) x = Some (f x)"
  by (induction xs arbitrary: s) (auto simp: find_set_value fold_set_value_other)

lemma fold_set_value_vars:
  "(\<And>x. x \<in> set xs \<Longrightarrow> om_find sv_key s x \<noteq> None) \<Longrightarrow>
   map fst (fold (\<lambda>x. set_value x (f x)) xs s) = map fst s"
proof (induction xs arbitrary: s)
  case (Cons x xs)
  have "map fst (fold (\<lambda>x. set_value x (f x)) xs (set_value x (f x) s)) = map fst (set_value x (f x) s)"
    by (rule Cons.IH) (use Cons.prems in \<open>auto simp: find_set_value\<close>)
  then show ?case using Cons.prems by (simp add: set_value_present)
qed simp

text \<open>Every assigned variable gets the value \<open>f\<close> gives it, and the variables stay the same.\<close>

lemma set_all_values:
  assumes "distinct_keys sv_key s"
  shows "map fst (fold (\<lambda>x. set_value x (f x)) (map fst s) s) = map fst s \<and>
    (\<forall>x \<in> set (map fst s). om_find sv_key (fold (\<lambda>x. set_value x (f x)) (map fst s) s) x = Some (f x))"
proof -
  have "om_find sv_key s x \<noteq> None" if "x \<in> set (map fst s)" for x
    using that by (auto simp: om_find_None)
  moreover have "distinct (map sv_key (map fst s))" using assms by (simp add: distinct_keys_def)
  ultimately show ?thesis by (intro conjI ballI fold_set_value_vars fold_set_value_find)
qed

fun compare ::
  "(expr \<Rightarrow> expr \<Rightarrow> bool) \<Rightarrow> ControlPlaneAssignmentSet \<Rightarrow> ControlPlaneAssignmentSet \<Rightarrow> bool" where
  "compare lt [] s2 = (s2 \<noteq> [])"
| "compare lt (el # s1) [] = False"
| "compare lt ((k1, v1) # s1) ((k2, v2) # s2) =
     (if sv_less k1 k2 then True
      else if sv_less k2 k1 then False
      else if lt v1 v2 then True
      else if lt v2 v1 then False
      else compare lt s1 s2)"

text \<open>An order of literals, as the code's order sees them: by kind, then by value.\<close>

fun literal_key :: "expr \<Rightarrow> nat \<times> int \<times> string" where
  "literal_key (BoolLiteral b) = (0, if b then 1 else 0, [])"
| "literal_key (Constant t n) = (1, n, [])"
| "literal_key (StringLiteral s) = (2, 0, s)"
| "literal_key (SymbolicVariable x) = (3, if sv_dataplane x then 1 else 0, sv_label x)"
| "literal_key _ = (4, 0, [])"

definition literal_less :: "expr \<Rightarrow> expr \<Rightarrow> bool" where
  "literal_less a b \<longleftrightarrow> literal_key a < literal_key b"

interpretation lit: strict_order literal_less
proof -
  have "literal_less = (\<lambda>a b. literal_key a < literal_key b)" by (simp add: fun_eq_iff literal_less_def)
  then show "strict_order literal_less" using strict_order_measure [of literal_key] by simp
qed

lemma compare_lex: "compare lt = lex_list (lex_pair sv_less lt)"
proof -
  have "compare lt s1 s2 = lex_list (lex_pair sv_less lt) s1 s2" for s1 s2
    by (induction lt s1 s2 rule: compare.induct) (auto simp: lex_pair_def)
  then show ?thesis by (simp add: fun_eq_iff)
qed

lemma compare_strict_order: "strict_order lt \<Longrightarrow> strict_order (compare lt)"
  unfolding compare_lex
  by (rule strict_order.strict_order_lex_list [OF strict_order_lex_pair [OF sv.strict_order_axioms]])

text \<open>
  Claim C17. The comparison of assignment sets is a strict weak order whenever the order of
  expressions is one, which a \<open>std::set\<close> of table entries needs; and two sets are equivalent
  exactly when they assign equivalent expressions to the same variables in the same order.
\<close>

theorem compare_is_strict_weak_order:
  assumes "strict_order lt"
  shows "strict_order (compare lt) \<and>
    (strict_order.same (compare lt) s1 s2 \<longleftrightarrow>
       list_all2 (\<lambda>(k1, v1) (k2, v2). sv_key k1 = sv_key k2 \<and> \<not> lt v1 v2 \<and> \<not> lt v2 v1) s1 s2)"
proof -
  have lex: "strict_order (lex_pair sv_less lt)"
    using sv.strict_order_axioms assms by (rule strict_order_lex_pair)
  have "strict_order.same (lex_pair sv_less lt) =
      (\<lambda>(k1, v1) (k2, v2). sv_key k1 = sv_key k2 \<and> \<not> lt v1 v2 \<and> \<not> lt v2 v1)"
    using lex_pair_same [OF sv.strict_order_axioms, of lt]
    by (auto simp: fun_eq_iff strict_order.same_def [OF lex] sv_same)
  then show ?thesis
    using compare_strict_order [OF assms] strict_order.lex_list_same [OF lex, of s1 s2]
    by (simp add: strict_order.same_def compare_lex)
qed

theorem compare_is_strict_weak_order_witness:
  "strict_order (compare literal_less) \<and>
   strict_order.same (compare literal_less)
     [(SVar False Type_Boolean ''k'', Constant (Type_Bits 8 False) 1)]
     [(SVar False (Type_Bits 8 False) ''k'', Constant (Type_Bits 8 False) 1)]"
  using compare_is_strict_weak_order [OF lit.strict_order_axioms,
      of "[(SVar False Type_Boolean ''k'', Constant (Type_Bits 8 False) 1)]"
        "[(SVar False (Type_Bits 8 False) ''k'', Constant (Type_Bits 8 False) 1)]"]
  by (simp add: sv_key_def literal_less_def)

section \<open>The symbols of an expression\<close>

text \<open>
  \<open>SymbolCollector\<close>: the variables in the order the inspector meets them, inserted into a set
  that is sorted by the variables' order.
\<close>

fun symbols_of :: "expr \<Rightarrow> svar list" where
  "symbols_of (SymbolicVariable x) = [x]"
| "symbols_of (Placeholder l d) = symbols_of d"
| "symbols_of (Unary t op e) = symbols_of e"
| "symbols_of (Binary t op l r) = symbols_of l @ symbols_of r"
| "symbols_of (Slice t e hi lo) = symbols_of e"
| "symbols_of (Mux t c a b) = symbols_of c @ symbols_of a @ symbols_of b"
| "symbols_of (ListExpression es) = concat (map symbols_of es)"
| "symbols_of (StructExpression ns es) = concat (map symbols_of es)"
| "symbols_of (HeaderStackExpression t es) = concat (map symbols_of es)"
| "symbols_of _ = []"

definition collectSymbols :: "expr \<Rightarrow> svar list" where
  "collectSymbols e = foldl (\<lambda>s x. set_emplace sv_less x s) [] (symbols_of e)"

lemma collect_fold:
  assumes "sorted_wrt sv_less s"
  shows "sorted_wrt sv_less (foldl (\<lambda>s x. set_emplace sv_less x s) s xs) \<and>
    sv_key ` set (foldl (\<lambda>s x. set_emplace sv_less x s) s xs) = sv_key ` (set s \<union> set xs)"
  using assms
proof (induction xs arbitrary: s)
  case (Cons x xs)
  have "sv_key ` set (set_emplace sv_less x s) = insert (sv_key x) (sv_key ` set s)"
  proof (cases "set_contains sv_less x s")
    case True
    with Cons.prems sv.set_emplace_contained sv.set_contains_iff show ?thesis
      by (auto simp: sv_same)
  qed (simp add: sv.set_emplace_new)
  with Cons.IH [OF sv.set_emplace_sorted [OF Cons.prems, of x]] show ?case
    by (simp add: image_Un)
qed simp

lemma collectSymbols_sorted: "sorted_wrt sv_less (collectSymbols e)"
  by (simp add: collectSymbols_def collect_fold)

lemma collectSymbols_keys: "sv_key ` set (collectSymbols e) = sv_key ` set (symbols_of e)"
  by (simp add: collectSymbols_def collect_fold)

lemma eval_cong_symbols:
  assumes "\<And>x. x \<in> set (symbols_of e) \<Longrightarrow> env (sv_key x) = env' (sv_key x)"
  shows "eval env e = eval env' e"
  using assms
proof (induction e)
  case (ListExpression es)
  then have "map (eval env) es = map (eval env') es" by (intro map_cong refl) auto
  then show ?case by (simp only: eval.simps)
next
  case (StructExpression ns es)
  then have "map (eval env) es = map (eval env') es" by (intro map_cong refl) auto
  then show ?case by (simp only: eval.simps)
next
  case (HeaderStackExpression t es)
  then have "map (eval env) es = map (eval env') es" by (intro map_cong refl) auto
  then show ?case by (simp only: eval.simps)
next
  case (Binary t op l r)
  then have "eval env l = eval env' l" "eval env r = eval env' r" by simp_all
  then show ?case by (simp only: eval_unfold)
next
  case (Mux t c a b)
  then have "eval env c = eval env' c" "eval env a = eval env' a" "eval env b = eval env' b"
    by simp_all
  then show ?case by (simp only: eval_unfold)
qed (simp_all add: eval_unfold)

text \<open>
  Claim C19. The collected symbols are sorted and without duplicates, and they are all an
  expression depends on: two environments that agree on them give it the same value.
\<close>

theorem collected_symbols_determine_value:
  "sorted_wrt sv_less (collectSymbols e) \<and>
   (map env (map sv_key (collectSymbols e)) = map env' (map sv_key (collectSymbols e)) \<longrightarrow>
      eval env e = eval env' e)"
proof -
  have "eval env e = eval env' e"
    if "\<forall>x \<in> set (collectSymbols e). env (sv_key x) = env' (sv_key x)"
  proof (rule eval_cong_symbols)
    fix x assume "x \<in> set (symbols_of e)"
    then have "sv_key x \<in> sv_key ` set (collectSymbols e)" by (simp add: collectSymbols_keys)
    with that show "env (sv_key x) = env' (sv_key x)" by auto
  qed
  then show ?thesis by (simp add: collectSymbols_sorted)
qed

theorem collected_symbols_determine_value_witness:
  "eval (\<lambda>k. if k = (False, ''x'') then VBits 8 False 3 else VBool True)
     (SymbolicVariable (SVar False (Type_Bits 8 False) ''x'')) =
   eval (\<lambda>k. VBits 8 False 3) (SymbolicVariable (SVar False (Type_Bits 8 False) ''x''))"
  using collected_symbols_determine_value [of "SymbolicVariable (SVar False (Type_Bits 8 False) ''x'')"
      "\<lambda>k. if k = (False, ''x'') then VBits 8 False 3 else VBool True" "\<lambda>k. VBits 8 False 3"]
  by (simp add: collectSymbols_def sv_key_def)

section \<open>Substitution\<close>

abbreviation cp_find :: "'a assignments \<Rightarrow> svar \<Rightarrow> 'a option" where
  "cp_find \<equiv> om_find sv_key"

text \<open>
  A variable that has an assignment is replaced; the visitor then descends into the children of
  the replacement, but does not look the replacement itself up again. The descent need not end
  when assignments refer to each other in a cycle: every replacement entered costs one unit of
  fuel, and running out is \<open>None\<close>.
\<close>

definition is_SymbolicVariable :: "expr \<Rightarrow> bool" where
  "is_SymbolicVariable e \<longleftrightarrow> (case e of SymbolicVariable x \<Rightarrow> True | _ \<Rightarrow> False)"

function subst :: "nat \<Rightarrow> ControlPlaneAssignmentSet \<Rightarrow> expr \<Rightarrow> expr option" where
  "subst n \<sigma> (SymbolicVariable x) =
     (case cp_find \<sigma> x of
        None \<Rightarrow> Some (SymbolicVariable x)
      | Some v \<Rightarrow>
          if is_SymbolicVariable v then Some v
          else (case n of 0 \<Rightarrow> None | Suc k \<Rightarrow> subst k \<sigma> v))"
| "subst n \<sigma> (Placeholder l d) = map_option (Placeholder l) (subst n \<sigma> d)"
| "subst n \<sigma> (Unary t op e) = map_option (Unary t op) (subst n \<sigma> e)"
| "subst n \<sigma> (Binary t op l r) =
     assign_or_return (subst n \<sigma> l) (\<lambda>l'. assign_or_return (subst n \<sigma> r) (\<lambda>r'.
       Some (Binary t op l' r')))"
| "subst n \<sigma> (Slice t e hi lo) = map_option (\<lambda>e'. Slice t e' hi lo) (subst n \<sigma> e)"
| "subst n \<sigma> (Mux t c a b) =
     assign_or_return (subst n \<sigma> c) (\<lambda>c'. assign_or_return (subst n \<sigma> a) (\<lambda>a'.
       assign_or_return (subst n \<sigma> b) (\<lambda>b'. Some (Mux t c' a' b'))))"
| "subst n \<sigma> (ListExpression es) = map_option ListExpression (all_some (map (subst n \<sigma>) es))"
| "subst n \<sigma> (StructExpression ns es) =
     map_option (StructExpression ns) (all_some (map (subst n \<sigma>) es))"
| "subst n \<sigma> (HeaderStackExpression t es) =
     map_option (HeaderStackExpression t) (all_some (map (subst n \<sigma>) es))"
| "subst n \<sigma> (BoolLiteral b) = Some (BoolLiteral b)"
| "subst n \<sigma> (Constant t c) = Some (Constant t c)"
| "subst n \<sigma> (StringLiteral l) = Some (StringLiteral l)"
| "subst n \<sigma> DefaultExpression = Some DefaultExpression"
  by pat_completeness auto
termination
  by (relation "measures [\<lambda>(n, \<sigma>, e). n, \<lambda>(n, \<sigma>, e). esize e]") (auto dest: esize_elem)

text \<open>An acyclic set of \<open>n\<close> assignments is at most \<open>n\<close> replacements deep.\<close>

definition substituteSymbolicVariable :: "ControlPlaneAssignmentSet \<Rightarrow> expr \<Rightarrow> expr option" where
  "substituteSymbolicVariable \<sigma> e = subst (length \<sigma>) \<sigma> e"

text \<open>The environment that gives the assigned variables their assigned values.\<close>

definition agrees_off :: "ControlPlaneAssignmentSet \<Rightarrow> env \<Rightarrow> env \<Rightarrow> bool" where
  "agrees_off \<sigma> env env' \<longleftrightarrow> (\<forall>x. cp_find \<sigma> x = None \<longrightarrow> env' (sv_key x) = env (sv_key x))"

definition solves :: "env \<Rightarrow> ControlPlaneAssignmentSet \<Rightarrow> bool" where
  "solves env' \<sigma> \<longleftrightarrow> (\<forall>x v. cp_find \<sigma> x = Some v \<longrightarrow> eval env' v = Some (env' (sv_key x)))"

text \<open>
  The environment in which the substitution reads an expression. A variable that is assigned another
  variable takes the value this one has outside, even where it is assigned itself: the visitor does not
  look the replacement up again.
\<close>

definition reads_as :: "ControlPlaneAssignmentSet \<Rightarrow> env \<Rightarrow> env \<Rightarrow> bool" where
  "reads_as \<sigma> env env' \<longleftrightarrow>
     agrees_off \<sigma> env env' \<and>
     (\<forall>x v. cp_find \<sigma> x = Some v \<longrightarrow>
        eval (if is_SymbolicVariable v then env else env') v = Some (env' (sv_key x)))"

lemma solves_reads_as: "solves env \<sigma> \<Longrightarrow> reads_as \<sigma> env env"
  by (simp add: solves_def reads_as_def agrees_off_def)

lemma eval_unassigned:
  assumes "agrees_off \<sigma> env env'" and "cp_find \<sigma> x = None"
  shows "eval env (SymbolicVariable x) = eval env' (SymbolicVariable x)"
  using assms by (simp add: agrees_off_def)

lemma subst_list_via:
  assumes "all_some (map f es) = Some es'"
    and "\<And>e e'. e \<in> set es \<Longrightarrow> f e = Some e' \<Longrightarrow> refines_via env' env e e'"
  shows "list_all2 (refines_via env' env) es es'"
  using assms by (induction es arbitrary: es') (auto split: option.splits)

lemma subst_via:
  assumes reads: "reads_as \<sigma> env env'"
  shows "subst n \<sigma> e = Some e' \<Longrightarrow> refines_via env' env e e'"
proof (induction n \<sigma>' \<equiv> \<sigma> e arbitrary: e' rule: subst.induct)
  case (1 n x)
  show ?case
  proof (cases "cp_find \<sigma> x")
    case None
    from reads have "agrees_off \<sigma> env env'" by (simp add: reads_as_def)
    with 1 None show ?thesis using eval_unassigned [OF _ None, of env env'] by (simp add: refines_via_def)
  next
    case (Some w)
    have w: "eval (if is_SymbolicVariable w then env else env') w = Some v"
      if "eval env' (SymbolicVariable x) = Some v" for v
      using that reads Some by (simp add: reads_as_def typed_Some)
    show ?thesis
    proof (cases "is_SymbolicVariable w")
      case True
      with 1(2) Some have "e' = w" by simp
      with True w show ?thesis by (simp only: refines_via_def if_True) blast
    next
      case False
      with 1(2) Some obtain k where "n = Suc k" "subst k \<sigma> w = Some e'" by (cases n) auto
      then have "refines_via env' env w e'" using 1(1) Some False by simp
      with w False show ?thesis by (simp add: refines_via_def)
    qed
  qed
next
  case (2 n l d)
  then show ?case by (auto simp: refines_via_def)
next
  case (7 n es)
  then show ?case by (auto intro!: via_lists subst_list_via)
next
  case (8 n ns es)
  then show ?case by (auto intro!: via_lists subst_list_via)
next
  case (9 n t es)
  then show ?case by (auto intro!: via_lists subst_list_via)
qed (auto simp: assign_or_return_Some refines_via_def [of _ _ "Constant _ _"] 
    refines_via_def [of _ _ "BoolLiteral _"] refines_via_def [of _ _ "StringLiteral _"]
    refines_via_def [of _ _ DefaultExpression] intro!: via_congs)

text \<open>Assignments are ranked when every assigned variable only depends on lower ones.\<close>

definition ranked :: "(svkey \<Rightarrow> nat) \<Rightarrow> ControlPlaneAssignmentSet \<Rightarrow> bool" where
  "ranked r \<sigma> \<longleftrightarrow>
     (\<forall>x v. cp_find \<sigma> x = Some v \<longrightarrow>
        (\<forall>y \<in> set (symbols_of v). cp_find \<sigma> y \<noteq> None \<longrightarrow> r (sv_key y) < r (sv_key x)))"

lemma all_some_exists:
  "(\<And>e. e \<in> set es \<Longrightarrow> \<exists>e'. f e = Some e') \<Longrightarrow> \<exists>es'. all_some (map f es) = Some es'"
  by (induction es) (auto split: option.splits)

lemma subst_returns:
  assumes ranked: "ranked r \<sigma>"
  shows "(\<And>x. x \<in> set (symbols_of e) \<Longrightarrow> cp_find \<sigma> x \<noteq> None \<Longrightarrow> r (sv_key x) < n) \<Longrightarrow>
    \<exists>e'. subst n \<sigma> e = Some e'"
proof (induction n \<sigma>' \<equiv> \<sigma> e rule: subst.induct)
  case (1 n x)
  show ?case
  proof (cases "cp_find \<sigma> x")
    case (Some v)
    with 1(2) have "r (sv_key x) < n" by simp
    then obtain k where k: "n = Suc k" "r (sv_key x) \<le> k" by (cases n) auto
    have "r (sv_key y) < k" if "y \<in> set (symbols_of v)" "cp_find \<sigma> y \<noteq> None" for y
      using that ranked Some k(2) by (fastforce simp: ranked_def)
    with 1(1) [OF Some _ k(1)] Some k(1) show ?thesis by auto
  qed simp
next
  case (4 n t op l r)
  then show ?case by (fastforce simp: assign_or_return_Some)
next
  case (6 n t c a b)
  then obtain c' a' b' where "subst n \<sigma> c = Some c'" "subst n \<sigma> a = Some a'" "subst n \<sigma> b = Some b'"
    by auto metis
  then show ?case by simp
next
  case (7 n es)
  then have "\<exists>es'. all_some (map (subst n \<sigma>) es) = Some es'" by (intro all_some_exists) auto
  then show ?case by auto
next
  case (8 n ns es)
  then have "\<exists>es'. all_some (map (subst n \<sigma>) es) = Some es'" by (intro all_some_exists) auto
  then show ?case by auto
next
  case (9 n t es)
  then have "\<exists>es'. all_some (map (subst n \<sigma>) es) = Some es'" by (intro all_some_exists) auto
  then show ?case by auto
qed auto

text \<open>A rank can be chosen below the number of assignments: count the assignments of lower rank.\<close>

definition lower :: "(svkey \<Rightarrow> nat) \<Rightarrow> ControlPlaneAssignmentSet \<Rightarrow> svkey \<Rightarrow> nat" where
  "lower r \<sigma> k = length (filter (\<lambda>p. r (sv_key (fst p)) < r k) \<sigma>)"

lemma lower_less:
  assumes "p \<in> set \<sigma>" and "r (sv_key (fst p)) < r k"
  shows "lower r \<sigma> (sv_key (fst p)) < lower r \<sigma> k"
proof -
  let ?q = "\<lambda>k (p' :: svar \<times> expr). r (sv_key (fst p')) < r k"
  obtain ys zs where \<sigma>: "\<sigma> = ys @ p # zs" using assms(1) by (meson split_list)
  have "length (filter (?q (sv_key (fst p))) xs) \<le> length (filter (?q k) xs)" for xs
    using assms(2) by (induction xs) auto
  from this [of ys] this [of zs] assms(2) show ?thesis by (simp add: lower_def \<sigma>)
qed

lemma find_key: "cp_find \<sigma> x = Some v \<Longrightarrow> \<exists>p \<in> set \<sigma>. sv_key (fst p) = sv_key x"
  by (auto dest!: om_find_SomeD intro: rev_bexI)

lemma lower_ranked:
  assumes "ranked r \<sigma>"
  shows "ranked (lower r \<sigma>) \<sigma>" and "cp_find \<sigma> x \<noteq> None \<Longrightarrow> lower r \<sigma> (sv_key x) < length \<sigma>"
proof -
  show "ranked (lower r \<sigma>) \<sigma>"
    unfolding ranked_def
  proof (intro allI ballI impI)
    fix x v y
    assume "cp_find \<sigma> x = Some v" "y \<in> set (symbols_of v)" "cp_find \<sigma> y \<noteq> None"
    moreover from this obtain p where "p \<in> set \<sigma>" "sv_key (fst p) = sv_key y"
      by (blast dest: find_key)
    ultimately show "lower r \<sigma> (sv_key y) < lower r \<sigma> (sv_key x)"
      using assms lower_less [of p \<sigma> r "sv_key x"] by (auto simp: ranked_def)
  qed
  assume "cp_find \<sigma> x \<noteq> None"
  then obtain p where "p \<in> set \<sigma>" "sv_key (fst p) = sv_key x" by (blast dest: find_key)
  then have "length (filter (\<lambda>p. r (sv_key (fst p)) < r (sv_key x)) \<sigma>) < length \<sigma>"
    by (intro length_filter_less [of p]) simp_all
  then show "lower r \<sigma> (sv_key x) < length \<sigma>" by (simp add: lower_def)
qed

text \<open>
  Claim C13. Applying an assignment set to an expression replaces exactly the assigned variables:
  when the assignments do not depend on each other in a cycle (some rank decreases from every assigned
  variable to the assigned variables of its value), the substitution returns, and the result has in an
  environment \<open>env\<close> the value the expression has in \<open>env'\<close>, where unassigned variables have their value
  in \<open>env\<close> and an assigned variable has the value its assignment has in \<open>env'\<close>; only a variable that is
  assigned a variable reads as that one does in \<open>env\<close>, because the visitor does not look up again what
  it has put in place of a variable: of \<open>{z := y, y := 4}\<close>, \<open>z\<close> becomes \<open>y\<close> and not \<open>4\<close>.
\<close>

theorem substitution_correct:
  assumes "ranked r \<sigma>" and "reads_as \<sigma> env env'" and "eval env' e = Some v"
  shows "\<exists>e'. substituteSymbolicVariable \<sigma> e = Some e' \<and> eval env e' = Some v"
proof -
  from subst_returns [OF lower_ranked(1) [OF assms(1)]] lower_ranked(2) [OF assms(1)]
  obtain e' where e': "subst (length \<sigma>) \<sigma> e = Some e'" by blast
  with subst_via [OF assms(2) e'] assms(3) show ?thesis
    by (auto simp: substituteSymbolicVariable_def refines_via_def)
qed

text \<open>In this chain \<open>x\<close> becomes \<open>4 + 1\<close>, but \<open>z\<close> becomes the variable \<open>y\<close>, which has the value 9.\<close>

theorem substitution_correct_witness:
  "let b = Type_Bits 8 False; x = SVar False b ''x''; y = SVar False b ''y''; z = SVar False b ''z'';
       \<sigma> = [(x, Binary b Add (SymbolicVariable y) (Constant b 1)), (y, Constant b 4), (z, SymbolicVariable y)] in
   \<exists>e'. substituteSymbolicVariable \<sigma> (Binary b Add (SymbolicVariable x) (SymbolicVariable z)) = Some e' \<and>
     eval (\<lambda>k. VBits 8 False 9) e' = Some (VBits 8 False 14)"
proof -
  define b where "b = Type_Bits 8 False"
  define x where "x = SVar False b ''x''"
  define y where "y = SVar False b ''y''"
  define z where "z = SVar False b ''z''"
  define \<sigma> where "\<sigma> = [(x, Binary b Add (SymbolicVariable y) (Constant b 1)), (y, Constant b 4), (z, SymbolicVariable y)]"
  define r where "r = (\<lambda>k :: svkey. if snd k = ''y'' then 0 else 1 :: nat)"
  define env where "env = (\<lambda>k :: svkey. if k = (False, ''x'') then VBits 8 False 5
    else if k = (False, ''y'') then VBits 8 False 4 else VBits 8 False 9)"
  note defs = b_def x_def y_def z_def \<sigma>_def r_def env_def sv_key_def
  have "\<exists>e'. substituteSymbolicVariable \<sigma> (Binary b Add (SymbolicVariable x) (SymbolicVariable z)) = Some e' \<and>
     eval (\<lambda>k. VBits 8 False 9) e' = Some (VBits 8 False 14)"
  proof (rule substitution_correct [of r])
    show "ranked r \<sigma>" by (auto simp: ranked_def defs split: if_splits)
    show "reads_as \<sigma> (\<lambda>k. VBits 8 False 9) env"
      by (auto simp: reads_as_def agrees_off_def is_SymbolicVariable_def defs eval_unfold typed_def const_val_def
          short_circuit_def num_val_def bits_val_def take_bit_eq_mod split: if_splits)
    show "eval env (Binary b Add (SymbolicVariable x) (SymbolicVariable z)) = Some (VBits 8 False 14)"
      by (simp add: defs eval_unfold typed_def short_circuit_def num_val_def bits_val_def take_bit_eq_mod)
  qed
  then show ?thesis by (simp add: b_def x_def y_def z_def \<sigma>_def Let_def)
qed

section \<open>Assignments of literals\<close>

text \<open>
  The assignments the control plane makes to match keys and action arguments: their values only
  mention variables that are not assigned. They are solved by writing the values over the
  environment.
\<close>

definition flat :: "'a assignments \<Rightarrow> ('a \<Rightarrow> svar list) \<Rightarrow> bool" where
  "flat \<sigma> syms \<longleftrightarrow> (\<forall>(x, v) \<in> set \<sigma>. \<forall>y \<in> set (syms v). cp_find \<sigma> y = None)"

definition override :: "(env \<Rightarrow> 'a \<Rightarrow> val option) \<Rightarrow> env \<Rightarrow> 'a assignments \<Rightarrow> env" where
  "override ev env \<sigma> =
     (\<lambda>k. case map_of (map (\<lambda>(x, v). (sv_key x, v)) \<sigma>) k of
            None \<Rightarrow> env k
          | Some v \<Rightarrow> (case ev env v of None \<Rightarrow> env k | Some w \<Rightarrow> w))"

definition all_defined :: "(env \<Rightarrow> 'a \<Rightarrow> val option) \<Rightarrow> env \<Rightarrow> 'a assignments \<Rightarrow> bool" where
  "all_defined ev env \<sigma> \<longleftrightarrow> (\<forall>(x, v) \<in> set \<sigma>. ev env v \<noteq> None)"

lemma find_map_of: "cp_find \<sigma> x = map_of (map (\<lambda>(x, v). (sv_key x, v)) \<sigma>) (sv_key x)"
  by (induction \<sigma>) auto

lemma override_unassigned: "cp_find \<sigma> x = None \<Longrightarrow> override ev env \<sigma> (sv_key x) = env (sv_key x)"
  by (simp add: override_def flip: find_map_of)

lemma override_assigned:
  "cp_find \<sigma> x = Some v \<Longrightarrow> ev env v = Some w \<Longrightarrow> override ev env \<sigma> (sv_key x) = w"
  by (simp add: override_def flip: find_map_of)

lemma flat_find:
  "flat \<sigma> syms \<Longrightarrow> cp_find \<sigma> x = Some v \<Longrightarrow> y \<in> set (syms v) \<Longrightarrow> cp_find \<sigma> y = None"
  by (drule om_find_SomeD) (auto simp: flat_def)

lemma flat_eval:
  assumes "flat \<sigma> symbols_of" and "cp_find \<sigma> x = Some v"
  shows "eval (override ev env \<sigma>) v = eval env v"
  by (rule eval_cong_symbols) (use flat_find [OF assms] override_unassigned in metis)

lemma override_solves:
  assumes "flat \<sigma> symbols_of" and "all_defined eval env \<sigma>"
  shows "solves (override eval env \<sigma>) \<sigma>"
  unfolding solves_def
proof (intro allI impI)
  fix x v
  assume x: "cp_find \<sigma> x = Some v"
  with assms(2) obtain w where "eval env v = Some w"
    by (fastforce simp: all_defined_def dest: om_find_SomeD)
  with x flat_eval [OF assms(1) x] override_assigned [OF x] show
    "eval (override eval env \<sigma>) v = Some (override eval env \<sigma> (sv_key x))" by simp
qed

lemma flat_subst:
  assumes "flat \<sigma> symbols_of" and "all_defined eval env \<sigma>"
    and "eval (override eval env \<sigma>) e = Some v"
  shows "\<exists>e'. substituteSymbolicVariable \<sigma> e = Some e' \<and> eval env e' = Some v"
proof -
  have "ranked (\<lambda>k. 0) \<sigma>"
    using flat_find [OF assms(1)] by (fastforce simp: ranked_def)
  moreover have "0 < length \<sigma>" if "cp_find \<sigma> x \<noteq> None" for x
    using that by (cases \<sigma>) auto
  ultimately obtain e' where e': "subst (length \<sigma>) \<sigma> e = Some e'"
    using subst_returns [of "\<lambda>k. 0" \<sigma> e "length \<sigma>"] by blast
  have "reads_as \<sigma> env (override eval env \<sigma>)"
    using override_solves [OF assms(1,2)] flat_eval [OF assms(1)]
    by (simp add: reads_as_def agrees_off_def override_unassigned solves_def)
  from subst_via [OF this e'] assms(3) e' show ?thesis
    by (auto simp: substituteSymbolicVariable_def refines_via_def)
qed

lemma sv_key_surj: "\<exists>x. sv_key x = k"
  by (rule exI [of _ "SVar (fst k) Type_Unknown (snd k)"]) (simp add: sv_key_def)

lemma override_idem:
  assumes flat: "flat \<sigma> symbols_of" and dist: "distinct_keys sv_key \<sigma>" and def: "all_defined eval env \<sigma>"
  shows "all_defined eval (override eval env \<sigma>) \<sigma>"
    and "override eval (override eval env \<sigma>) \<sigma> = override eval env \<sigma>"
proof -
  define env' where "env' = override eval env \<sigma>"
  have v: "eval env' v = eval env v" if "cp_find \<sigma> x = Some v" for x v
    unfolding env'_def by (rule flat_eval [OF flat that])
  have d: "\<exists>w. eval env v = Some w" if "cp_find \<sigma> x = Some v" for x v
    using def om_find_SomeD [OF that] by (auto simp: all_defined_def)
  have "eval env' v \<noteq> None" if "(x, v) \<in> set \<sigma>" for x v
    using v d om_find_in_set [OF dist that] by fastforce
  then show "all_defined eval (override eval env \<sigma>) \<sigma>"
    by (auto simp: all_defined_def env'_def)
  have "override eval env' \<sigma> (sv_key x) = env' (sv_key x)" for x
  proof (cases "cp_find \<sigma> x")
    case None
    then show ?thesis by (simp add: override_unassigned)
  next
    case (Some u)
    with d obtain w where "eval env u = Some w" by blast
    with v [OF Some] override_assigned [OF Some, of eval env] override_assigned [OF Some, of eval env']
    show ?thesis by (simp add: env'_def)
  qed
  then show "override eval (override eval env \<sigma>) \<sigma> = override eval env \<sigma>"
    unfolding env'_def [symmetric] using sv_key_surj by (metis ext)
qed

end
