(* ===== verification/Z3ControlPlaneAssignment.thy ===== *)
theory Z3ControlPlaneAssignment
  imports ControlPlaneAssignment
begin

text \<open>
  \<open>z3_cache.h\<close> and \<open>z3_control_plane_assignment.h\<close>: the memoised translation of expressions to
  the solver and the assignment sets over solver expressions.

  The solver is not part of the repository. Of its interface the code uses translation,
  simplification, if-then-else and simultaneous substitution: the fields of \<open>z3_backend\<close>. Their
  documented meaning is the locale \<open>z3_semantics\<close>, which is interpreted on the expression
  language itself (\<open>ir_backend\<close>).
\<close>

section \<open>The solver interface\<close>

record 'z z3_backend =
  z3_translate :: "expr \<Rightarrow> 'z"
  z3_simplify :: "'z \<Rightarrow> 'z"
  z3_ite :: "'z \<Rightarrow> 'z \<Rightarrow> 'z \<Rightarrow> 'z"
  z3_substitute :: "'z \<Rightarrow> 'z list \<Rightarrow> 'z list \<Rightarrow> 'z"

section \<open>The cache\<close>

text \<open>
  \<open>Z3Cache\<close> maps expression nodes to solver expressions. The nodes are immutable, so the key is
  the expression.
\<close>

type_synonym 'z Z3Cache = "expr \<rightharpoonup> 'z"

definition z3_set :: "'z z3_backend \<Rightarrow> expr \<Rightarrow> 'z" where
  "z3_set B e = z3_simplify B (z3_translate B e)"

definition cache_set :: "'z z3_backend \<Rightarrow> expr \<Rightarrow> 'z Z3Cache \<Rightarrow> 'z \<times> 'z Z3Cache" where
  "cache_set B e c =
     (case c e of
        Some z \<Rightarrow> (z, c)
      | None \<Rightarrow> (let result = z3_simplify B (z3_translate B e) in (result, c(e \<mapsto> result))))"

definition cache_get :: "expr \<Rightarrow> 'z Z3Cache \<Rightarrow> 'z option" where
  "cache_get e c = c e"

definition cache_remove :: "expr \<Rightarrow> 'z Z3Cache \<Rightarrow> 'z Z3Cache" where
  "cache_remove e c = c(e := None)"

datatype cache_op = CacheSet expr | CacheRemove expr

fun cache_step :: "'z z3_backend \<Rightarrow> cache_op \<Rightarrow> 'z Z3Cache \<Rightarrow> 'z Z3Cache" where
  "cache_step B (CacheSet e) c = snd (cache_set B e c)"
| "cache_step B (CacheRemove e) c = cache_remove e c"

definition cache_ok :: "'z z3_backend \<Rightarrow> 'z Z3Cache \<Rightarrow> bool" where
  "cache_ok B c \<longleftrightarrow> (\<forall>e z. c e = Some z \<longrightarrow> z = z3_set B e)"

lemma cache_ok_empty: "cache_ok B Map.empty"
  by (simp add: cache_ok_def)

lemma cache_ok_set: "cache_ok B c \<Longrightarrow> cache_ok B (snd (cache_set B e c))"
  by (auto simp: cache_ok_def cache_set_def z3_set_def Let_def split: option.splits)

lemma cache_ok_step: "cache_ok B c \<Longrightarrow> cache_ok B (cache_step B op c)"
  by (cases op) (auto simp: cache_ok_set, auto simp: cache_ok_def cache_remove_def)

lemma cache_ok_run: "cache_ok B c \<Longrightarrow> cache_ok B (fold (cache_step B) ops c)"
  by (induction ops arbitrary: c) (simp_all add: cache_ok_step)

lemma cache_set_value: "cache_ok B c \<Longrightarrow> fst (cache_set B e c) = z3_set B e"
  by (auto simp: cache_ok_def cache_set_def z3_set_def Let_def split: option.splits)

lemma cache_set_get: "cache_get e (snd (cache_set B e c)) = Some (fst (cache_set B e c))"
  by (auto simp: cache_get_def cache_set_def Let_def split: option.splits)

text \<open>
  The cache is transparent: after any sequence of insertions and removals, translating
  an expression through the cache gives what translating it directly gives, whether or not it was
  cached, and a later \<open>get\<close> returns that result.
\<close>

theorem cache_transparent:
  "let c = fold (cache_step B) ops Map.empty; (z, c') = cache_set B e c in
   z = z3_simplify B (z3_translate B e) \<and> cache_get e c' = Some z"
proof -
  have "cache_ok B (fold (cache_step B) ops Map.empty)"
    by (rule cache_ok_run [OF cache_ok_empty])
  with cache_set_value [of B _ e] cache_set_get [of e B] show ?thesis
    by (auto simp: Let_def z3_set_def split_beta)
qed

section \<open>Assignment sets over the solver\<close>

type_synonym 'z Z3ControlPlaneAssignmentSet = "'z assignments"

text \<open>\<open>add\<close> reports an error and leaves the set alone when the variable is already there.\<close>

definition z3_add :: "'z Z3ControlPlaneAssignmentSet \<Rightarrow> svar \<Rightarrow> 'z \<Rightarrow> bool \<times> 'z Z3ControlPlaneAssignmentSet" where
  "z3_add s var assignment = (cp_find s var = None, om_emplace sv_key s var assignment)"

text \<open>The symbol that stands for any value of a variable.\<close>

definition wildcard_variable :: "svar \<Rightarrow> expr" where
  "wildcard_variable var = SymbolicVariable (getSymbolicVariable (sv_type var) (sv_label var @ ''*''))"

definition z3_setSymbolic :: "'z z3_backend \<Rightarrow> svar \<Rightarrow> 'z Z3ControlPlaneAssignmentSet \<Rightarrow> 'z Z3ControlPlaneAssignmentSet" where
  "z3_setSymbolic B var s =
     (let symbolicVar = z3_set B (wildcard_variable var) in set_value var symbolicVar s)"

definition z3_setAllSymbolic :: "'z z3_backend \<Rightarrow> 'z Z3ControlPlaneAssignmentSet \<Rightarrow> 'z Z3ControlPlaneAssignmentSet" where
  "z3_setAllSymbolic B s = fold (z3_setSymbolic B) (map fst s) s"

definition z3_addConditionally ::
  "'z z3_backend \<Rightarrow> 'z \<Rightarrow> svar \<Rightarrow> 'z \<Rightarrow> 'z Z3ControlPlaneAssignmentSet \<Rightarrow> 'z Z3ControlPlaneAssignmentSet" where
  "z3_addConditionally B condition var assignment s =
     (case cp_find s var of
        None \<Rightarrow> om_emplace sv_key s var assignment
      | Some old \<Rightarrow> om_assign sv_key s var (z3_simplify B (z3_ite B condition assignment old)))"

definition z3_substitute_set :: "'z z3_backend \<Rightarrow> 'z Z3ControlPlaneAssignmentSet \<Rightarrow> 'z \<Rightarrow> 'z" where
  "z3_substitute_set B s toSubstitute =
     z3_simplify B
       (z3_substitute B toSubstitute (map (\<lambda>(x, z). z3_set B (SymbolicVariable x)) s) (map snd s))"

definition z3_merge :: "'z Z3ControlPlaneAssignmentSet \<Rightarrow> 'z Z3ControlPlaneAssignmentSet \<Rightarrow> 'z Z3ControlPlaneAssignmentSet" where
  "z3_merge other s = fold (\<lambda>(x, z) s. snd (z3_add s x z)) other s"

definition z3_merge_ir ::
  "'z z3_backend \<Rightarrow> ControlPlaneAssignmentSet \<Rightarrow> 'z Z3ControlPlaneAssignmentSet \<Rightarrow> 'z Z3ControlPlaneAssignmentSet" where
  "z3_merge_ir B other s = fold (\<lambda>(x, e) s. snd (z3_add s x (z3_set B e))) other s"

definition z3_mergeConditionally ::
  "'z z3_backend \<Rightarrow> 'z \<Rightarrow> 'z Z3ControlPlaneAssignmentSet \<Rightarrow> 'z Z3ControlPlaneAssignmentSet \<Rightarrow> 'z Z3ControlPlaneAssignmentSet" where
  "z3_mergeConditionally B condition other s =
     fold (\<lambda>(x, z). z3_addConditionally B condition x z) other s"

definition z3_mergeConditionally_ir ::
  "'z z3_backend \<Rightarrow> 'z \<Rightarrow> ControlPlaneAssignmentSet \<Rightarrow> 'z Z3ControlPlaneAssignmentSet \<Rightarrow> 'z Z3ControlPlaneAssignmentSet" where
  "z3_mergeConditionally_ir B condition other s =
     fold (\<lambda>(x, e). z3_addConditionally B condition x (z3_set B e)) other s"

lemma addConditionally_combine:
  "z3_addConditionally B c x z s =
     cp.combine (\<lambda>new old. z3_simplify B (z3_ite B c new old)) s (x, z)"
  by (simp add: z3_addConditionally_def cp.combine_def split: option.splits)

lemma mergeConditionally_combine:
  "z3_mergeConditionally B c other s =
     foldl (cp.combine (\<lambda>new old. z3_simplify B (z3_ite B c new old))) s other"
  unfolding z3_mergeConditionally_def
  by (induction other arbitrary: s) (simp_all add: split_beta addConditionally_combine)

lemma mergeConditionally_lookup:
  assumes "distinct_keys sv_key other"
  shows "cp_find (z3_mergeConditionally B c other s) x =
    (case (cp_find other x, cp_find s x) of
       (None, old) \<Rightarrow> old
     | (Some z, None) \<Rightarrow> Some z
     | (Some z, Some old) \<Rightarrow> Some (z3_simplify B (z3_ite B c z old)))"
  unfolding mergeConditionally_combine fold_combine_lookup [OF assms] by (simp split: option.splits)

text \<open>
  Merging a set under a condition: a variable of the merged set gets an if-then-else of
  the new and the old assignment, or the new one alone when the variable was absent; every other
  variable keeps its assignment.
\<close>

theorem mergeConditionally_find:
  assumes "distinct_keys sv_key other"
  shows "cp_find (z3_mergeConditionally B c other s) x =
    (case (cp_find other x, cp_find s x) of
       (None, old) \<Rightarrow> old
     | (Some z, None) \<Rightarrow> Some z
     | (Some z, Some old) \<Rightarrow> Some (z3_simplify B (z3_ite B c z old)))"
  using assms by (rule mergeConditionally_lookup)

theorem mergeConditionally_find_witness:
  "distinct_keys sv_key [(SVar False Type_Boolean ''x'', Constant Type_InfInt 1)] \<and>
   cp_find (z3_mergeConditionally
       \<lparr>z3_translate = (\<lambda>e. e), z3_simplify = (\<lambda>z. z), z3_ite = Mux Type_InfInt, z3_substitute = (\<lambda>z ps zs. z)\<rparr>
       (BoolLiteral True) [(SVar False Type_Boolean ''x'', Constant Type_InfInt 1)]
       [(SVar False Type_Boolean ''x'', Constant Type_InfInt 2)]) (SVar False Type_Boolean ''x'') =
     Some (Mux Type_InfInt (BoolLiteral True) (Constant Type_InfInt 1) (Constant Type_InfInt 2))"
  using mergeConditionally_find [of "[(SVar False Type_Boolean ''x'', Constant Type_InfInt 1)]"
    "\<lparr>z3_translate = (\<lambda>e. e), z3_simplify = (\<lambda>z. z), z3_ite = Mux Type_InfInt, z3_substitute = (\<lambda>z ps zs. z)\<rparr>"
    "BoolLiteral True" "[(SVar False Type_Boolean ''x'', Constant Type_InfInt 2)]"
    "SVar False Type_Boolean ''x''"]
  by (simp add: distinct_keys_def)

section \<open>The meaning of solver expressions\<close>

text \<open>
  Every law states that an operation keeps defined values: the translation is faithful,
  simplification keeps the value, if-then-else chooses between two values of one type, and substituting a set of translated
  variables evaluates the expression in the environment that carries the substituted values.
\<close>

locale z3_semantics =
  fixes B :: "'z z3_backend" and zeval :: "env \<Rightarrow> 'z \<Rightarrow> val option"
  assumes translate: "eval env e = Some v \<Longrightarrow> zeval env (z3_translate B e) = Some v"
    and simplified: "zeval env z = Some v \<Longrightarrow> zeval env (z3_simplify B z) = Some v"
    and ite: "zeval env c = Some (VBool p) \<Longrightarrow> zeval env a = Some v \<Longrightarrow> zeval env b = Some w \<Longrightarrow>
      val_type v = val_type w \<Longrightarrow> zeval env (z3_ite B c a b) = Some (if p then v else w)"
    and substitute: "distinct_keys sv_key s \<Longrightarrow> all_defined zeval env s \<Longrightarrow>
      zeval (override zeval env s) z = Some v \<Longrightarrow>
      zeval env (z3_substitute B z (map (\<lambda>(x, z). z3_set B (SymbolicVariable x)) s) (map snd s)) = Some v"
begin

lemma set_value: "eval env e = Some v \<Longrightarrow> zeval env (z3_set B e) = Some v"
  by (simp add: z3_set_def translate simplified)

lemma conditional:
  "zeval env c = Some (VBool p) \<Longrightarrow> zeval env a = Some v \<Longrightarrow> zeval env b = Some w \<Longrightarrow>
   val_type v = val_type w \<Longrightarrow> zeval env (z3_simplify B (z3_ite B c a b)) = Some (if p then v else w)"
  by (rule simplified) (rule ite)

lemma substitute_set:
  "distinct_keys sv_key s \<Longrightarrow> all_defined zeval env s \<Longrightarrow> zeval (override zeval env s) z = Some v \<Longrightarrow>
   zeval env (z3_substitute_set B s z) = Some v"
  unfolding z3_substitute_set_def by (intro simplified substitute)

text \<open>Merging under a condition whose value is known, seen through the values.\<close>

lemma mergeConditionally_value:
  assumes "zeval env c = Some (VBool p)" and "cp_find s x = Some old" and "zeval env old = Some v"
    and "distinct_keys sv_key other"
    and "\<And>z. cp_find other x = Some z \<Longrightarrow> zeval env z = Some w \<and> val_type w = val_type v"
  shows "\<exists>z. cp_find (z3_mergeConditionally B c other s) x = Some z \<and>
    zeval env z = Some (if p \<and> cp_find other x \<noteq> None then w else v)"
proof (cases "cp_find other x")
  case None
  have "cp_find (z3_mergeConditionally B c other s) x = cp_find s x"
    using None unfolding mergeConditionally_combine om_find_None by (rule cp.find_combine_other)
  with assms None show ?thesis by simp
next
  case (Some z)
  have "cp_find (z3_mergeConditionally B c other s) x = Some (z3_simplify B (z3_ite B c z old))"
    using mergeConditionally_lookup [OF assms(4), of B c s x] assms(2) Some by simp
  with assms Some conditional [OF assms(1), of z w old v] show ?thesis by simp
qed

end

section \<open>The expression language as a solver\<close>

definition ir_lookup :: "(expr \<times> 'a) list \<Rightarrow> svar \<Rightarrow> 'a option" where
  "ir_lookup ps x =
     map_of (map (\<lambda>(e, z). (case e of SymbolicVariable y \<Rightarrow> Some (sv_key y) | _ \<Rightarrow> None, z)) ps)
       (Some (sv_key x))"

fun ir_replace :: "(expr \<times> expr) list \<Rightarrow> expr \<Rightarrow> expr" where
  "ir_replace ps (SymbolicVariable x) =
     (case ir_lookup ps x of Some z \<Rightarrow> z | None \<Rightarrow> SymbolicVariable x)"
| "ir_replace ps (Placeholder l d) = Placeholder l (ir_replace ps d)"
| "ir_replace ps (Unary t op e) = Unary t op (ir_replace ps e)"
| "ir_replace ps (Binary t op l r) = Binary t op (ir_replace ps l) (ir_replace ps r)"
| "ir_replace ps (Slice t e hi lo) = Slice t (ir_replace ps e) hi lo"
| "ir_replace ps (Mux t c a b) = Mux t (ir_replace ps c) (ir_replace ps a) (ir_replace ps b)"
| "ir_replace ps (ListExpression es) = ListExpression (map (ir_replace ps) es)"
| "ir_replace ps (StructExpression ns es) = StructExpression ns (map (ir_replace ps) es)"
| "ir_replace ps (HeaderStackExpression t es) = HeaderStackExpression t (map (ir_replace ps) es)"
| "ir_replace ps e = e"

definition ir_backend :: "expr z3_backend" where
  "ir_backend =
     \<lparr>z3_translate = (\<lambda>e. e), z3_simplify = simplify,
      z3_ite = (\<lambda>c a b. Mux (type_of a) c a b),
      z3_substitute = (\<lambda>z ps zs. ir_replace (zip ps zs) z)\<rparr>"

lemma simplify_variable [simp]: "simplify (SymbolicVariable x) = SymbolicVariable x"
  by (simp add: simplify_def)

lemma ir_lookup_store:
  "ir_lookup (zip (map (\<lambda>(x, z). z3_set ir_backend (SymbolicVariable x)) s) (map snd s)) x = cp_find s x"
  by (induction s) (auto simp: ir_lookup_def z3_set_def ir_backend_def)

lemma list_all2_map_right: "(\<And>e. e \<in> set es \<Longrightarrow> P e (f e)) \<Longrightarrow> list_all2 P es (map f es)"
  by (induction es) simp_all

lemma ir_replace_via:
  assumes ps: "\<And>x. ir_lookup ps x = cp_find s x" and def: "all_defined eval env s"
  shows "refines_via (override eval env s) env e (ir_replace ps e)"
proof (induction e)
  case (SymbolicVariable x)
  show ?case
  proof (cases "cp_find s x")
    case None
    then show ?thesis using override_unassigned [OF None, of eval env]
      by (simp add: ps refines_via_def)
  next
    case (Some v)
    with def obtain w where "eval env v = Some w"
      by (fastforce simp: all_defined_def dest: om_find_SomeD)
    with Some override_assigned [of s x v eval env w] show ?thesis
      by (simp add: ps refines_via_def typed_Some)
  qed
next
  case (Placeholder l d)
  then show ?case by (simp add: refines_via_def)
qed (auto intro!: via_congs list_all2_map_right simp: refines_via_def [of _ _ "BoolLiteral _"]
    refines_via_def [of _ _ "Constant _ _"] refines_via_def [of _ _ "StringLiteral _"]
    refines_via_def [of _ _ DefaultExpression])

interpretation ir_z3: z3_semantics ir_backend eval
proof
  fix env e and v :: val
  show "eval env (z3_translate ir_backend e) = Some v" if "eval env e = Some v"
    using that by (simp add: ir_backend_def)
  show "eval env (z3_simplify ir_backend e) = Some v" if "eval env e = Some v"
    using refines_inD [OF simplify_refines that] by (simp add: ir_backend_def)
next
  fix env c p a b and v w :: val
  assume "eval env c = Some (VBool p)" and v: "eval env a = Some v" and w: "eval env b = Some w"
    and "val_type v = val_type w"
  with eval_type [OF v] eval_in_range [OF v] eval_in_range [OF w]
  show "eval env (z3_ite ir_backend c a b) = Some (if p then v else w)"
    by (cases p) (auto simp: ir_backend_def eval_Mux_Some)
next
  fix env z and s :: "expr assignments" and v :: val
  assume "all_defined eval env s" "eval (override eval env s) z = Some v"
  then show "eval env (z3_substitute ir_backend z
      (map (\<lambda>(x, z). z3_set ir_backend (SymbolicVariable x)) s) (map snd s)) = Some v"
    using refines_viaD [OF ir_replace_via [OF ir_lookup_store]] by (simp add: ir_backend_def)
qed

end
