(* ===== verification/MatchKeys.thy ===== *)
theory MatchKeys
  imports Z3ControlPlaneAssignment
begin

text \<open>
  The match keys of \<open>control_plane_objects.cpp\<close>: one expression per key of a table that tells, over
  the symbolic variables the control plane assigns, whether an entry matches. The names of these
  variables come from \<open>common/control_plane/symbolic_variables.h\<close>, which is not part of the
  repository: they are the fields of \<open>cp_symbols\<close>.

  The lemmas give every kind of key its meaning in numbers.
\<close>

section \<open>The symbols of the control plane\<close>

record cp_symbols =
  getTableKey :: "string \<Rightarrow> string \<Rightarrow> ty \<Rightarrow> svar"
  getTableTernaryMask :: "string \<Rightarrow> string \<Rightarrow> ty \<Rightarrow> svar"
  getTableMatchLpmPrefix :: "string \<Rightarrow> string \<Rightarrow> ty \<Rightarrow> svar"
  getTableRange :: "string \<Rightarrow> string \<Rightarrow> ty \<Rightarrow> svar \<times> svar"
  getTableActive :: "string \<Rightarrow> svar"
  getTableActionChoice :: "string \<Rightarrow> svar"
  getTableActionArgument :: "string \<Rightarrow> string \<Rightarrow> string \<Rightarrow> ty \<Rightarrow> svar"

definition getParserValueSetConfigured :: "string \<Rightarrow> svar" where
  "getParserValueSetConfigured parserValueSetName =
     getSymbolicVariable Type_Boolean (''pvs_configured_'' @ parserValueSetName)"

definition getDefaultActionVariable :: "string \<Rightarrow> svar" where
  "getDefaultActionVariable tableName = SVar False Type_String (tableName @ ''_default_action'')"

section \<open>Keys\<close>

datatype key_kind =
    ExactTableMatchKey svar
  | TernaryTableMatchKey svar svar
  | LpmTableMatchKey svar svar
  | OptionalMatchKey svar
  | SelectorMatchKey svar
  | RangeTableMatchKey svar svar

record TableMatchKey =
  tk_tableName :: string
  tk_name :: string
  tk_kind :: key_kind
  tk_keyExpression :: expr
  tk_computedKey :: expr

definition mk_ExactTableMatchKey :: "cp_symbols \<Rightarrow> string \<Rightarrow> string \<Rightarrow> expr \<Rightarrow> TableMatchKey" where
  "mk_ExactTableMatchKey P tableName name value =
     (let variable = getTableKey P tableName name (type_of value) in
      \<lparr>tk_tableName = tableName, tk_name = name, tk_kind = ExactTableMatchKey variable,
       tk_keyExpression = value, tk_computedKey = mk_Equ (SymbolicVariable variable) value\<rparr>)"

definition createTernaryKey :: "svar \<Rightarrow> svar \<Rightarrow> expr \<Rightarrow> expr" where
  "createTernaryKey variable mask_var keyExpression =
     mk_Equ (mk_BAnd keyExpression (SymbolicVariable mask_var))
       (mk_BAnd (SymbolicVariable variable) (SymbolicVariable mask_var))"

definition mk_TernaryTableMatchKey :: "cp_symbols \<Rightarrow> string \<Rightarrow> string \<Rightarrow> expr \<Rightarrow> TableMatchKey" where
  "mk_TernaryTableMatchKey P tableName name keyExpression =
     (let variable = getTableKey P tableName name (type_of keyExpression);
          mask_var = getTableTernaryMask P tableName name (type_of keyExpression) in
      \<lparr>tk_tableName = tableName, tk_name = name, tk_kind = TernaryTableMatchKey variable mask_var,
       tk_keyExpression = keyExpression,
       tk_computedKey = createTernaryKey variable mask_var keyExpression\<rparr>)"

text \<open>\<open>IR::getMaxBvVal\<close>.\<close>

definition getMaxBvVal :: "nat \<Rightarrow> int" where
  "getMaxBvVal w = 2 ^ w - 1"

definition createLpmKey :: "svar \<Rightarrow> svar \<Rightarrow> expr \<Rightarrow> expr" where
  "createLpmKey variable prefixVar keyExpression =
     (let keyType = sv_type variable;
          maxReturn = getMaxBvVal (width_bits keyType);
          lpmMask = mk_Shl (Constant keyType maxReturn) (SymbolicVariable prefixVar) in
      mk_Equ (mk_BAnd keyExpression lpmMask) (mk_BAnd (SymbolicVariable variable) lpmMask))"

definition mk_LpmTableMatchKey :: "cp_symbols \<Rightarrow> string \<Rightarrow> string \<Rightarrow> expr \<Rightarrow> TableMatchKey" where
  "mk_LpmTableMatchKey P tableName name keyExpression =
     (let variable = getTableKey P tableName name (type_of keyExpression);
          prefixVar = getTableMatchLpmPrefix P tableName name (type_of keyExpression) in
      \<lparr>tk_tableName = tableName, tk_name = name, tk_kind = LpmTableMatchKey variable prefixVar,
       tk_keyExpression = keyExpression,
       tk_computedKey = createLpmKey variable prefixVar keyExpression\<rparr>)"

definition mk_OptionalMatchKey :: "cp_symbols \<Rightarrow> string \<Rightarrow> string \<Rightarrow> expr \<Rightarrow> TableMatchKey" where
  "mk_OptionalMatchKey P tableName name value =
     (let variable = getTableKey P tableName name (type_of value) in
      \<lparr>tk_tableName = tableName, tk_name = name, tk_kind = OptionalMatchKey variable,
       tk_keyExpression = value, tk_computedKey = mk_Equ (SymbolicVariable variable) value\<rparr>)"

definition mk_SelectorMatchKey :: "cp_symbols \<Rightarrow> string \<Rightarrow> string \<Rightarrow> expr \<Rightarrow> TableMatchKey" where
  "mk_SelectorMatchKey P tableName name keyExpression =
     (let variable = getTableKey P tableName name (type_of keyExpression) in
      \<lparr>tk_tableName = tableName, tk_name = name, tk_kind = SelectorMatchKey variable,
       tk_keyExpression = keyExpression,
       tk_computedKey = mk_Equ (SymbolicVariable variable) keyExpression\<rparr>)"

definition createRangeKey :: "svar \<Rightarrow> svar \<Rightarrow> expr \<Rightarrow> expr" where
  "createRangeKey minKey maxKey keyExpression =
     mk_LAnd
       (mk_LAnd (mk_Lss (SymbolicVariable minKey) (SymbolicVariable maxKey))
         (mk_Leq (SymbolicVariable minKey) keyExpression))
       (mk_Leq keyExpression (SymbolicVariable maxKey))"

definition mk_RangeTableMatchKey :: "cp_symbols \<Rightarrow> string \<Rightarrow> string \<Rightarrow> expr \<Rightarrow> TableMatchKey" where
  "mk_RangeTableMatchKey P tableName name keyExpression =
     (let range = getTableRange P tableName name (type_of keyExpression) in
      \<lparr>tk_tableName = tableName, tk_name = name,
       tk_kind = RangeTableMatchKey (fst range) (snd range), tk_keyExpression = keyExpression,
       tk_computedKey = createRangeKey (fst range) (snd range) keyExpression\<rparr>)"

text \<open>Every kind returns its computed key as the constraint.\<close>

definition computeControlPlaneConstraint :: "TableMatchKey \<Rightarrow> expr" where
  "computeControlPlaneConstraint key = tk_computedKey key"

definition computeZ3ControlPlaneConstraint :: "'z Z3Cache \<Rightarrow> TableMatchKey \<Rightarrow> 'z option" where
  "computeZ3ControlPlaneConstraint c key = cache_get (tk_computedKey key) c"

text \<open>The key match of a table, \<open>TableConfiguration::buildKeyMatches\<close>.\<close>

fun conjoin_matches :: "expr option \<Rightarrow> TableMatchKey list \<Rightarrow> expr option" where
  "conjoin_matches hit [] = hit"
| "conjoin_matches hit (key # keys) =
     conjoin_matches
       (Some (case hit of None \<Rightarrow> computeControlPlaneConstraint key
              | Some h \<Rightarrow> mk_LAnd h (computeControlPlaneConstraint key))) keys"

definition buildKeyMatches :: "TableMatchKey list \<Rightarrow> expr" where
  "buildKeyMatches keyMap =
     (case conjoin_matches None keyMap of None \<Rightarrow> BoolLiteral False | Some hit \<Rightarrow> hit)"

section \<open>What the keys match\<close>

text \<open>Keys over unsigned values: the symbolic variables and the key expression have the numbers given.\<close>

lemma eval_mk_Equ_bits:
  assumes "eval env a = Some (VBits w s m)" and "eval env b = Some (VBits w s n)"
  shows "eval env (mk_Equ a b) = Some (VBool (m = n))"
  using assms by (simp add: mk_Equ_def eval_Binary_Some eq_val_def)

lemma eval_mk_BAnd_bits:
  assumes "eval env a = Some (VBits w False m)" and "eval env b = Some (VBits w False n)"
  shows "eval env (mk_BAnd a b) = Some (VBits w False (m AND n))"
proof -
  have r: "0 \<le> m" "m < 2 ^ w" "0 \<le> n" "n < 2 ^ w"
    using eval_in_range [OF assms(1)] eval_in_range [OF assms(2)] by simp_all
  then have t: "take_bit w m AND take_bit w n = m AND n" by simp
  have "take_bit w (m AND n) < 2 ^ w" by (rule take_bit_int_less_exp)
  then have "m AND n < 2 ^ w" unfolding take_bit_and t .
  then show ?thesis
    using assms eval_type [OF assms(1)] t r(1)
    by (simp add: mk_BAnd_def eval_Binary_Some bits_val_def)
qed

lemma eval_mk_rel_bits:
  assumes "eval env a = Some (VBits w False m)" and "eval env b = Some (VBits w False n)"
  shows "eval env (mk_Lss a b) = Some (VBool (m < n))"
    and "eval env (mk_Leq a b) = Some (VBool (m \<le> n))"
  using assms by (simp_all add: mk_defs eval_Binary_Some rel_val_def raw_to_int_def)

lemma eval_mk_LAnd_bool:
  assumes "eval env a = Some (VBool p)" and "p \<Longrightarrow> eval env b = Some (VBool q)"
  shows "eval env (mk_LAnd a b) = Some (VBool (p \<and> q))"
  using assms by (cases p; cases q) (simp_all add: mk_defs eval_LAnd_Some)

lemma createTernaryKey_value:
  assumes "eval env (SymbolicVariable x) = Some (VBits w False n)"
    and "eval env (SymbolicVariable y) = Some (VBits w False m)"
    and "eval env e = Some (VBits w False k)"
  shows "eval env (createTernaryKey x y e) = Some (VBool (k AND m = n AND m))"
  unfolding createTernaryKey_def
  by (rule eval_mk_Equ_bits [OF eval_mk_BAnd_bits [OF assms(3,2)] eval_mk_BAnd_bits [OF assms(1,2)]])

lemma lpm_mask_bits:
  assumes "0 \<le> k" "k < 2 ^ w" "0 \<le> n" "n < 2 ^ w"
  shows "k AND take_bit w (push_bit p (mask w)) = n AND take_bit w (push_bit p (mask w)) \<longleftrightarrow>
    drop_bit p k = drop_bit p (n :: int)"
proof -
  have k: "bit k i \<Longrightarrow> i < w" for i
    using bit_take_bit_iff [of w k i] assms(1,2) by simp
  have n: "bit n i \<Longrightarrow> i < w" for i
    using bit_take_bit_iff [of w n i] assms(3,4) by simp
  have m: "bit (take_bit w (push_bit p (mask w)) :: int) i \<longleftrightarrow> i < w \<and> p \<le> i" for i
    by (auto simp: bit_simps)
  have "k AND take_bit w (push_bit p (mask w)) = n AND take_bit w (push_bit p (mask w)) \<longleftrightarrow>
      (\<forall>i \<ge> p. bit k i = bit n i)"
    unfolding bit_eq_iff [of "_ AND _"] bit_and_iff m using k n by (simp, blast)
  also have "\<dots> \<longleftrightarrow> (\<forall>j. bit k (p + j) = bit n (p + j))"
    by (metis le_add1 le_add_diff_inverse)
  also have "\<dots> \<longleftrightarrow> drop_bit p k = drop_bit p n"
    by (simp add: bit_eq_iff [of "drop_bit p k"] bit_drop_bit_eq)
  finally show ?thesis .
qed

lemma createLpmKey_value:
  assumes "sv_type x = Type_Bits w False"
    and x: "eval env (SymbolicVariable x) = Some (VBits w False n)"
    and y: "eval env (SymbolicVariable y) = Some (VBits w False p)"
    and e: "eval env e = Some (VBits w False k)"
  shows "eval env (createLpmKey x y e) = Some (VBool (k div 2 ^ nat p = n div 2 ^ nat p))"
proof -
  define m where "m = take_bit w (push_bit (nat p) (mask w :: int))"
  have "eval env (mk_Shl (Constant (Type_Bits w False) (getMaxBvVal w)) (SymbolicVariable y)) =
      Some (VBits w False m)"
    using y by (simp add: mk_Shl_def eval_Binary_Some const_val_def getMaxBvVal_def shl_val_def
        shift_amount_def m_def push_bit_eq_mult mask_eq_exp_minus_1 take_bit_int_less_exp)
  then have "eval env (createLpmKey x y e) = Some (VBool (k AND m = n AND m))"
    using eval_mk_Equ_bits [OF eval_mk_BAnd_bits [OF e] eval_mk_BAnd_bits [OF x]]
    by (simp add: createLpmKey_def assms(1) Let_def)
  moreover have "k AND m = n AND m \<longleftrightarrow> drop_bit (nat p) k = drop_bit (nat p) n"
    unfolding m_def by (rule lpm_mask_bits) (use eval_in_range [OF x] eval_in_range [OF e] in simp_all)
  ultimately show ?thesis by (simp add: drop_bit_eq_div)
qed

lemma createRangeKey_value:
  assumes "eval env (SymbolicVariable x) = Some (VBits w False lo)"
    and "eval env (SymbolicVariable y) = Some (VBits w False hi)"
    and "eval env e = Some (VBits w False k)"
  shows "eval env (createRangeKey x y e) = Some (VBool ((lo < hi \<and> lo \<le> k) \<and> k \<le> hi))"
  unfolding createRangeKey_def
  by (rule eval_mk_LAnd_bool [OF eval_mk_LAnd_bool [OF eval_mk_rel_bits(1) [OF assms(1,2)]
        eval_mk_rel_bits(2) [OF assms(1,3)]] eval_mk_rel_bits(2) [OF assms(3,2)]])

text \<open>
  Claim C15. What the keys of each kind match, over unsigned numbers: an exact, optional or selector
  key matches the assigned value; a ternary key the assigned value on the bits of the mask; a
  longest-prefix key the assigned value on all but the \<open>p\<close> lowest bits, where \<open>p\<close> is the number
  assigned to its prefix symbol; a range key the numbers between the two bounds, provided the lower
  bound is strictly smaller.
\<close>

theorem match_keys_value:
  assumes x: "eval env (SymbolicVariable (getTableKey P t f (type_of e))) = Some (VBits w False n)"
    and y: "eval env (SymbolicVariable (getTableTernaryMask P t f (type_of e))) = Some (VBits w False m)"
    and z: "eval env (SymbolicVariable (getTableMatchLpmPrefix P t f (type_of e))) = Some (VBits w False p)"
    and lo: "eval env (SymbolicVariable (fst (getTableRange P t f (type_of e)))) = Some (VBits w False lo)"
    and hi: "eval env (SymbolicVariable (snd (getTableRange P t f (type_of e)))) = Some (VBits w False hi)"
    and e: "eval env e = Some (VBits w False k)"
  shows "eval env (computeControlPlaneConstraint (mk_ExactTableMatchKey P t f e)) = Some (VBool (n = k)) \<and>
    eval env (computeControlPlaneConstraint (mk_OptionalMatchKey P t f e)) = Some (VBool (n = k)) \<and>
    eval env (computeControlPlaneConstraint (mk_SelectorMatchKey P t f e)) = Some (VBool (n = k)) \<and>
    eval env (computeControlPlaneConstraint (mk_TernaryTableMatchKey P t f e)) =
      Some (VBool (k AND m = n AND m)) \<and>
    eval env (computeControlPlaneConstraint (mk_LpmTableMatchKey P t f e)) =
      Some (VBool (k div 2 ^ nat p = n div 2 ^ nat p)) \<and>
    eval env (computeControlPlaneConstraint (mk_RangeTableMatchKey P t f e)) =
      Some (VBool (lo < hi \<and> lo \<le> k \<and> k \<le> hi))"
proof -
  have "sv_type (getTableKey P t f (type_of e)) = Type_Bits w False" using eval_type [OF x] by simp
  then show ?thesis
    using eval_mk_Equ_bits [OF x e] createTernaryKey_value [OF x y e] createLpmKey_value [OF _ x z e]
      createRangeKey_value [OF lo hi e]
    by (simp add: computeControlPlaneConstraint_def mk_ExactTableMatchKey_def mk_OptionalMatchKey_def
        mk_SelectorMatchKey_def mk_TernaryTableMatchKey_def mk_LpmTableMatchKey_def
        mk_RangeTableMatchKey_def Let_def)
qed

text \<open>One naming scheme, to evaluate the definitions on concrete tables.\<close>

definition example_symbols :: cp_symbols where
  "example_symbols =
     \<lparr>getTableKey = (\<lambda>t f ty. SVar False ty (t @ ''_key_'' @ f)),
      getTableTernaryMask = (\<lambda>t f ty. SVar False ty (t @ ''_mask_'' @ f)),
      getTableMatchLpmPrefix = (\<lambda>t f ty. SVar False ty (t @ ''_lpm_prefix_'' @ f)),
      getTableRange = (\<lambda>t f ty. (SVar False ty (t @ ''_range_min_'' @ f), SVar False ty (t @ ''_range_max_'' @ f))),
      getTableActive = (\<lambda>t. SVar False Type_Boolean (t @ ''_configured'')),
      getTableActionChoice = (\<lambda>t. SVar False Type_String (t @ ''_action'')),
      getTableActionArgument = (\<lambda>t a p ty. SVar False ty (t @ a @ ''_arg_'' @ p))\<rparr>"

theorem match_keys_value_witness:
  "eval (\<lambda>k. VBits 8 False 4)
     (computeControlPlaneConstraint (mk_LpmTableMatchKey example_symbols ''t'' ''f'' (Constant (Type_Bits 8 False) 9))) =
   Some (VBool True)"
  using match_keys_value [of "\<lambda>k. VBits 8 False 4" example_symbols "''t''" "''f''"
      "Constant (Type_Bits 8 False) 9" 8 4 4 4 4 4 9]
  by (simp add: example_symbols_def typed_def const_val_def)

text \<open>The key match of a table is the conjunction of its keys.\<close>

lemma conjoin_matches_value:
  assumes "\<forall>key \<in> set keys. \<exists>p. eval env (computeControlPlaneConstraint key) = Some (VBool p)"
    and "hit = Some h" and "eval env h = Some (VBool q)"
  shows "\<exists>e. conjoin_matches hit keys = Some e \<and>
    eval env e = Some (VBool (q \<and> (\<forall>key \<in> set keys.
      eval env (computeControlPlaneConstraint key) = Some (VBool True))))"
  using assms
proof (induction keys arbitrary: hit h q)
  case (Cons key keys)
  then obtain p where p: "eval env (computeControlPlaneConstraint key) = Some (VBool p)" by auto
  have "eval env (mk_LAnd h (computeControlPlaneConstraint key)) = Some (VBool (q \<and> p))"
    by (rule eval_mk_LAnd_bool) (use Cons.prems p in auto)
  with Cons.IH [OF _ refl this] Cons.prems p show ?case by auto
qed simp

text \<open>
  A table without keys never hits. A table with keys hits exactly when every key
  matches.
\<close>

theorem buildKeyMatches_value:
  assumes "\<forall>key \<in> set keys. \<exists>p. eval env (computeControlPlaneConstraint key) = Some (VBool p)"
  shows "eval env (buildKeyMatches keys) =
    Some (VBool (keys \<noteq> [] \<and>
      (\<forall>key \<in> set keys. eval env (computeControlPlaneConstraint key) = Some (VBool True))))"
proof (cases keys)
  case (Cons key rest)
  with assms obtain p where p: "eval env (computeControlPlaneConstraint key) = Some (VBool p)" by auto
  from conjoin_matches_value [OF _ refl p] assms Cons obtain e where
    "conjoin_matches (Some (computeControlPlaneConstraint key)) rest = Some e"
    "eval env e = Some (VBool (p \<and> (\<forall>key \<in> set rest.
      eval env (computeControlPlaneConstraint key) = Some (VBool True))))" by auto
  with Cons p show ?thesis by (simp add: buildKeyMatches_def)
qed (simp add: buildKeyMatches_def)

theorem buildKeyMatches_value_witness:
  "eval (\<lambda>k. VBits 8 False 4)
     (buildKeyMatches [mk_ExactTableMatchKey example_symbols ''t'' ''f'' (Constant (Type_Bits 8 False) 9),
        mk_LpmTableMatchKey example_symbols ''t'' ''g'' (Constant (Type_Bits 8 False) 9)]) =
   Some (VBool False)"
proof -
  have v: "eval (\<lambda>k. VBits 8 False 4) (SymbolicVariable (SVar b (Type_Bits 8 False) l)) = Some (VBits 8 False 4)"
    for b l by (simp add: typed_def)
  have c: "eval (\<lambda>k. VBits 8 False 4) (Constant (Type_Bits 8 False) 9) = Some (VBits 8 False 9)"
    by (simp add: const_val_def)
  show ?thesis
    using buildKeyMatches_value [of "[mk_ExactTableMatchKey example_symbols ''t'' ''f'' (Constant (Type_Bits 8 False) 9),
        mk_LpmTableMatchKey example_symbols ''t'' ''g'' (Constant (Type_Bits 8 False) 9)]" "\<lambda>k. VBits 8 False 4"]
      eval_mk_Equ_bits [OF v c] createLpmKey_value [OF _ v v c]
    by (simp add: computeControlPlaneConstraint_def mk_ExactTableMatchKey_def mk_LpmTableMatchKey_def
        Let_def example_symbols_def ex_bool_eq del: eval.simps)
qed

text \<open>
  Two consequences that contradict the documentation of the key kinds: a full-length prefix
  matches every key, and a range of one number matches none.
\<close>

lemma full_prefix_matches_everything:
  assumes "sv_type x = Type_Bits w False" "eval env (SymbolicVariable x) = Some (VBits w False n)"
    "eval env (SymbolicVariable y) = Some (VBits w False (int w))" "eval env e = Some (VBits w False k)"
  shows "eval env (createLpmKey x y e) = Some (VBool True)"
  using createLpmKey_value [OF assms] eval_in_range [OF assms(2)] eval_in_range [OF assms(4)] by simp

lemma singleton_range_matches_nothing:
  assumes "eval env (SymbolicVariable x) = Some (VBits w False n)"
    "eval env (SymbolicVariable y) = Some (VBits w False n)" "eval env e = Some (VBits w False k)"
  shows "eval env (createRangeKey x y e) = Some (VBool False)"
  using createRangeKey_value [OF assms] by simp

end
