(* ===== verification/TableConfiguration.thy ===== *)
theory TableConfiguration
  imports MatchKeys
begin

text \<open>
  Tables as the control plane configures them (\<open>control_plane_objects.h\<close>, \<open>.cpp\<close>): entries, the
  default action, the configuration and the assignments it makes to the symbolic variables of the
  program, once as expressions and once over the solver.

  \<open>std::type_info::hash_code\<close>, which orders objects of different classes, and the order of
  expressions are parameters. The mutable condition of an entry and the cache of solver
  expressions are threaded explicitly.

  The lemmas show that the entries stay sorted and their conditions in step with the key match
  (\<open>config_ok\<close>), and give the assignments their meaning: the last matching entry in the order of
  the entry set decides.
\<close>

section \<open>Entries\<close>

datatype item_class =
    C_TableMatchEntry | C_WildCardMatchEntry | C_TableDefaultAction | C_TableConfiguration
  | C_TableActionSelectorConfiguration | C_ParserValueSet | C_ActionProfile | C_ActionSelector
  | C_CloneSession

record 'z TableMatchEntry =
  te_class :: item_class
  te_actionAssignment :: ControlPlaneAssignmentSet
  te_z3ActionAssignment :: "'z Z3ControlPlaneAssignmentSet"
  te_priority :: int
  te_matches :: ControlPlaneAssignmentSet
  te_z3Matches :: "'z Z3ControlPlaneAssignmentSet"
  te_condition :: "'z option"

text \<open>The translation loop of the constructors: \<open>add\<close> every assignment to the empty solver set.\<close>

definition z3_of_assignments :: "'z z3_backend \<Rightarrow> ControlPlaneAssignmentSet \<Rightarrow> 'z Z3ControlPlaneAssignmentSet" where
  "z3_of_assignments B s = z3_merge_ir B s []"

definition mk_TableMatchEntry ::
  "'z z3_backend \<Rightarrow> ControlPlaneAssignmentSet \<Rightarrow> int \<Rightarrow> ControlPlaneAssignmentSet \<Rightarrow> 'z TableMatchEntry" where
  "mk_TableMatchEntry B actionAssignment priority matches =
     \<lparr>te_class = C_TableMatchEntry, te_actionAssignment = actionAssignment,
      te_z3ActionAssignment = z3_of_assignments B actionAssignment, te_priority = priority,
      te_matches = matches, te_z3Matches = z3_of_assignments B matches, te_condition = None\<rparr>"

definition mk_WildCardMatchEntry ::
  "'z z3_backend \<Rightarrow> ControlPlaneAssignmentSet \<Rightarrow> int \<Rightarrow> 'z TableMatchEntry" where
  "mk_WildCardMatchEntry B actionAssignment priority =
     (mk_TableMatchEntry B actionAssignment priority []) \<lparr>te_class := C_WildCardMatchEntry\<rparr>"

definition entry_assignments :: "'z TableMatchEntry \<Rightarrow> ControlPlaneAssignmentSet" where
  "entry_assignments e = (if te_class e = C_WildCardMatchEntry then [] else te_matches e)"

definition entry_z3_assignments :: "'z TableMatchEntry \<Rightarrow> 'z Z3ControlPlaneAssignmentSet" where
  "entry_z3_assignments e = (if te_class e = C_WildCardMatchEntry then [] else te_z3Matches e)"

definition setZ3Condition :: "'z z3_backend \<Rightarrow> 'z \<Rightarrow> 'z TableMatchEntry \<Rightarrow> 'z TableMatchEntry" where
  "setZ3Condition B condition e =
     e\<lparr>te_condition := Some (z3_substitute_set B (te_z3Matches e) condition)\<rparr>"

text \<open>\<open>TableMatchEntry::operator<\<close>: only the matches count.\<close>

definition entry_less ::
  "(item_class \<Rightarrow> nat) \<Rightarrow> (expr \<Rightarrow> expr \<Rightarrow> bool) \<Rightarrow> 'z TableMatchEntry \<Rightarrow> 'z TableMatchEntry \<Rightarrow> bool" where
  "entry_less hash_code lt a b =
     (if te_class a = te_class b then compare lt (te_matches a) (te_matches b)
      else hash_code (te_class a) < hash_code (te_class b))"

text \<open>\<open>CompareTableMatch\<close>: the order by priority.\<close>

definition CompareTableMatch :: "'z TableMatchEntry \<Rightarrow> 'z TableMatchEntry \<Rightarrow> bool" where
  "CompareTableMatch left right \<longleftrightarrow> te_priority right < te_priority left"

section \<open>Default actions\<close>

record 'z TableDefaultAction =
  da_actionAssignment :: ControlPlaneAssignmentSet
  da_z3ActionAssignment :: "'z Z3ControlPlaneAssignmentSet"

definition mk_TableDefaultAction :: "'z z3_backend \<Rightarrow> ControlPlaneAssignmentSet \<Rightarrow> 'z TableDefaultAction" where
  "mk_TableDefaultAction B actionAssignment =
     \<lparr>da_actionAssignment = actionAssignment, da_z3ActionAssignment = z3_of_assignments B actionAssignment\<rparr>"

definition default_less :: "(expr \<Rightarrow> expr \<Rightarrow> bool) \<Rightarrow> 'z TableDefaultAction \<Rightarrow> 'z TableDefaultAction \<Rightarrow> bool" where
  "default_less lt a b = compare lt (da_actionAssignment a) (da_actionAssignment b)"

section \<open>Configurations\<close>

definition kMaxEntriesPerTable :: nat where
  "kMaxEntriesPerTable = 50"

record 'z TableConfiguration =
  tc_tableName :: string
  tc_defaultTableAction :: "'z TableDefaultAction"
  tc_tableEntries :: "'z TableMatchEntry list"
  tc_tableKeyMatch :: expr

definition mk_TableConfiguration ::
  "string \<Rightarrow> 'z TableDefaultAction \<Rightarrow> 'z TableMatchEntry list \<Rightarrow> 'z TableConfiguration" where
  "mk_TableConfiguration tableName defaultTableAction tableEntries =
     \<lparr>tc_tableName = tableName, tc_defaultTableAction = defaultTableAction,
      tc_tableEntries = tableEntries, tc_tableKeyMatch = BoolLiteral False\<rparr>"

definition setTableKeyMatch ::
  "'z z3_backend \<Rightarrow> TableMatchKey list \<Rightarrow> 'z TableConfiguration \<Rightarrow> 'z Z3Cache \<Rightarrow>
   'z TableConfiguration \<times> 'z Z3Cache" where
  "setTableKeyMatch B tableKeyMap cfg c =
     (let keyMatch = simplify (buildKeyMatches tableKeyMap);
          (z3TableKeyMatch, c') = cache_set B keyMatch c in
      (cfg\<lparr>tc_tableKeyMatch := keyMatch,
          tc_tableEntries := map (setZ3Condition B z3TableKeyMatch) (tc_tableEntries cfg)\<rparr>, c'))"

text \<open>\<open>addTableEntry\<close> returns whether the entry was inserted (\<open>EXIT_SUCCESS\<close>).\<close>

definition addTableEntry ::
  "(item_class \<Rightarrow> nat) \<Rightarrow> (expr \<Rightarrow> expr \<Rightarrow> bool) \<Rightarrow> 'z z3_backend \<Rightarrow> 'z TableMatchEntry \<Rightarrow> bool \<Rightarrow>
   'z TableConfiguration \<Rightarrow> 'z Z3Cache \<Rightarrow> bool \<times> 'z TableConfiguration \<times> 'z Z3Cache" where
  "addTableEntry hash_code lt B entry replace cfg c =
     (let less = entry_less hash_code lt;
          entries = (if replace then set_erase less entry (tc_tableEntries cfg) else tc_tableEntries cfg);
          (z3KeyMatch, c') = cache_set B (tc_tableKeyMatch cfg) c;
          entry' = setZ3Condition B z3KeyMatch entry in
      (\<not> set_contains less entry' entries,
       cfg\<lparr>tc_tableEntries := set_emplace less entry' entries\<rparr>, c'))"

text \<open>\<open>deleteTableEntry\<close> returns the number of entries erased.\<close>

definition deleteTableEntry ::
  "(item_class \<Rightarrow> nat) \<Rightarrow> (expr \<Rightarrow> expr \<Rightarrow> bool) \<Rightarrow> 'z TableMatchEntry \<Rightarrow> 'z TableConfiguration \<Rightarrow>
   nat \<times> 'z TableConfiguration" where
  "deleteTableEntry hash_code lt entry cfg =
     (let less = entry_less hash_code lt in
      (if set_contains less entry (tc_tableEntries cfg) then 1 else 0,
       cfg\<lparr>tc_tableEntries := set_erase less entry (tc_tableEntries cfg)\<rparr>))"

definition clearTableEntries :: "'z TableConfiguration \<Rightarrow> 'z TableConfiguration" where
  "clearTableEntries cfg = cfg\<lparr>tc_tableEntries := []\<rparr>"

definition setDefaultTableAction :: "'z TableDefaultAction \<Rightarrow> 'z TableConfiguration \<Rightarrow> 'z TableConfiguration" where
  "setDefaultTableAction defaultTableAction cfg = cfg\<lparr>tc_defaultTableAction := defaultTableAction\<rparr>"

section \<open>The assignments of a table\<close>

text \<open>An entry's actions are placed in front of what is there, under the entry's constraint.\<close>

definition assign_action :: "expr \<Rightarrow> svar \<times> expr \<Rightarrow> ControlPlaneAssignmentSet \<Rightarrow> ControlPlaneAssignmentSet" where
  "assign_action constraint va assignments =
     (case va of (variable, assignment) \<Rightarrow>
        (case cp_find assignments variable of
           Some old \<Rightarrow>
             om_assign sv_key assignments variable (Mux (type_of assignment) constraint assignment old)
         | None \<Rightarrow> om_emplace sv_key assignments variable assignment))"

definition assign_entry :: "expr \<Rightarrow> 'z TableMatchEntry \<Rightarrow> ControlPlaneAssignmentSet \<Rightarrow> ControlPlaneAssignmentSet option" where
  "assign_entry keyMatch e assignments =
     assign_or_return (substituteSymbolicVariable (entry_assignments e) keyMatch) (\<lambda>constraint.
       Some (fold (assign_action constraint) (te_actionAssignment e) assignments))"

fun assign_entries ::
  "expr \<Rightarrow> 'z TableMatchEntry list \<Rightarrow> ControlPlaneAssignmentSet \<Rightarrow> ControlPlaneAssignmentSet option" where
  "assign_entries keyMatch [] assignments = Some assignments"
| "assign_entries keyMatch (e # es) assignments =
     assign_or_return (assign_entry keyMatch e assignments) (assign_entries keyMatch es)"

definition computeControlPlaneAssignments :: "cp_symbols \<Rightarrow> 'z TableConfiguration \<Rightarrow> ControlPlaneAssignmentSet option" where
  "computeControlPlaneAssignments P cfg =
     (let entries = tc_tableEntries cfg;
          assignments = om_emplace sv_key (da_actionAssignment (tc_defaultTableAction cfg))
            (getTableActive P (tc_tableName cfg)) (BoolLiteral (length entries > 0)) in
      if length entries = 0 then Some assignments
      else if length entries > kMaxEntriesPerTable
      then Some (fold (\<lambda>x. set_value x (wildcard_variable x)) (map fst assignments) assignments)
      else assign_entries (tc_tableKeyMatch cfg) entries assignments)"

text \<open>Over the solver the loop stops at an entry whose condition was never set.\<close>

fun z3_assign_entries ::
  "'z z3_backend \<Rightarrow> 'z TableMatchEntry list \<Rightarrow> 'z Z3ControlPlaneAssignmentSet \<Rightarrow> 'z Z3ControlPlaneAssignmentSet" where
  "z3_assign_entries B [] assignments = assignments"
| "z3_assign_entries B (e # es) assignments =
     (case te_condition e of
        None \<Rightarrow> assignments
      | Some constraint \<Rightarrow>
          z3_assign_entries B es
            (z3_mergeConditionally B (z3_substitute_set B (entry_z3_assignments e) constraint)
              (te_z3ActionAssignment e) assignments))"

definition computeZ3ControlPlaneAssignments ::
  "'z z3_backend \<Rightarrow> cp_symbols \<Rightarrow> 'z Z3Cache \<Rightarrow> 'z TableConfiguration \<Rightarrow> 'z Z3ControlPlaneAssignmentSet" where
  "computeZ3ControlPlaneAssignments B P c cfg =
     (let entries = tc_tableEntries cfg;
          assignments = snd (z3_add (da_z3ActionAssignment (tc_defaultTableAction cfg))
            (getTableActive P (tc_tableName cfg)) (z3_set B (BoolLiteral (length entries > 0)))) in
      if length entries = 0 then assignments
      else if length entries > kMaxEntriesPerTable then z3_setAllSymbolic B assignments
      else (case cache_get (tc_tableKeyMatch cfg) c of
              None \<Rightarrow> assignments
            | Some _ \<Rightarrow> z3_assign_entries B entries assignments))"

section \<open>The entry set\<close>

lemma entry_less_strict_order:
  assumes "strict_order lt" and "inj hash_code"
  shows "strict_order (entry_less hash_code lt :: 'z TableMatchEntry \<Rightarrow> _)"
proof -
  have "(entry_less hash_code lt :: 'z TableMatchEntry \<Rightarrow> _) =
      (\<lambda>a b. lex_pair (<) (compare lt) (hash_code (te_class a), te_matches a) (hash_code (te_class b), te_matches b))"
    using injD [OF assms(2)] by (auto simp: fun_eq_iff entry_less_def lex_pair_def) (metis less_linear)
  moreover have "strict_order ((<) :: nat \<Rightarrow> nat \<Rightarrow> bool)"
    using strict_order_measure [of "\<lambda>n :: nat. n"] by simp
  ultimately show ?thesis
    using strict_order_image [OF strict_order_lex_pair [OF _ compare_strict_order [OF assms(1)]],
        of "(<)" "\<lambda>e :: 'z TableMatchEntry. (hash_code (te_class e), te_matches e)"]
    by (simp only:)
qed

lemma setZ3Condition_simps [simp]:
  "te_class (setZ3Condition B z e) = te_class e"
  "te_matches (setZ3Condition B z e) = te_matches e"
  "te_actionAssignment (setZ3Condition B z e) = te_actionAssignment e"
  "te_z3Matches (setZ3Condition B z e) = te_z3Matches e"
  "te_z3ActionAssignment (setZ3Condition B z e) = te_z3ActionAssignment e"
  "te_condition (setZ3Condition B z e) = Some (z3_substitute_set B (te_z3Matches e) z)"
  by (simp_all add: setZ3Condition_def)

lemma entry_less_setZ3Condition [simp]:
  "entry_less h lt (setZ3Condition B z a) b = entry_less h lt a b"
  "entry_less h lt a (setZ3Condition B z b) = entry_less h lt a b"
  by (simp_all add: entry_less_def)

lemma addTableEntry_undone:
  assumes so: "strict_order (entry_less h lt :: 'z TableMatchEntry \<Rightarrow> _)"
    and add: "addTableEntry h lt (B :: 'z z3_backend) e False cfg c = (True, cfg', c')"
  shows "deleteTableEntry h lt e cfg' = (1, cfg)"
proof -
  let ?less = "entry_less h lt :: 'z TableMatchEntry \<Rightarrow> _"
  obtain z where z: "cache_set B (tc_tableKeyMatch cfg) c = (z, c')" and
    new: "\<not> set_contains ?less (setZ3Condition B z e) (tc_tableEntries cfg)" and
    cfg': "cfg' = cfg\<lparr>tc_tableEntries := set_emplace ?less (setZ3Condition B z e) (tc_tableEntries cfg)\<rparr>"
    using add by (auto simp: addTableEntry_def Let_def split: prod.splits)
  have "set_contains ?less e es = set_contains ?less (setZ3Condition B z e) es"
    "set_erase ?less e es = set_erase ?less (setZ3Condition B z e) es" for es
    by (induction es) simp_all
  with strict_order.set_erase_emplace [OF so new] show ?thesis
    by (simp add: deleteTableEntry_def Let_def cfg')
qed

text \<open>
  Claim C14. The entries of a table form a map from matches to entries: adding an entry succeeds
  exactly when no entry with an equivalent match is there or replacement is asked for, afterwards
  the new entry is there, with its condition set, and no other with that match, and all entries with other
  matches are untouched; deleting removes the entry with that match and reports how many it removed.
\<close>

theorem table_entry_set:
  assumes lt: "strict_order lt" and inj: "inj hash_code"
    and sorted: "sorted_wrt (entry_less hash_code lt) (tc_tableEntries cfg)"
  defines "same \<equiv> strict_order.same (entry_less hash_code lt)"
  shows "(case addTableEntry hash_code lt B entry replace cfg c of
      (ok, cfg', c') \<Rightarrow>
        (ok \<longleftrightarrow> replace \<or> (\<forall>e \<in> set (tc_tableEntries cfg). \<not> same entry e)) \<and>
        set (tc_tableEntries cfg') =
          (if ok then insert (setZ3Condition B (fst (cache_set B (tc_tableKeyMatch cfg) c)) entry)
             {e \<in> set (tc_tableEntries cfg). \<not> same entry e}
           else set (tc_tableEntries cfg))) \<and>
    (case deleteTableEntry hash_code lt entry cfg of
      (n, cfg') \<Rightarrow>
        length (tc_tableEntries cfg) = length (tc_tableEntries cfg') + n \<and>
        set (tc_tableEntries cfg') = {e \<in> set (tc_tableEntries cfg). \<not> same entry e})"
proof -
  let ?less = "entry_less hash_code lt"
  have so: "strict_order ?less" using lt inj by (rule entry_less_strict_order)
  obtain z c1 where z: "cache_set B (tc_tableKeyMatch cfg) c = (z, c1)"
    by (cases "cache_set B (tc_tableKeyMatch cfg) c")
  define entry' where "entry' = setZ3Condition B z entry"
  have same': "strict_order.same ?less entry' e = strict_order.same ?less entry e" for e
    by (simp add: entry'_def strict_order.same_def [OF so])
  have erase': "set_erase ?less entry es = set_erase ?less entry' es" for es
    by (induction es) (simp_all add: entry'_def)
  have "case addTableEntry hash_code lt B entry replace cfg c of
      (ok, cfg', c') \<Rightarrow>
        (ok \<longleftrightarrow> replace \<or> (\<forall>e \<in> set (tc_tableEntries cfg). \<not> same entry e)) \<and>
        set (tc_tableEntries cfg') =
          (if ok then insert entry' {e \<in> set (tc_tableEntries cfg). \<not> same entry e}
           else set (tc_tableEntries cfg))"
    using strict_order.set_replace [OF so sorted, of entry' replace, unfolded same']
    unfolding addTableEntry_def Let_def z same_def erase' prod.case entry'_def [symmetric] by simp
  moreover have "case deleteTableEntry hash_code lt entry cfg of
      (n, cfg') \<Rightarrow>
        length (tc_tableEntries cfg) = length (tc_tableEntries cfg') + n \<and>
        set (tc_tableEntries cfg') = {e \<in> set (tc_tableEntries cfg). \<not> same entry e}"
    using strict_order.set_remove [OF so sorted, of entry] by (simp add: deleteTableEntry_def Let_def same_def)
  ultimately show ?thesis unfolding z fst_conv entry'_def [symmetric] by (rule conjI)
qed

text \<open>One numbering of the classes, to evaluate the definitions on concrete tables.\<close>

fun example_hash :: "item_class \<Rightarrow> nat" where
  "example_hash C_TableMatchEntry = 0"
| "example_hash C_WildCardMatchEntry = 1"
| "example_hash C_TableDefaultAction = 2"
| "example_hash C_TableConfiguration = 3"
| "example_hash C_TableActionSelectorConfiguration = 4"
| "example_hash C_ParserValueSet = 5"
| "example_hash C_ActionProfile = 6"
| "example_hash C_ActionSelector = 7"
| "example_hash C_CloneSession = 8"

lemma inj_example_hash: "inj example_hash"
proof (rule injI)
  fix a b assume "example_hash a = example_hash b"
  then show "a = b" by (cases a; cases b) simp_all
qed

definition example_entry :: "int \<Rightarrow> string \<Rightarrow> expr TableMatchEntry" where
  "example_entry n action =
     mk_TableMatchEntry ir_backend
       [(getTableActionChoice example_symbols ''t'', StringLiteral action)] 1
       [(getTableKey example_symbols ''t'' ''f'' (Type_Bits 8 False), Constant (Type_Bits 8 False) n)]"

definition example_default :: "expr TableDefaultAction" where
  "example_default =
     mk_TableDefaultAction ir_backend
       [(getTableActionChoice example_symbols ''t'', StringLiteral ''*NONE*'')]"

definition example_config :: "expr TableConfiguration" where
  "example_config = mk_TableConfiguration ''t'' example_default []"

lemma example_less:
  "entry_less example_hash literal_less (example_entry m a) (example_entry n b) \<longleftrightarrow> m < n"
  by (auto simp: entry_less_def example_entry_def mk_TableMatchEntry_def example_symbols_def
      sv_less_def literal_less_def)

theorem table_entry_set_witness:
  "let cfg = example_config\<lparr>tc_tableEntries := [example_entry 3 ''a'', example_entry 5 ''b'']\<rparr> in
   (case addTableEntry example_hash literal_less ir_backend (example_entry 3 ''c'') True cfg Map.empty of
      (ok, cfg', c') \<Rightarrow> ok) \<and>
   (case deleteTableEntry example_hash literal_less (example_entry 3 ''c'') cfg of
      (n, cfg') \<Rightarrow> length (tc_tableEntries cfg') + n = 2)"
proof -
  define cfg where "cfg = example_config\<lparr>tc_tableEntries := [example_entry 3 ''a'', example_entry 5 ''b'']\<rparr>"
  have sorted: "sorted_wrt (entry_less example_hash literal_less) (tc_tableEntries cfg)"
    by (simp add: cfg_def example_less)
  have two: "length (tc_tableEntries cfg) = 2" by (simp add: cfg_def)
  show ?thesis
    using table_entry_set [OF lit.strict_order_axioms inj_example_hash sorted,
        where B = ir_backend and entry = "example_entry 3 ''c''" and replace = True and c = Map.empty] two
    by (simp add: split_beta Let_def flip: cfg_def)
qed

section \<open>Conditions stay in step\<close>

definition translated :: "'z z3_backend \<Rightarrow> ControlPlaneAssignmentSet \<Rightarrow> 'z Z3ControlPlaneAssignmentSet" where
  "translated B s = map (\<lambda>(x, e). (x, z3_set B e)) s"

lemma translated_find: "cp_find (translated B s) x = map_option (z3_set B) (cp_find s x)"
  by (induction s) (auto simp: translated_def)

lemma translated_keys: "map (sv_key \<circ> fst) (translated B s) = map (sv_key \<circ> fst) s"
  by (simp add: translated_def split_beta comp_def)

lemma translated_distinct [simp]: "distinct_keys sv_key (translated B s) = distinct_keys sv_key s"
  by (simp only: distinct_keys_def translated_keys)

lemma z3_merge_ir_translated:
  "distinct_keys sv_key (t @ s) \<Longrightarrow> z3_merge_ir B s (translated B t) = translated B (t @ s)"
proof (induction s arbitrary: t)
  case (Cons kv s)
  obtain k v where kv: "kv = (k, v)" by (cases kv)
  have "cp_find (translated B t) k = None"
    using Cons.prems by (auto simp: translated_find om_find_None distinct_keys_def kv)
  then have "snd (z3_add (translated B t) k (z3_set B v)) = translated B (t @ [kv])"
    by (simp add: z3_add_def om_emplace_def translated_def kv)
  with Cons.IH [of "t @ [kv]"] Cons.prems show ?case by (simp add: z3_merge_ir_def kv)
qed (simp add: z3_merge_ir_def)

lemma z3_of_assignments_translated: "distinct_keys sv_key s \<Longrightarrow> z3_of_assignments B s = translated B s"
  using z3_merge_ir_translated [of "[]" s B] by (simp add: z3_of_assignments_def translated_def)

definition entry_ok :: "'z z3_backend \<Rightarrow> 'z TableMatchEntry \<Rightarrow> bool" where
  "entry_ok B e \<longleftrightarrow>
     distinct_keys sv_key (te_matches e) \<and> te_z3Matches e = translated B (te_matches e) \<and>
     distinct_keys sv_key (te_actionAssignment e) \<and>
     te_z3ActionAssignment e = translated B (te_actionAssignment e) \<and>
     (te_class e = C_WildCardMatchEntry \<longrightarrow> te_matches e = [])"

definition default_ok :: "'z z3_backend \<Rightarrow> 'z TableDefaultAction \<Rightarrow> bool" where
  "default_ok B d \<longleftrightarrow>
     distinct_keys sv_key (da_actionAssignment d) \<and>
     da_z3ActionAssignment d = translated B (da_actionAssignment d)"

lemma mk_TableMatchEntry_ok:
  "distinct_keys sv_key a \<Longrightarrow> distinct_keys sv_key m \<Longrightarrow> entry_ok B (mk_TableMatchEntry B a p m)"
  by (simp add: entry_ok_def mk_TableMatchEntry_def z3_of_assignments_translated)

lemma mk_entry_simps [simp]:
  "te_actionAssignment (mk_TableMatchEntry B a p m) = a"
  "te_matches (mk_TableMatchEntry B a p m) = m"
  "da_actionAssignment (mk_TableDefaultAction B a) = a"
  by (simp_all add: mk_TableMatchEntry_def mk_TableDefaultAction_def)

lemma mk_WildCardMatchEntry_ok:
  "distinct_keys sv_key a \<Longrightarrow> entry_ok B (mk_WildCardMatchEntry B a p)"
  using mk_TableMatchEntry_ok [of a "[]" B p]
  by (simp add: entry_ok_def mk_WildCardMatchEntry_def mk_TableMatchEntry_def)

lemma mk_TableDefaultAction_ok: "distinct_keys sv_key a \<Longrightarrow> default_ok B (mk_TableDefaultAction B a)"
  by (simp add: default_ok_def mk_TableDefaultAction_def z3_of_assignments_translated)

lemma setZ3Condition_ok [simp]: "entry_ok B (setZ3Condition B z e) = entry_ok B e"
  by (simp add: entry_ok_def)

text \<open>
  A configuration without and with the conditions of its entries: the latter are set for the
  current key match, which then is in the cache.
\<close>

definition config_wf ::
  "(item_class \<Rightarrow> nat) \<Rightarrow> (expr \<Rightarrow> expr \<Rightarrow> bool) \<Rightarrow> 'z z3_backend \<Rightarrow> 'z TableConfiguration \<Rightarrow> 'z Z3Cache \<Rightarrow> bool" where
  "config_wf hash_code lt B cfg c \<longleftrightarrow>
     cache_ok B c \<and> default_ok B (tc_defaultTableAction cfg) \<and>
     sorted_wrt (entry_less hash_code lt) (tc_tableEntries cfg) \<and>
     (\<forall>e \<in> set (tc_tableEntries cfg). entry_ok B e)"

definition conditions_ok :: "'z z3_backend \<Rightarrow> 'z TableConfiguration \<Rightarrow> 'z Z3Cache \<Rightarrow> bool" where
  "conditions_ok B cfg c \<longleftrightarrow>
     (\<forall>e \<in> set (tc_tableEntries cfg).
        te_condition e = Some (z3_substitute_set B (te_z3Matches e) (z3_set B (tc_tableKeyMatch cfg)))) \<and>
     (tc_tableEntries cfg \<noteq> [] \<longrightarrow> cache_get (tc_tableKeyMatch cfg) c \<noteq> None)"

datatype 'z table_op =
    SetTableKeyMatch "TableMatchKey list"
  | AddTableEntry "'z TableMatchEntry" bool
  | DeleteTableEntry "'z TableMatchEntry"
  | ClearTableEntries
  | SetDefaultTableAction "'z TableDefaultAction"

fun table_op_ok :: "'z z3_backend \<Rightarrow> 'z table_op \<Rightarrow> bool" where
  "table_op_ok B (AddTableEntry e replace) = entry_ok B e"
| "table_op_ok B (SetDefaultTableAction d) = default_ok B d"
| "table_op_ok B _ = True"

fun table_step ::
  "(item_class \<Rightarrow> nat) \<Rightarrow> (expr \<Rightarrow> expr \<Rightarrow> bool) \<Rightarrow> 'z z3_backend \<Rightarrow> 'z table_op \<Rightarrow>
   'z TableConfiguration \<times> 'z Z3Cache \<Rightarrow> 'z TableConfiguration \<times> 'z Z3Cache" where
  "table_step h lt B (SetTableKeyMatch keys) (cfg, c) = setTableKeyMatch B keys cfg c"
| "table_step h lt B (AddTableEntry e replace) (cfg, c) = snd (addTableEntry h lt B e replace cfg c)"
| "table_step h lt B (DeleteTableEntry e) (cfg, c) = (snd (deleteTableEntry h lt e cfg), c)"
| "table_step h lt B ClearTableEntries (cfg, c) = (clearTableEntries cfg, c)"
| "table_step h lt B (SetDefaultTableAction d) (cfg, c) = (setDefaultTableAction d cfg, c)"

lemma cache_set_parts:
  assumes "cache_ok B c"
  obtains c' where "cache_set B e c = (z3_set B e, c')" and "cache_ok B c'"
    and "cache_get e c' = Some (z3_set B e)"
  using cache_set_value [OF assms, of e] cache_ok_set [OF assms, of e] cache_set_get [of e B c]
  by (cases "cache_set B e c") auto

lemma setTableKeyMatch_ok:
  assumes wf: "config_wf h lt B cfg c" and "setTableKeyMatch B keys cfg c = (cfg', c')"
  shows "config_wf h lt B cfg' c' \<and> conditions_ok B cfg' c'"
proof -
  have "cache_ok B c" using wf by (simp add: config_wf_def)
  then obtain c1 where c1: "cache_set B (simplify (buildKeyMatches keys)) c =
      (z3_set B (simplify (buildKeyMatches keys)), c1)" "cache_ok B c1"
      "cache_get (simplify (buildKeyMatches keys)) c1 = Some (z3_set B (simplify (buildKeyMatches keys)))"
    by (rule cache_set_parts)
  have "sorted_wrt (entry_less h lt) (map (setZ3Condition B z) es) = sorted_wrt (entry_less h lt) es"
    for z es by (simp add: sorted_wrt_map)
  with assms c1 show ?thesis
    by (auto simp: setTableKeyMatch_def Let_def config_wf_def conditions_ok_def)
qed

lemma addTableEntry_ok:
  assumes so: "strict_order (entry_less h lt :: 'z TableMatchEntry \<Rightarrow> _)"
    and wf: "config_wf h lt B cfg c" and cond: "conditions_ok B cfg c"
    and e: "entry_ok B e" and add: "addTableEntry h lt B (e :: 'z TableMatchEntry) replace cfg c = (ok, cfg', c')"
  shows "config_wf h lt B cfg' c' \<and> conditions_ok B cfg' c'"
proof -
  let ?less = "entry_less h lt"
  define es where "es = (if replace then set_erase ?less e (tc_tableEntries cfg) else tc_tableEntries cfg)"
  have "cache_ok B c" using wf by (simp add: config_wf_def)
  then obtain c1 where c1: "cache_set B (tc_tableKeyMatch cfg) c = (z3_set B (tc_tableKeyMatch cfg), c1)"
    "cache_ok B c1" "cache_get (tc_tableKeyMatch cfg) c1 = Some (z3_set B (tc_tableKeyMatch cfg))"
    by (rule cache_set_parts)
  define e' where "e' = setZ3Condition B (z3_set B (tc_tableKeyMatch cfg)) e"
  have cfg': "cfg' = cfg\<lparr>tc_tableEntries := set_emplace ?less e' es\<rparr>" "c' = c1"
    using add c1(1) by (simp_all add: addTableEntry_def Let_def es_def e'_def)
  have es: "set es \<subseteq> set (tc_tableEntries cfg)" "sorted_wrt ?less es"
    using wf strict_order.set_erase_elems [OF so] strict_order.set_erase_sorted [OF so]
    by (auto simp: es_def config_wf_def)
  have elems: "x = e' \<or> x \<in> set (tc_tableEntries cfg)" if "x \<in> set (set_emplace ?less e' es)" for x
    using that strict_order.set_emplace_elems [OF so, of e' es] es(1) by auto
  have "entry_ok B e'" using e by (simp add: e'_def)
  then have "config_wf h lt B cfg' c'"
    using wf c1(2) elems strict_order.set_emplace_sorted [OF so es(2), of e']
    by (auto simp: config_wf_def cfg')
  moreover have "te_condition x = Some (z3_substitute_set B (te_z3Matches x) (z3_set B (tc_tableKeyMatch cfg)))"
    if "x \<in> set (set_emplace ?less e' es)" for x
    using elems [OF that] cond by (auto simp: conditions_ok_def e'_def)
  then have "conditions_ok B cfg' c'" using c1(3) by (simp add: conditions_ok_def cfg')
  ultimately show ?thesis ..
qed

lemma deleteTableEntry_ok:
  assumes so: "strict_order (entry_less h lt :: 'z TableMatchEntry \<Rightarrow> _)"
    and "config_wf h lt B cfg c" and "conditions_ok B cfg c"
    and "deleteTableEntry h lt (e :: 'z TableMatchEntry) cfg = (n, cfg')"
  shows "config_wf h lt B cfg' c \<and> conditions_ok B cfg' c"
  using assms strict_order.set_erase_elems [OF so, of e "tc_tableEntries cfg"]
    strict_order.set_erase_sorted [OF so, of "tc_tableEntries cfg" e]
  by (auto simp: deleteTableEntry_def Let_def config_wf_def conditions_ok_def)

lemma table_step_ok:
  assumes so: "strict_order (entry_less h lt :: 'z TableMatchEntry \<Rightarrow> _)"
    and ok: "config_wf h lt B cfg c" "conditions_ok B cfg c" and op: "table_op_ok B op"
    and step: "table_step h lt (B :: 'z z3_backend) op (cfg, c) = (cfg', c')"
  shows "config_wf h lt B cfg' c' \<and> conditions_ok B cfg' c'"
proof (cases op)
  case (SetTableKeyMatch keys)
  with step setTableKeyMatch_ok [OF ok(1)] show ?thesis by simp
next
  case (AddTableEntry e replace)
  with op step addTableEntry_ok [OF so ok, of e replace] show ?thesis
    by (cases "addTableEntry h lt B e replace cfg c") auto
next
  case (DeleteTableEntry e)
  with step deleteTableEntry_ok [OF so ok, of e] show ?thesis
    by (cases "deleteTableEntry h lt e cfg") auto
next
  case ClearTableEntries
  with step ok show ?thesis by (auto simp: clearTableEntries_def config_wf_def conditions_ok_def)
next
  case (SetDefaultTableAction d)
  with step ok op show ?thesis by (auto simp: setDefaultTableAction_def config_wf_def conditions_ok_def)
qed

lemma table_run_ok:
  assumes so: "strict_order (entry_less h lt :: 'z TableMatchEntry \<Rightarrow> _)"
    and "config_wf h lt (B :: 'z z3_backend) (fst s) (snd s)" "conditions_ok B (fst s) (snd s)"
    and "list_all (table_op_ok B) ops"
  shows "config_wf h lt B (fst (fold (table_step h lt B) ops s)) (snd (fold (table_step h lt B) ops s)) \<and>
    conditions_ok B (fst (fold (table_step h lt B) ops s)) (snd (fold (table_step h lt B) ops s))"
  using assms(2-)
proof (induction ops arbitrary: s)
  case (Cons op ops)
  obtain cfg c where s: "s = (cfg, c)" by (cases s)
  obtain cfg' c' where step: "table_step h lt B op (cfg, c) = (cfg', c')"
    by (cases "table_step h lt B op (cfg, c)")
  have "config_wf h lt B cfg' c' \<and> conditions_ok B cfg' c'"
    by (rule table_step_ok [OF so _ _ _ step]) (use Cons.prems s in auto)
  with Cons.IH [of "(cfg', c')"] Cons.prems show ?case by (simp add: s step)
qed simp

lemma fresh_config_wf:
  assumes "default_ok B d"
  shows "config_wf h lt B (mk_TableConfiguration t d []) Map.empty"
    and "conditions_ok B (mk_TableConfiguration t d []) Map.empty"
  using assms by (simp_all add: config_wf_def conditions_ok_def mk_TableConfiguration_def cache_ok_empty)

text \<open>
  Claim C10. Whatever the control plane does to a table (setting the key match, adding, replacing,
  deleting and clearing entries, setting the default action), its entries stay sorted and
  pairwise inequivalent, the solver forms of all their assignments stay translations of the
  originals, and the condition of every entry is the current key match with the entry's own matches
  substituted.
\<close>

theorem table_invariant:
  assumes "strict_order lt" and "inj hash_code" and "default_ok B d" and "list_all (table_op_ok B) ops"
  shows "case fold (table_step hash_code lt B) ops (mk_TableConfiguration t d [], Map.empty) of
    (cfg, c) \<Rightarrow> config_wf hash_code lt B cfg c \<and> conditions_ok B cfg c"
  using table_run_ok [OF entry_less_strict_order [OF assms(1,2)], of B "(mk_TableConfiguration t d [], Map.empty)" ops]
    fresh_config_wf [OF assms(3)] assms(4)
  by (simp add: split_beta)

theorem table_invariant_witness:
  "case fold (table_step example_hash literal_less ir_backend)
      [AddTableEntry (example_entry 3 ''a'') False,
       SetTableKeyMatch [mk_ExactTableMatchKey example_symbols ''t'' ''f'' (SymbolicVariable (SVar False (Type_Bits 8 False) ''h''))]]
      (mk_TableConfiguration ''t'' example_default [], Map.empty) of
    (cfg, c) \<Rightarrow> config_wf example_hash literal_less ir_backend cfg c \<and> conditions_ok ir_backend cfg c"
  by (rule table_invariant [OF lit.strict_order_axioms inj_example_hash])
    (simp_all add: example_default_def mk_TableDefaultAction_ok mk_TableMatchEntry_ok example_entry_def
      distinct_keys_def)

end
