(* ===== verification/TableSemantics.thy ===== *)
theory TableSemantics
  imports TableConfiguration
begin

text \<open>
  What the assignments of a table mean. \<open>deciding_entry\<close> is the abstract specification: the last
  entry, in the order of the entry set, that assigns the variable and matches. Both computations of
  \<open>TableConfiguration\<close>, over expressions and over the solver, are shown to implement it.
\<close>

section \<open>The specification\<close>

definition entry_matches :: "env \<Rightarrow> expr \<Rightarrow> 'z TableMatchEntry \<Rightarrow> bool" where
  "entry_matches env keyMatch e \<longleftrightarrow>
     eval (override eval env (entry_assignments e)) keyMatch = Some (VBool True)"

definition deciding_entry ::
  "env \<Rightarrow> expr \<Rightarrow> svar \<Rightarrow> 'z TableMatchEntry list \<Rightarrow> 'z TableMatchEntry option" where
  "deciding_entry env keyMatch x entries =
     find (\<lambda>e. cp_find (te_actionAssignment e) x \<noteq> None \<and> entry_matches env keyMatch e) (rev entries)"

text \<open>The value of a variable: that of the deciding entry's assignment, or else the default.\<close>

definition table_value :: "env \<Rightarrow> expr \<Rightarrow> svar \<Rightarrow> 'z TableMatchEntry list \<Rightarrow> val \<Rightarrow> val option" where
  "table_value env keyMatch x entries v =
     (case deciding_entry env keyMatch x entries of
        None \<Rightarrow> Some v
      | Some e \<Rightarrow> (case cp_find (te_actionAssignment e) x of None \<Rightarrow> None | Some a \<Rightarrow> eval env a))"

text \<open>
  An entry is well defined for a variable when its matches are values the key match can be decided
  for, and its assignment of the variable has a value of the type \<open>t\<close>.
\<close>

definition entry_defined :: "env \<Rightarrow> expr \<Rightarrow> svar \<Rightarrow> ty \<Rightarrow> 'z TableMatchEntry \<Rightarrow> bool" where
  "entry_defined env keyMatch x t e \<longleftrightarrow>
     flat (entry_assignments e) symbols_of \<and> all_defined eval env (entry_assignments e) \<and>
     (\<exists>p. eval (override eval env (entry_assignments e)) keyMatch = Some (VBool p)) \<and>
     distinct_keys sv_key (te_actionAssignment e) \<and>
     (\<forall>a. cp_find (te_actionAssignment e) x = Some a \<longrightarrow>
        (\<exists>v. eval env a = Some v \<and> val_type v = t))"

text \<open>The specification, one entry after the other.\<close>

lemma table_value_Nil: "table_value env keyMatch x [] v = Some v"
  by (simp add: table_value_def deciding_entry_def)

lemma find_append: "find P (xs @ ys) = (case find P xs of None \<Rightarrow> find P ys | Some x \<Rightarrow> Some x)"
  by (induction xs) auto

lemma table_value_Cons:
  assumes "entry_defined env keyMatch x t e"
  obtains w where "table_value env keyMatch x (e # es) v = table_value env keyMatch x es w"
    and "w = v \<and> (cp_find (te_actionAssignment e) x = None \<or> \<not> entry_matches env keyMatch e) \<or>
      entry_matches env keyMatch e \<and> val_type w = t \<and>
      (\<exists>a. cp_find (te_actionAssignment e) x = Some a \<and> eval env a = Some w)"
proof (cases "cp_find (te_actionAssignment e) x \<noteq> None \<and> entry_matches env keyMatch e")
  case True
  then obtain a where a: "cp_find (te_actionAssignment e) x = Some a" by auto
  with assms obtain w where w: "eval env a = Some w" "val_type w = t"
    by (auto simp: entry_defined_def)
  show thesis
    by (rule that [of w])
      (use True a w in \<open>auto simp: table_value_def deciding_entry_def find_append split: option.splits\<close>)
next
  case False
  show thesis
    by (rule that [of v])
      (use False in \<open>auto simp: table_value_def deciding_entry_def find_append split: option.splits\<close>)
qed

section \<open>Over expressions\<close>

lemma assign_actions_combine:
  "fold (assign_action c) kvs s = foldl (cp.combine (\<lambda>new old. Mux (type_of new) c new old)) s kvs"
proof (induction kvs arbitrary: s)
  case (Cons kv kvs)
  obtain k v where kv: "kv = (k, v)" by (cases kv)
  have "assign_action c kv s = cp.combine (\<lambda>new old. Mux (type_of new) c new old) s kv"
    by (simp add: assign_action_def cp.combine_def kv split: option.splits)
  with Cons show ?case by simp
qed simp

lemma assign_entry_value:
  assumes e: "entry_defined env keyMatch x (val_type v) e"
    and old: "cp_find s x = Some old" "eval env old = Some v"
  obtains s' new where "assign_entry keyMatch e s = Some s'" and "cp_find s' x = Some new"
    and "eval env new =
      (if entry_matches env keyMatch e
       then (case cp_find (te_actionAssignment e) x of None \<Rightarrow> Some v | Some a \<Rightarrow> eval env a)
       else Some v)"
proof -
  from e obtain p where p: "eval (override eval env (entry_assignments e)) keyMatch = Some (VBool p)"
    and flat: "flat (entry_assignments e) symbols_of" "all_defined eval env (entry_assignments e)"
    and dist: "distinct_keys sv_key (te_actionAssignment e)"
    by (auto simp: entry_defined_def)
  from flat_subst [OF flat p] obtain c where
    c: "substituteSymbolicVariable (entry_assignments e) keyMatch = Some c" "eval env c = Some (VBool p)"
    by blast
  define s' where "s' = fold (assign_action c) (te_actionAssignment e) s"
  have s': "assign_entry keyMatch e s = Some s'" by (simp add: assign_entry_def c(1) s'_def)
  have m: "entry_matches env keyMatch e = p" using p by (simp add: entry_matches_def)
  show thesis
  proof (cases "cp_find (te_actionAssignment e) x")
    case None
    then have "cp_find s' x = Some old"
      unfolding s'_def assign_actions_combine fold_combine_lookup [OF dist] using old by simp
    with None old s' that show thesis by simp
  next
    case (Some a)
    with e obtain w where w: "eval env a = Some w" "val_type w = val_type v"
      by (auto simp: entry_defined_def)
    have "cp_find s' x = Some (Mux (type_of a) c a old)"
      unfolding s'_def assign_actions_combine fold_combine_lookup [OF dist] using old Some by simp
    moreover have "eval env (Mux (type_of a) c a old) = (if p then Some w else Some v)"
      using c(2) w old(2) eval_type [OF w(1)] eval_in_range [OF w(1)] eval_in_range [OF old(2)]
      by (cases p) (simp_all add: eval_Mux_Some)
    ultimately show thesis using that [OF s'] Some w m by simp
  qed
qed

lemma assign_entries_value:
  assumes "\<forall>e \<in> set es. entry_defined env keyMatch x (val_type v) e"
    and "cp_find s x = Some old" "eval env old = Some v"
  shows "\<exists>s' new. assign_entries keyMatch es s = Some s' \<and> cp_find s' x = Some new \<and>
    eval env new = table_value env keyMatch x es v"
  using assms
proof (induction es arbitrary: s old v)
  case (Cons e es)
  from Cons.prems(1) have e: "entry_defined env keyMatch x (val_type v) e" by simp
  obtain s' new where s': "assign_entry keyMatch e s = Some s'" "cp_find s' x = Some new"
    "eval env new = (if entry_matches env keyMatch e
       then (case cp_find (te_actionAssignment e) x of None \<Rightarrow> Some v | Some a \<Rightarrow> eval env a)
       else Some v)"
    by (rule assign_entry_value [OF e Cons.prems(2,3)])
  obtain w where w: "table_value env keyMatch x (e # es) v = table_value env keyMatch x es w"
    "w = v \<and> (cp_find (te_actionAssignment e) x = None \<or> \<not> entry_matches env keyMatch e) \<or>
      entry_matches env keyMatch e \<and> val_type w = val_type v \<and>
      (\<exists>a. cp_find (te_actionAssignment e) x = Some a \<and> eval env a = Some w)"
    by (rule table_value_Cons [OF e])
  from w(2) s'(3) have "eval env new = Some w" "val_type w = val_type v" by auto
  with Cons.IH [of w s' new] Cons.prems(1) s' w(1) show ?case by simp
qed (simp add: table_value_Nil)

definition base_assignments :: "cp_symbols \<Rightarrow> 'z TableConfiguration \<Rightarrow> ControlPlaneAssignmentSet" where
  "base_assignments P cfg =
     om_emplace sv_key (da_actionAssignment (tc_defaultTableAction cfg))
       (getTableActive P (tc_tableName cfg)) (BoolLiteral (length (tc_tableEntries cfg) > 0))"

lemma computeControlPlaneAssignments_base:
  "computeControlPlaneAssignments P cfg =
     (if tc_tableEntries cfg = [] then Some (base_assignments P cfg)
      else if length (tc_tableEntries cfg) > kMaxEntriesPerTable
      then Some (fold (\<lambda>x. set_value x (wildcard_variable x)) (map fst (base_assignments P cfg))
        (base_assignments P cfg))
      else assign_entries (tc_tableKeyMatch cfg) (tc_tableEntries cfg) (base_assignments P cfg))"
  unfolding computeControlPlaneAssignments_def Let_def base_assignments_def length_0_conv ..

text \<open>
  Claim C8. The assignments of a configured table of at most fifty entries: a variable that the
  default action assigns gets the value of the last entry, in the order of the set, that assigns it
  and whose match holds, and the value of the default action when there is none. Priorities play no
  role.
\<close>

theorem table_assignments_value:
  assumes "tc_tableEntries cfg \<noteq> []" and "length (tc_tableEntries cfg) \<le> kMaxEntriesPerTable"
    and "\<forall>e \<in> set (tc_tableEntries cfg). entry_defined env (tc_tableKeyMatch cfg) x (val_type v) e"
    and "cp_find (base_assignments P cfg) x = Some d" and "eval env d = Some v"
  shows "\<exists>s a. computeControlPlaneAssignments P cfg = Some s \<and> cp_find s x = Some a \<and>
    eval env a = table_value env (tc_tableKeyMatch cfg) x (tc_tableEntries cfg) v"
  using assign_entries_value [OF assms(3-5)] assms(1,2)
  by (simp add: computeControlPlaneAssignments_base)

text \<open>A table with two entries whose matches overlap on the key.\<close>

definition example_table :: "expr TableConfiguration" where
  "example_table =
     fst (setTableKeyMatch ir_backend
       [mk_ExactTableMatchKey example_symbols ''t'' ''f'' (Constant (Type_Bits 8 False) 3)]
       (example_config\<lparr>tc_tableEntries := [example_entry 3 ''a'', example_entry 5 ''b'']\<rparr>) Map.empty)"

lemma example_table_entries:
  "tc_tableEntries example_table =
     map (setZ3Condition ir_backend (z3_set ir_backend (tc_tableKeyMatch example_table)))
       [example_entry 3 ''a'', example_entry 5 ''b'']"
  "tc_tableKeyMatch example_table =
     simplify (mk_Equ (SymbolicVariable (SVar False (Type_Bits 8 False) ''t_key_f'')) (Constant (Type_Bits 8 False) 3))"
  by (simp_all add: example_table_def setTableKeyMatch_def Let_def cache_set_def z3_set_def ir_backend_def
      buildKeyMatches_def computeControlPlaneConstraint_def mk_ExactTableMatchKey_def example_symbols_def
      example_config_def mk_TableConfiguration_def split_beta)

lemma example_key_value:
  "eval (override eval (\<lambda>k. VBool True) [(SVar False (Type_Bits 8 False) ''t_key_f'', Constant (Type_Bits 8 False) n)])
     (tc_tableKeyMatch example_table) = Some (VBool (n = 3))" if "0 \<le> n" "n < 256"
proof -
  have "simplify (mk_Equ (SymbolicVariable y) (Constant t c)) = mk_Equ (SymbolicVariable y) (Constant t c)" for y t c
    by (simp add: simplify_def mk_Equ_def)
  with that show ?thesis
    by (simp add: example_table_entries mk_Equ_def eval_Binary_Some override_def sv_key_def typed_def
        const_val_def eq_val_def)
qed

lemma example_entry_simps:
  "entry_assignments (setZ3Condition B z (example_entry n a)) =
     [(SVar False (Type_Bits 8 False) ''t_key_f'', Constant (Type_Bits 8 False) n)]"
  "te_actionAssignment (example_entry n a) =
     [(SVar False Type_String ''t_action'', StringLiteral a)]"
  by (simp_all add: entry_assignments_def example_entry_def mk_TableMatchEntry_def example_symbols_def)

lemma example_entry_defined:
  assumes "0 \<le> n" "n < 256"
  shows "entry_defined (\<lambda>k. VBool True) (tc_tableKeyMatch example_table) (SVar False Type_String ''t_action'')
    Type_String (setZ3Condition B z (example_entry n a))"
  using example_key_value [OF assms] assms
  by (auto simp: entry_defined_def example_entry_simps flat_def all_defined_def const_val_def distinct_keys_def)

lemma example_base:
  "cp_find (base_assignments example_symbols example_table) (SVar False Type_String ''t_action'') =
     Some (StringLiteral ''*NONE*'')"
  by (simp add: base_assignments_def example_table_def setTableKeyMatch_def Let_def split_beta
      example_config_def mk_TableConfiguration_def example_default_def mk_TableDefaultAction_def
      example_symbols_def om_emplace_def sv_key_def)

lemma example_table_value:
  "table_value (\<lambda>k. VBool True) (tc_tableKeyMatch example_table) (SVar False Type_String ''t_action'')
     (tc_tableEntries example_table) (VStr ''*NONE*'') = Some (VStr ''a'')"
  by (simp add: table_value_def deciding_entry_def example_table_entries(1) entry_matches_def
      example_entry_simps example_key_value)

theorem table_assignments_value_witness:
  "\<exists>s a. computeControlPlaneAssignments example_symbols example_table = Some s \<and>
     cp_find s (SVar False Type_String ''t_action'') = Some a \<and>
     eval (\<lambda>k. VBool True) a = Some (VStr ''a'')"
  using table_assignments_value [of example_table "\<lambda>k. VBool True" "SVar False Type_String ''t_action''"
      "VStr ''*NONE*''" example_symbols "StringLiteral ''*NONE*''"]
  by (simp add: example_table_value example_base kMaxEntriesPerTable_def)
    (simp add: example_table_entries(1) example_entry_defined)

text \<open>
  A table without entries makes the default assignments and reports itself inactive. A
  table of more than fifty entries makes the same variables symbolic: each gets a wildcard of its own,
  no matter what the entries say.
\<close>

theorem table_assignments_extremes:
  assumes "distinct_keys sv_key (da_actionAssignment (tc_defaultTableAction cfg))"
  shows "(tc_tableEntries cfg = [] \<longrightarrow>
      computeControlPlaneAssignments P cfg =
        Some (om_emplace sv_key (da_actionAssignment (tc_defaultTableAction cfg))
          (getTableActive P (tc_tableName cfg)) (BoolLiteral False))) \<and>
    (length (tc_tableEntries cfg) > 50 \<longrightarrow>
      (\<exists>s. computeControlPlaneAssignments P cfg = Some s \<and>
        map fst s = map fst (base_assignments P cfg) \<and>
        (\<forall>x \<in> set (map fst s). cp_find s x = Some (wildcard_variable x))))"
proof -
  have "distinct_keys sv_key (base_assignments P cfg)"
    using assms by (simp add: base_assignments_def store_simps)
  from set_all_values [OF this, of wildcard_variable] obtain s where
    s: "s = fold (\<lambda>x. set_value x (wildcard_variable x)) (map fst (base_assignments P cfg)) (base_assignments P cfg)"
    "map fst s = map fst (base_assignments P cfg)"
    "\<forall>x \<in> set (map fst (base_assignments P cfg)). cp_find s x = Some (wildcard_variable x)"
    by blast
  then have "\<forall>x \<in> set (map fst s). cp_find s x = Some (wildcard_variable x)" by simp
  moreover have "length (tc_tableEntries cfg) > 50 \<longrightarrow> computeControlPlaneAssignments P cfg = Some s"
    by (auto simp: computeControlPlaneAssignments_base kMaxEntriesPerTable_def s(1))
  moreover have "tc_tableEntries cfg = [] \<longrightarrow> computeControlPlaneAssignments P cfg =
      Some (om_emplace sv_key (da_actionAssignment (tc_defaultTableAction cfg))
          (getTableActive P (tc_tableName cfg)) (BoolLiteral False))"
    by (simp add: computeControlPlaneAssignments_base base_assignments_def)
  ultimately show ?thesis using s(2) by blast
qed

theorem table_assignments_extremes_witness:
  "\<exists>s. computeControlPlaneAssignments example_symbols
       (example_config\<lparr>tc_tableEntries := map (\<lambda>n. example_entry (int n) ''a'') [0..<51]\<rparr>) = Some s \<and>
     cp_find s (SVar False Type_String ''t_action'') = Some (SymbolicVariable (SVar False Type_String ''t_action*''))"
proof -
  let ?cfg = "example_config\<lparr>tc_tableEntries := map (\<lambda>n. example_entry (int n) ''a'') [0..<51]\<rparr>"
  have default: "da_actionAssignment (tc_defaultTableAction ?cfg) =
      [(SVar False Type_String ''t_action'', StringLiteral ''*NONE*'')]"
    by (simp add: example_config_def mk_TableConfiguration_def example_default_def
        mk_TableDefaultAction_def example_symbols_def)
  have x: "SVar False Type_String ''t_action'' \<in> set (map fst (base_assignments example_symbols ?cfg))"
    using default by (simp add: base_assignments_def om_emplace_def)
  have "distinct_keys sv_key (da_actionAssignment (tc_defaultTableAction ?cfg))"
    unfolding default by (simp add: distinct_keys_def)
  moreover have "length (tc_tableEntries ?cfg) > 50" by simp
  ultimately obtain s where "computeControlPlaneAssignments example_symbols ?cfg = Some s"
    and s: "map fst s = map fst (base_assignments example_symbols ?cfg)"
      "\<forall>x \<in> set (map fst s). cp_find s x = Some (wildcard_variable x)"
    using table_assignments_extremes [of ?cfg example_symbols] by blast
  moreover have "cp_find s (SVar False Type_String ''t_action'') =
      Some (wildcard_variable (SVar False Type_String ''t_action''))"
    by (rule bspec [OF s(2)]) (simp only: s(1) x)
  ultimately show ?thesis by (simp add: wildcard_variable_def)
qed

section \<open>Over the solver\<close>

lemma z3_base: "default_ok B (tc_defaultTableAction cfg) \<Longrightarrow>
  snd (z3_add (da_z3ActionAssignment (tc_defaultTableAction cfg)) (getTableActive P (tc_tableName cfg))
    (z3_set B (BoolLiteral (length (tc_tableEntries cfg) > 0)))) = translated B (base_assignments P cfg)"
  by (auto simp: z3_add_def base_assignments_def default_ok_def om_emplace_def translated_find)
    (simp add: translated_def)

context z3_semantics
begin

lemma translated_override:
  assumes "all_defined eval env s"
  shows "all_defined zeval env (translated B s)"
    and "override zeval env (translated B s) = override eval env s"
proof -
  have v: "zeval env (z3_set B e) = eval env e" if "(x, e) \<in> set s" for x e
    using assms that set_value [of env e] by (auto simp: all_defined_def)
  then show "all_defined zeval env (translated B s)"
    using assms by (auto simp: all_defined_def translated_def)
  have "map_of (map (\<lambda>(x, v). (sv_key x, v)) (translated B s)) k =
      map_option (z3_set B) (map_of (map (\<lambda>(x, v). (sv_key x, v)) s) k)" for k
    by (induction s) (auto simp: translated_def)
  moreover have "zeval env (z3_set B e) = eval env e"
    if "map_of (map (\<lambda>(x, v). (sv_key x, v)) s) k = Some e" for k e
    using that v by (force dest: map_of_SomeD)
  ultimately show "override zeval env (translated B s) = override eval env s"
    by (auto simp: override_def fun_eq_iff split: option.splits)
qed

text \<open>The condition of an entry decides the match, although the matches are substituted twice.\<close>

lemma condition_value:
  assumes e: "entry_defined env keyMatch x t e" and ok: "entry_ok B e"
  shows "zeval env (z3_substitute_set B (entry_z3_assignments e)
      (z3_substitute_set B (te_z3Matches e) (z3_set B keyMatch))) =
    Some (VBool (entry_matches env keyMatch e))"
proof -
  define s where "s = te_matches e"
  have sm: "entry_assignments e = s" "entry_z3_assignments e = translated B s" "te_z3Matches e = translated B s"
    and dist: "distinct_keys sv_key s"
    using ok by (auto simp: entry_assignments_def entry_z3_assignments_def entry_ok_def s_def translated_def)
  from e obtain p where flat: "flat s symbols_of" and def: "all_defined eval env s"
    and p: "eval (override eval env s) keyMatch = Some (VBool p)"
    by (auto simp: entry_defined_def sm)
  note again = override_idem [OF flat dist def]
  have "zeval (override eval env s) (z3_substitute_set B (translated B s) (z3_set B keyMatch)) = Some (VBool p)"
    using translated_override [OF again(1)] again(2) set_value [OF p] dist
    by (intro substitute_set) simp_all
  then have "zeval env (z3_substitute_set B (translated B s)
      (z3_substitute_set B (translated B s) (z3_set B keyMatch))) = Some (VBool p)"
    using translated_override [OF def] dist by (subst substitute_set) simp_all
  then show ?thesis using p by (simp add: sm entry_matches_def)
qed

lemma z3_assign_entries_value:
  assumes "\<forall>e \<in> set es. entry_defined env keyMatch x (val_type v) e \<and> entry_ok B e \<and>
      te_condition e = Some (z3_substitute_set B (te_z3Matches e) (z3_set B keyMatch))"
    and "cp_find s x = Some old" "zeval env old = Some v"
  shows "\<exists>new. cp_find (z3_assign_entries B es s) x = Some new \<and>
    zeval env new = table_value env keyMatch x es v"
  using assms
proof (induction es arbitrary: s old v)
  case (Cons e es)
  from Cons.prems(1) have e: "entry_defined env keyMatch x (val_type v) e" and ok: "entry_ok B e"
    and c: "te_condition e = Some (z3_substitute_set B (te_z3Matches e) (z3_set B keyMatch))" by simp_all
  define z where "z = z3_substitute_set B (entry_z3_assignments e)
      (z3_substitute_set B (te_z3Matches e) (z3_set B keyMatch))"
  note z = condition_value [OF e ok, folded z_def]
  obtain w where w: "table_value env keyMatch x (e # es) v = table_value env keyMatch x es w"
    "w = v \<and> (cp_find (te_actionAssignment e) x = None \<or> \<not> entry_matches env keyMatch e) \<or>
      entry_matches env keyMatch e \<and> val_type w = val_type v \<and>
      (\<exists>a. cp_find (te_actionAssignment e) x = Some a \<and> eval env a = Some w)"
    by (rule table_value_Cons [OF e])
  have dist: "distinct_keys sv_key (te_z3ActionAssignment e)"
    and act: "cp_find (te_z3ActionAssignment e) x = map_option (z3_set B) (cp_find (te_actionAssignment e) x)"
    using ok by (simp_all add: entry_ok_def translated_find)
  obtain u where u: "\<And>a. cp_find (te_actionAssignment e) x = Some a \<Longrightarrow> eval env a = Some u \<and> val_type u = val_type v"
    using e by (cases "cp_find (te_actionAssignment e) x") (auto simp: entry_defined_def)
  have pre: "zeval env z' = Some u \<and> val_type u = val_type v"
    if "cp_find (te_z3ActionAssignment e) x = Some z'" for z'
    using that act u set_value by auto
  obtain new where new: "cp_find (z3_mergeConditionally B z (te_z3ActionAssignment e) s) x = Some new"
    "zeval env new = Some (if entry_matches env keyMatch e \<and> cp_find (te_z3ActionAssignment e) x \<noteq> None then u else v)"
    using mergeConditionally_value [OF z Cons.prems(2,3) dist pre] by blast
  then have "zeval env new = Some w" "val_type w = val_type v"
    using w(2) u act by (auto split: if_splits)
  with Cons.IH [of w "z3_mergeConditionally B z (te_z3ActionAssignment e) s" new] Cons.prems(1) new(1) w(1)
  show ?case by (simp add: c z_def)
qed (simp add: table_value_Nil)

lemma z3_table_value:
  assumes "tc_tableEntries cfg \<noteq> []" and "length (tc_tableEntries cfg) \<le> kMaxEntriesPerTable"
    and "config_wf h lt B cfg c" and "conditions_ok B cfg c"
    and "\<forall>e \<in> set (tc_tableEntries cfg). entry_defined env (tc_tableKeyMatch cfg) x (val_type v) e"
    and "cp_find (base_assignments P cfg) x = Some d" and "eval env d = Some v"
  shows "\<exists>z. cp_find (computeZ3ControlPlaneAssignments B P c cfg) x = Some z \<and>
    zeval env z = table_value env (tc_tableKeyMatch cfg) x (tc_tableEntries cfg) v"
proof -
  have "default_ok B (tc_defaultTableAction cfg)" using assms(3) by (simp add: config_wf_def)
  note base = z3_base [OF this, of P]
  obtain y where "cache_get (tc_tableKeyMatch cfg) c = Some y"
    using assms(1,4) by (auto simp: conditions_ok_def)
  then have "computeZ3ControlPlaneAssignments B P c cfg =
      z3_assign_entries B (tc_tableEntries cfg) (translated B (base_assignments P cfg))"
    unfolding computeZ3ControlPlaneAssignments_def Let_def base using assms(1,2) by simp
  moreover have "\<exists>new. cp_find (z3_assign_entries B (tc_tableEntries cfg) (translated B (base_assignments P cfg))) x = Some new \<and>
      zeval env new = table_value env (tc_tableKeyMatch cfg) x (tc_tableEntries cfg) v"
    by (rule z3_assign_entries_value) (use assms set_value [OF assms(7)] in
      \<open>auto simp: config_wf_def conditions_ok_def translated_find\<close>)
  ultimately show ?thesis by simp
qed

end

text \<open>
  Claim C9. The solver form of a table's assignments is correct: for every solver that meets the
  interface, in every well-formed configuration whose conditions are in step, a variable of the
  default action gets the value the specification gives it, the same as over expressions.
\<close>

theorem z3_table_assignments_value:
  assumes "z3_semantics B zeval"
    and "tc_tableEntries cfg \<noteq> []" and "length (tc_tableEntries cfg) \<le> kMaxEntriesPerTable"
    and "config_wf h lt B cfg c" and "conditions_ok B cfg c"
    and "\<forall>e \<in> set (tc_tableEntries cfg). entry_defined env (tc_tableKeyMatch cfg) x (val_type v) e"
    and "cp_find (base_assignments P cfg) x = Some d" and "eval env d = Some v"
  shows "\<exists>z s a. cp_find (computeZ3ControlPlaneAssignments B P c cfg) x = Some z \<and>
    computeControlPlaneAssignments P cfg = Some s \<and> cp_find s x = Some a \<and>
    zeval env z = table_value env (tc_tableKeyMatch cfg) x (tc_tableEntries cfg) v \<and>
    zeval env z = eval env a"
  using z3_semantics.z3_table_value [OF assms] assign_entries_value [OF assms(6-8)] assms(2,3)
  by (auto simp: computeControlPlaneAssignments_base)

theorem z3_table_assignments_value_witness:
  "\<exists>z s a. cp_find (computeZ3ControlPlaneAssignments ir_backend example_symbols
       (snd (setTableKeyMatch ir_backend
         [mk_ExactTableMatchKey example_symbols ''t'' ''f'' (Constant (Type_Bits 8 False) 3)]
         (example_config\<lparr>tc_tableEntries := [example_entry 3 ''a'', example_entry 5 ''b'']\<rparr>) Map.empty))
       example_table) (SVar False Type_String ''t_action'') = Some z \<and>
     computeControlPlaneAssignments example_symbols example_table = Some s \<and>
     cp_find s (SVar False Type_String ''t_action'') = Some a \<and>
     eval (\<lambda>k. VBool True) z = Some (VStr ''a'') \<and> eval (\<lambda>k. VBool True) z = eval (\<lambda>k. VBool True) a"
proof -
  let ?cfg = "example_config\<lparr>tc_tableEntries := [example_entry 3 ''a'', example_entry 5 ''b'']\<rparr>"
  let ?keys = "[mk_ExactTableMatchKey example_symbols ''t'' ''f'' (Constant (Type_Bits 8 False) 3)]"
  define c where "c = snd (setTableKeyMatch ir_backend ?keys ?cfg Map.empty)"
  have "entry_ok ir_backend (example_entry n a)" for n a
    by (simp add: example_entry_def mk_TableMatchEntry_ok distinct_keys_def)
  then have "config_wf example_hash literal_less ir_backend ?cfg Map.empty"
    by (simp add: config_wf_def cache_ok_empty example_less example_config_def mk_TableConfiguration_def
        example_default_def mk_TableDefaultAction_ok distinct_keys_def)
  then have ok: "config_wf example_hash literal_less ir_backend example_table c"
    "conditions_ok ir_backend example_table c"
    using setTableKeyMatch_ok [where cfg' = example_table and c' = c and keys = ?keys]
    by (simp_all add: example_table_def c_def)
  have "\<exists>z s a. cp_find (computeZ3ControlPlaneAssignments ir_backend example_symbols c example_table)
      (SVar False Type_String ''t_action'') = Some z \<and>
    computeControlPlaneAssignments example_symbols example_table = Some s \<and>
    cp_find s (SVar False Type_String ''t_action'') = Some a \<and>
    eval (\<lambda>k. VBool True) z = table_value (\<lambda>k. VBool True) (tc_tableKeyMatch example_table)
      (SVar False Type_String ''t_action'') (tc_tableEntries example_table) (VStr ''*NONE*'') \<and>
    eval (\<lambda>k. VBool True) z = eval (\<lambda>k. VBool True) a"
    by (rule z3_table_assignments_value [OF ir_z3.z3_semantics_axioms _ _ ok _ example_base])
      (simp_all add: example_table_entries(1) example_entry_defined kMaxEntriesPerTable_def)
  then show ?thesis by (simp add: example_table_value c_def)
qed

end
