(* ===== verification/ControlPlaneItems.thy ===== *)
theory ControlPlaneItems
  imports TableSemantics
begin

text \<open>
  The other objects a control plane configures (\<open>control_plane_objects.cpp\<close>,
  \<open>targets/bmv2/control_plane_objects.cpp\<close>): parser value sets, action profiles, action selectors
  and clone sessions, and the map of all objects of a program by their name.

  The objects are shared by reference; in the map each is found under its name, so the reference
  an action selector holds to its profile is the profile's name.
\<close>

section \<open>Objects\<close>

record ActionProfile =
  ap_name :: string
  ap_associatedTables :: "string list"

record ActionSelector =
  as_actionProfile :: string
  as_associatedTables :: "string list"

record 'z CloneSession =
  cs_sessionId :: "int option"
  cs_assignments :: ControlPlaneAssignmentSet
  cs_z3Assignments :: "'z Z3ControlPlaneAssignmentSet"

datatype 'z item =
    TableItem "'z TableConfiguration"
  | ActionSelectorTableItem "'z TableConfiguration"
  | ParserValueSetItem string
  | ActionProfileItem ActionProfile
  | ActionSelectorItem ActionSelector
  | CloneSessionItem "'z CloneSession"

type_synonym 'z ControlPlaneConstraints = "(string, 'z item) std_map"

definition name_insert :: "string \<Rightarrow> string list \<Rightarrow> string list" where
  "name_insert t ts = set_emplace (<) t ts"

definition profile_addAssociatedTable :: "string \<Rightarrow> ActionProfile \<Rightarrow> ActionProfile" where
  "profile_addAssociatedTable table p = p\<lparr>ap_associatedTables := name_insert table (ap_associatedTables p)\<rparr>"

text \<open>Adding a table to a selector adds it to the selector's profile as well.\<close>

definition selector_addAssociatedTable ::
  "string \<Rightarrow> string \<Rightarrow> ActionSelector \<Rightarrow> 'z ControlPlaneConstraints \<Rightarrow> 'z ControlPlaneConstraints" where
  "selector_addAssociatedTable selectorName table s m =
     (let m' = map_assign selectorName
            (ActionSelectorItem (s\<lparr>as_associatedTables := name_insert table (as_associatedTables s)\<rparr>)) m in
      case map_find m' (as_actionProfile s) of
        Some (ActionProfileItem p) \<Rightarrow>
          map_assign (as_actionProfile s) (ActionProfileItem (profile_addAssociatedTable table p)) m'
      | _ \<Rightarrow> m')"

text \<open>The clone session of the BMv2 target; the name of its identifier is a parameter.\<close>

definition mk_CloneSession :: "int option \<Rightarrow> 'z CloneSession" where
  "mk_CloneSession sessionId = \<lparr>cs_sessionId = sessionId, cs_assignments = [], cs_z3Assignments = []\<rparr>"

definition setSessionId :: "'z z3_backend \<Rightarrow> (ty \<Rightarrow> svar) \<Rightarrow> int \<Rightarrow> 'z CloneSession" where
  "setSessionId B getCloneSessionId sessionId =
     (let cloneActive = getSymbolicVariable Type_Boolean ''clone_session_active'';
          assignments = om_emplace sv_key
            (om_emplace sv_key [] cloneActive (BoolLiteral True))
            (getCloneSessionId (Type_Bits 32 False)) (Constant (Type_Bits 32 False) sessionId) in
      \<lparr>cs_sessionId = Some sessionId, cs_assignments = assignments,
       cs_z3Assignments = z3_merge_ir B assignments []\<rparr>)"

text \<open>
  \<open>to<TableConfiguration>()\<close> succeeds for the class derived from it as well; what is done to the
  table found is done to the object of the map.
\<close>

definition item_table :: "'z item \<Rightarrow> 'z TableConfiguration option" where
  "item_table i = (case i of TableItem cfg \<Rightarrow> Some cfg | ActionSelectorTableItem cfg \<Rightarrow> Some cfg | _ \<Rightarrow> None)"

definition item_set_table :: "'z TableConfiguration \<Rightarrow> 'z item \<Rightarrow> 'z item" where
  "item_set_table cfg i =
     (case i of TableItem cfg' \<Rightarrow> TableItem cfg
      | ActionSelectorTableItem cfg' \<Rightarrow> ActionSelectorTableItem cfg | _ \<Rightarrow> i)"

lemma item_table_set [simp]:
  "item_table (item_set_table cfg i) = (if item_table i = None then None else Some cfg)"
  by (simp add: item_table_def item_set_table_def split: item.splits)

section \<open>Assignments and order of the objects\<close>

definition item_assignments :: "cp_symbols \<Rightarrow> 'z item \<Rightarrow> ControlPlaneAssignmentSet option" where
  "item_assignments P i =
     (case i of
        TableItem cfg \<Rightarrow> computeControlPlaneAssignments P cfg
      | ActionSelectorTableItem cfg \<Rightarrow> Some []
      | ParserValueSetItem name \<Rightarrow> Some [(getParserValueSetConfigured name, BoolLiteral False)]
      | ActionProfileItem p \<Rightarrow> Some []
      | ActionSelectorItem s \<Rightarrow> Some []
      | CloneSessionItem s \<Rightarrow> Some (cs_assignments s))"

definition item_z3_assignments ::
  "'z z3_backend \<Rightarrow> cp_symbols \<Rightarrow> 'z Z3Cache \<Rightarrow> 'z item \<Rightarrow> 'z Z3ControlPlaneAssignmentSet" where
  "item_z3_assignments B P c i =
     (case i of
        TableItem cfg \<Rightarrow> computeZ3ControlPlaneAssignments B P c cfg
      | ActionSelectorTableItem cfg \<Rightarrow> []
      | ParserValueSetItem name \<Rightarrow>
          snd (z3_add [] (getParserValueSetConfigured name) (z3_set B (BoolLiteral False)))
      | ActionProfileItem p \<Rightarrow> []
      | ActionSelectorItem s \<Rightarrow> []
      | CloneSessionItem s \<Rightarrow> cs_z3Assignments s)"

definition item_class :: "'z item \<Rightarrow> item_class" where
  "item_class i =
     (case i of
        TableItem cfg \<Rightarrow> C_TableConfiguration
      | ActionSelectorTableItem cfg \<Rightarrow> C_TableActionSelectorConfiguration
      | ParserValueSetItem name \<Rightarrow> C_ParserValueSet
      | ActionProfileItem p \<Rightarrow> C_ActionProfile
      | ActionSelectorItem s \<Rightarrow> C_ActionSelector
      | CloneSessionItem s \<Rightarrow> C_CloneSession)"

text \<open>Tables and value sets of one class are ordered by name; the other classes have one element.\<close>

definition item_name :: "'z item \<Rightarrow> string" where
  "item_name i =
     (case i of
        TableItem cfg \<Rightarrow> tc_tableName cfg
      | ActionSelectorTableItem cfg \<Rightarrow> tc_tableName cfg
      | ParserValueSetItem name \<Rightarrow> name
      | _ \<Rightarrow> [])"

definition item_less :: "(item_class \<Rightarrow> nat) \<Rightarrow> 'z item \<Rightarrow> 'z item \<Rightarrow> bool" where
  "item_less hash_code a b =
     (if item_class a = item_class b then item_name a < item_name b
      else hash_code (item_class a) < hash_code (item_class b))"

lemma item_less_strict_order:
  assumes "inj hash_code"
  shows "strict_order (item_less hash_code :: 'z item \<Rightarrow> _)"
proof -
  have "(item_less hash_code :: 'z item \<Rightarrow> _) =
      (\<lambda>a b. lex_pair (<) (<) (hash_code (item_class a), item_name a) (hash_code (item_class b), item_name b))"
    using injD [OF assms] by (auto simp: fun_eq_iff item_less_def lex_pair_def) (metis less_linear)
  moreover have "strict_order ((<) :: nat \<Rightarrow> nat \<Rightarrow> bool)" "strict_order ((<) :: string \<Rightarrow> string \<Rightarrow> bool)"
    using strict_order_measure [of "\<lambda>n :: nat. n"] strict_order_measure [of "\<lambda>s :: string. s"] by simp_all
  ultimately show ?thesis
    using strict_order_image [OF strict_order_lex_pair, of "(<)" "(<)"
        "\<lambda>i :: 'z item. (hash_code (item_class i), item_name i)"]
    by (simp only:)
qed

section \<open>Associated tables\<close>

lemma name_insert_set: "sorted_wrt (<) ts \<Longrightarrow> set (name_insert t ts) = insert t (set ts)"
proof -
  assume sorted: "sorted_wrt (<) ts"
  have so: "strict_order ((<) :: string \<Rightarrow> string \<Rightarrow> bool)"
    using strict_order_measure [of "\<lambda>s :: string. s"] by simp
  show ?thesis
  proof (cases "set_contains (<) t ts")
    case True
    then have "t \<in> set ts"
      using strict_order.set_contains_iff [OF so sorted] by (auto simp: strict_order.same_def [OF so])
    with strict_order.set_emplace_contained [OF so True] show ?thesis by (auto simp: name_insert_def)
  next
    case False
    then show ?thesis using strict_order.set_emplace_new [OF so] by (simp add: name_insert_def)
  qed
qed

text \<open>
  Associating a table with an action selector adds the table to the selector and to the
  action profile the selector refers to, and changes no other object of the configuration.
\<close>

theorem selector_association:
  assumes "map_find m s = Some (ActionSelectorItem sel)"
    and "map_find m (as_actionProfile sel) = Some (ActionProfileItem p)"
    and "sorted_wrt (<) (as_associatedTables sel)" and "sorted_wrt (<) (ap_associatedTables p)"
  shows "\<exists>sel' p'. map_find (selector_addAssociatedTable s t sel m) s = Some (ActionSelectorItem sel') \<and>
    set (as_associatedTables sel') = insert t (set (as_associatedTables sel)) \<and>
    as_actionProfile sel' = as_actionProfile sel \<and>
    map_find (selector_addAssociatedTable s t sel m) (as_actionProfile sel) = Some (ActionProfileItem p') \<and>
    set (ap_associatedTables p') = insert t (set (ap_associatedTables p)) \<and> ap_name p' = ap_name p \<and>
    (\<forall>k. k \<noteq> s \<and> k \<noteq> as_actionProfile sel \<longrightarrow>
       map_find (selector_addAssociatedTable s t sel m) k = map_find m k)"
proof -
  have "as_actionProfile sel \<noteq> s" using assms(1,2) by auto
  with assms show ?thesis
    by (auto simp: selector_addAssociatedTable_def Let_def store_simps name_insert_set
        profile_addAssociatedTable_def)
qed

theorem selector_association_witness:
  "let sel = \<lparr>as_actionProfile = ''p'', as_associatedTables = []\<rparr>;
       m = [(''p'', ActionProfileItem \<lparr>ap_name = ''p'', ap_associatedTables = [''b'']\<rparr>), (''s'', ActionSelectorItem sel)]
         :: expr ControlPlaneConstraints in
   \<exists>p'. map_find (selector_addAssociatedTable ''s'' ''a'' sel m) ''p'' = Some (ActionProfileItem p') \<and>
     set (ap_associatedTables p') = {''a'', ''b''}"
  using selector_association [of "[(''p'', ActionProfileItem \<lparr>ap_name = ''p'', ap_associatedTables = [''b'']\<rparr>),
      (''s'', ActionSelectorItem \<lparr>as_actionProfile = ''p'', as_associatedTables = []\<rparr>)] :: expr ControlPlaneConstraints"
      "''s''" "\<lparr>as_actionProfile = ''p'', as_associatedTables = []\<rparr>" "\<lparr>ap_name = ''p'', ap_associatedTables = [''b'']\<rparr>" "''a''"]
  by (auto simp: Let_def)

end
