(* ===== verification/NodeMap.thy ===== *)
theory NodeMap
  imports ControlPlaneItems
begin

text \<open>
  What the symbolic execution leaves behind for every node of the program
  (\<open>interpreter/node_map.cpp\<close>, \<open>reachability_expression.cpp\<close>, \<open>substitution_expression.cpp\<close>): the
  condition under which the node is executed, the value an expression has, and for each symbolic
  variable the nodes that depend on it.

  Conditions and values are shared by reference between this map and the maps built from it
  (\<open>SpecializationMaps\<close>); nothing reads them here once those are built, so they are values.
\<close>

section \<open>Nodes\<close>

text \<open>
  A node is its source position and its clone number, which is all \<open>SourceIdCmp\<close> looks at. The
  order of source positions belongs to the compiler; positions are numbers here.
\<close>

datatype node = Node (n_sourceInfo: nat) (n_clone_id: nat)

definition SourceIdCmp :: "node \<Rightarrow> node \<Rightarrow> bool" where
  "SourceIdCmp s1 s2 =
     (if n_sourceInfo s1 = n_sourceInfo s2 then n_clone_id s1 < n_clone_id s2
      else n_sourceInfo s1 < n_sourceInfo s2)"

instantiation node :: linorder
begin

definition less_node :: "node \<Rightarrow> node \<Rightarrow> bool" where
  "less_node = SourceIdCmp"

definition less_eq_node :: "node \<Rightarrow> node \<Rightarrow> bool" where
  "less_eq_node s1 s2 \<longleftrightarrow> s1 = s2 \<or> SourceIdCmp s1 s2"

instance
  by standard (auto simp: less_node_def less_eq_node_def SourceIdCmp_def node.expand split: if_splits)

end

interpretation nodes: strict_order SourceIdCmp
  unfolding less_node_def [symmetric] using strict_order_measure [of "\<lambda>n :: node. n"] by simp

lemma nodes_same [simp]: "nodes.same x y \<longleftrightarrow> x = y"
  by (auto simp: nodes.same_def SourceIdCmp_def node.expand split: if_splits)

declare split_paired_All [simp del] split_paired_Ex [simp del]

text \<open>
  The nodes that depend on a variable: a \<open>std::map\<close> ordered by the variables' class and label. The
  inner sets are sets of pointers in the code; they are only ever copied into sets ordered by
  \<open>SourceIdCmp\<close>, and are ordered that way here.
\<close>

type_synonym NodeSet = "node list"
type_synonym SymbolMap = "(svkey, NodeSet) std_map"

definition node_emplace :: "node \<Rightarrow> NodeSet \<Rightarrow> NodeSet" where
  "node_emplace n ns = set_emplace SourceIdCmp n ns"

definition node_insert :: "NodeSet \<Rightarrow> NodeSet \<Rightarrow> NodeSet" where
  "node_insert other ns = fold node_emplace other ns"

definition symbol_nodes :: "SymbolMap \<Rightarrow> svkey \<Rightarrow> NodeSet" where
  "symbol_nodes m k = (case map_find m k of None \<Rightarrow> [] | Some ns \<Rightarrow> ns)"

text \<open>\<open>map[symbol].insert(...)\<close>: a missing symbol is added with the empty set first.\<close>

definition symbol_insert :: "svkey \<Rightarrow> NodeSet \<Rightarrow> SymbolMap \<Rightarrow> SymbolMap" where
  "symbol_insert k other m =
     (let m' = map_insert k [] m in map_assign k (node_insert other (symbol_nodes m' k)) m')"

lemma node_emplace_set: "sorted_wrt SourceIdCmp ns \<Longrightarrow> set (node_emplace n ns) = insert n (set ns)"
  using nodes.set_emplace_contained [of n ns] nodes.set_emplace_new [of n ns]
    nodes.set_contains_iff [of ns n]
  by (cases "set_contains SourceIdCmp n ns") (auto simp: node_emplace_def)

lemma node_emplace_sorted: "sorted_wrt SourceIdCmp ns \<Longrightarrow> sorted_wrt SourceIdCmp (node_emplace n ns)"
  unfolding node_emplace_def by (rule nodes.set_emplace_sorted)

lemma node_insert_sorted: "sorted_wrt SourceIdCmp ns \<Longrightarrow> sorted_wrt SourceIdCmp (node_insert other ns)"
  unfolding node_insert_def by (induction other arbitrary: ns) (simp_all add: node_emplace_sorted)

lemma node_insert_set: "sorted_wrt SourceIdCmp ns \<Longrightarrow> set (node_insert other ns) = set other \<union> set ns"
  unfolding node_insert_def
  by (induction other arbitrary: ns) (auto simp: node_emplace_sorted node_emplace_set)

definition symbol_map_ok :: "SymbolMap \<Rightarrow> bool" where
  "symbol_map_ok m \<longleftrightarrow> map_sorted m \<and> (\<forall>k. sorted_wrt SourceIdCmp (symbol_nodes m k))"

lemma symbol_map_ok_Nil: "symbol_map_ok []"
  by (simp add: symbol_map_ok_def symbol_nodes_def map_sorted_def)

lemma symbol_nodes_inserted:
  "symbol_map_ok m \<Longrightarrow>
   symbol_nodes (symbol_insert k other m) k' =
     (if k' = k then node_insert other (symbol_nodes m k) else symbol_nodes m k')"
  by (auto simp: symbol_insert_def symbol_nodes_def symbol_map_ok_def Let_def store_simps split: option.splits)

lemma symbol_map_ok_insert: "symbol_map_ok m \<Longrightarrow> symbol_map_ok (symbol_insert k other m)"
  using symbol_nodes_inserted [of m k other]
  by (auto simp: symbol_map_ok_def node_insert_sorted symbol_insert_def Let_def store_simps)

lemma symbol_insert_nodes:
  "symbol_map_ok m \<Longrightarrow>
   set (symbol_nodes (symbol_insert k other m) k') =
     (if k' = k then set other \<union> set (symbol_nodes m k) else set (symbol_nodes m k'))"
  by (auto simp: symbol_nodes_inserted node_insert_set symbol_map_ok_def)

text \<open>All symbols of a list, or of another map, are added.\<close>

lemma symbol_inserts:
  assumes "symbol_map_ok m"
  shows "symbol_map_ok (fold (\<lambda>(k, ns). symbol_insert k ns) kns m) \<and>
    set (symbol_nodes (fold (\<lambda>(k, ns). symbol_insert k ns) kns m) k') =
      set (symbol_nodes m k') \<union> {n. \<exists>ns. (k', ns) \<in> set kns \<and> n \<in> set ns}"
  using assms
proof (induction kns arbitrary: m)
  case (Cons kn kns)
  obtain k ns where kn: "kn = (k, ns)" by (cases kn)
  from Cons.IH [OF symbol_map_ok_insert [OF Cons.prems]] Cons.prems show ?case
    by (auto simp: kn symbol_insert_nodes)
qed simp

section \<open>Conditions and values\<close>

record ReachabilityExpression =
  re_cond :: expr
  re_reachabilityAssignment :: "bool option"

definition mk_ReachabilityExpression :: "expr \<Rightarrow> ReachabilityExpression" where
  "mk_ReachabilityExpression cond = \<lparr>re_cond = cond, re_reachabilityAssignment = None\<rparr>"

definition setReachability ::
  "bool option \<Rightarrow> 'a ReachabilityExpression_scheme \<Rightarrow> 'a ReachabilityExpression_scheme" where
  "setReachability reachability r = r\<lparr>re_reachabilityAssignment := reachability\<rparr>"

definition addCondition :: "expr \<Rightarrow> ReachabilityExpression \<Rightarrow> ReachabilityExpression" where
  "addCondition cond r = r\<lparr>re_cond := mk_LOr (re_cond r) cond\<rparr>"

record SubstitutionExpression =
  se_condition :: expr
  se_originalExpression :: expr
  se_substitution :: "expr option"

definition mk_SubstitutionExpression :: "expr \<Rightarrow> expr \<Rightarrow> SubstitutionExpression" where
  "mk_SubstitutionExpression condition originalExpression =
     \<lparr>se_condition = condition, se_originalExpression = originalExpression, se_substitution = None\<rparr>"

definition setSubstitution ::
  "expr \<Rightarrow> 'a SubstitutionExpression_scheme \<Rightarrow> 'a SubstitutionExpression_scheme" where
  "setSubstitution substitution s = s\<lparr>se_substitution := Some substitution\<rparr>"

definition unsetSubstitution :: "'a SubstitutionExpression_scheme \<Rightarrow> 'a SubstitutionExpression_scheme" where
  "unsetSubstitution s = s\<lparr>se_substitution := None\<rparr>"

type_synonym ReachabilityMap = "(node, ReachabilityExpression) std_map"
type_synonym SubstitutionMap = "(node, SubstitutionExpression) std_map"

record NodeAnnotationMap =
  na_reachabilityMap :: ReachabilityMap
  na_substitutionMap :: SubstitutionMap
  na_expressionSymbolMap :: SymbolMap
  na_reachabilitySymbolMap :: SymbolMap

definition empty_annotations :: NodeAnnotationMap where
  "empty_annotations =
     \<lparr>na_reachabilityMap = [], na_substitutionMap = [], na_expressionSymbolMap = [],
      na_reachabilitySymbolMap = []\<rparr>"

section \<open>Building the map\<close>

definition add_symbols :: "node \<Rightarrow> expr \<Rightarrow> SymbolMap \<Rightarrow> SymbolMap" where
  "add_symbols n e m = fold (\<lambda>(k, ns). symbol_insert k ns) (map (\<lambda>x. (sv_key x, [n])) (collectSymbols e)) m"

definition initializeReachabilityMapping ::
  "node \<Rightarrow> expr \<Rightarrow> NodeAnnotationMap \<Rightarrow> bool \<times> NodeAnnotationMap" where
  "initializeReachabilityMapping node cond m =
     (let m = m\<lparr>na_reachabilitySymbolMap := add_symbols node cond (na_reachabilitySymbolMap m)\<rparr> in
      case map_find (na_reachabilityMap m) node of
        Some r \<Rightarrow>
          (False, m\<lparr>na_reachabilityMap := map_assign node (addCondition cond r) (na_reachabilityMap m)\<rparr>)
      | None \<Rightarrow>
          (True, m\<lparr>na_reachabilityMap :=
                     map_insert node (mk_ReachabilityExpression cond) (na_reachabilityMap m)\<rparr>))"

definition initializeExpressionMapping ::
  "node \<Rightarrow> expr \<Rightarrow> expr \<Rightarrow> NodeAnnotationMap \<Rightarrow> bool \<times> NodeAnnotationMap" where
  "initializeExpressionMapping expression value cond m =
     (let m = m\<lparr>na_expressionSymbolMap := add_symbols expression value (na_expressionSymbolMap m)\<rparr> in
      (map_find (na_substitutionMap m) expression = None,
       m\<lparr>na_substitutionMap :=
           map_insert expression (mk_SubstitutionExpression cond value) (na_substitutionMap m)\<rparr>))"

definition map_insert_all :: "('k :: linorder, 'v) std_map \<Rightarrow> ('k, 'v) std_map \<Rightarrow> ('k, 'v) std_map" where
  "map_insert_all other m = fold (\<lambda>(k, v). map_insert k v) other m"

definition mergeAnnotationMapping :: "NodeAnnotationMap \<Rightarrow> NodeAnnotationMap \<Rightarrow> NodeAnnotationMap" where
  "mergeAnnotationMapping otherMap m =
     m\<lparr>na_reachabilityMap := map_insert_all (na_reachabilityMap otherMap) (na_reachabilityMap m),
       na_substitutionMap := map_insert_all (na_substitutionMap otherMap) (na_substitutionMap m),
       na_reachabilitySymbolMap :=
         fold (\<lambda>(k, ns). symbol_insert k ns) (na_reachabilitySymbolMap otherMap) (na_reachabilitySymbolMap m),
       na_expressionSymbolMap :=
         fold (\<lambda>(k, ns). symbol_insert k ns) (na_expressionSymbolMap otherMap) (na_expressionSymbolMap m)\<rparr>"

text \<open>
  Substituting placeholders updates every condition and then always aborts with an error that the
  substitution map is not supported; the analysis calls it only when placeholders are enabled.
\<close>

definition setCondition :: "expr \<Rightarrow> ReachabilityExpression \<Rightarrow> ReachabilityExpression" where
  "setCondition cond r = r\<lparr>re_cond := cond\<rparr>"

definition substitutePlaceholders ::
  "(expr \<Rightarrow> expr) \<Rightarrow> NodeAnnotationMap \<Rightarrow> string \<times> NodeAnnotationMap + NodeAnnotationMap" where
  "substitutePlaceholders substitute m =
     Inl (''NodeAnnotationMap::substitutePlaceholders not implemented'',
       m\<lparr>na_reachabilityMap :=
           map (\<lambda>(node, r). (node, setCondition (substitute (re_cond r)) r)) (na_reachabilityMap m)\<rparr>)"

section \<open>What a built map satisfies\<close>

text \<open>
  \<open>covers\<close>: the symbol map names exactly nodes that are mapped, and every symbol of a node's
  expression names the node.
\<close>

definition covers :: "('v \<Rightarrow> expr) \<Rightarrow> (node, 'v) std_map \<Rightarrow> SymbolMap \<Rightarrow> bool" where
  "covers f m syms \<longleftrightarrow> map_sorted m \<and> symbol_map_ok syms \<and>
     (\<forall>k n. n \<in> set (symbol_nodes syms k) \<longrightarrow> map_find m n \<noteq> None) \<and>
     (\<forall>n v. map_find m n = Some v \<longrightarrow>
        (\<forall>x \<in> set (symbols_of (f v)). n \<in> set (symbol_nodes syms (sv_key x))))"

definition annotations_ok :: "NodeAnnotationMap \<Rightarrow> bool" where
  "annotations_ok m \<longleftrightarrow> covers re_cond (na_reachabilityMap m) (na_reachabilitySymbolMap m) \<and>
     covers se_originalExpression (na_substitutionMap m) (na_expressionSymbolMap m)"

lemma add_symbols_ok: "symbol_map_ok m \<Longrightarrow> symbol_map_ok (add_symbols n e m)"
  unfolding add_symbols_def using symbol_inserts by blast

lemma add_symbols_nodes:
  assumes "symbol_map_ok m"
  shows "set (symbol_nodes (add_symbols n e m) k) =
    set (symbol_nodes m k) \<union> (if k \<in> sv_key ` set (symbols_of e) then {n} else {})"
proof -
  have "(k, ns) \<in> set (map (\<lambda>x. (sv_key x, [n])) (collectSymbols e)) \<longleftrightarrow>
      k \<in> sv_key ` set (symbols_of e) \<and> ns = [n]" for ns
    using collectSymbols_keys [of e] by auto
  then show ?thesis
    unfolding add_symbols_def using symbol_inserts [OF assms] by auto
qed

lemma map_insert_all_find:
  assumes "map_sorted m"
  shows "map_sorted (map_insert_all other m) \<and>
    map_find (map_insert_all other m) k = (case map_find m k of Some v \<Rightarrow> Some v | None \<Rightarrow> map_find other k)"
  using assms unfolding map_insert_all_def
proof (induction other arbitrary: m)
  case (Cons kv other)
  then show ?case by (cases kv) (auto simp: store_simps split: option.splits)
qed (simp split: option.splits)

lemma covers_add:
  assumes "covers f m syms" and "map_sorted m'"
    and "\<And>n'. map_find m' n' = None \<longleftrightarrow> map_find m n' = None \<and> n' \<noteq> n"
    and "\<And>n' v. map_find m' n' = Some v \<Longrightarrow>
      map_find m n' = Some v \<or>
      n' = n \<and> (\<forall>x \<in> set (symbols_of (f v)). x \<in> set (symbols_of e) \<or>
                   (\<exists>w. map_find m n = Some w \<and> x \<in> set (symbols_of (f w))))"
  shows "covers f m' (add_symbols n e syms)"
  unfolding covers_def
proof (intro conjI allI impI ballI)
  have ok: "symbol_map_ok syms" using assms(1) by (simp add: covers_def)
  note nodes = add_symbols_nodes [OF ok]
  show "map_sorted m'" by fact
  show "symbol_map_ok (add_symbols n e syms)" using ok by (rule add_symbols_ok)
  show "map_find m' n' \<noteq> None" if "n' \<in> set (symbol_nodes (add_symbols n e syms) k)" for k n'
    using that assms(1,3) by (auto simp: nodes covers_def split: if_splits)
  show "n' \<in> set (symbol_nodes (add_symbols n e syms) (sv_key x))"
    if "map_find m' n' = Some v" "x \<in> set (symbols_of (f v))" for n' v x
    using assms(4) [OF that(1)] that(2) assms(1) unfolding nodes covers_def by fastforce
qed

lemma covers_merge:
  assumes "covers f m syms" and "covers f other osyms"
  shows "covers f (map_insert_all other m) (fold (\<lambda>(k, ns). symbol_insert k ns) osyms syms)"
proof -
  have ok: "map_sorted m" "symbol_map_ok syms" "symbol_map_ok osyms"
    using assms by (auto simp: covers_def)
  have other: "{n. \<exists>ns. (k, ns) \<in> set osyms \<and> n \<in> set ns} = set (symbol_nodes osyms k)" for k
  proof (cases "map_find osyms k")
    case None
    have "map_sorted osyms" using ok(3) by (simp add: symbol_map_ok_def)
    with None have "(k, ns) \<notin> set osyms" for ns using map_find_in_set [of osyms k ns] by auto
    with None show ?thesis by (simp add: symbol_nodes_def)
  next
    case (Some ns)
    have "map_sorted osyms" using ok(3) by (simp add: symbol_map_ok_def)
    with Some have "(k, ns') \<in> set osyms \<longleftrightarrow> ns' = ns" for ns'
      using map_find_in_set [of osyms k ns'] map_find_SomeD [OF Some] by auto
    with Some show ?thesis by (simp add: symbol_nodes_def)
  qed
  note found = map_insert_all_find [OF ok(1), of other]
  have nodes: "set (symbol_nodes (fold (\<lambda>(k, ns). symbol_insert k ns) osyms syms) k) =
      set (symbol_nodes syms k) \<union> set (symbol_nodes osyms k)" for k
    using symbol_inserts [OF ok(2), of osyms k] by (simp add: other)
  show ?thesis
    unfolding covers_def
  proof (intro conjI allI impI ballI)
    show "map_sorted (map_insert_all other m)" using found by blast
    show "symbol_map_ok (fold (\<lambda>(k, ns). symbol_insert k ns) osyms syms)"
      using symbol_inserts [OF ok(2)] by blast
    show "map_find (map_insert_all other m) n \<noteq> None"
      if "n \<in> set (symbol_nodes (fold (\<lambda>(k, ns). symbol_insert k ns) osyms syms) k)" for k n
    proof -
      from that nodes assms have "map_find m n \<noteq> None \<or> map_find other n \<noteq> None"
        unfolding covers_def by blast
      with found [of n] show ?thesis by (auto split: option.splits)
    qed
    show "n \<in> set (symbol_nodes (fold (\<lambda>(k, ns). symbol_insert k ns) osyms syms) (sv_key x))"
      if v: "map_find (map_insert_all other m) n = Some v" and x: "x \<in> set (symbols_of (f v))" for n v x
    proof -
      from v found [of n] have "map_find m n = Some v \<or> map_find other n = Some v"
        by (auto split: option.splits)
      with assms x show ?thesis unfolding nodes covers_def by blast
    qed
  qed
qed

lemma initializeReachability_ok:
  assumes "annotations_ok m"
  shows "annotations_ok (snd (initializeReachabilityMapping n e m))"
proof -
  let ?m' = "snd (initializeReachabilityMapping n e m)"
  have cov: "covers re_cond (na_reachabilityMap m) (na_reachabilitySymbolMap m)"
    and s: "map_sorted (na_reachabilityMap m)" using assms by (auto simp: annotations_ok_def covers_def)
  have "covers re_cond (na_reachabilityMap ?m') (add_symbols n e (na_reachabilitySymbolMap m))"
    by (rule covers_add [OF cov])
      (use s in \<open>auto simp: initializeReachabilityMapping_def Let_def store_simps addCondition_def mk_LOr_def
         mk_ReachabilityExpression_def split: option.splits if_splits\<close>)
  with assms show ?thesis
    by (simp add: annotations_ok_def initializeReachabilityMapping_def Let_def split: option.splits)
qed

lemma initializeExpression_ok:
  assumes "annotations_ok m"
  shows "annotations_ok (snd (initializeExpressionMapping n v c m))"
proof -
  let ?m' = "snd (initializeExpressionMapping n v c m)"
  have cov: "covers se_originalExpression (na_substitutionMap m) (na_expressionSymbolMap m)"
    and s: "map_sorted (na_substitutionMap m)" using assms by (auto simp: annotations_ok_def covers_def)
  have "covers se_originalExpression (na_substitutionMap ?m') (add_symbols n v (na_expressionSymbolMap m))"
    by (rule covers_add [OF cov])
      (use s in \<open>auto simp: initializeExpressionMapping_def Let_def store_simps
         mk_SubstitutionExpression_def split: option.splits if_splits\<close>)
  with assms show ?thesis by (simp add: annotations_ok_def initializeExpressionMapping_def Let_def)
qed

lemma merge_ok: "annotations_ok m \<Longrightarrow> annotations_ok other \<Longrightarrow> annotations_ok (mergeAnnotationMapping other m)"
  by (simp add: annotations_ok_def mergeAnnotationMapping_def covers_merge)

text \<open>The maps the interpreter can build.\<close>

inductive annotated :: "NodeAnnotationMap \<Rightarrow> bool" where
  annotated_empty: "annotated empty_annotations"
| annotated_reachability: "annotated m \<Longrightarrow> annotated (snd (initializeReachabilityMapping n cond m))"
| annotated_expression: "annotated m \<Longrightarrow> annotated (snd (initializeExpressionMapping n value cond m))"
| annotated_merge: "annotated m \<Longrightarrow> annotated other \<Longrightarrow> annotated (mergeAnnotationMapping other m)"

lemma annotated_ok: "annotated m \<Longrightarrow> annotations_ok m"
proof (induction rule: annotated.induct)
  case annotated_empty
  show ?case
    by (simp add: empty_annotations_def annotations_ok_def covers_def symbol_map_ok_Nil)
      (simp add: map_sorted_def symbol_nodes_def)
qed (simp_all add: initializeReachability_ok initializeExpression_ok merge_ok)



section \<open>What a condition says after several visits\<close>

lemma LOr_value:
  "eval env a = Some (VBool p) \<Longrightarrow> eval env b = Some (VBool q) \<Longrightarrow>
   eval env (mk_LOr a b) = Some (VBool (p \<or> q))"
  by (auto simp: mk_LOr_def eval_unfold typed_def short_circuit_def bool_val_def)

abbreviation reachability_of :: "NodeAnnotationMap \<Rightarrow> node \<Rightarrow> ReachabilityExpression option" where
  "reachability_of m n \<equiv> map_find (na_reachabilityMap m) n"

definition visits :: "node \<Rightarrow> expr list \<Rightarrow> NodeAnnotationMap \<Rightarrow> NodeAnnotationMap" where
  "visits n conds m = fold (\<lambda>c m. snd (initializeReachabilityMapping n c m)) conds m"

lemma visit_found:
  "annotations_ok m \<Longrightarrow>
   reachability_of (snd (initializeReachabilityMapping n c m)) n' =
     (if n' = n
      then Some (case reachability_of m n of None \<Rightarrow> mk_ReachabilityExpression c | Some r \<Rightarrow> addCondition c r)
      else reachability_of m n')"
  by (auto simp: initializeReachabilityMapping_def Let_def store_simps annotations_ok_def covers_def
      split: option.splits)

lemma visits_more:
  assumes "annotations_ok m" and "reachability_of m n = Some r" and "eval env (re_cond r) = Some (VBool p)"
    and "\<forall>c \<in> set conds. \<exists>b. eval env c = Some (VBool b)"
  shows "\<exists>r'. reachability_of (visits n conds m) n = Some r' \<and>
    eval env (re_cond r') = Some (VBool (p \<or> (\<exists>c \<in> set conds. eval env c = Some (VBool True))))"
  using assms
proof (induction conds arbitrary: m r p)
  case (Cons c conds)
  then obtain b where b: "eval env c = Some (VBool b)" by auto
  let ?m = "snd (initializeReachabilityMapping n c m)"
  have found: "reachability_of ?m n = Some (addCondition c r)"
    using Cons.prems by (simp add: visit_found)
  have cond: "eval env (re_cond (addCondition c r)) = Some (VBool (p \<or> b))"
    using LOr_value [OF Cons.prems(3) b] by (simp add: addCondition_def)
  have rest: "\<forall>c \<in> set conds. \<exists>b. eval env c = Some (VBool b)" using Cons.prems(4) by simp
  from Cons.IH [OF initializeReachability_ok [OF Cons.prems(1)] found cond rest] b
  show ?case by (simp add: visits_def disj_assoc)
qed (simp add: visits_def)

lemma visits_frame:
  "annotations_ok m \<Longrightarrow> n' \<noteq> n \<Longrightarrow> reachability_of (visits n conds m) n' = reachability_of m n'"
  unfolding visits_def by (induction conds arbitrary: m) (simp_all add: initializeReachability_ok visit_found)

text \<open>
  Claim C30. The reachability condition of a node is the disjunction of the conditions of its visits:
  after any visits the condition of the node holds exactly when one of theirs does, and the
  conditions of other nodes are untouched. Merging in another map is different: a node that is
  mapped already keeps its own condition and the other map's is dropped.
\<close>

theorem reachability_is_disjunction:
  assumes "annotated m" and "reachability_of m n = None" and "conds \<noteq> []"
    and "\<forall>c \<in> set conds. \<exists>b. eval env c = Some (VBool b)"
  shows "\<exists>r. reachability_of (visits n conds m) n = Some r \<and>
    eval env (re_cond r) = Some (VBool (\<exists>c \<in> set conds. eval env c = Some (VBool True))) \<and>
    (\<forall>n'. n' \<noteq> n \<longrightarrow> reachability_of (visits n conds m) n' = reachability_of m n') \<and>
    (\<forall>other. reachability_of (mergeAnnotationMapping other (visits n conds m)) n = Some r)"
proof -
  obtain c cs where conds: "conds = c # cs" using assms(3) by (cases conds) auto
  with assms(4) obtain b where b: "eval env c = Some (VBool b)" by auto
  let ?m = "snd (initializeReachabilityMapping n c m)"
  have ok: "annotations_ok m" using assms(1) by (rule annotated_ok)
  have visits: "annotations_ok (visits n ds m')" if "annotations_ok m'" for ds m'
    using that unfolding visits_def by (induction ds arbitrary: m') (simp_all add: initializeReachability_ok)
  have "reachability_of ?m n = Some (mk_ReachabilityExpression c)"
    using ok assms(2) by (simp add: visit_found)
  from visits_more [OF initializeReachability_ok [OF ok] this, of env b cs] b assms(4) conds
  obtain r where r: "reachability_of (visits n conds m) n = Some r"
    "eval env (re_cond r) = Some (VBool (\<exists>c \<in> set conds. eval env c = Some (VBool True)))"
    by (auto simp: mk_ReachabilityExpression_def visits_def)
  moreover have "reachability_of (mergeAnnotationMapping other (visits n conds m)) n = Some r" for other
    using r(1) visits [OF ok, of conds] map_insert_all_find [of "na_reachabilityMap (visits n conds m)"]
    by (simp add: mergeAnnotationMapping_def annotations_ok_def covers_def)
  ultimately show ?thesis using visits_frame [OF ok] by blast
qed

theorem reachability_is_disjunction_witness:
  "\<exists>r. reachability_of (visits (Node 3 0) [BoolLiteral False, BoolLiteral True] empty_annotations) (Node 3 0) = Some r \<and>
     eval (\<lambda>k. VBool False) (re_cond r) = Some (VBool True)"
  using reachability_is_disjunction [OF annotated_empty, of "Node 3 0" "[BoolLiteral False, BoolLiteral True]"
      "\<lambda>k. VBool False"]
  by (auto simp: empty_annotations_def)

end
