(* ===== verification/SpecializationMaps.thy ===== *)
theory SpecializationMaps
  imports NodeMap
begin

text \<open>
  The verdicts on the nodes of a program under a control-plane configuration
  (\<open>specialization/reachability_map.cpp\<close>, \<open>substitution_map.cpp\<close> and the solver versions under
  \<open>specialization/z3/\<close>): whether a node is always or never executed, and whether an expression is a
  constant. All four maps are recomputed the same way, for all nodes, for the nodes that depend on
  some symbols, or for given nodes.

  A recomputation has three outcomes: it does not end (\<open>None\<close>, only when the assignments refer to each
  other in a cycle), it fails on a node that is not mapped (\<open>Some (None, _)\<close>, with the nodes before it
  updated), or it ends and reports whether a verdict changed.
\<close>

section \<open>The loops the four maps share\<close>

record 'e specialization_map =
  sm_map :: "(node, 'e) std_map"
  sm_symbolMap :: SymbolMap

definition compute_node ::
  "(node \<Rightarrow> 'e \<Rightarrow> (bool \<times> 'e) option) \<Rightarrow> node \<Rightarrow> (node, 'e) std_map \<Rightarrow> (bool option \<times> (node, 'e) std_map) option" where
  "compute_node f n m =
     (case map_find m n of
        None \<Rightarrow> Some (None, m)
      | Some e \<Rightarrow> map_option (\<lambda>(changed, e'). (Some changed, map_assign n e' m)) (f n e))"

fun recompute_nodes ::
  "(node \<Rightarrow> 'e \<Rightarrow> (bool \<times> 'e) option) \<Rightarrow> node list \<Rightarrow> bool \<Rightarrow> (node, 'e) std_map \<Rightarrow>
   (bool option \<times> (node, 'e) std_map) option" where
  "recompute_nodes f [] hasChanged m = Some (Some hasChanged, m)"
| "recompute_nodes f (n # ns) hasChanged m =
     (case compute_node f n m of
        None \<Rightarrow> None
      | Some (None, m') \<Rightarrow> Some (None, m')
      | Some (Some result, m') \<Rightarrow> recompute_nodes f ns (hasChanged \<or> result) m')"

definition target_nodes :: "SymbolMap \<Rightarrow> svar list \<Rightarrow> NodeSet" where
  "target_nodes symbolMap symbolSet =
     fold (\<lambda>symbol ns. node_insert (symbol_nodes symbolMap (sv_key symbol)) ns) symbolSet []"

definition recompute_targets ::
  "(node \<Rightarrow> 'e \<Rightarrow> (bool \<times> 'e) option) \<Rightarrow> NodeSet \<Rightarrow> 'e specialization_map \<Rightarrow>
   (bool option \<times> 'e specialization_map) option" where
  "recompute_targets f ns M =
     map_option (\<lambda>(result, m). (result, M\<lparr>sm_map := m\<rparr>)) (recompute_nodes f ns False (sm_map M))"

lemma target_nodes_set:
  "sorted_wrt SourceIdCmp (target_nodes symbolMap S) \<and>
   set (target_nodes symbolMap S) = (\<Union>x \<in> set S. set (symbol_nodes symbolMap (sv_key x)))"
proof -
  have "sorted_wrt SourceIdCmp (fold (\<lambda>x. node_insert (symbol_nodes symbolMap (sv_key x))) S ns) \<and>
      set (fold (\<lambda>x. node_insert (symbol_nodes symbolMap (sv_key x))) S ns) =
        set ns \<union> (\<Union>x \<in> set S. set (symbol_nodes symbolMap (sv_key x)))"
    if "sorted_wrt SourceIdCmp ns" for ns
    using that by (induction S arbitrary: ns) (auto simp: node_insert_sorted node_insert_set)
  then show ?thesis by (simp add: target_nodes_def)
qed

lemma sorted_nodes_distinct: "sorted_wrt SourceIdCmp ns \<Longrightarrow> distinct ns"
  by (induction ns) (auto simp: nodes.irrefl)

lemma std_map_eqI:
  assumes "map fst m = map fst m'" and "distinct (map fst m)" and "\<And>k. map_find m k = map_find m' k"
  shows "m = m'"
proof (rule nth_equalityI)
  show len: "length m = length m'" using assms(1) by (metis length_map)
  fix i assume i: "i < length m"
  have find: "map_find l (fst (l ! i)) = Some (snd (l ! i))" if "distinct (map fst l)" "i < length l"
    for l :: "('a, 'b) std_map"
    using that om_find_in_set [of "\<lambda>k. k" l "fst (l ! i)" "snd (l ! i)"]
    by (simp add: map_find_def distinct_keys_def comp_def)
  from i len assms(1) have "fst (m ! i) = fst (m' ! i)" by (metis nth_map)
  with find [of m] find [of m'] assms i len show "m ! i = m' ! i" by (metis option.inject prod_eqI)
qed

lemma map_assign_fst [simp]: "map fst (map_assign k v m) = map fst m"
  by (simp add: map_assign_def)

lemma map_sorted_distinct: "map_sorted m \<Longrightarrow> distinct (map fst m)"
  by (metis map_sorted_def sorted_wrt_map strict_sorted_iff)

lemma map_find_domain: "map_find m k \<noteq> None \<longleftrightarrow> k \<in> set (map fst m)"
  by (induction m) auto

section \<open>What an analysis of the nodes promises\<close>

text \<open>
  \<open>compute s n e\<close> decides the entry \<open>e\<close> of a node again under the assignments \<open>s\<close>. It keeps what is
  decided about, reports exactly when the entry changes, and a decided entry stays as it is.
\<close>

locale node_analysis =
  fixes compute :: "'s \<Rightarrow> node \<Rightarrow> 'e \<Rightarrow> (bool \<times> 'e) option" and subject :: "'e \<Rightarrow> expr"
  assumes subject_kept: "compute s n e = Some (changed, e') \<Longrightarrow> subject e' = subject e"
    and reports_change: "compute s n e = Some (changed, e') \<Longrightarrow> changed \<longleftrightarrow> e' \<noteq> e"
    and settles: "compute s n e = Some (changed, e') \<Longrightarrow> compute s n e' = Some (False, e')"
begin

definition entry_after :: "'s \<Rightarrow> node \<Rightarrow> 'e \<Rightarrow> 'e" where
  "entry_after s n e = snd (the (compute s n e))"

definition returns :: "'s \<Rightarrow> (node, 'e) std_map \<Rightarrow> bool" where
  "returns s m \<longleftrightarrow> (\<forall>n e. map_find m n = Some e \<longrightarrow> compute s n e \<noteq> None)"

lemma recompute_nodes_result:
  assumes "distinct ns" and "set ns \<subseteq> set (map fst m)"
    and "\<forall>n e. n \<in> set ns \<longrightarrow> map_find m n = Some e \<longrightarrow> compute s n e \<noteq> None"
  shows "\<exists>m'. recompute_nodes (compute s) ns b m =
      Some (Some (b \<or> (\<exists>n \<in> set ns. map_find m' n \<noteq> map_find m n)), m') \<and>
    map fst m' = map fst m \<and>
    (\<forall>n. map_find m' n = (if n \<in> set ns then map_option (entry_after s n) (map_find m n) else map_find m n))"
  using assms
proof (induction ns arbitrary: b m)
  case (Cons n ns)
  from Cons.prems(2) have "map_find m n \<noteq> None" unfolding map_find_domain by simp
  then obtain e where e: "map_find m n = Some e" by blast
  with Cons.prems(3) have "compute s n e \<noteq> None" by simp
  then obtain ch e' where step: "compute s n e = Some (ch, e')" by auto
  let ?m = "map_assign n e' m"
  have ch: "ch \<longleftrightarrow> e' \<noteq> e" using step by (rule reports_change)
  have find: "map_find ?m n' = (if n' = n then Some e' else map_find m n')" for n'
    using e by (simp add: store_simps)
  have first: "compute_node (compute s) n m = Some (Some ch, ?m)"
    by (simp add: compute_node_def e step)
  have ds: "distinct ns" and sub: "set ns \<subseteq> set (map fst ?m)" using Cons.prems by simp_all
  have defd: "\<forall>x d. x \<in> set ns \<longrightarrow> map_find ?m x = Some d \<longrightarrow> compute s x d \<noteq> None"
    using Cons.prems(1,3) find by auto
  obtain m' where m': "recompute_nodes (compute s) ns (b \<or> ch) ?m =
      Some (Some ((b \<or> ch) \<or> (\<exists>n \<in> set ns. map_find m' n \<noteq> map_find ?m n)), m')"
    "map fst m' = map fst m"
    "\<And>n'. map_find m' n' = (if n' \<in> set ns then map_option (entry_after s n') (map_find ?m n') else map_find ?m n')"
    using Cons.IH [OF ds sub defd, of "b \<or> ch"] by auto
  have n: "n \<notin> set ns" using Cons.prems(1) by simp
  have "map_find m' n \<noteq> map_find m n \<longleftrightarrow> ch" using n m'(3) find e ch by simp
  moreover have "map_find ?m x = map_find m x" if "x \<in> set ns" for x using that n find by auto
  ultimately have "((b \<or> ch) \<or> (\<exists>n \<in> set ns. map_find m' n \<noteq> map_find ?m n)) \<longleftrightarrow>
      (b \<or> (\<exists>x \<in> set (n # ns). map_find m' x \<noteq> map_find m x))" by auto
  moreover have "map_find m' n' =
      (if n' \<in> set (n # ns) then map_option (entry_after s n') (map_find m n') else map_find m n')" for n'
    using m'(3) find n e step by (auto simp: entry_after_def)
  ultimately show ?case using m'(1,2) first by (intro exI [of _ m']) simp
qed simp

text \<open>
  Recomputing only some nodes does what recomputing all of them does, provided that the others are
  decided already and the new assignments decide them the same way.
\<close>

lemma recompute_targets_suffice:
  assumes sorted: "map_sorted (sm_map M)" and T: "distinct T" "set T \<subseteq> set (map fst (sm_map M))"
    and ret: "returns s' (sm_map M)"
    and others: "\<And>n e. map_find (sm_map M) n = Some e \<Longrightarrow> n \<notin> set T \<Longrightarrow> compute s' n e = Some (False, e)"
  shows "recompute_targets (compute s') T M = recompute_targets (compute s') (map fst (sm_map M)) M"
proof -
  let ?m = "sm_map M" and ?all = "map fst (sm_map M)"
  have all: "distinct ?all" using sorted by (rule map_sorted_distinct)
  obtain m1 where m1: "recompute_nodes (compute s') T False ?m =
      Some (Some (\<exists>n \<in> set T. map_find m1 n \<noteq> map_find ?m n), m1)" "map fst m1 = ?all"
    "\<And>n. map_find m1 n = (if n \<in> set T then map_option (entry_after s' n) (map_find ?m n) else map_find ?m n)"
    using recompute_nodes_result [OF T, of s' False] ret by (auto simp: returns_def)
  obtain m2 where m2: "recompute_nodes (compute s') ?all False ?m =
      Some (Some (\<exists>n \<in> set ?all. map_find m2 n \<noteq> map_find ?m n), m2)" "map fst m2 = ?all"
    "\<And>n. map_find m2 n = (if n \<in> set ?all then map_option (entry_after s' n) (map_find ?m n) else map_find ?m n)"
    using recompute_nodes_result [OF all subset_refl, of s' False] ret by (auto simp: returns_def)
  have same: "map_find m1 n = map_find m2 n" for n
  proof (cases "map_find ?m n")
    case None
    then show ?thesis using m1(3) m2(3) by simp
  next
    case (Some e)
    then have "n \<in> set ?all" using map_find_domain [of ?m n] by simp
    with Some others [OF Some] m1(3) [of n] m2(3) [of n] show ?thesis by (auto simp: entry_after_def)
  qed
  have "m1 = m2" using m1(2) m2(2) all same by (intro std_map_eqI) simp_all
  moreover have "(\<exists>n \<in> set T. map_find m1 n \<noteq> map_find ?m n) \<longleftrightarrow> (\<exists>n \<in> set ?all. map_find m1 n \<noteq> map_find ?m n)"
    using T(2) m1(3) by auto
  ultimately show ?thesis using m1(1) m2(1) by (simp add: recompute_targets_def)
qed

lemma recompute_targets_result:
  assumes T: "distinct T" "set T \<subseteq> set (map fst (sm_map M))" and ret: "returns s (sm_map M)"
  obtains changed M' where "recompute_targets (compute s) T M = Some (Some changed, M')"
    and "changed \<longleftrightarrow> (\<exists>n. map_find (sm_map M') n \<noteq> map_find (sm_map M) n)"
    and "map fst (sm_map M') = map fst (sm_map M)" and "sm_symbolMap M' = sm_symbolMap M"
    and "\<And>n. map_find (sm_map M') n =
      (if n \<in> set T then map_option (entry_after s n) (map_find (sm_map M) n) else map_find (sm_map M) n)"
proof -
  let ?m = "sm_map M"
  obtain m where m: "recompute_nodes (compute s) T False ?m =
      Some (Some (\<exists>n \<in> set T. map_find m n \<noteq> map_find ?m n), m)" "map fst m = map fst ?m"
    "\<And>n. map_find m n = (if n \<in> set T then map_option (entry_after s n) (map_find ?m n) else map_find ?m n)"
    using recompute_nodes_result [OF T, of s False] ret by (auto simp: returns_def)
  have "(\<exists>n \<in> set T. map_find m n \<noteq> map_find ?m n) \<longleftrightarrow> (\<exists>n. map_find m n \<noteq> map_find ?m n)"
    using m(3) by auto
  with m that [of _ "M\<lparr>sm_map := m\<rparr>"] show ?thesis by (simp add: recompute_targets_def)
qed

lemma entry_after_settled:
  assumes "map_find (sm_map M) n = Some e" and "returns s (sm_map M)"
  shows "compute s n (entry_after s n e) = Some (False, entry_after s n e)"
    and "subject (entry_after s n e) = subject e"
proof -
  from assms have "compute s n e \<noteq> None" by (simp add: returns_def)
  then obtain ch e' where "compute s n e = Some (ch, e')" by auto
  then show "compute s n (entry_after s n e) = Some (False, entry_after s n e)"
    and "subject (entry_after s n e) = subject e"
    by (auto simp: entry_after_def intro: settles subject_kept)
qed

end

section \<open>The assignments of all objects\<close>

text \<open>The first object in the order of names that assigns a variable decides it.\<close>

definition insert_assignments ::
  "ControlPlaneAssignmentSet \<Rightarrow> ControlPlaneAssignmentSet \<Rightarrow> ControlPlaneAssignmentSet" where
  "insert_assignments s acc = fold (\<lambda>(x, e) t. om_emplace sv_key t x e) s acc"

definition totalControlPlaneAssignments ::
  "cp_symbols \<Rightarrow> 'z ControlPlaneConstraints \<Rightarrow> ControlPlaneAssignmentSet option" where
  "totalControlPlaneAssignments P constraints =
     map_option (\<lambda>ss. fold insert_assignments ss [])
       (all_some (map (\<lambda>(entityName, item). item_assignments P item) constraints))"

definition totalZ3Assignments ::
  "'z z3_backend \<Rightarrow> cp_symbols \<Rightarrow> 'z Z3Cache \<Rightarrow> 'z ControlPlaneConstraints \<Rightarrow> 'z Z3ControlPlaneAssignmentSet" where
  "totalZ3Assignments B P c constraints =
     fold (\<lambda>(entityName, item) s. z3_merge (item_z3_assignments B P c item) s) constraints []"

lemma insert_assignments_find:
  "cp_find (insert_assignments s acc) x = (case cp_find acc x of Some v \<Rightarrow> Some v | None \<Rightarrow> cp_find s x)"
  unfolding insert_assignments_def
proof (induction s arbitrary: acc)
  case (Cons xe s)
  obtain y e where xe: "xe = (y, e)" by (cases xe)
  have "cp_find acc x = cp_find acc y" if "sv_key x = sv_key y" using that by (rule om_find_cong)
  with Cons show ?case by (auto simp: xe store_simps split: option.splits)
qed (simp split: option.splits)

lemma insert_assignments_distinct:
  "distinct_keys sv_key acc \<Longrightarrow> distinct_keys sv_key (insert_assignments s acc)"
  unfolding insert_assignments_def
  by (induction s arbitrary: acc) (simp_all add: split_beta store_simps)

lemma insert_all_distinct:
  "distinct_keys sv_key acc \<Longrightarrow> distinct_keys sv_key (fold insert_assignments ss acc)"
  by (induction ss arbitrary: acc) (simp_all add: insert_assignments_distinct)

lemma total_distinct: "totalControlPlaneAssignments P m = Some s \<Longrightarrow> distinct_keys sv_key s"
  by (auto simp: totalControlPlaneAssignments_def insert_all_distinct)

lemma z3_merge_insert: "z3_merge other s = fold (\<lambda>(x, e) t. om_emplace sv_key t x e) other s"
  by (simp add: z3_merge_def z3_add_def split_beta)

lemma z3_merge_distinct: "distinct_keys sv_key s \<Longrightarrow> distinct_keys sv_key (z3_merge other s)"
  unfolding z3_merge_insert by (induction other arbitrary: s) (simp_all add: split_beta store_simps)

lemma totalZ3_distinct: "distinct_keys sv_key (totalZ3Assignments B P c m)"
proof -
  have "distinct_keys sv_key (fold (\<lambda>(n, i) s. z3_merge (item_z3_assignments B P c i) s) m s)"
    if "distinct_keys sv_key s" for s
    using that by (induction m arbitrary: s) (simp_all add: split_beta z3_merge_distinct)
  then show ?thesis by (simp add: totalZ3Assignments_def)
qed

section \<open>Reachability by substitution and simplification\<close>

text \<open>The update of a node once its condition is decided, branch by branch as in the code.\<close>

definition update_reachability ::
  "bool option \<Rightarrow> 'a ReachabilityExpression_scheme \<Rightarrow> bool \<times> 'a ReachabilityExpression_scheme" where
  "update_reachability verdict r =
     (let previous = re_reachabilityAssignment r in
      case verdict of
        Some True \<Rightarrow> (previous = None \<or> \<not> the previous, setReachability (Some True) r)
      | Some False \<Rightarrow> (previous = None \<or> the previous, setReachability (Some False) r)
      | None \<Rightarrow> if previous \<noteq> None then (True, setReachability None r) else (False, r))"

definition boolean_verdict :: "expr \<Rightarrow> bool option" where
  "boolean_verdict e = (case e of BoolLiteral b \<Rightarrow> Some b | _ \<Rightarrow> None)"

definition ir_reachability ::
  "ControlPlaneAssignmentSet \<Rightarrow> node \<Rightarrow> ReachabilityExpression \<Rightarrow> (bool \<times> ReachabilityExpression) option" where
  "ir_reachability controlPlaneAssignments node r =
     map_option (\<lambda>cond. update_reachability (boolean_verdict (simplify cond)) r)
       (substituteSymbolicVariable controlPlaneAssignments (re_cond r))"

definition computeNodeReachability ::
  "ControlPlaneAssignmentSet \<Rightarrow> node \<Rightarrow> ReachabilityMap \<Rightarrow> (bool option \<times> ReachabilityMap) option" where
  "computeNodeReachability controlPlaneAssignments node m = compute_node (ir_reachability controlPlaneAssignments) node m"

type_synonym IRReachabilityMap = "ReachabilityExpression specialization_map"

definition mk_IRReachabilityMap :: "NodeAnnotationMap \<Rightarrow> IRReachabilityMap" where
  "mk_IRReachabilityMap m = \<lparr>sm_map = na_reachabilityMap m, sm_symbolMap = na_reachabilitySymbolMap m\<rparr>"

definition isNodeReachable :: "'a ReachabilityExpression_scheme specialization_map \<Rightarrow> node \<Rightarrow> bool option" where
  "isNodeReachable M node =
     (case map_find (sm_map M) node of Some r \<Rightarrow> re_reachabilityAssignment r | None \<Rightarrow> None)"

definition recomputeReachability_nodes ::
  "cp_symbols \<Rightarrow> NodeSet \<Rightarrow> 'z ControlPlaneConstraints \<Rightarrow> IRReachabilityMap \<Rightarrow>
   (bool option \<times> IRReachabilityMap) option" where
  "recomputeReachability_nodes P targetNodes constraints M =
     assign_or_return (totalControlPlaneAssignments P constraints)
       (\<lambda>s. recompute_targets (ir_reachability s) targetNodes M)"

definition recomputeReachability ::
  "cp_symbols \<Rightarrow> 'z ControlPlaneConstraints \<Rightarrow> IRReachabilityMap \<Rightarrow> (bool option \<times> IRReachabilityMap) option" where
  "recomputeReachability P constraints M =
     assign_or_return (totalControlPlaneAssignments P constraints)
       (\<lambda>s. recompute_targets (ir_reachability s) (map fst (sm_map M)) M)"

definition recomputeReachability_symbols ::
  "cp_symbols \<Rightarrow> svar list \<Rightarrow> 'z ControlPlaneConstraints \<Rightarrow> IRReachabilityMap \<Rightarrow>
   (bool option \<times> IRReachabilityMap) option" where
  "recomputeReachability_symbols P symbolSet constraints M =
     recomputeReachability_nodes P (target_nodes (sm_symbolMap M) symbolSet) constraints M"

lemma update_reachability_eq:
  "update_reachability v r = (v \<noteq> re_reachabilityAssignment r, r\<lparr>re_reachabilityAssignment := v\<rparr>)"
proof -
  consider "v = None" | "v = Some True" | "v = Some False" by (cases v) auto
  then show ?thesis
    by cases (cases r; cases "re_reachabilityAssignment r"; auto simp: update_reachability_def setReachability_def)+
qed

lemma update_reachability_subject: "re_cond (snd (update_reachability v r)) = re_cond r"
  by (simp add: update_reachability_eq)

interpretation reach: node_analysis ir_reachability re_cond
proof
  fix s n and r r' :: ReachabilityExpression and changed
  assume "ir_reachability s n r = Some (changed, r')"
  then obtain c where c: "substituteSymbolicVariable s (re_cond r) = Some c"
    and u: "(changed, r') = update_reachability (boolean_verdict (simplify c)) r"
    by (auto simp: ir_reachability_def)
  then show "re_cond r' = re_cond r" by (simp add: update_reachability_eq)
  show "changed \<longleftrightarrow> r' \<noteq> r" using u by (cases r) (auto simp: update_reachability_eq)
  show "ir_reachability s n r' = Some (False, r')"
    using u c by (simp add: ir_reachability_def update_reachability_eq)
qed

section \<open>Constants by substitution and simplification\<close>

definition literal_verdict :: "expr \<Rightarrow> expr option" where
  "literal_verdict e = (case e of Constant t n \<Rightarrow> Some (Constant t n) | BoolLiteral b \<Rightarrow> Some (BoolLiteral b) | _ \<Rightarrow> None)"

definition update_substitution ::
  "expr option \<Rightarrow> 'a SubstitutionExpression_scheme \<Rightarrow> bool \<times> 'a SubstitutionExpression_scheme" where
  "update_substitution verdict s =
     (let previous = se_substitution s in
      case verdict of
        Some literal \<Rightarrow> (previous = None \<or> the previous \<noteq> literal, setSubstitution literal s)
      | None \<Rightarrow> if previous \<noteq> None then (True, unsetSubstitution s) else (False, s))"

definition ir_substitution ::
  "ControlPlaneAssignmentSet \<Rightarrow> node \<Rightarrow> SubstitutionExpression \<Rightarrow> (bool \<times> SubstitutionExpression) option" where
  "ir_substitution controlPlaneAssignments node s =
     map_option (\<lambda>e. update_substitution (literal_verdict (simplify e)) s)
       (substituteSymbolicVariable controlPlaneAssignments (se_originalExpression s))"

definition computeNodeSubstitution ::
  "ControlPlaneAssignmentSet \<Rightarrow> node \<Rightarrow> SubstitutionMap \<Rightarrow> (bool option \<times> SubstitutionMap) option" where
  "computeNodeSubstitution controlPlaneAssignments expression m =
     compute_node (ir_substitution controlPlaneAssignments) expression m"

type_synonym IrSubstitutionMap = "SubstitutionExpression specialization_map"

definition mk_IrSubstitutionMap :: "NodeAnnotationMap \<Rightarrow> IrSubstitutionMap" where
  "mk_IrSubstitutionMap m = \<lparr>sm_map = na_substitutionMap m, sm_symbolMap = na_expressionSymbolMap m\<rparr>"

definition isExpressionConstant :: "'a SubstitutionExpression_scheme specialization_map \<Rightarrow> node \<Rightarrow> expr option" where
  "isExpressionConstant M expression =
     (case map_find (sm_map M) expression of Some s \<Rightarrow> se_substitution s | None \<Rightarrow> None)"

definition recomputeSubstitution_nodes ::
  "cp_symbols \<Rightarrow> NodeSet \<Rightarrow> 'z ControlPlaneConstraints \<Rightarrow> IrSubstitutionMap \<Rightarrow>
   (bool option \<times> IrSubstitutionMap) option" where
  "recomputeSubstitution_nodes P targetExpressions constraints M =
     assign_or_return (totalControlPlaneAssignments P constraints)
       (\<lambda>s. recompute_targets (ir_substitution s) targetExpressions M)"

definition recomputeSubstitution ::
  "cp_symbols \<Rightarrow> 'z ControlPlaneConstraints \<Rightarrow> IrSubstitutionMap \<Rightarrow> (bool option \<times> IrSubstitutionMap) option" where
  "recomputeSubstitution P constraints M =
     assign_or_return (totalControlPlaneAssignments P constraints)
       (\<lambda>s. recompute_targets (ir_substitution s) (map fst (sm_map M)) M)"

definition recomputeSubstitution_symbols ::
  "cp_symbols \<Rightarrow> svar list \<Rightarrow> 'z ControlPlaneConstraints \<Rightarrow> IrSubstitutionMap \<Rightarrow>
   (bool option \<times> IrSubstitutionMap) option" where
  "recomputeSubstitution_symbols P symbolSet constraints M =
     recomputeSubstitution_nodes P (target_nodes (sm_symbolMap M) symbolSet) constraints M"

lemma update_substitution_eq:
  "update_substitution v s = (v \<noteq> se_substitution s, s\<lparr>se_substitution := v\<rparr>)"
  by (cases s; cases v; cases "se_substitution s")
    (auto simp: update_substitution_def setSubstitution_def unsetSubstitution_def)

interpretation subst: node_analysis ir_substitution se_originalExpression
proof
  fix s n and r r' :: SubstitutionExpression and changed
  assume "ir_substitution s n r = Some (changed, r')"
  then obtain c where c: "substituteSymbolicVariable s (se_originalExpression r) = Some c"
    and u: "(changed, r') = update_substitution (literal_verdict (simplify c)) r"
    by (auto simp: ir_substitution_def)
  then show "se_originalExpression r' = se_originalExpression r" by (simp add: update_substitution_eq)
  show "changed \<longleftrightarrow> r' \<noteq> r" using u by (cases r) (auto simp: update_substitution_eq)
  show "ir_substitution s n r' = Some (False, r')"
    using u c by (simp add: ir_substitution_def update_substitution_eq)
qed

section \<open>The solver versions\<close>

text \<open>
  What the code reads off a solver expression: whether it is the literal true or false, whether it is
  a numeral, and the number it shows for a given precision.
\<close>

record 'z z3_reader =
  z3_bool :: "'z \<Rightarrow> bool option"
  z3_is_numeral :: "'z \<Rightarrow> bool"
  z3_decimal :: "'z \<Rightarrow> nat \<Rightarrow> int"

record 'z Z3ReachabilityExpression = ReachabilityExpression +
  ze_z3Condition :: 'z

record 'z Z3SubstitutionExpression = SubstitutionExpression +
  ze_originalZ3Expression :: 'z

definition mk_Z3ReachabilityExpression ::
  "'z z3_backend \<Rightarrow> ReachabilityExpression \<Rightarrow> 'z Z3ReachabilityExpression" where
  "mk_Z3ReachabilityExpression B r =
     \<lparr>re_cond = re_cond r, re_reachabilityAssignment = re_reachabilityAssignment r,
      ze_z3Condition = z3_simplify B (z3_set B (re_cond r))\<rparr>"

definition mk_Z3SubstitutionExpression ::
  "'z z3_backend \<Rightarrow> SubstitutionExpression \<Rightarrow> 'z Z3SubstitutionExpression" where
  "mk_Z3SubstitutionExpression B s =
     \<lparr>se_condition = se_condition s, se_originalExpression = se_originalExpression s, se_substitution = None,
      ze_originalZ3Expression = z3_simplify B (z3_set B (se_originalExpression s))\<rparr>"

type_synonym 'z Z3SolverReachabilityMap = "'z Z3ReachabilityExpression specialization_map"
type_synonym 'z Z3SolverSubstitutionMap = "'z Z3SubstitutionExpression specialization_map"

definition mk_Z3SolverReachabilityMap :: "'z z3_backend \<Rightarrow> NodeAnnotationMap \<Rightarrow> 'z Z3SolverReachabilityMap" where
  "mk_Z3SolverReachabilityMap B m =
     \<lparr>sm_map = map (\<lambda>(n, r). (n, mk_Z3ReachabilityExpression B r)) (na_reachabilityMap m),
      sm_symbolMap = na_reachabilitySymbolMap m\<rparr>"

definition mk_Z3SolverSubstitutionMap :: "'z z3_backend \<Rightarrow> NodeAnnotationMap \<Rightarrow> 'z Z3SolverSubstitutionMap" where
  "mk_Z3SolverSubstitutionMap B m =
     \<lparr>sm_map = map (\<lambda>(n, s). (n, mk_Z3SubstitutionExpression B s)) (na_substitutionMap m),
      sm_symbolMap = na_expressionSymbolMap m\<rparr>"

definition z3_reachability ::
  "'z z3_backend \<Rightarrow> 'z z3_reader \<Rightarrow> 'z Z3ControlPlaneAssignmentSet \<Rightarrow> node \<Rightarrow>
   'z Z3ReachabilityExpression \<Rightarrow> (bool \<times> 'z Z3ReachabilityExpression) option" where
  "z3_reachability B R assignmentSet node r =
     (let newExpr = z3_simplify B (z3_substitute_set B assignmentSet (ze_z3Condition r)) in
      Some (update_reachability (z3_bool R newExpr) r))"

text \<open>A numeral becomes a constant of the type \<open>T\<close> gives the program's expression.\<close>

definition z3_literal :: "'z z3_reader \<Rightarrow> ty \<Rightarrow> 'z \<Rightarrow> expr option" where
  "z3_literal R t z =
     (case z3_bool R z of
        Some b \<Rightarrow> Some (BoolLiteral b)
      | None \<Rightarrow> if z3_is_numeral R z then Some (Constant t (z3_decimal R z (width_bits t))) else None)"

definition z3_substitution ::
  "'z z3_backend \<Rightarrow> 'z z3_reader \<Rightarrow> (node \<Rightarrow> ty) \<Rightarrow> 'z Z3ControlPlaneAssignmentSet \<Rightarrow> node \<Rightarrow>
   'z Z3SubstitutionExpression \<Rightarrow> (bool \<times> 'z Z3SubstitutionExpression) option" where
  "z3_substitution B R T assignmentSet node s =
     (let newExpr = z3_simplify B (z3_substitute_set B assignmentSet (ze_originalZ3Expression s)) in
      Some (update_substitution (z3_literal R (T node) newExpr) s))"

definition z3_recomputeReachability_nodes ::
  "'z z3_backend \<Rightarrow> 'z z3_reader \<Rightarrow> cp_symbols \<Rightarrow> 'z Z3Cache \<Rightarrow> NodeSet \<Rightarrow> 'z ControlPlaneConstraints \<Rightarrow>
   'z Z3SolverReachabilityMap \<Rightarrow> (bool option \<times> 'z Z3SolverReachabilityMap) option" where
  "z3_recomputeReachability_nodes B R P c targetNodes constraints M =
     recompute_targets (z3_reachability B R (totalZ3Assignments B P c constraints)) targetNodes M"

definition z3_recomputeReachability ::
  "'z z3_backend \<Rightarrow> 'z z3_reader \<Rightarrow> cp_symbols \<Rightarrow> 'z Z3Cache \<Rightarrow> 'z ControlPlaneConstraints \<Rightarrow>
   'z Z3SolverReachabilityMap \<Rightarrow> (bool option \<times> 'z Z3SolverReachabilityMap) option" where
  "z3_recomputeReachability B R P c constraints M =
     recompute_targets (z3_reachability B R (totalZ3Assignments B P c constraints)) (map fst (sm_map M)) M"

definition z3_recomputeReachability_symbols ::
  "'z z3_backend \<Rightarrow> 'z z3_reader \<Rightarrow> cp_symbols \<Rightarrow> 'z Z3Cache \<Rightarrow> svar list \<Rightarrow> 'z ControlPlaneConstraints \<Rightarrow>
   'z Z3SolverReachabilityMap \<Rightarrow> (bool option \<times> 'z Z3SolverReachabilityMap) option" where
  "z3_recomputeReachability_symbols B R P c symbolSet constraints M =
     z3_recomputeReachability_nodes B R P c (target_nodes (sm_symbolMap M) symbolSet) constraints M"

definition z3_recomputeSubstitution_nodes ::
  "'z z3_backend \<Rightarrow> 'z z3_reader \<Rightarrow> (node \<Rightarrow> ty) \<Rightarrow> cp_symbols \<Rightarrow> 'z Z3Cache \<Rightarrow> NodeSet \<Rightarrow>
   'z ControlPlaneConstraints \<Rightarrow> 'z Z3SolverSubstitutionMap \<Rightarrow> (bool option \<times> 'z Z3SolverSubstitutionMap) option" where
  "z3_recomputeSubstitution_nodes B R T P c targetExpressions constraints M =
     recompute_targets (z3_substitution B R T (totalZ3Assignments B P c constraints)) targetExpressions M"

definition z3_recomputeSubstitution ::
  "'z z3_backend \<Rightarrow> 'z z3_reader \<Rightarrow> (node \<Rightarrow> ty) \<Rightarrow> cp_symbols \<Rightarrow> 'z Z3Cache \<Rightarrow>
   'z ControlPlaneConstraints \<Rightarrow> 'z Z3SolverSubstitutionMap \<Rightarrow> (bool option \<times> 'z Z3SolverSubstitutionMap) option" where
  "z3_recomputeSubstitution B R T P c constraints M =
     recompute_targets (z3_substitution B R T (totalZ3Assignments B P c constraints)) (map fst (sm_map M)) M"

definition z3_recomputeSubstitution_symbols ::
  "'z z3_backend \<Rightarrow> 'z z3_reader \<Rightarrow> (node \<Rightarrow> ty) \<Rightarrow> cp_symbols \<Rightarrow> 'z Z3Cache \<Rightarrow> svar list \<Rightarrow>
   'z ControlPlaneConstraints \<Rightarrow> 'z Z3SolverSubstitutionMap \<Rightarrow> (bool option \<times> 'z Z3SolverSubstitutionMap) option" where
  "z3_recomputeSubstitution_symbols B R T P c symbolSet constraints M =
     z3_recomputeSubstitution_nodes B R T P c (target_nodes (sm_symbolMap M) symbolSet) constraints M"

interpretation z3_reach: node_analysis "z3_reachability B R" re_cond for B :: "'z z3_backend" and R
proof
  fix s n and r r' :: "'z Z3ReachabilityExpression" and changed
  assume "z3_reachability B R s n r = Some (changed, r')"
  then have u: "r' = r\<lparr>re_reachabilityAssignment := z3_bool R (z3_simplify B (z3_substitute_set B s (ze_z3Condition r)))\<rparr>"
    "changed \<longleftrightarrow> z3_bool R (z3_simplify B (z3_substitute_set B s (ze_z3Condition r))) \<noteq> re_reachabilityAssignment r"
    by (auto simp: z3_reachability_def Let_def update_reachability_eq)
  then show "re_cond r' = re_cond r" by simp
  show "changed \<longleftrightarrow> r' \<noteq> r" using u by (cases r) auto
  show "z3_reachability B R s n r' = Some (False, r')"
    using u(1) by (simp add: z3_reachability_def Let_def update_reachability_eq)
qed

interpretation z3_subst: node_analysis "z3_substitution B R T" se_originalExpression
  for B :: "'z z3_backend" and R T
proof
  fix s n and r r' :: "'z Z3SubstitutionExpression" and changed
  assume "z3_substitution B R T s n r = Some (changed, r')"
  then have u: "r' = r\<lparr>se_substitution := z3_literal R (T n) (z3_simplify B (z3_substitute_set B s (ze_originalZ3Expression r)))\<rparr>"
    "changed \<longleftrightarrow> z3_literal R (T n) (z3_simplify B (z3_substitute_set B s (ze_originalZ3Expression r))) \<noteq> se_substitution r"
    by (auto simp: z3_substitution_def Let_def update_substitution_eq)
  then show "se_originalExpression r' = se_originalExpression r" by simp
  show "changed \<longleftrightarrow> r' \<noteq> r" using u by (cases r) auto
  show "z3_substitution B R T s n r' = Some (False, r')"
    using u(1) by (simp add: z3_substitution_def Let_def update_substitution_eq)
qed

section \<open>Verdicts are right\<close>

context node_analysis
begin

lemma recompute_nodes_returns:
  assumes "recompute_nodes (compute s) ns b m = Some (Some changed, m')" and "distinct ns"
  shows "\<forall>n e. n \<in> set ns \<longrightarrow> map_find m n = Some e \<longrightarrow> compute s n e \<noteq> None"
  using assms
proof (induction ns arbitrary: b m)
  case (Cons n ns)
  from Cons.prems(1) obtain ch m1 where first: "compute_node (compute s) n m = Some (Some ch, m1)"
    and rest: "recompute_nodes (compute s) ns (b \<or> ch) m1 = Some (Some changed, m')"
    by (auto split: option.splits)
  from first obtain e e' where e: "map_find m n = Some e" "compute s n e = Some (ch, e')" "m1 = map_assign n e' m"
    by (auto simp: compute_node_def split: option.splits)
  have "map_find m1 x = map_find m x" if "x \<in> set ns" for x
    using that Cons.prems(2) e by (auto simp: store_simps)
  with Cons.IH [OF rest] Cons.prems(2) e show ?case by auto
qed simp

lemma recompute_targets_returns:
  assumes "recompute_targets (compute s) (map fst (sm_map M)) M = Some (Some changed, M')"
    and "map_sorted (sm_map M)"
  shows "returns s (sm_map M)"
proof -
  from assms(1) obtain m' where m': "recompute_nodes (compute s) (map fst (sm_map M)) False (sm_map M) = Some (Some changed, m')"
    by (auto simp: recompute_targets_def)
  have "n \<in> set (map fst (sm_map M))" if "map_find (sm_map M) n = Some e" for n e
    using that map_find_domain [of "sm_map M" n] by simp
  with recompute_nodes_returns [OF m' map_sorted_distinct [OF assms(2)]] show ?thesis
    unfolding returns_def by blast
qed

lemma recompute_all_result:
  assumes full: "recompute_targets (compute s) (map fst (sm_map M)) M = Some (Some changed, M')"
    and sorted: "map_sorted (sm_map M)"
  shows "(changed \<longleftrightarrow> (\<exists>n. map_find (sm_map M') n \<noteq> map_find (sm_map M) n)) \<and>
    (\<forall>n. map_find (sm_map M') n = map_option (entry_after s n) (map_find (sm_map M) n)) \<and>
    map fst (sm_map M') = map fst (sm_map M) \<and> sm_symbolMap M' = sm_symbolMap M \<and> returns s (sm_map M)"
proof -
  have ret: "returns s (sm_map M)" using full sorted by (rule recompute_targets_returns)
  from recompute_targets_result [OF map_sorted_distinct [OF sorted] subset_refl ret]
  obtain ch M1 where r: "recompute_targets (compute s) (map fst (sm_map M)) M = Some (Some ch, M1)"
    "ch \<longleftrightarrow> (\<exists>n. map_find (sm_map M1) n \<noteq> map_find (sm_map M) n)"
    "map fst (sm_map M1) = map fst (sm_map M)" "sm_symbolMap M1 = sm_symbolMap M"
    "\<And>n. map_find (sm_map M1) n = (if n \<in> set (map fst (sm_map M)) then map_option (entry_after s n) (map_find (sm_map M) n) else map_find (sm_map M) n)"
    by blast
  have "map_find (sm_map M) n = None" if "n \<notin> set (map fst (sm_map M))" for n
    using that map_find_domain [of "sm_map M" n] by blast
  with r full ret show ?thesis by auto
qed

end

lemma solving_substitution:
  assumes "substituteSymbolicVariable s e = Some e'" and "solves env s" and "eval env e = Some v"
  shows "eval env (simplify e') = Some v"
proof -
  have "refines_via env env e e'"
    using subst_via [OF solves_reads_as [OF assms(2)]] assms(1)
    by (simp add: substituteSymbolicVariable_def)
  with assms(3) have "eval env e' = Some v" by (auto simp: refines_via_def)
  then show ?thesis by (rule refines_inD [OF simplify_refines])
qed

text \<open>
  Claim C31. Verdicts by substitution are right: after a recomputation a node that counts as always
  (never) reachable has a condition that is true (false) wherever it has a value, in every environment
  that gives the assigned variables their assigned values. The recomputation reports exactly whether
  a verdict changed, and decides no node but the mapped ones.
\<close>

theorem reachability_sound:
  assumes "recomputeReachability P constraints M = Some (Some changed, M')" and "map_sorted (sm_map M)"
    and "totalControlPlaneAssignments P constraints = Some s" and "solves env s"
  shows "(\<forall>n r b v. map_find (sm_map M) n = Some r \<and> isNodeReachable M' n = Some b \<and>
       eval env (re_cond r) = Some v \<longrightarrow> v = VBool b) \<and>
    (changed \<longleftrightarrow> (\<exists>n. isNodeReachable M' n \<noteq> isNodeReachable M n))"
proof -
  have full: "recompute_targets (ir_reachability s) (map fst (sm_map M)) M = Some (Some changed, M')"
    using assms(1,3) by (simp add: recomputeReachability_def)
  note result = reach.recompute_all_result [OF full assms(2)]
  have after: "\<exists>c. substituteSymbolicVariable s (re_cond r) = Some c \<and>
      map_find (sm_map M') n = Some (r\<lparr>re_reachabilityAssignment := boolean_verdict (simplify c)\<rparr>)"
    if n: "map_find (sm_map M) n = Some r" for n r
  proof -
    have "ir_reachability s n r \<noteq> None" using result n unfolding reach.returns_def by blast
    then obtain c where c: "substituteSymbolicVariable s (re_cond r) = Some c"
      by (auto simp: ir_reachability_def)
    then have "reach.entry_after s n r = r\<lparr>re_reachabilityAssignment := boolean_verdict (simplify c)\<rparr>"
      by (simp add: reach.entry_after_def ir_reachability_def update_reachability_eq)
    with result n c show ?thesis by simp
  qed
  have "v = VBool b"
    if n: "map_find (sm_map M) n = Some r" and b: "isNodeReachable M' n = Some b"
      and v: "eval env (re_cond r) = Some v" for n r b v
  proof -
    obtain c where c: "substituteSymbolicVariable s (re_cond r) = Some c"
      and m: "map_find (sm_map M') n = Some (r\<lparr>re_reachabilityAssignment := boolean_verdict (simplify c)\<rparr>)"
      using after [OF n] by blast
    have "simplify c = BoolLiteral b"
      using b m by (simp add: isNodeReachable_def boolean_verdict_def split: expr.splits)
    with solving_substitution [OF c assms(4) v] show ?thesis by simp
  qed
  moreover have "map_find (sm_map M') n = map_find (sm_map M) n \<longleftrightarrow> isNodeReachable M' n = isNodeReachable M n" for n
  proof (cases "map_find (sm_map M) n")
    case None
    with result show ?thesis by (simp add: isNodeReachable_def)
  next
    case (Some r)
    with after [OF Some] show ?thesis by (cases r) (auto simp: isNodeReachable_def)
  qed
  ultimately show ?thesis using result by blast
qed

text \<open>
  A condition is only decided when the passes of \<open>simplify\<close> turn it into a literal; comparisons of
  literals stay, since neither constant folding nor strength reduction is among them.
\<close>

definition example_map :: "expr \<Rightarrow> IRReachabilityMap" where
  "example_map cond =
     mk_IRReachabilityMap (snd (initializeReachabilityMapping (Node 3 0) cond empty_annotations))"

lemma example_map_simps:
  "sm_map (example_map cond) = [(Node 3 0, \<lparr>re_cond = cond, re_reachabilityAssignment = None\<rparr>)]"
  by (simp add: example_map_def mk_IRReachabilityMap_def initializeReachabilityMapping_def Let_def
      empty_annotations_def map_insert_def mk_ReachabilityExpression_def)

theorem reachability_sound_witness:
  "\<exists>M'. recomputeReachability example_symbols ([(''v'', ParserValueSetItem ''v'')] :: expr ControlPlaneConstraints)
       (example_map (SymbolicVariable (getParserValueSetConfigured ''v''))) = Some (Some True, M') \<and>
     isNodeReachable M' (Node 3 0) = Some False \<and>
     (\<forall>env. env (sv_key (getParserValueSetConfigured ''v'')) = VBool False \<longrightarrow>
        eval env (SymbolicVariable (getParserValueSetConfigured ''v'')) = Some (VBool False))"
proof -
  let ?x = "getParserValueSetConfigured ''v''" and ?m = "[(''v'', ParserValueSetItem ''v'')] :: expr ControlPlaneConstraints"
  have x: "sv_type ?x = Type_Boolean" by (simp add: getParserValueSetConfigured_def)
  have s: "totalControlPlaneAssignments example_symbols ?m = Some [(?x, BoolLiteral False)]"
    by (simp add: totalControlPlaneAssignments_def item_assignments_def insert_assignments_def om_emplace_def)
  have simp_false: "simplify (BoolLiteral False) = BoolLiteral False" by (simp add: simplify_def)
  define M' where "M' = (example_map (SymbolicVariable ?x))\<lparr>sm_map :=
    [(Node 3 0, \<lparr>re_cond = SymbolicVariable ?x, re_reachabilityAssignment = Some False\<rparr>)]\<rparr>"
  have M': "recomputeReachability example_symbols ?m (example_map (SymbolicVariable ?x)) = Some (Some True, M')"
    "isNodeReachable M' (Node 3 0) = Some False"
    by (simp_all add: M'_def recomputeReachability_def s example_map_simps recompute_targets_def compute_node_def
        ir_reachability_def substituteSymbolicVariable_def is_SymbolicVariable_def boolean_verdict_def
        update_reachability_eq simp_false isNodeReachable_def map_assign_def ex_bool_eq)
  have "eval env (SymbolicVariable ?x) = Some (VBool False)" if env: "env (sv_key ?x) = VBool False" for env
  proof -
    have "solves env [(?x, BoolLiteral False)]" using env by (simp add: solves_def)
    moreover have "map_sorted (sm_map (example_map (SymbolicVariable ?x)))"
      by (simp add: example_map_simps map_sorted_def)
    moreover have "eval env (SymbolicVariable ?x) = Some (VBool False)" using env x by (simp add: typed_def)
    ultimately show ?thesis
      using reachability_sound [OF M'(1) _ s, of env] M'(2) by (simp add: example_map_simps)
  qed
  with M' show ?thesis by blast
qed

section \<open>Incremental recomputation\<close>

text \<open>
  Two assignment sets treat an expression alike when they agree on every variable the substitution
  can meet: the variables of the expression and those of the values it is replaced with.
\<close>

definition unaffected :: "ControlPlaneAssignmentSet \<Rightarrow> ControlPlaneAssignmentSet \<Rightarrow> expr \<Rightarrow> bool" where
  "unaffected s s' e \<longleftrightarrow>
     (\<exists>A. sv_key ` set (symbols_of e) \<subseteq> A \<and>
        (\<forall>x. sv_key x \<in> A \<longrightarrow> cp_find s x = cp_find s' x \<and>
           (\<forall>v. cp_find s x = Some v \<longrightarrow> sv_key ` set (symbols_of v) \<subseteq> A)))"

lemma subst_list_cong:
  "(\<And>e. e \<in> set es \<Longrightarrow> f e = g e) \<Longrightarrow> all_some (map f es) = all_some (map g es)"
  by (simp cong: map_cong)

lemma subst_agree:
  assumes "\<forall>x. sv_key x \<in> A \<longrightarrow> cp_find s x = cp_find s' x \<and>
    (\<forall>v. cp_find s x = Some v \<longrightarrow> sv_key ` set (symbols_of v) \<subseteq> A)"
  shows "sv_key ` set (symbols_of e) \<subseteq> A \<Longrightarrow> subst n s e = subst n s' e"
proof (induction n s1 \<equiv> s e rule: subst.induct)
  case (1 n x)
  then have x: "cp_find s x = cp_find s' x" using assms by simp
  show ?case
  proof (cases "cp_find s x")
    case (Some v)
    then have "sv_key ` set (symbols_of v) \<subseteq> A" using assms 1(2) by simp
    then have "subst k s v = subst k s' v" if "n = Suc k" "\<not> is_SymbolicVariable v" for k
      using 1(1) [OF Some that(2,1)] by simp
    with Some x show ?thesis by (simp split: nat.split)
  qed (use x in simp)
next
  case (4 n t op l r)
  then show ?case by (auto simp: image_Un intro!: assign_or_return_cong)
next
  case (6 n t c a b)
  then show ?case by (auto simp: image_Un intro!: assign_or_return_cong)
next
  case (7 n es)
  then have "all_some (map (subst n s) es) = all_some (map (subst n s') es)"
    by (intro subst_list_cong) auto
  then show ?case by simp
next
  case (8 n ns es)
  then have "all_some (map (subst n s) es) = all_some (map (subst n s') es)"
    by (intro subst_list_cong) auto
  then show ?case by simp
next
  case (9 n t es)
  then have "all_some (map (subst n s) es) = all_some (map (subst n s') es)"
    by (intro subst_list_cong) auto
  then show ?case by simp
qed simp_all

text \<open>More fuel does not change a result.\<close>

lemma subst_more: "subst n s e = Some e' \<Longrightarrow> n \<le> m \<Longrightarrow> subst m s e = Some e'"
proof (induction n s e arbitrary: m e' rule: subst.induct)
  case (1 n s x)
  show ?case
  proof (cases "cp_find s x")
    case None
    with 1 show ?thesis by auto
  next
    case (Some v)
    show ?thesis
    proof (cases "is_SymbolicVariable v")
      case False
      with 1(2) Some obtain k where k: "n = Suc k" "subst k s v = Some e'" by (cases n) auto
      with 1(3) obtain l where l: "m = Suc l" "k \<le> l" by (cases m) auto
      have "subst l s v = Some e'" using Some False k l(2) by (rule 1(1))
      with Some False l(1) show ?thesis by simp
    qed (use 1(2) Some in simp)
  qed
next
  case (7 n s es)
  from 7(2) obtain ys where ys: "all_some (map (subst n s) es) = Some ys" "e' = ListExpression ys" by auto
  have "all_some (map (subst m s) es) = Some ys"
    using ys(1) by (rule all_some_map_mono) (rule 7(1) [OF _ _ 7(3)])
  with ys(2) show ?case by simp
next
  case (8 n s ns es)
  from 8(2) obtain ys where ys: "all_some (map (subst n s) es) = Some ys" "e' = StructExpression ns ys" by auto
  have "all_some (map (subst m s) es) = Some ys"
    using ys(1) by (rule all_some_map_mono) (rule 8(1) [OF _ _ 8(3)])
  with ys(2) show ?case by simp
next
  case (9 n s t es)
  from 9(2) obtain ys where ys: "all_some (map (subst n s) es) = Some ys" "e' = HeaderStackExpression t ys" by auto
  have "all_some (map (subst m s) es) = Some ys"
    using ys(1) by (rule all_some_map_mono) (rule 9(1) [OF _ _ 9(3)])
  with ys(2) show ?case by simp
next
  case (2 n s l d)
  from 2(2) obtain d' where d: "subst n s d = Some d'" "e' = Placeholder l d'" by auto
  from 2(1) [OF d(1) 2(3)] d(2) show ?case by simp
next
  case (3 n s t op e)
  from 3(2) obtain d where d: "subst n s e = Some d" "e' = Unary t op d" by auto
  from 3(1) [OF d(1) 3(3)] d(2) show ?case by simp
next
  case (5 n s t e hi lo)
  from 5(2) obtain d where d: "subst n s e = Some d" "e' = Slice t d hi lo" by auto
  from 5(1) [OF d(1) 5(3)] d(2) show ?case by simp
next
  case (4 n s t op l r)
  from 4(3) obtain a b where ab: "subst n s l = Some a" "subst n s r = Some b" "e' = Binary t op a b"
    by (auto simp: assign_or_return_Some)
  from 4(1) [OF ab(1) 4(4)] 4(2) [OF ab(1,2) 4(4)] ab(3) show ?case by simp
next
  case (6 n s t c a b)
  from 6(4) obtain c' a' b' where ab: "subst n s c = Some c'" "subst n s a = Some a'" "subst n s b = Some b'"
    "e' = Mux t c' a' b'" by (auto simp: assign_or_return_Some)
  from 6(1) [OF ab(1) 6(5)] 6(2) [OF ab(1,2) 6(5)] 6(3) [OF ab(1,2,3) 6(5)] ab(4) show ?case by simp
qed simp_all

lemma unaffected_substitution:
  assumes "unaffected s s' e" and "substituteSymbolicVariable s e = Some a"
    and "substituteSymbolicVariable s' e = Some b"
  shows "a = b"
proof -
  have "subst n s e = subst n s' e" for n
  proof -
    from assms(1) obtain A where "sv_key ` set (symbols_of e) \<subseteq> A" and
      "\<forall>x. sv_key x \<in> A \<longrightarrow> cp_find s x = cp_find s' x \<and>
        (\<forall>v. cp_find s x = Some v \<longrightarrow> sv_key ` set (symbols_of v) \<subseteq> A)"
      by (auto simp: unaffected_def)
    from subst_agree [OF this(2,1)] show ?thesis .
  qed
  moreover have "subst (length s + length s') s e = Some a"
    by (rule subst_more [of "length s"]) (use assms(2) in \<open>simp_all add: substituteSymbolicVariable_def\<close>)
  moreover have "subst (length s + length s') s' e = Some b"
    by (rule subst_more [of "length s'"]) (use assms(3) in \<open>simp_all add: substituteSymbolicVariable_def\<close>)
  ultimately show ?thesis by simp
qed

lemma current_entry:
  assumes "map_find (sm_map M) n = Some r" and "recomputeReachability P c M0 = Some (Some ch, M)"
    and "map_sorted (sm_map M0)" and "totalControlPlaneAssignments P c = Some s"
  shows "ir_reachability s n r = Some (False, r)"
proof -
  have full: "recompute_targets (ir_reachability s) (map fst (sm_map M0)) M0 = Some (Some ch, M)"
    using assms(2,4) by (simp add: recomputeReachability_def)
  note result = reach.recompute_all_result [OF full assms(3)]
  then obtain r0 where "map_find (sm_map M0) n = Some r0" "r = reach.entry_after s n r0"
    using assms(1) by (auto simp: option.map_sel split: option.splits)
  with result reach.entry_after_settled show ?thesis by metis
qed

text \<open>
  Incremental recomputation does what full recomputation does: starting from a map that is
  current for some configuration, recomputing the nodes of a set of symbols for another configuration
  gives the same verdicts and the same report as recomputing all nodes, provided that every condition
  that mentions none of the symbols is unaffected, the variables its substitution meets included.
\<close>

lemma incremental_reachability:
  assumes "recomputeReachability P c M0 = Some (Some ch0, M)"
    and M0: "map_sorted (sm_map M0)" "covers re_cond (sm_map M) (sm_symbolMap M)"
    and "totalControlPlaneAssignments P c = Some s" "totalControlPlaneAssignments P c' = Some s'"
    and "\<And>n r. map_find (sm_map M) n = Some r \<Longrightarrow>
      sv_key ` set (symbols_of (re_cond r)) \<inter> sv_key ` set S = {} \<Longrightarrow> unaffected s s' (re_cond r)"
    and full: "recomputeReachability P c' M = Some (Some ch, M')"
  shows "recomputeReachability_symbols P S c' M = Some (Some ch, M')"
proof -
  let ?T = "target_nodes (sm_symbolMap M) S"
  have sorted: "map_sorted (sm_map M)" using M0(2) by (simp add: covers_def)
  have full': "recompute_targets (ir_reachability s') (map fst (sm_map M)) M = Some (Some ch, M')"
    using full assms(5) by (simp add: recomputeReachability_def)
  then have ret: "reach.returns s' (sm_map M)" using reach.recompute_all_result [OF full' sorted] by blast
  have T: "set ?T = (\<Union>x \<in> set S. set (symbol_nodes (sm_symbolMap M) (sv_key x)))" "distinct ?T"
    using target_nodes_set [of "sm_symbolMap M" S] sorted_nodes_distinct by blast+
  have sub: "set ?T \<subseteq> set (map fst (sm_map M))"
    using M0(2) map_find_domain [of "sm_map M"] unfolding T(1) covers_def by blast
  have "recompute_targets (ir_reachability s') ?T M =
      recompute_targets (ir_reachability s') (map fst (sm_map M)) M"
  proof (rule reach.recompute_targets_suffice [OF sorted T(2) sub ret])
    fix n r assume n: "map_find (sm_map M) n = Some r" and notin: "n \<notin> set ?T"
    have "sv_key x \<noteq> sv_key y" if "x \<in> set (symbols_of (re_cond r))" "y \<in> set S" for x y
    proof -
      have "n \<in> set (symbol_nodes (sm_symbolMap M) (sv_key x))"
        using n that(1) M0(2) unfolding covers_def by blast
      moreover have "n \<notin> set (symbol_nodes (sm_symbolMap M) (sv_key y))"
        using notin that(2) unfolding T(1) by blast
      ultimately show ?thesis by metis
    qed
    then have un: "unaffected s s' (re_cond r)" using assms(6) [OF n] by blast
    have cur: "ir_reachability s n r = Some (False, r)"
      using current_entry [OF n assms(1) M0(1) assms(4)] .
    then obtain a where a: "substituteSymbolicVariable s (re_cond r) = Some a"
      by (auto simp: ir_reachability_def)
    from ret n obtain b where b: "substituteSymbolicVariable s' (re_cond r) = Some b"
      unfolding reach.returns_def ir_reachability_def by fastforce
    from unaffected_substitution [OF un a b] a b cur show "ir_reachability s' n r = Some (False, r)"
      by (simp add: ir_reachability_def)
  qed
  with full' assms(5) show ?thesis
    by (simp add: recomputeReachability_symbols_def recomputeReachability_nodes_def)
qed

lemma incremental_reachability_example:
  "let x = getParserValueSetConfigured ''v''; M = example_map (SymbolicVariable x);
       c' = [(''v'', ParserValueSetItem ''v'')] :: expr ControlPlaneConstraints in
   \<exists>M'. recomputeReachability_symbols example_symbols [x] c' M = Some (Some True, M') \<and>
     isNodeReachable M' (Node 3 0) = Some False"
proof -
  let ?x = "getParserValueSetConfigured ''v''" and ?c' = "[(''v'', ParserValueSetItem ''v'')] :: expr ControlPlaneConstraints"
  let ?M = "example_map (SymbolicVariable ?x)"
  have s': "totalControlPlaneAssignments example_symbols ?c' = Some [(?x, BoolLiteral False)]"
    by (simp add: totalControlPlaneAssignments_def item_assignments_def insert_assignments_def om_emplace_def)
  have s: "totalControlPlaneAssignments example_symbols ([] :: expr ControlPlaneConstraints) = Some []"
    by (simp add: totalControlPlaneAssignments_def)
  have simp_false: "simplify (BoolLiteral False) = BoolLiteral False" by (simp add: simplify_def)
  have cover: "covers re_cond (sm_map ?M) (sm_symbolMap ?M)"
    using annotated_ok [OF annotated_reachability [OF annotated_empty], of "Node 3 0" "SymbolicVariable ?x"]
    by (simp add: annotations_ok_def example_map_def mk_IRReachabilityMap_def)
  note ev = recomputeReachability_def example_map_simps recompute_targets_def compute_node_def
    ir_reachability_def substituteSymbolicVariable_def is_SymbolicVariable_def boolean_verdict_def
    update_reachability_eq simp_false map_assign_def
  have current: "recomputeReachability example_symbols ([] :: expr ControlPlaneConstraints) ?M = Some (Some False, ?M)"
    by (simp add: s ev)
  define M' where "M' = ?M\<lparr>sm_map :=
    [(Node 3 0, \<lparr>re_cond = SymbolicVariable ?x, re_reachabilityAssignment = Some False\<rparr>)]\<rparr>"
  have full: "recomputeReachability example_symbols ?c' ?M = Some (Some True, M')"
    by (simp add: M'_def s' ev ex_bool_eq)
  have "recomputeReachability_symbols example_symbols [?x] ?c' ?M = Some (Some True, M')"
    by (rule incremental_reachability [OF current _ cover s s' _ full])
      (auto simp: example_map_simps map_sorted_def split: if_splits)
  then show ?thesis by (simp add: M'_def isNodeReachable_def)
qed

section \<open>The solver's verdicts\<close>

text \<open>An environment that solves the assignments is the one the substitution evaluates in.\<close>

definition z3_solves :: "(env \<Rightarrow> 'z \<Rightarrow> val option) \<Rightarrow> env \<Rightarrow> 'z Z3ControlPlaneAssignmentSet \<Rightarrow> bool" where
  "z3_solves zeval env s \<longleftrightarrow> (\<forall>x z. cp_find s x = Some z \<longrightarrow> zeval env z = Some (env (sv_key x)))"

text \<open>
  What reading a solver expression tells about its value, and that substituting into a translated
  expression looks at the variables of the expression only.
\<close>

locale z3_reading = z3_semantics B zeval
  for B :: "'z z3_backend" and zeval :: "env \<Rightarrow> 'z \<Rightarrow> val option" +
  fixes R :: "'z z3_reader"
  assumes read_bool: "z3_bool R z = Some b \<Longrightarrow> zeval env z = Some v \<Longrightarrow> v = VBool b"
    and read_numeral: "z3_is_numeral R z \<Longrightarrow> zeval env z = Some v \<Longrightarrow>
      const_val (val_type v) (z3_decimal R z (width_bits (val_type v))) = Some v"
    and local_substitution:
      "(\<And>x. x \<in> set (symbols_of e) \<Longrightarrow> cp_find s x = cp_find s' x) \<Longrightarrow>
       z3_substitute_set B s (z3_simplify B (z3_set B e)) = z3_substitute_set B s' (z3_simplify B (z3_set B e))"
begin

lemma solving_override:
  assumes "z3_solves zeval env s" and "distinct_keys sv_key s"
  shows "all_defined zeval env s" and "override zeval env s = env"
proof -
  show "all_defined zeval env s"
    using assms om_find_in_set [OF assms(2)] by (force simp: all_defined_def z3_solves_def)
  have "override zeval env s (sv_key x) = env (sv_key x)" for x
  proof (cases "cp_find s x")
    case (Some z)
    with assms(1) have "zeval env z = Some (env (sv_key x))" by (simp add: z3_solves_def)
    with Some show ?thesis by (rule override_assigned)
  qed (simp add: override_unassigned)
  then show "override zeval env s = env" using sv_key_surj by (metis ext)
qed

lemma substituted_value:
  assumes "z3_solves zeval env s" and "distinct_keys sv_key s" and "eval env e = Some v"
  shows "zeval env (z3_simplify B (z3_substitute_set B s (z3_simplify B (z3_set B e)))) = Some v"
  using solving_override [OF assms(1,2)] assms(3)
  by (intro simplified substitute_set [OF assms(2)]) (simp_all add: set_value simplified)

end

text \<open>Simplification brings no variables in.\<close>

lemma fold_node_symbols: "set (symbols_of (fold_node m e)) \<subseteq> set (symbols_of e)"
  by (induction m e rule: fold_node.induct)
    (auto simp: fold_LAnd_def fold_LOr_def fold_LNot_def fold_Mux_def split: option.splits)

lemma fold_expression_symbols: "set (symbols_of (fold_expression m e)) \<subseteq> set (symbols_of e)"
proof (induction m e rule: fold_expression.induct)
  case (2 m t op e)
  then show ?case using fold_node_symbols [of m "Unary t op (fold_expression m e)"] by auto
next
  case (3 m t op l r)
  then show ?case using fold_node_symbols [of m "Binary t op (fold_expression m l) (fold_expression m r)"] by auto
next
  case (5 m t c a b)
  then show ?case
    using fold_node_symbols [of m "Mux t (fold_expression m c) (fold_expression m a) (fold_expression m b)"] by auto
qed (simp_all, blast+)

lemma fold_mux_symbols: "set (symbols_of (fold_mux e)) \<subseteq> set (symbols_of e)"
proof (induction e rule: fold_mux.induct)
  case (1 t c a b)
  have "set (symbols_of (fold_expression [] c)) \<subseteq> set (symbols_of c)"
    "set (symbols_of (fold_expression m a)) \<subseteq> set (symbols_of a)"
    "set (symbols_of (fold_expression m b)) \<subseteq> set (symbols_of b)" for m
    by (rule fold_expression_symbols)+
  then show ?case by (simp add: Let_def) blast
qed (simp_all, blast+)

lemma lift_step_symbols:
  assumes "lift_step c a b = (c', a', b')"
  shows "set (symbols_of c') \<union> set (symbols_of a') \<union> set (symbols_of b') \<subseteq>
    set (symbols_of c) \<union> set (symbols_of a) \<union> set (symbols_of b)"
  using assms
  by (auto simp: lift_step_def lift_true_mux_def lift_false_mux_def mk_defs
      split: option.splits expr.splits if_splits)

lemma lift_mux_symbols: "set (symbols_of (lift_mux e)) \<subseteq> set (symbols_of e)"
proof (induction e rule: lift_mux.induct)
  case (1 t c a b)
  obtain c' a' b' where step: "lift_step c a b = (c', a', b')" by (metis prod_cases3)
  have "set (symbols_of (lift_mux c')) \<subseteq> set (symbols_of c')" "set (symbols_of (lift_mux a')) \<subseteq> set (symbols_of a')"
    "set (symbols_of (lift_mux b')) \<subseteq> set (symbols_of b')"
    using 1 [OF step [symmetric]] step by auto
  with lift_step_symbols [OF step] show ?case by (auto simp: step Let_def)
qed (simp_all, blast+)

lemma simplify_symbols: "set (symbols_of (simplify e)) \<subseteq> set (symbols_of e)"
  using fold_mux_symbols [of e] lift_mux_symbols [of "fold_mux e"] by (simp add: simplify_def)

lemma ir_replace_agree:
  "(\<And>x. x \<in> set (symbols_of e) \<Longrightarrow> ir_lookup ps x = ir_lookup ps' x) \<Longrightarrow> ir_replace ps e = ir_replace ps' e"
  by (induction e) (simp_all, blast+)

text \<open>This solver decides literals and conjunctions.\<close>

fun conjunction_verdict :: "expr \<Rightarrow> bool option" where
  "conjunction_verdict (BoolLiteral b) = Some b"
| "conjunction_verdict (Binary t LAnd l r) =
     (case conjunction_verdict l of Some p \<Rightarrow> if p then conjunction_verdict r else Some False | None \<Rightarrow> None)"
| "conjunction_verdict _ = None"

lemma conjunction_verdict_right:
  "conjunction_verdict e = Some b \<Longrightarrow> eval env e = Some v \<Longrightarrow> v = VBool b"
proof (induction e arbitrary: b v rule: conjunction_verdict.induct)
  case (2 t l r)
  from 2(3) obtain p where p: "conjunction_verdict l = Some p" "if p then conjunction_verdict r = Some b else b = False"
    by (auto split: option.splits if_splits)
  from 2(4) have v: "eval env l = Some (VBool False) \<and> v = VBool False \<or>
      eval env l = Some (VBool True) \<and> eval env r = Some v" by (auto simp: eval_LAnd_Some)
  show ?case
  proof (cases p)
    case True
    with v 2(1) [OF p(1)] have "eval env r = Some v" by auto
    with 2(2) [OF p(1) True] p(2) True show ?thesis by simp
  next
    case False
    with v 2(1) [OF p(1)] p(2) show ?thesis by auto
  qed
qed simp_all

definition ir_reader :: "expr z3_reader" where
  "ir_reader =
     \<lparr>z3_bool = conjunction_verdict,
      z3_is_numeral = (\<lambda>e. case e of Constant t n \<Rightarrow> True | _ \<Rightarrow> False),
      z3_decimal = (\<lambda>e w. case e of Constant t n \<Rightarrow> n | _ \<Rightarrow> 0)\<rparr>"

interpretation ir_reading: z3_reading ir_backend eval ir_reader
proof
  fix e env b v
  assume "z3_bool ir_reader e = Some b" "eval env e = Some v"
  then show "v = VBool b" by (simp add: ir_reader_def conjunction_verdict_right)
next
  fix e env and v :: val
  assume "z3_is_numeral ir_reader e" "eval env e = Some v"
  then show "const_val (val_type v) (z3_decimal ir_reader e (width_bits (val_type v))) = Some v"
    by (auto simp: ir_reader_def const_val_Some_type split: expr.splits)
next
  fix e and s s' :: "expr assignments"
  assume agree: "cp_find s x = cp_find s' x" if "x \<in> set (symbols_of e)" for x
  have sub: "set (symbols_of (simplify (simplify e))) \<subseteq> set (symbols_of e)"
    using simplify_symbols [of e] simplify_symbols [of "simplify e"] by blast
  have "ir_replace (zip (map (\<lambda>(x, z). z3_set ir_backend (SymbolicVariable x)) s) (map snd s)) (simplify (simplify e)) =
      ir_replace (zip (map (\<lambda>(x, z). z3_set ir_backend (SymbolicVariable x)) s') (map snd s')) (simplify (simplify e))"
    by (rule ir_replace_agree) (simp only: ir_lookup_store, use sub agree in blast)
  then show "z3_substitute_set ir_backend s (z3_simplify ir_backend (z3_set ir_backend e)) =
      z3_substitute_set ir_backend s' (z3_simplify ir_backend (z3_set ir_backend e))"
    by (simp add: z3_substitute_set_def z3_set_def ir_backend_def)
qed

section \<open>The maps as functions of the annotations\<close>

text \<open>
  The verdict the solver reads off an expression of the annotations under an assignment set, and the
  map in which every node has that verdict: what the map of the code stands for between updates.
\<close>

definition z3_under :: "'z z3_backend \<Rightarrow> 'z Z3ControlPlaneAssignmentSet \<Rightarrow> expr \<Rightarrow> 'z" where
  "z3_under B s e = z3_simplify B (z3_substitute_set B s (z3_simplify B (z3_set B e)))"

definition z3_reachability_with ::
  "'z z3_backend \<Rightarrow> (node \<Rightarrow> ReachabilityExpression \<Rightarrow> bool option) \<Rightarrow> NodeAnnotationMap \<Rightarrow> 'z Z3SolverReachabilityMap" where
  "z3_reachability_with B v m =
     \<lparr>sm_map = map (\<lambda>(n, r). (n, (mk_Z3ReachabilityExpression B r)\<lparr>re_reachabilityAssignment := v n r\<rparr>))
        (na_reachabilityMap m),
      sm_symbolMap = na_reachabilitySymbolMap m\<rparr>"

definition decided_reachability ::
  "'z z3_backend \<Rightarrow> 'z z3_reader \<Rightarrow> NodeAnnotationMap \<Rightarrow> 'z Z3ControlPlaneAssignmentSet \<Rightarrow> 'z Z3SolverReachabilityMap" where
  "decided_reachability B R m s = z3_reachability_with B (\<lambda>n r. z3_bool R (z3_under B s (re_cond r))) m"

definition z3_substitution_with ::
  "'z z3_backend \<Rightarrow> (node \<Rightarrow> SubstitutionExpression \<Rightarrow> expr option) \<Rightarrow> NodeAnnotationMap \<Rightarrow> 'z Z3SolverSubstitutionMap" where
  "z3_substitution_with B v m =
     \<lparr>sm_map = map (\<lambda>(n, s). (n, (mk_Z3SubstitutionExpression B s)\<lparr>se_substitution := v n s\<rparr>))
        (na_substitutionMap m),
      sm_symbolMap = na_expressionSymbolMap m\<rparr>"

definition decided_substitution ::
  "'z z3_backend \<Rightarrow> 'z z3_reader \<Rightarrow> (node \<Rightarrow> ty) \<Rightarrow> NodeAnnotationMap \<Rightarrow> 'z Z3ControlPlaneAssignmentSet \<Rightarrow>
   'z Z3SolverSubstitutionMap" where
  "decided_substitution B R T m s =
     z3_substitution_with B (\<lambda>n e. z3_literal R (T n) (z3_under B s (se_originalExpression e))) m"

lemma mk_reachability_with:
  "mk_Z3SolverReachabilityMap B m = z3_reachability_with B (\<lambda>n r. re_reachabilityAssignment r) m"
  by (simp add: mk_Z3SolverReachabilityMap_def z3_reachability_with_def mk_Z3ReachabilityExpression_def)

lemma mk_substitution_with: "mk_Z3SolverSubstitutionMap B m = z3_substitution_with B (\<lambda>n s. None) m"
  by (simp add: mk_Z3SolverSubstitutionMap_def z3_substitution_with_def mk_Z3SubstitutionExpression_def)

lemma map_find_map: "map_find (map (\<lambda>(k, v). (k, f k v)) m) k = map_option (f k) (map_find m k)"
  by (induction m) auto

lemma map_fst_map: "map fst (map (\<lambda>(k, v). (k, f k v)) m) = map fst m"
  by (induction m) auto

lemma with_simps:
  "map fst (sm_map (z3_reachability_with B v m)) = map fst (na_reachabilityMap m)"
  "sm_symbolMap (z3_reachability_with B v m) = na_reachabilitySymbolMap m"
  "map_find (sm_map (z3_reachability_with B v m)) n =
     map_option (\<lambda>r. (mk_Z3ReachabilityExpression B r)\<lparr>re_reachabilityAssignment := v n r\<rparr>) (map_find (na_reachabilityMap m) n)"
  "map fst (sm_map (z3_substitution_with B w m)) = map fst (na_substitutionMap m)"
  "sm_symbolMap (z3_substitution_with B w m) = na_expressionSymbolMap m"
  "map_find (sm_map (z3_substitution_with B w m)) n =
     map_option (\<lambda>s. (mk_Z3SubstitutionExpression B s)\<lparr>se_substitution := w n s\<rparr>) (map_find (na_substitutionMap m) n)"
  by (simp_all only: z3_reachability_with_def z3_substitution_with_def specialization_map.simps map_fst_map map_find_map)

lemma z3_reach_after:
  "z3_reach.entry_after B R s n ((mk_Z3ReachabilityExpression B r)\<lparr>re_reachabilityAssignment := b\<rparr>) =
     (mk_Z3ReachabilityExpression B r)\<lparr>re_reachabilityAssignment := z3_bool R (z3_under B s (re_cond r))\<rparr>"
  by (simp add: z3_reach.entry_after_def z3_reachability_def Let_def update_reachability_eq
      mk_Z3ReachabilityExpression_def z3_under_def)

lemma z3_subst_after:
  "z3_subst.entry_after B R T s n ((mk_Z3SubstitutionExpression B e)\<lparr>se_substitution := b\<rparr>) =
     (mk_Z3SubstitutionExpression B e)\<lparr>se_substitution := z3_literal R (T n) (z3_under B s (se_originalExpression e))\<rparr>"
  by (simp add: z3_subst.entry_after_def z3_substitution_def Let_def update_substitution_eq
      mk_Z3SubstitutionExpression_def z3_under_def)

text \<open>Recomputing nodes outside of which the verdicts are right gives the decided map.\<close>

context node_analysis
begin

lemma recompute_decides:
  fixes m :: "(node, 'a) std_map"
  assumes "map_sorted m" and M: "sm_map M = map (\<lambda>(n, a). (n, g n a)) m"
    and T: "distinct T" "set T \<subseteq> set (map fst m)" and ret: "returns s (sm_map M)"
    and after: "\<And>n a. entry_after s n (g n a) = d n a"
    and right: "\<And>n a. map_find m n = Some a \<Longrightarrow> n \<notin> set T \<Longrightarrow> g n a = d n a"
    and D: "D = M\<lparr>sm_map := map (\<lambda>(n, a). (n, d n a)) m\<rparr>"
  shows "recompute_targets (compute s) T M = Some (Some (D \<noteq> M), D)"
proof -
  have dist: "distinct (map fst m)" using assms(1) by (rule map_sorted_distinct)
  have fst: "map fst (sm_map M) = map fst m" "map fst (sm_map D) = map fst m"
    by (simp_all add: M D map_fst_map del: map_map)
  have find: "map_find (sm_map M) n = map_option (g n) (map_find m n)"
    "map_find (sm_map D) n = map_option (d n) (map_find m n)" for n
    by (simp_all add: M D map_find_map)
  have sub: "set T \<subseteq> set (map fst (sm_map M))" using T(2) by (simp only: fst)
  obtain ch M' where M': "recompute_targets (compute s) T M = Some (Some ch, M')"
    "ch \<longleftrightarrow> (\<exists>n. map_find (sm_map M') n \<noteq> map_find (sm_map M) n)"
    "map fst (sm_map M') = map fst (sm_map M)" "sm_symbolMap M' = sm_symbolMap M"
    "\<And>n. map_find (sm_map M') n =
      (if n \<in> set T then map_option (entry_after s n) (map_find (sm_map M) n) else map_find (sm_map M) n)"
    using recompute_targets_result [OF T(1) sub ret] by blast
  have "map_find (sm_map M') n = map_find (sm_map D) n" for n
    using right [of n] M'(5) [of n] by (cases "map_find m n") (auto simp: find after)
  then have "sm_map M' = sm_map D" using M'(3) dist fst by (intro std_map_eqI) simp_all
  then have eq: "M' = D" using M'(4) by (simp add: D)
  have "D = M" if "\<And>n. map_find (sm_map D) n = map_find (sm_map M) n"
  proof -
    have "sm_map D = sm_map M" using that dist fst by (intro std_map_eqI) simp_all
    then show ?thesis by (simp add: D)
  qed
  then have "ch \<longleftrightarrow> D \<noteq> M" using M'(2) unfolding eq by metis
  with M'(1) eq show ?thesis by simp
qed

end

lemma annotations_sorted:
  "annotations_ok m \<Longrightarrow> map_sorted (na_reachabilityMap m)"
  "annotations_ok m \<Longrightarrow> map_sorted (na_substitutionMap m)"
  by (simp_all add: annotations_ok_def covers_def)

lemma z3_reach_decides:
  assumes "annotations_ok m" and "distinct T" "set T \<subseteq> set (map fst (na_reachabilityMap m))"
    and "\<And>n r. map_find (na_reachabilityMap m) n = Some r \<Longrightarrow> n \<notin> set T \<Longrightarrow> v n r = z3_bool R (z3_under B s (re_cond r))"
  shows "recompute_targets (z3_reachability B R s) T (z3_reachability_with B v m) =
    Some (Some (decided_reachability B R m s \<noteq> z3_reachability_with B v m), decided_reachability B R m s)"
proof (rule z3_reach.recompute_decides [where
      g = "\<lambda>n r. (mk_Z3ReachabilityExpression B r)\<lparr>re_reachabilityAssignment := v n r\<rparr>"
      and d = "\<lambda>n r. (mk_Z3ReachabilityExpression B r)\<lparr>re_reachabilityAssignment := z3_bool R (z3_under B s (re_cond r))\<rparr>",
      OF annotations_sorted(1) [OF assms(1)] _ assms(2,3)])
  show "z3_reach.returns B R s (sm_map (z3_reachability_with B v m))"
    unfolding z3_reach.returns_def z3_reachability_def Let_def by simp
qed (simp_all add: assms(4) z3_reachability_with_def decided_reachability_def z3_reach_after)

lemma z3_subst_decides:
  assumes "annotations_ok m" and "distinct T" "set T \<subseteq> set (map fst (na_substitutionMap m))"
    and "\<And>n e. map_find (na_substitutionMap m) n = Some e \<Longrightarrow> n \<notin> set T \<Longrightarrow>
      v n e = z3_literal R (Ty n) (z3_under B s (se_originalExpression e))"
  shows "recompute_targets (z3_substitution B R Ty s) T (z3_substitution_with B v m) =
    Some (Some (decided_substitution B R Ty m s \<noteq> z3_substitution_with B v m), decided_substitution B R Ty m s)"
proof (rule z3_subst.recompute_decides [where
      g = "\<lambda>n e. (mk_Z3SubstitutionExpression B e)\<lparr>se_substitution := v n e\<rparr>"
      and d = "\<lambda>n e. (mk_Z3SubstitutionExpression B e)\<lparr>se_substitution := z3_literal R (Ty n) (z3_under B s (se_originalExpression e))\<rparr>",
      OF annotations_sorted(2) [OF assms(1)] _ assms(2,3)])
  show "z3_subst.returns B R Ty s (sm_map (z3_substitution_with B v m))"
    unfolding z3_subst.returns_def z3_substitution_def Let_def by simp
qed (simp_all add: assms(4) z3_substitution_with_def decided_substitution_def z3_subst_after)

text \<open>What holds outside the nodes of a symbol set when the assignments change inside it only.\<close>

lemma target_nodes_miss:
  assumes "covers f m syms" and "map_find m n = Some v" and "n \<notin> set (target_nodes syms S)"
    and "x \<in> set (symbols_of (f v))"
  shows "sv_key x \<notin> sv_key ` set S"
proof
  assume "sv_key x \<in> sv_key ` set S"
  then obtain y where "y \<in> set S" "sv_key y = sv_key x" by auto
  moreover have "n \<in> set (symbol_nodes syms (sv_key x))" using assms(1,2,4) unfolding covers_def by blast
  ultimately show False using assms(3) target_nodes_set [of syms S] by auto
qed

lemma target_nodes_mapped: "covers f m syms \<Longrightarrow> set (target_nodes syms S) \<subseteq> set (map fst m)"
  using target_nodes_set [of syms S] map_find_domain [of m] unfolding covers_def by blast

lemma target_nodes_distinct: "distinct (target_nodes syms S)"
  using target_nodes_set sorted_nodes_distinct by blast

context z3_reading
begin

lemma under_local:
  "(\<And>x. x \<in> set (symbols_of e) \<Longrightarrow> cp_find s x = cp_find s' x) \<Longrightarrow> z3_under B s e = z3_under B s' e"
  unfolding z3_under_def using local_substitution [of e s s'] by simp

lemma reachability_incremental:
  assumes "annotations_ok m" and "\<And>x. sv_key x \<notin> sv_key ` set S \<Longrightarrow> cp_find s x = cp_find s' x"
  shows "recompute_targets (z3_reachability B R s') (target_nodes (na_reachabilitySymbolMap m) S)
      (decided_reachability B R m s) =
    Some (Some (decided_reachability B R m s' \<noteq> decided_reachability B R m s), decided_reachability B R m s')"
proof -
  have cov: "covers re_cond (na_reachabilityMap m) (na_reachabilitySymbolMap m)"
    using assms(1) by (simp add: annotations_ok_def)
  show ?thesis
    unfolding decided_reachability_def [of B R m s]
    by (rule z3_reach_decides [OF assms(1) target_nodes_distinct target_nodes_mapped [OF cov]])
      (intro arg_cong [of _ _ "z3_bool R"] under_local assms(2) target_nodes_miss [OF cov])
qed

lemma substitution_incremental:
  assumes "annotations_ok m" and "\<And>x. sv_key x \<notin> sv_key ` set S \<Longrightarrow> cp_find s x = cp_find s' x"
  shows "recompute_targets (z3_substitution B R Ty s') (target_nodes (na_expressionSymbolMap m) S)
      (decided_substitution B R Ty m s) =
    Some (Some (decided_substitution B R Ty m s' \<noteq> decided_substitution B R Ty m s), decided_substitution B R Ty m s')"
proof -
  have cov: "covers se_originalExpression (na_substitutionMap m) (na_expressionSymbolMap m)"
    using assms(1) by (simp add: annotations_ok_def)
  show ?thesis
    unfolding decided_substitution_def [of B R Ty m s]
    by (rule z3_subst_decides [OF assms(1) target_nodes_distinct target_nodes_mapped [OF cov]])
      (intro arg_cong [of _ _ "z3_literal R (Ty _)"] under_local assms(2) target_nodes_miss [OF cov])
qed

end

text \<open>
  Claim C32. Incremental recomputation with the solver refines its specification: in the map that has
  the solver's verdict for every node, recomputing the nodes of a symbol set for new assignments that
  differ on these symbols only gives the map that has the verdict under the new assignments for every
  node, for reachability and for constants, and the report says whether that is another map. The
  recomputation always ends and never fails.
\<close>

theorem z3_incremental_refines:
  assumes "z3_reading B zeval R" and "annotations_ok m"
    and "\<And>x. sv_key x \<notin> sv_key ` set S \<Longrightarrow>
      cp_find (totalZ3Assignments B P c cs) x = cp_find (totalZ3Assignments B P c' cs') x"
  shows "z3_recomputeReachability_symbols B R P c' S cs' (decided_reachability B R m (totalZ3Assignments B P c cs)) =
      (let M' = decided_reachability B R m (totalZ3Assignments B P c' cs') in
       Some (Some (M' \<noteq> decided_reachability B R m (totalZ3Assignments B P c cs)), M')) \<and>
    z3_recomputeSubstitution_symbols B R T P c' S cs' (decided_substitution B R T m (totalZ3Assignments B P c cs)) =
      (let M' = decided_substitution B R T m (totalZ3Assignments B P c' cs') in
       Some (Some (M' \<noteq> decided_substitution B R T m (totalZ3Assignments B P c cs)), M'))"
  using z3_reading.reachability_incremental [OF assms(1) assms(2) assms(3)]
    z3_reading.substitution_incremental [OF assms(1) assms(2) assms(3)]
  by (simp add: z3_recomputeReachability_symbols_def z3_recomputeReachability_nodes_def
      z3_recomputeSubstitution_symbols_def z3_recomputeSubstitution_nodes_def Let_def
      decided_reachability_def decided_substitution_def with_simps)

text \<open>A node that is reachable when a parser value set is configured, before and after the set is known.\<close>

definition example_annotations :: NodeAnnotationMap where
  "example_annotations =
     snd (initializeReachabilityMapping (Node 3 0)
       (mk_LAnd (BoolLiteral True) (SymbolicVariable (getParserValueSetConfigured ''v'')))
       empty_annotations)"

lemma example_annotated: "annotated example_annotations"
  unfolding example_annotations_def by (intro annotated.intros)

lemma example_annotations_ok: "annotations_ok example_annotations"
  by (rule annotated_ok [OF example_annotated])

lemma example_annotations_simps:
  "na_reachabilityMap example_annotations =
     [(Node 3 0, mk_ReachabilityExpression
        (mk_LAnd (BoolLiteral True) (SymbolicVariable (getParserValueSetConfigured ''v''))))]"
  "na_substitutionMap example_annotations = []"
  by (simp_all add: example_annotations_def initializeReachabilityMapping_def Let_def
      empty_annotations_def map_insert_def)

lemma example_total:
  "totalZ3Assignments ir_backend P c [(''v'', ParserValueSetItem ''v'')] =
     [(getParserValueSetConfigured ''v'', BoolLiteral False)]"
  by (simp add: totalZ3Assignments_def item_z3_assignments_def z3_merge_def z3_add_def om_emplace_def
      z3_set_def ir_backend_def simplify_def)

lemma example_verdict:
  "isNodeReachable (decided_reachability ir_backend ir_reader example_annotations
     [(getParserValueSetConfigured ''v'', BoolLiteral False)]) (Node 3 0) = Some False"
  by (simp add: isNodeReachable_def decided_reachability_def with_simps example_annotations_simps
      mk_ReachabilityExpression_def z3_under_def z3_substitute_set_def z3_set_def ir_backend_def ir_lookup_def
      ir_reader_def boolean_verdict_def simplify_def mk_LAnd_def)

theorem z3_incremental_refines_witness:
  "\<exists>M'. z3_recomputeReachability_symbols ir_backend ir_reader example_symbols Map.empty
       [getParserValueSetConfigured ''v''] [(''v'', ParserValueSetItem ''v'')]
       (decided_reachability ir_backend ir_reader example_annotations []) = Some (Some True, M') \<and>
     isNodeReachable M' (Node 3 0) = Some False"
proof -
  let ?x = "getParserValueSetConfigured ''v''"
  let ?M = "decided_reachability ir_backend ir_reader example_annotations []"
  let ?M' = "decided_reachability ir_backend ir_reader example_annotations [(?x, BoolLiteral False)]"
  have empty: "totalZ3Assignments ir_backend example_symbols Map.empty [] = []"
    by (simp add: totalZ3Assignments_def)
  have differ: "isNodeReachable ?M (Node 3 0) = None"
    by (simp add: isNodeReachable_def decided_reachability_def with_simps example_annotations_simps
        mk_ReachabilityExpression_def z3_under_def z3_substitute_set_def z3_set_def ir_backend_def ir_lookup_def
        ir_reader_def boolean_verdict_def simplify_def mk_LAnd_def)
  have "z3_recomputeReachability_symbols ir_backend ir_reader example_symbols Map.empty [?x]
      [(''v'', ParserValueSetItem ''v'')] ?M = Some (Some (?M' \<noteq> ?M), ?M')"
    using z3_incremental_refines [OF ir_reading.z3_reading_axioms example_annotations_ok,
        of "[?x]" example_symbols Map.empty "[]" Map.empty "[(''v'', ParserValueSetItem ''v'')]"]
    by (simp add: Let_def empty example_total split: if_splits)
  moreover have "?M' \<noteq> ?M" using differ example_verdict by auto
  ultimately show ?thesis using example_verdict by auto
qed

lemma found_mapped: "map_find m k = Some v \<Longrightarrow> k \<in> set (map fst m)"
  using map_find_domain [of m k] by simp

lemma z3_reach_initial:
  assumes "annotations_ok m"
  shows "z3_recomputeReachability B R P c cs (mk_Z3SolverReachabilityMap B m) =
    Some (Some (decided_reachability B R m (totalZ3Assignments B P c cs) \<noteq> mk_Z3SolverReachabilityMap B m),
      decided_reachability B R m (totalZ3Assignments B P c cs))"
  unfolding z3_recomputeReachability_def mk_reachability_with with_simps
  by (rule z3_reach_decides [OF assms map_sorted_distinct [OF annotations_sorted(1) [OF assms]] subset_refl])
    (drule found_mapped, simp)

lemma z3_subst_initial:
  assumes "annotations_ok m"
  shows "z3_recomputeSubstitution B R T P c cs (mk_Z3SolverSubstitutionMap B m) =
    Some (Some (decided_substitution B R T m (totalZ3Assignments B P c cs) \<noteq> mk_Z3SolverSubstitutionMap B m),
      decided_substitution B R T m (totalZ3Assignments B P c cs))"
  unfolding z3_recomputeSubstitution_def mk_substitution_with with_simps
  by (rule z3_subst_decides [OF assms map_sorted_distinct [OF annotations_sorted(2) [OF assms]] subset_refl])
    (drule found_mapped, simp)

text \<open>A verdict agrees with every value the condition or expression has in a solving environment.\<close>

lemma under_value:
  assumes "z3_reading B zeval R" and "z3_solves zeval env s" and "distinct_keys sv_key s" and "eval env e = Some v"
  shows "zeval env (z3_under B s e) = Some v"
  unfolding z3_under_def by (rule z3_reading.substituted_value [OF assms])

lemma decided_reachability_right:
  assumes "z3_reading B zeval R" and "z3_solves zeval env s" and "distinct_keys sv_key s"
    and "map_find (na_reachabilityMap m) n = Some r" and "isNodeReachable (decided_reachability B R m s) n = Some b"
    and "eval env (re_cond r) = Some v"
  shows "v = VBool b"
  using z3_reading.read_bool [OF assms(1) _ under_value [OF assms(1-3,6)]] assms(4,5)
  by (simp add: isNodeReachable_def decided_reachability_def with_simps)

lemma decided_substitution_right:
  assumes "z3_reading B zeval R" and "z3_solves zeval env s" and "distinct_keys sv_key s"
    and "map_find (na_substitutionMap m) n = Some e"
    and "isExpressionConstant (decided_substitution B R T m s) n = Some l"
    and "eval env (se_originalExpression e) = Some v" and "val_type v = T n"
  shows "(\<exists>b. l = BoolLiteral b \<and> v = VBool b) \<or> (\<exists>k. l = Constant (T n) k \<and> const_val (T n) k = Some v)"
  using z3_reading.read_bool [OF assms(1) _ under_value [OF assms(1-3,6)]]
    z3_reading.read_numeral [OF assms(1) _ under_value [OF assms(1-3,6)]] assms(4,5,7)
  by (auto simp: isExpressionConstant_def decided_substitution_def with_simps z3_literal_def
      split: option.splits if_splits)

text \<open>
  Claim C33. The solver's verdicts are right: building both maps from the annotations and computing
  them for a configuration ends and gives every node its verdict. In every environment that gives the
  assigned variables their assigned values, a node that counts as always (never) reachable has a
  condition that is true (false) wherever it has a value, and an expression replaced by a literal has
  the literal's value, if its value has the type the program gives it.
\<close>

theorem z3_verdicts_sound:
  assumes "z3_reading B zeval R" and "annotations_ok m" and "z3_solves zeval env (totalZ3Assignments B P c cs)"
  shows "\<exists>ch M ch' S.
    z3_recomputeReachability B R P c cs (mk_Z3SolverReachabilityMap B m) = Some (Some ch, M) \<and>
    z3_recomputeSubstitution B R T P c cs (mk_Z3SolverSubstitutionMap B m) = Some (Some ch', S) \<and>
    (\<forall>n r b v. map_find (na_reachabilityMap m) n = Some r \<and> isNodeReachable M n = Some b \<and>
       eval env (re_cond r) = Some v \<longrightarrow> v = VBool b) \<and>
    (\<forall>n e l v. map_find (na_substitutionMap m) n = Some e \<and> isExpressionConstant S n = Some l \<and>
       eval env (se_originalExpression e) = Some v \<and> val_type v = T n \<longrightarrow> eval env l = Some v)"
proof -
  let ?s = "totalZ3Assignments B P c cs"
  let ?M = "decided_reachability B R m ?s" and ?S = "decided_substitution B R T m ?s"
  have ok: "annotations_ok m" using assms(2) .
  note z3_reach_initial [OF ok, of B R P c cs]
  moreover note z3_subst_initial [OF ok, of B R T P c cs]
  moreover have "v = VBool b"
    if n: "map_find (na_reachabilityMap m) n = Some r" and b: "isNodeReachable ?M n = Some b"
      and v: "eval env (re_cond r) = Some v" for n r b v
    using decided_reachability_right [OF assms(1,3) totalZ3_distinct n b v] .
  moreover have "eval env l = Some v"
    if n: "map_find (na_substitutionMap m) n = Some e" and l: "isExpressionConstant ?S n = Some l"
      and v: "eval env (se_originalExpression e) = Some v" "val_type v = T n" for n e l v
    using decided_substitution_right [OF assms(1,3) totalZ3_distinct n l v] by auto
  ultimately show ?thesis by blast
qed

theorem z3_verdicts_sound_witness:
  "\<exists>ch M. z3_recomputeReachability ir_backend ir_reader example_symbols Map.empty
       [(''v'', ParserValueSetItem ''v'')] (mk_Z3SolverReachabilityMap ir_backend example_annotations) = Some (Some ch, M) \<and>
     (\<forall>b. isNodeReachable M (Node 3 0) = Some b \<longrightarrow> b = False)"
proof -
  let ?x = "getParserValueSetConfigured ''v''" and ?env = "\<lambda>k. VBool False"
  have "z3_solves eval ?env (totalZ3Assignments ir_backend example_symbols Map.empty [(''v'', ParserValueSetItem ''v'')])"
    by (simp add: z3_solves_def example_total)
  from z3_verdicts_sound [OF ir_reading.z3_reading_axioms example_annotations_ok this, of undefined]
  obtain ch M where M: "z3_recomputeReachability ir_backend ir_reader example_symbols Map.empty
       [(''v'', ParserValueSetItem ''v'')] (mk_Z3SolverReachabilityMap ir_backend example_annotations) = Some (Some ch, M)"
    and sound: "\<And>n r b v. map_find (na_reachabilityMap example_annotations) n = Some r \<Longrightarrow>
      isNodeReachable M n = Some b \<Longrightarrow> eval ?env (re_cond r) = Some v \<Longrightarrow> v = VBool b"
    by metis
  have "eval ?env (mk_LAnd (BoolLiteral True) (SymbolicVariable ?x)) = Some (VBool False)"
    by (simp add: mk_LAnd_def eval_LAnd_Some typed_def getParserValueSetConfigured_def)
  then have "b = False" if "isNodeReachable M (Node 3 0) = Some b" for b
    using sound [OF _ that, of _ "VBool False"]
    by (simp add: example_annotations_simps mk_ReachabilityExpression_def)
  with M show ?thesis by blast
qed

end
