(* ===== verification/Statements.thy ===== *)
theory Statements
  imports SpecializationMaps
begin

text \<open>
  The part of a P4 program the specialization passes rewrite: expressions with the nodes the maps
  know, statements, and what a path of the program refers to. These are classes of the compiler;
  the constructors are those the passes of \<open>specialization/passes/\<close> distinguish.

  The second half is the meaning of programs the passes are compared against. What the passes do not
  look at is a parameter: reading a path, selecting a member, other operations, calls of functions
  and externs, and which action a table picks. Executions are observed by a monitor that stops an
  execution as soon as a node shows a value that a verdict on it excludes; so \<open>the monitored execution
  ends\<close> says that all verdicts are right along this execution, and nothing about other executions.
\<close>

section \<open>Programs\<close>

datatype direction = No_Direction | In | Out | InOut

text \<open>
  Operators with the types of their results; an index into a header stack is a binary operator, and
  the saturating operators are named by the operator they saturate.
\<close>

datatype operator =
    Op_Unary ty unop
  | Op_Binary ty binop
  | Op_Saturating ty binop
  | Op_Slice ty nat nat
  | Op_Mux ty
  | Op_List
  | Op_Struct "string list"

text \<open>
  \<open>PCall\<close> is a call with the directions of the parameters of its type, which are absent when the
  called expression has neither a method nor an action type.
\<close>

datatype pexp =
    PLit expr
  | PPath node ty string
  | PMember node ty pexp string
  | PLNot pexp
  | PCall node pexp "direction list option" "pexp list"
  | POp operator "pexp list"

text \<open>A case without label is the default case; a case without statement falls through.\<close>

datatype stmt =
    SEmpty
  | SAssign pexp pexp
  | SDecl string "pexp option"
  | SIf node pexp stmt "stmt option"
  | SSwitch node pexp "switch_case list"
  | SCall node pexp
  | SBlock "stmt list"
  | SOther string
and switch_case = SwitchCase (sc_node: node) (sc_label: "pexp option") (sc_statement: "stmt list option")

text \<open>A table as the passes see it: what \<open>TableUtils\<close> says about it and its default action.\<close>

record table_decl =
  td_isImmutable :: bool
  td_actions :: "(node \<times> string) list"
  td_defaultAction :: "pexp option"

datatype decl = TableDecl table_decl | ActionDecl "stmt list" | OtherDecl

lemma case_statement_size:
  assumes "c \<in> set cs" and "sc_statement c = Some ss" and "x \<in> set ss"
  shows "size x < size_list size cs"
proof -
  have "size x < size_list size ss" using assms(3) by (induction ss) auto
  also have "\<dots> < size c" using assms(2) by (cases c) auto
  also have "size c < size_list size cs" using assms(1) by (induction cs) auto
  finally show ?thesis .
qed

lemma block_statement_size: "x \<in> set ss \<Longrightarrow> size x < Suc (size_list size ss)"
  by (induction ss) auto

type_synonym ReferenceMap = "string \<Rightarrow> decl option"

fun to_string :: "pexp \<Rightarrow> string" where
  "to_string (PPath n t x) = x"
| "to_string (PMember n t e m) = to_string e @ ''.'' @ m"
| "to_string _ = []"

section \<open>Meaning\<close>

record 's p4_language =
  l_refMap :: ReferenceMap
  l_path :: "string \<Rightarrow> 's \<Rightarrow> val option"
  l_member :: "string \<Rightarrow> val \<Rightarrow> val option"
  l_op :: "operator \<Rightarrow> val list \<Rightarrow> val option"
  l_call :: "pexp \<Rightarrow> pexp list \<Rightarrow> val list \<Rightarrow> 's \<Rightarrow> (val \<times> 's) option"
  l_action :: "string \<Rightarrow> pexp list \<Rightarrow> val list \<Rightarrow> 's \<Rightarrow> 's option"
  l_pick :: "string \<Rightarrow> 's \<Rightarrow> (string \<times> val list \<times> bool) option"
  l_label :: "pexp \<Rightarrow> val"
  l_assign :: "pexp \<Rightarrow> val \<Rightarrow> 's \<Rightarrow> 's option"
  l_declare :: "string \<Rightarrow> val option \<Rightarrow> 's \<Rightarrow> 's"
  l_other :: "string \<Rightarrow> 's \<Rightarrow> ('s \<times> bool) option"

record monitor =
  m_value :: "node \<Rightarrow> val \<Rightarrow> bool"
  m_cond :: "node \<Rightarrow> bool \<Rightarrow> bool"

definition no_monitor :: monitor where
  "no_monitor = \<lparr>m_value = (\<lambda>n v. True), m_cond = (\<lambda>n b. True)\<rparr>"

definition literal_value :: "expr \<Rightarrow> val option" where
  "literal_value e =
     (case e of BoolLiteral b \<Rightarrow> Some (VBool b) | Constant t n \<Rightarrow> const_val t n | StringLiteral s \<Rightarrow> Some (VStr s)
      | _ \<Rightarrow> None)"

text \<open>The table that a called expression applies.\<close>

definition applied_table :: "ReferenceMap \<Rightarrow> pexp \<Rightarrow> (string \<times> table_decl) option" where
  "applied_table refMap m =
     (case m of
        PMember n t (PPath n' t' x) f \<Rightarrow>
          if f = ''apply''
          then (case refMap x of Some (TableDecl td) \<Rightarrow> Some (x, td) | _ \<Rightarrow> None) else None
      | _ \<Rightarrow> None)"

text \<open>An action with an empty body does nothing.\<close>

definition run_action :: "'s p4_language \<Rightarrow> string \<Rightarrow> pexp list \<Rightarrow> val list \<Rightarrow> 's \<Rightarrow> 's option" where
  "run_action L a outs vs s = (if l_refMap L a = Some (ActionDecl []) then Some s else l_action L a outs vs s)"

definition apply_result :: "string \<Rightarrow> bool \<Rightarrow> val" where
  "apply_result a hit = VStruct [''hit'', ''miss'', ''action_run''] [VBool hit, VBool (\<not> hit), VStr a]"

definition run_call :: "'s p4_language \<Rightarrow> pexp \<Rightarrow> pexp list \<Rightarrow> val list \<Rightarrow> 's \<Rightarrow> (val \<times> 's) option" where
  "run_call L m outs vs s =
     (case m of
        PPath n t a \<Rightarrow>
          (case l_refMap L a of
             Some (ActionDecl b) \<Rightarrow> map_option (\<lambda>s'. (VTuple [], s')) (run_action L a outs vs s)
           | _ \<Rightarrow> l_call L m outs vs s)
      | _ \<Rightarrow> l_call L m outs vs s)"

definition run_table :: "'s p4_language \<Rightarrow> monitor \<Rightarrow> string \<Rightarrow> table_decl \<Rightarrow> 's \<Rightarrow> (val \<times> 's) option" where
  "run_table L M t td s =
     (case l_pick L t s of
        None \<Rightarrow> None
      | Some (a, vs, hit) \<Rightarrow>
          if \<forall>(n, name) \<in> set (td_actions td). m_cond M n (name = a)
          then map_option (\<lambda>s'. (apply_result a hit, s')) (run_action L a [] vs s) else None)"

text \<open>
  Arguments are evaluated in order, except those the callee writes, which it gets as they are.
\<close>

fun peval :: "'s p4_language \<Rightarrow> monitor \<Rightarrow> pexp \<Rightarrow> 's \<Rightarrow> (val \<times> 's) option"
  and pevals :: "'s p4_language \<Rightarrow> monitor \<Rightarrow> pexp list \<Rightarrow> 's \<Rightarrow> (val list \<times> 's) option"
  and peval_args :: "'s p4_language \<Rightarrow> monitor \<Rightarrow> direction list \<Rightarrow> pexp list \<Rightarrow> 's \<Rightarrow>
    (pexp list \<times> val list \<times> 's) option" where
  "peval L M (PLit l) s = map_option (\<lambda>v. (v, s)) (literal_value l)"
| "peval L M (PPath n t x) s =
     (case l_path L x s of None \<Rightarrow> None | Some v \<Rightarrow> if m_value M n v then Some (v, s) else None)"
| "peval L M (PMember n t e m) s =
     (case peval L M e s of
        None \<Rightarrow> None
      | Some (w, s') \<Rightarrow>
          (case l_member L m w of None \<Rightarrow> None | Some v \<Rightarrow> if m_value M n v then Some (v, s') else None))"
| "peval L M (PLNot e) s =
     (case peval L M e s of Some (VBool b, s') \<Rightarrow> Some (VBool (\<not> b), s') | _ \<Rightarrow> None)"
| "peval L M (POp f es) s =
     (case pevals L M es s of
        None \<Rightarrow> None | Some (vs, s') \<Rightarrow> map_option (\<lambda>v. (v, s')) (l_op L f vs))"
| "peval L M (PCall n m ds args) s =
     (case applied_table (l_refMap L) m of
        Some (t, td) \<Rightarrow> run_table L M t td s
      | None \<Rightarrow>
          (case ds of
             None \<Rightarrow> None
           | Some ds' \<Rightarrow>
               if length args > length ds' then None
               else (case peval_args L M ds' args s of
                       None \<Rightarrow> None | Some (outs, vs, s') \<Rightarrow> run_call L m outs vs s')))"
| "pevals L M [] s = Some ([], s)"
| "pevals L M (e # es) s =
     (case peval L M e s of
        None \<Rightarrow> None
      | Some (v, s') \<Rightarrow> (case pevals L M es s' of None \<Rightarrow> None | Some (vs, s'') \<Rightarrow> Some (v # vs, s'')))"
| "peval_args L M ds [] s = Some ([], [], s)"
| "peval_args L M [] (e # es) s = None"
| "peval_args L M (d # ds) (e # es) s =
     (if d = Out \<or> d = InOut
      then map_option (\<lambda>(outs, vs, s'). (e # outs, vs, s')) (peval_args L M ds es s)
      else (case peval L M e s of
              None \<Rightarrow> None
            | Some (v, s') \<Rightarrow>
                map_option (\<lambda>(outs, vs, s''). (outs, v # vs, s'')) (peval_args L M ds es s')))"

text \<open>
  A switch takes the first case whose label is its value, or the default, and runs the first
  statement from there on.
\<close>

fun first_statement :: "switch_case list \<Rightarrow> stmt list" where
  "first_statement [] = []"
| "first_statement (c # cs) = (case sc_statement c of Some ss \<Rightarrow> ss | None \<Rightarrow> first_statement cs)"

definition case_matches :: "'s p4_language \<Rightarrow> val \<Rightarrow> switch_case \<Rightarrow> bool" where
  "case_matches L v c \<longleftrightarrow> (case sc_label c of None \<Rightarrow> True | Some l \<Rightarrow> l_label L l = v)"

definition chosen_statement :: "'s p4_language \<Rightarrow> val \<Rightarrow> switch_case list \<Rightarrow> stmt list" where
  "chosen_statement L v cs = first_statement (dropWhile (\<lambda>c. \<not> case_matches L v c) cs)"

definition cases_ok :: "'s p4_language \<Rightarrow> monitor \<Rightarrow> val \<Rightarrow> switch_case list \<Rightarrow> bool" where
  "cases_ok L M v cs \<longleftrightarrow> (\<forall>c \<in> set cs. sc_label c \<noteq> None \<longrightarrow> m_cond M (sc_node c) (case_matches L v c))"

lemma first_statement_size: "size_list size (first_statement cs) \<le> size_list size cs"
proof (induction cs)
  case (Cons c cs)
  have "size_list size y < size c" if "sc_statement c = Some y" for y using that by (cases c) auto
  with Cons show ?case by (fastforce split: option.splits)
qed simp

lemma size_list_dropWhile: "size_list size (dropWhile P cs) \<le> size_list size cs"
  by (induction cs) auto

lemma chosen_statement_size: "size_list size (chosen_statement L v cs) \<le> size_list size cs"
  using first_statement_size [of "dropWhile (\<lambda>c. \<not> case_matches L v c) cs"]
    size_list_dropWhile [of "\<lambda>c. \<not> case_matches L v c" cs]
  by (simp add: chosen_statement_def)

text \<open>An execution ends in a state and says whether a statement has left the enclosing block.\<close>

function (sequential) exec :: "'s p4_language \<Rightarrow> monitor \<Rightarrow> stmt \<Rightarrow> 's \<Rightarrow> ('s \<times> bool) option"
  and exec_list :: "'s p4_language \<Rightarrow> monitor \<Rightarrow> stmt list \<Rightarrow> 's \<Rightarrow> ('s \<times> bool) option" where
  "exec L M SEmpty s = Some (s, False)"
| "exec L M (SAssign l r) s =
     (case peval L M r s of
        None \<Rightarrow> None | Some (v, s') \<Rightarrow> map_option (\<lambda>s''. (s'', False)) (l_assign L l v s'))"
| "exec L M (SDecl x i) s =
     (case i of
        None \<Rightarrow> Some (l_declare L x None s, False)
      | Some e \<Rightarrow> (case peval L M e s of
                    None \<Rightarrow> None | Some (v, s') \<Rightarrow> Some (l_declare L x (Some v) s', False)))"
| "exec L M (SIf n c t f) s =
     (case peval L M c s of
        Some (VBool b, s') \<Rightarrow>
          if m_cond M n b
          then (if b then exec L M t s' else (case f of None \<Rightarrow> Some (s', False) | Some f' \<Rightarrow> exec L M f' s'))
          else None
      | _ \<Rightarrow> None)"
| "exec L M (SSwitch n e cs) s =
     (case peval L M e s of
        None \<Rightarrow> None
      | Some (v, s') \<Rightarrow> if cases_ok L M v cs then exec_list L M (chosen_statement L v cs) s' else None)"
| "exec L M (SCall n e) s =
     (case peval L M e s of None \<Rightarrow> None | Some (v, s') \<Rightarrow> Some (s', False))"
| "exec L M (SBlock ss) s = exec_list L M ss s"
| "exec L M (SOther x) s = l_other L x s"
| "exec_list L M [] s = Some (s, False)"
| "exec_list L M (x # xs) s =
     (case exec L M x s of
        None \<Rightarrow> None
      | Some (s', stopped) \<Rightarrow> if stopped then Some (s', True) else exec_list L M xs s')"
  by pat_completeness auto
termination
  by (relation "measure (case_sum (\<lambda>(L, M, x, s). size x) (\<lambda>(L, M, xs, s). size_list size xs))")
    (auto simp: less_Suc_eq_le chosen_statement_size)

text \<open>The statements of a program: an execution takes place as far as the language defines it.\<close>

abbreviation run :: "'s p4_language \<Rightarrow> stmt \<Rightarrow> 's \<Rightarrow> ('s \<times> bool) option" where
  "run L \<equiv> exec L no_monitor"

section \<open>Monitors only stop executions\<close>

definition weaker :: "monitor \<Rightarrow> monitor \<Rightarrow> bool" where
  "weaker M M' \<longleftrightarrow> (\<forall>n v. m_value M n v \<longrightarrow> m_value M' n v) \<and> (\<forall>n b. m_cond M n b \<longrightarrow> m_cond M' n b)"

lemma weaker_no_monitor [simp]: "weaker M no_monitor"
  by (simp add: weaker_def no_monitor_def)

lemma run_table_weaker:
  "weaker M M' \<Longrightarrow> run_table L M t td s = Some r \<Longrightarrow> run_table L M' t td s = Some r"
  by (fastforce simp: run_table_def weaker_def split: option.splits prod.splits if_splits)

lemma peval_weaker:
  "weaker M M' \<Longrightarrow> peval L M e s = Some r \<Longrightarrow> peval L M' e s = Some r"
  "weaker M M' \<Longrightarrow> pevals L M es s = Some rs \<Longrightarrow> pevals L M' es s = Some rs"
  "weaker M M' \<Longrightarrow> peval_args L M ds es s = Some ra \<Longrightarrow> peval_args L M' ds es s = Some ra"
proof (induction L M e s and L M es s and L M ds es s arbitrary: r and rs and ra
    rule: peval_pevals_peval_args.induct)
  case (6 L M n m ds args s)
  show ?case
  proof (cases "applied_table (l_refMap L) m")
    case (Some ttd)
    obtain t td where ttd: "ttd = (t, td)" by (cases ttd)
    with 6(3) Some have "run_table L M t td s = Some r" by simp
    from run_table_weaker [OF 6(2) this] Some ttd show ?thesis by simp
  next
    case None
    with 6(3) obtain ds' a where ds: "ds = Some ds'" "\<not> length ds' < length args"
      "peval_args L M ds' args s = Some a" "(case a of (outs, vs, s') \<Rightarrow> run_call L m outs vs s') = Some r"
      by (auto split: option.splits if_splits)
    from 6(1) [OF None ds(1,2) 6(2) ds(3)] ds None show ?thesis by (cases a) auto
  qed
next
  case (8 L M e es s)
  from 8(4) obtain v s' vs s'' where e: "peval L M e s = Some (v, s')" "pevals L M es s' = Some (vs, s'')"
    "rs = (v # vs, s'')" by (auto split: option.splits)
  from 8(1) [OF 8(3) e(1)] 8(2) [OF e(1) refl 8(3) e(2)] e(3) show ?case by simp
next
  case (11 L M d ds e es s)
  show ?case
  proof (cases "d = Out \<or> d = InOut")
    case True
    with 11(5) obtain a where a: "peval_args L M ds es s = Some a" by auto
    from 11(1) [OF True 11(4) a] a True 11(5) show ?thesis by auto
  next
    case False
    with 11(5) obtain v s' where e: "peval L M e s = Some (v, s')" by (auto split: option.splits)
    with False 11(5) obtain a where a: "peval_args L M ds es s' = Some a" by auto
    from 11(2) [OF False 11(4) e] 11(3) [OF False e refl 11(4) a] a e False 11(5) show ?thesis by auto
  qed
next
  case (2 L M n t x s)
  then show ?case by (auto simp: weaker_def split: option.splits if_splits)
next
  case (3 L M n t e m s)
  from 3(3) obtain w s' where e: "peval L M e s = Some (w, s')" by (auto split: option.splits)
  from 3(1) [OF 3(2) e] e 3(2,3) show ?case by (auto simp: weaker_def split: option.splits if_splits)
next
  case (4 L M e s)
  from 4(3) obtain w s' where e: "peval L M e s = Some (w, s')" by (auto split: option.splits)
  from 4(1) [OF 4(2) e] e 4(3) show ?case by simp
next
  case (5 L M f es s)
  from 5(3) obtain vs s' where e: "pevals L M es s = Some (vs, s')" by (auto split: option.splits)
  from 5(1) [OF 5(2) e] e 5(3) show ?case by simp
qed simp_all

lemma cases_ok_weaker: "weaker M M' \<Longrightarrow> cases_ok L M v cs \<Longrightarrow> cases_ok L M' v cs"
  by (auto simp: cases_ok_def weaker_def)

lemma exec_weaker:
  "weaker M M' \<Longrightarrow> exec L M x s = Some r \<Longrightarrow> exec L M' x s = Some r"
  "weaker M M' \<Longrightarrow> exec_list L M xs s = Some r \<Longrightarrow> exec_list L M' xs s = Some r"
proof (induction L M x s and L M xs s arbitrary: r and r rule: exec_exec_list.induct)
  case (4 L M n c t f s)
  from 4(4) obtain b s' where c: "peval L M c s = Some (VBool b, s')" "m_cond M n b"
    by (auto split: option.splits prod.splits val.splits if_splits)
  have c': "peval L M' c s = Some (VBool b, s')" "m_cond M' n b"
    using peval_weaker(1) [OF 4(3) c(1)] 4(3) c(2) by (auto simp: weaker_def)
  show ?case
  proof (cases b)
    case True
    with 4(4) c have "exec L M t s' = Some r" by simp
    with 4(1) [OF c(1) _ refl c(2) True 4(3)] c' True show ?thesis by simp
  next
    case False
    show ?thesis
    proof (cases f)
      case None
      with 4(4) c c' False show ?thesis by simp
    next
      case (Some f')
      with 4(4) c False have "exec L M f' s' = Some r" by simp
      with 4(2) [OF c(1) _ refl c(2) False Some 4(3)] c' False Some show ?thesis by simp
    qed
  qed
next
  case (5 L M n e cs s)
  from 5(3) obtain v s' where e: "peval L M e s = Some (v, s')" "cases_ok L M v cs"
    "exec_list L M (chosen_statement L v cs) s' = Some r"
    by (auto split: option.splits prod.splits if_splits)
  from 5(1) [OF e(1) refl e(2) 5(2) e(3)] peval_weaker(1) [OF 5(2) e(1)] cases_ok_weaker [OF 5(2) e(2)]
  show ?case by simp
next
  case (10 L M x xs s)
  from 10(4) obtain s' stopped where x: "exec L M x s = Some (s', stopped)"
    "(if stopped then Some (s', True) else exec_list L M xs s') = Some r"
    by (auto split: option.splits prod.splits)
  from 10(1) [OF 10(3) x(1)] 10(2) [OF x(1) refl _ 10(3)] x(2) show ?case by (auto split: if_splits)
qed (auto dest: peval_weaker(1) split: option.splits prod.splits)

end
