(* ===== verification/ElimDeadCode.thy ===== *)
theory ElimDeadCode
  imports Statements
begin

text \<open>
  \<open>specialization/passes/elim_dead_code.cpp\<close>: removing what the reachability map says is never
  executed, and what is decided by what is always executed. The map is a function \<open>reach\<close> from nodes
  to verdicts (\<open>isNodeReachable\<close>). The list of eliminated nodes, which only feeds the statistics, is
  left out.

  A null statement, which the pass can return for a default case without statement, is the empty
  statement.
\<close>

section \<open>The handlers\<close>

type_synonym reachability = "node \<Rightarrow> bool option"

text \<open>Statements inside of a declaration instance are left alone (\<open>inInstance\<close>).\<close>

definition elim_if ::
  "reachability \<Rightarrow> bool \<Rightarrow> node \<Rightarrow> pexp \<Rightarrow> stmt \<Rightarrow> stmt option \<Rightarrow> pexp \<times> stmt \<times> stmt option" where
  "elim_if reach inInstance n condition ifTrue ifFalse =
     (if inInstance then (condition, ifTrue, ifFalse)
      else case reach n of
        None \<Rightarrow> (condition, ifTrue, ifFalse)
      | Some reachability \<Rightarrow>
          if reachability then (condition, ifTrue, None)
          else (PLNot condition, (case ifFalse of Some f \<Rightarrow> f | None \<Rightarrow> SEmpty), None))"

definition merge_back :: "stmt list option \<Rightarrow> switch_case list \<Rightarrow> switch_case list" where
  "merge_back st cs =
     (let previous = last cs in butlast cs @ [SwitchCase (sc_node previous) (sc_label previous) st])"

fun filter_cases :: "reachability \<Rightarrow> bool \<Rightarrow> switch_case list \<Rightarrow> switch_case list \<Rightarrow> switch_case list" where
  "filter_cases reach previousFallThrough filtered [] = filtered"
| "filter_cases reach previousFallThrough filtered (c # cs) =
     (if sc_label c = None then filtered @ [c]
      else case reach (sc_node c) of
        None \<Rightarrow> filter_cases reach (sc_statement c = None) (filtered @ [c]) cs
      | Some reachability \<Rightarrow>
          if reachability
          then (if sc_statement c \<noteq> None then filtered @ [c]
                else filter_cases reach (sc_statement c = None) (filtered @ [c]) cs)
          else (let filtered' = (if previousFallThrough \<and> filtered \<noteq> [] \<and> sc_statement c \<noteq> None
                                 then merge_back (sc_statement c) filtered else filtered) in
                filter_cases reach (sc_statement c = None) filtered' cs))"

text \<open>The action that a default action call refers to.\<close>

definition getActionDecl :: "ReferenceMap \<Rightarrow> pexp \<Rightarrow> stmt list option" where
  "getActionDecl refMap e =
     (let path = (case e of PCall n m ds args \<Rightarrow> (case m of PPath n t x \<Rightarrow> Some x | _ \<Rightarrow> None)
                  | PPath n t x \<Rightarrow> Some x | _ \<Rightarrow> None) in
      assign_or_return path (\<lambda>x. case refMap x of Some (ActionDecl body) \<Rightarrow> Some body | _ \<Rightarrow> None))"

text \<open>Whether no action but the default action can be executed: every verdict on them is false.\<close>

fun only_default :: "reachability \<Rightarrow> string \<Rightarrow> (node \<times> string) list \<Rightarrow> bool" where
  "only_default reach defaultName [] = True"
| "only_default reach defaultName ((n, name) # actions) =
     (if defaultName = name then only_default reach defaultName actions
      else case reach n of
        None \<Rightarrow> False
      | Some reachability \<Rightarrow> if reachability then False else only_default reach defaultName actions)"

definition elim_call :: "ReferenceMap \<Rightarrow> reachability \<Rightarrow> node \<Rightarrow> pexp \<Rightarrow> stmt" where
  "elim_call refMap reach n e =
     (case e of
        PCall cn m ds args \<Rightarrow>
          (case applied_table refMap m of
             None \<Rightarrow> SCall n e
           | Some (t, td) \<Rightarrow>
               if td_isImmutable td then SCall n e
               else case td_defaultAction td of
                 Some (PCall dn dm dds dargs) \<Rightarrow>
                   if \<not> only_default reach (to_string dm) (td_actions td) then SCall n e
                   else (case getActionDecl refMap (PCall dn dm dds dargs) of
                           Some body \<Rightarrow> if body \<noteq> [] then SCall dn (PCall dn dm dds dargs) else SEmpty
                         | None \<Rightarrow> SEmpty)
               | _ \<Rightarrow> SCall n e)
      | _ \<Rightarrow> SCall n e)"

definition is_hit_or_miss :: "string \<Rightarrow> bool" where
  "is_hit_or_miss m \<longleftrightarrow> m = ''hit'' \<or> m = ''miss''"

fun elim_pexp :: "reachability \<Rightarrow> pexp \<Rightarrow> pexp" where
  "elim_pexp reach (PMember n t e m) =
     (if \<not> is_hit_or_miss m then PMember n t (elim_pexp reach e) m
      else case reach n of
        None \<Rightarrow> PMember n t (elim_pexp reach e) m
      | Some reachability \<Rightarrow> PLit (BoolLiteral reachability))"
| "elim_pexp reach (PLNot e) = PLNot (elim_pexp reach e)"
| "elim_pexp reach (PCall n m ds args) = PCall n (elim_pexp reach m) ds (map (elim_pexp reach) args)"
| "elim_pexp reach (POp f es) = POp f (map (elim_pexp reach) es)"
| "elim_pexp reach (PLit l) = PLit l"
| "elim_pexp reach (PPath n t x) = PPath n t x"

section \<open>The traversal\<close>

text \<open>Every handler runs before the children of what it returns are visited.\<close>

lemma merge_back_elem:
  "filtered \<noteq> [] \<Longrightarrow> c \<in> set (merge_back st filtered) \<Longrightarrow> c \<in> set filtered \<or> sc_statement c = st"
  by (auto simp: merge_back_def Let_def dest: in_set_butlastD)

lemma filter_cases_statements:
  "c \<in> set (filter_cases reach p filtered cs) \<Longrightarrow> sc_statement c = Some ss \<Longrightarrow>
   \<exists>d \<in> set filtered \<union> set cs. sc_statement d = Some ss"
proof (induction reach p filtered cs rule: filter_cases.induct)
  case (2 reach p filtered d cs)
  show ?case
  proof (cases "sc_label d = None")
    case True
    with 2(4,5) show ?thesis by auto
  next
    case label: False
    show ?thesis
    proof (cases "reach (sc_node d)")
      case None
      with 2(1) [OF label None _ 2(5)] 2(4) label show ?thesis by auto
    next
      case (Some b)
      show ?thesis
      proof (cases b)
        case True
        with 2(2) [OF label Some True _ _ 2(5)] 2(4,5) Some label show ?thesis by (auto split: if_splits)
      next
        case False
        let ?f = "if p \<and> filtered \<noteq> [] \<and> sc_statement d \<noteq> None then merge_back (sc_statement d) filtered else filtered"
        have "\<exists>e \<in> set ?f \<union> set cs. sc_statement e = Some ss"
          using 2(3) [OF label Some False refl _ 2(5)] 2(4) Some label False by (simp add: Let_def)
        then obtain e where e: "e \<in> set ?f \<or> e \<in> set cs" "sc_statement e = Some ss" by blast
        then show ?thesis using merge_back_elem [of filtered e "sc_statement d"] by (auto split: if_splits)
      qed
    qed
  qed
qed auto

lemma filtered_statement_size:
  assumes "c \<in> set (filter_cases reach p [] cs)" and "sc_statement c = Some ss" and "x \<in> set ss"
  shows "size x < size_list size cs"
  using filter_cases_statements [OF assms(1,2)] case_statement_size [OF _ _ assms(3)] by auto

lemma first_filtered_size:
  assumes "filter_cases reach p [] cs \<noteq> []" and "sc_statement (hd (filter_cases reach p [] cs)) = Some ss"
    and "x \<in> set ss"
  shows "size x < size_list size cs"
  using filtered_statement_size [OF hd_in_set [OF assms(1)] assms(2,3)] .

lemma elim_if_size:
  "(c', r) = elim_if reach inInstance n c t f \<Longrightarrow> (t', f') = r \<Longrightarrow> size t' < Suc (size_option size f + size t)"
  "(c', r) = elim_if reach inInstance n c t f \<Longrightarrow> (t', Some g) = r \<Longrightarrow> size g < Suc (size_option size f + size t)"
  by (auto simp: elim_if_def split: if_splits option.splits)

function (sequential) elim :: "ReferenceMap \<Rightarrow> reachability \<Rightarrow> bool \<Rightarrow> stmt \<Rightarrow> stmt" where
  "elim refMap reach inInstance (SAssign l r) = SAssign (elim_pexp reach l) (elim_pexp reach r)"
| "elim refMap reach inInstance (SDecl x i) = SDecl x (map_option (elim_pexp reach) i)"
| "elim refMap reach inInstance (SIf n c t f) =
     (case elim_if reach inInstance n c t f of
        (c', t', f') \<Rightarrow>
          SIf n (elim_pexp reach c') (elim refMap reach inInstance t') (map_option (elim refMap reach inInstance) f'))"
| "elim refMap reach inInstance (SSwitch n e cs) =
     (let filteredSwitchCases = filter_cases reach False [] cs in
      if filteredSwitchCases = [] then SEmpty
      else if length filteredSwitchCases = 1 \<and> sc_label (hd filteredSwitchCases) = None
      then (case sc_statement (hd filteredSwitchCases) of
              None \<Rightarrow> SEmpty | Some ss \<Rightarrow> SBlock (map (elim refMap reach inInstance) ss))
      else SSwitch n (elim_pexp reach e)
             (map (\<lambda>c. SwitchCase (sc_node c) (map_option (elim_pexp reach) (sc_label c))
                (map_option (map (elim refMap reach inInstance)) (sc_statement c))) filteredSwitchCases))"
| "elim refMap reach inInstance (SCall n e) =
     (case elim_call refMap reach n e of
        SCall n' e' \<Rightarrow> SCall n' (elim_pexp reach e') | other \<Rightarrow> other)"
| "elim refMap reach inInstance (SBlock ss) = SBlock (map (elim refMap reach inInstance) ss)"
| "elim refMap reach inInstance other = other"
  by pat_completeness auto
termination
  by (relation "measure (\<lambda>(refMap, reach, d, x). size x)")
    (auto intro: elim_if_size block_statement_size less_SucI filtered_statement_size first_filtered_size)

section \<open>When a switch may be filtered\<close>

text \<open>
  Merging a removed statement into the last kept case overwrites that case's own statement when the
  kept case has one, which happens when the case between the two was removed as well. \<open>overwrites\<close>
  follows the loop and says whether this happens.
\<close>

fun overwrites :: "reachability \<Rightarrow> bool \<Rightarrow> switch_case list \<Rightarrow> switch_case list \<Rightarrow> bool" where
  "overwrites reach p filtered [] = False"
| "overwrites reach p filtered (c # cs) =
     (if sc_label c = None then False
      else case reach (sc_node c) of
        None \<Rightarrow> overwrites reach (sc_statement c = None) (filtered @ [c]) cs
      | Some reachability \<Rightarrow>
          if reachability
          then (if sc_statement c \<noteq> None then False
                else overwrites reach (sc_statement c = None) (filtered @ [c]) cs)
          else (let merges = (p \<and> filtered \<noteq> [] \<and> sc_statement c \<noteq> None) in
                merges \<and> sc_statement (last filtered) \<noteq> None \<or>
                overwrites reach (sc_statement c = None)
                  (if merges then merge_back (sc_statement c) filtered else filtered) cs))"

text \<open>The default case comes last, as the language demands.\<close>

definition default_last :: "switch_case list \<Rightarrow> bool" where
  "default_last cs \<longleftrightarrow> (\<forall>c \<in> set (butlast cs). sc_label c \<noteq> None)"

lemma first_statement_append:
  "first_statement (xs @ ys) =
     (if \<exists>c \<in> set xs. sc_statement c \<noteq> None then first_statement xs else first_statement ys)"
  by (induction xs) (auto split: option.splits)

lemma chosen_append:
  "chosen_statement L v (xs @ ys) =
     (if \<exists>c \<in> set xs. case_matches L v c
      then first_statement (dropWhile (\<lambda>c. \<not> case_matches L v c) xs @ ys) else chosen_statement L v ys)"
  by (auto simp: chosen_statement_def dropWhile_append)

lemma chosen_Cons:
  "chosen_statement L v (c # cs) =
     (if case_matches L v c then first_statement (c # cs) else chosen_statement L v cs)"
  by (simp add: chosen_statement_def)

lemma last_dropWhile:
  "\<exists>c \<in> set xs. \<not> P c \<Longrightarrow> dropWhile P xs \<noteq> [] \<and> last (dropWhile P xs) = last xs"
  by (induction xs) auto

lemma chosen_drop_fallthrough:
  "\<not> case_matches L v d \<Longrightarrow> sc_statement d = None \<Longrightarrow>
   chosen_statement L v (xs @ d # cs) = chosen_statement L v (xs @ cs)"
  by (simp add: chosen_append chosen_Cons first_statement_append)

lemma chosen_drop_statement:
  assumes "\<not> case_matches L v d" and "xs = [] \<or> sc_statement (last xs) \<noteq> None"
  shows "chosen_statement L v (xs @ d # cs) = chosen_statement L v (xs @ cs)"
proof (cases "\<exists>c \<in> set xs. case_matches L v c")
  case True
  then have dw: "dropWhile (\<lambda>c. \<not> case_matches L v c) xs \<noteq> []"
    "last (dropWhile (\<lambda>c. \<not> case_matches L v c) xs) = last xs"
    using last_dropWhile [of xs "\<lambda>c. \<not> case_matches L v c"] by auto
  with assms(2) True have "\<exists>c \<in> set (dropWhile (\<lambda>c. \<not> case_matches L v c) xs). sc_statement c \<noteq> None"
    by (metis dropWhile.simps(1) last_in_set)
  with True show ?thesis by (simp add: chosen_append first_statement_append)
qed (use assms(1) in \<open>simp add: chosen_append chosen_Cons\<close>)

lemma chosen_merge:
  assumes "\<not> case_matches L v d" and "sc_statement d = Some ss" and "xs \<noteq> []" and "sc_statement (last xs) = None"
  shows "chosen_statement L v (xs @ d # cs) = chosen_statement L v (merge_back (Some ss) xs @ cs)"
proof -
  obtain ys l where xs: "xs = ys @ [l]" using assms(3) by (metis append_butlast_last_id)
  have l: "sc_statement l = None" using assms(4) xs by simp
  have m: "case_matches L v (SwitchCase (sc_node l) (sc_label l) (Some ss)) = case_matches L v l"
    by (simp add: case_matches_def)
  show ?thesis
    using assms(1,2) l
    by (simp add: xs merge_back_def Let_def chosen_append chosen_Cons first_statement_append m)
qed

lemma chosen_stop:
  "case_matches L v c \<Longrightarrow> sc_statement c = Some ss \<Longrightarrow>
   chosen_statement L v (xs @ c # cs) = chosen_statement L v (xs @ [c])"
  by (simp add: chosen_append chosen_Cons first_statement_append)

lemma merge_back_last:
  "xs \<noteq> [] \<Longrightarrow> merge_back st xs \<noteq> [] \<and> sc_statement (last (merge_back st xs)) = st"
  by (simp add: merge_back_def Let_def)

lemma filter_cases_chosen:
  assumes "\<forall>c \<in> set cs. sc_label c \<noteq> None \<longrightarrow> (\<forall>b. reach (sc_node c) = Some b \<longrightarrow> case_matches L v c = b)"
    and "\<not> overwrites reach p filtered cs" and "default_last cs"
    and "\<not> p \<longrightarrow> filtered = [] \<or> sc_statement (last filtered) \<noteq> None"
  shows "chosen_statement L v (filter_cases reach p filtered cs) = chosen_statement L v (filtered @ cs)"
  using assms
proof (induction reach p filtered cs rule: filter_cases.induct)
  case (2 reach p filtered d cs)
  have rest: "default_last cs"
    using 2(6) by (auto simp: default_last_def split: if_splits)
  have verdicts: "\<forall>c \<in> set cs. sc_label c \<noteq> None \<longrightarrow> (\<forall>b. reach (sc_node c) = Some b \<longrightarrow> case_matches L v c = b)"
    using 2(4) by simp
  show ?case
  proof (cases "sc_label d = None")
    case True
    have "cs = []" using 2(6) True by (cases cs) (auto simp: default_last_def)
    with True show ?thesis by simp
  next
    case label: False
    then obtain lab where lab: "sc_label d = Some lab" by auto
    have d: "case_matches L v d = b" if "reach (sc_node d) = Some b" for b
      using 2(4) lab that by simp
    show ?thesis
    proof (cases "reach (sc_node d)")
      case None
      with 2(1) [OF label None verdicts _ rest] 2(5) lab show ?thesis by simp
    next
      case (Some b)
      show ?thesis
      proof (cases b)
        case True
        show ?thesis
        proof (cases "sc_statement d")
          case None
          with 2(2) [OF label Some True _ verdicts _ rest] 2(5) lab Some True show ?thesis by simp
        next
          case (Some ss)
          with d True \<open>reach (sc_node d) = Some b\<close> lab show ?thesis
            using chosen_stop [of L v d ss filtered cs] by simp
        qed
      next
        case False
        let ?m = "p \<and> filtered \<noteq> [] \<and> sc_statement d \<noteq> None"
        let ?f = "if ?m then merge_back (sc_statement d) filtered else filtered"
        have dead: "\<not> case_matches L v d" using d Some False by simp
        have ok: "\<not> (?m \<and> sc_statement (last filtered) \<noteq> None)" "\<not> overwrites reach (sc_statement d = None) ?f cs"
          using 2(5) lab Some False by (auto simp: Let_def)
        have inv: "\<not> sc_statement d = None \<longrightarrow> ?f = [] \<or> sc_statement (last ?f) \<noteq> None"
          using merge_back_last [of filtered "sc_statement d"] 2(7) by auto
        have "chosen_statement L v (filter_cases reach (sc_statement d = None) ?f cs) = chosen_statement L v (?f @ cs)"
          using 2(3) [OF label Some False refl verdicts ok(2) rest inv] .
        moreover have "chosen_statement L v (filtered @ d # cs) = chosen_statement L v (?f @ cs)"
        proof (cases "sc_statement d")
          case None
          with chosen_drop_fallthrough [OF dead] show ?thesis by simp
        next
          case (Some ss)
          show ?thesis
          proof (cases ?m)
            case True
            with ok(1) Some chosen_merge [OF dead Some] show ?thesis by auto
          next
            case no_merge: False
            with Some 2(7) have "filtered = [] \<or> sc_statement (last filtered) \<noteq> None" by auto
            with chosen_drop_statement [OF dead] no_merge show ?thesis by auto
          qed
        qed
        ultimately show ?thesis using lab Some False by (simp add: Let_def)
      qed
    qed
  qed
qed simp

section \<open>Programs the pass preserves\<close>

text \<open>
  A hit or miss member with a verdict is replaced by a literal and its table is no longer applied; a
  switch that loses all of its labels is replaced without evaluating its selector. \<open>node_ok\<close> excludes
  both where something could be lost, and the overwriting of statements.
\<close>

fun hit_free :: "reachability \<Rightarrow> pexp \<Rightarrow> bool" where
  "hit_free reach (PMember n t e m) \<longleftrightarrow> (is_hit_or_miss m \<longrightarrow> reach n = None) \<and> hit_free reach e"
| "hit_free reach (PLNot e) \<longleftrightarrow> hit_free reach e"
| "hit_free reach (PCall n m ds args) \<longleftrightarrow> hit_free reach m \<and> (\<forall>e \<in> set args. hit_free reach e)"
| "hit_free reach (POp f es) \<longleftrightarrow> (\<forall>e \<in> set es. hit_free reach e)"
| "hit_free reach (PLit l) \<longleftrightarrow> True"
| "hit_free reach (PPath n t x) \<longleftrightarrow> True"

fun call_free :: "pexp \<Rightarrow> bool" where
  "call_free (PMember n t e m) \<longleftrightarrow> call_free e"
| "call_free (PLNot e) \<longleftrightarrow> call_free e"
| "call_free (PCall n m ds args) \<longleftrightarrow> False"
| "call_free (POp f es) \<longleftrightarrow> (\<forall>e \<in> set es. call_free e)"
| "call_free (PLit l) \<longleftrightarrow> True"
| "call_free (PPath n t x) \<longleftrightarrow> True"

definition loses_selector :: "reachability \<Rightarrow> switch_case list \<Rightarrow> bool" where
  "loses_selector reach cs \<longleftrightarrow>
     (let fs = filter_cases reach False [] cs in fs = [] \<or> length fs = 1 \<and> sc_label (hd fs) = None)"

definition node_ok :: "ReferenceMap \<Rightarrow> reachability \<Rightarrow> stmt \<Rightarrow> bool" where
  "node_ok refMap reach x \<longleftrightarrow>
     (case x of
        SAssign l r \<Rightarrow> hit_free reach l \<and> hit_free reach r
      | SDecl y i \<Rightarrow> (\<forall>e \<in> set_option i. hit_free reach e)
      | SIf n c t f \<Rightarrow> hit_free reach c
      | SSwitch n e cs \<Rightarrow>
          hit_free reach e \<and> (\<forall>c \<in> set cs. \<forall>l \<in> set_option (sc_label c). hit_free reach l) \<and>
          default_last cs \<and> \<not> overwrites reach False [] cs \<and> (loses_selector reach cs \<longrightarrow> call_free e)
      | SCall n e \<Rightarrow> hit_free reach e
      | _ \<Rightarrow> True)"

function (sequential) all_stmts :: "(stmt \<Rightarrow> bool) \<Rightarrow> stmt \<Rightarrow> bool" where
  "all_stmts P (SIf n c t f) \<longleftrightarrow> P (SIf n c t f) \<and> all_stmts P t \<and> (\<forall>g \<in> set_option f. all_stmts P g)"
| "all_stmts P (SSwitch n e cs) \<longleftrightarrow> P (SSwitch n e cs) \<and>
     (\<forall>c \<in> set cs. \<forall>ss \<in> set_option (sc_statement c). \<forall>x \<in> set ss. all_stmts P x)"
| "all_stmts P (SBlock ss) \<longleftrightarrow> P (SBlock ss) \<and> (\<forall>x \<in> set ss. all_stmts P x)"
| "all_stmts P x \<longleftrightarrow> P x"
  by pat_completeness auto
termination
  by (relation "measure (\<lambda>(P, x). size x)")
    (auto intro: block_statement_size less_SucI case_statement_size)

text \<open>
  A table runs its default action with the arguments the program declares, and only picks an action
  of the list the pass sees or the default action, whose declaration is found.
\<close>

definition default_consistent :: "reachability \<Rightarrow> 's p4_language \<Rightarrow> bool" where
  "default_consistent reach L \<longleftrightarrow>
     (\<forall>t td dn dm dds dargs s a vs hit.
        l_refMap L t = Some (TableDecl td) \<and> td_defaultAction td = Some (PCall dn dm dds dargs) \<and>
        l_pick L t s = Some (a, vs, hit) \<longrightarrow>
        getActionDecl (l_refMap L) (PCall dn dm dds dargs) \<noteq> None \<and> hit_free reach (PCall dn dm dds dargs) \<and>
        (a = to_string dm \<or> a \<in> snd ` set (td_actions td)) \<and>
        (a = to_string dm \<longrightarrow>
           (\<exists>ds. dds = Some ds \<and> length dargs \<le> length ds \<and>
              (\<forall>M. peval_args L M ds dargs s = Some ([], vs, s)))))"

text \<open>
  The verdicts of both maps as a monitor: of the reachability map on conditions, cases and actions, of
  the substitution map on paths and members.
\<close>

type_synonym substitution = "node \<Rightarrow> expr option"

definition verdict_monitor :: "reachability \<Rightarrow> substitution \<Rightarrow> monitor" where
  "verdict_monitor reach sub =
     \<lparr>m_value = (\<lambda>n v. \<forall>c. sub n = Some c \<longrightarrow> literal_value c = Some v),
      m_cond = (\<lambda>n b. \<forall>r. reach n = Some r \<longrightarrow> r = b)\<rparr>"

abbreviation value_monitor :: "substitution \<Rightarrow> monitor" where
  "value_monitor sub \<equiv> verdict_monitor (\<lambda>n. None) sub"

lemma weaker_value_monitor [simp]: "weaker (verdict_monitor reach sub) (value_monitor sub)"
  by (simp add: weaker_def verdict_monitor_def)

lemma value_monitor_cond [simp]: "m_cond (value_monitor sub) n b"
  by (simp add: verdict_monitor_def)

lemma value_monitor_none: "value_monitor (\<lambda>n. None) = no_monitor"
  by (simp add: verdict_monitor_def no_monitor_def)

lemma elim_pexp_id: "hit_free reach e \<Longrightarrow> elim_pexp reach e = e"
  by (induction reach e rule: elim_pexp.induct) (auto split: option.splits intro: map_idI)

lemma pevals_state:
  "\<forall>e \<in> set es. \<forall>s v s'. peval L M e s = Some (v, s') \<longrightarrow> s' = s \<Longrightarrow> pevals L M es s = Some (vs, s') \<Longrightarrow> s' = s"
  by (induction es arbitrary: s vs) (auto split: option.splits, fastforce)

lemma call_free_state: "call_free e \<Longrightarrow> peval L M e s = Some (v, s') \<Longrightarrow> s' = s"
proof (induction e arbitrary: s v s')
  case (POp f es)
  from POp.prems(2) obtain vs where "pevals L M es s = Some (vs, s')" by (auto split: option.splits)
  then show ?case by (rule pevals_state [rotated]) (use POp in auto)
qed (auto split: option.splits if_splits val.splits)

lemma filter_cases_labels:
  "c \<in> set (filter_cases reach p filtered cs) \<Longrightarrow> \<exists>d \<in> set filtered \<union> set cs. sc_label c = sc_label d"
proof (induction reach p filtered cs rule: filter_cases.induct)
  case (2 reach p filtered d cs)
  have m: "\<exists>e \<in> set filtered. sc_label x = sc_label e" if "x \<in> set (merge_back st filtered)" "filtered \<noteq> []" for x st
    using that by (auto simp: merge_back_def Let_def dest: in_set_butlastD)
  show ?case
  proof (cases "sc_label d = None")
    case True
    with 2(4) show ?thesis by auto
  next
    case label: False
    then obtain lab where lab: "sc_label d = Some lab" by auto
    show ?thesis
    proof (cases "reach (sc_node d)")
      case None
      with 2(1) [OF label None] 2(4) lab show ?thesis by auto
    next
      case (Some b)
      show ?thesis
      proof (cases b)
        case True
        with 2(2) [OF label Some True] 2(4) Some lab show ?thesis by (auto split: if_splits)
      next
        case False
        let ?f = "if p \<and> filtered \<noteq> [] \<and> sc_statement d \<noteq> None then merge_back (sc_statement d) filtered else filtered"
        have "\<exists>e \<in> set ?f \<union> set cs. sc_label c = sc_label e"
          using 2(3) [OF label Some False refl] 2(4) Some lab False by (simp add: Let_def)
        then obtain e where e: "e \<in> set ?f \<or> e \<in> set cs" "sc_label c = sc_label e" by blast
        then have "(\<exists>x \<in> set filtered. sc_label e = sc_label x) \<or> e \<in> set cs"
          using m [of e "sc_statement d"] by (auto split: if_splits)
        with e(2) show ?thesis by auto
      qed
    qed
  qed
qed auto

lemma filtered_labels_kept:
  assumes "\<forall>c \<in> set cs. \<forall>l \<in> set_option (sc_label c). hit_free reach l"
    and "c \<in> set (filter_cases reach False [] cs)"
  shows "map_option (elim_pexp reach) (sc_label c) = sc_label c"
proof -
  from filter_cases_labels [OF assms(2)] obtain d where d: "d \<in> set cs" "sc_label c = sc_label d" by auto
  with assms(1) show ?thesis by (cases "sc_label d") (auto simp: elim_pexp_id)
qed

definition map_case :: "(stmt \<Rightarrow> stmt) \<Rightarrow> switch_case \<Rightarrow> switch_case" where
  "map_case f c = SwitchCase (sc_node c) (sc_label c) (map_option (map f) (sc_statement c))"

lemma first_statement_map: "first_statement (map (map_case f) cs) = map f (first_statement cs)"
  by (induction cs) (auto simp: map_case_def split: option.splits)

lemma chosen_map: "chosen_statement L v (map (map_case f) cs) = map f (chosen_statement L v cs)"
proof -
  have "case_matches L v (map_case f c) = case_matches L v c" for c
    by (simp add: map_case_def case_matches_def)
  then show ?thesis
    by (simp add: chosen_statement_def dropWhile_map comp_def first_statement_map)
qed

lemma chosen_from:
  "chosen_statement L v cs = [] \<or> (\<exists>c \<in> set cs. sc_statement c = Some (chosen_statement L v cs))"
proof -
  have "first_statement xs = [] \<or> (\<exists>c \<in> set xs. sc_statement c = Some (first_statement xs))" for xs
    by (induction xs) (auto split: option.splits)
  then show ?thesis unfolding chosen_statement_def by (meson set_dropWhileD)
qed

lemma table_default_runs:
  assumes dc: "default_consistent reach L" and L: "l_refMap L t = Some (TableDecl td)"
    and td: "td_defaultAction td = Some (PCall dn dm dds dargs)"
    and only: "only_default reach (to_string dm) (td_actions td)"
    and run: "run_table L (verdict_monitor reach sub) t td s = Some (v, s')"
  shows "\<exists>b. getActionDecl (l_refMap L) (PCall dn dm dds dargs) = Some b \<and>
    (if b = [] then s' = s else exec L (value_monitor sub) (SCall dn (PCall dn dm dds dargs)) s = Some (s', False)) \<and>
    hit_free reach (PCall dn dm dds dargs)"
proof -
  from run obtain a vs hit where pick: "l_pick L t s = Some (a, vs, hit)"
    and ok: "\<forall>(n, name) \<in> set (td_actions td). m_cond (verdict_monitor reach sub) n (name = a)"
    and act: "run_action L a [] vs s = Some s'"
    by (auto simp: run_table_def split: option.splits if_splits)
  note dc' = dc [unfolded default_consistent_def, rule_format, of t td dn dm dds dargs s a vs hit]
  have other: "only_default reach d acts \<Longrightarrow> (n, name) \<in> set acts \<Longrightarrow> name \<noteq> d \<Longrightarrow> reach n = Some False"
    for d acts n name
    by (induction reach d acts rule: only_default.induct) (auto split: if_splits option.splits)
  have a: "a = to_string dm"
  proof (rule ccontr)
    assume "a \<noteq> to_string dm"
    moreover from this dc' L td pick obtain n where n: "(n, a) \<in> set (td_actions td)" by auto
    ultimately have "reach n = Some False" using other [OF only] by blast
    with ok n show False by (auto simp: verdict_monitor_def)
  qed
  from dc' L td pick a obtain ds where ds: "dds = Some ds" "length dargs \<le> length ds"
    "\<forall>M. peval_args L M ds dargs s = Some ([], vs, s)" by auto
  from dc' L td pick obtain b where b: "getActionDecl (l_refMap L) (PCall dn dm dds dargs) = Some b"
    and free: "hit_free reach (PCall dn dm dds dargs)" by auto
  from b obtain n' ty' x where dm: "dm = PPath n' ty' x" and x: "l_refMap L x = Some (ActionDecl b)"
    by (auto simp: getActionDecl_def Let_def assign_or_return_Some split: pexp.splits option.splits decl.splits)
  have "exec L (value_monitor sub) (SCall dn (PCall dn dm dds dargs)) s = Some (s', False)"
    using ds x act a by (simp add: dm applied_table_def run_call_def)
  moreover have "s' = s" if "b = []" using that x act a by (simp add: dm run_action_def)
  ultimately show ?thesis using b free by auto
qed

lemma elim_call_runs:
  assumes dc: "default_consistent reach L" and free: "hit_free reach e"
    and run: "peval L (verdict_monitor reach sub) e s = Some (v, s')"
  shows "exec L (value_monitor sub) (elim (l_refMap L) reach d (SCall n e)) s = Some (s', False)"
proof -
  have kept: "exec L (value_monitor sub) (SCall n (elim_pexp reach e)) s = Some (s', False)"
    using peval_weaker(1) [OF weaker_value_monitor run] by (simp add: elim_pexp_id [OF free])
  show ?thesis
  proof (cases "elim_call (l_refMap L) reach n e = SCall n e")
    case True
    with kept show ?thesis by simp
  next
    case False
    then obtain cn m ds args t td dn dm dds dargs where e: "e = PCall cn m ds args"
      and t: "applied_table (l_refMap L) m = Some (t, td)"
      and td: "td_defaultAction td = Some (PCall dn dm dds dargs)"
      and only: "only_default reach (to_string dm) (td_actions td)"
      and to: "elim_call (l_refMap L) reach n e =
        (case getActionDecl (l_refMap L) (PCall dn dm dds dargs) of
           Some body \<Rightarrow> if body \<noteq> [] then SCall dn (PCall dn dm dds dargs) else SEmpty | None \<Rightarrow> SEmpty)"
      by (auto simp: elim_call_def split: pexp.splits option.splits if_splits prod.splits)
    from t have L: "l_refMap L t = Some (TableDecl td)"
      by (auto simp: applied_table_def split: pexp.splits if_splits option.splits decl.splits)
    have "run_table L (verdict_monitor reach sub) t td s = Some (v, s')" using run by (simp add: e t)
    from table_default_runs [OF dc L td only this] obtain b where
      b: "getActionDecl (l_refMap L) (PCall dn dm dds dargs) = Some b"
      and runs: "if b = [] then s' = s else exec L (value_monitor sub) (SCall dn (PCall dn dm dds dargs)) s = Some (s', False)"
      and free': "hit_free reach (PCall dn dm dds dargs)" by blast
    have "elim (l_refMap L) reach d (SCall n e) = (if b = [] then SEmpty else SCall dn (PCall dn dm dds dargs))"
      using to b elim_pexp_id [OF free'] by (simp del: elim_pexp.simps)
    with runs show ?thesis by (auto split: if_splits)
  qed
qed

lemma elim_if_runs:
  assumes free: "hit_free reach c"
    and c: "peval L (verdict_monitor reach sub) c s = Some (VBool b, s')" and m: "m_cond (verdict_monitor reach sub) n b"
    and t: "b \<Longrightarrow> exec L (value_monitor sub) (elim (l_refMap L) reach d t) s' = Some r"
    and f: "\<not> b \<Longrightarrow> case f of None \<Rightarrow> r = (s', False) | Some g \<Rightarrow> exec L (value_monitor sub) (elim (l_refMap L) reach d g) s' = Some r"
  shows "exec L (value_monitor sub) (elim (l_refMap L) reach d (SIf n c t f)) s = Some r"
proof -
  from m have verdict: "\<forall>v. reach n = Some v \<longrightarrow> v = b" by (simp add: verdict_monitor_def)
  have c': "peval L (value_monitor sub) (elim_pexp reach c) s = Some (VBool b, s')"
    using peval_weaker(1) [OF weaker_value_monitor c] by (simp add: elim_pexp_id [OF free])
  have both: "exec L (value_monitor sub) (SIf n (elim_pexp reach c) (elim (l_refMap L) reach d t)
      (map_option (elim (l_refMap L) reach d) f)) s = Some r"
    using c' t f by (cases b; cases f) auto
  show ?thesis
  proof (cases "d \<or> reach n = None")
    case True
    then have "elim_if reach d n c t f = (c, t, f)" by (auto simp: elim_if_def)
    with both show ?thesis by (simp del: exec.simps)
  next
    case False
    with verdict have "reach n = Some b" "\<not> d" by auto
    with c' t f show ?thesis
      by (cases b; cases f) (auto simp: elim_if_def)
  qed
qed

lemma elim_switch_runs:
  assumes ok: "node_ok (l_refMap L) reach (SSwitch n e cs)"
    and e: "peval L (verdict_monitor reach sub) e s = Some (v, s')"
    and verdicts: "cases_ok L (verdict_monitor reach sub) v cs"
    and body: "exec_list L (value_monitor sub) (map (elim (l_refMap L) reach d) (chosen_statement L v cs)) s' = Some r"
  shows "exec L (value_monitor sub) (elim (l_refMap L) reach d (SSwitch n e cs)) s = Some r"
proof -
  let ?fs = "filter_cases reach False [] cs" and ?elim = "elim (l_refMap L) reach d"
  from ok have free: "hit_free reach e" and labels: "\<forall>c \<in> set cs. \<forall>l \<in> set_option (sc_label c). hit_free reach l"
    and shape: "default_last cs" "\<not> overwrites reach False [] cs"
    and pure: "loses_selector reach cs \<longrightarrow> call_free e" by (auto simp: node_ok_def)
  have same: "chosen_statement L v ?fs = chosen_statement L v cs"
    using filter_cases_chosen [of cs reach L v False "[]"] verdicts shape
    by (simp add: cases_ok_def verdict_monitor_def)
  have result: "exec_list L (value_monitor sub) (map ?elim (chosen_statement L v ?fs)) s' = Some r"
    unfolding same by (rule body)
  show ?thesis
  proof (cases "loses_selector reach cs")
    case True
    with pure have "call_free e" by simp
    then have s': "s' = s" using e by (rule call_free_state)
    show ?thesis
    proof (cases "?fs = []")
      case True
      with result s' show ?thesis by (simp add: Let_def chosen_statement_def)
    next
      case False
      with \<open>loses_selector reach cs\<close> obtain c where c: "?fs = [c]" "sc_label c = None"
        by (auto simp: loses_selector_def Let_def length_Suc_conv)
      with result s' show ?thesis
        by (auto simp: Let_def chosen_Cons case_matches_def split: option.splits)
    qed
  next
    case False
    have "map (\<lambda>c. SwitchCase (sc_node c) (map_option (elim_pexp reach) (sc_label c))
        (map_option (map ?elim) (sc_statement c))) ?fs = map (map_case ?elim) ?fs"
      using filtered_labels_kept [OF labels] by (simp add: map_case_def)
    with False have elim: "?elim (SSwitch n e cs) = SSwitch n (elim_pexp reach e) (map (map_case ?elim) ?fs)"
      by (auto simp: loses_selector_def Let_def)
    have "peval L (value_monitor sub) (elim_pexp reach e) s = Some (v, s')"
      using peval_weaker(1) [OF weaker_value_monitor e] by (simp add: elim_pexp_id [OF free])
    with result show ?thesis
      unfolding elim by (simp add: cases_ok_def chosen_map)
  qed
qed

lemma elim_runs:
  "all_stmts (node_ok (l_refMap L) reach) x \<Longrightarrow> default_consistent reach L \<Longrightarrow>
   exec L M x s = Some r \<Longrightarrow> M = verdict_monitor reach sub \<Longrightarrow> exec L (value_monitor sub) (elim (l_refMap L) reach d x) s = Some r"
  "\<forall>x \<in> set xs. all_stmts (node_ok (l_refMap L) reach) x \<Longrightarrow> default_consistent reach L \<Longrightarrow>
   exec_list L M xs s = Some r \<Longrightarrow> M = verdict_monitor reach sub \<Longrightarrow>
   exec_list L (value_monitor sub) (map (elim (l_refMap L) reach d) xs) s = Some r"
proof (induction L M x s and L M xs s arbitrary: r and r rule: exec_exec_list.induct)
  case (2 L M l e s)
  from 2(3) obtain v s' where e: "peval L M e s = Some (v, s')" by (auto split: option.splits)
  from 2(1) have "hit_free reach l" "hit_free reach e" by (simp_all add: node_ok_def)
  with peval_weaker(1) [OF weaker_value_monitor e [unfolded 2(4)]] e 2(3) show ?case by (simp add: elim_pexp_id)
next
  case (3 L M y i s)
  show ?case
  proof (cases i)
    case None
    with 3(3) show ?thesis by simp
  next
    case (Some e)
    with 3(3) obtain v s' where e: "peval L M e s = Some (v, s')" by (auto split: option.splits)
    from 3(1) Some have "hit_free reach e" by (simp add: node_ok_def)
    with peval_weaker(1) [OF weaker_value_monitor e [unfolded 3(4)]] e 3(3) Some show ?thesis by (simp add: elim_pexp_id)
  qed
next
  case (4 L M n c t f s)
  have ok: "node_ok (l_refMap L) reach (SIf n c t f)" "all_stmts (node_ok (l_refMap L) reach) t"
    "\<And>g. f = Some g \<Longrightarrow> all_stmts (node_ok (l_refMap L) reach) g"
    using 4(3) by simp_all
  from ok(1) have free: "hit_free reach c" by (simp add: node_ok_def)
  from 4(5) obtain b s' where c: "peval L M c s = Some (VBool b, s')" "m_cond M n b"
    by (auto split: option.splits prod.splits val.splits if_splits)
  have t: "exec L (value_monitor sub) (elim (l_refMap L) reach d t) s' = Some r" if b
    using 4(1) [OF c(1) _ refl c(2) that ok(2) 4(4) _ 4(6)] 4(5) c that by simp
  have f: "case f of None \<Rightarrow> r = (s', False) | Some g \<Rightarrow> exec L (value_monitor sub) (elim (l_refMap L) reach d g) s' = Some r" if "\<not> b"
    using 4(2) [OF c(1) _ refl c(2) that _ ok(3) 4(4) _ 4(6)] 4(5) c that by (auto split: option.splits)
  from elim_if_runs [OF free c [unfolded 4(6)] t f] show ?case by blast
next
  case (5 L M n e cs s)
  have ok: "node_ok (l_refMap L) reach (SSwitch n e cs)"
    "\<forall>x \<in> set (chosen_statement L v cs). all_stmts (node_ok (l_refMap L) reach) x" for v
    using 5(2) chosen_from [of L v cs] by auto
  from 5(4) obtain v s' where e: "peval L M e s = Some (v, s')" "cases_ok L M v cs"
    "exec_list L M (chosen_statement L v cs) s' = Some r"
    by (auto split: option.splits prod.splits if_splits)
  from elim_switch_runs [OF ok(1) e(1,2) [unfolded 5(5)] 5(1) [OF e(1) refl e(2) ok(2) 5(3) e(3) 5(5)]]
  show ?case .
next
  case (6 L M n e s)
  from 6(3) obtain v s' where e: "peval L M e s = Some (v, s')" "r = (s', False)" by (auto split: option.splits)
  from 6(1) have "hit_free reach e" by (simp add: node_ok_def)
  from elim_call_runs [OF 6(2) this, of sub s v s' d n] e 6(4) show ?case by simp
next
  case (10 L M x xs s)
  from 10(5) obtain s' stopped where x: "exec L M x s = Some (s', stopped)"
    "(if stopped then Some (s', True) else exec_list L M xs s') = Some r"
    by (auto split: option.splits prod.splits)
  from 10(1) [OF _ 10(4) x(1) 10(6)] 10(2) [OF x(1) refl _ _ 10(4) _ 10(6)] 10(3) x(2) show ?case
    by (auto split: if_splits)
qed (simp_all add: node_ok_def)


section \<open>What the pass preserves and what it does not\<close>

text \<open>
  Claim C7. ElimDeadCode preserves behaviour: take an execution along which every verdict of the
  reachability map is right (each branch taken, each label matched and each action picked agrees with
  it) in a program whose statements lose no table application and overwrite no case, and whose tables
  run their default action as declared. Then the program the pass returns runs to the same final
  state from the same start, like the program itself.
\<close>

theorem elim_dead_code_preserves:
  assumes "all_stmts (node_ok (l_refMap L) reach) x" and "default_consistent reach L"
    and "exec L (verdict_monitor reach (\<lambda>n. None)) x s = Some r"
  shows "run L (elim (l_refMap L) reach d x) s = Some r \<and> run L x s = Some r"
  using elim_runs(1) [OF assms refl, of d] exec_weaker(1) [OF weaker_no_monitor assms(3)]
  by (simp add: value_monitor_none)

text \<open>A program with a table whose action \<open>fwd\<close> and a branch are never executed.\<close>

definition demo_default :: pexp where
  "demo_default = PCall (Node 3 0) (PPath (Node 4 0) Type_Unknown ''drop'') (Some []) []"

definition demo_table :: table_decl where
  "demo_table =
     \<lparr>td_isImmutable = False, td_actions = [(Node 1 0, ''fwd''), (Node 2 0, ''drop'')],
      td_defaultAction = Some demo_default\<rparr>"

definition demo_language :: "nat p4_language" where
  "demo_language =
     \<lparr>l_refMap = [''t'' \<mapsto> TableDecl demo_table, ''drop'' \<mapsto> ActionDecl [SOther ''count'']],
      l_path = (\<lambda>x s. if x = ''n'' then const_val (Type_Bits 8 False) (int s) else None),
      l_member = (\<lambda>m v. case v of VStruct xs vs \<Rightarrow> map_of (zip xs vs) m | _ \<Rightarrow> None),
      l_op = (\<lambda>f vs. None), l_call = (\<lambda>m outs vs s. None),
      l_action = (\<lambda>a outs vs s. Some (s + Suc (length vs))), l_pick = (\<lambda>t s. Some (''drop'', [], False)),
      l_label = (\<lambda>e. case e of PLit (BoolLiteral b) \<Rightarrow> VBool b | _ \<Rightarrow> VTuple []), l_assign = (\<lambda>l v s. case v of VBits w sg n \<Rightarrow> Some (nat n + 10) | _ \<Rightarrow> None),
      l_declare = (\<lambda>x v s. s), l_other = (\<lambda>x s. Some (s, False))\<rparr>"

definition demo_reach :: reachability where
  "demo_reach = [Node 1 0 \<mapsto> False, Node 5 0 \<mapsto> False]"

definition demo_apply :: stmt where
  "demo_apply =
     SCall (Node 6 0) (PCall (Node 7 0) (PMember (Node 8 0) Type_Unknown (PPath (Node 9 0) Type_Unknown ''t'') ''apply'')
       (Some []) [])"

definition demo_branch :: stmt where
  "demo_branch = SIf (Node 5 0) (PLit (BoolLiteral False)) (SOther ''never'') None"

lemmas demo_defs = demo_default_def demo_table_def demo_language_def demo_reach_def demo_apply_def demo_branch_def

lemma demo_default_consistent: "default_consistent demo_reach demo_language"
  by (auto simp: default_consistent_def demo_defs getActionDecl_def assign_or_return_def split: if_splits)

lemma demo_ok: "all_stmts (node_ok (l_refMap demo_language) demo_reach) (SBlock [demo_branch, demo_apply])"
  by (simp add: node_ok_def demo_defs is_hit_or_miss_def)

lemma demo_run:
  "exec demo_language (verdict_monitor demo_reach sub) (SBlock [demo_branch, demo_apply]) 4 = Some (5, False)"
  by (simp add: demo_defs literal_value_def applied_table_def run_table_def run_action_def verdict_monitor_def)

lemma demo_elim:
  "elim (l_refMap demo_language) demo_reach False (SBlock [demo_branch, demo_apply]) =
     SBlock [SIf (Node 5 0) (PLNot (PLit (BoolLiteral False))) SEmpty None, SCall (Node 3 0) demo_default]"
  by (simp add: demo_defs elim_if_def elim_call_def applied_table_def getActionDecl_def assign_or_return_def)

theorem elim_dead_code_preserves_witness:
  "run demo_language (SBlock [SIf (Node 5 0) (PLNot (PLit (BoolLiteral False))) SEmpty None,
     SCall (Node 3 0) demo_default]) 4 = Some (5, False)"
  using elim_dead_code_preserves [OF demo_ok demo_default_consistent demo_run, of False]
  unfolding demo_elim by blast

text \<open>
  Claim C38. What merging loses: when a live case with a statement is followed by a removed case
  without statement and a removed case with one, the pass gives the live case the statement of the
  removed one, so that a value that selects the live case runs the wrong statement afterwards.
\<close>

theorem elim_switch_overwrites_live_case:
  assumes "reach n1 = None" and "reach n2 = Some False" and "reach n3 = Some False"
    and "hit_free reach e" and "hit_free reach l1" and "peval L no_monitor e s = Some (l_label L l1, s')"
  shows "run L (SSwitch n e [SwitchCase n1 (Some l1) (Some live), SwitchCase n2 (Some l2) None,
           SwitchCase n3 (Some l3) (Some dead)]) s = exec_list L no_monitor live s' \<and>
    run L (elim refMap reach d (SSwitch n e [SwitchCase n1 (Some l1) (Some live), SwitchCase n2 (Some l2) None,
           SwitchCase n3 (Some l3) (Some dead)])) s =
         exec_list L no_monitor (map (elim refMap reach d) dead) s'"
  using assms
  by (simp add: elim_pexp_id Let_def merge_back_def cases_ok_def no_monitor_def chosen_statement_def case_matches_def)

definition demo_dead :: "stmt list" where
  "demo_dead = [SAssign (PPath (Node 14 0) Type_Unknown ''n'') (PLit (Constant (Type_Bits 8 False) 7))]"

definition demo_switch :: stmt where
  "demo_switch =
     SSwitch (Node 10 0) (PLit (BoolLiteral True))
        [SwitchCase (Node 11 0) (Some (PLit (BoolLiteral True))) (Some [SOther ''live'']),
         SwitchCase (Node 12 0) (Some (PLit (BoolLiteral False))) None,
         SwitchCase (Node 13 0) (Some (PLit (BoolLiteral False))) (Some demo_dead)]"

theorem elim_switch_overwrites_live_case_witness:
  "run demo_language demo_switch 1 = Some (1, False) \<and>
   run demo_language (elim (l_refMap demo_language) [Node 12 0 \<mapsto> False, Node 13 0 \<mapsto> False] False demo_switch) 1 =
     Some (17, False)"
proof -
  have e: "peval demo_language no_monitor (PLit (BoolLiteral True)) 1 =
    Some (l_label demo_language (PLit (BoolLiteral True)), 1)"
    by (simp add: demo_language_def literal_value_def)
  have live: "exec_list demo_language no_monitor [SOther ''live''] 1 = Some (1, False)"
    by (simp add: demo_language_def)
  have dead: "exec_list demo_language no_monitor (map (elim refMap reach False) demo_dead) 1 = Some (17, False)"
    for refMap reach
    by (simp add: demo_dead_def demo_language_def literal_value_def const_val_def)
  show ?thesis
    using elim_switch_overwrites_live_case [where reach = "[Node 12 0 \<mapsto> False, Node 13 0 \<mapsto> False]" and d = False
        and n = "Node 10 0" and ?n1.0 = "Node 11 0" and ?n2.0 = "Node 12 0" and ?n3.0 = "Node 13 0"
        and ?l2.0 = "PLit (BoolLiteral False)" and ?l3.0 = "PLit (BoolLiteral False)"
        and live = "[SOther ''live'']" and dead = demo_dead and refMap = "l_refMap demo_language", OF _ _ _ _ _ e]
    unfolding live dead demo_switch_def by simp
qed

text \<open>
  Claim C39. What replacing a table result loses: when a branch tests whether a table hits and the map
  has the right verdict on that, the pass replaces the test by a literal, and the program it returns
  takes the same branch from the state before the table, whose action is no longer run.
\<close>

theorem elim_hit_skips_table:
  assumes "l_refMap L x = Some (TableDecl td)" and "run_table L no_monitor x td s = Some (apply_result a hit, s')"
    and "l_member L ''hit'' (apply_result a hit) = Some (VBool hit)" and "reach n = None" and "reach m = Some hit"
  shows "run L (SIf n (PMember m t1 (PCall k (PMember k' t2 (PPath p t3 x) ''apply'') ds args) ''hit'') T None) s =
      (if hit then run L T s' else Some (s', False)) \<and>
    run L (elim refMap reach d
        (SIf n (PMember m t1 (PCall k (PMember k' t2 (PPath p t3 x) ''apply'') ds args) ''hit'') T None)) s =
      (if hit then run L (elim refMap reach d T) s else Some (s, False))"
  using assms
  by (simp add: elim_if_def applied_table_def is_hit_or_miss_def no_monitor_def literal_value_def)

theorem elim_hit_skips_table_witness:
  "run demo_language (SIf (Node 10 0) (PMember (Node 11 0) Type_Boolean (PCall (Node 7 0)
        (PMember (Node 8 0) Type_Unknown (PPath (Node 9 0) Type_Unknown ''t'') ''apply'') (Some []) []) ''hit'') SEmpty None) 4 =
      Some (5, False) \<and>
   run demo_language (elim (l_refMap demo_language) [Node 11 0 \<mapsto> False] False (SIf (Node 10 0)
        (PMember (Node 11 0) Type_Boolean (PCall (Node 7 0)
        (PMember (Node 8 0) Type_Unknown (PPath (Node 9 0) Type_Unknown ''t'') ''apply'') (Some []) []) ''hit'') SEmpty None)) 4 =
      Some (4, False)"
  using elim_hit_skips_table [of demo_language "''t''" demo_table 4 "''drop''" False 5 "[Node 11 0 \<mapsto> False]"
      "Node 10 0" "Node 11 0" Type_Boolean "Node 7 0" "Node 8 0" Type_Unknown "Node 9 0" Type_Unknown "Some []" "[]"
      SEmpty "l_refMap demo_language" False]
  by (simp add: demo_defs run_table_def run_action_def no_monitor_def apply_result_def)

text \<open>
  Claim C40. A table that can only run its default action is replaced by the declared call of that
  action. Where an entry of the table runs the default action with other arguments, the program
  before the pass runs the action with the arguments of the entry, and the program after the pass
  with the declared ones.
\<close>

theorem elim_table_uses_declared_arguments:
  assumes "l_refMap L x = Some (TableDecl td)" and "td_defaultAction td = Some (PCall dn (PPath k t a) (Some ds) dargs)"
    and "\<not> td_isImmutable td" and "only_default reach a (td_actions td)"
    and "l_refMap L a = Some (ActionDecl body)" and "body \<noteq> []" and "length dargs \<le> length ds"
    and "elim_pexp reach (PCall dn (PPath k t a) (Some ds) dargs) = PCall dn (PPath k t a) (Some ds) dargs"
    and "peval_args L no_monitor ds dargs s = Some ([], dvs, s)" and "l_pick L x s = Some (a, vs, hit)"
  shows "run L (SCall n (PCall cn (PMember k' t2 (PPath p t3 x) ''apply'') cds args)) s =
      map_option (\<lambda>s'. (s', False)) (l_action L a [] vs s) \<and>
    run L (elim (l_refMap L) reach d (SCall n (PCall cn (PMember k' t2 (PPath p t3 x) ''apply'') cds args))) s =
      map_option (\<lambda>s'. (s', False)) (l_action L a [] dvs s)"
proof -
  have "getActionDecl (l_refMap L) (PCall dn (PPath k t a) (Some ds) dargs) = Some body"
    using assms(5) by (simp add: getActionDecl_def assign_or_return_def)
  with assms have "elim (l_refMap L) reach d (SCall n (PCall cn (PMember k' t2 (PPath p t3 x) ''apply'') cds args)) =
      SCall dn (PCall dn (PPath k t a) (Some ds) dargs)"
    by (simp add: elim_call_def applied_table_def)
  with assms show ?thesis
    by (auto simp: applied_table_def run_table_def run_call_def run_action_def no_monitor_def split: option.splits)
qed

theorem elim_table_uses_declared_arguments_witness:
  "run (demo_language\<lparr>l_pick := \<lambda>t s. Some (''drop'', [VInt 1], True)\<rparr>) demo_apply 4 = Some (6, False) \<and>
   run (demo_language\<lparr>l_pick := \<lambda>t s. Some (''drop'', [VInt 1], True)\<rparr>)
     (elim (l_refMap demo_language) demo_reach False demo_apply) 4 = Some (5, False)"
  using elim_table_uses_declared_arguments
    [of "demo_language\<lparr>l_pick := \<lambda>t s. Some (''drop'', [VInt 1], True)\<rparr>" "''t''" demo_table
      "Node 3 0" "Node 4 0" Type_Unknown "''drop''" "[]" "[]" demo_reach "[SOther ''count'']" 4 "[]" "[VInt 1]" True
      "Node 6 0" "Node 7 0" "Node 8 0" Type_Unknown "Node 9 0" Type_Unknown "Some []" "[]" False]
  by (simp add: demo_defs)

end
