(* ===== verification/SubstituteExpressions.thy ===== *)
theory SubstituteExpressions
  imports ElimDeadCode
begin

text \<open>
  \<open>specialization/passes/substitute_expressions.cpp\<close>: replacing expressions of bit type that always
  have the same value by that value, and \<open>specializer.h\<close>, which runs this pass after the removal of
  dead code. The map is a function from nodes to literals (\<open>isExpressionConstant\<close>).

  Every handler of the code is a case of the traversal here. The arguments of a call in an action list
  are never visited, since the traversal starts at statements.
\<close>

section \<open>The pass\<close>

text \<open>A node the compiler made up has no position, which is the position 0.\<close>

definition isValid :: "node \<Rightarrow> bool" where
  "isValid n \<longleftrightarrow> n_sourceInfo n \<noteq> 0"

definition is_Type_Bits :: "ty \<Rightarrow> bool" where
  "is_Type_Bits t \<longleftrightarrow> (case t of Type_Bits w s \<Rightarrow> True | _ \<Rightarrow> False)"

definition replacement :: "substitution \<Rightarrow> node \<Rightarrow> ty \<Rightarrow> expr option" where
  "replacement sub n t = (if \<not> isValid n \<or> \<not> is_Type_Bits t then None else sub n)"

text \<open>
  A call is pruned: what is called is not looked at, and of its arguments those the callee does not
  write. With more arguments than parameters, or a callee without parameters to look at, the call is
  returned as it is.
\<close>

fun substitute :: "substitution \<Rightarrow> pexp \<Rightarrow> pexp"
  and substitute_args :: "substitution \<Rightarrow> direction list \<Rightarrow> pexp list \<Rightarrow> pexp list" where
  "substitute sub (PLit l) = PLit l"
| "substitute sub (PPath n t x) =
     (case replacement sub n t of Some optConstant \<Rightarrow> PLit optConstant | None \<Rightarrow> PPath n t x)"
| "substitute sub (PMember n t e m) =
     (case replacement sub n t of Some optConstant \<Rightarrow> PLit optConstant | None \<Rightarrow> PMember n t (substitute sub e) m)"
| "substitute sub (PLNot e) = PLNot (substitute sub e)"
| "substitute sub (POp f es) = POp f (map (substitute sub) es)"
| "substitute sub (PCall n m ds args) =
     (case ds of
        None \<Rightarrow> PCall n m ds args
      | Some paramList \<Rightarrow>
          if length args > length paramList then PCall n m ds args
          else PCall n m ds (substitute_args sub paramList args))"
| "substitute_args sub paramList [] = []"
| "substitute_args sub [] (e # es) = e # es"
| "substitute_args sub (direction # paramList) (e # es) =
     (if direction = InOut \<or> direction = Out then e else substitute sub e) # substitute_args sub paramList es"

text \<open>
  The initializer of a variable is rewritten by a pass of its own and then visited again as a child of
  the declaration.
\<close>

function (sequential) substitute_stmt :: "substitution \<Rightarrow> stmt \<Rightarrow> stmt" where
  "substitute_stmt sub (SAssign l r) = SAssign l (substitute sub r)"
| "substitute_stmt sub (SDecl x initializer) =
     SDecl x (map_option (\<lambda>i. substitute sub (substitute sub i)) initializer)"
| "substitute_stmt sub (SIf n c t f) =
     SIf n (substitute sub c) (substitute_stmt sub t) (map_option (substitute_stmt sub) f)"
| "substitute_stmt sub (SSwitch n e cs) =
     SSwitch n (substitute sub e)
       (map (\<lambda>c. SwitchCase (sc_node c) (map_option (substitute sub) (sc_label c))
          (map_option (map (substitute_stmt sub)) (sc_statement c))) cs)"
| "substitute_stmt sub (SCall n e) = SCall n (substitute sub e)"
| "substitute_stmt sub (SBlock ss) = SBlock (map (substitute_stmt sub) ss)"
| "substitute_stmt sub other = other"
  by pat_completeness auto
termination
  by (relation "measure (\<lambda>(sub, x). size x)")
    (auto intro: block_statement_size less_SucI case_statement_size)

text \<open>\<open>FlaySpecializer\<close> runs the two passes one after the other.\<close>

definition FlaySpecializer :: "ReferenceMap \<Rightarrow> reachability \<Rightarrow> substitution \<Rightarrow> bool \<Rightarrow> stmt \<Rightarrow> stmt" where
  "FlaySpecializer refMap reach sub inInstance x = substitute_stmt sub (elim refMap reach inInstance x)"

section \<open>What it keeps\<close>

text \<open>
  Replacing a member drops what its base does; so a member with a value has no call in its base.
\<close>

fun base_pure :: "substitution \<Rightarrow> pexp \<Rightarrow> bool"
  and bases_pure :: "substitution \<Rightarrow> pexp list \<Rightarrow> bool" where
  "base_pure sub (PLit l) \<longleftrightarrow> True"
| "base_pure sub (PPath n t x) \<longleftrightarrow> True"
| "base_pure sub (PMember n t e m) \<longleftrightarrow> (replacement sub n t \<noteq> None \<longrightarrow> call_free e) \<and> base_pure sub e"
| "base_pure sub (PLNot e) \<longleftrightarrow> base_pure sub e"
| "base_pure sub (POp f es) \<longleftrightarrow> bases_pure sub es"
| "base_pure sub (PCall n m ds args) \<longleftrightarrow> bases_pure sub args"
| "bases_pure sub [] \<longleftrightarrow> True"
| "bases_pure sub (e # es) \<longleftrightarrow> base_pure sub e \<and> bases_pure sub es"

text \<open>The labels of a switch are constants to begin with.\<close>

definition stmt_pure :: "substitution \<Rightarrow> stmt \<Rightarrow> bool" where
  "stmt_pure sub x \<longleftrightarrow>
     (case x of
        SAssign l r \<Rightarrow> base_pure sub r
      | SDecl y i \<Rightarrow> (\<forall>e \<in> set_option i. base_pure sub e)
      | SIf n c t f \<Rightarrow> base_pure sub c
      | SSwitch n e cs \<Rightarrow>
          base_pure sub e \<and> (\<forall>c \<in> set cs. \<forall>l \<in> set_option (sc_label c). substitute sub l = l)
      | SCall n e \<Rightarrow> base_pure sub e
      | _ \<Rightarrow> True)"

lemma replacement_sub: "replacement sub n t = Some c \<Longrightarrow> sub n = Some c"
  by (simp add: replacement_def split: if_splits)

lemma value_monitor_replacement:
  "m_value (value_monitor sub) n v \<Longrightarrow> replacement sub n t = Some c \<Longrightarrow> literal_value c = Some v"
  by (auto simp: verdict_monitor_def dest: replacement_sub)

lemma substitute_runs:
  "base_pure sub e \<Longrightarrow> peval L M e s = Some (v, s') \<Longrightarrow> M = value_monitor sub \<Longrightarrow>
   peval L M (substitute sub e) s = Some (v, s')"
  "bases_pure sub es \<Longrightarrow> pevals L M es s = Some (vs, s') \<Longrightarrow> M = value_monitor sub \<Longrightarrow>
   pevals L M (map (substitute sub) es) s = Some (vs, s')"
  "bases_pure sub es \<Longrightarrow> peval_args L M ds es s = Some (outs, vs, s') \<Longrightarrow> M = value_monitor sub \<Longrightarrow>
   peval_args L M ds (substitute_args sub ds es) s = Some (outs, vs, s')"
proof (induction L M e s and L M es s and L M ds es s arbitrary: v s' and vs s' and outs vs s'
    rule: peval_pevals_peval_args.induct)
  case (2 L M n t x s)
  then show ?case by (auto dest: value_monitor_replacement split: option.splits if_splits)
next
  case (3 L M n t e m s)
  from 3(3) obtain w where e: "peval L M e s = Some (w, s')" and "l_member L m w = Some v" "m_value M n v"
    by (auto split: option.splits if_splits)
  show ?case
  proof (cases "replacement sub n t")
    case None
    with 3(1) [OF _ e 3(4)] 3(2,3) e show ?thesis by simp
  next
    case (Some c)
    with 3(2) call_free_state [OF _ e] have "s' = s" by simp
    with Some value_monitor_replacement [OF _ Some] \<open>m_value M n v\<close> 3(4) show ?thesis by simp
  qed
next
  case (4 L M e s)
  from 4(3) obtain w where e: "peval L M e s = Some (w, s')" by (auto split: option.splits val.splits)
  with 4(1) [OF _ e 4(4)] 4(2,3) show ?case by simp
next
  case (5 L M f es s)
  from 5(3) obtain vs where e: "pevals L M es s = Some (vs, s')" by (auto split: option.splits)
  with 5(1) [OF _ e 5(4)] 5(2,3) show ?case by simp
next
  case (6 L M n m ds args s)
  show ?case
  proof (cases "applied_table (l_refMap L) m")
    case (Some ttd)
    with 6(3) show ?thesis by (cases ttd) (auto split: option.splits)
  next
    case None
    with 6(3) obtain ds' outs vs s1 where ds: "ds = Some ds'" "\<not> length ds' < length args"
      "peval_args L M ds' args s = Some (outs, vs, s1)" "run_call L m outs vs s1 = Some (v, s')"
      by (auto split: option.splits if_splits)
    have "length (substitute_args sub ds' args) = length args" for ds'
      by (induction sub ds' args rule: substitute_substitute_args.induct(2) [where P = "\<lambda>_ _. True"]) auto
    with 6(1) [OF None ds(1,2) _ ds(3) 6(4)] 6(2) ds None show ?thesis by simp
  qed
next
  case (8 L M e es s)
  from 8(4) obtain w s1 vs' where e: "peval L M e s = Some (w, s1)" "pevals L M es s1 = Some (vs', s')" "vs = w # vs'"
    by (auto split: option.splits)
  from 8(1) [OF _ e(1) 8(5)] 8(2) [OF e(1) refl _ e(2) 8(5)] 8(3) e(3) show ?case by simp
next
  case (11 L M d ds e es s)
  show ?case
  proof (cases "d = Out \<or> d = InOut")
    case True
    with 11(5) obtain outs' where a: "peval_args L M ds es s = Some (outs', vs, s')" "outs = e # outs'" by auto
    from 11(1) [OF True _ a(1) 11(6)] 11(4) a(2) True show ?thesis by auto
  next
    case False
    with 11(5) obtain w s1 where e: "peval L M e s = Some (w, s1)" by (auto split: option.splits)
    with False 11(5) obtain vs' where a: "peval_args L M ds es s1 = Some (outs, vs', s')" "vs = w # vs'" by auto
    from 11(2) [OF False _ e 11(6)] 11(3) [OF False e refl _ a(1) 11(6)] 11(4) a(2) False show ?thesis by auto
  qed
qed auto

lemma call_free_substitute: "call_free e \<Longrightarrow> call_free (substitute sub e)"
  by (induction e rule: call_free.induct) (auto split: option.splits)

lemma base_pure_substitute:
  "base_pure sub e \<Longrightarrow> base_pure sub (substitute sub e)"
  "bases_pure sub es \<Longrightarrow> bases_pure sub (map (substitute sub) es) \<and> (\<forall>ds. bases_pure sub (substitute_args sub ds es))"
proof (induction sub e and sub es rule: base_pure_bases_pure.induct)
  case (8 sub e es)
  have "bases_pure sub (substitute_args sub ds (e # es))" for ds
    using 8 by (cases ds) auto
  with 8 show ?case by auto
next
  case (7 sub)
  have "substitute_args sub ds [] = []" for ds by (cases ds) auto
  then show ?case by simp
qed (auto simp: call_free_substitute split: option.splits)

lemma chosen_substitute:
  assumes "\<forall>c \<in> set cs. \<forall>l \<in> set_option (sc_label c). substitute sub l = l"
  shows "map (\<lambda>c. SwitchCase (sc_node c) (map_option (substitute sub) (sc_label c))
     (map_option (map (substitute_stmt sub)) (sc_statement c))) cs = map (map_case (substitute_stmt sub)) cs"
  using assms by (auto simp: map_case_def intro!: option.map_ident_strong)

lemma cases_ok_map: "cases_ok L M v (map (map_case f) cs) = cases_ok L M v cs"
  by (simp add: cases_ok_def map_case_def case_matches_def)

lemma substitute_stmt_runs:
  "all_stmts (stmt_pure sub) x \<Longrightarrow> exec L M x s = Some r \<Longrightarrow> M = value_monitor sub \<Longrightarrow>
   exec L M (substitute_stmt sub x) s = Some r"
  "\<forall>x \<in> set xs. all_stmts (stmt_pure sub) x \<Longrightarrow> exec_list L M xs s = Some r \<Longrightarrow> M = value_monitor sub \<Longrightarrow>
   exec_list L M (map (substitute_stmt sub) xs) s = Some r"
proof (induction L M x s and L M xs s arbitrary: r and r rule: exec_exec_list.induct)
  case (2 L M l e s)
  from 2(2) obtain v s' where e: "peval L M e s = Some (v, s')" by (auto split: option.splits)
  from 2(1) have "base_pure sub e" by (simp add: stmt_pure_def)
  from substitute_runs(1) [OF this e 2(3)] e 2(2) show ?case by simp
next
  case (3 L M y i s)
  show ?case
  proof (cases i)
    case None
    with 3(2) show ?thesis by simp
  next
    case (Some e)
    with 3(2) obtain v s' where e: "peval L M e s = Some (v, s')" by (auto split: option.splits)
    from 3(1) Some have p: "base_pure sub e" by (simp add: stmt_pure_def)
    from substitute_runs(1) [OF base_pure_substitute(1) [OF p] substitute_runs(1) [OF p e 3(3)] 3(3)] e 3(2) Some
    show ?thesis by simp
  qed
next
  case (4 L M n c t f s)
  have ok: "stmt_pure sub (SIf n c t f)" "all_stmts (stmt_pure sub) t"
    "\<And>g. f = Some g \<Longrightarrow> all_stmts (stmt_pure sub) g"
    using 4(3) by simp_all
  from ok(1) have p: "base_pure sub c" by (simp add: stmt_pure_def)
  from 4(4) obtain b s' where c: "peval L M c s = Some (VBool b, s')" "m_cond M n b"
    by (auto split: option.splits prod.splits val.splits if_splits)
  have t: "exec L M (substitute_stmt sub t) s' = Some r" if b
    using 4(1) [OF c(1) _ refl c(2) that ok(2) _ 4(5)] 4(4) c that by simp
  have f: "case f of None \<Rightarrow> r = (s', False) | Some g \<Rightarrow> exec L M (substitute_stmt sub g) s' = Some r" if "\<not> b"
    using 4(2) [OF c(1) _ refl c(2) that _ ok(3) _ 4(5)] 4(4) c that by (auto split: option.splits)
  from t f c substitute_runs(1) [OF p c(1) 4(5)] show ?case by (cases f) auto
next
  case (5 L M n e cs s)
  have ok: "stmt_pure sub (SSwitch n e cs)"
    "\<forall>x \<in> set (chosen_statement L v cs). all_stmts (stmt_pure sub) x" for v
    using 5(2) chosen_from [of L v cs] by auto
  from 5(3) obtain v s' where e: "peval L M e s = Some (v, s')" "cases_ok L M v cs"
    "exec_list L M (chosen_statement L v cs) s' = Some r"
    by (auto split: option.splits prod.splits if_splits)
  have p: "base_pure sub e" "\<forall>c \<in> set cs. \<forall>l \<in> set_option (sc_label c). substitute sub l = l"
    using ok(1) by (simp_all add: stmt_pure_def)
  from 5(1) [OF e(1) refl e(2) ok(2) e(3) 5(4)] e(2) substitute_runs(1) [OF p(1) e(1) 5(4)]
  show ?case by (simp add: chosen_substitute [OF p(2)] chosen_map cases_ok_map)
next
  case (6 L M n e s)
  from 6(2) obtain v s' where e: "peval L M e s = Some (v, s')" by (auto split: option.splits)
  from 6(1) have "base_pure sub e" by (simp add: stmt_pure_def)
  from substitute_runs(1) [OF this e 6(3)] e 6(2) show ?case by simp
next
  case (10 L M x xs s)
  from 10(4) obtain s' stopped where x: "exec L M x s = Some (s', stopped)"
    "(if stopped then Some (s', True) else exec_list L M xs s') = Some r"
    by (auto split: option.splits prod.splits)
  from 10(1) [OF _ x(1) 10(5)] 10(2) [OF x(1) refl _ _ _ 10(5)] 10(3) x(2) show ?case
    by (auto split: if_splits)
qed (simp_all add: stmt_pure_def)

text \<open>Removing dead code keeps what the second pass needs.\<close>

definition defaults_pure :: "reachability \<Rightarrow> substitution \<Rightarrow> ReferenceMap \<Rightarrow> bool" where
  "defaults_pure reach sub refMap \<longleftrightarrow>
     (\<forall>t td e. refMap t = Some (TableDecl td) \<and> td_defaultAction td = Some e \<longrightarrow> hit_free reach e \<and> base_pure sub e)"

lemma elim_call_cases:
  assumes "base_pure sub e" and "hit_free reach e" and "defaults_pure reach sub refMap"
  shows "elim_call refMap reach n e = SEmpty \<or>
    (\<exists>n' e'. elim_call refMap reach n e = SCall n' e' \<and> hit_free reach e' \<and> base_pure sub e')"
proof (cases "elim_call refMap reach n e = SCall n e \<or> elim_call refMap reach n e = SEmpty")
  case False
  then obtain cn m ds args t td dn dm dds dargs where e: "e = PCall cn m ds args"
    "applied_table refMap m = Some (t, td)" "td_defaultAction td = Some (PCall dn dm dds dargs)"
    "elim_call refMap reach n e = SCall dn (PCall dn dm dds dargs)"
    by (auto simp: elim_call_def split: pexp.splits option.splits if_splits prod.splits)
  then have "refMap t = Some (TableDecl td)"
    by (auto simp: applied_table_def split: pexp.splits if_splits option.splits decl.splits)
  with e(3) assms(3) have "hit_free reach (PCall dn dm dds dargs) \<and> base_pure sub (PCall dn dm dds dargs)"
    unfolding defaults_pure_def by blast
  with e(4) show ?thesis by blast
qed (use assms in auto)

lemma stmt_pure_simps:
  "stmt_pure sub SEmpty" "stmt_pure sub (SOther y)" "stmt_pure sub (SBlock ss)"
  "stmt_pure sub (SIf n c t f) \<longleftrightarrow> base_pure sub c"
  "stmt_pure sub (SSwitch n e cs) \<longleftrightarrow>
     base_pure sub e \<and> (\<forall>c \<in> set cs. \<forall>l \<in> set_option (sc_label c). substitute sub l = l)"
  by (simp_all add: stmt_pure_def)

lemma node_ok_empty: "node_ok refMap reach SEmpty"
  by (simp add: node_ok_def)

lemma elim_pure:
  "all_stmts (stmt_pure sub) x \<Longrightarrow> all_stmts (node_ok refMap reach) x \<Longrightarrow>
   defaults_pure reach sub refMap \<Longrightarrow> all_stmts (stmt_pure sub) (elim refMap reach d x)"
proof (induction refMap reach d x rule: elim.induct)
  case (1 refMap reach d l r)
  then show ?case by (simp add: stmt_pure_def node_ok_def elim_pexp_id)
next
  case (2 refMap reach d y i)
  then show ?case by (cases i) (simp_all add: stmt_pure_def node_ok_def elim_pexp_id)
next
  case (3 refMap reach d n c t f)
  obtain c' t' f' where e: "elim_if reach d n c t f = (c', t', f')" by (cases "elim_if reach d n c t f") auto
  have "stmt_pure sub (SIf n c t f)" "node_ok refMap reach (SIf n c t f)" using 3(3,4) by simp_all
  then have c: "base_pure sub c" "elim_pexp reach c = c" by (simp_all add: stmt_pure_def node_ok_def elim_pexp_id)
  have c': "base_pure sub (elim_pexp reach c')"
    using e c by (auto simp: elim_if_def split: if_splits option.splits)
  have t': "all_stmts (stmt_pure sub) t'" "all_stmts (node_ok refMap reach) t'"
    using e 3(3,4) node_ok_empty stmt_pure_simps(1) by (auto simp: elim_if_def split: if_splits option.splits)
  have f': "all_stmts (stmt_pure sub) g" "all_stmts (node_ok refMap reach) g" if "f' = Some g" for g
    using e 3(3,4) that by (auto simp: elim_if_def split: if_splits option.splits)
  have "all_stmts (stmt_pure sub) (elim refMap reach d t')"
    using 3(1) [OF e [symmetric] refl t' 3(5)] .
  moreover have "all_stmts (stmt_pure sub) (elim refMap reach d g)" if "f' = Some g" for g
    using 3(2) [OF e [symmetric] refl _ f' [OF that] 3(5)] that by simp
  ultimately show ?case using e c' by (cases f') (simp_all add: stmt_pure_simps)
next
  case (4 refMap reach d n e cs)
  let ?fs = "filter_cases reach False [] cs"
  have ok: "stmt_pure sub (SSwitch n e cs)" "node_ok refMap reach (SSwitch n e cs)" using 4(3,4) by simp_all
  then have e: "base_pure sub e" "elim_pexp reach e = e"
    and labels: "\<forall>c \<in> set cs. \<forall>l \<in> set_option (sc_label c). substitute sub l = l"
      "\<forall>c \<in> set cs. \<forall>l \<in> set_option (sc_label c). hit_free reach l"
    by (simp_all add: stmt_pure_simps node_ok_def elim_pexp_id)
  have kept: "substitute sub l = l" if "c \<in> set ?fs" "map_option (elim_pexp reach) (sc_label c) = Some l" for c l
    using filtered_labels_kept [OF labels(2) that(1)] filter_cases_labels [OF that(1)] labels(1) that(2) by auto
  have stmts: "all_stmts (stmt_pure sub) (elim refMap reach d y)"
    if c: "c \<in> set ?fs" "sc_statement c = Some ss" "y \<in> set ss" for c ss y
  proof -
    from filter_cases_statements [OF c(1,2)] obtain c0 where "c0 \<in> set cs" "sc_statement c0 = Some ss" by auto
    with 4(3,4) c(3) have y: "all_stmts (stmt_pure sub) y" "all_stmts (node_ok refMap reach) y" by auto
    from c(1) have ne: "?fs \<noteq> []" by (metis empty_iff empty_set)
    show ?thesis
    proof (cases "length ?fs = 1 \<and> sc_label (hd ?fs) = None")
      case True
      with c have "sc_statement (hd ?fs) = Some ss" by (auto simp: length_Suc_conv)
      from 4(1) [OF refl ne True this c(3) y 4(5)] show ?thesis .
    next
      case False
      from 4(2) [OF refl ne False c y 4(5)] show ?thesis .
    qed
  qed
  have "all_stmts (stmt_pure sub) (elim refMap reach d y)"
    if "?fs \<noteq> []" "sc_statement (hd ?fs) = Some ss" "y \<in> set ss" for ss y
    using stmts [OF hd_in_set [OF that(1)] that(2,3)] .
  then show ?case
    using stmts e kept by (auto simp: Let_def stmt_pure_simps split: option.splits)
next
  case (5 refMap reach d n e)
  have "base_pure sub e" "hit_free reach e" using 5 by (simp_all add: stmt_pure_def node_ok_def)
  from elim_call_cases [OF this 5(3), of n] show ?case
    by (auto simp: stmt_pure_def elim_pexp_id)
qed (auto simp: stmt_pure_simps)

text \<open>
  SubstituteExpressions preserves behaviour: in a program whose replaced members have bases
  without calls and whose switch labels are constants, an execution along which every path and member
  with a constant in the substitution map has that value ends in the same state after the pass, with
  every remaining path and member still agreeing with the map.
\<close>

theorem substitute_expressions_preserves:
  assumes "all_stmts (stmt_pure sub) x" and "exec L (value_monitor sub) x s = Some r"
  shows "exec L (value_monitor sub) (substitute_stmt sub x) s = Some r"
  using substitute_stmt_runs(1) [OF assms refl] .

definition demo_sub :: substitution where
  "demo_sub = [Node 20 0 \<mapsto> Constant (Type_Bits 8 False) 4]"

definition demo_assign :: stmt where
  "demo_assign = SAssign (PPath (Node 21 0) (Type_Bits 8 False) ''n'') (PPath (Node 20 0) (Type_Bits 8 False) ''n'')"

theorem substitute_expressions_preserves_witness:
  "exec demo_language (value_monitor demo_sub)
     (SAssign (PPath (Node 21 0) (Type_Bits 8 False) ''n'') (PLit (Constant (Type_Bits 8 False) 4))) 4 = Some (14, False)"
proof -
  have "exec demo_language (value_monitor demo_sub) demo_assign 4 = Some (14, False)"
    by (simp add: demo_assign_def demo_language_def demo_sub_def verdict_monitor_def literal_value_def const_val_def)
  moreover have "all_stmts (stmt_pure demo_sub) demo_assign"
    by (simp add: demo_assign_def stmt_pure_def)
  ultimately show ?thesis
    using substitute_expressions_preserves [of demo_sub demo_assign demo_language 4 "(14, False)"]
    by (simp add: demo_assign_def demo_sub_def replacement_def isValid_def is_Type_Bits_def)
qed

lemma specializer_runs:
  assumes "all_stmts (node_ok (l_refMap L) reach) x" and "all_stmts (stmt_pure sub) x"
    and "default_consistent reach L" and "defaults_pure reach sub (l_refMap L)"
    and "exec L (verdict_monitor reach sub) x s = Some r"
  shows "run L (FlaySpecializer (l_refMap L) reach sub d x) s = Some r \<and> run L x s = Some r"
proof -
  have "exec L (value_monitor sub) (elim (l_refMap L) reach d x) s = Some r"
    using elim_runs(1) [OF assms(1,3,5) refl] .
  from substitute_stmt_runs(1) [OF elim_pure [OF assms(2,1,4)] this refl]
  have "exec L (value_monitor sub) (FlaySpecializer (l_refMap L) reach sub d x) s = Some r"
    by (simp add: FlaySpecializer_def)
  from exec_weaker(1) [OF weaker_no_monitor this] exec_weaker(1) [OF weaker_no_monitor assms(5)]
  show ?thesis by simp
qed

text \<open>
  Claim C6. The specializer preserves the behaviour of the programs it handles without loss: take an
  execution along which the verdicts of both maps are right, in a program where
  \<^item> no hit or miss test of a table carries a verdict, every switch has its default case last, merging
    its removed cases overwrites the statement of no live case, and a switch that loses all its labels
    has a selector without calls (\<open>node_ok\<close>),
  \<^item> a member that is replaced by a constant has no call in its base, and the labels of switches are
    constants the substitution leaves alone (\<open>stmt_pure\<close>),
  \<^item> every table picks actions of its list or its default action, and runs the default action with the
    arguments the program declares (\<open>default_consistent\<close>),
  \<^item> the declared default actions have no hit test with a verdict and no call in the base of a replaced
    member (\<open>defaults_pure\<close>).
  Then the program that removing dead code and afterwards substituting constants returns runs to the
  same final state from the same start, like the program itself. Without the first and the third
  condition this fails; the theorems on what the pass over dead code loses give the counterexamples.
\<close>

theorem flay_specializer_preserves:
  assumes "all_stmts (node_ok (l_refMap L) reach) x" and "all_stmts (stmt_pure sub) x"
    and "default_consistent reach L" and "defaults_pure reach sub (l_refMap L)"
    and "exec L (verdict_monitor reach sub) x s = Some r"
  shows "run L (FlaySpecializer (l_refMap L) reach sub d x) s = Some r \<and> run L x s = Some r"
  using specializer_runs [OF assms] .

theorem flay_specializer_preserves_witness:
  "run demo_language (SBlock [SIf (Node 5 0) (PLNot (PLit (BoolLiteral False))) SEmpty None,
     SCall (Node 3 0) demo_default]) 4 = Some (5, False)"
proof -
  have pure: "all_stmts (stmt_pure demo_sub) (SBlock [demo_branch, demo_apply])"
    by (simp add: demo_branch_def demo_apply_def stmt_pure_def)
  have defaults: "defaults_pure demo_reach demo_sub (l_refMap demo_language)"
    by (auto simp: defaults_pure_def demo_defs split: if_splits)
  have same: "FlaySpecializer (l_refMap demo_language) demo_reach demo_sub False (SBlock [demo_branch, demo_apply]) =
    SBlock [SIf (Node 5 0) (PLNot (PLit (BoolLiteral False))) SEmpty None, SCall (Node 3 0) demo_default]"
    unfolding FlaySpecializer_def demo_elim by (simp add: demo_default_def)
  show ?thesis
    using flay_specializer_preserves [OF demo_ok pure demo_default_consistent defaults demo_run, of False]
    unfolding same by blast
qed

end
