(* ===== verification/Specializer.thy ===== *)
theory Specializer
  imports SubstituteExpressions
begin

text \<open>
  The two passes on whole programs: which errors they report, which the partial evaluation looks at
  afterwards (\<open>errorCount()\<close>), the option to skip parsers, and the counter of statements of
  \<open>specialization/flay_service.h\<close>.
\<close>

section \<open>Errors the passes report\<close>

text \<open>
  A table without default action, one whose default action is no call, and a default action whose
  declaration is not found.
\<close>

definition elim_call_error :: "ReferenceMap \<Rightarrow> reachability \<Rightarrow> pexp \<Rightarrow> bool" where
  "elim_call_error refMap reach e \<longleftrightarrow>
     (case e of
        PCall cn m ds args \<Rightarrow>
          (case applied_table refMap m of
             None \<Rightarrow> False
           | Some (t, td) \<Rightarrow>
               \<not> td_isImmutable td \<and>
               (case td_defaultAction td of
                  Some (PCall dn dm dds dargs) \<Rightarrow>
                    only_default reach (to_string dm) (td_actions td) \<and>
                    getActionDecl refMap (PCall dn dm dds dargs) = None
                | _ \<Rightarrow> True))
      | _ \<Rightarrow> False)"

text \<open>The errors of the statements the traversal reaches, which are those that are kept.\<close>

function (sequential) elim_error :: "ReferenceMap \<Rightarrow> reachability \<Rightarrow> bool \<Rightarrow> stmt \<Rightarrow> bool" where
  "elim_error refMap reach inInstance (SIf n c t f) =
     (case elim_if reach inInstance n c t f of
        (c', t', f') \<Rightarrow>
          elim_error refMap reach inInstance t' \<or> (\<exists>g \<in> set_option f'. elim_error refMap reach inInstance g))"
| "elim_error refMap reach inInstance (SSwitch n e cs) =
     (\<exists>c \<in> set (filter_cases reach False [] cs). \<exists>ss \<in> set_option (sc_statement c).
        \<exists>x \<in> set ss. elim_error refMap reach inInstance x)"
| "elim_error refMap reach inInstance (SCall n e) = elim_call_error refMap reach e"
| "elim_error refMap reach inInstance (SBlock ss) = (\<exists>x \<in> set ss. elim_error refMap reach inInstance x)"
| "elim_error refMap reach inInstance other = False"
  by pat_completeness auto
termination
  by (relation "measure (\<lambda>(refMap, reach, d, x). size x)")
    (auto intro: elim_if_size block_statement_size less_SucI filtered_statement_size)

text \<open>More arguments than parameters.\<close>

fun substitute_error :: "substitution \<Rightarrow> pexp \<Rightarrow> bool"
  and substitute_args_error :: "substitution \<Rightarrow> direction list \<Rightarrow> pexp list \<Rightarrow> bool" where
  "substitute_error sub (PMember n t e m) = (replacement sub n t = None \<and> substitute_error sub e)"
| "substitute_error sub (PLNot e) = substitute_error sub e"
| "substitute_error sub (POp f es) = (\<exists>e \<in> set es. substitute_error sub e)"
| "substitute_error sub (PCall n m ds args) =
     (case ds of
        None \<Rightarrow> False
      | Some paramList \<Rightarrow> length args > length paramList \<or> substitute_args_error sub paramList args)"
| "substitute_error sub other = False"
| "substitute_args_error sub (direction # paramList) (e # es) =
     (\<not> (direction = InOut \<or> direction = Out) \<and> substitute_error sub e \<or> substitute_args_error sub paramList es)"
| "substitute_args_error sub paramList es = False"

function (sequential) substitute_stmt_error :: "substitution \<Rightarrow> stmt \<Rightarrow> bool" where
  "substitute_stmt_error sub (SAssign l r) = substitute_error sub r"
| "substitute_stmt_error sub (SDecl x initializer) =
     (\<exists>i \<in> set_option initializer. substitute_error sub i \<or> substitute_error sub (substitute sub i))"
| "substitute_stmt_error sub (SIf n c t f) =
     (substitute_error sub c \<or> substitute_stmt_error sub t \<or> (\<exists>g \<in> set_option f. substitute_stmt_error sub g))"
| "substitute_stmt_error sub (SSwitch n e cs) =
     (substitute_error sub e \<or>
      (\<exists>c \<in> set cs. (\<exists>l \<in> set_option (sc_label c). substitute_error sub l) \<or>
         (\<exists>ss \<in> set_option (sc_statement c). \<exists>x \<in> set ss. substitute_stmt_error sub x)))"
| "substitute_stmt_error sub (SCall n e) = substitute_error sub e"
| "substitute_stmt_error sub (SBlock ss) = (\<exists>x \<in> set ss. substitute_stmt_error sub x)"
| "substitute_stmt_error sub other = False"
  by pat_completeness auto
termination
  by (relation "measure (\<lambda>(sub, x). size x)")
    (auto intro: block_statement_size less_SucI case_statement_size)

section \<open>Programs\<close>

text \<open>
  The parts of a program that hold statements. Both passes leave parsers alone when the option says
  so, and if statements inside of declaration instances in any case.
\<close>

datatype program_part =
    P4Parser "stmt list"
  | P4Control "stmt list"
  | Declaration_Instance "stmt list"
  | OtherPart string

type_synonym P4Program = "program_part list"

definition specialize_part :: "bool \<Rightarrow> ReferenceMap \<Rightarrow> reachability \<Rightarrow> substitution \<Rightarrow> program_part \<Rightarrow> program_part" where
  "specialize_part skipParsers refMap reach sub part =
     (case part of
        P4Parser ss \<Rightarrow> if skipParsers then P4Parser ss else P4Parser (map (FlaySpecializer refMap reach sub False) ss)
      | P4Control ss \<Rightarrow> P4Control (map (FlaySpecializer refMap reach sub False) ss)
      | Declaration_Instance ss \<Rightarrow> Declaration_Instance (map (FlaySpecializer refMap reach sub True) ss)
      | OtherPart x \<Rightarrow> OtherPart x)"

definition specialize_program :: "bool \<Rightarrow> ReferenceMap \<Rightarrow> reachability \<Rightarrow> substitution \<Rightarrow> P4Program \<Rightarrow> P4Program" where
  "specialize_program skipParsers refMap reach sub program =
     map (specialize_part skipParsers refMap reach sub) program"

definition specialize_stmt_error :: "ReferenceMap \<Rightarrow> reachability \<Rightarrow> substitution \<Rightarrow> bool \<Rightarrow> stmt \<Rightarrow> bool" where
  "specialize_stmt_error refMap reach sub inInstance x \<longleftrightarrow>
     elim_error refMap reach inInstance x \<or> substitute_stmt_error sub (elim refMap reach inInstance x)"

definition specialize_error :: "bool \<Rightarrow> ReferenceMap \<Rightarrow> reachability \<Rightarrow> substitution \<Rightarrow> P4Program \<Rightarrow> bool" where
  "specialize_error skipParsers refMap reach sub program \<longleftrightarrow>
     (\<exists>part \<in> set program.
        case part of
          P4Parser ss \<Rightarrow> \<not> skipParsers \<and> (\<exists>x \<in> set ss. specialize_stmt_error refMap reach sub False x)
        | P4Control ss \<Rightarrow> \<exists>x \<in> set ss. specialize_stmt_error refMap reach sub False x
        | Declaration_Instance ss \<Rightarrow> \<exists>x \<in> set ss. specialize_stmt_error refMap reach sub True x
        | OtherPart x \<Rightarrow> False)"

section \<open>Counting statements\<close>

text \<open>\<open>StatementCounter\<close> counts assignments and calls and looks into neither.\<close>

function (sequential) count_stmt :: "stmt \<Rightarrow> nat" where
  "count_stmt (SAssign l r) = 1"
| "count_stmt (SCall n e) = 1"
| "count_stmt (SIf n c t f) = count_stmt t + (case f of None \<Rightarrow> 0 | Some g \<Rightarrow> count_stmt g)"
| "count_stmt (SSwitch n e cs) =
     sum_list (map (\<lambda>c. case sc_statement c of None \<Rightarrow> 0 | Some ss \<Rightarrow> sum_list (map count_stmt ss)) cs)"
| "count_stmt (SBlock ss) = sum_list (map count_stmt ss)"
| "count_stmt other = 0"
  by pat_completeness auto
termination
  by (relation "measure size")
    (auto intro: block_statement_size less_SucI case_statement_size)

definition countStatements :: "P4Program \<Rightarrow> nat" where
  "countStatements prog =
     sum_list (map (\<lambda>part. case part of P4Parser ss \<Rightarrow> sum_list (map count_stmt ss)
       | P4Control ss \<Rightarrow> sum_list (map count_stmt ss) | Declaration_Instance ss \<Rightarrow> sum_list (map count_stmt ss)
       | OtherPart x \<Rightarrow> 0) prog)"

definition count_case :: "switch_case \<Rightarrow> nat" where
  "count_case c = (case sc_statement c of None \<Rightarrow> 0 | Some ss \<Rightarrow> sum_list (map count_stmt ss))"

lemma count_switch: "count_stmt (SSwitch n e cs) = sum_list (map count_case cs)"
  by (simp add: count_case_def [abs_def])

declare count_stmt.simps(4) [simp del]

lemma merge_back_count:
  assumes "filtered \<noteq> []"
  shows "sum_list (map count_case (merge_back (sc_statement c) filtered)) \<le>
    sum_list (map count_case filtered) + count_case c"
proof -
  obtain xs l where "filtered = xs @ [l]" using assms by (metis append_butlast_last_id)
  then show ?thesis by (simp add: merge_back_def Let_def count_case_def)
qed

lemma filter_cases_count:
  "sum_list (map count_case (filter_cases reach p filtered cs)) \<le>
   sum_list (map count_case filtered) + sum_list (map count_case cs)"
proof (induction reach p filtered cs rule: filter_cases.induct)
  case (2 reach p filtered d cs)
  show ?case
  proof (cases "sc_label d")
    case (Some lab)
    then have label: "sc_label d \<noteq> None" by simp
    show ?thesis
    proof (cases "reach (sc_node d)")
      case None
      from 2(1) [OF label None] Some None show ?thesis by simp
    next
      case r: (Some b)
      show ?thesis
      proof (cases b)
        case True
        with 2(2) [OF label r True] Some r show ?thesis by auto
      next
        case False
        let ?f = "if p \<and> filtered \<noteq> [] \<and> sc_statement d \<noteq> None then merge_back (sc_statement d) filtered else filtered"
        have "sum_list (map count_case ?f) \<le> sum_list (map count_case filtered) + count_case d"
          using merge_back_count [of filtered d] by auto
        moreover have "filter_cases reach p filtered (d # cs) = filter_cases reach (sc_statement d = None) ?f cs"
          using Some r False by (simp add: Let_def)
        ultimately show ?thesis using 2(3) [OF label r False refl] by simp
      qed
    qed
  qed simp
qed simp

lemma count_block_mono:
  "(\<And>x. x \<in> set ss \<Longrightarrow> count_stmt (f x) \<le> count_stmt x) \<Longrightarrow>
   sum_list (map count_stmt (map f ss)) \<le> sum_list (map count_stmt ss)"
  by (induction ss) (auto simp: add_mono)

lemma substitute_stmt_count: "count_stmt (substitute_stmt sub x) = count_stmt x"
proof (induction sub x rule: substitute_stmt.induct)
  case (4 sub n e cs)
  have "sum_list (map count_stmt (map (substitute_stmt sub) ss)) = sum_list (map count_stmt ss)"
    if "c \<in> set cs" "sc_statement c = Some ss" for c ss
    using 4 [OF that] by (simp add: comp_def cong: map_cong)
  then have "count_case (SwitchCase (sc_node c) (map_option (substitute sub) (sc_label c))
      (map_option (map (substitute_stmt sub)) (sc_statement c))) = count_case c" if "c \<in> set cs" for c
    using that by (auto simp: count_case_def split: option.splits)
  then show ?case by (simp add: count_switch comp_def cong: map_cong)
next
  case (6 sub ss)
  then show ?case by (simp add: comp_def cong: map_cong)
qed (auto split: option.splits)

lemma elim_count: "count_stmt (elim refMap reach d x) \<le> count_stmt x"
proof (induction refMap reach d x rule: elim.induct)
  case (3 refMap reach d n c t f)
  then show ?case
    by (cases f) (fastforce simp: elim_if_def split: if_splits option.splits)+
next
  case (4 refMap reach d n e cs)
  let ?fs = "filter_cases reach False [] cs"
  have bound: "sum_list (map count_case ?fs) \<le> sum_list (map count_case cs)"
    using filter_cases_count [of reach False "[]" cs] by simp
  show ?case
  proof (cases "?fs = []")
    case ne: False
    show ?thesis
    proof (cases "length ?fs = 1 \<and> sc_label (hd ?fs) = None")
      case True
      then obtain c where c: "?fs = [c]" "sc_label c = None" by (auto simp: length_Suc_conv)
      show ?thesis
      proof (cases "sc_statement c")
        case None
        with c show ?thesis by (simp add: Let_def)
      next
        case (Some ss)
        with 4(1) [OF refl ne True] c have "count_stmt (elim refMap reach d x) \<le> count_stmt x" if "x \<in> set ss" for x
          using that by simp
        then have "sum_list (map count_stmt (map (elim refMap reach d) ss)) \<le> sum_list (map count_stmt ss)"
          by (rule count_block_mono)
        with bound c Some show ?thesis
          by (simp add: Let_def count_switch count_case_def)
      qed
    next
      case False
      have "count_case (SwitchCase (sc_node c) (map_option (elim_pexp reach) (sc_label c))
          (map_option (map (elim refMap reach d)) (sc_statement c))) \<le> count_case c" if "c \<in> set ?fs" for c
        using count_block_mono [of "the (sc_statement c)" "elim refMap reach d"] 4(2) [OF refl ne False that]
        by (auto simp: count_case_def split: option.splits)
      then have "sum_list (map (\<lambda>c. count_case (SwitchCase (sc_node c) (map_option (elim_pexp reach) (sc_label c))
          (map_option (map (elim refMap reach d)) (sc_statement c)))) ?fs) \<le> sum_list (map count_case ?fs)"
        by (intro sum_list_mono) simp
      with bound ne False show ?thesis by (auto simp: Let_def count_switch comp_def)
    qed
  qed (simp add: Let_def)
next
  case (5 refMap reach d n e)
  then show ?case
    by (auto simp: elim_call_def split: pexp.splits option.splits prod.splits if_splits)
next
  case (6 refMap reach d ss)
  from count_block_mono [OF 6] show ?case by simp
qed simp_all

text \<open>
  Claim C37. Specialization never adds statements: for every pair of maps, right or wrong, the
  specialized program has at most as many assignments and calls as the program it was made from.
\<close>

theorem specialization_never_grows:
  "countStatements (specialize_program skipParsers refMap reach sub program) \<le> countStatements program"
proof -
  have stmt: "count_stmt (FlaySpecializer refMap reach sub d x) \<le> count_stmt x" for d x
    using elim_count [of refMap reach d x] by (simp add: FlaySpecializer_def substitute_stmt_count)
  have block: "sum_list (map count_stmt (map (FlaySpecializer refMap reach sub d) ss)) \<le> sum_list (map count_stmt ss)"
    for d ss using count_block_mono stmt by blast
  show ?thesis
    unfolding countStatements_def specialize_program_def map_map
    by (rule sum_list_mono)
      (use block in \<open>auto simp: specialize_part_def split: program_part.splits simp del: map_map\<close>)
qed

end
