(* ===== verification/SymbolicState.thy ===== *)
theory SymbolicState
  imports ControlPlaneItems
begin

text \<open>
  The initial configuration of a program (\<open>core/control_plane/symbolic_state.cpp\<close> and
  \<open>targets/*/symbolic_state.cpp\<close>): a visitor that makes one object for every table, parser value
  set, action profile and action selector of the program, with the entries and default actions
  the program itself declares.

  Of the compiler's tree a table is its name, key elements, entries, default action and
  implementation, as the records below have them. Resolving a name (\<open>getDeclaration\<close>), the
  normalising constructor of constants and the names of the core match kinds belong to the
  compiler and are parameters.

  The lemmas show what the entries a program declares match, which objects a visit may change
  and that the tables it makes are well formed.
\<close>

section \<open>What the compiler provides\<close>

record compiler =
  Constant_get :: "ty \<Rightarrow> int \<Rightarrow> expr"
  getMaxValueConstant :: "ty \<Rightarrow> expr"
  MATCH_KIND_EXACT :: string
  MATCH_KIND_LPM :: string
  MATCH_KIND_TERNARY :: string

definition MATCH_KIND_RANGE :: string where "MATCH_KIND_RANGE = ''range''"
definition MATCH_KIND_OPT :: string where "MATCH_KIND_OPT = ''optional''"

record P4Parameter =
  pp_controlPlaneName :: string
  pp_type :: ty

record P4Action =
  pa_controlPlaneName :: string
  pa_parameters :: "P4Parameter list"

text \<open>A call of an action: a method call on a path, or anything else.\<close>

datatype method_ref = PathExpression string | OtherMethod
datatype action_expr = MethodCallExpression method_ref "expr list" | OtherActionExpression

record KeyElement =
  ke_expression :: "expr option"
  ke_nameAnnotation :: "string option"
  ke_matchType :: string

record Entry =
  en_keys :: "expr list"
  en_action :: action_expr
  en_priority :: "expr option"

datatype implementation_expr = ImplementationPath string | OtherImplementation

record P4Table =
  pt_controlPlaneName :: string
  pt_key :: "KeyElement list option"
  pt_entries :: "Entry list option"
  pt_defaultAction :: action_expr
  pt_implementation :: "implementation_expr option"

text \<open>
  A declaration: an action, an instance (its type's path when that is a name, and the paths among
  its arguments) or another declaration, such as an extern type.
\<close>

record Declaration_Instance =
  di_controlPlaneName :: string
  di_typeName :: "string option"
  di_arguments :: "string option list"

datatype IDeclaration =
    P4ActionDeclaration P4Action
  | InstanceDeclaration Declaration_Instance
  | OtherDeclaration string string

fun getName :: "IDeclaration \<Rightarrow> string" where
  "getName (P4ActionDeclaration a) = pa_controlPlaneName a"
| "getName (InstanceDeclaration d) = di_controlPlaneName d"
| "getName (OtherDeclaration n c) = n"

fun decl_controlPlaneName :: "IDeclaration \<Rightarrow> string" where
  "decl_controlPlaneName (P4ActionDeclaration a) = pa_controlPlaneName a"
| "decl_controlPlaneName (InstanceDeclaration d) = di_controlPlaneName d"
| "decl_controlPlaneName (OtherDeclaration n c) = c"

type_synonym resolution = "string \<Rightarrow> IDeclaration option"

fun to_Literal :: "expr \<Rightarrow> expr option" where
  "to_Literal (BoolLiteral b) = Some (BoolLiteral b)"
| "to_Literal (Constant t n) = Some (Constant t n)"
| "to_Literal (StringLiteral s) = Some (StringLiteral s)"
| "to_Literal _ = None"

abbreviation emplace :: "svar \<Rightarrow> expr \<Rightarrow> ControlPlaneAssignmentSet \<Rightarrow> ControlPlaneAssignmentSet" where
  "emplace x e s \<equiv> om_emplace sv_key s x e"

section \<open>Keys of declared entries\<close>

text \<open>The key set is only returned when the match succeeds; a failure discards it in every caller.\<close>

definition computeMatch ::
  "compiler \<Rightarrow> cp_symbols \<Rightarrow> expr \<Rightarrow> svar \<Rightarrow> string \<Rightarrow> string \<Rightarrow> string \<Rightarrow>
   ControlPlaneAssignmentSet \<Rightarrow> ControlPlaneAssignmentSet option" where
  "computeMatch I P entryKey keySymbol tableName fieldName matchType keySet =
     (let keyType = sv_type keySymbol in
      if matchType = MATCH_KIND_EXACT I
      then assign_or_return (to_Literal entryKey) (\<lambda>exactValue. Some (emplace keySymbol exactValue keySet))
      else if matchType = MATCH_KIND_LPM I
      then (let lpmPrefixSymbol = getTableMatchLpmPrefix P tableName fieldName keyType in
        case entryKey of
          DefaultExpression \<Rightarrow>
            Some (emplace lpmPrefixSymbol (Constant_get I keyType 0)
              (emplace keySymbol (Constant_get I keyType 0) keySet))
        | Binary t Mask l r \<Rightarrow>
            assign_or_return (to_Literal l) (\<lambda>maskLeft.
            assign_or_return (to_Literal r) (\<lambda>maskRight.
            Some (emplace lpmPrefixSymbol maskRight (emplace keySymbol maskLeft keySet))))
        | _ \<Rightarrow>
            assign_or_return (to_Literal entryKey) (\<lambda>exactValue.
            Some (emplace lpmPrefixSymbol (Constant_get I keyType (int (width_bits keyType)))
              (emplace keySymbol exactValue keySet))))
      else if matchType = MATCH_KIND_TERNARY I
      then (let maskSymbol = getTableTernaryMask P tableName fieldName keyType in
        case entryKey of
          DefaultExpression \<Rightarrow>
            Some (emplace maskSymbol (Constant_get I keyType 0)
              (emplace keySymbol (Constant_get I keyType 0) keySet))
        | Binary t Mask l r \<Rightarrow>
            assign_or_return (to_Literal l) (\<lambda>maskLeft.
            assign_or_return (to_Literal r) (\<lambda>maskRight.
            Some (emplace maskSymbol maskRight (emplace keySymbol maskLeft keySet))))
        | _ \<Rightarrow>
            assign_or_return (to_Literal entryKey) (\<lambda>exactValue.
            Some (emplace maskSymbol (getMaxValueConstant I keyType)
              (emplace keySymbol exactValue keySet))))
      else None)"

text \<open>
  The targets override the match: they add ranges, which all of them treat alike, and optional
  keys, where BMv2 gives a default expression a zero key and mask and the others assign nothing.
\<close>

datatype target = Bmv2 | Tofino | Nikss | Fpga

definition range_min :: "ty \<Rightarrow> string \<Rightarrow> string \<Rightarrow> svar" where
  "range_min t tableName fieldName = getSymbolicVariable t (tableName @ ''_range_min_'' @ fieldName)"

definition range_max :: "ty \<Rightarrow> string \<Rightarrow> string \<Rightarrow> svar" where
  "range_max t tableName fieldName = getSymbolicVariable t (tableName @ ''_range_max_'' @ fieldName)"

definition computeRangeMatch ::
  "compiler \<Rightarrow> expr \<Rightarrow> ty \<Rightarrow> string \<Rightarrow> string \<Rightarrow> ControlPlaneAssignmentSet \<Rightarrow> ControlPlaneAssignmentSet option" where
  "computeRangeMatch I entryKey keyType tableName fieldName keySet =
     (let minKey = range_min keyType tableName fieldName;
          maxKey = range_max keyType tableName fieldName in
      case entryKey of
        DefaultExpression \<Rightarrow>
          Some (emplace maxKey (getMaxValueConstant I keyType)
            (emplace minKey (Constant_get I keyType 0) keySet))
      | Binary t Range l r \<Rightarrow>
          assign_or_return (to_Literal l) (\<lambda>minExpr.
          assign_or_return (to_Literal r) (\<lambda>maxExpr.
          Some (emplace maxKey maxExpr (emplace minKey minExpr keySet))))
      | _ \<Rightarrow>
          assign_or_return (to_Literal entryKey) (\<lambda>exactValue.
          Some (emplace maxKey exactValue (emplace minKey exactValue keySet))))"

definition Bmv2_computeMatch ::
  "compiler \<Rightarrow> cp_symbols \<Rightarrow> expr \<Rightarrow> svar \<Rightarrow> string \<Rightarrow> string \<Rightarrow> string \<Rightarrow>
   ControlPlaneAssignmentSet \<Rightarrow> ControlPlaneAssignmentSet option" where
  "Bmv2_computeMatch I P entryKey keySymbol tableName fieldName matchType keySet =
     (if matchType = MATCH_KIND_RANGE
      then computeRangeMatch I entryKey (sv_type keySymbol) tableName fieldName keySet
      else if matchType = MATCH_KIND_OPT
      then (case entryKey of
          DefaultExpression \<Rightarrow>
            Some (emplace (getTableTernaryMask P tableName fieldName (sv_type keySymbol))
              (Constant_get I (sv_type keySymbol) 0)
              (emplace keySymbol (Constant_get I (sv_type keySymbol) 0) keySet))
        | _ \<Rightarrow> assign_or_return (to_Literal entryKey) (\<lambda>exactValue. Some (emplace keySymbol exactValue keySet)))
      else computeMatch I P entryKey keySymbol tableName fieldName matchType keySet)"

definition Tofino_computeMatch ::
  "compiler \<Rightarrow> cp_symbols \<Rightarrow> expr \<Rightarrow> svar \<Rightarrow> string \<Rightarrow> string \<Rightarrow> string \<Rightarrow>
   ControlPlaneAssignmentSet \<Rightarrow> ControlPlaneAssignmentSet option" where
  "Tofino_computeMatch I P entryKey keySymbol tableName fieldName matchType keySet =
     (if matchType = MATCH_KIND_RANGE
      then computeRangeMatch I entryKey (sv_type keySymbol) tableName fieldName keySet
      else if matchType = MATCH_KIND_OPT
      then (case entryKey of
          DefaultExpression \<Rightarrow> Some keySet
        | _ \<Rightarrow> assign_or_return (to_Literal entryKey) (\<lambda>exactValue. Some (emplace keySymbol exactValue keySet)))
      else computeMatch I P entryKey keySymbol tableName fieldName matchType keySet)"

definition Nikss_computeMatch ::
  "compiler \<Rightarrow> cp_symbols \<Rightarrow> expr \<Rightarrow> svar \<Rightarrow> string \<Rightarrow> string \<Rightarrow> string \<Rightarrow>
   ControlPlaneAssignmentSet \<Rightarrow> ControlPlaneAssignmentSet option" where
  "Nikss_computeMatch I P entryKey keySymbol tableName fieldName matchType keySet =
     (if matchType = MATCH_KIND_RANGE
      then computeRangeMatch I entryKey (sv_type keySymbol) tableName fieldName keySet
      else if matchType = MATCH_KIND_OPT
      then (if entryKey = DefaultExpression then Some keySet
        else assign_or_return (to_Literal entryKey) (\<lambda>exactValue. Some (emplace keySymbol exactValue keySet)))
      else computeMatch I P entryKey keySymbol tableName fieldName matchType keySet)"

definition Fpga_computeMatch ::
  "compiler \<Rightarrow> cp_symbols \<Rightarrow> expr \<Rightarrow> svar \<Rightarrow> string \<Rightarrow> string \<Rightarrow> string \<Rightarrow>
   ControlPlaneAssignmentSet \<Rightarrow> ControlPlaneAssignmentSet option" where
  "Fpga_computeMatch I P entryKey keySymbol tableName fieldName matchType keySet =
     (if matchType = MATCH_KIND_RANGE
      then computeRangeMatch I entryKey (sv_type keySymbol) tableName fieldName keySet
      else if matchType = MATCH_KIND_OPT
      then (if entryKey = DefaultExpression then Some keySet
        else assign_or_return (to_Literal entryKey) (\<lambda>exactValue. Some (emplace keySymbol exactValue keySet)))
      else computeMatch I P entryKey keySymbol tableName fieldName matchType keySet)"

text \<open>The dispatch to the target at hand.\<close>

fun target_computeMatch ::
  "target \<Rightarrow> compiler \<Rightarrow> cp_symbols \<Rightarrow> expr \<Rightarrow> svar \<Rightarrow> string \<Rightarrow> string \<Rightarrow> string \<Rightarrow>
   ControlPlaneAssignmentSet \<Rightarrow> ControlPlaneAssignmentSet option" where
  "target_computeMatch Bmv2 = Bmv2_computeMatch"
| "target_computeMatch Tofino = Tofino_computeMatch"
| "target_computeMatch Nikss = Nikss_computeMatch"
| "target_computeMatch Fpga = Fpga_computeMatch"

fun compute_key_elements ::
  "target \<Rightarrow> compiler \<Rightarrow> cp_symbols \<Rightarrow> string \<Rightarrow> (KeyElement \<times> expr) list \<Rightarrow>
   ControlPlaneAssignmentSet \<Rightarrow> ControlPlaneAssignmentSet option" where
  "compute_key_elements tg I P tableName [] keySet = Some keySet"
| "compute_key_elements tg I P tableName ((keyElement, entryKey) # rest) keySet =
     assign_or_return (ke_expression keyElement) (\<lambda>keyExpr.
     assign_or_return (ke_nameAnnotation keyElement) (\<lambda>fieldName.
     assign_or_return
       (target_computeMatch tg I P entryKey (getTableKey P tableName fieldName (type_of keyExpr))
         tableName fieldName (ke_matchType keyElement) keySet)
       (compute_key_elements tg I P tableName rest)))"

definition computeEntryKeySet ::
  "target \<Rightarrow> compiler \<Rightarrow> cp_symbols \<Rightarrow> P4Table \<Rightarrow> Entry \<Rightarrow> ControlPlaneAssignmentSet option" where
  "computeEntryKeySet tg I P table entry =
     assign_or_return (pt_key table) (\<lambda>key.
     return_if_false (length key = length (en_keys entry))
       (compute_key_elements tg I P (pt_controlPlaneName table) (zip key (en_keys entry)) []))"

section \<open>Actions of declared entries\<close>

fun emplace_arguments ::
  "(P4Parameter \<Rightarrow> svar) \<Rightarrow> (P4Parameter \<times> expr) list \<Rightarrow> ControlPlaneAssignmentSet \<Rightarrow>
   ControlPlaneAssignmentSet option" where
  "emplace_arguments argument_var [] s = Some s"
| "emplace_arguments argument_var ((parameter, argument) # rest) s =
     assign_or_return (to_Literal argument) (\<lambda>expressionLiteral.
     emplace_arguments argument_var rest (emplace (argument_var parameter) expressionLiteral s))"

definition computeEntryAction ::
  "cp_symbols \<Rightarrow> P4Table \<Rightarrow> P4Action \<Rightarrow> expr list \<Rightarrow> ControlPlaneAssignmentSet option" where
  "computeEntryAction P table actionDecl arguments =
     return_if_false (length arguments = length (pa_parameters actionDecl))
       (emplace_arguments
         (\<lambda>parameter. getTableActionArgument P (pt_controlPlaneName table)
           (pa_controlPlaneName actionDecl) (pp_controlPlaneName parameter) (pp_type parameter))
         (zip (pa_parameters actionDecl) arguments)
         (emplace (getTableActionChoice P (pt_controlPlaneName table))
           (StringLiteral (pa_controlPlaneName actionDecl)) []))"

text \<open>The steps that lead from an action expression to the declaration of the action and its arguments.\<close>

definition resolve_action :: "resolution \<Rightarrow> action_expr \<Rightarrow> (P4Action \<times> expr list) option" where
  "resolve_action D actionExpr =
     (case actionExpr of
        MethodCallExpression (PathExpression path) arguments \<Rightarrow>
          (case D path of
             Some (P4ActionDeclaration action) \<Rightarrow> Some (action, arguments)
           | _ \<Rightarrow> None)
      | _ \<Rightarrow> None)"

definition entry_priority :: "Entry \<Rightarrow> int option" where
  "entry_priority entry =
     (case en_priority entry of
        None \<Rightarrow> Some 0
      | Some p \<Rightarrow> (case p of Constant t n \<Rightarrow> Some n | _ \<Rightarrow> None))"

fun initialize_entries ::
  "(item_class \<Rightarrow> nat) \<Rightarrow> (expr \<Rightarrow> expr \<Rightarrow> bool) \<Rightarrow> 'z z3_backend \<Rightarrow> target \<Rightarrow> compiler \<Rightarrow> cp_symbols \<Rightarrow>
   resolution \<Rightarrow> P4Table \<Rightarrow> Entry list \<Rightarrow> 'z TableMatchEntry list \<Rightarrow> 'z TableMatchEntry list option" where
  "initialize_entries h lt B tg I P D table [] initialTableEntries = Some initialTableEntries"
| "initialize_entries h lt B tg I P D table (entry # entries) initialTableEntries =
     assign_or_return (resolve_action D (en_action entry)) (\<lambda>(action, arguments).
     assign_or_return (computeEntryAction P table action arguments) (\<lambda>actionConstraint.
     assign_or_return (computeEntryKeySet tg I P table entry) (\<lambda>entryKeySet.
     assign_or_return (entry_priority entry) (\<lambda>priority.
     initialize_entries h lt B tg I P D table entries
       (set_emplace (entry_less h lt) (mk_TableMatchEntry B actionConstraint priority entryKeySet)
         initialTableEntries)))))"

definition initializeTableEntries ::
  "(item_class \<Rightarrow> nat) \<Rightarrow> (expr \<Rightarrow> expr \<Rightarrow> bool) \<Rightarrow> 'z z3_backend \<Rightarrow> target \<Rightarrow> compiler \<Rightarrow> cp_symbols \<Rightarrow>
   resolution \<Rightarrow> P4Table \<Rightarrow> 'z TableMatchEntry list option" where
  "initializeTableEntries h lt B tg I P D table =
     (case pt_entries table of
        None \<Rightarrow> Some []
      | Some entries \<Rightarrow> initialize_entries h lt B tg I P D table entries [])"

definition computeDefaultActionConstraints ::
  "cp_symbols \<Rightarrow> resolution \<Rightarrow> P4Table \<Rightarrow> ControlPlaneAssignmentSet option" where
  "computeDefaultActionConstraints P D table =
     (let tableName = pt_controlPlaneName table in
      assign_or_return (resolve_action D (pt_defaultAction table)) (\<lambda>(actionDecl, arguments).
      return_if_false (length arguments = length (pa_parameters actionDecl))
        (emplace_arguments
          (\<lambda>parameter. getTableActionArgument P tableName (pa_controlPlaneName actionDecl)
            (pp_controlPlaneName parameter) (pp_type parameter))
          (zip (pa_parameters actionDecl) arguments)
          (emplace (getDefaultActionVariable tableName) (StringLiteral ''*NONE*'')
            (emplace (getTableActionChoice P tableName) (StringLiteral ''*NONE*'') [])))))"

section \<open>The visit\<close>

record 'z initializer =
  in_defaultConstraints :: "'z ControlPlaneConstraints"
  in_errorCount :: nat

definition report_error :: "'z initializer \<Rightarrow> 'z initializer" where
  "report_error st = st\<lparr>in_errorCount := in_errorCount st + 1\<rparr>"

definition insert_default :: "string \<Rightarrow> 'z item \<Rightarrow> 'z initializer \<Rightarrow> 'z initializer" where
  "insert_default name i st = st\<lparr>in_defaultConstraints := map_insert name i (in_defaultConstraints st)\<rparr>"

definition preorder_table ::
  "(item_class \<Rightarrow> nat) \<Rightarrow> (expr \<Rightarrow> expr \<Rightarrow> bool) \<Rightarrow> 'z z3_backend \<Rightarrow> target \<Rightarrow> compiler \<Rightarrow> cp_symbols \<Rightarrow>
   resolution \<Rightarrow> P4Table \<Rightarrow> 'z initializer \<Rightarrow> 'z initializer" where
  "preorder_table h lt B tg I P D table st =
     (let tableName = pt_controlPlaneName table in
      case computeDefaultActionConstraints P D table of
        None \<Rightarrow> report_error st
      | Some defaultActionConstraints \<Rightarrow>
          (case initializeTableEntries h lt B tg I P D table of
             None \<Rightarrow> report_error st
           | Some initialTableEntries \<Rightarrow>
               insert_default tableName
                 (TableItem (mk_TableConfiguration tableName
                   (mk_TableDefaultAction B defaultActionConstraints) initialTableEntries)) st))"

definition preorder_value_set :: "string \<Rightarrow> 'z initializer \<Rightarrow> 'z initializer" where
  "preorder_value_set name st = insert_default name (ParserValueSetItem name) st"

text \<open>
  Tofino: the implementation of a table and the declarations of profiles and selectors. A
  declaration that is used without a test for its presence ends the program, written \<open>None\<close>.
  \<open>associateActionProfiles\<close> gives the name of the profile.
\<close>

definition associateActionProfiles ::
  "resolution \<Rightarrow> P4Table \<Rightarrow> 'z initializer \<Rightarrow> (string option \<times> 'z initializer) option" where
  "associateActionProfiles D table st =
     (let m = in_defaultConstraints st; failure = Some (None, report_error st) in
      case pt_implementation table of
        None \<Rightarrow> Some (None, st)
      | Some OtherImplementation \<Rightarrow> failure
      | Some (ImplementationPath path) \<Rightarrow>
          (case D path of
             Some (InstanceDeclaration d) \<Rightarrow>
               (case di_typeName d of
                  None \<Rightarrow> failure
                | Some typePath \<Rightarrow>
                    assign_or_return (D typePath) (\<lambda>typeDeclaration.
                    let name = di_controlPlaneName d in
                    if getName typeDeclaration = ''ActionSelector''
                    then (case map_find m name of
                        Some (ActionSelectorItem s) \<Rightarrow>
                          Some (Some (as_actionProfile s),
                            st\<lparr>in_defaultConstraints :=
                              selector_addAssociatedTable name (pt_controlPlaneName table) s m\<rparr>)
                      | _ \<Rightarrow> failure)
                    else if getName typeDeclaration = ''ActionProfile''
                    then (case map_find m name of
                        Some (ActionProfileItem p) \<Rightarrow>
                          Some (Some (ap_name p),
                            st\<lparr>in_defaultConstraints := map_assign name
                              (ActionProfileItem (profile_addAssociatedTable (pt_controlPlaneName table) p)) m\<rparr>)
                      | _ \<Rightarrow> failure)
                    else if getName typeDeclaration = ''Alpm'' then Some (None, st)
                    else failure))
           | _ \<Rightarrow> failure))"

definition Tofino_preorder_table ::
  "(item_class \<Rightarrow> nat) \<Rightarrow> (expr \<Rightarrow> expr \<Rightarrow> bool) \<Rightarrow> 'z z3_backend \<Rightarrow> compiler \<Rightarrow> cp_symbols \<Rightarrow>
   resolution \<Rightarrow> P4Table \<Rightarrow> 'z initializer \<Rightarrow> 'z initializer option" where
  "Tofino_preorder_table h lt B I P D table st =
     assign_or_return (associateActionProfiles D table st) (\<lambda>(profile, st').
       let tableName = pt_controlPlaneName table in
       case computeDefaultActionConstraints P D table of
         None \<Rightarrow> Some (report_error st')
       | Some defaultActionConstraints \<Rightarrow>
           (case initializeTableEntries h lt B Tofino I P D table of
              None \<Rightarrow> Some (report_error st')
            | Some initialTableEntries \<Rightarrow>
                Some (insert_default tableName
                  (TableItem (mk_TableConfiguration tableName
                    (mk_TableDefaultAction B defaultActionConstraints) initialTableEntries)) st')))"

definition Tofino_preorder_instance ::
  "resolution \<Rightarrow> Declaration_Instance \<Rightarrow> 'z initializer \<Rightarrow> 'z initializer option" where
  "Tofino_preorder_instance D declaration st =
     (case di_typeName declaration of
        None \<Rightarrow> Some st
      | Some typePath \<Rightarrow>
          (case D typePath of
             None \<Rightarrow> Some st
           | Some implTypeDeclaration \<Rightarrow>
               if getName implTypeDeclaration = ''ActionProfile''
               then Some (insert_default (di_controlPlaneName declaration)
                 (ActionProfileItem \<lparr>ap_name = di_controlPlaneName declaration, ap_associatedTables = []\<rparr>) st)
               else if getName implTypeDeclaration = ''ActionSelector''
               then (case di_arguments declaration of
                   reference # _ # _ # _ # _ # _ \<Rightarrow>
                     (case reference of
                        None \<Rightarrow> Some (report_error st)
                      | Some path \<Rightarrow>
                          assign_or_return (D path) (\<lambda>actionProfileDeclaration.
                          let actionProfileName = decl_controlPlaneName actionProfileDeclaration in
                          case map_find (in_defaultConstraints st) actionProfileName of
                            Some (ActionProfileItem p) \<Rightarrow>
                              Some (insert_default (di_controlPlaneName declaration)
                                (ActionSelectorItem \<lparr>as_actionProfile = actionProfileName,
                                  as_associatedTables = []\<rparr>) st)
                          | _ \<Rightarrow> Some (report_error st)))
                 | _ \<Rightarrow> Some (report_error st))
               else Some st))"

text \<open>The nodes of a program, in the order they are visited, that the visitors have handlers for.\<close>

datatype program_node = TableNode P4Table | ValueSetNode string | InstanceNode Declaration_Instance

fun visit_node ::
  "(item_class \<Rightarrow> nat) \<Rightarrow> (expr \<Rightarrow> expr \<Rightarrow> bool) \<Rightarrow> 'z z3_backend \<Rightarrow> target \<Rightarrow> compiler \<Rightarrow> cp_symbols \<Rightarrow>
   resolution \<Rightarrow> program_node \<Rightarrow> 'z initializer \<Rightarrow> 'z initializer option" where
  "visit_node h lt B tg I P D (TableNode table) st =
     (if tg = Tofino then Tofino_preorder_table h lt B I P D table st
      else Some (preorder_table h lt B tg I P D table st))"
| "visit_node h lt B tg I P D (ValueSetNode name) st = Some (preorder_value_set name st)"
| "visit_node h lt B tg I P D (InstanceNode d) st =
     (if tg = Tofino then Tofino_preorder_instance D d st else Some st)"

fun visit_nodes ::
  "(item_class \<Rightarrow> nat) \<Rightarrow> (expr \<Rightarrow> expr \<Rightarrow> bool) \<Rightarrow> 'z z3_backend \<Rightarrow> target \<Rightarrow> compiler \<Rightarrow> cp_symbols \<Rightarrow>
   resolution \<Rightarrow> program_node list \<Rightarrow> 'z initializer \<Rightarrow> 'z initializer option" where
  "visit_nodes h lt B tg I P D [] st = Some st"
| "visit_nodes h lt B tg I P D (n # ns) st =
     assign_or_return (visit_node h lt B tg I P D n st) (visit_nodes h lt B tg I P D ns)"

text \<open>BMv2 starts with an inactive clone session; a report of an error discards the result.\<close>

definition initial_state :: "target \<Rightarrow> 'z initializer" where
  "initial_state tg =
     \<lparr>in_defaultConstraints =
        (if tg = Bmv2 then map_insert ''clone_session'' (CloneSessionItem (mk_CloneSession None)) [] else []),
      in_errorCount = 0\<rparr>"

definition generateInitialControlPlaneConstraints ::
  "(item_class \<Rightarrow> nat) \<Rightarrow> (expr \<Rightarrow> expr \<Rightarrow> bool) \<Rightarrow> 'z z3_backend \<Rightarrow> target \<Rightarrow> compiler \<Rightarrow> cp_symbols \<Rightarrow>
   resolution \<Rightarrow> program_node list \<Rightarrow> 'z ControlPlaneConstraints option option" where
  "generateInitialControlPlaneConstraints h lt B tg I P D program =
     assign_or_return (visit_nodes h lt B tg I P D program (initial_state tg)) (\<lambda>st.
       if in_errorCount st > 0 then Some None else Some (Some (in_defaultConstraints st)))"

section \<open>What declared entries match\<close>

text \<open>An environment carries an assignment set when every variable has the value it is assigned.\<close>

definition carries :: "env \<Rightarrow> ControlPlaneAssignmentSet option \<Rightarrow> bool" where
  "carries env r \<longleftrightarrow>
     (\<exists>s. r = Some s \<and> (\<forall>(x, e) \<in> set s. eval env (SymbolicVariable x) = eval env e))"

text \<open>What is used of the compiler: constants are normalised to the width of their type.\<close>

definition compiler_ok :: "compiler \<Rightarrow> bool" where
  "compiler_ok I \<longleftrightarrow>
     (\<forall>w n env. eval env (Constant_get I (Type_Bits w False) n) = Some (VBits w False (take_bit w n))) \<and>
     (\<forall>w env. eval env (getMaxValueConstant I (Type_Bits w False)) = Some (VBits w False (mask w))) \<and>
     distinct [MATCH_KIND_EXACT I, MATCH_KIND_LPM I, MATCH_KIND_TERNARY I, MATCH_KIND_RANGE, MATCH_KIND_OPT]"

definition example_compiler :: compiler where
  "example_compiler =
     \<lparr>Constant_get = (\<lambda>t n. Constant t (n mod 2 ^ width_bits t)),
      getMaxValueConstant = (\<lambda>t. Constant t (2 ^ width_bits t - 1)),
      MATCH_KIND_EXACT = ''exact'', MATCH_KIND_LPM = ''lpm'', MATCH_KIND_TERNARY = ''ternary''\<rparr>"

lemma example_compiler_ok: "compiler_ok example_compiler"
proof -
  have "- 1 mod 2 ^ w = (2 ^ w - 1 :: int)" for w
    using take_bit_minus_one_eq_mask [of w, where ?'a = int] by (simp add: take_bit_eq_mod mask_eq_exp_minus_1)
  then show ?thesis
  by (simp add: compiler_ok_def example_compiler_def const_val_def MATCH_KIND_RANGE_def MATCH_KIND_OPT_def
      mask_eq_exp_minus_1 take_bit_eq_mod)
qed

lemma carries_one:
  "carries env (Some (emplace x a [])) \<longleftrightarrow> eval env (SymbolicVariable x) = eval env a"
  by (simp add: carries_def om_emplace_def)

lemma carries_two:
  "sv_key x \<noteq> sv_key y \<Longrightarrow> carries env (Some (emplace y b (emplace x a []))) \<longleftrightarrow>
   eval env (SymbolicVariable x) = eval env a \<and> eval env (SymbolicVariable y) = eval env b"
  by (simp add: carries_def om_emplace_def)

lemma target_computeMatch_core:
  "matchType \<noteq> MATCH_KIND_RANGE \<Longrightarrow> matchType \<noteq> MATCH_KIND_OPT \<Longrightarrow>
   target_computeMatch tg I P entryKey x t f matchType s = computeMatch I P entryKey x t f matchType s"
  by (cases tg)
    (simp_all add: Bmv2_computeMatch_def Tofino_computeMatch_def Nikss_computeMatch_def Fpga_computeMatch_def)

lemma target_computeMatch_range:
  "target_computeMatch tg I P entryKey x t f MATCH_KIND_RANGE s = computeRangeMatch I entryKey (sv_type x) t f s"
  by (cases tg)
    (simp_all add: Bmv2_computeMatch_def Tofino_computeMatch_def Nikss_computeMatch_def Fpga_computeMatch_def)

lemma target_computeMatch_optional:
  "MATCH_KIND_OPT \<noteq> MATCH_KIND_RANGE"
  "target_computeMatch tg I P (Constant u n) x t f MATCH_KIND_OPT s = Some (emplace x (Constant u n) s)"
  "tg \<noteq> Bmv2 \<Longrightarrow> target_computeMatch tg I P DefaultExpression x t f MATCH_KIND_OPT s = Some s"
  by (cases tg; simp add: MATCH_KIND_OPT_def MATCH_KIND_RANGE_def Bmv2_computeMatch_def Tofino_computeMatch_def
      Nikss_computeMatch_def Fpga_computeMatch_def)+

lemma key_constraints:
  fixes P t f e
  defines "ty \<equiv> type_of e"
  shows "computeControlPlaneConstraint (mk_ExactTableMatchKey P t f e) = mk_Equ (SymbolicVariable (getTableKey P t f ty)) e"
    "computeControlPlaneConstraint (mk_OptionalMatchKey P t f e) = mk_Equ (SymbolicVariable (getTableKey P t f ty)) e"
    "computeControlPlaneConstraint (mk_TernaryTableMatchKey P t f e) =
      createTernaryKey (getTableKey P t f ty) (getTableTernaryMask P t f ty) e"
    "computeControlPlaneConstraint (mk_LpmTableMatchKey P t f e) =
      createLpmKey (getTableKey P t f ty) (getTableMatchLpmPrefix P t f ty) e"
    "computeControlPlaneConstraint (mk_RangeTableMatchKey P t f e) =
      createRangeKey (fst (getTableRange P t f ty)) (snd (getTableRange P t f ty)) e"
  by (simp_all add: computeControlPlaneConstraint_def mk_ExactTableMatchKey_def mk_OptionalMatchKey_def
      mk_TernaryTableMatchKey_def mk_LpmTableMatchKey_def mk_RangeTableMatchKey_def Let_def ty_def)

text \<open>
  Claim C21. What an entry that the program declares matches, on every target, when the key has the
  unsigned value \<open>k\<close>: a literal under exact, ternary and optional keys matches that value; a masked
  literal under a ternary key matches on the bits of the mask, and the default expression matches
  everything. A literal under a longest-prefix key matches everything and the default expression
  only zero. A range of two literals matches the numbers between
  them if it has more than one element, and a single literal under a range key matches nothing. The
  default expression under an optional key matches only zero on BMv2 and assigns nothing elsewhere.
\<close>

theorem declared_entry_matches:
  fixes I P t f w e
  defines "ty \<equiv> Type_Bits w False"
  defines "x \<equiv> getTableKey P t f ty"
  defines "m \<equiv> \<lambda>tg kind entryKey. target_computeMatch tg I P entryKey x t f kind []"
  assumes I: "compiler_ok I" and n: "0 \<le> n" "n < 2 ^ w" and v: "0 \<le> v" "v < 2 ^ w" and w: "0 < w" "int w < 2 ^ w"
    and types: "sv_type x = ty" "type_of e = ty"
    and range: "getTableRange P t f ty = (range_min ty t f, range_max ty t f)"
    and distinct: "distinct (map sv_key [x, getTableTernaryMask P t f ty, getTableMatchLpmPrefix P t f ty,
      range_min ty t f, range_max ty t f])"
    and e: "eval env e = Some (VBits w False k)"
  shows "(carries env (m tg (MATCH_KIND_EXACT I) (Constant ty n)) \<longrightarrow>
      eval env (computeControlPlaneConstraint (mk_ExactTableMatchKey P t f e)) = Some (VBool (k = n))) \<and>
    (carries env (m tg (MATCH_KIND_TERNARY I) (Constant ty n)) \<longrightarrow>
      eval env (computeControlPlaneConstraint (mk_TernaryTableMatchKey P t f e)) = Some (VBool (k = n))) \<and>
    (carries env (m tg (MATCH_KIND_TERNARY I) (Binary t' Mask (Constant ty n) (Constant ty v))) \<longrightarrow>
      eval env (computeControlPlaneConstraint (mk_TernaryTableMatchKey P t f e)) =
        Some (VBool (k AND v = n AND v))) \<and>
    (carries env (m tg (MATCH_KIND_TERNARY I) DefaultExpression) \<longrightarrow>
      eval env (computeControlPlaneConstraint (mk_TernaryTableMatchKey P t f e)) = Some (VBool True)) \<and>
    (carries env (m tg (MATCH_KIND_LPM I) (Constant ty n)) \<longrightarrow>
      eval env (computeControlPlaneConstraint (mk_LpmTableMatchKey P t f e)) = Some (VBool True)) \<and>
    (carries env (m tg (MATCH_KIND_LPM I) DefaultExpression) \<longrightarrow>
      eval env (computeControlPlaneConstraint (mk_LpmTableMatchKey P t f e)) = Some (VBool (k = 0))) \<and>
    (carries env (m tg MATCH_KIND_RANGE (Binary t' Range (Constant ty n) (Constant ty v))) \<longrightarrow>
      eval env (computeControlPlaneConstraint (mk_RangeTableMatchKey P t f e)) =
        Some (VBool (n < v \<and> n \<le> k \<and> k \<le> v))) \<and>
    (carries env (m tg MATCH_KIND_RANGE (Constant ty n)) \<longrightarrow>
      eval env (computeControlPlaneConstraint (mk_RangeTableMatchKey P t f e)) = Some (VBool False)) \<and>
    (carries env (m tg MATCH_KIND_OPT (Constant ty n)) \<longrightarrow>
      eval env (computeControlPlaneConstraint (mk_OptionalMatchKey P t f e)) = Some (VBool (k = n))) \<and>
    (carries env (m Bmv2 MATCH_KIND_OPT DefaultExpression) \<longrightarrow>
      eval env (computeControlPlaneConstraint (mk_OptionalMatchKey P t f e)) = Some (VBool (k = 0))) \<and>
    (tg \<noteq> Bmv2 \<longrightarrow> m tg MATCH_KIND_OPT DefaultExpression = Some [])"
proof -
  have keys: "sv_key x \<noteq> sv_key (getTableTernaryMask P t f ty)" "sv_key x \<noteq> sv_key (getTableMatchLpmPrefix P t f ty)"
    "sv_key (range_min ty t f) \<noteq> sv_key (range_max ty t f)" using distinct by auto
  have kinds: "MATCH_KIND_EXACT I \<noteq> MATCH_KIND_LPM I" "MATCH_KIND_EXACT I \<noteq> MATCH_KIND_TERNARY I"
    "MATCH_KIND_LPM I \<noteq> MATCH_KIND_TERNARY I" "MATCH_KIND_EXACT I \<noteq> MATCH_KIND_RANGE" "MATCH_KIND_EXACT I \<noteq> MATCH_KIND_OPT"
    "MATCH_KIND_LPM I \<noteq> MATCH_KIND_RANGE" "MATCH_KIND_LPM I \<noteq> MATCH_KIND_OPT" "MATCH_KIND_TERNARY I \<noteq> MATCH_KIND_RANGE"
    "MATCH_KIND_TERNARY I \<noteq> MATCH_KIND_OPT" "MATCH_KIND_RANGE \<noteq> MATCH_KIND_OPT"
    using I by (auto simp: compiler_ok_def)
  have lits: "eval env (Constant ty i) = Some (VBits w False i)" if "0 \<le> i" "i < 2 ^ w" for i
    using that by (simp add: ty_def const_val_def)
  have get: "eval env (Constant_get I ty i) = Some (VBits w False (take_bit w i))" for i
    using I by (simp add: compiler_ok_def ty_def)
  have max: "eval env (getMaxValueConstant I ty) = Some (VBits w False (mask w))"
    using I by (simp add: compiler_ok_def ty_def)
  have k: "0 \<le> k" "k < 2 ^ w" using eval_in_range [OF e] by simp_all
  then have full: "k AND mask w = k" "n AND mask w = n" "k div 2 ^ w = 0" "n div 2 ^ w = 0"
    using n by (simp_all flip: take_bit_eq_mask)
  note simps = m_def target_computeMatch_core kinds kinds [symmetric] types(1) computeMatch_def carries_two carries_one keys
    Let_def lits n v get max key_constraints types(2) x_def [symmetric] target_computeMatch_range
    target_computeMatch_optional computeRangeMatch_def range
  have "sv_type x = Type_Bits w False" "width_bits ty = w" using types(1) by (simp_all add: ty_def)
  note evals = eval_mk_Equ_bits [OF _ e] createTernaryKey_value [OF _ _ e]
    createLpmKey_value [OF \<open>sv_type x = Type_Bits w False\<close> _ _ e]
    createRangeKey_value [OF _ _ e]
  show ?thesis
  proof (intro conjI impI)
    assume "carries env (m tg (MATCH_KIND_EXACT I) (Constant ty n))"
    then show "eval env (computeControlPlaneConstraint (mk_ExactTableMatchKey P t f e)) = Some (VBool (k = n))"
      using evals(1) by (auto simp: simps simp del: eval.simps)
  next
    assume "carries env (m tg (MATCH_KIND_TERNARY I) (Constant ty n))"
    then show "eval env (computeControlPlaneConstraint (mk_TernaryTableMatchKey P t f e)) = Some (VBool (k = n))"
      using evals(2) full by (simp add: simps del: eval.simps)
  next
    assume "carries env (m tg (MATCH_KIND_TERNARY I) (Binary t' Mask (Constant ty n) (Constant ty v)))"
    then show "eval env (computeControlPlaneConstraint (mk_TernaryTableMatchKey P t f e)) =
        Some (VBool (k AND v = n AND v))"
      using evals(2) by (simp add: simps del: eval.simps)
  next
    assume "carries env (m tg (MATCH_KIND_TERNARY I) DefaultExpression)"
    then show "eval env (computeControlPlaneConstraint (mk_TernaryTableMatchKey P t f e)) = Some (VBool True)"
      using evals(2) by (simp add: simps del: eval.simps)
  next
    assume "carries env (m tg (MATCH_KIND_LPM I) (Constant ty n))"
    then show "eval env (computeControlPlaneConstraint (mk_LpmTableMatchKey P t f e)) = Some (VBool True)"
      using evals(3) full w by (simp add: simps \<open>width_bits ty = w\<close> take_bit_int_eq_self del: eval.simps)
  next
    assume "carries env (m tg (MATCH_KIND_LPM I) DefaultExpression)"
    then show "eval env (computeControlPlaneConstraint (mk_LpmTableMatchKey P t f e)) = Some (VBool (k = 0))"
      using evals(3) by (simp add: simps del: eval.simps)
  next
    assume "carries env (m tg MATCH_KIND_RANGE (Binary t' Range (Constant ty n) (Constant ty v)))"
    then show "eval env (computeControlPlaneConstraint (mk_RangeTableMatchKey P t f e)) =
        Some (VBool (n < v \<and> n \<le> k \<and> k \<le> v))"
      using evals(4) by (simp add: simps del: eval.simps)
  next
    assume "carries env (m tg MATCH_KIND_RANGE (Constant ty n))"
    then show "eval env (computeControlPlaneConstraint (mk_RangeTableMatchKey P t f e)) = Some (VBool False)"
      using evals(4) by (simp add: simps del: eval.simps)
  next
    assume "carries env (m tg MATCH_KIND_OPT (Constant ty n))"
    then show "eval env (computeControlPlaneConstraint (mk_OptionalMatchKey P t f e)) = Some (VBool (k = n))"
      using evals(1) by (auto simp: simps simp del: eval.simps)
  next
    assume "carries env (m Bmv2 MATCH_KIND_OPT DefaultExpression)"
    then show "eval env (computeControlPlaneConstraint (mk_OptionalMatchKey P t f e)) = Some (VBool (k = 0))"
      using evals(1) by (auto simp: simps Bmv2_computeMatch_def simp del: eval.simps)
  next
    assume "tg \<noteq> Bmv2"
    then show "m tg MATCH_KIND_OPT DefaultExpression = Some []" by (simp add: simps del: eval.simps)
  qed
qed

theorem declared_entry_matches_witness:
  "let env = (\<lambda>(d, l). VBits 8 False (if l = ''t_lpm_prefix_f'' then 8 else 5)) in
   carries env (target_computeMatch Tofino example_compiler example_symbols (Constant (Type_Bits 8 False) 5)
     (getTableKey example_symbols ''t'' ''f'' (Type_Bits 8 False)) ''t'' ''f'' ''lpm'' []) \<and>
   eval env (computeControlPlaneConstraint
     (mk_LpmTableMatchKey example_symbols ''t'' ''f'' (Constant (Type_Bits 8 False) 77))) = Some (VBool True)"
proof -
  define env where "env = (\<lambda>(d :: bool, l). VBits 8 False (if l = ''t_lpm_prefix_f'' then 8 else 5))"
  have e: "eval env (Constant (Type_Bits 8 False) 77) = Some (VBits 8 False 77)" by (simp add: const_val_def)
  have "carries env (target_computeMatch Tofino example_compiler example_symbols (Constant (Type_Bits 8 False) 5)
      (getTableKey example_symbols ''t'' ''f'' (Type_Bits 8 False)) ''t'' ''f'' ''lpm'' [])"
    by (simp add: Tofino_computeMatch_def computeMatch_def MATCH_KIND_RANGE_def MATCH_KIND_OPT_def
        example_compiler_def example_symbols_def carries_def om_emplace_def sv_key_def env_def
        const_val_def typed_def Let_def)
  then show ?thesis
    using declared_entry_matches [OF example_compiler_ok _ _ _ _ _ _ _ _ _ _ e, of 5 5 example_symbols "''t''" "''f''" Tofino]
    by (simp add: example_symbols_def range_min_def range_max_def sv_key_def example_compiler_def flip: env_def)
qed

section \<open>The initial configuration is well formed\<close>

text \<open>
  The objects of a configuration: tables are well formed and found under their names, the tables
  associated with profiles and selectors are sorted, and selectors refer to profiles.
\<close>

definition item_ok ::
  "(item_class \<Rightarrow> nat) \<Rightarrow> (expr \<Rightarrow> expr \<Rightarrow> bool) \<Rightarrow> 'z z3_backend \<Rightarrow> 'z ControlPlaneConstraints \<Rightarrow> 'z Z3Cache \<Rightarrow>
   string \<Rightarrow> 'z item \<Rightarrow> bool" where
  "item_ok h lt B m c k i =
     (case i of
        TableItem cfg \<Rightarrow> tc_tableName cfg = k \<and> config_wf h lt B cfg c
      | ActionSelectorTableItem cfg \<Rightarrow> tc_tableName cfg = k \<and> config_wf h lt B cfg c
      | ParserValueSetItem name \<Rightarrow> name = k
      | ActionProfileItem p \<Rightarrow> ap_name p = k \<and> sorted_wrt (<) (ap_associatedTables p)
      | ActionSelectorItem s \<Rightarrow> sorted_wrt (<) (as_associatedTables s) \<and>
          (\<exists>p. map_find m (as_actionProfile s) = Some (ActionProfileItem p))
      | CloneSessionItem s \<Rightarrow> k = ''clone_session'')"

definition constraints_ok ::
  "(item_class \<Rightarrow> nat) \<Rightarrow> (expr \<Rightarrow> expr \<Rightarrow> bool) \<Rightarrow> 'z z3_backend \<Rightarrow> 'z ControlPlaneConstraints \<Rightarrow> 'z Z3Cache \<Rightarrow> bool" where
  "constraints_ok h lt B m c \<longleftrightarrow>
     map_sorted m \<and> (\<forall>k i. map_find m k = Some i \<longrightarrow> item_ok h lt B m c k i)"

text \<open>Changes that keep profiles profiles keep the other objects well formed.\<close>

lemma item_ok_mono:
  assumes "item_ok h lt B m c k i"
    and "\<And>n p. map_find m n = Some (ActionProfileItem p) \<Longrightarrow> \<exists>p'. map_find m' n = Some (ActionProfileItem p')"
  shows "item_ok h lt B m' c k i"
  using assms by (auto simp: item_ok_def split: item.splits)

lemma constraints_ok_insert:
  assumes ok: "constraints_ok h lt B m c" and i: "map_find m k = None \<Longrightarrow> item_ok h lt B m c k i"
  shows "constraints_ok h lt B (map_insert k i m) c"
proof (cases "map_find m k")
  case None
  have sorted: "map_sorted m" using ok by (simp add: constraints_ok_def)
  have mono: "item_ok h lt B m c n j \<Longrightarrow> item_ok h lt B (map_insert k i m) c n j" for n j
    by (erule item_ok_mono) (use None in \<open>auto simp: map_find_insert [OF sorted]\<close>)
  show ?thesis
    using ok i [OF None] None mono by (auto simp: constraints_ok_def map_find_insert [OF sorted] store_simps)
next
  case (Some j)
  then show ?thesis
    using ok by (auto simp: constraints_ok_def map_find_insert store_simps item_ok_def split: item.splits)
qed

lemma constraints_ok_assign:
  assumes ok: "constraints_ok h lt B m c" and j: "map_find m k = Some j"
    and i: "item_ok h lt B m c k i" and p: "\<And>p. j = ActionProfileItem p \<Longrightarrow> \<exists>p'. i = ActionProfileItem p'"
  shows "constraints_ok h lt B (map_assign k i m) c"
proof -
  have mono: "item_ok h lt B m c n l \<Longrightarrow> item_ok h lt B (map_assign k i m) c n l" for n l
    by (erule item_ok_mono) (use j p in \<open>auto simp: store_simps\<close>)
  show ?thesis using ok i mono j by (auto simp: constraints_ok_def store_simps split: if_splits)
qed

lemma name_insert_sorted: "sorted_wrt (<) ts \<Longrightarrow> sorted_wrt (<) (name_insert t ts)"
  unfolding name_insert_def
  by (rule strict_order.set_emplace_sorted) (use strict_order_measure [of "\<lambda>s :: string. s"] in simp_all)

lemma constraints_ok_profile:
  assumes ok: "constraints_ok h lt B m c" and p: "map_find m k = Some (ActionProfileItem p)"
  shows "constraints_ok h lt B (map_assign k (ActionProfileItem (profile_addAssociatedTable t p)) m) c"
proof -
  have "item_ok h lt B m c k (ActionProfileItem p)" using ok p by (simp add: constraints_ok_def)
  then show ?thesis
    by (intro constraints_ok_assign [OF ok p])
      (simp_all add: item_ok_def profile_addAssociatedTable_def name_insert_sorted)
qed

lemma constraints_ok_selector:
  assumes ok: "constraints_ok h lt B m c" and s: "map_find m k = Some (ActionSelectorItem s)"
  shows "constraints_ok h lt B (selector_addAssociatedTable k t s m) c"
proof -
  let ?i = "ActionSelectorItem (s\<lparr>as_associatedTables := name_insert t (as_associatedTables s)\<rparr>)"
  have i: "item_ok h lt B m c k (ActionSelectorItem s)" using ok s by (simp add: constraints_ok_def)
  then obtain p where p: "map_find m (as_actionProfile s) = Some (ActionProfileItem p)"
    by (auto simp: item_ok_def)
  have m': "constraints_ok h lt B (map_assign k ?i m) c"
    using i by (intro constraints_ok_assign [OF ok s]) (auto simp: item_ok_def name_insert_sorted)
  have p': "map_find (map_assign k ?i m) (as_actionProfile s) = Some (ActionProfileItem p)"
    using p s by (auto simp: store_simps)
  show ?thesis
    using constraints_ok_profile [OF m' p'] p' by (simp add: selector_addAssociatedTable_def Let_def)
qed

text \<open>The entries and default actions of declared tables.\<close>

lemma emplace_distinct: "distinct_keys sv_key s \<Longrightarrow> distinct_keys sv_key (emplace x e s)"
  by (simp add: store_simps)

lemma computeRangeMatch_distinct:
  "computeRangeMatch I e ty t f s = Some s' \<Longrightarrow> distinct_keys sv_key s \<Longrightarrow> distinct_keys sv_key s'"
  by (auto simp: computeRangeMatch_def Let_def option_simps emplace_distinct
      split: expr.splits binop.splits)

lemma computeMatch_distinct:
  "computeMatch I P e x t f kind s = Some s' \<Longrightarrow> distinct_keys sv_key s \<Longrightarrow> distinct_keys sv_key s'"
  by (auto simp: computeMatch_def Let_def option_simps emplace_distinct
      split: expr.splits binop.splits if_splits)

lemma target_computeMatch_distinct:
  "target_computeMatch tg I P e x t f kind s = Some s' \<Longrightarrow> distinct_keys sv_key s \<Longrightarrow> distinct_keys sv_key s'"
  by (cases tg)
    (auto simp: Bmv2_computeMatch_def Tofino_computeMatch_def Nikss_computeMatch_def Fpga_computeMatch_def
      option_simps emplace_distinct dest: computeMatch_distinct computeRangeMatch_distinct
      split: if_splits expr.splits)

lemma compute_key_elements_distinct:
  "compute_key_elements tg I P t kes s = Some s' \<Longrightarrow> distinct_keys sv_key s \<Longrightarrow> distinct_keys sv_key s'"
  by (induction tg I P t kes s rule: compute_key_elements.induct)
    (auto simp: option_simps dest: target_computeMatch_distinct)

lemma emplace_arguments_distinct:
  "emplace_arguments v as s = Some s' \<Longrightarrow> distinct_keys sv_key s \<Longrightarrow> distinct_keys sv_key s'"
  by (induction v as s rule: emplace_arguments.induct) (auto simp: option_simps emplace_distinct)

lemma computeEntryKeySet_distinct: "computeEntryKeySet tg I P table e = Some s \<Longrightarrow> distinct_keys sv_key s"
  by (auto simp: computeEntryKeySet_def option_simps dest: compute_key_elements_distinct)

lemma computeEntryAction_distinct: "computeEntryAction P table a as = Some s \<Longrightarrow> distinct_keys sv_key s"
  by (auto simp: computeEntryAction_def option_simps emplace_distinct dest: emplace_arguments_distinct)

lemma computeDefaultActionConstraints_distinct:
  "computeDefaultActionConstraints P D table = Some s \<Longrightarrow> distinct_keys sv_key s"
  by (auto simp: computeDefaultActionConstraints_def Let_def option_simps emplace_distinct
      dest: emplace_arguments_distinct)

lemma initialize_entries_ok:
  assumes so: "strict_order (entry_less h lt :: 'z TableMatchEntry \<Rightarrow> _)"
    and "initialize_entries h lt (B :: 'z z3_backend) tg I P D table entries s = Some s'"
    and "sorted_wrt (entry_less h lt) s" and "\<forall>e \<in> set s. entry_ok B e"
  shows "sorted_wrt (entry_less h lt) s' \<and> (\<forall>e \<in> set s'. entry_ok B e)"
  using assms(2-)
proof (induction entries arbitrary: s)
  case (Cons entry entries)
  from Cons.prems(1) obtain a as p k n where p: "computeEntryAction P table a as = Some p"
    and k: "computeEntryKeySet tg I P table entry = Some k" and
    rest: "initialize_entries h lt B tg I P D table entries
      (set_emplace (entry_less h lt) (mk_TableMatchEntry B p n k) s) = Some s'"
    by (clarsimp simp: option_simps split: prod.splits)
  have "entry_ok B (mk_TableMatchEntry B p n k)"
    by (intro mk_TableMatchEntry_ok computeEntryAction_distinct [OF p] computeEntryKeySet_distinct [OF k])
  then have "\<forall>e \<in> set (set_emplace (entry_less h lt) (mk_TableMatchEntry B p n k) s). entry_ok B e"
    using Cons.prems(3) strict_order.set_emplace_elems [OF so, of _ s] by blast
  with Cons.IH [OF rest strict_order.set_emplace_sorted [OF so Cons.prems(2)]] show ?case by simp
qed simp

lemma declared_config_wf:
  assumes "strict_order (entry_less h lt :: 'z TableMatchEntry \<Rightarrow> _)"
    and "initializeTableEntries h lt (B :: 'z z3_backend) tg I P D table = Some es"
    and "computeDefaultActionConstraints P D table = Some d"
  shows "config_wf h lt B (mk_TableConfiguration n (mk_TableDefaultAction B d) es) Map.empty"
proof -
  have "sorted_wrt (entry_less h lt) es \<and> (\<forall>e \<in> set es. entry_ok B e)"
    using assms(2) initialize_entries_ok [OF assms(1)]
    by (auto simp: initializeTableEntries_def split: option.splits)
  then show ?thesis
    using mk_TableDefaultAction_ok [OF computeDefaultActionConstraints_distinct [OF assms(3)]]
    by (simp add: config_wf_def mk_TableConfiguration_def cache_ok_empty)
qed

text \<open>Every handler keeps the configuration well formed.\<close>

abbreviation state_ok ::
  "(item_class \<Rightarrow> nat) \<Rightarrow> (expr \<Rightarrow> expr \<Rightarrow> bool) \<Rightarrow> 'z z3_backend \<Rightarrow> 'z initializer \<Rightarrow> bool" where
  "state_ok h lt B st \<equiv> constraints_ok h lt B (in_defaultConstraints st) Map.empty"

lemma report_error_simps [simp]:
  "in_defaultConstraints (report_error st) = in_defaultConstraints st"
  "in_errorCount (report_error st) = Suc (in_errorCount st)"
  by (simp_all add: report_error_def)

lemma insert_default_simps [simp]:
  "in_defaultConstraints (insert_default k i st) = map_insert k i (in_defaultConstraints st)"
  "in_errorCount (insert_default k i st) = in_errorCount st"
  by (simp_all add: insert_default_def)

lemma insert_declared_table:
  assumes "strict_order (entry_less h lt :: 'z TableMatchEntry \<Rightarrow> _)"
    and "initializeTableEntries h lt (B :: 'z z3_backend) tg I P D table = Some es"
    and "computeDefaultActionConstraints P D table = Some d" and "constraints_ok h lt B m Map.empty"
  shows "constraints_ok h lt B (map_insert (pt_controlPlaneName table)
    (TableItem (mk_TableConfiguration (pt_controlPlaneName table) (mk_TableDefaultAction B d) es)) m) Map.empty"
  using declared_config_wf [OF assms(1-3)]
  by (intro constraints_ok_insert assms(4)) (simp add: item_ok_def mk_TableConfiguration_def)

lemma associateActionProfiles_ok:
  assumes "state_ok h lt B st" and "associateActionProfiles D table st = Some (r, st')"
  shows "state_ok h lt B st'"
  using assms
  by (auto simp: associateActionProfiles_def Let_def option_simps constraints_ok_selector constraints_ok_profile
      split: option.splits implementation_expr.splits IDeclaration.splits if_splits item.splits)

lemma insert_profile_ok:
  "state_ok h lt B st \<Longrightarrow>
   state_ok h lt B (insert_default n (ActionProfileItem \<lparr>ap_name = n, ap_associatedTables = []\<rparr>) st)"
  by (simp add: constraints_ok_insert item_ok_def)

lemma insert_selector_ok:
  "state_ok h lt B st \<Longrightarrow> map_find (in_defaultConstraints st) k = Some (ActionProfileItem p) \<Longrightarrow>
   state_ok h lt B (insert_default n (ActionSelectorItem \<lparr>as_actionProfile = k, as_associatedTables = []\<rparr>) st)"
  by (simp add: constraints_ok_insert item_ok_def)

lemma Tofino_preorder_instance_ok:
  assumes "state_ok h lt B st" and "Tofino_preorder_instance D d st = Some st'"
  shows "state_ok h lt B st'"
  using assms insert_profile_ok [OF assms(1)] insert_selector_ok [OF assms(1)]
  by (auto simp: Tofino_preorder_instance_def Let_def assign_or_return_def simp del: insert_default_simps
      split: option.split_asm if_split_asm list.split_asm item.split_asm)

lemma visit_node_ok:
  assumes so: "strict_order (entry_less h lt :: 'z TableMatchEntry \<Rightarrow> _)"
    and ok: "state_ok h lt (B :: 'z z3_backend) st" and visit: "visit_node h lt B tg I P D n st = Some st'"
  shows "state_ok h lt B st'"
proof (cases n)
  case (TableNode table)
  with visit ok associateActionProfiles_ok [OF ok] show ?thesis
    by (auto simp: preorder_table_def Tofino_preorder_table_def Let_def assign_or_return_def
        intro!: insert_declared_table [OF so] split: if_split_asm option.split_asm)
next
  case (ValueSetNode name)
  with visit have "st' = insert_default name (ParserValueSetItem name) st"
    by (simp add: preorder_value_set_def)
  with ok show ?thesis by (simp add: constraints_ok_insert item_ok_def)
next
  case (InstanceNode d)
  with visit ok Tofino_preorder_instance_ok [OF ok] show ?thesis by (auto split: if_splits)
qed

lemma visit_nodes_ok:
  assumes so: "strict_order (entry_less h lt :: 'z TableMatchEntry \<Rightarrow> _)"
  shows "visit_nodes h lt (B :: 'z z3_backend) tg I P D ns st = Some st' \<Longrightarrow> state_ok h lt B st \<Longrightarrow> state_ok h lt B st'"
  by (induction ns arbitrary: st) (auto simp: option_simps dest: visit_node_ok [OF so])

lemma initial_state_ok: "state_ok h lt B (initial_state tg :: 'z initializer)"
  by (simp add: initial_state_def constraints_ok_def map_insert_def map_sorted_def item_ok_def)

text \<open>
  Claim C22. On every target and for every program the initial configuration is a sorted map of
  well-formed objects: tables are found under their names with sorted entries and translations of
  all assignments, and every action selector refers to an action profile of the configuration.
\<close>

theorem initial_configuration_invariant:
  assumes "strict_order lt" and "inj h"
    and "generateInitialControlPlaneConstraints h lt B tg I P D program = Some (Some m)"
  shows "constraints_ok h lt B m Map.empty"
  using assms(3) visit_nodes_ok [OF entry_less_strict_order [OF assms(1,2)] _ initial_state_ok]
  by (auto simp: generateInitialControlPlaneConstraints_def option_simps split: if_splits)

text \<open>A program with an action profile, a selector over it and a table that uses the selector.\<close>

definition example_resolution :: resolution where
  "example_resolution path =
     (if path = ''set'' then Some (P4ActionDeclaration
        \<lparr>pa_controlPlaneName = ''set'', pa_parameters = [\<lparr>pp_controlPlaneName = ''x'', pp_type = Type_Bits 8 False\<rparr>]\<rparr>)
      else if path = ''p'' then Some (InstanceDeclaration \<lparr>di_controlPlaneName = ''p'',
        di_typeName = Some ''ActionProfile'', di_arguments = []\<rparr>)
      else if path = ''s'' then Some (InstanceDeclaration \<lparr>di_controlPlaneName = ''s'',
        di_typeName = Some ''ActionSelector'', di_arguments = [Some ''p'', None, None, None, None]\<rparr>)
      else if path = ''ActionProfile'' \<or> path = ''ActionSelector'' then Some (OtherDeclaration path path)
      else None)"

definition example_program :: "program_node list" where
  "example_program =
     [InstanceNode \<lparr>di_controlPlaneName = ''p'', di_typeName = Some ''ActionProfile'', di_arguments = []\<rparr>,
      InstanceNode \<lparr>di_controlPlaneName = ''s'', di_typeName = Some ''ActionSelector'',
        di_arguments = [Some ''p'', None, None, None, None]\<rparr>,
      TableNode \<lparr>pt_controlPlaneName = ''t'',
        pt_key = Some [\<lparr>ke_expression = Some (Constant (Type_Bits 8 False) 0), ke_nameAnnotation = Some ''f'',
          ke_matchType = ''ternary''\<rparr>],
        pt_entries = Some [\<lparr>en_keys = [DefaultExpression],
          en_action = MethodCallExpression (PathExpression ''set'') [Constant (Type_Bits 8 False) 4], en_priority = None\<rparr>],
        pt_defaultAction = MethodCallExpression (PathExpression ''set'') [Constant (Type_Bits 8 False) 3],
        pt_implementation = Some (ImplementationPath ''s'')\<rparr>]"

lemma example_initial:
  "generateInitialControlPlaneConstraints example_hash literal_less ir_backend Tofino example_compiler
     example_symbols example_resolution example_program =
   Some (Some [(''p'', ActionProfileItem \<lparr>ap_name = ''p'', ap_associatedTables = [''t'']\<rparr>),
     (''s'', ActionSelectorItem \<lparr>as_actionProfile = ''p'', as_associatedTables = [''t'']\<rparr>),
     (''t'', TableItem (mk_TableConfiguration ''t''
       (mk_TableDefaultAction ir_backend
         [(SVar False Type_String ''t_action'', StringLiteral ''*NONE*''),
          (SVar False Type_String ''t_default_action'', StringLiteral ''*NONE*''),
          (SVar False (Type_Bits 8 False) ''tset_arg_x'', Constant (Type_Bits 8 False) 3)])
       [mk_TableMatchEntry ir_backend
         [(SVar False Type_String ''t_action'', StringLiteral ''set''),
          (SVar False (Type_Bits 8 False) ''tset_arg_x'', Constant (Type_Bits 8 False) 4)] 0
         [(SVar False (Type_Bits 8 False) ''t_key_f'', Constant (Type_Bits 8 False) 0),
          (SVar False (Type_Bits 8 False) ''t_mask_f'', Constant (Type_Bits 8 False) 0)]]))])"
  by (simp add: generateInitialControlPlaneConstraints_def initial_state_def example_program_def
      Tofino_preorder_instance_def example_resolution_def Let_def insert_default_def map_insert_def
      Tofino_preorder_table_def associateActionProfiles_def selector_addAssociatedTable_def
      profile_addAssociatedTable_def name_insert_def map_assign_def om_emplace_def
      computeDefaultActionConstraints_def resolve_action_def example_symbols_def getDefaultActionVariable_def
      initializeTableEntries_def computeEntryAction_def computeEntryKeySet_def entry_priority_def
      Tofino_computeMatch_def computeMatch_def MATCH_KIND_RANGE_def MATCH_KIND_OPT_def example_compiler_def
      sv_key_def)

theorem initial_configuration_invariant_witness:
  "\<exists>m. generateInitialControlPlaneConstraints example_hash literal_less ir_backend Tofino example_compiler
     example_symbols example_resolution example_program = Some (Some m) \<and> length m = 3 \<and>
   constraints_ok example_hash literal_less ir_backend m Map.empty"
  using initial_configuration_invariant [OF lit.strict_order_axioms inj_example_hash example_initial]
  by (simp add: example_initial)

end
