(* ===== verification/TableUpdate.thy ===== *)
theory TableUpdate
  imports SymbolicState "HOL-Library.Word"
begin

text \<open>
  What the two control-plane protocols (\<open>core/control_plane/p4runtime/protobuf.cpp\<close>,
  \<open>core/control_plane/bfruntime/protobuf.cpp\<close>) share: the program information messages refer to,
  byte strings as numbers, the set of symbols an update touches, and the steps that apply an update
  to a table once its message is converted.

  The locale \<open>entry_converter\<close> is what these steps rely on; both protocols instantiate it. Its
  lemmas carry the invariant of the configuration through an update and bound what an update changes.
\<close>

section \<open>Program information\<close>

text \<open>
  The messages of \<open>p4/config/v1/p4info.proto\<close>, as far as they are read, and the look-ups of
  \<open>P4::ControlPlaneAPI\<close>, which are outside the repository.
\<close>

datatype match_type = MT_EXACT | MT_LPM | MT_TERNARY | MT_RANGE | MT_OPTIONAL | MT_UNSPECIFIED

record MatchField =
  mf_id :: nat
  mf_name :: string
  mf_bitwidth :: nat
  mf_match_type :: match_type

record Action_Param =
  ap_id :: nat
  ap_param_name :: string
  ap_bitwidth :: nat

record InfoAction =
  ia_name :: string
  ia_params :: "Action_Param list"

record InfoTable =
  it_id :: nat
  it_name :: string
  it_match_fields :: "MatchField list"
  it_is_const_table :: bool
  it_implementation_id :: nat

record P4Info =
  findP4RuntimeAction :: "nat \<Rightarrow> InfoAction option"
  findP4RuntimeTable :: "nat \<Rightarrow> InfoTable option"
  findP4RuntimeTable_name :: "string \<Rightarrow> InfoTable option"
  findP4RuntimeActionProfile :: "nat \<Rightarrow> string option"
  findP4RuntimeExtern :: "string \<Rightarrow> (nat \<times> string) list option"

datatype Update_Type = MODIFY | INSERT | DELETE | UNSPECIFIED

section \<open>Bytes and symbols\<close>

type_synonym bytes = "8 word list"

text \<open>The most significant byte comes first.\<close>

definition stringToBigInt :: "bytes \<Rightarrow> int" where
  "stringToBigInt valueString = foldl (\<lambda>value byte. value * 256 + uint byte) 0 valueString"

type_synonym SymbolSet = "svar list"

definition sym_emplace :: "svar \<Rightarrow> SymbolSet \<Rightarrow> SymbolSet" where
  "sym_emplace x S = set_emplace sv_less x S"

definition sym_covers :: "SymbolSet \<Rightarrow> svar set \<Rightarrow> bool" where
  "sym_covers S X \<longleftrightarrow> sv_key ` X \<subseteq> sv_key ` set S"

lemma stringToBigInt_range: "0 \<le> stringToBigInt bs \<and> stringToBigInt bs < 256 ^ length bs"
proof (induction bs rule: rev_induct)
  case (snoc b bs)
  have b: "0 \<le> uint b" "uint b < 256" using uint_lt2p [of b] by simp_all
  from snoc have "stringToBigInt bs * 256 + uint b < 256 ^ length bs * 256"
    using b by linarith
  with snoc b show ?case by (simp add: stringToBigInt_def mult.commute)
qed (simp add: stringToBigInt_def)

lemma sym_emplace_keys:
  "sorted_wrt sv_less S \<Longrightarrow>
   sorted_wrt sv_less (sym_emplace x S) \<and> sv_key ` set (sym_emplace x S) = insert (sv_key x) (sv_key ` set S)"
  using collect_fold [of S "[x]"] by (simp add: sym_emplace_def)

lemma sym_emplace_simps [store_simps]:
  "sorted_wrt sv_less S \<Longrightarrow> sorted_wrt sv_less (sym_emplace x S)"
  "sorted_wrt sv_less S \<Longrightarrow> sv_key ` set (sym_emplace x S) = insert (sv_key x) (sv_key ` set S)"
  using sym_emplace_keys by blast+

lemma emplace_keys [store_simps]:
  "sv_key ` fst ` set (emplace x e s) = insert (sv_key x) (sv_key ` fst ` set s)"
proof (cases "om_find sv_key s x")
  case (Some v)
  then obtain k where "(k, v) \<in> set s" "sv_key k = sv_key x" by (auto dest: om_find_SomeD)
  then have "sv_key x \<in> sv_key ` fst ` set s" by (metis fst_conv image_eqI)
  with Some show ?thesis by (simp add: om_emplace_def insert_absorb)
qed (simp add: om_emplace_def)

text \<open>What every conversion of a part of a message delivers.\<close>

definition converted :: "SymbolSet \<Rightarrow> ControlPlaneAssignmentSet option \<times> SymbolSet \<Rightarrow> bool" where
  "converted S r \<longleftrightarrow>
     sorted_wrt sv_less (snd r) \<and> sv_key ` set S \<subseteq> sv_key ` set (snd r) \<and>
     (\<forall>s. fst r = Some s \<longrightarrow> distinct_keys sv_key s \<and> sym_covers (snd r) (fst ` set s))"

lemma sym_covers_mono:
  "sym_covers S X \<Longrightarrow> sv_key ` set S \<subseteq> sv_key ` set S' \<Longrightarrow> sym_covers S' X"
  by (auto simp: sym_covers_def)

lemma converted_weaken:
  "converted S1 r \<Longrightarrow> sv_key ` set S \<subseteq> sv_key ` set S1 \<Longrightarrow> converted S r"
  unfolding converted_def by blast

lemma foldl_emplace_keys:
  "sv_key ` fst ` set (foldl (\<lambda>s (x, e). emplace x e s) s kvs) = sv_key ` fst ` set s \<union> sv_key ` fst ` set kvs"
  by (induction kvs arbitrary: s) (simp_all add: emplace_keys split_beta)

lemma foldl_emplace_distinct:
  "distinct_keys sv_key s \<Longrightarrow> distinct_keys sv_key (foldl (\<lambda>s (x, e). emplace x e s) s kvs)"
  by (induction kvs arbitrary: s) (auto simp: emplace_distinct)

text \<open>An entry put together from a converted action and converted matches.\<close>

lemma converted_entry:
  assumes S: "sorted_wrt sv_less S"
    and shape: "(r = None \<and> S' = S) \<or> (\<exists>s. converted S (s, S') \<and> r = None) \<or>
      (\<exists>s S1 k. converted S (Some s, S1) \<and> converted S1 (k, S') \<and>
        (r = None \<or> (\<exists>k' p. k = Some k' \<and> r = Some (mk_TableMatchEntry B s p k'))))"
  shows "sorted_wrt sv_less S' \<and> sv_key ` set S \<subseteq> sv_key ` set S' \<and>
    (\<forall>e. r = Some e \<longrightarrow> entry_ok B e \<and> sym_covers S' (fst ` set (te_actionAssignment e)) \<and>
       sym_covers S' (fst ` set (te_matches e)))"
  using shape
proof (elim disjE)
  assume "\<exists>s S1 k. converted S (Some s, S1) \<and> converted S1 (k, S') \<and>
    (r = None \<or> (\<exists>k' p. k = Some k' \<and> r = Some (mk_TableMatchEntry B s p k')))"
  then obtain s S1 k where s: "converted S (Some s, S1)" and k: "converted S1 (k, S')"
    and r: "r = None \<or> (\<exists>k' p. k = Some k' \<and> r = Some (mk_TableMatchEntry B s p k'))" by blast
  from s k have "sv_key ` set S \<subseteq> sv_key ` set S'" and S1: "sv_key ` set S1 \<subseteq> sv_key ` set S'"
    unfolding converted_def by auto
  moreover from s have "sym_covers S' (fst ` set s)" using sym_covers_mono [OF _ S1] by (simp add: converted_def)
  ultimately show ?thesis using s k r by (auto simp: converted_def mk_TableMatchEntry_ok)
qed (use S in \<open>auto simp: converted_def\<close>)

section \<open>Applying an update to a table\<close>

text \<open>
  The update of a table with a converted entry. Replacing never fails, inserting fails when an entry
  with an equivalent match is there and deleting when there is none.
\<close>

definition apply_update ::
  "(item_class \<Rightarrow> nat) \<Rightarrow> (expr \<Rightarrow> expr \<Rightarrow> bool) \<Rightarrow> 'z z3_backend \<Rightarrow> Update_Type \<Rightarrow> 'z TableMatchEntry \<Rightarrow>
   'z TableConfiguration \<Rightarrow> 'z Z3Cache \<Rightarrow> bool \<times> 'z TableConfiguration \<times> 'z Z3Cache" where
  "apply_update h lt B updateType e cfg c =
     (case updateType of
        MODIFY \<Rightarrow> (True, snd (addTableEntry h lt B e True cfg c))
      | INSERT \<Rightarrow> addTableEntry h lt B e False cfg c
      | DELETE \<Rightarrow> (case deleteTableEntry h lt e cfg of (n, cfg') \<Rightarrow> (n \<noteq> 0, cfg', c))
      | UNSPECIFIED \<Rightarrow> (False, cfg, c))"

text \<open>
  The steps of \<open>updateTableEntry\<close>: a default entry first replaces the default action, a constant
  table is then refused, a wild-card deletion clears the table, and any other message is
  converted to an entry. The conversions are arguments.
\<close>

definition update_table ::
  "(item_class \<Rightarrow> nat) \<Rightarrow> (expr \<Rightarrow> expr \<Rightarrow> bool) \<Rightarrow> 'z z3_backend \<Rightarrow>
   (SymbolSet \<Rightarrow> 'z TableDefaultAction option option \<times> SymbolSet) \<Rightarrow>
   (SymbolSet \<Rightarrow> 'z TableMatchEntry option \<times> SymbolSet) \<Rightarrow> bool \<Rightarrow> bool \<Rightarrow> Update_Type \<Rightarrow>
   'z TableConfiguration \<Rightarrow> 'z Z3Cache \<Rightarrow> SymbolSet \<Rightarrow> bool \<times> 'z TableConfiguration \<times> 'z Z3Cache \<times> SymbolSet" where
  "update_table h lt B convertDefault convertEntry isConst wildcard updateType cfg c S =
     (case convertDefault S of
        (None, S1) \<Rightarrow> (False, cfg, c, S1)
      | (Some defaultAction, S1) \<Rightarrow>
          (let cfg1 = (case defaultAction of None \<Rightarrow> cfg | Some d \<Rightarrow> setDefaultTableAction d cfg) in
           if isConst then (False, cfg1, c, S1)
           else if wildcard then (True, clearTableEntries cfg1, c, S1)
           else (case convertEntry S1 of
               (None, S2) \<Rightarrow> (False, cfg1, c, S2)
             | (Some e, S2) \<Rightarrow>
                 (case apply_update h lt B updateType e cfg1 c of
                    (ok, cfg2, c2) \<Rightarrow> (ok, cfg2, c2, S2)))))"

lemma apply_update_ok:
  assumes so: "strict_order (entry_less h lt :: 'z TableMatchEntry \<Rightarrow> _)"
    and wf: "config_wf h lt B cfg c" "conditions_ok B cfg c" and e: "entry_ok B e"
    and step: "apply_update h lt (B :: 'z z3_backend) ty e cfg c = (ok, cfg', c')"
  shows "config_wf h lt B cfg' c' \<and> conditions_ok B cfg' c'"
proof (cases ty)
  case MODIFY
  with step addTableEntry_ok [OF so wf e, of True] show ?thesis
    by (cases "addTableEntry h lt B e True cfg c") (auto simp: apply_update_def)
next
  case INSERT
  with step addTableEntry_ok [OF so wf e, of False] show ?thesis by (simp add: apply_update_def)
next
  case DELETE
  with step deleteTableEntry_ok [OF so wf, of e] show ?thesis
    by (cases "deleteTableEntry h lt e cfg") (auto simp: apply_update_def)
qed (use step wf in \<open>simp add: apply_update_def\<close>)

lemma add_delete_frame:
  "tc_tableName (fst (snd (addTableEntry h lt B e r cfg c))) = tc_tableName cfg"
  "tc_defaultTableAction (fst (snd (addTableEntry h lt B e r cfg c))) = tc_defaultTableAction cfg"
  "tc_tableKeyMatch (fst (snd (addTableEntry h lt B e r cfg c))) = tc_tableKeyMatch cfg"
  "tc_tableName (snd (deleteTableEntry h lt e cfg)) = tc_tableName cfg"
  "tc_defaultTableAction (snd (deleteTableEntry h lt e cfg)) = tc_defaultTableAction cfg"
  "tc_tableKeyMatch (snd (deleteTableEntry h lt e cfg)) = tc_tableKeyMatch cfg"
  by (simp_all add: addTableEntry_def deleteTableEntry_def Let_def split_beta)

lemma apply_update_frame:
  assumes "apply_update h lt B ty e cfg c = (ok, cfg', c')"
  shows "tc_tableName cfg' = tc_tableName cfg \<and> tc_defaultTableAction cfg' = tc_defaultTableAction cfg \<and>
    tc_tableKeyMatch cfg' = tc_tableKeyMatch cfg"
proof (cases ty)
  case MODIFY
  with assms add_delete_frame(1-3) [of h lt B e True cfg c] show ?thesis
    by (cases "addTableEntry h lt B e True cfg c") (auto simp: apply_update_def)
next
  case INSERT
  with assms add_delete_frame(1-3) [of h lt B e False cfg c] show ?thesis by (simp add: apply_update_def)
next
  case DELETE
  with assms add_delete_frame(4-6) [of h lt e cfg] show ?thesis
    by (cases "deleteTableEntry h lt e cfg") (auto simp: apply_update_def)
qed (use assms in \<open>simp add: apply_update_def\<close>)

text \<open>The cache only grows, so the other tables of the configuration stay well formed.\<close>

definition cache_grows :: "'z Z3Cache \<Rightarrow> 'z Z3Cache \<Rightarrow> bool" where
  "cache_grows c c' \<longleftrightarrow> (\<forall>e. cache_get e c \<noteq> None \<longrightarrow> cache_get e c' \<noteq> None)"

lemma cache_grows_refl [simp]: "cache_grows c c"
  by (simp add: cache_grows_def)

lemma apply_update_cache:
  "apply_update h lt B ty e cfg c = (ok, cfg', c') \<Longrightarrow> cache_grows c c'"
  by (auto simp: apply_update_def addTableEntry_def Let_def cache_grows_def cache_set_def cache_get_def
      split: Update_Type.splits prod.splits option.splits if_splits)

lemma config_wf_cache:
  "config_wf h lt B cfg c \<Longrightarrow> cache_ok B c' \<Longrightarrow> config_wf h lt B cfg c'"
  by (simp add: config_wf_def)

lemma conditions_ok_cache:
  "conditions_ok B cfg c \<Longrightarrow> cache_grows c c' \<Longrightarrow> conditions_ok B cfg c'"
  by (auto simp: conditions_ok_def cache_grows_def)

section \<open>What an update can change\<close>

text \<open>The assignment of one variable, entry by entry: entries that do not assign it play no role.\<close>

definition assigns :: "svar \<Rightarrow> 'z TableMatchEntry \<Rightarrow> bool" where
  "assigns x e \<longleftrightarrow> cp_find (te_actionAssignment e) x \<noteq> None"

fun assigned_in :: "svar \<Rightarrow> expr \<Rightarrow> svar \<times> expr \<Rightarrow> expr option \<Rightarrow> expr option" where
  "assigned_in x c (k, v) old =
     (if sv_key k = sv_key x then Some (case old of None \<Rightarrow> v | Some o' \<Rightarrow> Mux (type_of v) c v o') else old)"

definition assigned_by :: "expr \<Rightarrow> svar \<Rightarrow> 'z TableMatchEntry \<Rightarrow> expr option \<Rightarrow> expr option" where
  "assigned_by keyMatch x e =
     fold (assigned_in x (the (substituteSymbolicVariable (entry_assignments e) keyMatch))) (te_actionAssignment e)"

lemma assign_action_find: "cp_find (assign_action c kv s) x = assigned_in x c kv (cp_find s x)"
  using om_find_cong [of sv_key "fst kv" x s]
  by (cases kv) (auto simp: assign_action_def store_simps split: option.splits)

lemma assign_actions_find:
  "cp_find (fold (assign_action c) kvs s) x = fold (assigned_in x c) kvs (cp_find s x)"
  by (induction kvs arbitrary: s) (auto simp: assign_action_find)

lemma assigned_by_other:
  assumes "\<not> assigns x e"
  shows "assigned_by keyMatch x e old = old"
proof -
  have "fold (assigned_in x c) kvs old = old" if "sv_key x \<notin> (sv_key \<circ> fst) ` set kvs" for c kvs
    using that by (induction kvs) auto
  moreover have "sv_key x \<notin> (sv_key \<circ> fst) ` set (te_actionAssignment e)"
    using assms by (auto simp: assigns_def om_find_None)
  ultimately show ?thesis by (simp add: assigned_by_def)
qed

lemma assign_entries_find:
  "assign_entries keyMatch es s = Some s' \<Longrightarrow>
   cp_find s' x = fold (assigned_by keyMatch x) (filter (assigns x) es) (cp_find s x)"
proof (induction es arbitrary: s)
  case (Cons e es)
  then obtain s1 where s1: "assign_entry keyMatch e s = Some s1" "assign_entries keyMatch es s1 = Some s'"
    by (auto simp: option_simps)
  from s1(1) have "cp_find s1 x = assigned_by keyMatch x e (cp_find s x)"
    by (auto simp: assign_entry_def option_simps assigned_by_def assign_actions_find)
  with Cons.IH [OF s1(2)] show ?case by (simp add: assigned_by_other)
qed simp

lemma assignments_unchanged:
  assumes "tc_tableName cfg' = tc_tableName cfg" "tc_defaultTableAction cfg' = tc_defaultTableAction cfg"
    and "tc_tableKeyMatch cfg' = tc_tableKeyMatch cfg"
    and "tc_tableEntries cfg = [] \<longleftrightarrow> tc_tableEntries cfg' = []"
    and "length (tc_tableEntries cfg) \<le> kMaxEntriesPerTable" "length (tc_tableEntries cfg') \<le> kMaxEntriesPerTable"
    and "filter (assigns x) (tc_tableEntries cfg') = filter (assigns x) (tc_tableEntries cfg)"
    and s: "computeControlPlaneAssignments P cfg = Some s" "computeControlPlaneAssignments P cfg' = Some s'"
  shows "cp_find s' x = cp_find s x"
proof -
  have base: "base_assignments P cfg' = base_assignments P cfg"
    using assms(1,2,4) by (simp add: base_assignments_def)
  show ?thesis
  proof (cases "tc_tableEntries cfg = []")
    case True
    with assms(4) s base show ?thesis by (simp add: computeControlPlaneAssignments_base)
  next
    case False
    with assms(3-6) s base have
      "assign_entries (tc_tableKeyMatch cfg) (tc_tableEntries cfg) (base_assignments P cfg) = Some s"
      "assign_entries (tc_tableKeyMatch cfg) (tc_tableEntries cfg') (base_assignments P cfg) = Some s'"
      by (simp_all add: computeControlPlaneAssignments_base)
    from this [THEN assign_entries_find, of x] assms(7) show ?thesis by simp
  qed
qed

lemma filter_set_emplace: "\<not> Q x \<Longrightarrow> filter Q (set_emplace lt x ys) = filter Q ys"
  by (induction ys) auto

lemma filter_set_erase:
  "(\<And>y. y \<in> set ys \<Longrightarrow> Q y \<Longrightarrow> lt x y \<or> lt y x) \<Longrightarrow> filter Q (set_erase lt x ys) = filter Q ys"
  by (induction ys) auto

text \<open>
  An entry that does not assign \<open>x\<close> leaves the entries that do alone, provided it does not replace
  or delete one.
\<close>

lemma apply_update_filter:
  assumes so: "strict_order (entry_less h lt :: 'z TableMatchEntry \<Rightarrow> _)"
    and sorted: "sorted_wrt (entry_less h lt) (tc_tableEntries cfg)"
    and step: "apply_update h lt (B :: 'z z3_backend) ty e cfg c = (ok, cfg', c')"
    and e: "\<not> assigns x e"
    and kept: "\<And>y. y \<in> set (tc_tableEntries cfg) \<Longrightarrow> assigns x y \<Longrightarrow> y \<in> set (tc_tableEntries cfg')"
  shows "filter (assigns x) (tc_tableEntries cfg') = filter (assigns x) (tc_tableEntries cfg)"
proof -
  let ?less = "entry_less h lt"
  obtain z c1 where z: "cache_set B (tc_tableKeyMatch cfg) c = (z, c1)" by fastforce
  define e' where "e' = setZ3Condition B z e"
  have e': "\<not> assigns x e'" using e by (simp add: e'_def assigns_def)
  have less: "?less e' y = ?less e y" "?less y e' = ?less y e" for y by (simp_all add: e'_def)
  have apart: "?less e y \<or> ?less y e"
    if "y \<in> set (tc_tableEntries cfg)" "assigns x y"
      and gone: "\<And>y. y \<in> set (tc_tableEntries cfg') \<Longrightarrow> y = e' \<or> ?less e y \<or> ?less y e" for y
    using kept [OF that(1,2)] gone e' that(2) by blast
  show ?thesis
  proof (cases ty)
    case MODIFY
    then have cfg': "tc_tableEntries cfg' = set_emplace ?less e' (set_erase ?less e (tc_tableEntries cfg))"
      using step z by (auto simp: apply_update_def addTableEntry_def e'_def Let_def)
    have "\<not> set_contains ?less e (set_erase ?less e (tc_tableEntries cfg))"
      by (rule strict_order.set_erase_removes [OF so sorted])
    then have gone: "y = e' \<or> ?less e y \<or> ?less y e" if "y \<in> set (tc_tableEntries cfg')" for y
      using that strict_order.set_emplace_elems [OF so, of e' "set_erase ?less e (tc_tableEntries cfg)"]
        strict_order.set_contains_iff [OF so strict_order.set_erase_sorted [OF so sorted], of e]
      by (auto simp: cfg' strict_order.same_def [OF so])
    show ?thesis
      unfolding cfg' using filter_set_emplace [of "assigns x" e', OF e'] filter_set_erase apart gone by metis
  next
    case INSERT
    then have "tc_tableEntries cfg' = set_emplace ?less e' (tc_tableEntries cfg)"
      using step z by (auto simp: apply_update_def addTableEntry_def e'_def Let_def)
    then show ?thesis by (simp add: filter_set_emplace e')
  next
    case DELETE
    then have cfg': "tc_tableEntries cfg' = set_erase ?less e (tc_tableEntries cfg)"
      using step by (auto simp: apply_update_def deleteTableEntry_def Let_def)
    have "\<not> set_contains ?less e (set_erase ?less e (tc_tableEntries cfg))"
      by (rule strict_order.set_erase_removes [OF so sorted])
    then have gone: "y = e' \<or> ?less e y \<or> ?less y e" if "y \<in> set (tc_tableEntries cfg')" for y
      using that strict_order.set_contains_iff [OF so strict_order.set_erase_sorted [OF so sorted], of e]
      by (auto simp: cfg' strict_order.same_def [OF so])
    show ?thesis unfolding cfg' using filter_set_erase apart gone by metis
  next
    case UNSPECIFIED
    with step show ?thesis by (simp add: apply_update_def)
  qed
qed

text \<open>What a successful update does to the entries.\<close>

lemma apply_update_effect:
  assumes so: "strict_order (entry_less h lt :: 'z TableMatchEntry \<Rightarrow> _)"
    and sorted: "sorted_wrt (entry_less h lt) (tc_tableEntries cfg)"
    and step: "apply_update h lt (B :: 'z z3_backend) ty e cfg c = (True, cfg', c')"
  defines "same \<equiv> strict_order.same (entry_less h lt)"
    and "e' \<equiv> setZ3Condition B (fst (cache_set B (tc_tableKeyMatch cfg) c)) e"
  shows "(ty = MODIFY \<longrightarrow> set (tc_tableEntries cfg') = insert e' {x \<in> set (tc_tableEntries cfg). \<not> same e x}) \<and>
    (ty = INSERT \<longrightarrow> (\<forall>x \<in> set (tc_tableEntries cfg). \<not> same e x) \<and>
       set (tc_tableEntries cfg') = insert e' (set (tc_tableEntries cfg))) \<and>
    (ty = DELETE \<longrightarrow> (\<exists>x \<in> set (tc_tableEntries cfg). same e x) \<and>
       set (tc_tableEntries cfg') = {x \<in> set (tc_tableEntries cfg). \<not> same e x}) \<and> ty \<noteq> UNSPECIFIED"
proof -
  let ?less = "entry_less h lt"
  obtain z c1 where z: "cache_set B (tc_tableKeyMatch cfg) c = (z, c1)" by fastforce
  have e': "e' = setZ3Condition B z e" by (simp add: e'_def z)
  have same': "strict_order.same ?less e' x = same e x" for x
    by (simp add: e' same_def strict_order.same_def [OF so])
  have erase': "set_erase ?less e' es = set_erase ?less e es" for es
    by (induction es) (simp_all add: e')
  have replace: "(\<not> set_contains ?less e' (if b then set_erase ?less e (tc_tableEntries cfg) else tc_tableEntries cfg)) =
      (b \<or> (\<forall>x \<in> set (tc_tableEntries cfg). \<not> same e x)) \<and>
    set (set_emplace ?less e' (if b then set_erase ?less e (tc_tableEntries cfg) else tc_tableEntries cfg)) =
      (if b \<or> (\<forall>x \<in> set (tc_tableEntries cfg). \<not> same e x)
       then insert e' {x \<in> set (tc_tableEntries cfg). \<not> same e x} else set (tc_tableEntries cfg))" for b
    using strict_order.set_replace [OF so sorted, of e' b] unfolding same' erase' .
  show ?thesis
  proof (cases ty)
    case MODIFY
    then have "tc_tableEntries cfg' = set_emplace ?less e' (set_erase ?less e (tc_tableEntries cfg))"
      using step z by (auto simp: apply_update_def addTableEntry_def Let_def e')
    with MODIFY replace [of True] show ?thesis by simp
  next
    case INSERT
    then have "\<not> set_contains ?less e' (tc_tableEntries cfg)"
      "tc_tableEntries cfg' = set_emplace ?less e' (tc_tableEntries cfg)"
      using step z by (auto simp: apply_update_def addTableEntry_def Let_def e')
    with INSERT replace [of False] show ?thesis by auto
  next
    case DELETE
    then have "set_contains ?less e (tc_tableEntries cfg)"
      "tc_tableEntries cfg' = set_erase ?less e (tc_tableEntries cfg)"
      using step by (auto simp: apply_update_def deleteTableEntry_def Let_def split: if_splits)
    with DELETE strict_order.set_erase_set [OF so sorted, of e] strict_order.set_contains_iff [OF so sorted, of e]
    show ?thesis by (simp add: same_def)
  qed (use step in \<open>simp add: apply_update_def\<close>)
qed

section \<open>Tables of a configuration\<close>

definition tables_in_step :: "'z z3_backend \<Rightarrow> 'z ControlPlaneConstraints \<Rightarrow> 'z Z3Cache \<Rightarrow> bool" where
  "tables_in_step B m c \<longleftrightarrow>
     (\<forall>k i cfg. map_find m k = Some i \<longrightarrow> item_table i = Some cfg \<longrightarrow> conditions_ok B cfg c)"

lemma item_ok_table:
  "item_table i = Some cfg \<Longrightarrow> item_ok h lt B m c k i \<longleftrightarrow> tc_tableName cfg = k \<and> config_wf h lt B cfg c"
  by (auto simp: item_table_def item_ok_def split: item.splits)

lemma item_ok_cache: "item_ok h lt B m c k i \<Longrightarrow> cache_ok B c' \<Longrightarrow> item_ok h lt B m c' k i"
  by (cases i) (simp_all add: item_ok_def config_wf_def)

lemma map_assign_keys [store_simps]: "map fst (map_assign k v m) = map fst m"
  by (induction m) (auto simp: map_assign_def)

text \<open>Changing a table in place.\<close>

lemma update_table_item:
  assumes ok: "constraints_ok h lt B m c" and steps: "tables_in_step B m c"
    and it: "map_find m k = Some it" "item_table it = Some cfg"
    and cfg': "config_wf h lt B cfg' c'" "conditions_ok B cfg' c'" "tc_tableName cfg' = tc_tableName cfg"
    and c': "cache_grows c c'"
  defines "m' \<equiv> map_assign k (item_set_table cfg' it) m"
  shows "constraints_ok h lt B m' c' \<and> tables_in_step B m' c' \<and> map fst m' = map fst m \<and>
    (\<forall>n. n \<noteq> k \<longrightarrow> map_find m' n = map_find m n) \<and> map_find m' k = Some (item_set_table cfg' it)"
proof -
  have cache: "cache_ok B c'" using cfg'(1) by (simp add: config_wf_def)
  have "item_ok h lt B m c k it" using ok it(1) by (simp add: constraints_ok_def)
  then have name: "tc_tableName cfg' = k" using item_ok_table [OF it(2)] cfg'(3) by simp
  have new: "item_table (item_set_table cfg' it) = Some cfg'" using it(2) by simp
  have "constraints_ok h lt B m c'"
    using ok item_ok_cache [OF _ cache] unfolding constraints_ok_def by blast
  then have "constraints_ok h lt B m' c'"
    unfolding m'_def
    by (rule constraints_ok_assign [OF _ it(1)])
      (use new name cfg'(1) it(2) in \<open>auto simp: item_ok_table item_table_def\<close>)
  moreover have "tables_in_step B m' c'"
    using steps new cfg'(2) conditions_ok_cache [OF _ c'] it(1)
    by (auto simp: tables_in_step_def m'_def store_simps)
  ultimately show ?thesis using it(1) by (auto simp: m'_def store_simps)
qed

section \<open>The interface of the conversions\<close>

text \<open>
  A conversion delivers well-formed entries and default actions, keeps the set of symbols sorted,
  never removes from it and adds every variable the result assigns.
\<close>

locale entry_converter =
  fixes B :: "'z z3_backend"
    and convertDefault :: "SymbolSet \<Rightarrow> 'z TableDefaultAction option option \<times> SymbolSet"
    and convertEntry :: "SymbolSet \<Rightarrow> 'z TableMatchEntry option \<times> SymbolSet"
  assumes default_symbols:
      "sorted_wrt sv_less S \<Longrightarrow> sorted_wrt sv_less (snd (convertDefault S)) \<and>
       sv_key ` set S \<subseteq> sv_key ` set (snd (convertDefault S))"
    and entry_symbols:
      "sorted_wrt sv_less S \<Longrightarrow> sorted_wrt sv_less (snd (convertEntry S)) \<and>
       sv_key ` set S \<subseteq> sv_key ` set (snd (convertEntry S))"
    and default_converted:
      "sorted_wrt sv_less S \<Longrightarrow> convertDefault S = (Some (Some d), S') \<Longrightarrow>
       default_ok B d \<and> sym_covers S' (fst ` set (da_actionAssignment d))"
    and entry_converted:
      "sorted_wrt sv_less S \<Longrightarrow> convertEntry S = (Some e, S') \<Longrightarrow>
       entry_ok B e \<and> sym_covers S' (fst ` set (te_actionAssignment e)) \<and>
       sym_covers S' (fst ` set (te_matches e))"
begin

lemma update_ok:
  assumes so: "strict_order (entry_less h lt :: 'z TableMatchEntry \<Rightarrow> _)"
    and wf: "config_wf h lt B cfg c" "conditions_ok B cfg c" and S: "sorted_wrt sv_less S"
    and step: "update_table h lt B convertDefault convertEntry isConst wildcard ty cfg c S = (ok, cfg', c', S')"
  shows "config_wf h lt B cfg' c' \<and> conditions_ok B cfg' c' \<and> cache_grows c c' \<and> tc_tableName cfg' = tc_tableName cfg"
proof -
  obtain d S1 where d: "convertDefault S = (d, S1)" by (cases "convertDefault S")
  show ?thesis
  proof (cases d)
    case None
    with step d wf show ?thesis by (simp add: update_table_def)
  next
    case (Some d')
    define cfg1 where "cfg1 = (case d' of None \<Rightarrow> cfg | Some x \<Rightarrow> setDefaultTableAction x cfg)"
    have S1: "sorted_wrt sv_less S1" using default_symbols [OF S] d by simp
    have cfg1: "config_wf h lt B cfg1 c" "conditions_ok B cfg1 c" "tc_tableName cfg1 = tc_tableName cfg"
      using wf default_converted [OF S] d Some
      by (auto simp: cfg1_def setDefaultTableAction_def config_wf_def conditions_ok_def split: option.splits)
    obtain e S2 where e: "convertEntry S1 = (e, S2)" by (cases "convertEntry S1")
    consider "isConst" | "\<not> isConst" "wildcard" | "\<not> isConst" "\<not> wildcard" by blast
    then show ?thesis
    proof cases
      case 3
      show ?thesis
      proof (cases e)
        case (Some e')
        obtain ok2 cfg2 c2 where a: "apply_update h lt B ty e' cfg1 c = (ok2, cfg2, c2)"
          by (cases "apply_update h lt B ty e' cfg1 c") auto
        have "entry_ok B e'" using entry_converted [OF S1] e Some by simp
        with apply_update_ok [OF so cfg1(1,2) _ a] apply_update_frame [OF a] apply_update_cache [OF a] cfg1(3)
        show ?thesis using step d \<open>d = Some d'\<close> e Some a 3 by (simp add: update_table_def cfg1_def [symmetric])
      qed (use step d Some e 3 cfg1 in \<open>simp add: update_table_def cfg1_def [symmetric]\<close>)
    qed (use step d Some cfg1 in \<open>auto simp: update_table_def cfg1_def [symmetric] clearTableEntries_def
        config_wf_def conditions_ok_def\<close>)
  qed
qed

lemma update_symbols:
  assumes S: "sorted_wrt sv_less S"
    and "update_table h lt B convertDefault convertEntry isConst wildcard ty cfg c S = (ok, cfg', c', S')"
  shows "sorted_wrt sv_less S' \<and> sv_key ` set S \<subseteq> sv_key ` set S'"
proof -
  obtain d S1 where d: "convertDefault S = (d, S1)" by (cases "convertDefault S")
  obtain e S2 where e: "convertEntry S1 = (e, S2)" by (cases "convertEntry S1")
  have S1: "sorted_wrt sv_less S1" "sv_key ` set S \<subseteq> sv_key ` set S1" using default_symbols [OF S] d by simp_all
  have "S' = S1 \<or> S' = S2"
    using assms(2) d e by (auto simp: update_table_def Let_def split: option.splits if_splits prod.splits)
  with S1 entry_symbols [OF S1(1)] e show ?thesis by auto
qed

text \<open>The symbols of an update cover what it changes in the assignments of the table.\<close>

lemma update_covered:
  assumes so: "strict_order (entry_less h lt :: 'z TableMatchEntry \<Rightarrow> _)"
    and wf: "sorted_wrt (entry_less h lt) (tc_tableEntries cfg)" and S: "sorted_wrt sv_less S"
    and step: "update_table h lt B convertDefault convertEntry isConst False ty cfg c S = (ok, cfg', c', S')"
    and x: "sv_key x \<notin> sv_key ` set S'"
    and same: "tc_defaultTableAction cfg' = tc_defaultTableAction cfg"
    and kept: "\<And>y. y \<in> set (tc_tableEntries cfg) \<Longrightarrow> assigns x y \<Longrightarrow> y \<in> set (tc_tableEntries cfg')"
    and bounds: "tc_tableEntries cfg = [] \<longleftrightarrow> tc_tableEntries cfg' = []"
      "length (tc_tableEntries cfg) \<le> kMaxEntriesPerTable" "length (tc_tableEntries cfg') \<le> kMaxEntriesPerTable"
    and s: "computeControlPlaneAssignments P cfg = Some s" "computeControlPlaneAssignments P cfg' = Some s'"
  shows "cp_find s' x = cp_find s x"
proof -
  obtain d S1 where d: "convertDefault S = (d, S1)" by (cases "convertDefault S")
  have S1: "sorted_wrt sv_less S1" using default_symbols [OF S] d by simp
  obtain e S2 where e: "convertEntry S1 = (e, S2)" by (cases "convertEntry S1")
  define cfg1 where "cfg1 = (case d of None \<Rightarrow> cfg | Some None \<Rightarrow> cfg | Some (Some x) \<Rightarrow> setDefaultTableAction x cfg)"
  have cfg1: "tc_tableEntries cfg1 = tc_tableEntries cfg" "tc_tableName cfg1 = tc_tableName cfg"
    "tc_tableKeyMatch cfg1 = tc_tableKeyMatch cfg"
    by (simp_all add: cfg1_def setDefaultTableAction_def split: option.splits)
  have "cfg' = cfg1 \<or> (\<exists>e' ok' c2. e = Some e' \<and> S' = S2 \<and> apply_update h lt B ty e' cfg1 c = (ok', cfg', c2))"
    using step d e by (auto simp: update_table_def Let_def cfg1_def split: option.splits if_splits prod.splits)
  then have frame: "tc_tableName cfg' = tc_tableName cfg1 \<and> tc_tableKeyMatch cfg' = tc_tableKeyMatch cfg1 \<and>
    filter (assigns x) (tc_tableEntries cfg') = filter (assigns x) (tc_tableEntries cfg)"
  proof (elim disjE exE conjE)
    fix e' ok' c2 assume a: "e = Some e'" "S' = S2" "apply_update h lt B ty e' cfg1 c = (ok', cfg', c2)"
    have "sym_covers S' (fst ` set (te_actionAssignment e'))" using entry_converted [OF S1] e a by simp
    with x have "\<not> assigns x e'" by (auto simp: assigns_def sym_covers_def om_find_None image_iff)
    with apply_update_filter [OF so _ a(3), of x] apply_update_frame [OF a(3)] wf kept cfg1 show ?thesis by simp
  qed (simp add: cfg1)
  then show ?thesis using assignments_unchanged [OF _ same _ bounds _ s] cfg1 by simp
qed

end

end
