(* ===== verification/P4Runtime.thy ===== *)
theory P4Runtime
  imports TableUpdate
begin

text \<open>
  Updates in the P4Runtime protocol (\<open>core/control_plane/p4runtime/protobuf.cpp\<close>). A message is
  converted to a table entry: its fields become assignments of the key symbols, its action
  assignments of the action choice and the action arguments.

  \<open>symbolSet\<close> is threaded through and keeps what was put into it when a conversion fails.
\<close>

section \<open>Messages\<close>

datatype field_match =
    kExact bytes
  | kLpm bytes int
  | kTernary bytes bytes
  | kRange bytes bytes
  | kOptional bytes
  | FIELD_MATCH_TYPE_NOT_SET

record FieldMatch =
  fm_field_id :: nat
  fm_field_match :: field_match

record Action =
  ac_action_id :: nat
  ac_params :: "(nat \<times> bytes) list"

record TableEntry =
  pe_table_id :: nat
  pe_match :: "FieldMatch list"
  pe_action :: "Action option"
  pe_priority :: int
  pe_is_default_action :: bool

datatype Entity = TableEntryEntity TableEntry | OtherEntity

text \<open>An action that is not set reads as the default message.\<close>

definition entry_action :: "TableEntry \<Rightarrow> Action" where
  "entry_action e = (case pe_action e of None \<Rightarrow> \<lparr>ac_action_id = 0, ac_params = []\<rparr> | Some a \<Rightarrow> a)"

section \<open>Conversion\<close>

definition produceTableMatch ::
  "compiler \<Rightarrow> cp_symbols \<Rightarrow> field_match \<Rightarrow> string \<Rightarrow> MatchField \<Rightarrow> SymbolSet \<Rightarrow>
   ControlPlaneAssignmentSet option \<times> SymbolSet" where
  "produceTableMatch I P field tableName matchField symbolSet =
     (let keyType = Type_Bits (mf_bitwidth matchField) False;
          keySymbol = getTableKey P tableName (mf_name matchField) keyType;
          symbolSet = sym_emplace keySymbol symbolSet in
      case field of
        kExact value \<Rightarrow>
          (Some (emplace keySymbol (Constant_get I keyType (stringToBigInt value)) []), symbolSet)
      | kLpm value prefix \<Rightarrow>
          (let lpmPrefixSymbol = getTableMatchLpmPrefix P tableName (mf_name matchField) keyType in
           (Some (emplace lpmPrefixSymbol (Constant_get I keyType prefix)
              (emplace keySymbol (Constant_get I keyType (stringToBigInt value)) [])),
            sym_emplace lpmPrefixSymbol symbolSet))
      | kTernary value maskValue \<Rightarrow>
          (let maskSymbol = getTableTernaryMask P tableName (mf_name matchField) keyType in
           (Some (emplace maskSymbol (Constant_get I keyType (stringToBigInt maskValue))
              (emplace keySymbol (Constant_get I keyType (stringToBigInt value)) [])),
            sym_emplace maskSymbol symbolSet))
      | kRange low high \<Rightarrow>
          (case getTableRange P tableName (mf_name matchField) keyType of
             (rangeMinSymbol, rangeMaxSymbol) \<Rightarrow>
               (Some (emplace rangeMaxSymbol (Constant_get I keyType (stringToBigInt high))
                  (emplace rangeMinSymbol (Constant_get I keyType (stringToBigInt low)) [])),
                sym_emplace rangeMaxSymbol (sym_emplace rangeMinSymbol symbolSet)))
      | kOptional value \<Rightarrow>
          (Some (emplace keySymbol (Constant_get I keyType (stringToBigInt value)) []), symbolSet)
      | FIELD_MATCH_TYPE_NOT_SET \<Rightarrow> (None, symbolSet))"

definition produceTableMatchForMissingField ::
  "compiler \<Rightarrow> cp_symbols \<Rightarrow> string \<Rightarrow> MatchField \<Rightarrow> SymbolSet \<Rightarrow>
   ControlPlaneAssignmentSet option \<times> SymbolSet" where
  "produceTableMatchForMissingField I P tableName matchField symbolSet =
     (let keyType = Type_Bits (mf_bitwidth matchField) False;
          keySymbol = getTableKey P tableName (mf_name matchField) keyType;
          symbolSet = sym_emplace keySymbol symbolSet in
      if mf_match_type matchField = MT_TERNARY \<or> mf_match_type matchField = MT_OPTIONAL
      then (let maskSymbol = getTableTernaryMask P tableName (mf_name matchField) keyType in
        (Some (emplace maskSymbol (Constant_get I keyType 0)
           (emplace keySymbol (Constant_get I keyType 0) [])),
         sym_emplace maskSymbol (sym_emplace keySymbol symbolSet)))
      else (None, symbolSet))"

text \<open>Of parameters with the same identifier the map holds the first.\<close>

fun convert_params ::
  "compiler \<Rightarrow> cp_symbols \<Rightarrow> string \<Rightarrow> InfoAction \<Rightarrow> (nat \<times> bytes) list \<Rightarrow>
   ControlPlaneAssignmentSet \<Rightarrow> SymbolSet \<Rightarrow> ControlPlaneAssignmentSet option \<times> SymbolSet" where
  "convert_params I P tableName p4Action [] s symbolSet = (Some s, symbolSet)"
| "convert_params I P tableName p4Action ((param_id, value) # params) s symbolSet =
     (case find (\<lambda>param. ap_id param = param_id) (ia_params p4Action) of
        None \<Rightarrow> (None, symbolSet)
      | Some param \<Rightarrow>
          (let paramType = Type_Bits (ap_bitwidth param) False;
               actionArg = getTableActionArgument P tableName (ia_name p4Action) (ap_param_name param) paramType in
           convert_params I P tableName p4Action params
             (emplace actionArg (Constant_get I paramType (stringToBigInt value)) s)
             (sym_emplace actionArg symbolSet)))"

definition convertTableAction ::
  "compiler \<Rightarrow> cp_symbols \<Rightarrow> Action \<Rightarrow> string \<Rightarrow> InfoAction \<Rightarrow> SymbolSet \<Rightarrow> bool \<Rightarrow>
   ControlPlaneAssignmentSet option \<times> SymbolSet" where
  "convertTableAction I P tblAction tableName p4Action symbolSet isDefaultAction =
     (let tableActionID = (if isDefaultAction then getDefaultActionVariable tableName
                           else getTableActionChoice P tableName);
          symbolSet = sym_emplace tableActionID symbolSet;
          tableActionAssignmentSet = emplace tableActionID (StringLiteral (ia_name p4Action)) [] in
      if length (ac_params tblAction) \<noteq> length (ia_params p4Action)
      then (Some tableActionAssignmentSet, symbolSet)
      else if length (ac_params tblAction) = length (ia_params p4Action)
      then convert_params I P tableName p4Action (ac_params tblAction) tableActionAssignmentSet symbolSet
      else (None, symbolSet))"

text \<open>Every match field of the table in turn: from the message when it has one, or the dummy.\<close>

definition produce_match ::
  "compiler \<Rightarrow> cp_symbols \<Rightarrow> string \<Rightarrow> FieldMatch list \<Rightarrow> MatchField \<Rightarrow> SymbolSet \<Rightarrow>
   ControlPlaneAssignmentSet option \<times> SymbolSet" where
  "produce_match I P tableName fieldMatches matchField symbolSet =
     (case find (\<lambda>f. fm_field_id f = mf_id matchField) fieldMatches of
        None \<Rightarrow> produceTableMatchForMissingField I P tableName matchField symbolSet
      | Some f \<Rightarrow> produceTableMatch I P (fm_field_match f) tableName matchField symbolSet)"

fun produce_matches ::
  "compiler \<Rightarrow> cp_symbols \<Rightarrow> string \<Rightarrow> FieldMatch list \<Rightarrow> MatchField list \<Rightarrow> ControlPlaneAssignmentSet \<Rightarrow>
   SymbolSet \<Rightarrow> ControlPlaneAssignmentSet option \<times> SymbolSet" where
  "produce_matches I P tableName fieldMatches [] tableKeySet symbolSet = (Some tableKeySet, symbolSet)"
| "produce_matches I P tableName fieldMatches (matchField # matchFields) tableKeySet symbolSet =
     (case produce_match I P tableName fieldMatches matchField symbolSet of
        (matchSet, symbolSet) \<Rightarrow>
          (case matchSet of
             None \<Rightarrow> (None, symbolSet)
           | Some matchSet \<Rightarrow>
               produce_matches I P tableName fieldMatches matchFields
                 (foldl (\<lambda>s (x, e). emplace x e s) tableKeySet matchSet) symbolSet))"

definition produceTableEntry ::
  "'z z3_backend \<Rightarrow> compiler \<Rightarrow> cp_symbols \<Rightarrow> string \<Rightarrow> nat \<Rightarrow> P4Info \<Rightarrow> TableEntry \<Rightarrow> SymbolSet \<Rightarrow>
   'z TableMatchEntry option \<times> SymbolSet" where
  "produceTableEntry B I P tableName tblId p4Info tableEntry symbolSet =
     (case pe_action tableEntry of
        None \<Rightarrow> (None, symbolSet)
      | Some tableAction \<Rightarrow>
     (case findP4RuntimeAction p4Info (ac_action_id tableAction) of
        None \<Rightarrow> (None, symbolSet)
      | Some p4Action \<Rightarrow>
     (case convertTableAction I P tableAction tableName p4Action symbolSet False of
        (None, symbolSet) \<Rightarrow> (None, symbolSet)
      | (Some tableActionAssignmentSet, symbolSet) \<Rightarrow>
     (case findP4RuntimeTable p4Info tblId of
        None \<Rightarrow> (None, symbolSet)
      | Some p4InfoTable \<Rightarrow>
          if length (pe_match tableEntry) \<le> length (it_match_fields p4InfoTable)
          then (case produce_matches I P tableName (pe_match tableEntry) (it_match_fields p4InfoTable) [] symbolSet of
              (None, symbolSet) \<Rightarrow> (None, symbolSet)
            | (Some tableKeySet, symbolSet) \<Rightarrow>
                (Some (mk_TableMatchEntry B tableActionAssignmentSet (pe_priority tableEntry) tableKeySet), symbolSet))
          else (None, symbolSet)))))"

text \<open>The default action of a message: \<open>Some None\<close> when it is not about the default action.\<close>

definition produceDefaultAction ::
  "'z z3_backend \<Rightarrow> compiler \<Rightarrow> cp_symbols \<Rightarrow> string \<Rightarrow> P4Info \<Rightarrow> TableEntry \<Rightarrow> SymbolSet \<Rightarrow>
   'z TableDefaultAction option option \<times> SymbolSet" where
  "produceDefaultAction B I P tableName p4Info tableEntry symbolSet =
     (if pe_is_default_action tableEntry
      then (case findP4RuntimeAction p4Info (ac_action_id (entry_action tableEntry)) of
          None \<Rightarrow> (None, symbolSet)
        | Some p4Action \<Rightarrow>
            (case convertTableAction I P (entry_action tableEntry) tableName p4Action symbolSet True of
               (None, symbolSet) \<Rightarrow> (None, symbolSet)
             | (Some defaultActionExpr, symbolSet) \<Rightarrow>
                 (Some (Some (mk_TableDefaultAction B defaultActionExpr)), symbolSet)))
      else (Some None, symbolSet))"

section \<open>Updates\<close>

definition updateTableEntry ::
  "(item_class \<Rightarrow> nat) \<Rightarrow> (expr \<Rightarrow> expr \<Rightarrow> bool) \<Rightarrow> 'z z3_backend \<Rightarrow> compiler \<Rightarrow> cp_symbols \<Rightarrow> P4Info \<Rightarrow>
   TableEntry \<Rightarrow> Update_Type \<Rightarrow> 'z ControlPlaneConstraints \<Rightarrow> 'z Z3Cache \<Rightarrow> SymbolSet \<Rightarrow>
   bool \<times> 'z ControlPlaneConstraints \<times> 'z Z3Cache \<times> SymbolSet" where
  "updateTableEntry h lt B I P p4Info tableEntry updateType m c symbolSet =
     (case findP4RuntimeTable p4Info (pe_table_id tableEntry) of
        None \<Rightarrow> (False, m, c, symbolSet)
      | Some p4Table \<Rightarrow>
     (case map_find m (it_name p4Table) of
        None \<Rightarrow> (False, m, c, symbolSet)
      | Some it \<Rightarrow>
     (case item_table it of
        None \<Rightarrow> (False, m, c, symbolSet)
      | Some tableResult \<Rightarrow>
     (case update_table h lt B
          (produceDefaultAction B I P (it_name p4Table) p4Info tableEntry)
          (produceTableEntry B I P (it_name p4Table) (pe_table_id tableEntry) p4Info tableEntry)
          (it_is_const_table p4Table) False updateType tableResult c symbolSet of
        (ok, tableResult, c, symbolSet) \<Rightarrow>
          (ok, map_assign (it_name p4Table) (item_set_table tableResult it) m, c, symbolSet)))))"

definition updateControlPlaneConstraintsWithEntityMessage ::
  "(item_class \<Rightarrow> nat) \<Rightarrow> (expr \<Rightarrow> expr \<Rightarrow> bool) \<Rightarrow> 'z z3_backend \<Rightarrow> compiler \<Rightarrow> cp_symbols \<Rightarrow> P4Info \<Rightarrow>
   Entity \<Rightarrow> Update_Type \<Rightarrow> 'z ControlPlaneConstraints \<Rightarrow> 'z Z3Cache \<Rightarrow> SymbolSet \<Rightarrow>
   bool \<times> 'z ControlPlaneConstraints \<times> 'z Z3Cache \<times> SymbolSet" where
  "updateControlPlaneConstraintsWithEntityMessage h lt B I P p4Info entity updateType m c symbolSet =
     (case entity of
        TableEntryEntity e \<Rightarrow> updateTableEntry h lt B I P p4Info e updateType m c symbolSet
      | OtherEntity \<Rightarrow> (False, m, c, symbolSet))"

fun updateControlPlaneConstraints ::
  "(item_class \<Rightarrow> nat) \<Rightarrow> (expr \<Rightarrow> expr \<Rightarrow> bool) \<Rightarrow> 'z z3_backend \<Rightarrow> compiler \<Rightarrow> cp_symbols \<Rightarrow> P4Info \<Rightarrow>
   Entity list \<Rightarrow> 'z ControlPlaneConstraints \<Rightarrow> 'z Z3Cache \<Rightarrow> SymbolSet \<Rightarrow>
   bool \<times> 'z ControlPlaneConstraints \<times> 'z Z3Cache \<times> SymbolSet" where
  "updateControlPlaneConstraints h lt B I P p4Info [] m c symbolSet = (True, m, c, symbolSet)"
| "updateControlPlaneConstraints h lt B I P p4Info (entity # entities) m c symbolSet =
     (case updateControlPlaneConstraintsWithEntityMessage h lt B I P p4Info entity MODIFY m c symbolSet of
        (ok, m, c, symbolSet) \<Rightarrow>
          if ok then updateControlPlaneConstraints h lt B I P p4Info entities m c symbolSet
          else (False, m, c, symbolSet))"

section \<open>The conversions meet their interface\<close>

lemma produceTableMatch_converted:
  "sorted_wrt sv_less S \<Longrightarrow> converted S (produceTableMatch I P f t mf S)"
  by (auto simp: produceTableMatch_def Let_def converted_def sym_covers_def store_simps emplace_distinct
      split: field_match.splits prod.splits)

lemma produceTableMatchForMissingField_converted:
  "sorted_wrt sv_less S \<Longrightarrow> converted S (produceTableMatchForMissingField I P t mf S)"
  by (auto simp: produceTableMatchForMissingField_def Let_def converted_def sym_covers_def store_simps
      emplace_distinct)

lemma convert_params_converted:
  "sorted_wrt sv_less S \<Longrightarrow> distinct_keys sv_key s \<Longrightarrow> sym_covers S (fst ` set s) \<Longrightarrow>
   converted S (convert_params I P t a params s S)"
proof (induction I P t a params s S rule: convert_params.induct)
  case (2 I P t a i v params s S)
  show ?case
  proof (cases "find (\<lambda>param. ap_id param = i) (ia_params a)")
    case (Some p)
    define x where "x = getTableActionArgument P t (ia_name a) (ap_param_name p) (Type_Bits (ap_bitwidth p) False)"
    define e where "e = Constant_get I (Type_Bits (ap_bitwidth p) False) (stringToBigInt v)"
    have "converted (sym_emplace x S) (convert_params I P t a params (emplace x e s) (sym_emplace x S))"
      unfolding x_def e_def
      by (rule 2(1) [OF Some refl refl])
        (use 2(2-) in \<open>auto simp: store_simps emplace_distinct sym_covers_def\<close>)
    then show ?thesis using Some 2(2) by (auto simp: converted_def store_simps x_def e_def Let_def)
  qed (use 2 in \<open>simp add: converted_def\<close>)
qed (simp add: converted_def)

lemma convertTableAction_converted:
  assumes S: "sorted_wrt sv_less S"
  shows "converted S (convertTableAction I P act t a S d)"
proof -
  define x where "x = (if d then getDefaultActionVariable t else getTableActionChoice P t)"
  have "converted (sym_emplace x S)
      (convert_params I P t a (ac_params act) (emplace x (StringLiteral (ia_name a)) []) (sym_emplace x S))"
    by (rule convert_params_converted) (use S in \<open>auto simp: store_simps emplace_distinct sym_covers_def\<close>)
  then show ?thesis
    using S by (auto simp: convertTableAction_def Let_def converted_def store_simps emplace_distinct
        sym_covers_def simp flip: x_def)
qed

lemma produce_match_converted: "sorted_wrt sv_less S \<Longrightarrow> converted S (produce_match I P t fs mf S)"
  by (simp add: produce_match_def produceTableMatch_converted produceTableMatchForMissingField_converted
      split: option.splits)

lemma produce_matches_converted:
  "sorted_wrt sv_less S \<Longrightarrow> distinct_keys sv_key s \<Longrightarrow> sym_covers S (fst ` set s) \<Longrightarrow>
   converted S (produce_matches I P t fs mfs s S)"
proof (induction mfs arbitrary: s S)
  case (Cons mf mfs)
  obtain r S1 where r: "produce_match I P t fs mf S = (r, S1)" by (cases "produce_match I P t fs mf S")
  have c: "converted S (r, S1)" using produce_match_converted [OF Cons.prems(1), of I P t fs mf] r by simp
  show ?case
  proof (cases r)
    case (Some new)
    have "converted S1 (produce_matches I P t fs mfs (foldl (\<lambda>s (x, e). emplace x e s) s new) S1)"
      by (rule Cons.IH)
        (use c Cons.prems Some in \<open>auto simp: converted_def foldl_emplace_distinct sym_covers_def foldl_emplace_keys\<close>)
    with c show ?thesis by (auto simp: r Some converted_def)
  qed (use c in \<open>simp add: r converted_def\<close>)
qed (simp add: converted_def)

lemma produceTableEntry_converted:
  assumes S: "sorted_wrt sv_less S" and r: "produceTableEntry B I P t tblId p4Info e S = (r, S')"
  shows "(r = None \<and> S' = S) \<or> (\<exists>s. converted S (s, S') \<and> r = None) \<or>
    (\<exists>s S1 k. converted S (Some s, S1) \<and> converted S1 (k, S') \<and>
      (r = None \<or> (\<exists>k' p. k = Some k' \<and> r = Some (mk_TableMatchEntry B s p k'))))"
proof (cases "\<exists>act a. pe_action e = Some act \<and> findP4RuntimeAction p4Info (ac_action_id act) = Some a")
  case True
  then obtain act a where act: "pe_action e = Some act" "findP4RuntimeAction p4Info (ac_action_id act) = Some a" by blast
  obtain s S1 where s: "convertTableAction I P act t a S False = (s, S1)" by fastforce
  have S1: "converted S (s, S1)" using convertTableAction_converted [OF S, of I P act t a False] s by simp
  show ?thesis
  proof (cases "\<exists>s' tab. s = Some s' \<and> findP4RuntimeTable p4Info tblId = Some tab")
    case True
    then obtain s' tab where tab: "s = Some s'" "findP4RuntimeTable p4Info tblId = Some tab" by blast
    obtain k S2 where k: "produce_matches I P t (pe_match e) (it_match_fields tab) [] S1 = (k, S2)" by fastforce
    have k1: "converted S1 (k, S2)"
      using produce_matches_converted [of S1 "[]" I P t "pe_match e" "it_match_fields tab"] S1 k by (simp add: converted_def sym_covers_def)
    have "(r = None \<and> S' = S1) \<or>
        (S' = S2 \<and> (r = None \<or> (\<exists>k'. k = Some k' \<and> r = Some (mk_TableMatchEntry B s' (pe_priority e) k'))))"
      using r act s tab k by (auto simp: produceTableEntry_def split: if_splits option.splits)
    with S1 k1 tab(1) show ?thesis by blast
  qed (use r act s S1 in \<open>auto simp: produceTableEntry_def split: option.splits\<close>)
qed (use r in \<open>auto simp: produceTableEntry_def split: option.splits\<close>)

interpretation p4: entry_converter B "produceDefaultAction B I P tableName p4Info tableEntry"
    "produceTableEntry B I P tableName tblId p4Info tableEntry"
  for B :: "'z z3_backend" and I P tableName p4Info tableEntry tblId
proof (unfold_locales)
  fix S :: SymbolSet assume S: "sorted_wrt sv_less S"
  have action: "sorted_wrt sv_less S' \<and> sv_key ` set S \<subseteq> sv_key ` set S' \<and>
      (\<forall>s. r = Some s \<longrightarrow> distinct_keys sv_key s \<and> sym_covers S' (fst ` set s))"
    if "convertTableAction I P act t a S d = (r, S')" for act t a d r S'
    using convertTableAction_converted [OF S, of I P act t a d] that by (simp add: converted_def)
  show "sorted_wrt sv_less (snd (produceDefaultAction B I P tableName p4Info tableEntry S)) \<and>
      sv_key ` set S \<subseteq> sv_key ` set (snd (produceDefaultAction B I P tableName p4Info tableEntry S))"
    using S by (auto simp: produceDefaultAction_def dest!: action split: option.splits prod.splits)
  show "default_ok B d \<and> sym_covers S' (fst ` set (da_actionAssignment d))"
    if "produceDefaultAction B I P tableName p4Info tableEntry S = (Some (Some d), S')" for d S'
    using that
    by (auto simp: produceDefaultAction_def mk_TableDefaultAction_ok
        dest!: action split: option.splits prod.splits if_splits)
next
  fix S :: SymbolSet assume S: "sorted_wrt sv_less S"
  obtain r S' where r: "produceTableEntry B I P tableName tblId p4Info tableEntry S = (r, S')"
    by (cases "produceTableEntry B I P tableName tblId p4Info tableEntry S")
  from converted_entry [OF S produceTableEntry_converted [OF S r]]
  show "sorted_wrt sv_less (snd (produceTableEntry B I P tableName tblId p4Info tableEntry S)) \<and>
      sv_key ` set S \<subseteq> sv_key ` set (snd (produceTableEntry B I P tableName tblId p4Info tableEntry S))"
    and "\<And>e S'. produceTableEntry B I P tableName tblId p4Info tableEntry S = (Some e, S') \<Longrightarrow>
      entry_ok B e \<and> sym_covers S' (fst ` set (te_actionAssignment e)) \<and> sym_covers S' (fst ` set (te_matches e))"
    by (simp_all add: r)
qed

section \<open>What an update does\<close>

text \<open>The table a message is about, as the configuration has it.\<close>

definition updated_table ::
  "P4Info \<Rightarrow> TableEntry \<Rightarrow> 'z ControlPlaneConstraints \<Rightarrow> (string \<times> InfoTable \<times> 'z TableConfiguration) option" where
  "updated_table p4Info e m =
     (case findP4RuntimeTable p4Info (pe_table_id e) of
        None \<Rightarrow> None
      | Some p4Table \<Rightarrow>
          (case map_find m (it_name p4Table) of
             None \<Rightarrow> None
           | Some it \<Rightarrow> map_option (\<lambda>cfg. (it_name p4Table, p4Table, cfg)) (item_table it)))"

lemma updateTableEntry_no_table:
  "updated_table p4Info e m = None \<Longrightarrow> updateTableEntry h lt B I P p4Info e ty m c S = (False, m, c, S)"
  by (auto simp: updated_table_def updateTableEntry_def split: option.splits)

lemma updateTableEntry_table:
  assumes "updated_table p4Info e m = Some (t, p4Table, cfg)"
  obtains it where "findP4RuntimeTable p4Info (pe_table_id e) = Some p4Table" "it_name p4Table = t"
    "map_find m t = Some it" "item_table it = Some cfg"
    "\<And>h lt B I P ty c S. updateTableEntry h lt B I P p4Info e ty m c S =
      (case update_table h lt B (produceDefaultAction B I P t p4Info e)
          (produceTableEntry B I P t (pe_table_id e) p4Info e) (it_is_const_table p4Table) False ty cfg c S of
        (ok, cfg', c', S') \<Rightarrow> (ok, map_assign t (item_set_table cfg' it) m, c', S'))"
proof -
  from assms obtain it where it: "findP4RuntimeTable p4Info (pe_table_id e) = Some p4Table" "it_name p4Table = t"
    "map_find m t = Some it" "item_table it = Some cfg"
    by (auto simp: updated_table_def split: option.splits)
  show thesis by (rule that [OF it]) (use it in \<open>simp add: updateTableEntry_def split_beta\<close>)
qed

lemma updateTableEntry_safe:
  assumes so: "strict_order (entry_less h lt :: 'z TableMatchEntry \<Rightarrow> _)"
    and ok: "constraints_ok h lt (B :: 'z z3_backend) m c" "tables_in_step B m c" and S: "sorted_wrt sv_less S"
    and step: "updateTableEntry h lt B I P p4Info e ty m c S = (r, m', c', S')"
  shows "constraints_ok h lt B m' c' \<and> tables_in_step B m' c' \<and> map fst m' = map fst m \<and>
    (\<forall>n. n \<notin> fst ` set_option (updated_table p4Info e m) \<longrightarrow> map_find m' n = map_find m n) \<and>
    sorted_wrt sv_less S' \<and> sv_key ` set S \<subseteq> sv_key ` set S'"
proof (cases "updated_table p4Info e m")
  case None
  with step updateTableEntry_no_table [OF None] ok S show ?thesis by simp
next
  case (Some p)
  obtain t p4Table cfg where p: "p = (t, p4Table, cfg)" by (cases p)
  obtain it where it: "map_find m t = Some it" "item_table it = Some cfg"
    and upd: "updateTableEntry h lt B I P p4Info e ty m c S =
      (case update_table h lt B (produceDefaultAction B I P t p4Info e)
          (produceTableEntry B I P t (pe_table_id e) p4Info e) (it_is_const_table p4Table) False ty cfg c S of
        (ok, cfg', c', S') \<Rightarrow> (ok, map_assign t (item_set_table cfg' it) m, c', S'))"
    using updateTableEntry_table [OF Some [unfolded p]] by metis
  obtain r' cfg' c2 S2 where u: "update_table h lt B (produceDefaultAction B I P t p4Info e)
      (produceTableEntry B I P t (pe_table_id e) p4Info e) (it_is_const_table p4Table) False ty cfg c S =
      (r', cfg', c2, S2)" by (metis prod_cases4)
  have res: "m' = map_assign t (item_set_table cfg' it) m" "c' = c2" "S' = S2"
    using step upd u by simp_all
  have wf: "config_wf h lt B cfg c" "conditions_ok B cfg c"
    using ok it item_ok_table [OF it(2), of h lt B m c t] by (auto simp: constraints_ok_def tables_in_step_def)
  from p4.update_ok [OF so wf S u] update_table_item [OF ok it, of cfg' c2]
  have "constraints_ok h lt B m' c' \<and> tables_in_step B m' c' \<and> map fst m' = map fst m \<and>
    (\<forall>n. n \<noteq> t \<longrightarrow> map_find m' n = map_find m n)" by (simp add: res)
  moreover from p4.update_symbols [OF S u] have "sorted_wrt sv_less S' \<and> sv_key ` set S \<subseteq> sv_key ` set S'"
    by (simp add: res)
  ultimately show ?thesis by (simp add: Some p)
qed

lemma entity_safe:
  assumes "strict_order (entry_less h lt :: 'z TableMatchEntry \<Rightarrow> _)"
    and "constraints_ok h lt (B :: 'z z3_backend) m c" "tables_in_step B m c" "sorted_wrt sv_less S"
    and "updateControlPlaneConstraintsWithEntityMessage h lt B I P p4Info entity ty m c S = (r, m', c', S')"
  shows "constraints_ok h lt B m' c' \<and> tables_in_step B m' c' \<and> map fst m' = map fst m \<and>
    sorted_wrt sv_less S' \<and> sv_key ` set S \<subseteq> sv_key ` set S'"
  using assms(5) updateTableEntry_safe [OF assms(1-4), of I P p4Info _ ty r m' c' S'] assms(2-4)
  by (cases entity) (auto simp: updateControlPlaneConstraintsWithEntityMessage_def)

lemma entities_safe:
  assumes so: "strict_order (entry_less h lt :: 'z TableMatchEntry \<Rightarrow> _)"
  shows "constraints_ok h lt (B :: 'z z3_backend) m c \<Longrightarrow> tables_in_step B m c \<Longrightarrow> sorted_wrt sv_less S \<Longrightarrow>
    updateControlPlaneConstraints h lt B I P p4Info es m c S = (r, m', c', S') \<Longrightarrow>
    constraints_ok h lt B m' c' \<and> tables_in_step B m' c' \<and> map fst m' = map fst m \<and>
    sorted_wrt sv_less S' \<and> sv_key ` set S \<subseteq> sv_key ` set S'"
proof (induction es arbitrary: m c S)
  case (Cons e es)
  obtain r1 m1 c1 S1 where s: "updateControlPlaneConstraintsWithEntityMessage h lt B I P p4Info e MODIFY m c S = (r1, m1, c1, S1)"
    by (metis prod_cases4)
  note safe = entity_safe [OF so Cons.prems(1-3) s]
  show ?case
  proof (cases r1)
    case True
    then have "updateControlPlaneConstraints h lt B I P p4Info es m1 c1 S1 = (r, m', c', S')"
      using Cons.prems(4) s by simp
    with safe Cons.IH [of m1 c1 S1] subset_trans show ?thesis by metis
  qed (use safe Cons.prems(4) s in simp)
qed simp


text \<open>A program information of one table with an exact key and one action, and messages for it.\<close>

definition example_info :: "bool \<Rightarrow> match_type \<Rightarrow> P4Info" where
  "example_info const mt =
     \<lparr>findP4RuntimeAction = (\<lambda>i. if i = 7 then Some \<lparr>ia_name = ''set'', ia_params = [\<lparr>ap_id = 2, ap_param_name = ''x'', ap_bitwidth = 8\<rparr>]\<rparr> else None),
      findP4RuntimeTable = (\<lambda>i. if i = 3 then Some \<lparr>it_id = 3, it_name = ''t'',
        it_match_fields = [\<lparr>mf_id = 2, mf_name = ''f'', mf_bitwidth = 8, mf_match_type = mt\<rparr>],
        it_is_const_table = const, it_implementation_id = 0\<rparr> else None),
      findP4RuntimeTable_name = (\<lambda>n. None), findP4RuntimeActionProfile = (\<lambda>i. None),
      findP4RuntimeExtern = (\<lambda>n. None)\<rparr>"

definition example_message :: "8 word \<Rightarrow> 8 word \<Rightarrow> bool \<Rightarrow> TableEntry" where
  "example_message k x d =
     \<lparr>pe_table_id = 3, pe_match = [\<lparr>fm_field_id = 2, fm_field_match = kExact [k]\<rparr>],
      pe_action = Some \<lparr>ac_action_id = 7, ac_params = [(2, [x])]\<rparr>, pe_priority = 0, pe_is_default_action = d\<rparr>"

abbreviation bits8 :: "int \<Rightarrow> expr" where
  "bits8 n \<equiv> Constant (Type_Bits 8 False) n"

lemma example_entry_converted:
  "produceTableEntry ir_backend example_compiler example_symbols ''t'' 3 (example_info const mt) (example_message k x d) S =
   (Some (mk_TableMatchEntry ir_backend
      [(SVar False Type_String ''t_action'', StringLiteral ''set''),
       (SVar False (Type_Bits 8 False) ''tset_arg_x'', bits8 (uint x))] 0
      [(SVar False (Type_Bits 8 False) ''t_key_f'', bits8 (uint k))]),
    sym_emplace (SVar False (Type_Bits 8 False) ''t_key_f'') (sym_emplace (SVar False (Type_Bits 8 False) ''tset_arg_x'')
      (sym_emplace (SVar False Type_String ''t_action'') S)))"
proof -
  have "uint k mod 256 = uint k" "uint x mod 256 = uint x"
    using uint_lt2p [of k] uint_lt2p [of x] by simp_all
  then show ?thesis
    by (simp add: produceTableEntry_def example_info_def example_message_def convertTableAction_def Let_def
        produce_match_def produceTableMatch_def example_symbols_def example_compiler_def om_emplace_def
        sv_key_def stringToBigInt_def)
qed

lemma example_default_converted:
  "produceDefaultAction ir_backend example_compiler example_symbols ''t'' (example_info const mt) (example_message k x True) S =
   (Some (Some (mk_TableDefaultAction ir_backend
      [(SVar False Type_String ''t_default_action'', StringLiteral ''set''),
       (SVar False (Type_Bits 8 False) ''tset_arg_x'', bits8 (uint x))])),
    sym_emplace (SVar False (Type_Bits 8 False) ''tset_arg_x'')
      (sym_emplace (SVar False Type_String ''t_default_action'') S))"
proof -
  have "uint x mod 256 = uint x" using uint_lt2p [of x] by simp
  then show ?thesis
    by (simp add: produceDefaultAction_def entry_action_def example_info_def example_message_def
        convertTableAction_def Let_def example_symbols_def example_compiler_def om_emplace_def sv_key_def
        stringToBigInt_def getDefaultActionVariable_def)
qed

lemma example_not_default:
  "produceDefaultAction B I P t info (example_message k x False) S = (Some None, S)"
  by (simp add: produceDefaultAction_def example_message_def)

definition example_objects :: "expr ControlPlaneConstraints" where
  "example_objects = [(''t'', TableItem example_config)]"

lemma example_default_ok: "default_ok B (mk_TableDefaultAction B
    [(getTableActionChoice example_symbols ''t'', StringLiteral ''*NONE*'')])"
  by (rule mk_TableDefaultAction_ok) (simp add: distinct_keys_def)

lemma example_config_wf: "config_wf h lt ir_backend example_config Map.empty"
  using fresh_config_wf(1) [OF example_default_ok [of ir_backend]]
  by (simp add: example_config_def example_default_def)

lemma example_objects_ok:
  "constraints_ok h lt ir_backend example_objects Map.empty" "tables_in_step ir_backend example_objects Map.empty"
  using fresh_config_wf [OF example_default_ok [of ir_backend]]
  by (auto simp: constraints_ok_def tables_in_step_def example_objects_def map_sorted_def item_ok_def
      item_table_def example_config_def example_default_def mk_TableConfiguration_def)

lemma example_info_table:
  "pe_table_id (example_message k x d) = 3"
  "findP4RuntimeTable (example_info const mt) 3 = Some \<lparr>it_id = 3, it_name = ''t'',
     it_match_fields = [\<lparr>mf_id = 2, mf_name = ''f'', mf_bitwidth = 8, mf_match_type = mt\<rparr>],
     it_is_const_table = const, it_implementation_id = 0\<rparr>"
  by (simp_all add: example_message_def example_info_def)

lemma example_updated:
  "updated_table (example_info const mt) (example_message k x d) [(''t'', TableItem cfg)] =
   Some (''t'', \<lparr>it_id = 3, it_name = ''t'',
     it_match_fields = [\<lparr>mf_id = 2, mf_name = ''f'', mf_bitwidth = 8, mf_match_type = mt\<rparr>],
     it_is_const_table = const, it_implementation_id = 0\<rparr>, cfg)"
  by (simp add: updated_table_def example_info_def example_message_def item_table_def)

definition example_added :: "8 word \<Rightarrow> 8 word \<Rightarrow> expr TableMatchEntry" where
  "example_added k x =
     setZ3Condition ir_backend (z3_set ir_backend (BoolLiteral False)) (mk_TableMatchEntry ir_backend
      [(SVar False Type_String ''t_action'', StringLiteral ''set''),
       (SVar False (Type_Bits 8 False) ''tset_arg_x'', bits8 (uint x))] 0
      [(SVar False (Type_Bits 8 False) ''t_key_f'', bits8 (uint k))])"

lemma example_insert:
  "updateTableEntry h lt ir_backend example_compiler example_symbols (example_info False mt)
     (example_message k x False) INSERT example_objects Map.empty [] =
   (True, [(''t'', TableItem (example_config\<lparr>tc_tableEntries := [example_added k x]\<rparr>))],
    [BoolLiteral False \<mapsto> z3_set ir_backend (BoolLiteral False)],
    [SVar False Type_String ''t_action'', SVar False (Type_Bits 8 False) ''t_key_f'',
     SVar False (Type_Bits 8 False) ''tset_arg_x''])"
  by (simp add: updateTableEntry_def example_info_table item_table_def
      update_table_def apply_update_def addTableEntry_def cache_set_def z3_set_def example_added_def
      example_not_default example_entry_converted example_objects_def
      item_set_table_def map_assign_def Let_def example_config_def mk_TableConfiguration_def
      sym_emplace_def sv_less_def sv_key_def)


text \<open>
  Claim C24. A P4Runtime message that is not about the default action and is accepted changes only
  the table it names: a modification replaces the entry with the same matches or adds one, an insertion
  adds an entry where none had its matches, a deletion removes the one that had them. It is refused
  for constant tables.
\<close>

theorem p4runtime_update_effect:
  assumes "strict_order lt" and "inj h" and wf: "constraints_ok h lt (B :: 'z z3_backend) m c"
    and tab: "updated_table p4Info msg m = Some (t, p4Table, cfg)" and nd: "\<not> pe_is_default_action msg"
    and step: "updateTableEntry h lt B I P p4Info msg ty m c S = (True, m', c', S')"
  defines "same \<equiv> strict_order.same (entry_less h lt :: 'z TableMatchEntry \<Rightarrow> _)"
  shows "\<not> it_is_const_table p4Table \<and> (\<forall>n. n \<noteq> t \<longrightarrow> map_find m' n = map_find m n) \<and>
    (\<exists>e cfg'. produceTableEntry B I P t (pe_table_id msg) p4Info msg S = (Some e, S') \<and>
       updated_table p4Info msg m' = Some (t, p4Table, cfg') \<and>
       (let old = set (tc_tableEntries cfg); new = set (tc_tableEntries cfg');
            e' = setZ3Condition B (fst (cache_set B (tc_tableKeyMatch cfg) c)) e in
        (ty = MODIFY \<longrightarrow> new = insert e' {x \<in> old. \<not> same e x}) \<and>
        (ty = INSERT \<longrightarrow> (\<forall>x \<in> old. \<not> same e x) \<and> new = insert e' old) \<and>
        (ty = DELETE \<longrightarrow> (\<exists>x \<in> old. same e x) \<and> new = {x \<in> old. \<not> same e x}) \<and>
        ty \<noteq> UNSPECIFIED))"
proof -
  obtain it where it: "findP4RuntimeTable p4Info (pe_table_id msg) = Some p4Table" "it_name p4Table = t"
      "map_find m t = Some it" "item_table it = Some cfg"
    and upd: "updateTableEntry h lt B I P p4Info msg ty m c S =
      (case update_table h lt B (produceDefaultAction B I P t p4Info msg)
          (produceTableEntry B I P t (pe_table_id msg) p4Info msg) (it_is_const_table p4Table) False ty cfg c S of
        (ok, cfg', c', S') \<Rightarrow> (ok, map_assign t (item_set_table cfg' it) m, c', S'))"
    using updateTableEntry_table [OF tab] by metis
  have def: "produceDefaultAction B I P t p4Info msg S = (Some None, S)"
    using nd by (simp add: produceDefaultAction_def)
  obtain e S2 where e: "produceTableEntry B I P t (pe_table_id msg) p4Info msg S = (e, S2)" by fastforce
  from step upd def e obtain e' cfg' where e': "e = Some e'" "S' = S2" "\<not> it_is_const_table p4Table"
    and a: "apply_update h lt B ty e' cfg c = (True, cfg', c')" and m': "m' = map_assign t (item_set_table cfg' it) m"
    by (auto simp: update_table_def split: if_splits option.splits prod.splits)
  have "config_wf h lt B cfg c"
    using wf it item_ok_table [OF it(4), of h lt B m c t] by (auto simp: constraints_ok_def)
  then have "sorted_wrt (entry_less h lt) (tc_tableEntries cfg)" by (simp add: config_wf_def)
  note effect = apply_update_effect [OF entry_less_strict_order [OF assms(1,2)] this a]
  have "updated_table p4Info msg m' = Some (t, p4Table, cfg')"
    using it by (simp add: updated_table_def m' store_simps)
  then show ?thesis
    using effect e e' by (auto simp: m' store_simps same_def Let_def)
qed

theorem p4runtime_update_effect_witness:
  "\<exists>m' c' S' cfg'. updateTableEntry example_hash literal_less ir_backend example_compiler example_symbols
     (example_info False MT_EXACT) (example_message 5 9 False) INSERT example_objects Map.empty [] = (True, m', c', S') \<and>
   map_option (snd \<circ> snd) (updated_table (example_info False MT_EXACT) (example_message 5 9 False) m') = Some cfg' \<and>
   set (tc_tableEntries cfg') = {example_added 5 9}"
proof -
  have nd: "\<not> pe_is_default_action (example_message 5 9 False)" by (simp add: example_message_def)
  have empty: "tc_tableEntries example_config = []" "tc_tableKeyMatch example_config = BoolLiteral False"
    by (simp_all add: example_config_def mk_TableConfiguration_def)
  have z: "fst (cache_set ir_backend e Map.empty) = z3_set ir_backend e" for e
    by (simp add: cache_set_def z3_set_def Let_def)
  note effect = p4runtime_update_effect [OF lit.strict_order_axioms inj_example_hash example_objects_ok(1)
      example_updated [of False MT_EXACT 5 9 False example_config, folded example_objects_def] nd example_insert]
  from effect obtain e cfg' where
    e: "fst (produceTableEntry ir_backend example_compiler example_symbols ''t'' 3 (example_info False MT_EXACT)
      (example_message 5 9 False) []) = Some e" and
    cfg': "map_option (snd \<circ> snd) (updated_table (example_info False MT_EXACT) (example_message 5 9 False)
      [(''t'', TableItem (example_config\<lparr>tc_tableEntries := [example_added 5 9]\<rparr>))]) = Some cfg'"
      "set (tc_tableEntries cfg') = {setZ3Condition ir_backend (z3_set ir_backend (BoolLiteral False)) e}"
    by (auto simp: Let_def empty z example_info_table)
  from e have "set (tc_tableEntries cfg') = {example_added 5 9}"
    by (simp only: cfg'(2) example_entry_converted fst_conv option.inject example_added_def)
  with cfg'(1) example_insert show ?thesis by blast
qed

text \<open>What a message is converted to does not depend on the symbols collected so far.\<close>

lemma convert_params_symbols: "fst (convert_params I P t a params s S) = fst (convert_params I P t a params s S')"
  by (induction params arbitrary: s S S') (auto simp: Let_def split: option.split)

lemma convertTableAction_symbols: "fst (convertTableAction I P act t a S d) = fst (convertTableAction I P act t a S' d)"
  using convert_params_symbols by (simp add: convertTableAction_def Let_def)

lemma produce_match_symbols: "fst (produce_match I P t fs mf S) = fst (produce_match I P t fs mf S')"
  by (simp add: produce_match_def produceTableMatch_def produceTableMatchForMissingField_def Let_def
      split: option.split field_match.split prod.split)

lemma produce_matches_symbols:
  "fst (produce_matches I P t fs mfs s S) = fst (produce_matches I P t fs mfs s S')"
proof (induction mfs arbitrary: s S S')
  case (Cons mf mfs)
  obtain r S1 S2 where r: "produce_match I P t fs mf S = (r, S1)" "produce_match I P t fs mf S' = (r, S2)"
    using produce_match_symbols [of I P t fs mf S S'] by (metis fst_conv surj_pair)
  show ?case unfolding produce_matches.simps r prod.case by (cases r) (simp_all, rule Cons.IH)
qed simp

lemma produceTableEntry_symbols:
  "fst (produceTableEntry B I P t i p4Info e S) = fst (produceTableEntry B I P t i p4Info e S')"
proof (cases "pe_action e")
  case (Some act)
  show ?thesis
  proof (cases "findP4RuntimeAction p4Info (ac_action_id act)")
    case a: (Some a)
    obtain s S1 S2 where s: "convertTableAction I P act t a S False = (s, S1)" "convertTableAction I P act t a S' False = (s, S2)"
      using convertTableAction_symbols [of I P act t a S False S'] by (metis fst_conv surj_pair)
    show ?thesis
    proof (cases "findP4RuntimeTable p4Info i")
      case tab: (Some tab)
      obtain r S3 S4 where r: "produce_matches I P t (pe_match e) (it_match_fields tab) [] S1 = (r, S3)"
        "produce_matches I P t (pe_match e) (it_match_fields tab) [] S2 = (r, S4)"
        using produce_matches_symbols [of I P t "pe_match e" "it_match_fields tab" "[]" S1 S2] by (metis fst_conv surj_pair)
      show ?thesis by (cases s; cases r) (simp_all add: produceTableEntry_def Some a s tab r)
    qed (cases s; simp add: produceTableEntry_def Some a s)
  qed (simp add: produceTableEntry_def Some)
qed (simp add: produceTableEntry_def)

text \<open>
  Claim C25. An insertion and the deletion with the same message are a round trip: when a P4Runtime
  message that is not about the default action has been accepted as an insertion, the deletion with it
  is accepted and gives back the configuration from before the insertion, all objects and all
  entries of the table.
\<close>

theorem p4runtime_insert_delete:
  assumes "strict_order lt" and "inj h" and nd: "\<not> pe_is_default_action msg"
    and step: "updateTableEntry h lt B I P p4Info msg INSERT m c S = (True, m', c', S')"
  shows "\<exists>S2. updateTableEntry h lt B I P p4Info msg DELETE m' c' S' = (True, m, c', S2)"
proof -
  obtain t p4Table cfg where tab: "updated_table p4Info msg m = Some (t, p4Table, cfg)"
    using step updateTableEntry_no_table [of p4Info msg m h lt B I P INSERT c S] by (cases "updated_table p4Info msg m") auto
  obtain it where it: "findP4RuntimeTable p4Info (pe_table_id msg) = Some p4Table" "it_name p4Table = t"
      "map_find m t = Some it" "item_table it = Some cfg"
    and upd: "\<And>ty c S. updateTableEntry h lt B I P p4Info msg ty m c S =
      (case update_table h lt B (produceDefaultAction B I P t p4Info msg)
          (produceTableEntry B I P t (pe_table_id msg) p4Info msg) (it_is_const_table p4Table) False ty cfg c S of
        (ok, cfg', c', S') \<Rightarrow> (ok, map_assign t (item_set_table cfg' it) m, c', S'))"
    using updateTableEntry_table [OF tab] by metis
  have def: "produceDefaultAction B I P t p4Info msg S = (Some None, S)" for S
    using nd by (simp add: produceDefaultAction_def)
  obtain e cfg' where e: "produceTableEntry B I P t (pe_table_id msg) p4Info msg S = (Some e, S')"
    and const: "\<not> it_is_const_table p4Table" and m': "m' = map_assign t (item_set_table cfg' it) m"
    and add: "addTableEntry h lt B e False cfg c = (True, cfg', c')"
    using step unfolding upd
    by (auto simp: update_table_def apply_update_def def split: if_splits option.splits prod.splits)
  obtain S2 where e2: "produceTableEntry B I P t (pe_table_id msg) p4Info msg S' = (Some e, S2)"
    using produceTableEntry_symbols [of B I P t "pe_table_id msg" p4Info msg S S'] e by (metis fst_conv surj_pair)
  have tab': "updated_table p4Info msg m' = Some (t, p4Table, cfg')"
    using it by (simp add: updated_table_def m' store_simps)
  obtain it' where it': "map_find m' t = Some it'"
    and upd': "\<And>ty c S. updateTableEntry h lt B I P p4Info msg ty m' c S =
      (case update_table h lt B (produceDefaultAction B I P t p4Info msg)
          (produceTableEntry B I P t (pe_table_id msg) p4Info msg) (it_is_const_table p4Table) False ty cfg' c S of
        (ok, cfg', c', S') \<Rightarrow> (ok, map_assign t (item_set_table cfg' it') m', c', S'))"
    using updateTableEntry_table [OF tab'] by metis
  have "item_set_table cfg it' = it"
    using it it' by (auto simp: m' store_simps item_set_table_def item_table_def split: item.splits)
  then have "map_assign t (item_set_table cfg it') m' = m" by (simp add: m' map_assign_back it(3))
  with addTableEntry_undone [OF entry_less_strict_order [OF assms(1,2)] add] const show ?thesis
    by (simp add: upd' update_table_def def e2 apply_update_def)
qed

theorem p4runtime_insert_delete_witness:
  "\<exists>m' c' S' S2. updateTableEntry example_hash literal_less ir_backend example_compiler example_symbols
     (example_info False MT_EXACT) (example_message 5 9 False) INSERT example_objects Map.empty [] = (True, m', c', S') \<and>
   updateTableEntry example_hash literal_less ir_backend example_compiler example_symbols
     (example_info False MT_EXACT) (example_message 5 9 False) DELETE m' c' S' = (True, example_objects, c', S2)"
proof -
  have nd: "\<not> pe_is_default_action (example_message 5 9 False)" by (simp add: example_message_def)
  from p4runtime_insert_delete [OF lit.strict_order_axioms inj_example_hash nd example_insert] example_insert
  show ?thesis by blast
qed

text \<open>
  Claim C26. The symbols an accepted or refused P4Runtime message touches cover its effect: a variable
  outside of them keeps its assignment, as long as the message does not change the default action,
  does not replace or delete an entry that assigns the variable, and leaves the number of entries on
  the same side of the two bounds (none, and fifty) at which the assignments of a table switch.
\<close>

theorem p4runtime_symbols_cover:
  assumes "strict_order lt" and "inj h" and wf: "constraints_ok h lt (B :: 'z z3_backend) m c"
    and S: "sorted_wrt sv_less S"
    and tab: "updated_table p4Info msg m = Some (t, p4Table, cfg)"
    and step: "updateTableEntry h lt B I P p4Info msg ty m c S = (ok, m', c', S')"
    and tab': "updated_table p4Info msg m' = Some (t, p4Table, cfg')"
    and x: "sv_key x \<notin> sv_key ` set S'"
    and "tc_defaultTableAction cfg' = tc_defaultTableAction cfg"
    and "\<forall>y \<in> set (tc_tableEntries cfg). assigns x y \<longrightarrow> y \<in> set (tc_tableEntries cfg')"
    and "tc_tableEntries cfg = [] \<longleftrightarrow> tc_tableEntries cfg' = []"
    and "length (tc_tableEntries cfg) \<le> kMaxEntriesPerTable" "length (tc_tableEntries cfg') \<le> kMaxEntriesPerTable"
    and "computeControlPlaneAssignments P' cfg = Some s" "computeControlPlaneAssignments P' cfg' = Some s'"
  shows "cp_find s' x = cp_find s x"
proof -
  obtain it where it: "findP4RuntimeTable p4Info (pe_table_id msg) = Some p4Table" "it_name p4Table = t"
      "map_find m t = Some it" "item_table it = Some cfg"
    and upd: "updateTableEntry h lt B I P p4Info msg ty m c S =
      (case update_table h lt B (produceDefaultAction B I P t p4Info msg)
          (produceTableEntry B I P t (pe_table_id msg) p4Info msg) (it_is_const_table p4Table) False ty cfg c S of
        (ok, cfg', c', S') \<Rightarrow> (ok, map_assign t (item_set_table cfg' it) m, c', S'))"
    using updateTableEntry_table [OF tab] by metis
  obtain ok2 cfg2 c2 S2 where u: "update_table h lt B (produceDefaultAction B I P t p4Info msg)
      (produceTableEntry B I P t (pe_table_id msg) p4Info msg) (it_is_const_table p4Table) False ty cfg c S =
      (ok2, cfg2, c2, S2)" by (metis prod_cases4)
  have m': "m' = map_assign t (item_set_table cfg2 it) m" "S' = S2" using step upd u by simp_all
  have "cfg2 = cfg'" using tab' it by (simp add: updated_table_def m' store_simps)
  have "config_wf h lt B cfg c"
    using wf it item_ok_table [OF it(4), of h lt B m c t] by (auto simp: constraints_ok_def)
  then have sorted: "sorted_wrt (entry_less h lt) (tc_tableEntries cfg)" by (simp add: config_wf_def)
  show ?thesis
    using p4.update_covered [OF entry_less_strict_order [OF assms(1,2)] sorted S u, of x P' s s'] assms(8-)
    by (simp add: m'(2) \<open>cfg2 = cfg'\<close>)
qed

definition example_other_entry :: "expr TableMatchEntry" where
  "example_other_entry =
     mk_TableMatchEntry ir_backend
       [(SVar False Type_String ''t_action'', StringLiteral ''put''), (SVar False (Type_Bits 8 False) ''tput_arg_y'', bits8 1)] 0
       [(SVar False (Type_Bits 8 False) ''t_key_f'', bits8 3)]"

lemma example_insert_second:
  "updateTableEntry example_hash literal_less ir_backend example_compiler example_symbols (example_info False mt)
     (example_message 5 9 False) INSERT [(''t'', TableItem (example_config\<lparr>tc_tableEntries := [example_other_entry]\<rparr>))] Map.empty [] =
   (True, [(''t'', TableItem (example_config\<lparr>tc_tableEntries := [example_other_entry, example_added 5 9]\<rparr>))],
    [BoolLiteral False \<mapsto> z3_set ir_backend (BoolLiteral False)],
    [SVar False Type_String ''t_action'', SVar False (Type_Bits 8 False) ''t_key_f'',
     SVar False (Type_Bits 8 False) ''tset_arg_x''])"
proof -
  have less: "entry_less example_hash literal_less example_other_entry (example_added 5 9)"
    "\<not> entry_less example_hash literal_less (example_added 5 9) example_other_entry"
    by (simp_all add: entry_less_def example_other_entry_def example_added_def mk_TableMatchEntry_def
        sv_less_def literal_less_def)
  then show ?thesis
    by (simp add: updateTableEntry_def example_info_table item_table_def
        update_table_def apply_update_def addTableEntry_def cache_set_def z3_set_def
        example_not_default example_entry_converted example_added_def
        item_set_table_def map_assign_def Let_def example_config_def mk_TableConfiguration_def
        sym_emplace_def sv_less_def sv_key_def)
qed

theorem p4runtime_symbols_cover_witness:
  "\<exists>s'. computeControlPlaneAssignments example_symbols
     (example_config\<lparr>tc_tableEntries := [example_other_entry, example_added 5 9]\<rparr>) = Some s' \<and>
   cp_find s' (SVar False (Type_Bits 8 False) ''tput_arg_y'') = Some (bits8 1)"
proof -
  let ?cfg = "example_config\<lparr>tc_tableEntries := [example_other_entry]\<rparr>"
  let ?cfg' = "example_config\<lparr>tc_tableEntries := [example_other_entry, example_added 5 9]\<rparr>"
  let ?x = "SVar False (Type_Bits 8 False) ''tput_arg_y''"
  note ev = computeControlPlaneAssignments_def example_config_def mk_TableConfiguration_def Let_def
    kMaxEntriesPerTable_def assign_entry_def example_other_entry_def example_added_def mk_TableMatchEntry_def
    entry_assignments_def setZ3Condition_def substituteSymbolicVariable_def assign_action_def om_emplace_def
    example_symbols_def sv_key_def example_default_def mk_TableDefaultAction_def
  obtain s where s: "computeControlPlaneAssignments example_symbols ?cfg = Some s" "cp_find s ?x = Some (bits8 1)"
    by (simp add: ev)
  obtain s' where s': "computeControlPlaneAssignments example_symbols ?cfg' = Some s'"
    by (simp add: ev)
  have ok: "entry_ok ir_backend example_other_entry"
    unfolding example_other_entry_def by (rule mk_TableMatchEntry_ok) (simp_all add: distinct_keys_def sv_key_def)
  have wf: "constraints_ok example_hash literal_less ir_backend [(''t'', TableItem ?cfg)] Map.empty"
    using example_config_wf [of example_hash literal_less] ok
    by (auto simp: constraints_ok_def map_sorted_def item_ok_def config_wf_def
        example_config_def mk_TableConfiguration_def)
  have "cp_find s' ?x = cp_find s ?x"
    by (rule p4runtime_symbols_cover [OF lit.strict_order_axioms inj_example_hash wf _
          example_updated example_insert_second example_updated _ _ _ _ _ _ s(1) s'])
      (simp_all add: sv_key_def kMaxEntriesPerTable_def)
  with s s' show ?thesis by simp
qed

text \<open>
  A message for the default action of a constant table is refused after the default
  action has been replaced: the failure leaves a changed configuration behind.
\<close>

lemma p4runtime_const_table_default:
  assumes tab: "updated_table p4Info msg m = Some (t, p4Table, cfg)" and const: "it_is_const_table p4Table"
    and def: "produceDefaultAction B I P t p4Info msg S = (Some (Some d), S1)"
  shows "\<exists>m'. updateTableEntry h lt B I P p4Info msg ty m c S = (False, m', c, S1) \<and>
    updated_table p4Info msg m' = Some (t, p4Table, setDefaultTableAction d cfg)"
proof -
  obtain it where it: "findP4RuntimeTable p4Info (pe_table_id msg) = Some p4Table" "it_name p4Table = t"
      "map_find m t = Some it" "item_table it = Some cfg"
    and upd: "updateTableEntry h lt B I P p4Info msg ty m c S =
      (case update_table h lt B (produceDefaultAction B I P t p4Info msg)
          (produceTableEntry B I P t (pe_table_id msg) p4Info msg) (it_is_const_table p4Table) False ty cfg c S of
        (ok, cfg', c', S') \<Rightarrow> (ok, map_assign t (item_set_table cfg' it) m, c', S'))"
    using updateTableEntry_table [OF tab] by metis
  show ?thesis
    unfolding upd using const def it
    by (simp add: update_table_def updated_table_def store_simps)
qed

lemma p4runtime_const_table_default_example:
  "\<exists>m'. updateTableEntry example_hash literal_less ir_backend example_compiler example_symbols
     (example_info True MT_EXACT) (example_message 5 9 True) MODIFY example_objects Map.empty [] =
     (False, m', Map.empty, [SVar False Type_String ''t_default_action'', SVar False (Type_Bits 8 False) ''tset_arg_x'']) \<and>
   m' \<noteq> example_objects"
proof -
  have S: "sym_emplace (SVar False (Type_Bits 8 False) ''tset_arg_x'')
      (sym_emplace (SVar False Type_String ''t_default_action'') []) =
    [SVar False Type_String ''t_default_action'', SVar False (Type_Bits 8 False) ''tset_arg_x'']"
    by (simp add: sym_emplace_def sv_less_def sv_key_def)
  show ?thesis
    using p4runtime_const_table_default [OF
        example_updated [where const = True and mt = MT_EXACT and k = 5 and x = 9 and d = True] _
        example_default_converted [where const = True and mt = MT_EXACT and k = 5 and x = 9 and S = "[]"],
        where cfg = example_config and h = example_hash and lt = literal_less and ty = MODIFY and c = Map.empty]
    by (auto simp: S example_updated setDefaultTableAction_def example_objects_def example_config_def
        mk_TableConfiguration_def example_default_def mk_TableDefaultAction_def)
qed

text \<open>
  Claim C27. What the fields of a P4Runtime message match when the key has the unsigned value \<open>k\<close>;
  values are cut to the width of the key. An exact field matches its value, a ternary field its value
  on the bits of its mask, a range field the numbers between its bounds if the lower is smaller. A
  longest-prefix field matches its value on all but as many low bits as its prefix length says, instead of
  on as many high bits. A missing ternary field matches everything, but a missing optional field
  matches only zero.
\<close>

theorem p4runtime_fields_match:
  fixes I P t mf S e
  defines "ty \<equiv> Type_Bits (mf_bitwidth mf) False" and "f \<equiv> mf_name mf" and "w \<equiv> mf_bitwidth mf"
  defines "r \<equiv> \<lambda>field. fst (produceTableMatch I P field t mf S)"
    and "missing \<equiv> fst (produceTableMatchForMissingField I P t mf S)"
    and "num \<equiv> \<lambda>bs. stringToBigInt bs mod 2 ^ w"
  assumes I: "compiler_ok I" and types: "sv_type (getTableKey P t f ty) = ty" "type_of e = ty"
    and distinct: "distinct (map sv_key [getTableKey P t f ty, getTableTernaryMask P t f ty,
      getTableMatchLpmPrefix P t f ty, fst (getTableRange P t f ty), snd (getTableRange P t f ty)])"
    and e: "eval env e = Some (VBits w False k)"
  shows "(carries env (r (kExact v)) \<longrightarrow>
      eval env (computeControlPlaneConstraint (mk_ExactTableMatchKey P t f e)) = Some (VBool (k = num v))) \<and>
    (carries env (r (kOptional v)) \<longrightarrow>
      eval env (computeControlPlaneConstraint (mk_OptionalMatchKey P t f e)) = Some (VBool (k = num v))) \<and>
    (carries env (r (kTernary v m)) \<longrightarrow>
      eval env (computeControlPlaneConstraint (mk_TernaryTableMatchKey P t f e)) =
        Some (VBool (k AND num m = num v AND num m))) \<and>
    (carries env (r (kRange v m)) \<longrightarrow>
      eval env (computeControlPlaneConstraint (mk_RangeTableMatchKey P t f e)) =
        Some (VBool (num v < num m \<and> num v \<le> k \<and> k \<le> num m))) \<and>
    (0 \<le> p \<and> p < 2 ^ w \<and> carries env (r (kLpm v p)) \<longrightarrow>
      eval env (computeControlPlaneConstraint (mk_LpmTableMatchKey P t f e)) =
        Some (VBool (k div 2 ^ nat p = num v div 2 ^ nat p))) \<and>
    (mf_match_type mf = MT_TERNARY \<and> carries env missing \<longrightarrow>
      eval env (computeControlPlaneConstraint (mk_TernaryTableMatchKey P t f e)) = Some (VBool True)) \<and>
    (mf_match_type mf = MT_OPTIONAL \<and> carries env missing \<longrightarrow>
      eval env (computeControlPlaneConstraint (mk_OptionalMatchKey P t f e)) = Some (VBool (k = 0)))"
proof -
  let ?x = "getTableKey P t f ty"
  obtain lo hi where range: "getTableRange P t f ty = (lo, hi)" by fastforce
  have keys: "sv_key ?x \<noteq> sv_key (getTableTernaryMask P t f ty)" "sv_key ?x \<noteq> sv_key (getTableMatchLpmPrefix P t f ty)"
    "sv_key lo \<noteq> sv_key hi" using distinct range by auto
  have get: "eval env (Constant_get I ty i) = Some (VBits w False (take_bit w i))" for i
    using I by (simp add: compiler_ok_def ty_def w_def)
  have num: "take_bit w (stringToBigInt bs) = num bs" for bs by (simp add: num_def take_bit_eq_mod)
  have tyw: "ty = Type_Bits w False" by (simp add: ty_def w_def)
  have xt: "sv_type ?x = Type_Bits w False" using types(1) by (simp add: ty_def w_def)
  note simps = r_def missing_def produceTableMatch_def produceTableMatchForMissingField_def Let_def carries_two
    carries_one keys get num key_constraints types(2) range tyw [symmetric] f_def [symmetric] w_def [symmetric]
  note evals = eval_mk_Equ_bits [OF _ e] createTernaryKey_value [OF _ _ e] createLpmKey_value [OF xt _ _ e]
    createRangeKey_value [OF _ _ e]
  show ?thesis
  proof (intro conjI impI)
    assume "carries env (r (kExact v))"
    then show "eval env (computeControlPlaneConstraint (mk_ExactTableMatchKey P t f e)) = Some (VBool (k = num v))"
      using evals(1) by (auto simp: simps simp del: eval.simps)
  next
    assume "carries env (r (kOptional v))"
    then show "eval env (computeControlPlaneConstraint (mk_OptionalMatchKey P t f e)) = Some (VBool (k = num v))"
      using evals(1) by (auto simp: simps simp del: eval.simps)
  next
    assume "carries env (r (kTernary v m))"
    then show "eval env (computeControlPlaneConstraint (mk_TernaryTableMatchKey P t f e)) =
        Some (VBool (k AND num m = num v AND num m))"
      using evals(2) by (simp add: simps del: eval.simps)
  next
    assume "carries env (r (kRange v m))"
    then show "eval env (computeControlPlaneConstraint (mk_RangeTableMatchKey P t f e)) =
        Some (VBool (num v < num m \<and> num v \<le> k \<and> k \<le> num m))"
      using evals(4) by (simp add: simps del: eval.simps)
  next
    assume "0 \<le> p \<and> p < 2 ^ w \<and> carries env (r (kLpm v p))"
    then show "eval env (computeControlPlaneConstraint (mk_LpmTableMatchKey P t f e)) =
        Some (VBool (k div 2 ^ nat p = num v div 2 ^ nat p))"
      using evals(3) by (simp add: simps take_bit_int_eq_self del: eval.simps)
  next
    assume "mf_match_type mf = MT_TERNARY \<and> carries env missing"
    then show "eval env (computeControlPlaneConstraint (mk_TernaryTableMatchKey P t f e)) = Some (VBool True)"
      using evals(2) by (auto simp: simps simp del: eval.simps)
  next
    assume "mf_match_type mf = MT_OPTIONAL \<and> carries env missing"
    then show "eval env (computeControlPlaneConstraint (mk_OptionalMatchKey P t f e)) = Some (VBool (k = 0))"
      using evals(1) by (auto simp: simps simp del: eval.simps)
  qed
qed

theorem p4runtime_fields_match_witness:
  "let mf = \<lparr>mf_id = 2, mf_name = ''f'', mf_bitwidth = 8, mf_match_type = MT_OPTIONAL\<rparr>; env = (\<lambda>x. VBits 8 False 0) in
   carries env (fst (produceTableMatchForMissingField example_compiler example_symbols ''t'' mf [])) \<and>
   eval env (computeControlPlaneConstraint (mk_OptionalMatchKey example_symbols ''t'' ''f'' (bits8 5))) =
     Some (VBool False)"
proof -
  let ?mf = "\<lparr>mf_id = 2, mf_name = ''f'', mf_bitwidth = 8, mf_match_type = MT_OPTIONAL\<rparr>"
  have c: "carries (\<lambda>x. VBits 8 False 0) (fst (produceTableMatchForMissingField example_compiler example_symbols ''t'' ?mf []))"
    by (simp add: produceTableMatchForMissingField_def example_compiler_def example_symbols_def carries_def
        om_emplace_def sv_key_def const_val_def typed_def Let_def)
  have e: "eval (\<lambda>x. VBits 8 False 0) (bits8 5) = Some (VBits (mf_bitwidth ?mf) False 5)"
    by (simp add: const_val_def)
  show ?thesis
    using p4runtime_fields_match [OF example_compiler_ok _ _ _ e, where P = example_symbols and t = "''t''" and S = "[]"] c
    by (simp add: example_symbols_def sv_key_def)
qed

end
