(* ===== verification/BfRuntime.thy ===== *)
theory BfRuntime
  imports P4Runtime
begin

text \<open>
  Updates in the BFRuntime protocol (\<open>core/control_plane/bfruntime/protobuf.cpp\<close>). It differs from
  P4Runtime in its messages (an action's arguments are data fields, which must be streams of bytes), in
  deletions without data, which clear a table, in tables with an implementation, whose entries it
  ignores with a warning, and in messages for action profiles and selectors, which it applies to
  every table associated with the profile.
\<close>

section \<open>Messages\<close>

datatype match_type_case =
    bfExact bytes
  | bfLpm bytes int
  | bfTernary bytes bytes
  | bfRange bytes bytes
  | bfOptional bytes
  | MATCH_TYPE_NOT_SET

record KeyField =
  kf_field_id :: nat
  kf_match :: match_type_case

text \<open>A data field: its number and its value when that is a stream.\<close>

record DataField =
  df_field_id :: nat
  df_stream :: "bytes option"

record TableData =
  td_action_id :: nat
  td_fields :: "DataField list"

record BfTableEntry =
  be_table_id :: nat
  be_key :: "KeyField list"
  be_data :: "TableData option"
  be_is_default_entry :: bool

datatype BfEntity = BfTableEntryEntity BfTableEntry | BfOtherEntity

definition entry_data :: "BfTableEntry \<Rightarrow> TableData" where
  "entry_data e = (case be_data e of None \<Rightarrow> \<lparr>td_action_id = 0, td_fields = []\<rparr> | Some d \<Rightarrow> d)"

section \<open>Conversion\<close>

definition bf_produceTableMatch ::
  "compiler \<Rightarrow> cp_symbols \<Rightarrow> match_type_case \<Rightarrow> string \<Rightarrow> MatchField \<Rightarrow> SymbolSet \<Rightarrow>
   ControlPlaneAssignmentSet option \<times> SymbolSet" where
  "bf_produceTableMatch I P field tableName matchField symbolSet =
     (let keyType = Type_Bits (mf_bitwidth matchField) False;
          keySymbol = getTableKey P tableName (mf_name matchField) keyType;
          symbolSet = sym_emplace keySymbol symbolSet in
      case field of
        bfExact value \<Rightarrow>
          (Some (emplace keySymbol (Constant_get I keyType (stringToBigInt value)) []), symbolSet)
      | bfLpm value prefix \<Rightarrow>
          (let lpmPrefixSymbol = getTableMatchLpmPrefix P tableName (mf_name matchField) keyType in
           (Some (emplace lpmPrefixSymbol (Constant_get I keyType prefix)
              (emplace keySymbol (Constant_get I keyType (stringToBigInt value)) [])),
            sym_emplace lpmPrefixSymbol symbolSet))
      | bfTernary value maskValue \<Rightarrow>
          (let maskSymbol = getTableTernaryMask P tableName (mf_name matchField) keyType in
           (Some (emplace maskSymbol (Constant_get I keyType (stringToBigInt maskValue))
              (emplace keySymbol (Constant_get I keyType (stringToBigInt value)) [])),
            sym_emplace maskSymbol symbolSet))
      | bfRange low high \<Rightarrow>
          (case getTableRange P tableName (mf_name matchField) keyType of
             (rangeMinSymbol, rangeMaxSymbol) \<Rightarrow>
               (Some (emplace rangeMaxSymbol (Constant_get I keyType (stringToBigInt high))
                  (emplace rangeMinSymbol (Constant_get I keyType (stringToBigInt low)) [])),
                sym_emplace rangeMaxSymbol (sym_emplace rangeMinSymbol symbolSet)))
      | bfOptional value \<Rightarrow>
          (Some (emplace keySymbol (Constant_get I keyType (stringToBigInt value)) []), symbolSet)
      | MATCH_TYPE_NOT_SET \<Rightarrow> (None, symbolSet))"

definition bf_produceTableMatchForMissingField ::
  "compiler \<Rightarrow> cp_symbols \<Rightarrow> string \<Rightarrow> MatchField \<Rightarrow> SymbolSet \<Rightarrow>
   ControlPlaneAssignmentSet option \<times> SymbolSet" where
  "bf_produceTableMatchForMissingField I P tableName matchField symbolSet =
     (let keyType = Type_Bits (mf_bitwidth matchField) False;
          keySymbol = getTableKey P tableName (mf_name matchField) keyType;
          symbolSet = sym_emplace keySymbol symbolSet in
      case mf_match_type matchField of
        MT_TERNARY \<Rightarrow>
          (let maskSymbol = getTableTernaryMask P tableName (mf_name matchField) keyType in
           (Some (emplace maskSymbol (Constant_get I keyType 0) (emplace keySymbol (Constant_get I keyType 0) [])),
            sym_emplace maskSymbol (sym_emplace keySymbol symbolSet)))
      | MT_OPTIONAL \<Rightarrow>
          (let maskSymbol = getTableTernaryMask P tableName (mf_name matchField) keyType in
           (Some (emplace maskSymbol (Constant_get I keyType 0) (emplace keySymbol (Constant_get I keyType 0) [])),
            sym_emplace maskSymbol (sym_emplace keySymbol symbolSet)))
      | _ \<Rightarrow> (None, symbolSet))"

text \<open>The symbol of an argument is touched before the test for a stream.\<close>

fun convert_fields ::
  "compiler \<Rightarrow> cp_symbols \<Rightarrow> string \<Rightarrow> InfoAction \<Rightarrow> DataField list \<Rightarrow>
   ControlPlaneAssignmentSet \<Rightarrow> SymbolSet \<Rightarrow> ControlPlaneAssignmentSet option \<times> SymbolSet" where
  "convert_fields I P tableName p4Action [] s symbolSet = (Some s, symbolSet)"
| "convert_fields I P tableName p4Action (paramConfig # fs) s symbolSet =
     (case find (\<lambda>param. ap_id param = df_field_id paramConfig) (ia_params p4Action) of
        None \<Rightarrow> (None, symbolSet)
      | Some param \<Rightarrow>
          (let paramType = Type_Bits (ap_bitwidth param) False;
               actionArg = getTableActionArgument P tableName (ia_name p4Action) (ap_param_name param) paramType in
           case df_stream paramConfig of
             None \<Rightarrow> (None, sym_emplace actionArg symbolSet)
           | Some value \<Rightarrow>
               convert_fields I P tableName p4Action fs
                 (emplace actionArg (Constant_get I paramType (stringToBigInt value)) s)
                 (sym_emplace actionArg symbolSet)))"

definition bf_convertTableAction ::
  "compiler \<Rightarrow> cp_symbols \<Rightarrow> TableData \<Rightarrow> string \<Rightarrow> InfoAction \<Rightarrow> SymbolSet \<Rightarrow> bool \<Rightarrow>
   ControlPlaneAssignmentSet option \<times> SymbolSet" where
  "bf_convertTableAction I P tblAction tableName p4Action symbolSet isDefaultAction =
     (let tableActionID = (if isDefaultAction then getDefaultActionVariable tableName
                           else getTableActionChoice P tableName);
          symbolSet = sym_emplace tableActionID symbolSet;
          tableActionAssignmentSet = emplace tableActionID (StringLiteral (ia_name p4Action)) [] in
      if length (td_fields tblAction) \<noteq> length (ia_params p4Action)
      then (Some tableActionAssignmentSet, symbolSet)
      else if length (td_fields tblAction) = length (ia_params p4Action)
      then convert_fields I P tableName p4Action (td_fields tblAction) tableActionAssignmentSet symbolSet
      else (None, symbolSet))"

definition bf_produce_match ::
  "compiler \<Rightarrow> cp_symbols \<Rightarrow> string \<Rightarrow> KeyField list \<Rightarrow> MatchField \<Rightarrow> SymbolSet \<Rightarrow>
   ControlPlaneAssignmentSet option \<times> SymbolSet" where
  "bf_produce_match I P tableName keyFields matchField symbolSet =
     (case find (\<lambda>f. kf_field_id f = mf_id matchField) keyFields of
        None \<Rightarrow> bf_produceTableMatchForMissingField I P tableName matchField symbolSet
      | Some f \<Rightarrow> bf_produceTableMatch I P (kf_match f) tableName matchField symbolSet)"

fun bf_produce_matches ::
  "compiler \<Rightarrow> cp_symbols \<Rightarrow> string \<Rightarrow> KeyField list \<Rightarrow> MatchField list \<Rightarrow> ControlPlaneAssignmentSet \<Rightarrow>
   SymbolSet \<Rightarrow> ControlPlaneAssignmentSet option \<times> SymbolSet" where
  "bf_produce_matches I P tableName keyFields [] tableKeySet symbolSet = (Some tableKeySet, symbolSet)"
| "bf_produce_matches I P tableName keyFields (matchField # matchFields) tableKeySet symbolSet =
     (case bf_produce_match I P tableName keyFields matchField symbolSet of
        (matchSet, symbolSet) \<Rightarrow>
          (case matchSet of
             None \<Rightarrow> (None, symbolSet)
           | Some matchSet \<Rightarrow>
               bf_produce_matches I P tableName keyFields matchFields
                 (foldl (\<lambda>s (x, e). emplace x e s) tableKeySet matchSet) symbolSet))"

text \<open>The priority of an entry is always zero.\<close>

definition bf_produceTableEntry ::
  "'z z3_backend \<Rightarrow> compiler \<Rightarrow> cp_symbols \<Rightarrow> string \<Rightarrow> nat \<Rightarrow> P4Info \<Rightarrow> BfTableEntry \<Rightarrow> SymbolSet \<Rightarrow>
   'z TableMatchEntry option \<times> SymbolSet" where
  "bf_produceTableEntry B I P tableName tblId p4Info tableEntry symbolSet =
     (case be_data tableEntry of
        None \<Rightarrow> (None, symbolSet)
      | Some tableAction \<Rightarrow>
     (case findP4RuntimeAction p4Info (td_action_id tableAction) of
        None \<Rightarrow> (None, symbolSet)
      | Some p4Action \<Rightarrow>
     (case bf_convertTableAction I P tableAction tableName p4Action symbolSet False of
        (None, symbolSet) \<Rightarrow> (None, symbolSet)
      | (Some tableActionAssignmentSet, symbolSet) \<Rightarrow>
     (case findP4RuntimeTable p4Info tblId of
        None \<Rightarrow> (None, symbolSet)
      | Some p4InfoTable \<Rightarrow>
          if length (be_key tableEntry) \<le> length (it_match_fields p4InfoTable)
          then (case bf_produce_matches I P tableName (be_key tableEntry) (it_match_fields p4InfoTable) [] symbolSet of
              (None, symbolSet) \<Rightarrow> (None, symbolSet)
            | (Some tableKeySet, symbolSet) \<Rightarrow>
                (Some (mk_TableMatchEntry B tableActionAssignmentSet 0 tableKeySet), symbolSet))
          else (None, symbolSet)))))"

definition bf_produceDefaultAction ::
  "'z z3_backend \<Rightarrow> compiler \<Rightarrow> cp_symbols \<Rightarrow> string \<Rightarrow> P4Info \<Rightarrow> BfTableEntry \<Rightarrow> SymbolSet \<Rightarrow>
   'z TableDefaultAction option option \<times> SymbolSet" where
  "bf_produceDefaultAction B I P tableName p4Info tableEntry symbolSet =
     (if be_is_default_entry tableEntry
      then (case findP4RuntimeAction p4Info (td_action_id (entry_data tableEntry)) of
          None \<Rightarrow> (None, symbolSet)
        | Some p4Action \<Rightarrow>
            (case bf_convertTableAction I P (entry_data tableEntry) tableName p4Action symbolSet True of
               (None, symbolSet) \<Rightarrow> (None, symbolSet)
             | (Some defaultActionExpr, symbolSet) \<Rightarrow>
                 (Some (Some (mk_TableDefaultAction B defaultActionExpr)), symbolSet)))
      else (Some None, symbolSet))"

section \<open>Updates\<close>

text \<open>The update of one table, with the wild-card deletion.\<close>

definition bf_updateTableEntry ::
  "(item_class \<Rightarrow> nat) \<Rightarrow> (expr \<Rightarrow> expr \<Rightarrow> bool) \<Rightarrow> 'z z3_backend \<Rightarrow> compiler \<Rightarrow> cp_symbols \<Rightarrow> P4Info \<Rightarrow>
   InfoTable \<Rightarrow> BfTableEntry \<Rightarrow> Update_Type \<Rightarrow> 'z TableConfiguration \<Rightarrow> 'z Z3Cache \<Rightarrow> SymbolSet \<Rightarrow>
   bool \<times> 'z TableConfiguration \<times> 'z Z3Cache \<times> SymbolSet" where
  "bf_updateTableEntry h lt B I P p4Info p4Table tableEntry updateType cfg c symbolSet =
     update_table h lt B
       (bf_produceDefaultAction B I P (it_name p4Table) p4Info tableEntry)
       (bf_produceTableEntry B I P (it_name p4Table) (it_id p4Table) p4Info tableEntry)
       (it_is_const_table p4Table) (updateType = DELETE \<and> be_data tableEntry = None)
       updateType cfg c symbolSet"

definition bf_updateTableEntry_constraints ::
  "(item_class \<Rightarrow> nat) \<Rightarrow> (expr \<Rightarrow> expr \<Rightarrow> bool) \<Rightarrow> 'z z3_backend \<Rightarrow> compiler \<Rightarrow> cp_symbols \<Rightarrow> P4Info \<Rightarrow>
   InfoTable \<Rightarrow> BfTableEntry \<Rightarrow> Update_Type \<Rightarrow> 'z ControlPlaneConstraints \<Rightarrow> 'z Z3Cache \<Rightarrow> SymbolSet \<Rightarrow>
   bool \<times> 'z ControlPlaneConstraints \<times> 'z Z3Cache \<times> SymbolSet" where
  "bf_updateTableEntry_constraints h lt B I P p4Info p4Table tableEntry updateType m c symbolSet =
     (case map_find m (it_name p4Table) of
        None \<Rightarrow> (False, m, c, symbolSet)
      | Some it \<Rightarrow>
     (case item_table it of
        None \<Rightarrow> (False, m, c, symbolSet)
      | Some tableResult \<Rightarrow>
          if it_implementation_id p4Table \<noteq> 0 then (True, m, c, symbolSet)
          else (case bf_updateTableEntry h lt B I P p4Info p4Table tableEntry updateType tableResult c symbolSet of
              (ok, tableResult, c, symbolSet) \<Rightarrow>
                (ok, map_assign (it_name p4Table) (item_set_table tableResult it) m, c, symbolSet))))"

text \<open>Of instances with the same identifier the last one counts.\<close>

definition instance_name :: "(nat \<times> string) list \<Rightarrow> nat \<Rightarrow> string option" where
  "instance_name instances table_id =
     foldl (\<lambda>name i. if fst i = table_id then Some (snd i) else name) None instances"

definition getActionProfileName :: "P4Info \<Rightarrow> BfTableEntry \<Rightarrow> string option" where
  "getActionProfileName p4Info tableEntry =
     (case findP4RuntimeActionProfile p4Info (be_table_id tableEntry) of
        Some name \<Rightarrow> Some name
      | None \<Rightarrow>
          assign_or_return (findP4RuntimeExtern p4Info ''ActionProfile'')
            (\<lambda>instances. instance_name instances (be_table_id tableEntry)))"

definition getActionSelectorName :: "P4Info \<Rightarrow> BfTableEntry \<Rightarrow> string option" where
  "getActionSelectorName p4Info tableEntry =
     assign_or_return (findP4RuntimeExtern p4Info ''ActionSelector'')
       (\<lambda>instances. instance_name instances (be_table_id tableEntry))"

fun configureActionProfile ::
  "(item_class \<Rightarrow> nat) \<Rightarrow> (expr \<Rightarrow> expr \<Rightarrow> bool) \<Rightarrow> 'z z3_backend \<Rightarrow> compiler \<Rightarrow> cp_symbols \<Rightarrow> P4Info \<Rightarrow>
   BfTableEntry \<Rightarrow> string list \<Rightarrow> Update_Type \<Rightarrow> 'z ControlPlaneConstraints \<Rightarrow> 'z Z3Cache \<Rightarrow> SymbolSet \<Rightarrow>
   bool \<times> 'z ControlPlaneConstraints \<times> 'z Z3Cache \<times> SymbolSet" where
  "configureActionProfile h lt B I P p4Info tableEntry [] updateType m c symbolSet = (True, m, c, symbolSet)"
| "configureActionProfile h lt B I P p4Info tableEntry (table # tables) updateType m c symbolSet =
     (case map_find m table of
        None \<Rightarrow> (False, m, c, symbolSet)
      | Some it \<Rightarrow>
     (case item_table it of
        None \<Rightarrow> (False, m, c, symbolSet)
      | Some tableResult \<Rightarrow>
     (case findP4RuntimeTable_name p4Info table of
        None \<Rightarrow> (False, m, c, symbolSet)
      | Some p4InfoTable \<Rightarrow>
     (case bf_updateTableEntry h lt B I P p4Info p4InfoTable tableEntry updateType tableResult c symbolSet of
        (ok, tableResult, c, symbolSet) \<Rightarrow>
          (let m = map_assign table (item_set_table tableResult it) m in
           if ok then configureActionProfile h lt B I P p4Info tableEntry tables updateType m c symbolSet
           else (False, m, c, symbolSet))))))"

definition configureActionSelector ::
  "'z ControlPlaneConstraints \<Rightarrow> 'z Z3Cache \<Rightarrow> SymbolSet \<Rightarrow>
   bool \<times> 'z ControlPlaneConstraints \<times> 'z Z3Cache \<times> SymbolSet" where
  "configureActionSelector m c symbolSet = (True, m, c, symbolSet)"

definition bf_updateControlPlaneConstraintsWithEntityMessage ::
  "(item_class \<Rightarrow> nat) \<Rightarrow> (expr \<Rightarrow> expr \<Rightarrow> bool) \<Rightarrow> 'z z3_backend \<Rightarrow> compiler \<Rightarrow> cp_symbols \<Rightarrow> P4Info \<Rightarrow>
   BfEntity \<Rightarrow> Update_Type \<Rightarrow> 'z ControlPlaneConstraints \<Rightarrow> 'z Z3Cache \<Rightarrow> SymbolSet \<Rightarrow>
   bool \<times> 'z ControlPlaneConstraints \<times> 'z Z3Cache \<times> SymbolSet" where
  "bf_updateControlPlaneConstraintsWithEntityMessage h lt B I P p4Info entity updateType m c symbolSet =
     (case entity of
        BfOtherEntity \<Rightarrow> (False, m, c, symbolSet)
      | BfTableEntryEntity e \<Rightarrow>
     (case findP4RuntimeTable p4Info (be_table_id e) of
        Some p4Table \<Rightarrow> bf_updateTableEntry_constraints h lt B I P p4Info p4Table e updateType m c symbolSet
      | None \<Rightarrow>
     (case getActionProfileName p4Info e of
        Some profileName \<Rightarrow>
          (case map_find m profileName of
             Some (ActionProfileItem p) \<Rightarrow>
               configureActionProfile h lt B I P p4Info e (ap_associatedTables p) updateType m c symbolSet
           | _ \<Rightarrow> (False, m, c, symbolSet))
      | None \<Rightarrow>
     (case getActionSelectorName p4Info e of
        Some selectorName \<Rightarrow>
          (case map_find m selectorName of
             Some (ActionSelectorItem s) \<Rightarrow> configureActionSelector m c symbolSet
           | _ \<Rightarrow> (False, m, c, symbolSet))
      | None \<Rightarrow> (False, m, c, symbolSet)))))"

fun bf_updateControlPlaneConstraints ::
  "(item_class \<Rightarrow> nat) \<Rightarrow> (expr \<Rightarrow> expr \<Rightarrow> bool) \<Rightarrow> 'z z3_backend \<Rightarrow> compiler \<Rightarrow> cp_symbols \<Rightarrow> P4Info \<Rightarrow>
   BfEntity list \<Rightarrow> 'z ControlPlaneConstraints \<Rightarrow> 'z Z3Cache \<Rightarrow> SymbolSet \<Rightarrow>
   bool \<times> 'z ControlPlaneConstraints \<times> 'z Z3Cache \<times> SymbolSet" where
  "bf_updateControlPlaneConstraints h lt B I P p4Info [] m c symbolSet = (True, m, c, symbolSet)"
| "bf_updateControlPlaneConstraints h lt B I P p4Info (entity # entities) m c symbolSet =
     (case bf_updateControlPlaneConstraintsWithEntityMessage h lt B I P p4Info entity MODIFY m c symbolSet of
        (ok, m, c, symbolSet) \<Rightarrow>
          if ok then bf_updateControlPlaneConstraints h lt B I P p4Info entities m c symbolSet
          else (False, m, c, symbolSet))"

section \<open>The two protocols agree on what they share\<close>

text \<open>A BFRuntime message as a P4Runtime message of the same meaning.\<close>

fun to_field_match :: "match_type_case \<Rightarrow> field_match" where
  "to_field_match (bfExact v) = kExact v"
| "to_field_match (bfLpm v p) = kLpm v p"
| "to_field_match (bfTernary v m) = kTernary v m"
| "to_field_match (bfRange l h) = kRange l h"
| "to_field_match (bfOptional v) = kOptional v"
| "to_field_match MATCH_TYPE_NOT_SET = FIELD_MATCH_TYPE_NOT_SET"

definition to_FieldMatch :: "KeyField \<Rightarrow> FieldMatch" where
  "to_FieldMatch f = \<lparr>fm_field_id = kf_field_id f, fm_field_match = to_field_match (kf_match f)\<rparr>"

definition to_Action :: "TableData \<Rightarrow> Action" where
  "to_Action d = \<lparr>ac_action_id = td_action_id d,
     ac_params = map (\<lambda>f. (df_field_id f, the (df_stream f))) (td_fields d)\<rparr>"

definition to_TableEntry :: "BfTableEntry \<Rightarrow> TableEntry" where
  "to_TableEntry e = \<lparr>pe_table_id = be_table_id e, pe_match = map to_FieldMatch (be_key e),
     pe_action = map_option to_Action (be_data e), pe_priority = 0, pe_is_default_action = be_is_default_entry e\<rparr>"

lemma find_map: "find Q (map f xs) = map_option f (find (Q \<circ> f) xs)"
  by (induction xs) simp_all

lemma bf_produceTableMatch_eq: "bf_produceTableMatch I P f = produceTableMatch I P (to_field_match f)"
  by (cases f) (simp_all add: fun_eq_iff bf_produceTableMatch_def produceTableMatch_def)

lemma bf_missing_eq: "bf_produceTableMatchForMissingField = produceTableMatchForMissingField"
  by (simp add: fun_eq_iff bf_produceTableMatchForMissingField_def produceTableMatchForMissingField_def
      Let_def split: match_type.splits)

lemma bf_produce_match_eq: "bf_produce_match I P t fs = produce_match I P t (map to_FieldMatch fs)"
  by (simp add: fun_eq_iff bf_produce_match_def produce_match_def find_map comp_def to_FieldMatch_def
      bf_produceTableMatch_eq bf_missing_eq split: option.splits)

lemma bf_produce_matches_eq: "bf_produce_matches I P t fs = produce_matches I P t (map to_FieldMatch fs)"
proof -
  have "bf_produce_matches I P t fs mfs s S = produce_matches I P t (map to_FieldMatch fs) mfs s S" for mfs s S
    by (induction mfs arbitrary: s S) (simp_all add: bf_produce_match_eq split: prod.splits option.splits)
  then show ?thesis by (simp add: fun_eq_iff)
qed

lemma convert_fields_eq:
  "\<forall>f \<in> set fs. df_stream f \<noteq> None \<Longrightarrow>
   convert_fields I P t a fs s S = convert_params I P t a (map (\<lambda>f. (df_field_id f, the (df_stream f))) fs) s S"
  by (induction fs arbitrary: s S) (auto simp: Let_def split: option.splits)

definition all_streams :: "BfTableEntry \<Rightarrow> bool" where
  "all_streams e \<longleftrightarrow> (\<forall>f \<in> set (td_fields (entry_data e)). df_stream f \<noteq> None)"

lemma bf_convertTableAction_eq:
  "\<forall>f \<in> set (td_fields d). df_stream f \<noteq> None \<Longrightarrow>
   bf_convertTableAction I P d = convertTableAction I P (to_Action d)"
  by (simp add: fun_eq_iff bf_convertTableAction_def convertTableAction_def to_Action_def convert_fields_eq Let_def)

lemma to_TableEntry_simps [simp]:
  "pe_table_id (to_TableEntry e) = be_table_id e" "pe_match (to_TableEntry e) = map to_FieldMatch (be_key e)"
  "pe_action (to_TableEntry e) = map_option to_Action (be_data e)" "pe_priority (to_TableEntry e) = 0"
  "pe_is_default_action (to_TableEntry e) = be_is_default_entry e"
  "entry_action (to_TableEntry e) = to_Action (entry_data e)"
  by (simp_all add: to_TableEntry_def entry_action_def entry_data_def to_Action_def split: option.splits)

lemma to_Action_id [simp]: "ac_action_id (to_Action d) = td_action_id d"
  by (simp add: to_Action_def)

lemma bf_produceTableEntry_eq:
  assumes "all_streams e"
  shows "bf_produceTableEntry B I P t i p4Info e = produceTableEntry B I P t i p4Info (to_TableEntry e)"
proof (cases "be_data e")
  case None
  then show ?thesis by (simp add: fun_eq_iff bf_produceTableEntry_def produceTableEntry_def)
next
  case (Some d)
  then have eq: "bf_convertTableAction I P d = convertTableAction I P (to_Action d)"
    using assms by (intro bf_convertTableAction_eq) (simp add: all_streams_def entry_data_def)
  show ?thesis
    unfolding fun_eq_iff bf_produceTableEntry_def produceTableEntry_def to_TableEntry_simps Some option.map
      option.case to_Action_id bf_produce_matches_eq length_map eq by simp
qed

lemma bf_produceDefaultAction_eq:
  assumes "all_streams e"
  shows "bf_produceDefaultAction B I P t p4Info e = produceDefaultAction B I P t p4Info (to_TableEntry e)"
proof -
  have eq: "bf_convertTableAction I P (entry_data e) = convertTableAction I P (to_Action (entry_data e))"
    using assms by (intro bf_convertTableAction_eq) (simp add: all_streams_def)
  show ?thesis
    unfolding fun_eq_iff bf_produceDefaultAction_def produceDefaultAction_def to_TableEntry_simps to_Action_id eq
    by simp
qed

text \<open>
  Claim C28. A BFRuntime message for a table without an implementation, whose action arguments are
  all streams and which is no wild-card deletion, has the same effect as the P4Runtime message with the
  same contents: the same verdict, configuration, solver cache and touched symbols.
\<close>

theorem protocols_agree:
  assumes "findP4RuntimeTable p4Info (be_table_id e) = Some p4Table" and "it_id p4Table = be_table_id e"
    and "it_implementation_id p4Table = 0" and "all_streams e" and "\<not> (ty = DELETE \<and> be_data e = None)"
  shows "bf_updateControlPlaneConstraintsWithEntityMessage h lt B I P p4Info (BfTableEntryEntity e) ty m c S =
    updateControlPlaneConstraintsWithEntityMessage h lt B I P p4Info (TableEntryEntity (to_TableEntry e)) ty m c S"
proof -
  have "bf_updateTableEntry h lt B I P p4Info p4Table e ty cfg c S =
      update_table h lt B (produceDefaultAction B I P (it_name p4Table) p4Info (to_TableEntry e))
        (produceTableEntry B I P (it_name p4Table) (be_table_id e) p4Info (to_TableEntry e))
        (it_is_const_table p4Table) False ty cfg c S" for cfg
  proof -
    have wildcard: "(ty = DELETE \<and> be_data e = None) = False" using assms(5) by simp
    show ?thesis
      unfolding wildcard bf_updateTableEntry_def bf_produceDefaultAction_eq [OF assms(4)]
        bf_produceTableEntry_eq [OF assms(4)] assms(2) by simp
  qed
  then show ?thesis
    using assms(1,3)
    by (simp add: bf_updateControlPlaneConstraintsWithEntityMessage_def bf_updateTableEntry_constraints_def
        updateControlPlaneConstraintsWithEntityMessage_def updateTableEntry_def split: option.splits)
qed

definition example_bf_message :: "8 word \<Rightarrow> 8 word option \<Rightarrow> BfTableEntry" where
  "example_bf_message k x =
     \<lparr>be_table_id = 3, be_key = [\<lparr>kf_field_id = 2, kf_match = bfExact [k]\<rparr>],
      be_data = map_option (\<lambda>x. \<lparr>td_action_id = 7, td_fields = [\<lparr>df_field_id = 2, df_stream = Some [x]\<rparr>]\<rparr>) x,
      be_is_default_entry = False\<rparr>"

theorem protocols_agree_witness:
  "\<exists>m' c' S'. bf_updateControlPlaneConstraintsWithEntityMessage example_hash literal_less ir_backend example_compiler
     example_symbols (example_info False MT_EXACT) (BfTableEntryEntity (example_bf_message 5 (Some 9))) INSERT
     example_objects Map.empty [] = (True, m', c', S') \<and> m' \<noteq> example_objects"
proof -
  have msg: "to_TableEntry (example_bf_message 5 (Some 9)) = example_message 5 9 False"
    by (simp add: to_TableEntry_def example_bf_message_def example_message_def to_FieldMatch_def to_Action_def)
  have tab: "findP4RuntimeTable (example_info False MT_EXACT) (be_table_id (example_bf_message 5 (Some 9))) =
      Some \<lparr>it_id = 3, it_name = ''t'',
        it_match_fields = [\<lparr>mf_id = 2, mf_name = ''f'', mf_bitwidth = 8, mf_match_type = MT_EXACT\<rparr>],
        it_is_const_table = False, it_implementation_id = 0\<rparr>"
    by (simp add: example_bf_message_def example_info_table)
  have "bf_updateControlPlaneConstraintsWithEntityMessage example_hash literal_less ir_backend example_compiler
      example_symbols (example_info False MT_EXACT) (BfTableEntryEntity (example_bf_message 5 (Some 9))) INSERT
      example_objects Map.empty [] =
    updateControlPlaneConstraintsWithEntityMessage example_hash literal_less ir_backend example_compiler
      example_symbols (example_info False MT_EXACT) (TableEntryEntity (to_TableEntry (example_bf_message 5 (Some 9)))) INSERT
      example_objects Map.empty []"
    by (rule protocols_agree [OF tab])
      (simp_all add: example_bf_message_def all_streams_def entry_data_def)
  then show ?thesis
    by (simp add: msg updateControlPlaneConstraintsWithEntityMessage_def example_insert)
      (simp add: example_objects_def example_config_def mk_TableConfiguration_def)
qed

section \<open>The conversions meet their interface\<close>

lemma convert_fields_converted:
  "sorted_wrt sv_less S \<Longrightarrow> distinct_keys sv_key s \<Longrightarrow> sym_covers S (fst ` set s) \<Longrightarrow>
   converted S (convert_fields I P t a fs s S)"
proof (induction fs arbitrary: s S)
  case (Cons f fs)
  show ?case
  proof (cases "find (\<lambda>param. ap_id param = df_field_id f) (ia_params a)")
    case (Some p)
    define x where "x = getTableActionArgument P t (ia_name a) (ap_param_name p) (Type_Bits (ap_bitwidth p) False)"
    have S': "sorted_wrt sv_less (sym_emplace x S)" "sv_key ` set S \<subseteq> sv_key ` set (sym_emplace x S)"
      using Cons.prems(1) by (auto simp: store_simps)
    have "converted (sym_emplace x S) (convert_fields I P t a fs (emplace x e s) (sym_emplace x S))" for e
      by (rule Cons.IH) (use Cons.prems in \<open>auto simp: store_simps emplace_distinct sym_covers_def\<close>)
    then have "converted S (convert_fields I P t a fs (emplace x e s) (sym_emplace x S))" for e
      using S'(2) by (rule converted_weaken)
    moreover have "converted S (None, sym_emplace x S)" using S' by (simp add: converted_def)
    ultimately show ?thesis using Some by (simp add: x_def Let_def split: option.splits)
  qed (use Cons.prems in \<open>simp add: converted_def\<close>)
qed (simp add: converted_def)

lemma bf_convertTableAction_converted:
  assumes S: "sorted_wrt sv_less S"
  shows "converted S (bf_convertTableAction I P act t a S d)"
proof -
  define x where "x = (if d then getDefaultActionVariable t else getTableActionChoice P t)"
  have "converted (sym_emplace x S)
      (convert_fields I P t a (td_fields act) (emplace x (StringLiteral (ia_name a)) []) (sym_emplace x S))"
    by (rule convert_fields_converted) (use S in \<open>auto simp: store_simps emplace_distinct sym_covers_def\<close>)
  then show ?thesis
    using S by (auto simp: bf_convertTableAction_def Let_def converted_def store_simps emplace_distinct
        sym_covers_def simp flip: x_def)
qed

lemma bf_produceTableEntry_converted:
  assumes S: "sorted_wrt sv_less S" and r: "bf_produceTableEntry B I P t tblId p4Info e S = (r, S')"
  shows "(r = None \<and> S' = S) \<or> (\<exists>s. converted S (s, S') \<and> r = None) \<or>
    (\<exists>s S1 k. converted S (Some s, S1) \<and> converted S1 (k, S') \<and>
      (r = None \<or> (\<exists>k' p. k = Some k' \<and> r = Some (mk_TableMatchEntry B s p k'))))"
proof (cases "\<exists>d a. be_data e = Some d \<and> findP4RuntimeAction p4Info (td_action_id d) = Some a")
  case True
  then obtain d a where act: "be_data e = Some d" "findP4RuntimeAction p4Info (td_action_id d) = Some a" by blast
  obtain s S1 where s: "bf_convertTableAction I P d t a S False = (s, S1)" by fastforce
  have S1: "converted S (s, S1)" using bf_convertTableAction_converted [OF S, of I P d t a False] s by simp
  show ?thesis
  proof (cases "\<exists>s' tab. s = Some s' \<and> findP4RuntimeTable p4Info tblId = Some tab")
    case True
    then obtain s' tab where tab: "s = Some s'" "findP4RuntimeTable p4Info tblId = Some tab" by blast
    obtain k S2 where k: "bf_produce_matches I P t (be_key e) (it_match_fields tab) [] S1 = (k, S2)" by fastforce
    have k1: "converted S1 (k, S2)"
      using produce_matches_converted [of S1 "[]" I P t "map to_FieldMatch (be_key e)" "it_match_fields tab"] S1 k
      by (simp add: converted_def sym_covers_def bf_produce_matches_eq)
    have "(r = None \<and> S' = S1) \<or>
        (S' = S2 \<and> (r = None \<or> (\<exists>k'. k = Some k' \<and> r = Some (mk_TableMatchEntry B s' 0 k'))))"
      using r act s tab k by (auto simp: bf_produceTableEntry_def split: if_splits option.splits)
    with S1 k1 tab(1) show ?thesis by blast
  qed (use r act s S1 in \<open>auto simp: bf_produceTableEntry_def split: option.splits\<close>)
qed (use r in \<open>auto simp: bf_produceTableEntry_def split: option.splits\<close>)

interpretation bf: entry_converter B "bf_produceDefaultAction B I P tableName p4Info tableEntry"
    "bf_produceTableEntry B I P tableName tblId p4Info tableEntry"
  for B :: "'z z3_backend" and I P tableName p4Info tableEntry tblId
proof (unfold_locales)
  fix S :: SymbolSet assume S: "sorted_wrt sv_less S"
  have action: "sorted_wrt sv_less S' \<and> sv_key ` set S \<subseteq> sv_key ` set S' \<and>
      (\<forall>s. r = Some s \<longrightarrow> distinct_keys sv_key s \<and> sym_covers S' (fst ` set s))"
    if "bf_convertTableAction I P act t a S d = (r, S')" for act t a d r S'
    using bf_convertTableAction_converted [OF S, of I P act t a d] that by (simp add: converted_def)
  show "sorted_wrt sv_less (snd (bf_produceDefaultAction B I P tableName p4Info tableEntry S)) \<and>
      sv_key ` set S \<subseteq> sv_key ` set (snd (bf_produceDefaultAction B I P tableName p4Info tableEntry S))"
    using S by (auto simp: bf_produceDefaultAction_def dest!: action split: option.splits prod.splits)
  show "default_ok B d \<and> sym_covers S' (fst ` set (da_actionAssignment d))"
    if "bf_produceDefaultAction B I P tableName p4Info tableEntry S = (Some (Some d), S')" for d S'
    using that
    by (auto simp: bf_produceDefaultAction_def mk_TableDefaultAction_ok
        dest!: action split: option.splits prod.splits if_splits)
next
  fix S :: SymbolSet assume S: "sorted_wrt sv_less S"
  obtain r S' where r: "bf_produceTableEntry B I P tableName tblId p4Info tableEntry S = (r, S')"
    by (cases "bf_produceTableEntry B I P tableName tblId p4Info tableEntry S")
  from converted_entry [OF S bf_produceTableEntry_converted [OF S r]]
  show "sorted_wrt sv_less (snd (bf_produceTableEntry B I P tableName tblId p4Info tableEntry S)) \<and>
      sv_key ` set S \<subseteq> sv_key ` set (snd (bf_produceTableEntry B I P tableName tblId p4Info tableEntry S))"
    and "\<And>e S'. bf_produceTableEntry B I P tableName tblId p4Info tableEntry S = (Some e, S') \<Longrightarrow>
      entry_ok B e \<and> sym_covers S' (fst ` set (te_actionAssignment e)) \<and> sym_covers S' (fst ` set (te_matches e))"
    by (simp_all add: r)
qed

section \<open>What an update does\<close>

text \<open>One table changed in place keeps the configuration in order.\<close>

definition config_safe ::
  "(item_class \<Rightarrow> nat) \<Rightarrow> (expr \<Rightarrow> expr \<Rightarrow> bool) \<Rightarrow> 'z z3_backend \<Rightarrow> 'z ControlPlaneConstraints \<Rightarrow> SymbolSet \<Rightarrow>
   'z ControlPlaneConstraints \<Rightarrow> 'z Z3Cache \<Rightarrow> SymbolSet \<Rightarrow> bool" where
  "config_safe h lt B m S m' c' S' \<longleftrightarrow>
     constraints_ok h lt B m' c' \<and> tables_in_step B m' c' \<and> map fst m' = map fst m \<and>
     sorted_wrt sv_less S' \<and> sv_key ` set S \<subseteq> sv_key ` set S'"

lemma config_safe_refl:
  "constraints_ok h lt B m c \<Longrightarrow> tables_in_step B m c \<Longrightarrow> sorted_wrt sv_less S \<Longrightarrow> config_safe h lt B m S m c S"
  by (simp add: config_safe_def)

lemma config_safe_trans:
  "config_safe h lt B m S m1 c1 S1 \<Longrightarrow> config_safe h lt B m1 S1 m2 c2 S2 \<Longrightarrow> config_safe h lt B m S m2 c2 S2"
  by (auto simp: config_safe_def)

lemma bf_updateTableEntry_safe:
  assumes so: "strict_order (entry_less h lt :: 'z TableMatchEntry \<Rightarrow> _)"
    and ok: "constraints_ok h lt (B :: 'z z3_backend) m c" "tables_in_step B m c" and S: "sorted_wrt sv_less S"
    and it: "map_find m t = Some it" "item_table it = Some cfg"
    and step: "bf_updateTableEntry h lt B I P p4Info tab e ty cfg c S = (r, cfg', c', S')"
  shows "config_safe h lt B m S (map_assign t (item_set_table cfg' it) m) c' S'"
proof -
  have wf: "config_wf h lt B cfg c" "conditions_ok B cfg c"
    using ok it item_ok_table [OF it(2), of h lt B m c t] by (auto simp: constraints_ok_def tables_in_step_def)
  note u = step [unfolded bf_updateTableEntry_def]
  from bf.update_ok [OF so wf S u] bf.update_symbols [OF S u] update_table_item [OF ok it, of cfg' c']
  show ?thesis by (simp add: config_safe_def)
qed

lemma configureActionProfile_safe:
  assumes so: "strict_order (entry_less h lt :: 'z TableMatchEntry \<Rightarrow> _)"
  shows "constraints_ok h lt (B :: 'z z3_backend) m c \<Longrightarrow> tables_in_step B m c \<Longrightarrow> sorted_wrt sv_less S \<Longrightarrow>
    configureActionProfile h lt B I P p4Info e tables ty m c S = (r, m', c', S') \<Longrightarrow>
    config_safe h lt B m S m' c' S'"
proof (induction tables arbitrary: m c S)
  case (Cons t tables)
  note refl = config_safe_refl [OF Cons.prems(1-3)]
  show ?case
  proof (cases "\<exists>it cfg tab. map_find m t = Some it \<and> item_table it = Some cfg \<and>
      findP4RuntimeTable_name p4Info t = Some tab")
    case True
    then obtain it cfg tab where it: "map_find m t = Some it" "item_table it = Some cfg"
      "findP4RuntimeTable_name p4Info t = Some tab" by blast
    obtain r1 cfg1 c1 S1 where u: "bf_updateTableEntry h lt B I P p4Info tab e ty cfg c S = (r1, cfg1, c1, S1)"
      by (metis prod_cases4)
    define m1 where "m1 = map_assign t (item_set_table cfg1 it) m"
    have safe: "config_safe h lt B m S m1 c1 S1"
      unfolding m1_def by (rule bf_updateTableEntry_safe [OF so Cons.prems(1-3) it(1,2) u])
    show ?thesis
    proof (cases r1)
      case True
      then have "configureActionProfile h lt B I P p4Info e tables ty m1 c1 S1 = (r, m', c', S')"
        using Cons.prems(4) it u by (simp add: m1_def Let_def)
      from Cons.IH [OF _ _ _ this] safe config_safe_trans [OF safe] show ?thesis
        by (simp add: config_safe_def [of h lt B m])
    next
      case False
      then show ?thesis using Cons.prems(4) it u safe by (simp add: m1_def Let_def)
    qed
  qed (use Cons.prems(4) refl in \<open>auto split: option.splits\<close>)
qed (simp add: config_safe_refl)

lemma bf_entity_safe:
  assumes so: "strict_order (entry_less h lt :: 'z TableMatchEntry \<Rightarrow> _)"
    and ok: "constraints_ok h lt (B :: 'z z3_backend) m c" "tables_in_step B m c" "sorted_wrt sv_less S"
    and step: "bf_updateControlPlaneConstraintsWithEntityMessage h lt B I P p4Info entity ty m c S = (r, m', c', S')"
  shows "config_safe h lt B m S m' c' S'"
proof (cases entity)
  case (BfTableEntryEntity e)
  note refl = config_safe_refl [OF ok]
  have table: "config_safe h lt B m S m' c' S'"
    if "bf_updateTableEntry_constraints h lt B I P p4Info tab e ty m c S = (r, m', c', S')" for tab
    using that refl bf_updateTableEntry_safe [OF so ok, of "it_name tab" _ _ I P p4Info tab e ty]
    by (auto simp: bf_updateTableEntry_constraints_def split: option.splits if_splits prod.splits)
  note profile = configureActionProfile_safe [OF so ok, of I P p4Info e _ ty r m' c' S']
  show ?thesis
    using step BfTableEntryEntity refl table profile
    by (auto simp: bf_updateControlPlaneConstraintsWithEntityMessage_def configureActionSelector_def
        split: option.splits item.splits)
qed (use step config_safe_refl [OF ok] in \<open>simp add: bf_updateControlPlaneConstraintsWithEntityMessage_def\<close>)

lemma bf_entities_safe:
  assumes so: "strict_order (entry_less h lt :: 'z TableMatchEntry \<Rightarrow> _)"
  shows "constraints_ok h lt (B :: 'z z3_backend) m c \<Longrightarrow> tables_in_step B m c \<Longrightarrow> sorted_wrt sv_less S \<Longrightarrow>
    bf_updateControlPlaneConstraints h lt B I P p4Info es m c S = (r, m', c', S') \<Longrightarrow> config_safe h lt B m S m' c' S'"
proof (induction es arbitrary: m c S)
  case (Cons e es)
  obtain r1 m1 c1 S1 where s: "bf_updateControlPlaneConstraintsWithEntityMessage h lt B I P p4Info e MODIFY m c S = (r1, m1, c1, S1)"
    by (metis prod_cases4)
  note safe = bf_entity_safe [OF so Cons.prems(1-3) s]
  show ?case
  proof (cases r1)
    case True
    then have "bf_updateControlPlaneConstraints h lt B I P p4Info es m1 c1 S1 = (r, m', c', S')"
      using Cons.prems(4) s by simp
    from Cons.IH [OF _ _ _ this] safe config_safe_trans [OF safe] show ?thesis
      by (simp add: config_safe_def [of h lt B m])
  qed (use safe Cons.prems(4) s in simp)
qed (simp add: config_safe_refl)

text \<open>
  Whatever BFRuntime messages arrive, for tables, action profiles or action selectors, and
  whether or not they are accepted, the configuration stays well formed: the same objects under the
  same names, the entries of every table sorted and in step with its key match, the set of touched
  symbols only growing.
\<close>

lemma bfruntime_config_safe:
  assumes "strict_order lt" and "inj h"
    and "constraints_ok h lt B m c" and "tables_in_step B m c" and "sorted_wrt sv_less S"
    and "bf_updateControlPlaneConstraints h lt B I P p4Info entities m c S = (ok, m', c', S')"
  shows "config_safe h lt B m S m' c' S'"
  using bf_entities_safe [OF entry_less_strict_order [OF assms(1,2)] assms(3-6)] .

lemma bfruntime_config_safe_example:
  "\<exists>ok m' c' S'. bf_updateControlPlaneConstraints example_hash literal_less ir_backend example_compiler example_symbols
     (example_info False MT_EXACT) [BfTableEntryEntity (example_bf_message 5 (Some 9)), BfOtherEntity]
     example_objects Map.empty [] = (ok, m', c', S') \<and>
   config_safe example_hash literal_less ir_backend example_objects [] m' c' S'"
proof -
  obtain ok m' c' S' where u: "bf_updateControlPlaneConstraints example_hash literal_less ir_backend example_compiler
      example_symbols (example_info False MT_EXACT) [BfTableEntryEntity (example_bf_message 5 (Some 9)), BfOtherEntity]
      example_objects Map.empty [] = (ok, m', c', S')" by (metis prod_cases4)
  from bfruntime_config_safe [OF lit.strict_order_axioms inj_example_hash example_objects_ok _ u] u
  show ?thesis by simp
qed

text \<open>
  A deletion without data clears the table it names, if the table is not constant and has no
  implementation, but touches no symbol: nothing tells the analysis which assignments have
  changed.
\<close>

theorem wildcard_delete_touches_no_symbol:
  assumes "findP4RuntimeTable p4Info (be_table_id e) = Some p4Table" and "\<not> it_is_const_table p4Table"
    and "it_implementation_id p4Table = 0" and "be_data e = None" and "\<not> be_is_default_entry e"
    and it: "map_find m (it_name p4Table) = Some it" "item_table it = Some cfg"
  shows "\<exists>m'. bf_updateControlPlaneConstraintsWithEntityMessage h lt B I P p4Info (BfTableEntryEntity e) DELETE m c S =
      (True, m', c, S) \<and>
    map_find m' (it_name p4Table) = Some (item_set_table (clearTableEntries cfg) it) \<and>
    (\<forall>n. n \<noteq> it_name p4Table \<longrightarrow> map_find m' n = map_find m n)"
  using assms
  by (simp add: bf_updateControlPlaneConstraintsWithEntityMessage_def bf_updateTableEntry_constraints_def
      bf_updateTableEntry_def update_table_def bf_produceDefaultAction_def store_simps)

theorem wildcard_delete_touches_no_symbol_witness:
  "\<exists>m'. bf_updateControlPlaneConstraintsWithEntityMessage example_hash literal_less ir_backend example_compiler
     example_symbols (example_info False MT_EXACT) (BfTableEntryEntity (example_bf_message 5 None)) DELETE
     [(''t'', TableItem (example_config\<lparr>tc_tableEntries := [example_other_entry]\<rparr>))] Map.empty [] = (True, m', Map.empty, []) \<and>
   map_find m' ''t'' = Some (TableItem (clearTableEntries (example_config\<lparr>tc_tableEntries := [example_other_entry]\<rparr>)))"
proof -
  let ?cfg = "example_config\<lparr>tc_tableEntries := [example_other_entry]\<rparr>"
  let ?m = "[(''t'', TableItem ?cfg)]"
  define tab where "tab = \<lparr>it_id = 3, it_name = ''t'',
    it_match_fields = [\<lparr>mf_id = 2, mf_name = ''f'', mf_bitwidth = 8, mf_match_type = MT_EXACT\<rparr>],
    it_is_const_table = False, it_implementation_id = 0\<rparr>"
  have tab: "findP4RuntimeTable (example_info False MT_EXACT) (be_table_id (example_bf_message 5 None)) = Some tab"
    "\<not> it_is_const_table tab" "it_implementation_id tab = 0" "it_name tab = ''t''"
    by (simp_all add: example_bf_message_def example_info_table tab_def)
  show ?thesis
    using wildcard_delete_touches_no_symbol [OF tab(1-3), where m = ?m and it = "TableItem ?cfg" and cfg = ?cfg
        and h = example_hash and lt = literal_less and B = ir_backend and I = example_compiler
        and P = example_symbols and c = Map.empty and S = "[]"]
    by (auto simp: tab(4) item_table_def item_set_table_def example_bf_message_def)
qed

end
