(* ===== verification/FlayService.thy ===== *)
theory FlayService
  imports TableUpdate "HOL-Library.Word"
begin

text \<open>
  \<open>lib/incremental_analysis.h\<close> and \<open>specialization/flay_service.cpp\<close>: how an update goes through an
  incremental analysis and through the service that holds the analyses and the specialized program,
  and the loop of the service wrappers over files of updates
  (\<open>service_wrapper_p4runtime.cpp\<close>, \<open>service_wrapper_bfruntime.cpp\<close>).

  The abstract class is a record of its virtual functions, which take and return the state of the
  analysis; the locale says what the service relies on. A check of the semantics may fail to return
  (the substitution of cyclic assignments), which is the value None of these functions and of all
  that call them.
\<close>

section \<open>Incremental analyses\<close>

text \<open>\<open>std::optional<const IR::P4Program *>\<close>: no value, the null pointer or a program.\<close>

datatype 'p outcome = Nullopt | Nullptr | Program 'p

record ('u, 'p, 'a) IncrementalAnalysis =
  convertControlPlaneUpdate :: "'u \<Rightarrow> 'a \<Rightarrow> SymbolSet option \<times> 'a"
  checkForSemanticsChange :: "SymbolSet \<Rightarrow> 'a \<Rightarrow> (bool option \<times> 'a) option"
  specializeProgram :: "'p \<Rightarrow> 'a \<Rightarrow> 'p option \<times> 'a"

definition outcome_of :: "'p option \<Rightarrow> 'p outcome" where
  "outcome_of r = (case r of None \<Rightarrow> Nullopt | Some p \<Rightarrow> Program p)"

definition specialize_if_changed ::
  "('u, 'p, 'a) IncrementalAnalysis \<Rightarrow> 'p \<Rightarrow> SymbolSet \<Rightarrow> 'a \<Rightarrow> ('p outcome \<times> 'a) option" where
  "specialize_if_changed A program symbolSet a =
     assign_or_return (checkForSemanticsChange A symbolSet a)
       (\<lambda>(changeNeeded, a). Some
          (case changeNeeded of
             None \<Rightarrow> (Nullopt, a)
           | Some False \<Rightarrow> (Nullptr, a)
           | Some True \<Rightarrow> apfst outcome_of (specializeProgram A program a)))"

definition processControlPlaneUpdate ::
  "('u, 'p, 'a) IncrementalAnalysis \<Rightarrow> 'p \<Rightarrow> 'u \<Rightarrow> 'a \<Rightarrow> ('p outcome \<times> 'a) option" where
  "processControlPlaneUpdate A program controlPlaneUpdate a =
     (case convertControlPlaneUpdate A controlPlaneUpdate a of
        (None, a) \<Rightarrow> Some (Nullopt, a)
      | (Some symbolSet, a) \<Rightarrow> specialize_if_changed A program symbolSet a)"

fun convert_updates ::
  "('u, 'p, 'a) IncrementalAnalysis \<Rightarrow> 'u list \<Rightarrow> SymbolSet \<Rightarrow> 'a \<Rightarrow> SymbolSet option \<times> 'a" where
  "convert_updates A [] symbolSet a = (Some symbolSet, a)"
| "convert_updates A (update # updates) symbolSet a =
     (case convertControlPlaneUpdate A update a of
        (None, a) \<Rightarrow> (None, a)
      | (Some updateSymbolSet, a) \<Rightarrow> convert_updates A updates (fold sym_emplace updateSymbolSet symbolSet) a)"

definition processControlPlaneUpdates ::
  "bool \<Rightarrow> ('u, 'p, 'a) IncrementalAnalysis \<Rightarrow> 'p \<Rightarrow> 'u list \<Rightarrow> 'a \<Rightarrow> ('p outcome \<times> 'a) option" where
  "processControlPlaneUpdates useSymbolSet A program controlPlaneUpdates a =
     (case convert_updates A controlPlaneUpdates [] a of
        (None, a) \<Rightarrow> Some (Nullopt, a)
      | (Some symbolSet, a) \<Rightarrow>
          if useSymbolSet then specialize_if_changed A program symbolSet a
          else Some (apfst outcome_of (specializeProgram A program a)))"

section \<open>The service\<close>

type_synonym ('u, 'p, 'a) IncrementalAnalysisMap = "(string \<times> ('u, 'p, 'a) IncrementalAnalysis \<times> 'a) list"

record ('u, 'p, 'a) FlayServiceBase =
  fs_updateCount :: "64 word"
  fs_respecializationCount :: "64 word"
  fs_incrementalAnalysisMap :: "('u, 'p, 'a) IncrementalAnalysisMap"
  fs_originalProgram :: 'p
  fs_midEndProgram :: 'p
  fs_optimizedProgram :: 'p

fun specialize_all ::
  "('u, 'p, 'a) IncrementalAnalysisMap \<Rightarrow> 'p \<Rightarrow> 'p option \<times> ('u, 'p, 'a) IncrementalAnalysisMap" where
  "specialize_all [] optimizedProg = (Some optimizedProg, [])"
| "specialize_all ((name, A, a) # analyses) optimizedProg =
     (case specializeProgram A optimizedProg a of
        (None, a) \<Rightarrow> (None, (name, A, a) # analyses)
      | (Some optProgram, a) \<Rightarrow> apsnd (Cons (name, A, a)) (specialize_all analyses optProgram))"

definition fs_specializeProgram ::
  "('u, 'p, 'a) FlayServiceBase \<Rightarrow> bool \<times> ('u, 'p, 'a) FlayServiceBase" where
  "fs_specializeProgram s =
     (case specialize_all (fs_incrementalAnalysisMap s) (fs_originalProgram s) of
        (None, analyses) \<Rightarrow> (False, s\<lparr>fs_incrementalAnalysisMap := analyses\<rparr>)
      | (Some optimizedProg, analyses) \<Rightarrow>
          (True, s\<lparr>fs_incrementalAnalysisMap := analyses, fs_optimizedProgram := optimizedProg\<rparr>))"

text \<open>The constructor ignores whether the first specialization succeeds.\<close>

definition mk_FlayServiceBase ::
  "'p \<Rightarrow> 'p \<Rightarrow> ('u, 'p, 'a) IncrementalAnalysisMap \<Rightarrow> ('u, 'p, 'a) FlayServiceBase" where
  "mk_FlayServiceBase originalProgram midEndProgram incrementalAnalysisMap =
     snd (fs_specializeProgram
       \<lparr>fs_updateCount = 0, fs_respecializationCount = 0, fs_incrementalAnalysisMap = incrementalAnalysisMap,
        fs_originalProgram = originalProgram, fs_midEndProgram = midEndProgram,
        fs_optimizedProgram = originalProgram\<rparr>)"

text \<open>
  The loop over the analyses: \<open>optimizedProg\<close> is the program the next analysis gets, \<open>optimizedProgram\<close>
  the program of the service, and \<open>countEach\<close> whether an analysis that specializes is counted by
  itself. A failure leaves the loop with what has been done so far.
\<close>

fun process_analyses ::
  "(('u, 'p, 'a) IncrementalAnalysis \<Rightarrow> 'p \<Rightarrow> 'a \<Rightarrow> ('p outcome \<times> 'a) option) \<Rightarrow> bool \<Rightarrow>
   ('u, 'p, 'a) IncrementalAnalysisMap \<Rightarrow> 'p \<Rightarrow> 'p \<Rightarrow> 64 word \<Rightarrow> bool \<Rightarrow>
   (bool \<times> ('u, 'p, 'a) IncrementalAnalysisMap \<times> 'p \<times> 64 word \<times> bool) option" where
  "process_analyses step countEach [] optimizedProg optimizedProgram count hasRespecialized =
     Some (True, [], optimizedProgram, count, hasRespecialized)"
| "process_analyses step countEach ((name, A, a) # analyses) optimizedProg optimizedProgram count hasRespecialized =
     assign_or_return (step A optimizedProg a)
       (\<lambda>(optProgram, a).
          case optProgram of
            Nullopt \<Rightarrow> Some (False, (name, A, a) # analyses, optimizedProgram, count, hasRespecialized)
          | Nullptr \<Rightarrow>
              map_option (\<lambda>(ok, analyses, r). (ok, (name, A, a) # analyses, r))
                (process_analyses step countEach analyses optimizedProg optimizedProgram count hasRespecialized)
          | Program p \<Rightarrow>
              map_option (\<lambda>(ok, analyses, r). (ok, (name, A, a) # analyses, r))
                (process_analyses step countEach analyses p p (if countEach then count + 1 else count) True))"

definition after_analyses ::
  "('u, 'p, 'a) FlayServiceBase \<Rightarrow> bool \<times> ('u, 'p, 'a) IncrementalAnalysisMap \<times> 'p \<times> 64 word \<times> bool \<Rightarrow>
   bool \<times> ('u, 'p, 'a) FlayServiceBase" where
  "after_analyses s r =
     (case r of
        (ok, analyses, optimizedProgram, count, hasRespecialized) \<Rightarrow>
          (ok, s\<lparr>fs_incrementalAnalysisMap := analyses, fs_optimizedProgram := optimizedProgram,
             fs_respecializationCount := (if ok \<and> hasRespecialized then count + 1 else count)\<rparr>))"

definition fs_processControlPlaneUpdate ::
  "'u \<Rightarrow> ('u, 'p, 'a) FlayServiceBase \<Rightarrow> (bool \<times> ('u, 'p, 'a) FlayServiceBase) option" where
  "fs_processControlPlaneUpdate controlPlaneUpdate s =
     (let s = s\<lparr>fs_updateCount := fs_updateCount s + 1\<rparr> in
      map_option (after_analyses s)
        (process_analyses (\<lambda>A program. processControlPlaneUpdate A program controlPlaneUpdate) True
           (fs_incrementalAnalysisMap s) (fs_originalProgram s) (fs_optimizedProgram s)
           (fs_respecializationCount s) False))"

definition fs_processControlPlaneUpdates ::
  "bool \<Rightarrow> 'u list \<Rightarrow> ('u, 'p, 'a) FlayServiceBase \<Rightarrow> (bool \<times> ('u, 'p, 'a) FlayServiceBase) option" where
  "fs_processControlPlaneUpdates useSymbolSet controlPlaneUpdates s =
     (let s = s\<lparr>fs_updateCount := fs_updateCount s + of_nat (length controlPlaneUpdates)\<rparr> in
      map_option (after_analyses s)
        (process_analyses (\<lambda>A program. processControlPlaneUpdates useSymbolSet A program controlPlaneUpdates) False
           (fs_incrementalAnalysisMap s) (fs_originalProgram s) (fs_optimizedProgram s)
           (fs_respecializationCount s) False))"

text \<open>
  The service wrappers process one file of updates after the other and write the program out after
  each, under the name of the file; the names are those of the files here.
\<close>

fun run_updates ::
  "bool \<Rightarrow> (string \<times> 'u list) list \<Rightarrow> (string \<times> 'p) list \<Rightarrow> ('u, 'p, 'a) FlayServiceBase \<Rightarrow>
   (bool \<times> (string \<times> 'p) list \<times> ('u, 'p, 'a) FlayServiceBase) option" where
  "run_updates useSymbolSet [] outputs s = Some (True, outputs, s)"
| "run_updates useSymbolSet ((file, updates) # files) outputs s =
     assign_or_return (fs_processControlPlaneUpdates useSymbolSet updates s)
       (\<lambda>(ok, s). if \<not> ok then Some (False, outputs, s)
                  else run_updates useSymbolSet files (outputs @ [(file, fs_optimizedProgram s)]) s)"

definition wrapper_run ::
  "bool \<Rightarrow> bool \<Rightarrow> (string \<times> 'u list) list \<Rightarrow> ('u, 'p, 'a) FlayServiceBase \<Rightarrow>
   (bool \<times> (string \<times> 'p) list \<times> ('u, 'p, 'a) FlayServiceBase) option" where
  "wrapper_run errors useSymbolSet files s =
     (if errors then Some (False, [], s)
      else run_updates useSymbolSet files [(''before_updates.p4'', fs_optimizedProgram s)] s)"

section \<open>What the service relies on\<close>

text \<open>
  \<open>result program a\<close> is what specializing a program in the state \<open>a\<close> gives. Converting an update does
  not change it, and neither does a check that reports no change.
\<close>

locale incremental_analysis =
  fixes A :: "('u, 'p, 'a) IncrementalAnalysis" and good :: "'a \<Rightarrow> bool" and result :: "'p \<Rightarrow> 'a \<Rightarrow> 'p"
  assumes convert_good: "good a \<Longrightarrow> convertControlPlaneUpdate A u a = (r, a') \<Longrightarrow> good a'"
    and convert_result: "convertControlPlaneUpdate A u a = (r, a') \<Longrightarrow> result p a' = result p a"
    and check_good: "good a \<Longrightarrow> checkForSemanticsChange A S a = Some (c, a') \<Longrightarrow> good a'"
    and check_result: "good a \<Longrightarrow> checkForSemanticsChange A S a = Some (Some False, a') \<Longrightarrow> result p a' = result p a"
    and specialize_good: "good a \<Longrightarrow> specializeProgram A p a = (opt, a') \<Longrightarrow> good a'"
    and specialize_result: "specializeProgram A p a = (Some q, a') \<Longrightarrow> q = result p a \<and> result p' a' = result p' a"
begin

text \<open>The program of a service with this analysis is what specializing the original program gives.\<close>

definition up_to_date :: "('u, 'p, 'a) FlayServiceBase \<Rightarrow> bool" where
  "up_to_date s \<longleftrightarrow>
     (\<exists>name a. fs_incrementalAnalysisMap s = [(name, A, a)] \<and> good a \<and>
        fs_optimizedProgram s = result (fs_originalProgram s) a)"

definition follows :: "'p \<Rightarrow> 'a \<Rightarrow> 'p outcome \<Rightarrow> 'a \<Rightarrow> bool" where
  "follows p a r a' \<longleftrightarrow> good a' \<and>
     (case r of Nullopt \<Rightarrow> True | Nullptr \<Rightarrow> \<forall>p. result p a' = result p a | Program q \<Rightarrow> q = result p a')"

lemma specialize_follows:
  assumes "good a" and "specializeProgram A p a = (r, a')"
  shows "follows p a (outcome_of r) a'"
  using specialize_good [OF assms] specialize_result [of p a _ a'] assms(2)
  by (cases r) (auto simp: follows_def outcome_of_def)

lemma specialize_if_changed_follows:
  assumes "good a" and "specialize_if_changed A p S a = Some (r, a')"
  shows "follows p a r a'"
proof -
  from assms(2) obtain c b where check: "checkForSemanticsChange A S a = Some (c, b)"
    and r: "(case c of None \<Rightarrow> (Nullopt, b) | Some False \<Rightarrow> (Nullptr, b)
      | Some True \<Rightarrow> apfst outcome_of (specializeProgram A p b)) = (r, a')"
    by (auto simp: specialize_if_changed_def assign_or_return_Some)
  have good: "good b" using check_good [OF assms(1) check] .
  consider "c = None" | "c = Some False" | "c = Some True" by (cases c) auto
  then show ?thesis
  proof cases
    case 2
    with check_result [OF assms(1)] check r good show ?thesis by (auto simp: follows_def)
  next
    case 3
    obtain q b' where q: "specializeProgram A p b = (q, b')" by (cases "specializeProgram A p b")
    from specialize_follows [OF good q] 3 r q show ?thesis by (auto simp: follows_def outcome_of_def split: option.splits)
  qed (use r good in \<open>auto simp: follows_def\<close>)
qed

lemma follows_same: "(\<And>p. result p b = result p a) \<Longrightarrow> follows p b r a' \<Longrightarrow> follows p a r a'"
  by (auto simp: follows_def split: outcome.splits)

lemma update_follows:
  assumes "good a" and "processControlPlaneUpdate A p u a = Some (r, a')"
  shows "follows p a r a'"
proof -
  obtain S b where conv: "convertControlPlaneUpdate A u a = (S, b)" by (cases "convertControlPlaneUpdate A u a")
  have b: "good b" "\<And>p. result p b = result p a" using convert_good [OF assms(1) conv] convert_result [OF conv] by auto
  show ?thesis
  proof (cases S)
    case None
    with assms(2) conv b show ?thesis by (auto simp: processControlPlaneUpdate_def follows_def)
  next
    case (Some T)
    with assms(2) conv have "specialize_if_changed A p T b = Some (r, a')" by (simp add: processControlPlaneUpdate_def)
    from follows_same [OF b(2) specialize_if_changed_follows [OF b(1) this]] show ?thesis .
  qed
qed

lemma convert_updates_keep:
  "good a \<Longrightarrow> convert_updates A us S a = (r, a') \<Longrightarrow> good a' \<and> (\<forall>p. result p a' = result p a)"
proof (induction us arbitrary: S a)
  case (Cons u us)
  obtain T b where conv: "convertControlPlaneUpdate A u a = (T, b)" by (cases "convertControlPlaneUpdate A u a")
  have b: "good b" "\<And>p. result p b = result p a"
    using convert_good [OF Cons.prems(1) conv] convert_result [OF conv] by auto
  with Cons.IH [OF b(1)] Cons.prems(2) conv show ?case by (cases T) auto
qed simp

lemma updates_follow:
  assumes "good a" and "processControlPlaneUpdates useSymbolSet A p us a = Some (r, a')"
  shows "follows p a r a'"
proof -
  obtain S b where conv: "convert_updates A us [] a = (S, b)" by (cases "convert_updates A us [] a")
  have b: "good b" "\<And>p. result p b = result p a" using convert_updates_keep [OF assms(1) conv] by auto
  show ?thesis
  proof (cases S)
    case None
    with assms(2) conv b show ?thesis by (auto simp: processControlPlaneUpdates_def follows_def)
  next
    case S: (Some T)
    show ?thesis
    proof (cases useSymbolSet)
      case True
      with assms(2) conv S have "specialize_if_changed A p T b = Some (r, a')"
        by (simp add: processControlPlaneUpdates_def)
      from follows_same [OF b(2) specialize_if_changed_follows [OF b(1) this]] show ?thesis .
    next
      case False
      obtain q b' where q: "specializeProgram A p b = (q, b')" by (cases "specializeProgram A p b")
      with assms(2) conv S False have "r = outcome_of q" "a' = b'" by (simp_all add: processControlPlaneUpdates_def)
      with follows_same [OF b(2) specialize_follows [OF b(1) q]] show ?thesis by simp
    qed
  qed
qed

lemma process_one:
  assumes "\<And>r a'. step A p a = Some (r, a') \<Longrightarrow> follows p a r a'"
    and "process_analyses step e [(name, A, a)] p q n h = Some (ok, as, q', n', h')" and "q = result p a"
  shows "\<exists>a'. as = [(name, A, a')] \<and> good a' \<and> (ok \<longrightarrow> q' = result p a') \<and> (\<not> ok \<longrightarrow> q' = q)"
proof -
  from assms(2) obtain r a' where step: "step A p a = Some (r, a')"
    by (auto simp: assign_or_return_Some)
  with assms(1) have "follows p a r a'" by blast
  with step assms(2,3) show ?thesis by (cases r) (auto simp: follows_def)
qed

lemma service_update:
  assumes "up_to_date s" and "fs_processControlPlaneUpdate u s = Some (ok, s')"
  shows "(ok \<longrightarrow> up_to_date s') \<and> (\<not> ok \<longrightarrow> fs_optimizedProgram s' = fs_optimizedProgram s) \<and>
    fs_originalProgram s' = fs_originalProgram s"
proof -
  from assms(1) obtain name a where s: "fs_incrementalAnalysisMap s = [(name, A, a)]" "good a"
    "fs_optimizedProgram s = result (fs_originalProgram s) a" by (auto simp: up_to_date_def)
  from assms(2) s(1) obtain as q n h where loop: "process_analyses (\<lambda>A program. processControlPlaneUpdate A program u) True
      [(name, A, a)] (fs_originalProgram s) (fs_optimizedProgram s) (fs_respecializationCount s) False =
        Some (ok, as, q, n, h)" and s': "fs_incrementalAnalysisMap s' = as" "fs_optimizedProgram s' = q"
      "fs_originalProgram s' = fs_originalProgram s"
    by (auto simp: fs_processControlPlaneUpdate_def after_analyses_def Let_def simp del: process_analyses.simps)
  from process_one [OF _ loop s(3)] update_follows [OF s(2)] s' show ?thesis by (auto simp: up_to_date_def)
qed

lemma service_updates:
  assumes "up_to_date s" and "fs_processControlPlaneUpdates useSymbolSet us s = Some (ok, s')"
  shows "(ok \<longrightarrow> up_to_date s') \<and> (\<not> ok \<longrightarrow> fs_optimizedProgram s' = fs_optimizedProgram s) \<and>
    fs_originalProgram s' = fs_originalProgram s"
proof -
  from assms(1) obtain name a where s: "fs_incrementalAnalysisMap s = [(name, A, a)]" "good a"
    "fs_optimizedProgram s = result (fs_originalProgram s) a" by (auto simp: up_to_date_def)
  from assms(2) s(1) obtain as q n h where loop:
    "process_analyses (\<lambda>A program. processControlPlaneUpdates useSymbolSet A program us) False
      [(name, A, a)] (fs_originalProgram s) (fs_optimizedProgram s) (fs_respecializationCount s) False =
        Some (ok, as, q, n, h)" and s': "fs_incrementalAnalysisMap s' = as" "fs_optimizedProgram s' = q"
      "fs_originalProgram s' = fs_originalProgram s"
    by (auto simp: fs_processControlPlaneUpdates_def after_analyses_def Let_def simp del: process_analyses.simps)
  from process_one [OF _ loop s(3)] updates_follow [OF s(2)] s' show ?thesis by (auto simp: up_to_date_def)
qed

lemma service_start:
  assumes "good a" and "specializeProgram A original a = (Some p, a')"
  shows "up_to_date (mk_FlayServiceBase original midEnd [(name, A, a)])"
  using specialize_good [OF assms] specialize_result [OF assms(2)] assms(2)
  by (auto simp: up_to_date_def mk_FlayServiceBase_def fs_specializeProgram_def)

end

section \<open>Counting\<close>

text \<open>
  One respecialization counts twice when the update comes alone: a service with one analysis
  adds two to its count of respecializations for a single update that leads to a new program, and one
  for a batch that does; an update without a new program is not counted.
\<close>

lemma respecializations_counted:
  assumes "fs_incrementalAnalysisMap s = [(name, A, a)]"
    and "processControlPlaneUpdate A (fs_originalProgram s) u a = Some (r, a')" and "r \<noteq> Nullopt"
    and "processControlPlaneUpdates useSymbolSet A (fs_originalProgram s) us a = Some (q, b')" and "q \<noteq> Nullopt"
  shows "(\<exists>s'. fs_processControlPlaneUpdate u s = Some (True, s') \<and> fs_updateCount s' = fs_updateCount s + 1 \<and>
      fs_respecializationCount s' = fs_respecializationCount s + (if r = Nullptr then 0 else 2)) \<and>
    (\<exists>s'. fs_processControlPlaneUpdates useSymbolSet us s = Some (True, s') \<and>
      fs_updateCount s' = fs_updateCount s + of_nat (length us) \<and>
      fs_respecializationCount s' = fs_respecializationCount s + (if q = Nullptr then 0 else 1))"
  using assms
  by (cases r; cases q)
    (simp_all add: fs_processControlPlaneUpdate_def fs_processControlPlaneUpdates_def after_analyses_def Let_def)

text \<open>An analysis that specializes for every update.\<close>

definition eager_analysis :: "(unit, nat, unit) IncrementalAnalysis" where
  "eager_analysis =
     \<lparr>convertControlPlaneUpdate = (\<lambda>u a. (Some [], a)), checkForSemanticsChange = (\<lambda>S a. Some (Some True, a)),
      specializeProgram = (\<lambda>p a. (Some (Suc p), a))\<rparr>"

lemma respecializations_counted_example:
  "let s = mk_FlayServiceBase 7 7 [(''a'', eager_analysis, ())] in
   \<exists>s' s''. fs_processControlPlaneUpdate () s = Some (True, s') \<and> fs_respecializationCount s' = 2 \<and>
     fs_processControlPlaneUpdates True [(), ()] s = Some (True, s'') \<and> fs_respecializationCount s'' = 1"
proof -
  let ?s = "mk_FlayServiceBase 7 7 [(''a'', eager_analysis, ())]"
  have s: "fs_incrementalAnalysisMap ?s = [(''a'', eager_analysis, ())]" "fs_originalProgram ?s = 7"
    "fs_respecializationCount ?s = 0"
    by (simp_all add: mk_FlayServiceBase_def fs_specializeProgram_def eager_analysis_def)
  have one: "processControlPlaneUpdate eager_analysis (fs_originalProgram ?s) () () = Some (Program 8, ())"
    "processControlPlaneUpdates True eager_analysis (fs_originalProgram ?s) [(), ()] () = Some (Program 8, ())"
    unfolding s(2)
    by (simp_all add: processControlPlaneUpdate_def processControlPlaneUpdates_def specialize_if_changed_def
        eager_analysis_def outcome_of_def)
  show ?thesis
    using respecializations_counted [OF s(1) one(1) _ one(2)] unfolding Let_def s(3) by fastforce
qed

end
