(* ===== verification/PartialEvaluation.thy ===== *)
theory PartialEvaluation
  imports Specializer BfRuntime FlayService
begin

text \<open>
  \<open>interpreter/partial_evaluator.cpp\<close>, the incremental analysis the program runs: it holds the
  control-plane configuration and the two maps, turns updates into changes of the configuration and
  sets of symbols, recomputes the maps, and specializes programs with them. The initial configuration
  of a file of updates is that of \<open>interpreter/target.cpp\<close>.

  The symbolic execution of the program is a parameter: \<open>initialize\<close> takes the annotations it leaves
  behind. The compiler's count of errors is global; here it is whether there are any, which every
  handler that refuses an update and both passes report to.
\<close>

section \<open>Maps of either kind\<close>

datatype ReachabilityMapType = kZ3Precomputed | kDefault

datatype 'z AbstractReachabilityMap =
    Z3SolverReachability "'z Z3SolverReachabilityMap"
  | IRReachability IRReachabilityMap

datatype 'z AbstractSubstitutionMap =
    Z3SolverSubstitution "'z Z3SolverSubstitutionMap"
  | IrSubstitution IrSubstitutionMap

text \<open>What does not change while the analysis runs.\<close>

record 'z pe_environment =
  en_hash :: "item_class \<Rightarrow> nat"
  en_less :: "expr \<Rightarrow> expr \<Rightarrow> bool"
  en_backend :: "'z z3_backend"
  en_reader :: "'z z3_reader"
  en_compiler :: compiler
  en_symbols :: cp_symbols
  en_p4Info :: P4Info
  en_type :: "node \<Rightarrow> ty"
  en_refMap :: ReferenceMap
  en_skipParsers :: bool

record 'z PartialEvaluation =
  pv_controlPlaneConstraints :: "'z ControlPlaneConstraints"
  pv_z3Cache :: "'z Z3Cache"
  pv_reachabilityMap :: "'z AbstractReachabilityMap"
  pv_substitutionMap :: "'z AbstractSubstitutionMap"
  pv_errors :: bool

definition initializeReachabilityMap ::
  "'z pe_environment \<Rightarrow> ReachabilityMapType \<Rightarrow> NodeAnnotationMap \<Rightarrow> 'z AbstractReachabilityMap" where
  "initializeReachabilityMap E mapType m =
     (if mapType = kZ3Precomputed then Z3SolverReachability (mk_Z3SolverReachabilityMap (en_backend E) m)
      else IRReachability (mk_IRReachabilityMap m))"

definition initializeSubstitutionMap ::
  "'z pe_environment \<Rightarrow> ReachabilityMapType \<Rightarrow> NodeAnnotationMap \<Rightarrow> 'z AbstractSubstitutionMap" where
  "initializeSubstitutionMap E mapType m =
     (if mapType = kZ3Precomputed then Z3SolverSubstitution (mk_Z3SolverSubstitutionMap (en_backend E) m)
      else IrSubstitution (mk_IrSubstitutionMap m))"

definition abstract_isNodeReachable :: "'z AbstractReachabilityMap \<Rightarrow> reachability" where
  "abstract_isNodeReachable M =
     (case M of Z3SolverReachability N \<Rightarrow> isNodeReachable N | IRReachability N \<Rightarrow> isNodeReachable N)"

definition abstract_isExpressionConstant :: "'z AbstractSubstitutionMap \<Rightarrow> substitution" where
  "abstract_isExpressionConstant M =
     (case M of Z3SolverSubstitution N \<Rightarrow> isExpressionConstant N | IrSubstitution N \<Rightarrow> isExpressionConstant N)"

definition abstract_recomputeReachability ::
  "'z pe_environment \<Rightarrow> 'z PartialEvaluation \<Rightarrow> (bool option \<times> 'z AbstractReachabilityMap) option" where
  "abstract_recomputeReachability E pe =
     (case pv_reachabilityMap pe of
        Z3SolverReachability M \<Rightarrow> map_option (apsnd Z3SolverReachability)
          (z3_recomputeReachability (en_backend E) (en_reader E) (en_symbols E) (pv_z3Cache pe)
             (pv_controlPlaneConstraints pe) M)
      | IRReachability M \<Rightarrow> map_option (apsnd IRReachability)
          (recomputeReachability (en_symbols E) (pv_controlPlaneConstraints pe) M))"

definition abstract_recomputeReachability_symbols ::
  "'z pe_environment \<Rightarrow> SymbolSet \<Rightarrow> 'z PartialEvaluation \<Rightarrow> (bool option \<times> 'z AbstractReachabilityMap) option" where
  "abstract_recomputeReachability_symbols E symbolSet pe =
     (case pv_reachabilityMap pe of
        Z3SolverReachability M \<Rightarrow> map_option (apsnd Z3SolverReachability)
          (z3_recomputeReachability_symbols (en_backend E) (en_reader E) (en_symbols E) (pv_z3Cache pe) symbolSet
             (pv_controlPlaneConstraints pe) M)
      | IRReachability M \<Rightarrow> map_option (apsnd IRReachability)
          (recomputeReachability_symbols (en_symbols E) symbolSet (pv_controlPlaneConstraints pe) M))"

definition abstract_recomputeSubstitution ::
  "'z pe_environment \<Rightarrow> 'z PartialEvaluation \<Rightarrow> (bool option \<times> 'z AbstractSubstitutionMap) option" where
  "abstract_recomputeSubstitution E pe =
     (case pv_substitutionMap pe of
        Z3SolverSubstitution M \<Rightarrow> map_option (apsnd Z3SolverSubstitution)
          (z3_recomputeSubstitution (en_backend E) (en_reader E) (en_type E) (en_symbols E) (pv_z3Cache pe)
             (pv_controlPlaneConstraints pe) M)
      | IrSubstitution M \<Rightarrow> map_option (apsnd IrSubstitution)
          (recomputeSubstitution (en_symbols E) (pv_controlPlaneConstraints pe) M))"

definition abstract_recomputeSubstitution_symbols ::
  "'z pe_environment \<Rightarrow> SymbolSet \<Rightarrow> 'z PartialEvaluation \<Rightarrow> (bool option \<times> 'z AbstractSubstitutionMap) option" where
  "abstract_recomputeSubstitution_symbols E symbolSet pe =
     (case pv_substitutionMap pe of
        Z3SolverSubstitution M \<Rightarrow> map_option (apsnd Z3SolverSubstitution)
          (z3_recomputeSubstitution_symbols (en_backend E) (en_reader E) (en_type E) (en_symbols E) (pv_z3Cache pe)
             symbolSet (pv_controlPlaneConstraints pe) M)
      | IrSubstitution M \<Rightarrow> map_option (apsnd IrSubstitution)
          (recomputeSubstitution_symbols (en_symbols E) symbolSet (pv_controlPlaneConstraints pe) M))"

section \<open>The analysis\<close>

text \<open>Both checks run the two recomputations one after the other and stop when one fails.\<close>

definition recompute_both ::
  "('z PartialEvaluation \<Rightarrow> (bool option \<times> 'z AbstractReachabilityMap) option) \<Rightarrow>
   ('z PartialEvaluation \<Rightarrow> (bool option \<times> 'z AbstractSubstitutionMap) option) \<Rightarrow>
   'z PartialEvaluation \<Rightarrow> (bool option \<times> 'z PartialEvaluation) option" where
  "recompute_both reachability substitution pe =
     assign_or_return (reachability pe) (\<lambda>(reachabilityResult, M).
       let pe = pe\<lparr>pv_reachabilityMap := M\<rparr> in
       case reachabilityResult of
         None \<Rightarrow> Some (None, pe)
       | Some r \<Rightarrow>
           assign_or_return (substitution pe) (\<lambda>(substitutionResult, N).
             let pe = pe\<lparr>pv_substitutionMap := N\<rparr> in
             Some (map_option (\<lambda>s. r \<or> s) substitutionResult, pe)))"

definition pe_checkForSemanticsChange ::
  "'z pe_environment \<Rightarrow> 'z PartialEvaluation \<Rightarrow> (bool option \<times> 'z PartialEvaluation) option" where
  "pe_checkForSemanticsChange E =
     recompute_both (abstract_recomputeReachability E) (abstract_recomputeSubstitution E)"

definition pe_checkForSemanticsChange_symbols ::
  "'z pe_environment \<Rightarrow> SymbolSet \<Rightarrow> 'z PartialEvaluation \<Rightarrow> (bool option \<times> 'z PartialEvaluation) option" where
  "pe_checkForSemanticsChange_symbols E symbolSet =
     recompute_both (abstract_recomputeReachability_symbols E symbolSet)
       (abstract_recomputeSubstitution_symbols E symbolSet)"

definition pe_result :: "'z pe_environment \<Rightarrow> P4Program \<Rightarrow> 'z PartialEvaluation \<Rightarrow> P4Program" where
  "pe_result E program pe =
     specialize_program (en_skipParsers E) (en_refMap E) (abstract_isNodeReachable (pv_reachabilityMap pe))
       (abstract_isExpressionConstant (pv_substitutionMap pe)) program"

definition pe_specializeProgram ::
  "'z pe_environment \<Rightarrow> P4Program \<Rightarrow> 'z PartialEvaluation \<Rightarrow> P4Program option \<times> 'z PartialEvaluation" where
  "pe_specializeProgram E program pe =
     (let optimizedProgram = pe_result E program pe;
          pe = pe\<lparr>pv_errors := pv_errors pe \<or>
            specialize_error (en_skipParsers E) (en_refMap E) (abstract_isNodeReachable (pv_reachabilityMap pe))
              (abstract_isExpressionConstant (pv_substitutionMap pe)) program\<rparr> in
      if pv_errors pe then (None, pe) else (Some optimizedProgram, pe))"

datatype ControlPlaneUpdate =
    P4RuntimeControlPlaneUpdate Entity Update_Type
  | BfRuntimeControlPlaneUpdate BfEntity Update_Type
  | OtherControlPlaneUpdate

definition update_constraints ::
  "'z pe_environment \<Rightarrow> ControlPlaneUpdate \<Rightarrow> 'z ControlPlaneConstraints \<Rightarrow> 'z Z3Cache \<Rightarrow> SymbolSet \<Rightarrow>
   bool \<times> 'z ControlPlaneConstraints \<times> 'z Z3Cache \<times> SymbolSet" where
  "update_constraints E u m c symbolSet =
     (case u of
        P4RuntimeControlPlaneUpdate entity ty \<Rightarrow>
          updateControlPlaneConstraintsWithEntityMessage (en_hash E) (en_less E) (en_backend E) (en_compiler E)
            (en_symbols E) (en_p4Info E) entity ty m c symbolSet
      | BfRuntimeControlPlaneUpdate entity ty \<Rightarrow>
          bf_updateControlPlaneConstraintsWithEntityMessage (en_hash E) (en_less E) (en_backend E) (en_compiler E)
            (en_symbols E) (en_p4Info E) entity ty m c symbolSet
      | OtherControlPlaneUpdate \<Rightarrow> (False, m, c, symbolSet))"

definition pe_convertControlPlaneUpdate ::
  "'z pe_environment \<Rightarrow> ControlPlaneUpdate \<Rightarrow> 'z PartialEvaluation \<Rightarrow> SymbolSet option \<times> 'z PartialEvaluation" where
  "pe_convertControlPlaneUpdate E u pe =
     (case update_constraints E u (pv_controlPlaneConstraints pe) (pv_z3Cache pe) [] of
        (ok, m, c, symbolSet) \<Rightarrow>
          (let pe = pe\<lparr>pv_controlPlaneConstraints := m, pv_z3Cache := c\<rparr> in
           if ok then (Some symbolSet, pe) else (None, pe\<lparr>pv_errors := True\<rparr>)))"

text \<open>The initial configuration: the one of the program, with the updates of a file if there is one.\<close>

fun configure ::
  "'z pe_environment \<Rightarrow> ControlPlaneUpdate list \<Rightarrow> 'z ControlPlaneConstraints \<Rightarrow> 'z Z3Cache \<Rightarrow> SymbolSet \<Rightarrow>
   bool \<times> 'z ControlPlaneConstraints \<times> 'z Z3Cache" where
  "configure E [] m c symbolSet = (True, m, c)"
| "configure E (u # us) m c symbolSet =
     (case update_constraints E u m c symbolSet of
        (ok, m, c, symbolSet) \<Rightarrow> if ok then configure E us m c symbolSet else (False, m, c))"

definition computeControlPlaneConstraints ::
  "'z pe_environment \<Rightarrow> 'z ControlPlaneConstraints \<Rightarrow> ControlPlaneUpdate list option \<Rightarrow> 'z Z3Cache \<Rightarrow>
   'z ControlPlaneConstraints option \<times> 'z Z3Cache" where
  "computeControlPlaneConstraints E defaultConstraints config c =
     (case config of
        None \<Rightarrow> (Some defaultConstraints, c)
      | Some updates \<Rightarrow>
          (case configure E updates defaultConstraints c [] of
             (ok, m, c) \<Rightarrow> (if ok then Some m else None, c)))"

definition pe_initialize ::
  "'z pe_environment \<Rightarrow> ReachabilityMapType \<Rightarrow> 'z ControlPlaneConstraints \<Rightarrow> ControlPlaneUpdate list option \<Rightarrow>
   'z Z3Cache \<Rightarrow> NodeAnnotationMap \<Rightarrow> (bool \<times> 'z PartialEvaluation option) option" where
  "pe_initialize E mapType defaultConstraints config c annotations =
     (case computeControlPlaneConstraints E defaultConstraints config c of
        (None, c) \<Rightarrow> Some (False, None)
      | (Some constraints, c) \<Rightarrow>
          map_option (\<lambda>(result, pe). (result \<noteq> None, Some pe))
            (pe_checkForSemanticsChange E
               \<lparr>pv_controlPlaneConstraints = constraints, pv_z3Cache = c,
                pv_reachabilityMap = initializeReachabilityMap E mapType annotations,
                pv_substitutionMap = initializeSubstitutionMap E mapType annotations, pv_errors = False\<rparr>))"

definition PartialEvaluation_analysis ::
  "'z pe_environment \<Rightarrow> (ControlPlaneUpdate, P4Program, 'z PartialEvaluation) IncrementalAnalysis" where
  "PartialEvaluation_analysis E =
     \<lparr>convertControlPlaneUpdate = pe_convertControlPlaneUpdate E,
      checkForSemanticsChange = pe_checkForSemanticsChange_symbols E,
      specializeProgram = pe_specializeProgram E\<rparr>"

section \<open>The contract of the service\<close>

context node_analysis
begin

text \<open>A recomputation that reports no change has changed nothing.\<close>

lemma recompute_nodes_unchanged:
  "distinct (map fst m) \<Longrightarrow> recompute_nodes (compute s) ns b m = Some (r, m') \<Longrightarrow>
   map fst m' = map fst m \<and> (r = Some False \<longrightarrow> m' = m \<and> \<not> b)"
proof (induction ns arbitrary: b m)
  case (Cons n ns)
  show ?case
  proof (cases "map_find m n")
    case None
    with Cons.prems(2) show ?thesis by (simp add: compute_node_def)
  next
    case (Some e)
    with Cons.prems(2) obtain ch e' where step: "compute s n e = Some (ch, e')"
      and rest: "recompute_nodes (compute s) ns (b \<or> ch) (map_assign n e' m) = Some (r, m')"
      by (auto simp: compute_node_def split: option.splits)
    have same: "map_assign n e m = m"
      by (rule std_map_eqI) (use Some Cons.prems(1) in \<open>auto simp: store_simps\<close>)
    from Cons.IH [OF _ rest] Cons.prems(1) reports_change [OF step] same show ?thesis by auto
  qed
qed auto

lemma recompute_targets_unchanged:
  assumes "distinct (map fst (sm_map M))" and "recompute_targets (compute s) ns M = Some (r, M')"
  shows "distinct (map fst (sm_map M'))" and "r = Some False \<Longrightarrow> M' = M"
  using recompute_nodes_unchanged [OF assms(1)] assms by (auto simp: recompute_targets_def)

end

definition reachability_good :: "'z AbstractReachabilityMap \<Rightarrow> bool" where
  "reachability_good M =
     (case M of Z3SolverReachability N \<Rightarrow> distinct (map fst (sm_map N))
      | IRReachability N \<Rightarrow> distinct (map fst (sm_map N)))"

definition substitution_good :: "'z AbstractSubstitutionMap \<Rightarrow> bool" where
  "substitution_good M =
     (case M of Z3SolverSubstitution N \<Rightarrow> distinct (map fst (sm_map N))
      | IrSubstitution N \<Rightarrow> distinct (map fst (sm_map N)))"

definition pe_good :: "'z PartialEvaluation \<Rightarrow> bool" where
  "pe_good pe \<longleftrightarrow> reachability_good (pv_reachabilityMap pe) \<and> substitution_good (pv_substitutionMap pe)"

lemmas recompute_defs = z3_recomputeReachability_symbols_def z3_recomputeReachability_nodes_def
  z3_recomputeSubstitution_symbols_def z3_recomputeSubstitution_nodes_def
  recomputeReachability_symbols_def recomputeReachability_nodes_def
  recomputeSubstitution_symbols_def recomputeSubstitution_nodes_def

lemma abstract_reachability_unchanged:
  assumes "reachability_good (pv_reachabilityMap pe)"
    and "abstract_recomputeReachability_symbols E S pe = Some (r, M)"
  shows "reachability_good M \<and> (r = Some False \<longrightarrow> M = pv_reachabilityMap pe)"
proof (cases "pv_reachabilityMap pe")
  case (Z3SolverReachability N)
  with assms show ?thesis
    using z3_reach.recompute_targets_unchanged [of N]
    by (fastforce simp: abstract_recomputeReachability_symbols_def reachability_good_def recompute_defs)
next
  case (IRReachability N)
  with assms show ?thesis
    using reach.recompute_targets_unchanged [of N]
    by (fastforce simp: abstract_recomputeReachability_symbols_def reachability_good_def recompute_defs assign_or_return_Some)
qed

lemma abstract_substitution_unchanged:
  assumes "substitution_good (pv_substitutionMap pe)"
    and "abstract_recomputeSubstitution_symbols E S pe = Some (r, M)"
  shows "substitution_good M \<and> (r = Some False \<longrightarrow> M = pv_substitutionMap pe)"
proof (cases "pv_substitutionMap pe")
  case (Z3SolverSubstitution N)
  with assms show ?thesis
    using z3_subst.recompute_targets_unchanged [of N]
    by (fastforce simp: abstract_recomputeSubstitution_symbols_def substitution_good_def recompute_defs)
next
  case (IrSubstitution N)
  with assms show ?thesis
    using subst.recompute_targets_unchanged [of N]
    by (fastforce simp: abstract_recomputeSubstitution_symbols_def substitution_good_def recompute_defs assign_or_return_Some)
qed

lemma pe_check_unchanged:
  assumes "pe_good pe" and "pe_checkForSemanticsChange_symbols E S pe = Some (r, pe')"
  shows "pe_good pe' \<and> (r = Some False \<longrightarrow> pe' = pe)"
proof -
  from assms(2) obtain q M where M: "abstract_recomputeReachability_symbols E S pe = Some (q, M)"
    by (auto simp: pe_checkForSemanticsChange_symbols_def recompute_both_def assign_or_return_Some)
  note good = assms(1) [unfolded pe_good_def]
  from abstract_reachability_unchanged [OF _ M] good have reach: "reachability_good M"
    "q = Some False \<longrightarrow> M = pv_reachabilityMap pe" by auto
  show ?thesis
  proof (cases q)
    case None
    with assms(2) M reach good show ?thesis
      by (auto simp: pe_checkForSemanticsChange_symbols_def recompute_both_def pe_good_def)
  next
    case (Some b)
    with assms(2) M obtain t N where N: "abstract_recomputeSubstitution_symbols E S (pe\<lparr>pv_reachabilityMap := M\<rparr>) = Some (t, N)"
      and r: "r = map_option (\<lambda>s. b \<or> s) t" "pe' = pe\<lparr>pv_reachabilityMap := M, pv_substitutionMap := N\<rparr>"
      by (auto simp: pe_checkForSemanticsChange_symbols_def recompute_both_def assign_or_return_Some Let_def)
    from abstract_substitution_unchanged [OF _ N] good have "substitution_good N"
      "t = Some False \<longrightarrow> N = pv_substitutionMap pe" by auto
    with reach r Some show ?thesis by (cases t) (auto simp: pe_good_def)
  qed
qed

lemma pe_convert_maps:
  "pe_convertControlPlaneUpdate E u pe = (r, pe') \<Longrightarrow>
   pv_reachabilityMap pe' = pv_reachabilityMap pe \<and> pv_substitutionMap pe' = pv_substitutionMap pe"
  by (auto simp: pe_convertControlPlaneUpdate_def Let_def split: prod.splits if_splits)

interpretation pe: incremental_analysis "PartialEvaluation_analysis E" pe_good "pe_result E"
  for E :: "'z pe_environment"
proof
  fix a a' :: "'z PartialEvaluation" and u r and p
  assume "convertControlPlaneUpdate (PartialEvaluation_analysis E) u a = (r, a')"
  then have "pe_convertControlPlaneUpdate E u a = (r, a')" by (simp add: PartialEvaluation_analysis_def)
  note maps = pe_convert_maps [OF this]
  then show "pe_result E p a' = pe_result E p a" by (simp add: pe_result_def)
  show "pe_good a'" if "pe_good a" using maps that by (simp add: pe_good_def)
next
  fix a a' :: "'z PartialEvaluation" and S c
  assume "pe_good a" and "checkForSemanticsChange (PartialEvaluation_analysis E) S a = Some (c, a')"
  then show "pe_good a'" using pe_check_unchanged by (fastforce simp: PartialEvaluation_analysis_def)
next
  fix a a' :: "'z PartialEvaluation" and S p
  assume "pe_good a" and "checkForSemanticsChange (PartialEvaluation_analysis E) S a = Some (Some False, a')"
  then have "a' = a" using pe_check_unchanged by (fastforce simp: PartialEvaluation_analysis_def)
  then show "pe_result E p a' = pe_result E p a" by simp
qed (auto simp: PartialEvaluation_analysis_def pe_specializeProgram_def Let_def pe_good_def pe_result_def
      split: if_splits)

section \<open>Following the configuration\<close>

text \<open>
  The assignments of the configuration, the program that specializing from scratch gives for it, and
  the states whose maps hold the solver's verdict for every node under it.
\<close>

definition pe_total :: "'z pe_environment \<Rightarrow> 'z PartialEvaluation \<Rightarrow> 'z Z3ControlPlaneAssignmentSet" where
  "pe_total E pe =
     totalZ3Assignments (en_backend E) (en_symbols E) (pv_z3Cache pe) (pv_controlPlaneConstraints pe)"

definition decided_reach :: "'z pe_environment \<Rightarrow> NodeAnnotationMap \<Rightarrow> 'z Z3ControlPlaneAssignmentSet \<Rightarrow>
  'z Z3SolverReachabilityMap" where
  "decided_reach E m s = decided_reachability (en_backend E) (en_reader E) m s"

definition decided_subst :: "'z pe_environment \<Rightarrow> NodeAnnotationMap \<Rightarrow> 'z Z3ControlPlaneAssignmentSet \<Rightarrow>
  'z Z3SolverSubstitutionMap" where
  "decided_subst E m s = decided_substitution (en_backend E) (en_reader E) (en_type E) m s"

definition specialized_for :: "'z pe_environment \<Rightarrow> NodeAnnotationMap \<Rightarrow> 'z Z3ControlPlaneAssignmentSet \<Rightarrow>
  P4Program \<Rightarrow> P4Program" where
  "specialized_for E m s program =
     specialize_program (en_skipParsers E) (en_refMap E) (isNodeReachable (decided_reach E m s))
       (isExpressionConstant (decided_subst E m s)) program"

definition holds_verdicts :: "'z pe_environment \<Rightarrow> NodeAnnotationMap \<Rightarrow> 'z Z3ControlPlaneAssignmentSet \<Rightarrow>
  'z PartialEvaluation \<Rightarrow> bool" where
  "holds_verdicts E m s pe \<longleftrightarrow>
     pv_reachabilityMap pe = Z3SolverReachability (decided_reach E m s) \<and>
     pv_substitutionMap pe = Z3SolverSubstitution (decided_subst E m s)"

abbreviation pe_current :: "'z pe_environment \<Rightarrow> NodeAnnotationMap \<Rightarrow> 'z PartialEvaluation \<Rightarrow> bool" where
  "pe_current E m pe \<equiv> holds_verdicts E m (pe_total E pe) pe"

definition sound_environment :: "(env \<Rightarrow> 'z \<Rightarrow> val option) \<Rightarrow> 'z pe_environment \<Rightarrow> bool" where
  "sound_environment zeval E \<longleftrightarrow> z3_reading (en_backend E) zeval (en_reader E)"

lemma holds_verdicts_result: "holds_verdicts E m s pe \<Longrightarrow> pe_result E p pe = specialized_for E m s p"
  by (simp add: holds_verdicts_def pe_result_def specialized_for_def abstract_isNodeReachable_def
      abstract_isExpressionConstant_def)

lemma holds_verdicts_good: "annotations_ok m \<Longrightarrow> holds_verdicts E m s pe \<Longrightarrow> pe_good pe"
  using annotations_sorted [THEN map_sorted_distinct, of m]
  by (simp add: holds_verdicts_def pe_good_def reachability_good_def substitution_good_def
      decided_reach_def decided_subst_def decided_reachability_def decided_substitution_def with_simps)

lemma pe_check_verdicts:
  assumes "sound_environment zeval E" and m: "annotations_ok m" and holds: "holds_verdicts E m s pe"
    and agree: "\<And>x. sv_key x \<notin> sv_key ` set S \<Longrightarrow> cp_find s x = cp_find (pe_total E pe) x"
  shows "\<exists>b. pe_checkForSemanticsChange_symbols E S pe = Some (Some b,
      pe\<lparr>pv_reachabilityMap := Z3SolverReachability (decided_reach E m (pe_total E pe)),
         pv_substitutionMap := Z3SolverSubstitution (decided_subst E m (pe_total E pe))\<rparr>)"
proof -
  note reading = assms(1) [unfolded sound_environment_def]
  note r = z3_reading.reachability_incremental [OF reading m agree]
  note t = z3_reading.substitution_incremental [OF reading m agree]
  have sym: "sm_symbolMap (decided_reach E m s) = na_reachabilitySymbolMap m"
    "sm_symbolMap (decided_subst E m s) = na_expressionSymbolMap m"
    by (simp_all add: decided_reach_def decided_subst_def decided_reachability_def decided_substitution_def with_simps)
  from r [folded decided_reach_def] t [where Ty = "en_type E", folded decided_subst_def] holds show ?thesis
    by (simp add: pe_checkForSemanticsChange_symbols_def recompute_both_def holds_verdicts_def
        abstract_recomputeReachability_symbols_def abstract_recomputeSubstitution_symbols_def
        z3_recomputeReachability_symbols_def z3_recomputeReachability_nodes_def
        z3_recomputeSubstitution_symbols_def z3_recomputeSubstitution_nodes_def sym pe_total_def Let_def)
qed

text \<open>An update is covered when the symbols it reports cover what it changes.\<close>

definition covered_by :: "'z pe_environment \<Rightarrow> 'z PartialEvaluation \<Rightarrow> SymbolSet option \<times> 'z PartialEvaluation \<Rightarrow> bool" where
  "covered_by E pe r \<longleftrightarrow>
     (\<forall>S pe'. r = (Some S, pe') \<longrightarrow>
        (\<forall>x. sv_key x \<notin> sv_key ` set S \<longrightarrow> cp_find (pe_total E pe) x = cp_find (pe_total E pe') x))"

lemma analysis_simps:
  "convertControlPlaneUpdate (PartialEvaluation_analysis E) = pe_convertControlPlaneUpdate E"
  "checkForSemanticsChange (PartialEvaluation_analysis E) = pe_checkForSemanticsChange_symbols E"
  "specializeProgram (PartialEvaluation_analysis E) = pe_specializeProgram E"
  by (simp_all add: PartialEvaluation_analysis_def)

lemma pe_convert_verdicts:
  "holds_verdicts E m s pe \<Longrightarrow> pe_convertControlPlaneUpdate E u pe = (r, pe') \<Longrightarrow> holds_verdicts E m s pe'"
  using pe_convert_maps by (fastforce simp: holds_verdicts_def)

lemma convert_updates_verdicts:
  "holds_verdicts E m s pe \<Longrightarrow> convert_updates (PartialEvaluation_analysis E) us S pe = (r, pe') \<Longrightarrow>
   holds_verdicts E m s pe'"
proof (induction us arbitrary: S pe)
  case (Cons u us)
  obtain T b where conv: "pe_convertControlPlaneUpdate E u pe = (T, b)" by (cases "pe_convertControlPlaneUpdate E u pe")
  note b = pe_convert_verdicts [OF Cons.prems(1) conv]
  show ?case
    using Cons.IH [OF b] Cons.prems(2) conv b by (cases T) (auto simp: analysis_simps)
qed simp

lemma pe_specialize_current:
  "pe_specializeProgram E p pe = (r, pe') \<Longrightarrow> pe_current E m pe \<Longrightarrow> pe_current E m pe'"
  by (auto simp: pe_specializeProgram_def Let_def holds_verdicts_def pe_total_def split: if_splits)

lemma pe_changed_current:
  assumes "sound_environment zeval E" and "annotations_ok m" and "holds_verdicts E m s pe"
    and "\<And>x. sv_key x \<notin> sv_key ` set S \<Longrightarrow> cp_find s x = cp_find (pe_total E pe) x"
  shows "\<exists>r pe'. specialize_if_changed (PartialEvaluation_analysis E) p S pe = Some (r, pe') \<and> pe_current E m pe'"
proof -
  let ?pe = "pe\<lparr>pv_reachabilityMap := Z3SolverReachability (decided_reach E m (pe_total E pe)),
    pv_substitutionMap := Z3SolverSubstitution (decided_subst E m (pe_total E pe))\<rparr>"
  have cur: "pe_current E m ?pe" by (simp add: holds_verdicts_def pe_total_def)
  obtain b where check: "pe_checkForSemanticsChange_symbols E S pe = Some (Some b, ?pe)"
    using pe_check_verdicts [OF assms] by blast
  obtain q pe' where "pe_specializeProgram E p ?pe = (q, pe')" by (cases "pe_specializeProgram E p ?pe")
  with check cur pe_specialize_current [OF this cur] show ?thesis
    by (cases b) (auto simp: specialize_if_changed_def analysis_simps)
qed

lemma pe_update_current:
  assumes "sound_environment zeval E" and "annotations_ok m" and "pe_current E m pe"
    and "covered_by E pe (pe_convertControlPlaneUpdate E u pe)"
  shows "\<exists>r pe'. processControlPlaneUpdate (PartialEvaluation_analysis E) p u pe = Some (r, pe') \<and>
    (fst (pe_convertControlPlaneUpdate E u pe) \<noteq> None \<longrightarrow> pe_current E m pe') \<and>
    (fst (pe_convertControlPlaneUpdate E u pe) = None \<longrightarrow> r = Nullopt)"
proof -
  obtain c pe1 where conv: "pe_convertControlPlaneUpdate E u pe = (c, pe1)" by (cases "pe_convertControlPlaneUpdate E u pe")
  show ?thesis
  proof (cases c)
    case (Some S)
    then have "holds_verdicts E m (pe_total E pe) pe1" using pe_convert_verdicts [OF assms(3)] conv by blast
    from pe_changed_current [OF assms(1,2) this, of S p] assms(4) conv Some show ?thesis
      by (auto simp: processControlPlaneUpdate_def analysis_simps covered_by_def)
  qed (use conv in \<open>simp add: processControlPlaneUpdate_def analysis_simps\<close>)
qed

lemma pe_updates_current:
  assumes "sound_environment zeval E" and "annotations_ok m" and "pe_current E m pe"
    and "covered_by E pe (convert_updates (PartialEvaluation_analysis E) us [] pe)"
  shows "\<exists>r pe'. processControlPlaneUpdates True (PartialEvaluation_analysis E) p us pe = Some (r, pe') \<and>
    (fst (convert_updates (PartialEvaluation_analysis E) us [] pe) \<noteq> None \<longrightarrow> pe_current E m pe') \<and>
    (fst (convert_updates (PartialEvaluation_analysis E) us [] pe) = None \<longrightarrow> r = Nullopt)"
proof -
  obtain c pe1 where conv: "convert_updates (PartialEvaluation_analysis E) us [] pe = (c, pe1)"
    by (cases "convert_updates (PartialEvaluation_analysis E) us [] pe")
  show ?thesis
  proof (cases c)
    case (Some S)
    then have "holds_verdicts E m (pe_total E pe) pe1" using convert_updates_verdicts [OF assms(3)] conv by blast
    from pe_changed_current [OF assms(1,2) this, of S p] assms(4) conv Some show ?thesis
      by (auto simp: processControlPlaneUpdates_def covered_by_def)
  qed (use conv in \<open>simp add: processControlPlaneUpdates_def\<close>)
qed

text \<open>The states a service with this analysis goes through as long as every update is accepted.\<close>

inductive served :: "'z pe_environment \<Rightarrow> NodeAnnotationMap \<Rightarrow> P4Program \<Rightarrow>
    (ControlPlaneUpdate, P4Program, 'z PartialEvaluation) FlayServiceBase \<Rightarrow> bool"
  for E m original where
  served_start:
    "pe_current E m pe \<Longrightarrow> pe_specializeProgram E original pe = (Some p, pe') \<Longrightarrow>
     served E m original (mk_FlayServiceBase original midEnd [(name, PartialEvaluation_analysis E, pe)])"
| served_update:
    "served E m original s \<Longrightarrow> fs_incrementalAnalysisMap s = [(name, PartialEvaluation_analysis E, pe)] \<Longrightarrow>
     covered_by E pe (pe_convertControlPlaneUpdate E u pe) \<Longrightarrow>
     fs_processControlPlaneUpdate u s = Some (True, s') \<Longrightarrow> served E m original s'"
| served_updates:
    "served E m original s \<Longrightarrow> fs_incrementalAnalysisMap s = [(name, PartialEvaluation_analysis E, pe)] \<Longrightarrow>
     covered_by E pe (convert_updates (PartialEvaluation_analysis E) us [] pe) \<Longrightarrow>
     fs_processControlPlaneUpdates True us s = Some (True, s') \<Longrightarrow> served E m original s'"

lemma process_one_state:
  assumes "process_analyses step e [(name, A, a)] p q n h = Some (True, as, q', n', h')"
  shows "\<exists>r a'. step A p a = Some (r, a') \<and> r \<noteq> Nullopt \<and> as = [(name, A, a')]"
proof -
  from assms obtain r a' where step: "step A p a = Some (r, a')" by (auto simp: assign_or_return_Some)
  with assms show ?thesis by (cases r) auto
qed

lemma served_invariant:
  assumes "sound_environment zeval E" and "annotations_ok m" and "served E m original s"
  shows "\<exists>name pe. fs_incrementalAnalysisMap s = [(name, PartialEvaluation_analysis E, pe)] \<and>
    pe_current E m pe \<and> fs_originalProgram s = original \<and> pe.up_to_date E s"
  using assms(3)
proof induction
  case (served_start pe p pe' midEnd name)
  have "pe.up_to_date E (mk_FlayServiceBase original midEnd [(name, PartialEvaluation_analysis E, pe)])"
    using served_start(2) holds_verdicts_good [OF assms(2) served_start(1)]
    by (intro pe.service_start) (simp_all add: analysis_simps)
  with pe_specialize_current [OF served_start(2,1)] served_start(2) show ?case
    by (simp add: mk_FlayServiceBase_def fs_specializeProgram_def analysis_simps)
next
  case (served_update s name pe u s')
  then have cur: "pe_current E m pe" and orig: "fs_originalProgram s = original" and up: "pe.up_to_date E s" by auto
  from served_update.hyps(2,4) obtain as q n h where loop:
    "process_analyses (\<lambda>A program. processControlPlaneUpdate A program u) True
      [(name, PartialEvaluation_analysis E, pe)] (fs_originalProgram s) (fs_optimizedProgram s)
      (fs_respecializationCount s) False = Some (True, as, q, n, h)" and s': "fs_incrementalAnalysisMap s' = as"
    by (auto simp: fs_processControlPlaneUpdate_def after_analyses_def Let_def simp del: process_analyses.simps)
  from process_one_state [OF loop] pe_update_current [OF assms(1,2) cur served_update.hyps(3), of "fs_originalProgram s"]
  have "\<exists>pe'. as = [(name, PartialEvaluation_analysis E, pe')] \<and> pe_current E m pe'" by auto
  with s' pe.service_update [OF up served_update.hyps(4)] orig show ?case by auto
next
  case (served_updates s name pe us s')
  then have cur: "pe_current E m pe" and orig: "fs_originalProgram s = original" and up: "pe.up_to_date E s" by auto
  from served_updates.hyps(2,4) obtain as q n h where loop:
    "process_analyses (\<lambda>A program. processControlPlaneUpdates True A program us) False
      [(name, PartialEvaluation_analysis E, pe)] (fs_originalProgram s) (fs_optimizedProgram s)
      (fs_respecializationCount s) False = Some (True, as, q, n, h)" and s': "fs_incrementalAnalysisMap s' = as"
    by (auto simp: fs_processControlPlaneUpdates_def after_analyses_def Let_def simp del: process_analyses.simps)
  from process_one_state [OF loop] pe_updates_current [OF assms(1,2) cur served_updates.hyps(3), of "fs_originalProgram s"]
  have "\<exists>pe'. as = [(name, PartialEvaluation_analysis E, pe')] \<and> pe_current E m pe'" by auto
  with s' pe.service_updates [OF up served_updates.hyps(4)] orig show ?case by auto
qed

text \<open>
  Claim C5. The service refines specializing from scratch: in every state that a service with the
  partial evaluation reaches by accepted updates, one at a time or in batches, whose reported symbols
  cover what they change, the program it holds is the one that deciding every node for the current
  configuration and specializing the original program would give.
\<close>

theorem service_tracks_configuration:
  assumes "sound_environment zeval E" and "annotations_ok m" and "served E m original s"
  shows "\<exists>name pe. fs_incrementalAnalysisMap s = [(name, PartialEvaluation_analysis E, pe)] \<and>
    fs_optimizedProgram s = specialized_for E m (pe_total E pe) original"
proof -
  obtain name pe where s: "fs_incrementalAnalysisMap s = [(name, PartialEvaluation_analysis E, pe)]"
    "pe_current E m pe" "fs_originalProgram s = original" "pe.up_to_date E s"
    using served_invariant [OF assms] by blast
  from s(1,4) have "fs_optimizedProgram s = pe_result E (fs_originalProgram s) pe"
    by (auto simp: pe.up_to_date_def)
  with s holds_verdicts_result [OF s(2)] show ?thesis by auto
qed


text \<open>A program with a branch that is taken when a parser value set is configured.\<close>

definition demo_environment :: "expr pe_environment" where
  "demo_environment =
     \<lparr>en_hash = example_hash, en_less = literal_less, en_backend = ir_backend, en_reader = ir_reader,
      en_compiler = example_compiler, en_symbols = example_symbols, en_p4Info = example_info False MT_EXACT,
      en_type = (\<lambda>n. Type_Boolean), en_refMap = Map.empty, en_skipParsers = False\<rparr>"

definition demo_program :: P4Program where
  "demo_program = [P4Control [SIf (Node 3 0) (PPath (Node 4 0) Type_Boolean ''c'') 
     (SAssign (PPath (Node 5 0) Type_Boolean ''d'') (PLit (BoolLiteral True))) None]]"

definition demo_state :: "expr PartialEvaluation" where
  "demo_state =
     \<lparr>pv_controlPlaneConstraints = [(''v'', ParserValueSetItem ''v'')], pv_z3Cache = Map.empty,
      pv_reachabilityMap = Z3SolverReachability (decided_reach demo_environment example_annotations
        [(getParserValueSetConfigured ''v'', BoolLiteral False)]),
      pv_substitutionMap = Z3SolverSubstitution (decided_subst demo_environment example_annotations
        [(getParserValueSetConfigured ''v'', BoolLiteral False)]), pv_errors = False\<rparr>"

lemma demo_sound: "sound_environment eval demo_environment"
  by (simp add: sound_environment_def demo_environment_def ir_reading.z3_reading_axioms)

lemma demo_total: "pe_total demo_environment demo_state = [(getParserValueSetConfigured ''v'', BoolLiteral False)]"
  by (simp add: pe_total_def demo_environment_def demo_state_def example_total)

lemma demo_current: "pe_current demo_environment example_annotations demo_state"
  unfolding demo_total by (simp add: holds_verdicts_def demo_state_def)

lemma demo_specialized:
  "specialized_for demo_environment example_annotations [(getParserValueSetConfigured ''v'', BoolLiteral False)]
     demo_program =
   [P4Control [SIf (Node 3 0) (PLNot (PPath (Node 4 0) Type_Boolean ''c'')) SEmpty None]]"
proof -
  have "isNodeReachable (decided_reach demo_environment example_annotations
      [(getParserValueSetConfigured ''v'', BoolLiteral False)]) (Node 3 0) = Some False"
    using example_verdict by (simp add: decided_reach_def demo_environment_def)
  then show ?thesis
    by (simp add: specialized_for_def specialize_program_def specialize_part_def demo_program_def
        FlaySpecializer_def elim_if_def replacement_def is_Type_Bits_def demo_environment_def)
qed

lemma demo_specializes:
  "\<exists>pe'. pe_specializeProgram demo_environment demo_program demo_state =
     (Some [P4Control [SIf (Node 3 0) (PLNot (PPath (Node 4 0) Type_Boolean ''c'')) SEmpty None]], pe')"
proof -
  have "\<not> specialize_error (en_skipParsers demo_environment) (en_refMap demo_environment)
      (abstract_isNodeReachable (pv_reachabilityMap demo_state))
      (abstract_isExpressionConstant (pv_substitutionMap demo_state)) demo_program"
    by (auto simp: specialize_error_def demo_program_def specialize_stmt_error_def elim_if_def
        split: option.splits if_splits prod.splits)
  moreover have "\<not> pv_errors demo_state" by (simp add: demo_state_def)
  ultimately show ?thesis
    using holds_verdicts_result [OF demo_current, of demo_program]
    by (simp add: pe_specializeProgram_def demo_total demo_specialized)
qed

lemma demo_served:
  "served demo_environment example_annotations demo_program
     (mk_FlayServiceBase demo_program demo_program [(''pe'', PartialEvaluation_analysis demo_environment, demo_state)])"
  using demo_specializes by (blast intro: served_start [OF demo_current])

theorem service_tracks_configuration_witness:
  "fs_optimizedProgram (mk_FlayServiceBase demo_program demo_program
      [(''pe'', PartialEvaluation_analysis demo_environment, demo_state)]) =
     [P4Control [SIf (Node 3 0) (PLNot (PPath (Node 4 0) Type_Boolean ''c'')) SEmpty None]]"
proof -
  let ?s = "mk_FlayServiceBase demo_program demo_program
    [(''pe'', PartialEvaluation_analysis demo_environment, demo_state)]"
  obtain name pe where s: "fs_incrementalAnalysisMap ?s = [(name, PartialEvaluation_analysis demo_environment, pe)]"
    "fs_optimizedProgram ?s = specialized_for demo_environment example_annotations (pe_total demo_environment pe) demo_program"
    using service_tracks_configuration [OF demo_sound example_annotations_ok demo_served] by blast
  from s(1) demo_specializes have "pe_total demo_environment pe = pe_total demo_environment demo_state"
    by (auto simp: mk_FlayServiceBase_def fs_specializeProgram_def analysis_simps pe_specializeProgram_def Let_def
        pe_total_def split: if_splits)
  with s(2) demo_total demo_specialized show ?thesis by simp
qed

lemma initialize_current:
  assumes "annotations_ok m" and "computeControlPlaneConstraints E defaults config c = (Some constraints, c')"
  shows "\<exists>pe. pe_initialize E kZ3Precomputed defaults config c m = Some (True, Some pe) \<and>
    pe_current E m pe \<and> pv_controlPlaneConstraints pe = constraints \<and> pv_z3Cache pe = c' \<and> \<not> pv_errors pe"
proof -
  define pe where "pe = \<lparr>pv_controlPlaneConstraints = constraints, pv_z3Cache = c',
    pv_reachabilityMap = initializeReachabilityMap E kZ3Precomputed m,
    pv_substitutionMap = initializeSubstitutionMap E kZ3Precomputed m, pv_errors = False\<rparr>"
  note init = z3_reach_initial [OF assms(1), of "en_backend E" "en_reader E"]
    z3_subst_initial [OF assms(1), of "en_backend E" "en_reader E"]
  have "\<exists>b. pe_checkForSemanticsChange E pe = Some (Some b,
      pe\<lparr>pv_reachabilityMap := Z3SolverReachability (decided_reach E m (pe_total E pe)),
         pv_substitutionMap := Z3SolverSubstitution (decided_subst E m (pe_total E pe))\<rparr>)"
    by (simp add: pe_checkForSemanticsChange_def recompute_both_def abstract_recomputeReachability_def
        abstract_recomputeSubstitution_def initializeReachabilityMap_def initializeSubstitutionMap_def pe_def init
        pe_total_def decided_reach_def decided_subst_def Let_def)
  then show ?thesis
    using assms(2) by (auto simp: pe_initialize_def pe_def holds_verdicts_def pe_total_def)
qed



end
