(* ===== verification/ServiceHistory.thy ===== *)
theory ServiceHistory
  imports PartialEvaluation
begin

text \<open>
  What happens to the program over the life of a service: any sequence of the calls its users make,
  single updates, batches with and without the check of symbols, and specializing again, accepted or
  not. The write request of \<open>grpc_service/flay_grpc_service.cpp\<close> is such a batch, and so is every
  file the service wrappers process.
\<close>

section \<open>Calls of a service\<close>

datatype 'u service_call = Update 'u | Batch bool "'u list" | Respecialize

definition service_step ::
  "'u service_call \<Rightarrow> ('u, 'p, 'a) FlayServiceBase \<Rightarrow> (bool \<times> ('u, 'p, 'a) FlayServiceBase) option" where
  "service_step c s =
     (case c of
        Update u \<Rightarrow> fs_processControlPlaneUpdate u s
      | Batch useSymbolSet us \<Rightarrow> fs_processControlPlaneUpdates useSymbolSet us s
      | Respecialize \<Rightarrow> Some (fs_specializeProgram s))"

text \<open>
  The states a service reaches by calls of some kind, whether they succeed or fail. A call that does not
  return leads nowhere.
\<close>

inductive service_run ::
  "('u service_call \<Rightarrow> bool) \<Rightarrow> ('u, 'p, 'a) FlayServiceBase \<Rightarrow> ('u, 'p, 'a) FlayServiceBase \<Rightarrow> bool"
  for allowed s where
  run_start: "service_run allowed s s"
| run_call: "service_run allowed s s1 \<Longrightarrow> allowed c \<Longrightarrow> service_step c s1 = Some (ok, s2) \<Longrightarrow> service_run allowed s s2"

abbreviation any_call :: "'u service_call \<Rightarrow> bool" where
  "any_call c \<equiv> True"

definition without_check :: "'u service_call \<Rightarrow> bool" where
  "without_check c \<longleftrightarrow> (\<exists>us. c = Batch False us)"

lemma service_run_prepend:
  assumes "service_run allowed s1 s2" and "allowed c" and "service_step c s = Some (ok, s1)"
  shows "service_run allowed s s2"
  using assms(1)
proof induction
  case run_start
  show ?case using service_run.run_call [of allowed s s c ok s1, OF service_run.run_start assms(2,3)] .
next
  case (run_call s1 c ok s2)
  then show ?case by (blast intro: service_run.run_call)
qed

text \<open>The batch of a write request, and the loop of a wrapper over its files, are runs.\<close>

definition Write ::
  "bool \<Rightarrow> (Entity \<times> Update_Type) list \<Rightarrow> (ControlPlaneUpdate, 'p, 'a) FlayServiceBase \<Rightarrow>
   (bool \<times> (ControlPlaneUpdate, 'p, 'a) FlayServiceBase) option" where
  "Write useSymbolSet request s =
     fs_processControlPlaneUpdates useSymbolSet (map (\<lambda>(entity, ty). P4RuntimeControlPlaneUpdate entity ty) request) s"

lemma Write_run: "Write sy request s = Some (ok, s') \<Longrightarrow> service_run any_call s s'"
  unfolding Write_def by (rule run_call [OF run_start, of _ "Batch sy _"]) (simp_all add: service_step_def)

lemma run_updates_run:
  "run_updates sy files outputs s = Some (ok, outputs', s') \<Longrightarrow>
   service_run any_call s s' \<and>
   (\<forall>output \<in> set outputs'. output \<in> set outputs \<or>
      (\<exists>s1. service_run any_call s s1 \<and> snd output = fs_optimizedProgram s1))"
proof (induction files arbitrary: outputs s)
  case Nil
  then show ?case by (auto intro: run_start)
next
  case (Cons fu files)
  obtain fname us where fu: "fu = (fname, us)" by (cases fu)
  from Cons.prems fu obtain b s1 where step: "service_step (Batch sy us) s = Some (b, s1)"
    and rest: "(if \<not> b then Some (False, outputs, s1)
      else run_updates sy files (outputs @ [(fname, fs_optimizedProgram s1)]) s1) = Some (ok, outputs', s')"
    by (auto simp: assign_or_return_Some service_step_def)
  have s1: "service_run any_call s s1" by (rule run_call [OF run_start _ step]) simp
  have later: "service_run any_call s s2" if "service_run any_call s1 s2" for s2
    by (rule service_run_prepend [OF that _ step]) simp
  show ?case
  proof (cases b)
    case True
    with rest have "run_updates sy files (outputs @ [(fname, fs_optimizedProgram s1)]) s1 = Some (ok, outputs', s')" by simp
    from Cons.IH [OF this] s1 later show ?thesis by (fastforce intro: run_start)
  qed (use rest s1 in auto)
qed

section \<open>Analyses that report errors\<close>

text \<open>What a call does to the state of the only analysis of a service, and to the program.\<close>

definition analysis_step ::
  "('u, 'p, 'a) IncrementalAnalysis \<Rightarrow> 'p \<Rightarrow> 'u service_call \<Rightarrow> 'a \<Rightarrow> ('p outcome \<times> 'a) option" where
  "analysis_step A p c a =
     (case c of
        Update u \<Rightarrow> processControlPlaneUpdate A p u a
      | Batch useSymbolSet us \<Rightarrow> processControlPlaneUpdates useSymbolSet A p us a
      | Respecialize \<Rightarrow> Some (apfst outcome_of (specializeProgram A p a)))"

lemma service_step_analysis:
  assumes s: "fs_incrementalAnalysisMap s = [(name, A, a)]" and step: "service_step c s = Some (ok, s')"
  shows "\<exists>r a'. analysis_step A (fs_originalProgram s) c a = Some (r, a') \<and>
    fs_incrementalAnalysisMap s' = [(name, A, a')] \<and> fs_originalProgram s' = fs_originalProgram s \<and>
    fs_optimizedProgram s' = (case r of Program q \<Rightarrow> q | _ \<Rightarrow> fs_optimizedProgram s)"
proof -
  from s step obtain r a' where r: "analysis_step A (fs_originalProgram s) c a = Some (r, a')"
    by (cases c; cases "apfst outcome_of (specializeProgram A (fs_originalProgram s) a)")
      (auto simp: service_step_def analysis_step_def fs_processControlPlaneUpdate_def
        fs_processControlPlaneUpdates_def Let_def assign_or_return_Some)
  show ?thesis
  proof (cases c)
    case Respecialize
    with s step r show ?thesis
      by (intro exI [of _ r] exI [of _ a'])
        (auto simp: service_step_def analysis_step_def fs_specializeProgram_def outcome_of_def split: option.splits prod.splits)
  next
    case (Update u)
    with s step r show ?thesis
      by (intro exI [of _ r] exI [of _ a']; cases r)
        (auto simp: service_step_def analysis_step_def fs_processControlPlaneUpdate_def after_analyses_def Let_def)
  next
    case (Batch sy us)
    with s step r show ?thesis
      by (intro exI [of _ r] exI [of _ a']; cases r)
        (auto simp: service_step_def analysis_step_def fs_processControlPlaneUpdates_def after_analyses_def Let_def)
  qed
qed

lemma outcome_of_not_Nullptr [simp]: "outcome_of q \<noteq> Nullptr"
  by (simp add: outcome_of_def split: option.split)

text \<open>
  An analysis with errors never gives a program, and errors stay. A refused update and a failed
  specialization are errors.
\<close>

locale error_analysis =
  fixes A :: "('u, 'p, 'a) IncrementalAnalysis" and failed :: "'a \<Rightarrow> bool"
  assumes convert_failed: "convertControlPlaneUpdate A u a = (r, a') \<Longrightarrow> failed a' \<longleftrightarrow> failed a \<or> r = None"
    and check_failed: "checkForSemanticsChange A S a = Some (c, a') \<Longrightarrow> failed a' \<longleftrightarrow> failed a"
    and specialize_failed: "specializeProgram A p a = (q, a') \<Longrightarrow> (failed a' \<longleftrightarrow> q = None) \<and> (failed a \<longrightarrow> q = None)"
begin

definition stuck :: "'p outcome \<Rightarrow> 'a \<Rightarrow> bool" where
  "stuck r a \<longleftrightarrow> failed a \<and> (\<forall>q. r \<noteq> Program q)"

lemma convert_updates_failed:
  "convert_updates A us S a = (r, a') \<Longrightarrow> failed a' \<longleftrightarrow> failed a \<or> r = None"
proof (induction us arbitrary: S a)
  case (Cons u us)
  obtain T b where conv: "convertControlPlaneUpdate A u a = (T, b)" by (cases "convertControlPlaneUpdate A u a")
  with Cons convert_failed [OF conv] show ?case by (cases T) auto
qed auto

lemma specialize_stuck:
  assumes "failed a" shows "stuck (fst (apfst outcome_of (specializeProgram A p a))) (snd (specializeProgram A p a))"
  using assms specialize_failed [of p a] by (cases "specializeProgram A p a") (auto simp: stuck_def outcome_of_def)

lemma changed_stuck:
  assumes "failed a" and "specialize_if_changed A p S a = Some (r, a')" shows "stuck r a'"
proof -
  from assms(2) obtain c b where check: "checkForSemanticsChange A S a = Some (c, b)"
    and r: "(case c of None \<Rightarrow> (Nullopt, b) | Some False \<Rightarrow> (Nullptr, b)
      | Some True \<Rightarrow> apfst outcome_of (specializeProgram A p b)) = (r, a')"
    by (auto simp: specialize_if_changed_def assign_or_return_Some)
  from check_failed [OF check] assms(1) have b: "failed b" by simp
  with r specialize_stuck [OF b, of p] show ?thesis
    by (cases "specializeProgram A p b") (auto simp: stuck_def split: option.splits bool.splits)
qed

lemma analysis_step_stuck:
  assumes "failed a" and "analysis_step A p c a = Some (r, a')" shows "stuck r a'"
proof (cases c)
  case (Update u)
  obtain S b where conv: "convertControlPlaneUpdate A u a = (S, b)" by (cases "convertControlPlaneUpdate A u a")
  with convert_failed [OF conv] assms(1) have b: "failed b" by simp
  with Update conv assms(2) changed_stuck [OF b] show ?thesis
    by (cases S) (auto simp: analysis_step_def processControlPlaneUpdate_def stuck_def)
next
  case (Batch sy us)
  obtain S b where conv: "convert_updates A us [] a = (S, b)" by (cases "convert_updates A us [] a")
  with convert_updates_failed [OF conv] assms(1) have b: "failed b" by simp
  with Batch conv assms(2) changed_stuck [OF b] specialize_stuck [OF b, of p] show ?thesis
    by (cases S; cases sy; cases "specializeProgram A p b")
      (auto simp: analysis_step_def processControlPlaneUpdates_def stuck_def)
next
  case Respecialize
  with assms specialize_stuck [OF assms(1), of p] show ?thesis
    by (cases "specializeProgram A p a") (auto simp: analysis_step_def)
qed

text \<open>A service whose analysis has errors keeps its program for good.\<close>

definition blocked :: "'p \<Rightarrow> ('u, 'p, 'a) FlayServiceBase \<Rightarrow> bool" where
  "blocked p s \<longleftrightarrow>
     fs_optimizedProgram s = p \<and> (\<exists>name a. fs_incrementalAnalysisMap s = [(name, A, a)] \<and> failed a)"

lemma blocked_step:
  assumes "blocked p s" and "service_step c s = Some (ok, s')" shows "blocked p s'"
proof -
  from assms(1) obtain name a where s: "fs_incrementalAnalysisMap s = [(name, A, a)]" "failed a"
    "fs_optimizedProgram s = p" by (auto simp: blocked_def)
  from service_step_analysis [OF s(1) assms(2)] obtain r a' where
    r: "analysis_step A (fs_originalProgram s) c a = Some (r, a')" "fs_incrementalAnalysisMap s' = [(name, A, a')]"
    "fs_optimizedProgram s' = (case r of Program q \<Rightarrow> q | _ \<Rightarrow> fs_optimizedProgram s)" by blast
  with analysis_step_stuck [OF s(2) r(1)] s(3) show ?thesis by (cases r) (auto simp: blocked_def stuck_def)
qed

lemma blocked_run: "service_run allowed s s' \<Longrightarrow> blocked p s \<Longrightarrow> blocked p s'"
  by (induction rule: service_run.induct) (auto intro: blocked_step)

text \<open>A call with a refused update fails and blocks the service.\<close>

definition refused :: "'u service_call \<Rightarrow> 'a \<Rightarrow> bool" where
  "refused c a \<longleftrightarrow>
     (case c of
        Update u \<Rightarrow> fst (convertControlPlaneUpdate A u a) = None
      | Batch useSymbolSet us \<Rightarrow> fst (convert_updates A us [] a) = None
      | Respecialize \<Rightarrow> False)"

lemma refused_blocks:
  assumes s: "fs_incrementalAnalysisMap s = [(name, A, a)]" and "refused c a"
  shows "\<exists>s1. service_step c s = Some (False, s1) \<and> blocked (fs_optimizedProgram s) s1"
proof (cases c)
  case (Update u)
  with assms(2) obtain b where b: "convertControlPlaneUpdate A u a = (None, b)"
    by (cases "convertControlPlaneUpdate A u a") (auto simp: refused_def)
  from s convert_failed [OF b] show ?thesis
    by (simp add: service_step_def Update fs_processControlPlaneUpdate_def processControlPlaneUpdate_def b
        after_analyses_def Let_def blocked_def)
next
  case (Batch sy us)
  with assms(2) obtain b where b: "convert_updates A us [] a = (None, b)"
    by (cases "convert_updates A us [] a") (auto simp: refused_def)
  from s convert_updates_failed [OF b] show ?thesis
    by (simp add: service_step_def Batch fs_processControlPlaneUpdates_def processControlPlaneUpdates_def b
        after_analyses_def Let_def blocked_def)
qed (use assms(2) in \<open>simp add: refused_def\<close>)

end

section \<open>The program of a service\<close>

text \<open>A check that never fails keeps the program up to date as long as there are no errors.\<close>

locale reporting_analysis = incremental_analysis A good result + error_analysis A failed
  for A :: "('u, 'p, 'a) IncrementalAnalysis" and good :: "'a \<Rightarrow> bool" and result :: "'p \<Rightarrow> 'a \<Rightarrow> 'p"
    and failed :: "'a \<Rightarrow> bool" +
  assumes check_decides: "good a \<Longrightarrow> checkForSemanticsChange A S a = Some (c, a') \<Longrightarrow> c \<noteq> None"
begin

definition settled :: "('u, 'p, 'a) FlayServiceBase \<Rightarrow> bool" where
  "settled s \<longleftrightarrow>
     (\<exists>name a. fs_incrementalAnalysisMap s = [(name, A, a)] \<and> good a \<and>
        (failed a \<or> fs_optimizedProgram s = result (fs_originalProgram s) a))"

definition reported :: "'p \<Rightarrow> 'a \<Rightarrow> 'p outcome \<Rightarrow> 'a \<Rightarrow> bool" where
  "reported p a r a' \<longleftrightarrow> good a' \<and>
     (\<not> failed a' \<longrightarrow> (r = Nullptr \<and> result p a' = result p a) \<or> r = Program (result p a'))"

lemma specialize_reported:
  assumes "good a" and "specializeProgram A p a = (r, a')" shows "reported p a (outcome_of r) a'"
  using specialize_good [OF assms] specialize_failed [OF assms(2)] specialize_result [of p a _ a'] assms(2)
  by (cases r) (auto simp: reported_def outcome_of_def)

lemma changed_reported:
  assumes good: "good a" and "specialize_if_changed A p S a = Some (r, a')" shows "reported p a r a'"
proof -
  from assms(2) obtain c b where check: "checkForSemanticsChange A S a = Some (c, b)"
    and r: "(case c of None \<Rightarrow> (Nullopt, b) | Some False \<Rightarrow> (Nullptr, b)
      | Some True \<Rightarrow> apfst outcome_of (specializeProgram A p b)) = (r, a')"
    by (auto simp: specialize_if_changed_def assign_or_return_Some)
  note b = check_good [OF good check]
  obtain q b' where spec: "specializeProgram A p b = (q, b')" by (cases "specializeProgram A p b")
  consider "c = Some False" | "c = Some True" using check_decides [OF good check] by (cases c) auto
  then show ?thesis
  proof cases
    case 1
    with r b check_result [OF good, of S b] check show ?thesis by (auto simp: reported_def)
  next
    case 2
    with r spec specialize_reported [OF b spec] show ?thesis by (auto simp: reported_def)
  qed
qed

lemma reported_after: "result p b = result p a \<Longrightarrow> reported p b r a' \<Longrightarrow> reported p a r a'"
  by (auto simp: reported_def)

lemma analysis_step_reported:
  assumes "good a" and "analysis_step A p c a = Some (r, a')" shows "reported p a r a'"
proof (cases c)
  case (Update u)
  obtain S b where conv: "convertControlPlaneUpdate A u a = (S, b)" by (cases "convertControlPlaneUpdate A u a")
  note b = convert_good [OF assms(1) conv] convert_result [OF conv] convert_failed [OF conv]
  with Update conv assms(2) changed_reported [OF b(1), of p] reported_after [OF b(2)] show ?thesis
    by (cases S) (auto simp: analysis_step_def processControlPlaneUpdate_def reported_def)
next
  case (Batch sy us)
  obtain S b where conv: "convert_updates A us [] a = (S, b)" by (cases "convert_updates A us [] a")
  have b: "good b" "result p b = result p a" "failed b \<longleftrightarrow> failed a \<or> S = None"
    using convert_updates_keep [OF assms(1) conv] convert_updates_failed [OF conv] by auto
  obtain q b' where spec: "specializeProgram A p b = (q, b')" by (cases "specializeProgram A p b")
  from Batch conv assms(2) b changed_reported [OF b(1), of p] specialize_reported [OF b(1) spec] reported_after [OF b(2)] spec
  show ?thesis
    by (cases S; cases sy) (auto simp: analysis_step_def processControlPlaneUpdates_def reported_def)
next
  case Respecialize
  obtain q b' where spec: "specializeProgram A p a = (q, b')" by (cases "specializeProgram A p a")
  with specialize_reported [OF assms(1) spec] assms(2) Respecialize show ?thesis by (simp add: analysis_step_def)
qed

lemma settled_step:
  assumes "settled s" and "service_step c s = Some (ok, s')" shows "settled s'"
proof -
  from assms(1) obtain name a where s: "fs_incrementalAnalysisMap s = [(name, A, a)]" "good a"
    "failed a \<or> fs_optimizedProgram s = result (fs_originalProgram s) a" by (auto simp: settled_def)
  from service_step_analysis [OF s(1) assms(2)] obtain r a' where
    r: "analysis_step A (fs_originalProgram s) c a = Some (r, a')" "fs_incrementalAnalysisMap s' = [(name, A, a')]"
    "fs_originalProgram s' = fs_originalProgram s"
    "fs_optimizedProgram s' = (case r of Program q \<Rightarrow> q | _ \<Rightarrow> fs_optimizedProgram s)" by blast
  from analysis_step_reported [OF s(2) r(1)] analysis_step_stuck [OF _ r(1)] s(3) r show ?thesis
    by (auto simp: settled_def reported_def stuck_def)
qed

lemma settled_run: "service_run allowed s s' \<Longrightarrow> settled s \<Longrightarrow> settled s'"
  by (induction rule: service_run.induct) (auto intro: settled_step)

lemma settled_start:
  assumes "good a" shows "settled (mk_FlayServiceBase original midEnd [(name, A, a)])"
proof -
  obtain r a' where r: "specializeProgram A original a = (r, a')" by (cases "specializeProgram A original a")
  from specialize_reported [OF assms r] r show ?thesis
    by (cases r) (auto simp: settled_def reported_def mk_FlayServiceBase_def fs_specializeProgram_def outcome_of_def)
qed

text \<open>Without the check of the symbols, a batch specializes again for what the analysis held before.\<close>

lemma unchecked_step:
  assumes "settled s" and "service_step (Batch False us) s = Some (ok, s')"
  shows "fs_optimizedProgram s' = fs_optimizedProgram s"
proof -
  from assms(1) obtain name a where s: "fs_incrementalAnalysisMap s = [(name, A, a)]" "good a"
    "failed a \<or> fs_optimizedProgram s = result (fs_originalProgram s) a" by (auto simp: settled_def)
  from service_step_analysis [OF s(1) assms(2)] obtain r a' where
    r: "analysis_step A (fs_originalProgram s) (Batch False us) a = Some (r, a')"
    "fs_optimizedProgram s' = (case r of Program q \<Rightarrow> q | _ \<Rightarrow> fs_optimizedProgram s)" by blast
  obtain S b where conv: "convert_updates A us [] a = (S, b)" by (cases "convert_updates A us [] a")
  obtain q b' where spec: "specializeProgram A (fs_originalProgram s) b = (q, b')"
    by (cases "specializeProgram A (fs_originalProgram s) b")
  from r conv spec s convert_updates_keep [OF s(2) conv] convert_updates_failed [OF conv] specialize_failed [OF spec]
    specialize_result [of "fs_originalProgram s" b _ b']
  show ?thesis
    by (cases S; cases q) (auto simp: analysis_step_def processControlPlaneUpdates_def outcome_of_def)
qed

lemma unchecked_run: "service_run without_check s s' \<Longrightarrow> settled s \<Longrightarrow> fs_optimizedProgram s' = fs_optimizedProgram s"
proof (induction rule: service_run.induct)
  case (run_call s1 c ok s2)
  from run_call(2) obtain us where "c = Batch False us" by (auto simp: without_check_def)
  with unchecked_step settled_run [OF run_call(1,5)] run_call(3-5) show ?case by simp
qed simp

end

section \<open>The partial evaluation reports its errors\<close>

text \<open>A map knows every node its symbols name, so a recomputation for symbols never fails.\<close>

definition complete_map :: "'e specialization_map \<Rightarrow> bool" where
  "complete_map M \<longleftrightarrow> distinct (map fst (sm_map M)) \<and>
     (\<forall>k. set (symbol_nodes (sm_symbolMap M) k) \<subseteq> set (map fst (sm_map M)))"

lemma complete_map_cong:
  "map fst (sm_map M') = map fst (sm_map M) \<Longrightarrow> sm_symbolMap M' = sm_symbolMap M \<Longrightarrow>
   complete_map M' = complete_map M"
  by (simp add: complete_map_def del: set_map)

lemma recompute_nodes_known:
  "recompute_nodes f ns b m = Some (c, m') \<Longrightarrow>
   map fst m' = map fst m \<and> (set ns \<subseteq> set (map fst m) \<longrightarrow> c \<noteq> None)"
proof (induction ns arbitrary: b m)
  case (Cons n ns)
  show ?case
  proof (cases "map_find m n")
    case None
    with Cons.prems have "m' = m" by (simp add: compute_node_def)
    moreover from None have "n \<notin> set (map fst m)" using map_find_domain [of m n] by blast
    ultimately show ?thesis by simp
  next
    case (Some e)
    with Cons.prems obtain ch e' where
      "recompute_nodes f ns (b \<or> ch) (map_assign n e' m) = Some (c, m')"
      by (auto simp: compute_node_def split: option.splits)
    from Cons.IH [OF this] show ?thesis by (simp del: set_map)
  qed
qed auto

lemma recompute_targets_Some:
  "recompute_targets f ns M = Some (c, M') \<longleftrightarrow>
   (\<exists>m'. recompute_nodes f ns False (sm_map M) = Some (c, m') \<and> M' = M\<lparr>sm_map := m'\<rparr>)"
  by (auto simp: recompute_targets_def)

lemma recompute_targets_known:
  assumes "complete_map M" and "recompute_targets f (target_nodes (sm_symbolMap M) S) M = Some (c, M')"
  shows "complete_map M' \<and> c \<noteq> None"
proof -
  have "set (target_nodes (sm_symbolMap M) S) \<subseteq> set (map fst (sm_map M))"
    using assms(1) target_nodes_set unfolding complete_map_def by blast
  moreover obtain m' where "recompute_nodes f (target_nodes (sm_symbolMap M) S) False (sm_map M) = Some (c, m')"
    "M' = M\<lparr>sm_map := m'\<rparr>" using assms(2) by (auto simp: recompute_targets_Some)
  ultimately show ?thesis using recompute_nodes_known [of f _ False "sm_map M" c m'] assms(1)
    complete_map_cong [of M' M] by simp
qed

lemma recompute_targets_complete:
  "complete_map M \<Longrightarrow> recompute_targets f ns M = Some (c, M') \<Longrightarrow> complete_map M'"
  by (auto simp: recompute_targets_Some dest!: recompute_nodes_known intro: complete_map_cong [THEN iffD2])

definition reachability_complete :: "'z AbstractReachabilityMap \<Rightarrow> bool" where
  "reachability_complete M = (case M of Z3SolverReachability N \<Rightarrow> complete_map N | IRReachability N \<Rightarrow> complete_map N)"

definition substitution_complete :: "'z AbstractSubstitutionMap \<Rightarrow> bool" where
  "substitution_complete M = (case M of Z3SolverSubstitution N \<Rightarrow> complete_map N | IrSubstitution N \<Rightarrow> complete_map N)"

definition pe_complete :: "'z PartialEvaluation \<Rightarrow> bool" where
  "pe_complete pe \<longleftrightarrow>
     reachability_complete (pv_reachabilityMap pe) \<and> substitution_complete (pv_substitutionMap pe)"

lemma pe_complete_good: "pe_complete pe \<Longrightarrow> pe_good pe"
  by (auto simp: pe_complete_def pe_good_def reachability_complete_def substitution_complete_def reachability_good_def
      substitution_good_def complete_map_def split: AbstractReachabilityMap.splits AbstractSubstitutionMap.splits)

lemma reachability_known:
  assumes "reachability_complete (pv_reachabilityMap pe)" and "abstract_recomputeReachability_symbols E S pe = Some (c, M)"
  shows "reachability_complete M \<and> c \<noteq> None"
proof (cases "pv_reachabilityMap pe")
  case (Z3SolverReachability N)
  with assms show ?thesis
    by (auto simp: abstract_recomputeReachability_symbols_def reachability_complete_def recompute_defs
        dest: recompute_targets_known)
next
  case (IRReachability N)
  with assms show ?thesis
    by (auto simp: abstract_recomputeReachability_symbols_def reachability_complete_def recompute_defs assign_or_return_Some
        dest: recompute_targets_known)
qed

lemma substitution_known:
  assumes "substitution_complete (pv_substitutionMap pe)" and "abstract_recomputeSubstitution_symbols E S pe = Some (c, M)"
  shows "substitution_complete M \<and> c \<noteq> None"
proof (cases "pv_substitutionMap pe")
  case (Z3SolverSubstitution N)
  with assms show ?thesis
    by (auto simp: abstract_recomputeSubstitution_symbols_def substitution_complete_def recompute_defs
        dest: recompute_targets_known)
next
  case (IrSubstitution N)
  with assms show ?thesis
    by (auto simp: abstract_recomputeSubstitution_symbols_def substitution_complete_def recompute_defs assign_or_return_Some
        dest: recompute_targets_known)
qed

lemma pe_check_known:
  assumes "pe_complete pe" and "pe_checkForSemanticsChange_symbols E S pe = Some (c, pe')"
  shows "pe_complete pe' \<and> c \<noteq> None"
proof -
  note good = assms(1) [unfolded pe_complete_def]
  from assms(2) obtain q M where M: "abstract_recomputeReachability_symbols E S pe = Some (q, M)"
    by (auto simp: pe_checkForSemanticsChange_symbols_def recompute_both_def assign_or_return_Some)
  from reachability_known [OF _ M] good obtain b where reach: "reachability_complete M" "q = Some b" by auto
  with assms(2) M obtain t N where N: "abstract_recomputeSubstitution_symbols E S (pe\<lparr>pv_reachabilityMap := M\<rparr>) = Some (t, N)"
    and r: "c = map_option (\<lambda>s. b \<or> s) t" "pe' = pe\<lparr>pv_reachabilityMap := M, pv_substitutionMap := N\<rparr>"
    by (auto simp: pe_checkForSemanticsChange_symbols_def recompute_both_def assign_or_return_Some Let_def)
  from substitution_known [OF _ N] good reach r show ?thesis by (simp add: pe_complete_def)
qed

lemma pe_check_errors:
  assumes "pe_checkForSemanticsChange_symbols E S pe = Some (r, pe')" shows "pv_errors pe' = pv_errors pe"
proof -
  from assms obtain q M where M: "abstract_recomputeReachability_symbols E S pe = Some (q, M)"
    by (auto simp: pe_checkForSemanticsChange_symbols_def recompute_both_def assign_or_return_Some)
  show ?thesis
    using assms M by (cases q) (auto simp: pe_checkForSemanticsChange_symbols_def recompute_both_def
        assign_or_return_Some Let_def)
qed

lemma pe_convert_errors:
  "pe_convertControlPlaneUpdate E u pe = (r, pe') \<Longrightarrow> pv_errors pe' = (pv_errors pe \<or> r = None)"
  by (auto simp: pe_convertControlPlaneUpdate_def Let_def split: prod.splits if_splits)

interpretation pe_errors: error_analysis "PartialEvaluation_analysis E" pv_errors for E :: "'z pe_environment"
  by standard
    (auto simp: analysis_simps pe_specializeProgram_def Let_def dest: pe_convert_errors pe_check_errors split: if_splits)

interpretation pe_reporting: reporting_analysis "PartialEvaluation_analysis E" pe_complete "pe_result E" pv_errors
  for E :: "'z pe_environment"
proof
  fix a a' :: "'z PartialEvaluation" and u r and p
  assume "convertControlPlaneUpdate (PartialEvaluation_analysis E) u a = (r, a')"
  then have conv: "pe_convertControlPlaneUpdate E u a = (r, a')" by (simp add: analysis_simps)
  note maps = pe_convert_maps [OF conv]
  then show "pe_result E p a' = pe_result E p a" by (simp add: pe_result_def)
  show "pe_complete a'" if "pe_complete a" using maps that by (simp add: pe_complete_def)
next
  fix a a' :: "'z PartialEvaluation" and S c
  assume "checkForSemanticsChange (PartialEvaluation_analysis E) S a = Some (c, a')"
  then have check: "pe_checkForSemanticsChange_symbols E S a = Some (c, a')" by (simp add: analysis_simps)
  show "pe_complete a'" and "c \<noteq> None" if "pe_complete a" using pe_check_known [OF that check] by simp_all
next
  fix a a' :: "'z PartialEvaluation" and S p
  assume "pe_complete a" and "checkForSemanticsChange (PartialEvaluation_analysis E) S a = Some (Some False, a')"
  with pe_check_unchanged [OF pe_complete_good] have "a' = a" by (fastforce simp: analysis_simps)
  then show "pe_result E p a' = pe_result E p a" by simp
qed (auto simp: analysis_simps pe_specializeProgram_def Let_def pe_complete_def pe_result_def split: if_splits)

text \<open>The maps an initialization leaves are complete, whichever kind they are.\<close>

lemma covered_complete: "covers f m syms \<Longrightarrow> complete_map \<lparr>sm_map = map (\<lambda>(n, e). (n, g e)) m, sm_symbolMap = syms\<rparr>"
proof -
  assume cov: "covers f m syms"
  then have "distinct (map fst m)" by (auto simp: covers_def intro: map_sorted_distinct)
  moreover have "n \<in> set (map fst m)" if "n \<in> set (symbol_nodes syms k)" for n k
  proof -
    from cov that have "map_find m n \<noteq> None" unfolding covers_def by blast
    then show ?thesis by (simp only: map_find_domain)
  qed
  ultimately show ?thesis by (auto simp: complete_map_def comp_def split_beta)
qed

lemma initial_maps_complete:
  assumes "annotations_ok m"
  shows "reachability_complete (initializeReachabilityMap E mapType m)"
    and "substitution_complete (initializeSubstitutionMap E mapType m)"
proof -
  from assms have cov: "covers re_cond (na_reachabilityMap m) (na_reachabilitySymbolMap m)"
    "covers se_originalExpression (na_substitutionMap m) (na_expressionSymbolMap m)" by (simp_all add: annotations_ok_def)
  have same: "map (\<lambda>(n, e). (n, e)) l = l" for l :: "(node \<times> 'x) list" by simp
  show "reachability_complete (initializeReachabilityMap E mapType m)"
    using covered_complete [OF cov(1), of "mk_Z3ReachabilityExpression (en_backend E)"]
      covered_complete [OF cov(1), of "\<lambda>e. e"]
    by (simp add: reachability_complete_def initializeReachabilityMap_def mk_Z3SolverReachabilityMap_def mk_IRReachabilityMap_def)
  show "substitution_complete (initializeSubstitutionMap E mapType m)"
    using covered_complete [OF cov(2), of "mk_Z3SubstitutionExpression (en_backend E)"]
      covered_complete [OF cov(2), of "\<lambda>e. e"]
    by (simp add: substitution_complete_def initializeSubstitutionMap_def mk_Z3SolverSubstitutionMap_def mk_IrSubstitutionMap_def)
qed

lemma abstract_recompute_complete:
  assumes "pe_complete pe" and "pe_checkForSemanticsChange E pe = Some (c, pe')" shows "pe_complete pe'"
proof -
  have reach: "reachability_complete M" if "reachability_complete (pv_reachabilityMap pe)"
    "abstract_recomputeReachability E pe = Some (q, M)" for pe :: "'a PartialEvaluation" and q M
    using that by (cases "pv_reachabilityMap pe")
      (auto simp: abstract_recomputeReachability_def reachability_complete_def z3_recomputeReachability_def
        recomputeReachability_def assign_or_return_Some dest: recompute_targets_complete)
  have subst: "substitution_complete N" if "substitution_complete (pv_substitutionMap pe)"
    "abstract_recomputeSubstitution E pe = Some (q, N)" for pe :: "'a PartialEvaluation" and q N
    using that by (cases "pv_substitutionMap pe")
      (auto simp: abstract_recomputeSubstitution_def substitution_complete_def z3_recomputeSubstitution_def
        recomputeSubstitution_def assign_or_return_Some dest: recompute_targets_complete)
  note good = assms(1) [unfolded pe_complete_def]
  from assms(2) obtain q M where M: "abstract_recomputeReachability E pe = Some (q, M)"
    by (auto simp: pe_checkForSemanticsChange_def recompute_both_def assign_or_return_Some)
  note rM = reach [OF conjunct1 [OF good] M]
  show ?thesis
  proof (cases q)
    case None
    with assms(2) M good rM show ?thesis
      by (auto simp: pe_checkForSemanticsChange_def recompute_both_def pe_complete_def)
  next
    case (Some b)
    with assms(2) M obtain t N where N: "abstract_recomputeSubstitution E (pe\<lparr>pv_reachabilityMap := M\<rparr>) = Some (t, N)"
      and r: "pe' = pe\<lparr>pv_reachabilityMap := M, pv_substitutionMap := N\<rparr>"
      by (auto simp: pe_checkForSemanticsChange_def recompute_both_def assign_or_return_Some Let_def)
    from subst [OF _ N] good rM r show ?thesis by (simp add: pe_complete_def)
  qed
qed

lemma pe_initialize_complete:
  assumes "annotations_ok m" and "pe_initialize E mapType defaults config c m = Some (ok, Some pe)"
  shows "pe_complete pe"
proof -
  from assms(2) obtain constraints c' r where "pe_checkForSemanticsChange E
      \<lparr>pv_controlPlaneConstraints = constraints, pv_z3Cache = c',
       pv_reachabilityMap = initializeReachabilityMap E mapType m,
       pv_substitutionMap = initializeSubstitutionMap E mapType m, pv_errors = False\<rparr> = Some (r, pe)"
    by (auto simp: pe_initialize_def split: prod.splits option.splits)
  then show ?thesis
    by (rule abstract_recompute_complete [rotated]) (simp add: pe_complete_def initial_maps_complete [OF assms(1)])
qed

section \<open>Updates that do not reach the program\<close>

text \<open>
  Claim C35. With the option not to use symbol sets the service never follows the configuration: start
  a service with an initialized analysis and let it go through any calls, single updates, batches with
  or without the check and new specializations, accepted or refused. However many batches it then
  processes without the check, accepted or not, its program stays as it is, because the maps are
  recomputed only inside the check that the option turns off.
\<close>

theorem unchecked_batches_keep_program:
  assumes "annotations_ok m" and "pe_initialize E mapType defaults config c m = Some (ok, Some pe)"
    and "service_run any_call (mk_FlayServiceBase original midEnd [(name, PartialEvaluation_analysis E, pe)]) s"
    and "service_run without_check s s'"
  shows "fs_optimizedProgram s' = fs_optimizedProgram s"
proof -
  have "pe_reporting.settled E s"
    using pe_reporting.settled_run [OF assms(3)] pe_reporting.settled_start pe_initialize_complete [OF assms(1,2)] by blast
  then show ?thesis by (rule pe_reporting.unchecked_run [OF assms(4)])
qed

text \<open>A table whose configuration a message changes.\<close>

definition demo_table_state :: "expr PartialEvaluation" where
  "demo_table_state =
     (let pe = \<lparr>pv_controlPlaneConstraints = example_objects, pv_z3Cache = Map.empty,
        pv_reachabilityMap = IRReachability (mk_IRReachabilityMap example_annotations),
        pv_substitutionMap = IrSubstitution (mk_IrSubstitutionMap example_annotations), pv_errors = False\<rparr>;
          s = pe_total demo_environment pe in
      pe\<lparr>pv_reachabilityMap := Z3SolverReachability (decided_reach demo_environment example_annotations s),
         pv_substitutionMap := Z3SolverSubstitution (decided_subst demo_environment example_annotations s)\<rparr>)"

abbreviation demo_insert :: ControlPlaneUpdate where
  "demo_insert \<equiv> P4RuntimeControlPlaneUpdate (TableEntryEntity (example_message 5 9 False)) INSERT"

lemma demo_table_current: "pe_current demo_environment example_annotations demo_table_state"
  by (simp add: holds_verdicts_def demo_table_state_def pe_total_def Let_def)

lemma demo_no_error:
  "\<not> specialize_error skip refMap reach sub demo_program"
  by (auto simp: specialize_error_def demo_program_def specialize_stmt_error_def elim_if_def
      split: option.splits if_splits prod.splits)

lemma demo_table_specializes:
  "pe_specializeProgram demo_environment demo_program (demo_table_state\<lparr>pv_controlPlaneConstraints := m, pv_z3Cache := c\<rparr>) =
     (Some (pe_result demo_environment demo_program demo_table_state),
      demo_table_state\<lparr>pv_controlPlaneConstraints := m, pv_z3Cache := c\<rparr>)"
  by (simp add: pe_specializeProgram_def demo_no_error demo_table_state_def Let_def pe_result_def)

lemma demo_inserted:
  "pe_convertControlPlaneUpdate demo_environment demo_insert demo_table_state =
     (Some [SVar False Type_String ''t_action'', SVar False (Type_Bits 8 False) ''t_key_f'',
        SVar False (Type_Bits 8 False) ''tset_arg_x''],
      demo_table_state\<lparr>pv_controlPlaneConstraints := [(''t'', TableItem (example_config\<lparr>tc_tableEntries := [example_added 5 9]\<rparr>))],
        pv_z3Cache := [BoolLiteral False \<mapsto> z3_set ir_backend (BoolLiteral False)]\<rparr>)"
proof -
  have "pv_controlPlaneConstraints demo_table_state = example_objects" "pv_z3Cache demo_table_state = Map.empty"
    by (simp_all add: demo_table_state_def Let_def)
  then show ?thesis
    using example_insert [of example_hash literal_less MT_EXACT 5 9]
    by (simp add: pe_convertControlPlaneUpdate_def update_constraints_def demo_environment_def
        updateControlPlaneConstraintsWithEntityMessage_def)
qed

definition demo_service :: "(ControlPlaneUpdate, P4Program, expr PartialEvaluation) FlayServiceBase" where
  "demo_service = mk_FlayServiceBase demo_program demo_program
     [(''pe'', PartialEvaluation_analysis demo_environment, demo_table_state)]"

lemma demo_service_simps:
  "fs_incrementalAnalysisMap demo_service = [(''pe'', PartialEvaluation_analysis demo_environment, demo_table_state)]"
  "fs_originalProgram demo_service = demo_program"
  "fs_optimizedProgram demo_service = pe_result demo_environment demo_program demo_table_state"
  using demo_table_specializes [where m = "pv_controlPlaneConstraints demo_table_state" and c = "pv_z3Cache demo_table_state"]
  by (simp_all add: demo_service_def mk_FlayServiceBase_def fs_specializeProgram_def analysis_simps)

lemma demo_table_served: "served demo_environment example_annotations demo_program demo_service"
  unfolding demo_service_def
  using demo_table_specializes [where m = "pv_controlPlaneConstraints demo_table_state" and c = "pv_z3Cache demo_table_state"]
  by (intro served_start [OF demo_table_current]) simp

lemma demo_initialized:
  "pe_initialize demo_environment kZ3Precomputed example_objects None Map.empty example_annotations =
     Some (True, Some demo_table_state)"
proof -
  have "computeControlPlaneConstraints demo_environment example_objects None Map.empty = (Some example_objects, Map.empty)"
    by (simp add: computeControlPlaneConstraints_def)
  from initialize_current [OF example_annotations_ok this] obtain pe where
    pe: "pe_initialize demo_environment kZ3Precomputed example_objects None Map.empty example_annotations = Some (True, Some pe)"
    "pe_current demo_environment example_annotations pe" "pv_controlPlaneConstraints pe = example_objects"
    "pv_z3Cache pe = Map.empty" "\<not> pv_errors pe" by blast
  then have "pe = demo_table_state"
    by (cases pe) (simp add: holds_verdicts_def demo_table_state_def pe_total_def Let_def)
  with pe(1) show ?thesis by simp
qed

text \<open>A batch that inserts an entry, and an empty one after it.\<close>

theorem unchecked_batches_keep_program_witness:
  "\<exists>s' s'' pe. fs_processControlPlaneUpdates False [demo_insert] demo_service = Some (True, s') \<and>
     fs_processControlPlaneUpdates False [] s' = Some (True, s'') \<and>
     fs_incrementalAnalysisMap s'' = [(''pe'', PartialEvaluation_analysis demo_environment, pe)] \<and>
     pv_controlPlaneConstraints pe \<noteq> pv_controlPlaneConstraints demo_table_state \<and>
     fs_optimizedProgram s'' = fs_optimizedProgram demo_service"
proof -
  obtain S m c where conv: "pe_convertControlPlaneUpdate demo_environment demo_insert demo_table_state =
      (Some S, demo_table_state\<lparr>pv_controlPlaneConstraints := m, pv_z3Cache := c\<rparr>)"
    and m: "m = [(''t'', TableItem (example_config\<lparr>tc_tableEntries := [example_added 5 9]\<rparr>))]"
    using demo_inserted by blast
  let ?pe = "demo_table_state\<lparr>pv_controlPlaneConstraints := m, pv_z3Cache := c\<rparr>"
  have batch: "convert_updates (PartialEvaluation_analysis demo_environment) [demo_insert] [] demo_table_state =
      (Some (fold sym_emplace S []), ?pe)"
    by (simp only: convert_updates.simps analysis_simps conv prod.case option.case)
  have one: "processControlPlaneUpdates False (PartialEvaluation_analysis demo_environment) demo_program [demo_insert]
      demo_table_state = Some (Program (pe_result demo_environment demo_program demo_table_state), ?pe)"
    unfolding processControlPlaneUpdates_def batch analysis_simps
    by (simp add: demo_table_specializes outcome_of_def)
  have none: "processControlPlaneUpdates False (PartialEvaluation_analysis demo_environment) demo_program []
      ?pe = Some (Program (pe_result demo_environment demo_program demo_table_state), ?pe)"
    unfolding processControlPlaneUpdates_def analysis_simps
    by (simp add: demo_table_specializes outcome_of_def)
  from one obtain s' where s': "fs_processControlPlaneUpdates False [demo_insert] demo_service = Some (True, s')"
    "fs_incrementalAnalysisMap s' = [(''pe'', PartialEvaluation_analysis demo_environment, ?pe)]"
    "fs_originalProgram s' = demo_program"
    by (simp add: fs_processControlPlaneUpdates_def demo_service_simps after_analyses_def Let_def)
  with none obtain s'' where s'': "fs_processControlPlaneUpdates False [] s' = Some (True, s'')"
    "fs_incrementalAnalysisMap s'' = [(''pe'', PartialEvaluation_analysis demo_environment, ?pe)]"
    by (simp add: fs_processControlPlaneUpdates_def after_analyses_def Let_def)
  have "service_run without_check demo_service s'"
    by (rule run_call [OF run_start, of _ "Batch False [demo_insert]"]) (simp_all add: without_check_def service_step_def s'(1))
  then have "service_run without_check demo_service s''"
    by (rule run_call [of _ _ _ "Batch False []"]) (simp_all add: without_check_def service_step_def s''(1))
  then have "fs_optimizedProgram s'' = fs_optimizedProgram demo_service"
    by (rule unchecked_batches_keep_program [OF example_annotations_ok demo_initialized run_start [of any_call],
        where original = demo_program and midEnd = demo_program and name = "''pe''", folded demo_service_def])
  moreover have "pv_controlPlaneConstraints ?pe \<noteq> pv_controlPlaneConstraints demo_table_state"
    by (simp add: m demo_table_state_def Let_def example_objects_def example_config_def mk_TableConfiguration_def)
  ultimately show ?thesis using s' s'' by blast
qed

text \<open>
  Claim C36. A refused update blocks a service with the partial evaluation as its analysis (the only
  one the program registers) for good: a single update that is refused, or a batch with one that is, fails and leaves the program as it is. And because the error it
  reports stays counted, whatever calls follow, single updates, batches of any kind or new
  specializations, before or after further failures, none of them ever changes the program; in
  particular all programs the wrappers write from then on, and the program after any write request of
  the server, are the one from before the refusal.
\<close>

theorem refused_update_blocks:
  assumes "fs_incrementalAnalysisMap s = [(name, PartialEvaluation_analysis E, pe)]"
    and "case c of Update u \<Rightarrow> fst (pe_convertControlPlaneUpdate E u pe) = None
      | Batch useSymbolSet us \<Rightarrow> fst (convert_updates (PartialEvaluation_analysis E) us [] pe) = None
      | Respecialize \<Rightarrow> False"
  shows "\<exists>s1. service_step c s = Some (False, s1) \<and> fs_optimizedProgram s1 = fs_optimizedProgram s \<and>
    (\<forall>s2. service_run any_call s1 s2 \<longrightarrow>
       fs_optimizedProgram s2 = fs_optimizedProgram s \<and>
       (\<forall>useSymbolSet request ok s3. Write useSymbolSet request s2 = Some (ok, s3) \<longrightarrow>
          fs_optimizedProgram s3 = fs_optimizedProgram s) \<and>
       (\<forall>useSymbolSet files ok outputs s3. run_updates useSymbolSet files [] s2 = Some (ok, outputs, s3) \<longrightarrow>
          fs_optimizedProgram s3 = fs_optimizedProgram s \<and>
          (\<forall>output \<in> set outputs. snd output = fs_optimizedProgram s)))"
proof -
  have "pe_errors.refused E c pe"
    using assms(2) by (simp add: pe_errors.refused_def analysis_simps split: service_call.splits)
  from pe_errors.refused_blocks [OF assms(1) this] obtain s1 where
    s1: "service_step c s = Some (False, s1)" "pe_errors.blocked E (fs_optimizedProgram s) s1" by blast
  have later: "pe_errors.blocked E (fs_optimizedProgram s) s2" if "service_run any_call s1 s2" for s2
    using pe_errors.blocked_run [OF that s1(2)] .
  have same: "fs_optimizedProgram s3 = fs_optimizedProgram s"
    if "service_run any_call s1 s2" "service_run any_call s2 s3" for s2 s3
    using pe_errors.blocked_run [OF that(2) later [OF that(1)]] by (simp add: pe_errors.blocked_def)
  show ?thesis
  proof (intro exI [of _ s1] conjI allI impI ballI)
    show "fs_optimizedProgram s1 = fs_optimizedProgram s" by (rule same [OF run_start run_start])
    fix s2 assume s2: "service_run any_call s1 s2"
    show "fs_optimizedProgram s2 = fs_optimizedProgram s" by (rule same [OF s2 run_start])
    show "fs_optimizedProgram s3 = fs_optimizedProgram s" if "Write sy request s2 = Some (ok, s3)" for sy request ok s3
      by (rule same [OF s2 Write_run [OF that]])
    fix sy files ok outputs s3 assume files: "run_updates sy files [] s2 = Some (ok, outputs, s3)"
    note run = run_updates_run [OF files]
    show "fs_optimizedProgram s3 = fs_optimizedProgram s" using run same [OF s2] by blast
    show "snd w = fs_optimizedProgram s" if "w \<in> set outputs" for w
      using run same [OF s2] that by fastforce
  qed (rule s1(1))
qed

text \<open>A batch with an update of no known protocol; afterwards an insertion in a file is not written out.\<close>

theorem refused_update_blocks_witness:
  "\<exists>s1. service_step (Batch True [OtherControlPlaneUpdate]) demo_service = Some (False, s1) \<and>
     (\<forall>ok outputs s2. run_updates True [(''f'', [demo_insert])] [] s1 = Some (ok, outputs, s2) \<longrightarrow>
        fs_optimizedProgram s2 = fs_optimizedProgram demo_service) \<and>
     (\<forall>ok s2. service_step (Update demo_insert) s1 = Some (ok, s2) \<longrightarrow>
        fs_optimizedProgram s2 = fs_optimizedProgram demo_service)"
proof -
  have "fst (pe_convertControlPlaneUpdate demo_environment OtherControlPlaneUpdate demo_table_state) = None"
    by (simp add: pe_convertControlPlaneUpdate_def update_constraints_def)
  then have "fst (convert_updates (PartialEvaluation_analysis demo_environment) [OtherControlPlaneUpdate] [] demo_table_state) = None"
    by (cases "pe_convertControlPlaneUpdate demo_environment OtherControlPlaneUpdate demo_table_state")
      (simp add: analysis_simps)
  from refused_update_blocks [OF demo_service_simps(1), of "Batch True [OtherControlPlaneUpdate]"] this
  obtain s1 where s1: "service_step (Batch True [OtherControlPlaneUpdate]) demo_service = Some (False, s1)"
    and later: "\<forall>s2. service_run any_call s1 s2 \<longrightarrow> fs_optimizedProgram s2 = fs_optimizedProgram demo_service \<and>
      (\<forall>useSymbolSet files ok outputs s3. run_updates useSymbolSet files [] s2 = Some (ok, outputs, s3) \<longrightarrow>
          fs_optimizedProgram s3 = fs_optimizedProgram demo_service)"
    by auto
  show ?thesis
    using s1 later run_start [of any_call s1] run_call [OF run_start [of any_call s1], of "Update demo_insert"] by blast
qed

end
