(* ===== verification/TypedExpressions.thy ===== *)
theory TypedExpressions
  imports SimplifyExpression
begin

text \<open>
  Typing of symbolic expressions, as far as the rewriting of conditionals depends on it: the branches
  of a conditional have its type, conditions and the operands of logical operators are Boolean. The
  symbolic execution builds a conditional with the type of its first branch, so merging two states is
  only right when the values of a variable have one type in both.

  Simplification keeps expressions typed, and their type.
\<close>

fun ty_ok :: "expr \<Rightarrow> bool" where
  "ty_ok (Placeholder l d) \<longleftrightarrow> ty_ok d"
| "ty_ok (Unary t op e) \<longleftrightarrow> ty_ok e \<and> (op = LNot \<longrightarrow> t = Type_Boolean)"
| "ty_ok (Binary t op l r) \<longleftrightarrow> ty_ok l \<and> ty_ok r \<and>
     (op = LAnd \<or> op = LOr \<longrightarrow> t = Type_Boolean \<and> type_of l = Type_Boolean \<and> type_of r = Type_Boolean)"
| "ty_ok (Slice t e hi lo) \<longleftrightarrow> ty_ok e"
| "ty_ok (Mux t c a b) \<longleftrightarrow> ty_ok c \<and> ty_ok a \<and> ty_ok b \<and> type_of c = Type_Boolean \<and> type_of a = t \<and> type_of b = t"
| "ty_ok (ListExpression es) \<longleftrightarrow> (\<forall>e \<in> set es. ty_ok e)"
| "ty_ok (StructExpression ns es) \<longleftrightarrow> (\<forall>e \<in> set es. ty_ok e)"
| "ty_ok (HeaderStackExpression t es) \<longleftrightarrow> (\<forall>e \<in> set es. ty_ok e)"
| "ty_ok _ \<longleftrightarrow> True"

definition typed_as :: "expr \<Rightarrow> ty \<Rightarrow> bool" where
  "typed_as e t \<longleftrightarrow> ty_ok e \<and> type_of e = t"

lemma typed_as_simps [simp]:
  "typed_as (BoolLiteral b) t \<longleftrightarrow> t = Type_Boolean"
  "typed_as (StringLiteral x) t \<longleftrightarrow> t = Type_String"
  "typed_as (SymbolicVariable v) t \<longleftrightarrow> sv_type v = t"
  "typed_as (mk_LAnd l r) t \<longleftrightarrow> t = Type_Boolean \<and> typed_as l t \<and> typed_as r t"
  "typed_as (mk_LOr l r) t \<longleftrightarrow> t = Type_Boolean \<and> typed_as l t \<and> typed_as r t"
  "typed_as (mk_LNot e) t \<longleftrightarrow> t = Type_Boolean \<and> ty_ok e"
  "typed_as (mk_Equ l r) t \<longleftrightarrow> t = Type_Boolean \<and> ty_ok l \<and> ty_ok r"
  "typed_as (Mux t' c a d) t \<longleftrightarrow> t' = t \<and> typed_as c Type_Boolean \<and> typed_as a t \<and> typed_as d t"
  by (auto simp: typed_as_def mk_defs)

lemma typed_asD: "typed_as e t \<Longrightarrow> ty_ok e" "typed_as e t \<Longrightarrow> type_of e = t"
  by (simp_all add: typed_as_def)

lemma fold_node_typed: "typed_as e t \<Longrightarrow> typed_as (fold_node m e) t"
proof (cases e)
  case (Unary t' op a)
  moreover assume "typed_as e t"
  ultimately show ?thesis
    by (cases op) (auto simp: typed_as_def fold_LNot_def split: option.splits)
next
  case (Binary t' op l r)
  moreover assume "typed_as e t"
  ultimately show ?thesis
    by (cases op) (auto simp: typed_as_def fold_LAnd_def fold_LOr_def split: option.splits)
next
  case (Mux t' c a b)
  moreover assume "typed_as e t"
  ultimately show ?thesis by (auto simp: typed_as_def fold_Mux_def split: option.splits)
qed simp_all

lemma fold_expression_typed: "ty_ok e \<Longrightarrow> typed_as (fold_expression m e) (type_of e)"
proof (induction e)
  case (Unary t op e)
  then show ?case using fold_node_typed [of "Unary t op (fold_expression m e)" t m] by (simp add: typed_as_def)
next
  case (Binary t op l r)
  then show ?case
    using fold_node_typed [of "Binary t op (fold_expression m l) (fold_expression m r)" t m]
    by (simp add: typed_as_def)
next
  case (Mux t c a b)
  then show ?case
    using fold_node_typed [of "Mux t (fold_expression m c) (fold_expression m a) (fold_expression m b)" t m]
    by (simp add: typed_as_def)
qed (auto simp: typed_as_def)

lemma fold_mux_typed: "ty_ok e \<Longrightarrow> typed_as (fold_mux e) (type_of e)"
proof (induction e)
  case (Mux t c a b)
  then show ?case
    using fold_expression_typed [of c "[]"] fold_expression_typed [of a] fold_expression_typed [of b]
    by (simp add: typed_as_def Let_def)
qed (auto simp: typed_as_def)

lemma lift_step_typed:
  assumes "lift_step c a b = (c', a', b')" and "ty_ok (Mux t c a b)"
  shows "ty_ok (Mux t c' a' b')"
  using assms
  by (auto simp: lift_step_def lift_true_mux_def lift_false_mux_def mk_defs split: option.splits expr.splits if_splits)

lemma lift_mux_typed: "ty_ok e \<Longrightarrow> typed_as (lift_mux e) (type_of e)"
proof (induction e rule: lift_mux.induct)
  case (1 t c a b)
  obtain c' a' b' where s: "lift_step c a b = (c', a', b')" by (metis prod_cases3)
  from lift_step_typed [OF s 1(4)] have ok: "ty_ok c'" "ty_ok a'" "ty_ok b'" "type_of c' = Type_Boolean"
    "type_of a' = t" "type_of b' = t" by simp_all
  from 1(1) [OF s [symmetric] refl ok(1)] 1(2) [OF s [symmetric] refl refl ok(2)]
    1(3) [OF s [symmetric] refl refl refl ok(3)] ok(4-6) s
  show ?case by (simp add: typed_as_def Let_def)
qed (auto simp: typed_as_def)

lemma simplify_typed: "typed_as e t \<Longrightarrow> typed_as (simplify e) t"
  using fold_mux_typed [of e] lift_mux_typed [of "fold_mux e"] by (simp add: simplify_def typed_as_def)

lemma simplifiedMux_typed:
  "typed_as c Type_Boolean \<Longrightarrow> typed_as a t \<Longrightarrow> typed_as b t \<Longrightarrow> typed_as (produceSimplifiedMux c a b) t"
  unfolding produceSimplifiedMux_def by (rule simplify_typed) (auto simp: typed_as_def)

lemma simplify_value: "eval env e = Some v \<Longrightarrow> eval env (simplify e) = Some v"
  using simplify_refines by (rule refines_inD)

lemma simplifiedMux_value:
  assumes "eval env c = Some (VBool b)" and "type_of a = type_of a'" and "eval env (if b then a else a') = Some v"
  shows "eval env (produceSimplifiedMux c a a') = Some v"
proof -
  have "eval env (Mux (type_of a) c a a') = Some v"
    using assms by (cases b) (auto simp: eval_Mux_Some eval_type dest: eval_in_range)
  then show ?thesis unfolding produceSimplifiedMux_def by (rule simplify_value)
qed

lemma LAnd_value:
  "eval env a = Some (VBool p) \<Longrightarrow> eval env b = Some (VBool q) \<Longrightarrow> eval env (mk_LAnd a b) = Some (VBool (p \<and> q))"
  by (cases p) (auto simp: mk_LAnd_def eval_LAnd_Some)

lemma LNot_value: "eval env a = Some (VBool p) \<Longrightarrow> eval env (mk_LNot a) = Some (VBool (\<not> p))"
  by (cases p) (auto simp: mk_LNot_def eval_LNot_Some)

lemma Equ_value:
  "eval env a = Some v \<Longrightarrow> eval env b = Some w \<Longrightarrow> val_type v = val_type w \<Longrightarrow>
   eval env (mk_Equ a b) = Some (VBool (v = w))"
  by (auto simp: mk_Equ_def eval_Binary_Some eq_val_def)

end
