(* ===== verification/ExecutionState.thy ===== *)
theory ExecutionState
  imports NodeMap TypedExpressions "HOL-Library.AList"
begin

text \<open>
  The state of the symbolic execution (\<open>interpreter/execution_state.cpp\<close>): the condition under which
  the state is reached, the parser states seen, the symbolic values of the variables and the
  annotations of the nodes passed so far. States are cloned for the branches of a program and merged
  again; the environment that maps variables to values is a class of the tools' library and a
  parameter of the model.

  Cloning copies the annotation maps but not the reachability expressions they point to: a condition
  added through one state is seen through all states that share the entry. So the maps of a state hold
  references here, and the expressions live in a store that all states of an execution share.
\<close>

section \<open>Variables and their environment\<close>

datatype StateVariable =
    VarPath string
  | VarMember StateVariable string
  | VarIndex StateVariable expr

text \<open>
  \<open>SymbolicEnv\<close> and the operations of \<open>AbstractExecutionState\<close> on structures, with the options the state
  looks at. A variable exists when it has a value; reading one that does not is a \<open>BUG\<close>.
\<close>

record 'e tools =
  env_get :: "'e \<Rightarrow> StateVariable \<Rightarrow> expr option"
  env_set :: "StateVariable \<Rightarrow> expr \<Rightarrow> 'e \<Rightarrow> 'e"
  getInternalMap :: "'e \<Rightarrow> (StateVariable \<times> expr) list"
  convertToComplexExpression :: "'e \<Rightarrow> StateVariable \<Rightarrow> ty \<Rightarrow> expr option"
  assignStructLike :: "StateVariable \<Rightarrow> expr \<Rightarrow> 'e \<Rightarrow> 'e option"
  opt_strict :: bool
  opt_usePlaceholders :: bool

text \<open>What the environment promises: it is a map, and its internal map lists its entries once.\<close>

definition env_laws :: "('e, 'm) tools_scheme \<Rightarrow> bool" where
  "env_laws X \<longleftrightarrow>
     (\<forall>E v e v'. env_get X (env_set X v e E) v' = (if v' = v then Some e else env_get X E v')) \<and>
     (\<forall>E. distinct (map fst (getInternalMap X E)) \<and> map_of (getInternalMap X E) = env_get X E)"

text \<open>Association lists are an environment.\<close>

definition alist_tools :: "(StateVariable \<times> expr) list tools" where
  "alist_tools =
     \<lparr>env_get = map_of, env_set = (\<lambda>v e E. (v, e) # E), getInternalMap = AList.clearjunk,
      convertToComplexExpression = (\<lambda>E v t. None), assignStructLike = (\<lambda>v e E. None), opt_strict = False,
      opt_usePlaceholders = False\<rparr>"

lemma alist_tools_laws: "env_laws alist_tools"
  by (simp add: env_laws_def alist_tools_def map_of_clearjunk distinct_clearjunk)

section \<open>Shared annotations\<close>

text \<open>A cell of the store remembers the node it was made for, which the code does not need to.\<close>

type_synonym reachability_store = "(node \<times> ReachabilityExpression) list"

record shared_annotations =
  sa_reachabilityMap :: "(node, nat) std_map"
  sa_substitutionMap :: SubstitutionMap
  sa_expressionSymbolMap :: SymbolMap
  sa_reachabilitySymbolMap :: SymbolMap

definition no_annotations :: shared_annotations where
  "no_annotations =
     \<lparr>sa_reachabilityMap = [], sa_substitutionMap = [], sa_expressionSymbolMap = [],
      sa_reachabilitySymbolMap = []\<rparr>"

text \<open>The annotations as the maps built from them see them.\<close>

definition stored_annotations :: "reachability_store \<Rightarrow> shared_annotations \<Rightarrow> NodeAnnotationMap" where
  "stored_annotations h m =
     \<lparr>na_reachabilityMap = map (\<lambda>(n, p). (n, snd (h ! p))) (sa_reachabilityMap m),
      na_substitutionMap = sa_substitutionMap m, na_expressionSymbolMap = sa_expressionSymbolMap m,
      na_reachabilitySymbolMap = sa_reachabilitySymbolMap m\<rparr>"

definition shared_initializeReachabilityMapping ::
  "node \<Rightarrow> expr \<Rightarrow> shared_annotations \<Rightarrow> reachability_store \<Rightarrow> bool \<times> shared_annotations \<times> reachability_store" where
  "shared_initializeReachabilityMapping node cond m h =
     (let m = m\<lparr>sa_reachabilitySymbolMap := add_symbols node cond (sa_reachabilitySymbolMap m)\<rparr> in
      case map_find (sa_reachabilityMap m) node of
        Some p \<Rightarrow> (False, m, h[p := (fst (h ! p), addCondition cond (snd (h ! p)))])
      | None \<Rightarrow>
          (True, m\<lparr>sa_reachabilityMap := map_insert node (length h) (sa_reachabilityMap m)\<rparr>,
           h @ [(node, mk_ReachabilityExpression cond)]))"

definition shared_initializeExpressionMapping ::
  "node \<Rightarrow> expr \<Rightarrow> expr \<Rightarrow> shared_annotations \<Rightarrow> bool \<times> shared_annotations" where
  "shared_initializeExpressionMapping expression value cond m =
     (map_find (sa_substitutionMap m) expression = None,
      m\<lparr>sa_expressionSymbolMap := add_symbols expression value (sa_expressionSymbolMap m),
        sa_substitutionMap :=
          map_insert expression (mk_SubstitutionExpression cond value) (sa_substitutionMap m)\<rparr>)"

definition shared_mergeAnnotationMapping ::
  "shared_annotations \<Rightarrow> shared_annotations \<Rightarrow> shared_annotations" where
  "shared_mergeAnnotationMapping otherMap m =
     m\<lparr>sa_reachabilityMap := map_insert_all (sa_reachabilityMap otherMap) (sa_reachabilityMap m),
       sa_substitutionMap := map_insert_all (sa_substitutionMap otherMap) (sa_substitutionMap m),
       sa_reachabilitySymbolMap :=
         fold (\<lambda>(k, ns). symbol_insert k ns) (sa_reachabilitySymbolMap otherMap) (sa_reachabilitySymbolMap m),
       sa_expressionSymbolMap :=
         fold (\<lambda>(k, ns). symbol_insert k ns) (sa_expressionSymbolMap otherMap) (sa_expressionSymbolMap m)\<rparr>"

section \<open>The state\<close>

record 'e ExecutionState =
  es_executionCondition :: "expr option"
  es_visitedParserIds :: "int list"
  es_env :: 'e
  es_nodeAnnotationMap :: shared_annotations

definition es_create :: "'e \<Rightarrow> 'e ExecutionState" where
  "es_create E =
     \<lparr>es_executionCondition = None, es_visitedParserIds = [], es_env = E,
      es_nodeAnnotationMap = no_annotations\<rparr>"

text \<open>The types of which a variable has a value of its own (\<open>IR::Type_Base\<close>).\<close>

fun is_Type_Base :: "ty \<Rightarrow> bool" where
  "is_Type_Base Type_Unknown = True"
| "is_Type_Base Type_Boolean = True"
| "is_Type_Base (Type_Bits w s) = True"
| "is_Type_Base Type_String = True"
| "is_Type_Base _ = False"

definition es_exists :: "('e, 'm) tools_scheme \<Rightarrow> 'e ExecutionState \<Rightarrow> StateVariable \<Rightarrow> bool" where
  "es_exists X s var \<longleftrightarrow> env_get X (es_env s) var \<noteq> None"

definition es_get :: "('e, 'm) tools_scheme \<Rightarrow> 'e ExecutionState \<Rightarrow> StateVariable \<Rightarrow> ty \<Rightarrow> expr result" where
  "es_get X s var varType =
     or_fail Bug
       (case varType of
          Type_Struct ns ts \<Rightarrow> convertToComplexExpression X (es_env s) var varType
        | Type_Stack t n \<Rightarrow> convertToComplexExpression X (es_env s) var varType
        | _ \<Rightarrow> env_get X (es_env s) var)"

definition es_set :: "('e, 'm) tools_scheme \<Rightarrow> StateVariable \<Rightarrow> expr \<Rightarrow> 'e ExecutionState \<Rightarrow> 'e ExecutionState" where
  "es_set X var value s = s\<lparr>es_env := env_set X var value (es_env s)\<rparr>"

definition addParserId :: "int \<Rightarrow> 'e ExecutionState \<Rightarrow> 'e ExecutionState" where
  "addParserId parserId s = s\<lparr>es_visitedParserIds := set_emplace (<) parserId (es_visitedParserIds s)\<rparr>"

definition hasVisitedParserId :: "'e ExecutionState \<Rightarrow> int \<Rightarrow> bool" where
  "hasVisitedParserId s parserId = set_contains (<) parserId (es_visitedParserIds s)"

text \<open>\<open>std::to_string\<close> of a number.\<close>

fun number_string :: "nat \<Rightarrow> string" where
  "number_string n =
     (let digit = char_of (48 + n mod 10) in
      if n < 10 then [digit] else number_string (n div 10) @ [digit])"

declare number_string.simps [simp del]

text \<open>
  A symbolic expression of a type. Headers are structures with a validity bit; the types of the model
  have no headers.
\<close>

lemma zip_type_size [termination_simp]: "(l, t) \<in> set (zip ls ts) \<Longrightarrow> size t < Suc (size_list size ts)"
  using size_list_estimation' [of t ts "size t" size] by (auto dest: set_zip_rightD simp: less_Suc_eq_le)

fun createSymbolicExpression :: "ty \<Rightarrow> string \<Rightarrow> expr result" where
  "createSymbolicExpression (Type_Struct ns ts) label =
     and_then (all_results (map (\<lambda>(fieldLabel, type). createSymbolicExpression type fieldLabel)
         (zip (map (\<lambda>field. label @ ''_'' @ field) ns) ts)))
       (\<lambda>fields. Inr (StructExpression ns fields))"
| "createSymbolicExpression (Type_Stack elementType n) label =
     and_then (all_results (map (\<lambda>idx. createSymbolicExpression elementType
         (label @ ''['' @ number_string idx @ '']'')) [0..<n]))
       (\<lambda>fields. Inr (HeaderStackExpression elementType fields))"
| "createSymbolicExpression resolvedType label =
     (if is_Type_Base resolvedType then Inr (DataPlaneVariable resolvedType label) else Inl Unimplemented)"

section \<open>Execution conditions and merging\<close>

definition getExecutionCondition :: "'e ExecutionState \<Rightarrow> expr" where
  "getExecutionCondition s =
     (case es_executionCondition s of Some cond \<Rightarrow> cond | None \<Rightarrow> BoolLiteral True)"

definition pushExecutionCondition :: "expr \<Rightarrow> 'e ExecutionState \<Rightarrow> 'e ExecutionState" where
  "pushExecutionCondition cond s =
     s\<lparr>es_executionCondition :=
         Some (case es_executionCondition s of
                 None \<Rightarrow> cond
               | Some executionCondition \<Rightarrow> simplify (mk_LAnd executionCondition cond))\<rparr>"

text \<open>
  Merging sets a variable that exists already to what it is in the state merged in, under the
  condition of that state. The entries of an environment are variables of base types, for which
  reading is a look-up.
\<close>

definition set_all :: "('e, 'm) tools_scheme \<Rightarrow> (StateVariable \<times> expr) list \<Rightarrow> 'e ExecutionState \<Rightarrow> 'e ExecutionState" where
  "set_all X entries s =
     fold (\<lambda>(ref, mergeExpr) s. if es_exists X s ref then es_set X ref mergeExpr s else s) entries s"

definition merge_all ::
  "('e, 'm) tools_scheme \<Rightarrow> expr \<Rightarrow> (StateVariable \<times> expr) list \<Rightarrow> 'e ExecutionState \<Rightarrow> 'e ExecutionState" where
  "merge_all X cond entries s =
     fold (\<lambda>(ref, mergeExpr) s.
        case env_get X (es_env s) ref of
          None \<Rightarrow> s
        | Some currentExpr \<Rightarrow>
            if currentExpr = mergeExpr then s
            else es_set X ref (produceSimplifiedMux cond mergeExpr currentExpr) s) entries s"

definition es_merge :: "('e, 'm) tools_scheme \<Rightarrow> 'e ExecutionState \<Rightarrow> 'e ExecutionState \<Rightarrow> 'e ExecutionState" where
  "es_merge X mergeState s =
     (let cond = simplify (getExecutionCondition mergeState);
          mergeEnv = getInternalMap X (es_env mergeState);
          s = s\<lparr>es_nodeAnnotationMap :=
                  shared_mergeAnnotationMapping (es_nodeAnnotationMap mergeState) (es_nodeAnnotationMap s)\<rparr> in
      case cond of
        BoolLiteral value \<Rightarrow> if value then set_all X mergeEnv s else s
      | _ \<Rightarrow> merge_all X cond mergeEnv s)"

section \<open>Annotating nodes\<close>

text \<open>In strict mode a node must not be annotated twice.\<close>

definition addReachabilityMapping ::
  "('e, 'm) tools_scheme \<Rightarrow> node \<Rightarrow> expr \<Rightarrow> 'e ExecutionState \<Rightarrow> reachability_store \<Rightarrow>
   ('e ExecutionState \<times> reachability_store) result" where
  "addReachabilityMapping X node cond s h =
     (case shared_initializeReachabilityMapping node (mk_LAnd (getExecutionCondition s) cond)
             (es_nodeAnnotationMap s) h of
        (notAlreadyInMap, m, h') \<Rightarrow>
          if \<not> notAlreadyInMap \<and> opt_strict X then Inl Bug else Inr (s\<lparr>es_nodeAnnotationMap := m\<rparr>, h'))"

definition addExpressionMapping ::
  "('e, 'm) tools_scheme \<Rightarrow> node \<Rightarrow> ty \<Rightarrow> expr \<Rightarrow> 'e ExecutionState \<Rightarrow> 'e ExecutionState result" where
  "addExpressionMapping X expression type v s =
     (case type of
        Type_Bits w sign \<Rightarrow>
          (case shared_initializeExpressionMapping expression v (getExecutionCondition s)
                  (es_nodeAnnotationMap s) of
             (notAlreadyInMap, m) \<Rightarrow>
               if \<not> notAlreadyInMap \<and> opt_strict X then Inl Bug else Inr (s\<lparr>es_nodeAnnotationMap := m\<rparr>))
      | _ \<Rightarrow> Inr s)"

section \<open>Placeholders\<close>

definition PLACEHOLDER_LABEL :: StateVariable where "PLACEHOLDER_LABEL = VarPath ''*placeholder''"

definition setPlaceholderValue ::
  "('e, 'm) tools_scheme \<Rightarrow> string \<Rightarrow> expr \<Rightarrow> 'e ExecutionState \<Rightarrow> 'e ExecutionState" where
  "setPlaceholderValue X label v s = es_set X (VarMember PLACEHOLDER_LABEL label) v s"

definition getPlaceholderValue ::
  "('e, 'm) tools_scheme \<Rightarrow> string \<Rightarrow> ty \<Rightarrow> 'e ExecutionState \<Rightarrow> expr option result" where
  "getPlaceholderValue X label type s =
     (let placeholderVar = VarMember PLACEHOLDER_LABEL label in
      if es_exists X s placeholderVar
      then and_then (es_get X s placeholderVar type) (\<lambda>v. Inr (Some v)) else Inr None)"

text \<open>With placeholders enabled the substitution ends in \<open>P4C_UNIMPLEMENTED\<close> (see \<open>NodeMap\<close>).\<close>

definition es_substitutePlaceholders :: "('e, 'm) tools_scheme \<Rightarrow> 'e ExecutionState \<Rightarrow> 'e ExecutionState result" where
  "es_substitutePlaceholders X s = (if opt_usePlaceholders X then Inl Unimplemented else Inr s)"

section \<open>What merging does to variables\<close>

text \<open>The value of a variable after a merge under the simplified condition \<open>cond\<close>.\<close>

definition merged :: "expr \<Rightarrow> expr \<Rightarrow> expr \<Rightarrow> expr" where
  "merged cond currentExpr mergeExpr =
     (case cond of
        BoolLiteral b \<Rightarrow> if b then mergeExpr else currentExpr
      | _ \<Rightarrow> if currentExpr = mergeExpr then currentExpr
             else produceSimplifiedMux cond mergeExpr currentExpr)"

lemma fold_env:
  assumes laws: "env_laws X"
    and step: "\<And>ref e s v. env_get X (es_env (f (ref, e) s)) v =
        (if v = ref then map_option (\<lambda>c. g c e) (env_get X (es_env s) v) else env_get X (es_env s) v)"
    and "distinct (map fst entries)"
  shows "env_get X (es_env (fold f entries s)) v =
    (case env_get X (es_env s) v of
       None \<Rightarrow> None
     | Some c \<Rightarrow> Some (case map_of entries v of None \<Rightarrow> c | Some e \<Rightarrow> g c e))"
  using assms(3)
proof (induction entries arbitrary: s)
  case (Cons entry entries)
  obtain ref e where entry: "entry = (ref, e)" by (cases entry)
  with Cons.prems have "map_of entries ref = None" by (simp add: map_of_eq_None_iff)
  with Cons.IH [of "f entry s"] Cons.prems entry show ?case
    by (auto simp: step split: option.splits)
qed (simp split: option.splits)

lemma es_merge_get:
  assumes "env_laws X"
  shows "env_get X (es_env (es_merge X m s)) v =
    (case (env_get X (es_env s) v, env_get X (es_env m) v) of
       (Some c, Some e) \<Rightarrow> Some (merged (simplify (getExecutionCondition m)) c e)
     | (c, _) \<Rightarrow> c)"
proof -
  let ?cond = "simplify (getExecutionCondition m)"
  let ?s = "s\<lparr>es_nodeAnnotationMap :=
    shared_mergeAnnotationMapping (es_nodeAnnotationMap m) (es_nodeAnnotationMap s)\<rparr>"
  have laws: "env_get X (env_set X ref e E) v' = (if v' = ref then Some e else env_get X E v')" for ref e E v'
    using assms by (simp add: env_laws_def)
  have m: "distinct (map fst (getInternalMap X (es_env m)))"
    "map_of (getInternalMap X (es_env m)) = env_get X (es_env m)" using assms by (auto simp: env_laws_def)
  have "env_get X (es_env ((\<lambda>(ref, e) s. if es_exists X s ref then es_set X ref e s else s) (ref, e) s)) v =
      (if v = ref then map_option (\<lambda>c. e) (env_get X (es_env s) v) else env_get X (es_env s) v)" for ref e s v
    by (auto simp: es_exists_def es_set_def laws)
  from fold_env [OF assms this m(1), of ?s v]
  have all: "env_get X (es_env (set_all X (getInternalMap X (es_env m)) ?s)) v =
      (case env_get X (es_env s) v of None \<Rightarrow> None
       | Some c \<Rightarrow> Some (case env_get X (es_env m) v of None \<Rightarrow> c | Some e \<Rightarrow> e))"
    unfolding set_all_def m(2) by simp
  have "env_get X (es_env ((\<lambda>(ref, e) s. case env_get X (es_env s) ref of None \<Rightarrow> s
        | Some c \<Rightarrow> if c = e then s else es_set X ref (produceSimplifiedMux ?cond e c) s) (ref, e) s)) v =
      (if v = ref then map_option (\<lambda>c. if c = e then c else produceSimplifiedMux ?cond e c) (env_get X (es_env s) v)
       else env_get X (es_env s) v)" for ref e s v
    by (auto simp: es_set_def laws split: option.splits)
  from fold_env [OF assms this m(1), of ?s v]
  have mux: "env_get X (es_env (merge_all X ?cond (getInternalMap X (es_env m)) ?s)) v =
      (case env_get X (es_env s) v of None \<Rightarrow> None
       | Some c \<Rightarrow> Some (case env_get X (es_env m) v of None \<Rightarrow> c
                           | Some e \<Rightarrow> if c = e then c else produceSimplifiedMux ?cond e c))"
    unfolding merge_all_def m(2) by simp
  show ?thesis
    using all mux by (auto simp: es_merge_def merged_def Let_def split: expr.splits option.splits)
qed

lemma es_merge_fields [simp]:
  "es_executionCondition (es_merge X m s) = es_executionCondition s"
  "es_visitedParserIds (es_merge X m s) = es_visitedParserIds s"
  "es_nodeAnnotationMap (es_merge X m s) =
     shared_mergeAnnotationMapping (es_nodeAnnotationMap m) (es_nodeAnnotationMap s)"
proof -
  have "es_executionCondition (set_all X entries t) = es_executionCondition t \<and>
      es_visitedParserIds (set_all X entries t) = es_visitedParserIds t \<and>
      es_nodeAnnotationMap (set_all X entries t) = es_nodeAnnotationMap t" for entries t
    unfolding set_all_def by (induction entries arbitrary: t) (auto simp: es_set_def)
  moreover have "es_executionCondition (merge_all X c entries t) = es_executionCondition t \<and>
      es_visitedParserIds (merge_all X c entries t) = es_visitedParserIds t \<and>
      es_nodeAnnotationMap (merge_all X c entries t) = es_nodeAnnotationMap t" for c entries t
    unfolding merge_all_def by (induction entries arbitrary: t) (auto simp: es_set_def split: option.splits)
  ultimately show "es_executionCondition (es_merge X m s) = es_executionCondition s"
    "es_visitedParserIds (es_merge X m s) = es_visitedParserIds s"
    "es_nodeAnnotationMap (es_merge X m s) =
       shared_mergeAnnotationMapping (es_nodeAnnotationMap m) (es_nodeAnnotationMap s)"
    by (auto simp: es_merge_def Let_def split: expr.splits)
qed

lemma merged_typed:
  "typed_as cond Type_Boolean \<Longrightarrow> typed_as c t \<Longrightarrow> typed_as e t \<Longrightarrow> typed_as (merged cond c e) t"
  by (auto simp: merged_def simplifiedMux_typed split: expr.splits)

lemma merged_value:
  assumes "eval env cond = Some (VBool b)" and "type_of e = type_of c" and "eval env (if b then e else c) = Some v"
  shows "eval env (merged (simplify cond) c e) = Some v"
proof -
  have cond: "eval env (simplify cond) = Some (VBool b)" using assms(1) by (rule simplify_value)
  from simplifiedMux_value [OF this assms(2,3)]
  have "eval env (if c = e then c else produceSimplifiedMux (simplify cond) e c) = Some v"
    using assms(3) by (auto split: if_splits)
  with cond assms(3) show ?thesis by (cases "simplify cond") (auto simp: merged_def)
qed

text \<open>The condition of a state after a push is the conjunction of both.\<close>

lemma pushed_condition:
  assumes "eval env (getExecutionCondition s) = Some (VBool True)" and "eval env cond = Some (VBool b)"
  shows "eval env (getExecutionCondition (pushExecutionCondition cond s)) = Some (VBool b)"
  using assms LAnd_value [of env _ True cond b]
  by (auto simp: getExecutionCondition_def pushExecutionCondition_def simplify_value split: option.splits)

lemma pushed_typed:
  assumes "typed_as (getExecutionCondition s) Type_Boolean" and "typed_as cond Type_Boolean"
  shows "typed_as (getExecutionCondition (pushExecutionCondition cond s)) Type_Boolean"
  using assms simplify_typed [of "mk_LAnd _ cond" Type_Boolean]
  by (auto simp: getExecutionCondition_def pushExecutionCondition_def split: option.splits)

text \<open>
  Claim C18. Merging takes the branch: when the condition of the merged state has a value, every variable
  both states know has afterwards the value it has in the merged state if the condition holds and the
  value it had before if not. Variables only the merged state knows are not added, those it does not
  know keep their values, and the state keeps its own condition.
\<close>

theorem merge_takes_branch:
  assumes "env_laws X" and "eval env (getExecutionCondition m) = Some (VBool b)"
    and "env_get X (es_env s) v = Some c"
    and "\<And>e. env_get X (es_env m) v = Some e \<Longrightarrow> type_of e = type_of c"
  shows "\<exists>r. env_get X (es_env (es_merge X m s)) v = Some r \<and>
      (\<forall>w. eval env (case env_get X (es_env m) v of None \<Rightarrow> c | Some e' \<Rightarrow> if b then e' else c) = Some w \<longrightarrow>
         eval env r = Some w) \<and>
      (\<forall>v'. env_get X (es_env (es_merge X m s)) v' = None \<longleftrightarrow> env_get X (es_env s) v' = None) \<and>
      es_executionCondition (es_merge X m s) = es_executionCondition s"
proof (intro exI conjI)
  show "env_get X (es_env (es_merge X m s)) v = Some (case env_get X (es_env m) v of None \<Rightarrow> c
      | Some e' \<Rightarrow> merged (simplify (getExecutionCondition m)) c e')"
    using assms(3) by (simp add: es_merge_get [OF assms(1)] split: option.splits)
  show "\<forall>w. eval env (case env_get X (es_env m) v of None \<Rightarrow> c | Some e' \<Rightarrow> if b then e' else c) = Some w \<longrightarrow>
      eval env (case env_get X (es_env m) v of None \<Rightarrow> c
        | Some e' \<Rightarrow> merged (simplify (getExecutionCondition m)) c e') = Some w"
    using merged_value [OF assms(2)] assms(4) by (auto split: option.splits)
qed (auto simp: es_merge_get [OF assms(1)] split: option.splits)

theorem merge_takes_branch_witness:
  "\<exists>r. env_get alist_tools (es_env (es_merge alist_tools
       ((es_create [(VarPath ''x'', BoolLiteral True)])\<lparr>es_executionCondition := Some (BoolLiteral True)\<rparr>)
       (es_create [(VarPath ''x'', BoolLiteral False)]))) (VarPath ''x'') = Some r \<and>
     eval (\<lambda>k. VBool True) r = Some (VBool True)"
  using merge_takes_branch [OF alist_tools_laws,
      of "\<lambda>k. VBool True" "(es_create [(VarPath ''x'', BoolLiteral True)])\<lparr>es_executionCondition := Some (BoolLiteral True)\<rparr>"
        True "es_create [(VarPath ''x'', BoolLiteral False)]" "VarPath ''x''" "BoolLiteral False"]
  by (auto simp: alist_tools_def es_create_def getExecutionCondition_def)

end
