(* ===== verification/ExpressionResolver.thy ===== *)
theory ExpressionResolver
  imports ExecutionState Statements SymbolicState
begin

text \<open>
  The expression resolver (\<open>interpreter/expression_resolver.cpp\<close>) on the expressions of \<open>Statements\<close>:
  it replaces what an expression reads by its symbolic value, executes the calls in it and annotates
  its nodes. Running an action and applying a table lead back to the stepper; they are a pair of
  functions that the resolver gets, the knot is tied in \<open>SymbolicExecution\<close>.

  Names are unique in the programs the analysis runs on, so name spaces are left out: what a name
  refers to, and everything else the tools' library provides, is a parameter.
\<close>

section \<open>Actions and tables as the executor sees them\<close>

record ActionParameter = P4Parameter +
  ap_name :: string

record exec_action =
  xa_controlPlaneName :: string
  xa_parameters :: "ActionParameter list"
  xa_body :: stmt

record 'k KeyField =
  kf_expression :: 'k
  kf_name :: "string option"
  kf_matchType :: string

text \<open>An element of the action list: a call of the action, and its annotations.\<close>

record ActionListElement =
  al_node :: node
  al_expression :: pexp
  al_controlPlaneName :: string
  al_defaultOnly :: bool
  al_tableOnly :: bool

record exec_table =
  xt_controlPlaneName :: string
  xt_key :: "pexp KeyField list option"
  xt_actionList :: "ActionListElement list option"
  xt_defaultAction :: pexp

text \<open>
  A resolved argument of a call: of an extern type (not resolved), a value, or a value with the
  variable the callee may write.
\<close>

datatype argument = NullArgument | Argument expr | InOutReference StateVariable expr

record ExternInfo =
  ei_originalCall :: pexp
  ei_externObjectRef :: string
  ei_methodName :: string
  ei_externArgs :: "argument list"

text \<open>A control block: parameters, local variables and the statements of its body.\<close>

record program_parameter =
  pr_name :: string
  pr_controlPlaneName :: string
  pr_type :: ty
  pr_direction :: direction

record control_block =
  cb_name :: string
  cb_applyParameters :: "program_parameter list"
  cb_controlLocals :: "(string \<times> ty \<times> pexp option) list"
  cb_body :: stmt

text \<open>What all states of an execution share, and the number of reported errors.\<close>

record 'z analysis =
  an_store :: reachability_store
  an_constraints :: "'z ControlPlaneConstraints"
  an_cache :: "'z Z3Cache"
  an_errors :: nat

type_synonym ('e, 'z) exec_state = "'e ExecutionState \<times> 'z analysis"

text \<open>A resolver has the result of the last expression it visited, besides the state it works on.\<close>

type_synonym ('e, 'z) resolver = "expr option \<times> ('e, 'z) exec_state"

record ('e, 'z) interpreter = "'e tools" +
  it_backend :: "'z z3_backend"
  it_symbols :: cp_symbols
  it_compiler :: compiler
  it_target :: target
  isSymbolicValue :: "pexp \<Rightarrow> bool"
  equate :: "expr \<Rightarrow> expr \<Rightarrow> expr"
  eliminate :: "ty \<Rightarrow> binop \<Rightarrow> expr \<Rightarrow> expr \<Rightarrow> expr"
  inOutValue :: "StateVariable \<Rightarrow> expr \<Rightarrow> expr"
  findTable :: "pexp \<Rightarrow> exec_table option"
  getP4Action :: "pexp \<Rightarrow> exec_action option"
  isAction :: "pexp \<Rightarrow> bool"
  isExternObject :: "pexp \<Rightarrow> bool"
  isHeader :: "pexp \<Rightarrow> bool"
  isExternParameter :: "pexp \<Rightarrow> nat \<Rightarrow> bool"
  getHeaderValidity :: "StateVariable \<Rightarrow> StateVariable"
  initializeStructLike :: "StateVariable \<Rightarrow> 'e \<Rightarrow> 'e"
  processExtern :: "ExternInfo \<Rightarrow> ('e, 'z) exec_state \<Rightarrow> (expr option \<times> ('e, 'z) exec_state) result"
  getCanonicalBlockName :: "string \<Rightarrow> string option"
  getParamName :: "string \<Rightarrow> nat \<Rightarrow> string"
  copyIn :: "program_parameter \<Rightarrow> string \<Rightarrow> 'e \<Rightarrow> 'e"
  copyOut :: "program_parameter \<Rightarrow> string \<Rightarrow> 'e \<Rightarrow> 'e"
  declareVariable :: "string \<times> ty \<times> pexp option \<Rightarrow> 'e \<Rightarrow> 'e"
  initializeControlState :: "control_block \<Rightarrow> ('e, 'z) exec_state \<Rightarrow> ('e, 'z) exec_state result"

text \<open>What a resolver calls back.\<close>

record ('e, 'z) callbacks =
  cb_callAction :: "exec_action \<Rightarrow> argument list \<Rightarrow> ('e, 'z) exec_state \<Rightarrow> ('e, 'z) exec_state result"
  cb_processTable :: "exec_table \<Rightarrow> ('e, 'z) resolver \<Rightarrow> (expr \<times> ('e, 'z) resolver) result"

section \<open>Expressions of the program\<close>

text \<open>Operators applied to values, and an expression of the program that is a value as it stands.\<close>

fun apply_operator :: "operator \<Rightarrow> expr list \<Rightarrow> expr option" where
  "apply_operator (Op_Unary t op) [e] = Some (Unary t op e)"
| "apply_operator (Op_Binary t op) [l, r] = Some (Binary t op l r)"
| "apply_operator (Op_Slice t hi lo) [e] = Some (Slice t e hi lo)"
| "apply_operator (Op_Mux t) [c, a, b] = Some (Mux t c a b)"
| "apply_operator Op_List es = Some (ListExpression es)"
| "apply_operator (Op_Struct ns) es = Some (StructExpression ns es)"
| "apply_operator _ _ = None"

fun as_expr :: "pexp \<Rightarrow> expr option" where
  "as_expr (PLit e) = Some e"
| "as_expr (PLNot e) = map_option mk_LNot (as_expr e)"
| "as_expr (POp f es) = assign_or_return (all_some (map as_expr es)) (apply_operator f)"
| "as_expr _ = None"

text \<open>\<open>ToolsVariables::convertReference\<close>\<close>

fun to_StateVariable :: "pexp \<Rightarrow> StateVariable option" where
  "to_StateVariable (PPath n t x) = Some (VarPath x)"
| "to_StateVariable (PMember n t e m) = map_option (\<lambda>v. VarMember v m) (to_StateVariable e)"
| "to_StateVariable (POp (Op_Binary t ArrayIndex) [l, r]) =
     assign_or_return (to_StateVariable l) (\<lambda>v. map_option (VarIndex v) (as_expr r))"
| "to_StateVariable _ = None"

text \<open>The expression under a chain of members, and the members from there on.\<close>

fun member_base :: "pexp \<Rightarrow> pexp" where
  "member_base (PMember n t e m) = member_base e"
| "member_base e = e"

fun member_ids :: "pexp \<Rightarrow> string list" where
  "member_ids (PMember n t e m) = member_ids e @ [m]"
| "member_ids e = []"

lemma member_base_size [termination_simp]: "size (member_base e) \<le> size e"
  by (induction e) auto

fun getField :: "string list \<Rightarrow> expr list \<Rightarrow> string \<Rightarrow> expr option" where
  "getField (n # ns) (e # es) m = (if n = m then Some e else getField ns es m)"
| "getField _ _ m = None"

text \<open>Following members through structure expressions; \<open>None\<close> when they end in a structure.\<close>

fun descend :: "string list \<Rightarrow> expr \<Rightarrow> expr option result" where
  "descend [] e = Inr None"
| "descend (m # ms) (StructExpression ns es) =
     and_then (or_fail Bug (getField ns es m)) (\<lambda>e.
       case e of StructExpression ns' es' \<Rightarrow> descend ms e | _ \<Rightarrow> Inr (Some e))"
| "descend (m # ms) e = Inr None"

section \<open>Steps on the state of a resolver\<close>

definition with_result :: "expr \<Rightarrow> ('e, 'z) resolver \<Rightarrow> ('e, 'z) resolver" where
  "with_result v r = (Some v, snd r)"

definition compute ::
  "(('e, 'z) resolver \<Rightarrow> ('e, 'z) resolver result) \<Rightarrow> ('e, 'z) resolver \<Rightarrow> (expr \<times> ('e, 'z) resolver) result" where
  "compute visit r = and_then (visit r) (\<lambda>r. and_then (or_fail Bug (fst r)) (\<lambda>v. Inr (v, r)))"

definition operand ::
  "('e, 'z) interpreter \<Rightarrow> pexp \<Rightarrow> (('e, 'z) resolver \<Rightarrow> ('e, 'z) resolver result) \<Rightarrow>
   ('e, 'z) resolver \<Rightarrow> (expr \<times> ('e, 'z) resolver) result" where
  "operand X e visit r =
     (if isSymbolicValue X e then and_then (or_fail Unresolved (as_expr e)) (\<lambda>v. Inr (v, r))
      else compute visit r)"

fun in_order ::
  "('a \<Rightarrow> 'r \<Rightarrow> ('v \<times> 'r) result) \<Rightarrow> 'a list \<Rightarrow> 'r \<Rightarrow> ('v list \<times> 'r) result" where
  "in_order visit [] r = Inr ([], r)"
| "in_order visit (e # es) r =
     and_then (visit e r) (\<lambda>(v, r). and_then (in_order visit es r) (\<lambda>(vs, r). Inr (v # vs, r)))"

lemma compute_cong [fundef_cong]:
  "r = r' \<Longrightarrow> (\<And>x. visit x = visit' x) \<Longrightarrow> compute visit r = compute visit' r'"
  by (simp add: compute_def)

lemma operand_cong [fundef_cong]:
  "e = e' \<Longrightarrow> r = r' \<Longrightarrow> (\<And>x. visit x = visit' x) \<Longrightarrow> operand X e visit r = operand X e' visit' r'"
  by (simp add: operand_def compute_def)

lemma in_order_cong [fundef_cong]:
  assumes "es = es'" and "r = r'" and "\<And>e x. e \<in> set es' \<Longrightarrow> visit e x = visit' e x"
  shows "in_order visit es r = in_order visit' es' r'"
proof -
  have "in_order visit es' r = in_order visit' es' r"
    using assms(3) by (induction es' arbitrary: r) simp_all
  with assms(1,2) show ?thesis by simp
qed

definition annotate_reachability ::
  "('e, 'z) interpreter \<Rightarrow> node \<Rightarrow> expr \<Rightarrow> ('e, 'z) exec_state \<Rightarrow> ('e, 'z) exec_state result" where
  "annotate_reachability X n cond st =
     and_then (addReachabilityMapping X n cond (fst st) (an_store (snd st)))
       (\<lambda>(s, h). Inr (s, (snd st)\<lparr>an_store := h\<rparr>))"

definition annotate_expression ::
  "('e, 'z) interpreter \<Rightarrow> node \<Rightarrow> ty \<Rightarrow> expr \<Rightarrow> ('e, 'z) exec_state \<Rightarrow> ('e, 'z) exec_state result" where
  "annotate_expression X n t v st =
     and_then (addExpressionMapping X n t v (fst st)) (\<lambda>s. Inr (s, snd st))"

definition on_state :: "('e ExecutionState \<Rightarrow> 'e ExecutionState) \<Rightarrow> ('e, 'z) resolver \<Rightarrow> ('e, 'z) resolver" where
  "on_state f r = (fst r, f (fst (snd r)), snd (snd r))"

text \<open>A visited value: it becomes the result and the value of the expression.\<close>

definition found_value ::
  "('e, 'z) interpreter \<Rightarrow> node \<Rightarrow> ty \<Rightarrow> expr \<Rightarrow> ('e, 'z) resolver \<Rightarrow> ('e, 'z) resolver result" where
  "found_value X n t v r = and_then (annotate_expression X n t v (snd r)) (\<lambda>st. Inr (Some v, st))"

section \<open>Members and method calls\<close>

definition checkStructLike ::
  "('e, 'z) interpreter \<Rightarrow> node \<Rightarrow> pexp \<Rightarrow> (('e, 'z) resolver \<Rightarrow> ('e, 'z) resolver result) \<Rightarrow>
   ('e, 'z) resolver \<Rightarrow> (expr option \<times> ('e, 'z) resolver) result" where
  "checkStructLike X n member visit r =
     (let ids = member_ids member;
          addMapping = (last ids = ''hit'' \<or> last ids = ''miss'') in
      and_then
        (case member_base member of
           PCall cn m ds args \<Rightarrow>
             and_then (compute visit r) (\<lambda>(v, r).
               case v of StructExpression ns es \<Rightarrow> Inr (Some v, r) | _ \<Rightarrow> Inl Bug)
         | POp (Op_Struct ns) es \<Rightarrow>
             and_then (or_fail Unresolved (as_expr (member_base member))) (\<lambda>v. Inr (Some v, r))
         | _ \<Rightarrow> Inr (None, r))
        (\<lambda>(structExpr, r).
           case structExpr of
             None \<Rightarrow> Inr (None, r)
           | Some se \<Rightarrow>
               and_then (descend ids se) (\<lambda>found.
                 case found of
                   None \<Rightarrow> Inr (None, r)
                 | Some v \<Rightarrow>
                     and_then (if addMapping then annotate_reachability X n v (snd r) else Inr (snd r))
                       (\<lambda>st. Inr (Some v, (fst r, st))))))"

lemma checkStructLike_cong [fundef_cong]:
  assumes "n = n'" and "member = member'" and "r = r'" and "\<And>x. visit x = visit' x"
  shows "checkStructLike X n member visit r = checkStructLike X n' member' visit' r'"
proof -
  have "visit = visit'" using assms(4) by (intro ext)
  with assms(1-3) show ?thesis by simp
qed

definition resolve_argument ::
  "('e, 'z) interpreter \<Rightarrow> pexp \<Rightarrow> direction list \<Rightarrow> pexp \<Rightarrow>
   (('e, 'z) resolver \<Rightarrow> ('e, 'z) resolver result) \<Rightarrow> nat \<times> ('e, 'z) resolver \<Rightarrow>
   (argument \<times> nat \<times> ('e, 'z) resolver) result" where
  "resolve_argument X method methodParams arg visit ir =
     (case ir of
        (idx, r) \<Rightarrow>
          if length methodParams \<le> idx then Inl Bug
          else if isExternParameter X method idx then Inr (NullArgument, (Suc idx, r))
          else and_then (compute visit r) (\<lambda>(computedExpr, r).
            if methodParams ! idx = InOut \<or> methodParams ! idx = Out
            then and_then (or_fail Bug (to_StateVariable arg)) (\<lambda>stateVar.
              Inr (InOutReference stateVar computedExpr, (Suc idx, r)))
            else Inr (Argument computedExpr, (Suc idx, r))))"

lemma resolve_argument_cong [fundef_cong]:
  assumes "method = method'" and "ps = ps'" and "e = e'" and "r = r'" and "\<And>x. visit x = visit' x"
  shows "resolve_argument X method ps e visit r = resolve_argument X method' ps' e' visit' r'"
proof -
  have "visit = visit'" using assms(5) by (intro ext)
  with assms(1-4) show ?thesis by simp
qed

text \<open>\<open>setValid\<close>, \<open>setInvalid\<close> and \<open>isValid\<close> of a header.\<close>

definition header_method ::
  "('e, 'z) interpreter \<Rightarrow> pexp \<Rightarrow> string \<Rightarrow> ('e, 'z) resolver \<Rightarrow> ('e, 'z) resolver result" where
  "header_method X header member r =
     and_then (or_fail Bug (to_StateVariable header)) (\<lambda>headerRef.
       if member = ''setValid''
       then Inr (on_state (\<lambda>s. es_set X (getHeaderValidity X headerRef) (BoolLiteral True)
                   (s\<lparr>es_env := initializeStructLike X headerRef (es_env s)\<rparr>)) r)
       else if member = ''setInvalid''
       then Inr (on_state (\<lambda>s. s\<lparr>es_env := initializeStructLike X headerRef (es_env s)\<rparr>) r)
       else if member = ''isValid''
       then and_then (es_get X (fst (snd r)) (getHeaderValidity X headerRef) Type_Boolean)
              (\<lambda>v. Inr (with_result v r))
       else Inl Unimplemented)"

definition call_extern ::
  "('e, 'z) interpreter \<Rightarrow> ExternInfo \<Rightarrow> ('e, 'z) resolver \<Rightarrow> ('e, 'z) resolver result" where
  "call_extern X info r = processExtern X info (snd r)"

definition call_method ::
  "('e, 'z) interpreter \<Rightarrow> ('e, 'z) callbacks \<Rightarrow> pexp \<Rightarrow> pexp \<Rightarrow> argument list \<Rightarrow>
   ('e, 'z) resolver \<Rightarrow> ('e, 'z) resolver result" where
  "call_method X C call method resolvedArgs r =
     (if isAction X method
      then and_then (or_fail Bug (getP4Action X call)) (\<lambda>actionType.
           and_then (cb_callAction C actionType resolvedArgs (snd r)) (\<lambda>st. Inr (fst r, st)))
      else case method of
        PPath n t x \<Rightarrow>
          call_extern X \<lparr>ei_originalCall = call, ei_externObjectRef = ''*method'', ei_methodName = x,
                         ei_externArgs = resolvedArgs\<rparr> r
      | PMember n t obj member \<Rightarrow>
          if isExternObject X obj
          then (case obj of
                  PPath n' t' x \<Rightarrow>
                    call_extern X \<lparr>ei_originalCall = call, ei_externObjectRef = x, ei_methodName = member,
                                   ei_externArgs = resolvedArgs\<rparr> r
                | _ \<Rightarrow> Inl Bug)
          else (case findTable X method of
                  Some table \<Rightarrow> and_then (cb_processTable C table r) (\<lambda>(v, r). Inr (with_result v r))
                | None \<Rightarrow> if isHeader X obj then header_method X obj member r else Inl Unimplemented)
      | _ \<Rightarrow> Inl Unimplemented)"

section \<open>The expression resolver\<close>

text \<open>
  What an operator makes of its operands: equality may compare structures and lists, saturating
  operators are replaced by conditionals.
\<close>

fun operator_result :: "('e, 'z) interpreter \<Rightarrow> operator \<Rightarrow> expr list \<Rightarrow> expr result" where
  "operator_result X (Op_Binary t Equ) [left, right] = Inr (equate X left right)"
| "operator_result X (Op_Binary t Neq) [left, right] = Inr (mk_LNot (equate X left right))"
| "operator_result X (Op_Saturating t op) [left, right] = Inr (eliminate X t op left right)"
| "operator_result X f es = or_fail Bug (apply_operator f es)"

definition resolve_operands ::
  "('e, 'z) interpreter \<Rightarrow> operator \<Rightarrow> pexp list \<Rightarrow>
   (pexp \<Rightarrow> ('e, 'z) resolver \<Rightarrow> ('e, 'z) resolver result) \<Rightarrow>
   ('e, 'z) resolver \<Rightarrow> ('e, 'z) resolver result" where
  "resolve_operands X f es visit r =
     and_then (in_order (\<lambda>e. operand X e (visit e)) es r) (\<lambda>(vs, r).
     and_then (operator_result X f vs) (\<lambda>v. Inr (with_result v r)))"

definition resolve_struct ::
  "string list \<Rightarrow> pexp list \<Rightarrow> (pexp \<Rightarrow> ('e, 'z) resolver \<Rightarrow> ('e, 'z) resolver result) \<Rightarrow>
   ('e, 'z) resolver \<Rightarrow> ('e, 'z) resolver result" where
  "resolve_struct ns es visit r =
     and_then (in_order (\<lambda>e. compute (visit e)) es r) (\<lambda>(vs, r). Inr (with_result (StructExpression ns vs) r))"

definition resolve_index ::
  "('e, 'z) interpreter \<Rightarrow> ty \<Rightarrow> pexp \<Rightarrow> pexp \<Rightarrow> (pexp \<Rightarrow> ('e, 'z) resolver \<Rightarrow> ('e, 'z) resolver result) \<Rightarrow>
   ('e, 'z) resolver \<Rightarrow> ('e, 'z) resolver result" where
  "resolve_index X t left right visit r =
     and_then (operand X right (visit right) r) (\<lambda>(right, r).
     and_then (or_fail Bug (to_StateVariable left)) (\<lambda>left.
     and_then (es_get X (fst (snd r)) (VarIndex left right) t) (\<lambda>v. Inr (with_result v r))))"

text \<open>
  The branch of a conditional that is taken when its condition holds is resolved in a state of its own,
  after the other branch.
\<close>

definition resolve_mux ::
  "('e, 'z) interpreter \<Rightarrow> ty \<Rightarrow> pexp \<Rightarrow> pexp \<Rightarrow> pexp \<Rightarrow>
   (pexp \<Rightarrow> ('e, 'z) resolver \<Rightarrow> ('e, 'z) resolver result) \<Rightarrow>
   ('e, 'z) resolver \<Rightarrow> ('e, 'z) resolver result" where
  "resolve_mux X t e0 e1 e2 visit r =
     and_then (operand X e0 (visit e0) r) (\<lambda>(cond, r).
     and_then (operand X e2 (visit e2) r) (\<lambda>(elseExpr, r).
     and_then
       (if isSymbolicValue X e1 then and_then (or_fail Unresolved (as_expr e1)) (\<lambda>v. Inr (v, r))
        else (let oldState = fst (snd r) in
              and_then (compute (visit e1) (on_state (pushExecutionCondition cond) r)) (\<lambda>(v, r).
              Inr (v, on_state (\<lambda>trueState. es_merge X trueState oldState) r))))
       (\<lambda>(ifExpr, r). Inr (with_result (Mux t cond ifExpr elseExpr) r))))"

lemma resolve_mux_cong [fundef_cong]:
  assumes "t = t'" and "e0 = e0'" and "e1 = e1'" and "e2 = e2'" and "r = r'"
    and "\<And>e x. e \<in> {e0', e1', e2'} \<Longrightarrow> visit e x = visit' e x"
  shows "resolve_mux X t e0 e1 e2 visit r = resolve_mux X t' e0' e1' e2' visit' r'"
proof -
  have "visit e0' = visit' e0'" "visit e1' = visit' e1'" "visit e2' = visit' e2'"
    using assms(6) by (auto intro!: ext)
  with assms(1-5) show ?thesis by (simp only: resolve_mux_def)
qed

fun resolve_operator ::
  "('e, 'z) interpreter \<Rightarrow> operator \<Rightarrow> pexp list \<Rightarrow>
   (pexp \<Rightarrow> ('e, 'z) resolver \<Rightarrow> ('e, 'z) resolver result) \<Rightarrow>
   ('e, 'z) resolver \<Rightarrow> ('e, 'z) resolver result" where
  "resolve_operator X (Op_Mux t) [e0, e1, e2] visit r = resolve_mux X t e0 e1 e2 visit r"
| "resolve_operator X (Op_Binary t ArrayIndex) [left, right] visit r = resolve_index X t left right visit r"
| "resolve_operator X (Op_Struct ns) es visit r = resolve_struct ns es visit r"
| "resolve_operator X f es visit r = resolve_operands X f es visit r"

lemma resolve_operator_cong [fundef_cong]:
  assumes "f = f'" and "es = es'" and "r = r'" and "\<And>e x. e \<in> set es' \<Longrightarrow> visit e x = visit' e x"
  shows "resolve_operator X f es visit r = resolve_operator X f' es' visit' r'"
proof -
  have v: "visit e = visit' e" if "e \<in> set es'" for e using assms(4) [OF that] by (intro ext)
  have operands: "resolve_operands X f' es' visit r' = resolve_operands X f' es' visit' r'"
    using v in_order_cong [of es' es' r' r' "\<lambda>e. operand X e (visit e)" "\<lambda>e. operand X e (visit' e)"]
    by (simp add: resolve_operands_def)
  have struct: "resolve_struct ns es' visit r' = resolve_struct ns es' visit' r'" for ns
    using v in_order_cong [of es' es' r' r' "\<lambda>e. compute (visit e)" "\<lambda>e. compute (visit' e)"]
    by (simp add: resolve_struct_def)
  have mux: "resolve_mux X t e0 e1 e2 visit r' = resolve_mux X t e0 e1 e2 visit' r'"
    if "es' = [e0, e1, e2]" for t e0 e1 e2
    using that v by (intro resolve_mux_cong) auto
  have ix: "resolve_index X t left right visit r' = resolve_index X t left right visit' r'"
    if "es' = [left, right]" for t left right using that v by (simp add: resolve_index_def)
  have "resolve_operator X f' es' visit r' = resolve_operator X f' es' visit' r'"
    by (cases "(X, f', es', visit, r')" rule: resolve_operator.cases)
      (use operands struct mux ix in simp_all)
  with assms(1-3) show ?thesis by simp
qed

fun resolve ::
  "('e, 'z) interpreter \<Rightarrow> ('e, 'z) callbacks \<Rightarrow> pexp \<Rightarrow> ('e, 'z) resolver \<Rightarrow> ('e, 'z) resolver result" where
  "resolve X C (PLit l) r = Inr (with_result l r)"
| "resolve X C (PPath n t x) r =
     and_then (es_get X (fst (snd r)) (VarPath x) t) (\<lambda>v. found_value X n t v r)"
| "resolve X C (PMember n t e m) r =
     and_then (checkStructLike X n (PMember n t e m) (\<lambda>r. resolve X C (member_base e) r) r) (\<lambda>(structExpr, r).
     and_then
       (case structExpr of
          Some v \<Rightarrow> Inr v
        | None \<Rightarrow>
            and_then (or_fail Bug (to_StateVariable (PMember n t e m))) (\<lambda>var. es_get X (fst (snd r)) var t))
       (\<lambda>v. found_value X n t v r))"
| "resolve X C (PLNot e) r =
     and_then (operand X e (\<lambda>r. resolve X C e r) r) (\<lambda>(v, r). Inr (with_result (mk_LNot v) r))"
| "resolve X C (POp f es) r = resolve_operator X f es (\<lambda>e r. resolve X C e r) r"
| "resolve X C (PCall n method ds args) r =
     (case ds of
        None \<Rightarrow> Inl Bug
      | Some methodParams \<Rightarrow>
          and_then
            (in_order (\<lambda>arg. resolve_argument X method methodParams arg (\<lambda>r. resolve X C arg r)) args (0, r))
            (\<lambda>(resolvedArgs, idx, r). call_method X C (PCall n method ds args) method resolvedArgs r))"

abbreviation computeResult ::
  "('e, 'z) interpreter \<Rightarrow> ('e, 'z) callbacks \<Rightarrow> pexp \<Rightarrow> ('e, 'z) resolver \<Rightarrow>
   (expr \<times> ('e, 'z) resolver) result" where
  "computeResult X C e \<equiv> compute (resolve X C e)"

end
