(* ===== verification/ExternMethods.thy ===== *)
theory ExternMethods
  imports ExpressionResolver
begin

text \<open>
  How the calls of externs find their implementation (\<open>interpreter/externs.cpp\<close>), and the externs of
  the core library (\<open>interpreter/expression_resolver.cpp\<close>). An implementation is a function on the
  state of the execution; its result is absent for externs that return nothing.
\<close>

section \<open>Implementations by name\<close>

type_synonym ('e, 'z) MethodImpl =
  "ExternInfo \<Rightarrow> ('e, 'z) exec_state \<Rightarrow> (expr option \<times> ('e, 'z) exec_state) result"

text \<open>
  The implementations by the qualified name of the method and the number of its parameters; \<open>map_at\<close> is
  the access operator of a map, which inserts what is not there.
\<close>

type_synonym 'i impl_map = "(string, (nat, (string list \<times> 'i) list) std_map) std_map"

definition map_at :: "'v \<Rightarrow> ('k :: linorder) \<Rightarrow> ('v \<Rightarrow> 'v) \<Rightarrow> ('k, 'v) std_map \<Rightarrow> ('k, 'v) std_map" where
  "map_at v0 k f m =
     (case map_find m k of None \<Rightarrow> map_insert k (f v0) m | Some v \<Rightarrow> map_assign k (f v) m)"

definition impl_list :: "'i impl_map \<Rightarrow> string \<Rightarrow> nat \<Rightarrow> (string list \<times> 'i) list" where
  "impl_list impls name n =
     (case map_find impls name of
        None \<Rightarrow> []
      | Some submap \<Rightarrow> (case map_find submap n of None \<Rightarrow> [] | Some l \<Rightarrow> l))"

fun mk_ExternMethodImpls :: "(string \<times> string list \<times> 'i) list \<Rightarrow> 'i impl_map \<Rightarrow> 'i impl_map result" where
  "mk_ExternMethodImpls [] impls = Inr impls"
| "mk_ExternMethodImpls ((name, paramNames, impl) # inputImplList) impls =
     (if \<exists>pair \<in> set (impl_list impls name (length paramNames)). fst pair = paramNames then Inl Bug
      else mk_ExternMethodImpls inputImplList
             (map_at [] name (map_at [] (length paramNames) (\<lambda>l. l @ [(paramNames, impl)])) impls))"

text \<open>An argument with a name must have the name of the parameter.\<close>

definition matches :: "string list \<Rightarrow> string option list \<Rightarrow> bool" where
  "matches paramNames args \<longleftrightarrow>
     length paramNames = length args \<and>
     (\<forall>(paramName, arg) \<in> set (zip paramNames args). arg = None \<or> arg = Some paramName)"

fun matching_impl :: "string option list \<Rightarrow> (string list \<times> 'i) list \<Rightarrow> 'i option \<Rightarrow> 'i option result" where
  "matching_impl args [] found = Inr found"
| "matching_impl args ((paramNames, impl) # pairs) found =
     (if matches paramNames args
      then if found \<noteq> None then Inl Bug else matching_impl args pairs (Some impl)
      else matching_impl args pairs found)"

definition find_impl :: "'i impl_map \<Rightarrow> string \<Rightarrow> string \<Rightarrow> string option list \<Rightarrow> 'i option result" where
  "find_impl impls externType methodName args =
     matching_impl args (impl_list impls (externType @ ''.'' @ methodName) (length args)) None"

section \<open>Look-up is a search\<close>

lemma map_at_sorted [store_simps]: "map_sorted m \<Longrightarrow> map_sorted (map_at v0 k f m)"
  by (simp add: map_at_def store_simps split: option.split)

lemma map_find_at [store_simps]:
  "map_sorted m \<Longrightarrow> map_find (map_at v0 k f m) k' =
     (if k' = k then Some (f (case map_find m k of None \<Rightarrow> v0 | Some v \<Rightarrow> v)) else map_find m k')"
  by (auto simp: map_at_def store_simps split: option.split)

definition impls_sorted :: "'i impl_map \<Rightarrow> bool" where
  "impls_sorted impls \<longleftrightarrow> map_sorted impls \<and> (\<forall>name submap. map_find impls name = Some submap \<longrightarrow> map_sorted submap)"

lemma map_sorted_Nil [simp]: "map_sorted []"
  by (simp add: map_sorted_def)

lemma impls_sorted_add:
  "impls_sorted impls \<Longrightarrow> impls_sorted (map_at [] name (map_at [] n g) impls)"
  by (auto simp: impls_sorted_def store_simps split: option.splits if_splits)

lemma impl_list_add:
  assumes "impls_sorted impls"
  shows "impl_list (map_at [] name (map_at [] n g) impls) name' n' =
    (if name' = name \<and> n' = n then g (impl_list impls name n) else impl_list impls name' n')"
proof -
  have "map_sorted submap" if "map_find impls name = Some submap" for submap
    using assms that by (auto simp: impls_sorted_def)
  then show ?thesis
    using assms by (auto simp: impl_list_def impls_sorted_def store_simps split: option.splits)
qed

text \<open>The list of implementations of a name and a number of parameters, in the order of the input.\<close>

definition overloads :: "(string \<times> string list \<times> 'i) list \<Rightarrow> string \<Rightarrow> nat \<Rightarrow> (string list \<times> 'i) list" where
  "overloads specs name n = map snd (filter (\<lambda>(name', ps, impl). name' = name \<and> length ps = n) specs)"

lemma overloads_Cons:
  "overloads ((name', ps, impl) # specs) name n =
     (if name' = name \<and> length ps = n then (ps, impl) # overloads specs name n else overloads specs name n)"
  by (simp add: overloads_def)

lemma mk_impls_lists:
  assumes "mk_ExternMethodImpls specs impls = Inr impls'" and "impls_sorted impls"
  shows "impl_list impls' name n = impl_list impls name n @ overloads specs name n"
  using assms
proof (induction specs impls arbitrary: impls' rule: mk_ExternMethodImpls.induct)
  case (2 name' ps impl specs impls)
  let ?impls = "map_at [] name' (map_at [] (length ps) (\<lambda>l. l @ [(ps, impl)])) impls"
  have "mk_ExternMethodImpls specs ?impls = Inr impls'"
    and new: "\<not> (\<exists>pair \<in> set (impl_list impls name' (length ps)). fst pair = ps)"
    using "2.prems"(1) by (auto split: if_splits)
  from "2.IH" [OF new this(1) impls_sorted_add [OF "2.prems"(2)]]
  show ?case by (simp add: impl_list_add [OF "2.prems"(2)] overloads_Cons)
qed (simp add: overloads_def)

lemma mk_impls_ok:
  assumes "impls_sorted impls" and "distinct (map (\<lambda>(name, ps, impl). (name, ps)) specs)"
    and "\<And>name ps impl. (name, ps, impl) \<in> set specs \<Longrightarrow> ps \<notin> fst ` set (impl_list impls name (length ps))"
  shows "\<exists>impls'. mk_ExternMethodImpls specs impls = Inr impls'"
  using assms
proof (induction specs impls rule: mk_ExternMethodImpls.induct)
  case (2 name ps impl specs impls)
  let ?impls = "map_at [] name (map_at [] (length ps) (\<lambda>l. l @ [(ps, impl)])) impls"
  have new: "\<not> (\<exists>pair \<in> set (impl_list impls name (length ps)). fst pair = ps)"
    using "2.prems"(3) [of name ps impl] by auto
  have "\<exists>impls'. mk_ExternMethodImpls specs ?impls = Inr impls'"
  proof (rule "2.IH" [OF new impls_sorted_add [OF "2.prems"(1)]])
    show "distinct (map (\<lambda>(name, ps, impl). (name, ps)) specs)" using "2.prems"(2) by simp
    fix name' ps' impl' assume x: "(name', ps', impl') \<in> set specs"
    then have "(name', ps') \<noteq> (name, ps)" using "2.prems"(2) by force
    with x "2.prems"(3) [of name' ps' impl'] show "ps' \<notin> fst ` set (impl_list ?impls name' (length ps'))"
      by (auto simp: impl_list_add [OF "2.prems"(1)])
  qed
  with new show ?case by simp
qed simp

lemma mk_impls_duplicate:
  assumes "impls_sorted impls" and "mk_ExternMethodImpls specs impls = Inr impls'"
  shows "distinct (map (\<lambda>(name, ps, impl). (name, ps)) specs) \<and>
    (\<forall>(name, ps, impl) \<in> set specs. ps \<notin> fst ` set (impl_list impls name (length ps)))"
  using assms
proof (induction specs impls rule: mk_ExternMethodImpls.induct)
  case (2 name ps impl specs impls)
  let ?impls = "map_at [] name (map_at [] (length ps) (\<lambda>l. l @ [(ps, impl)])) impls"
  have new: "\<not> (\<exists>pair \<in> set (impl_list impls name (length ps)). fst pair = ps)"
    and "mk_ExternMethodImpls specs ?impls = Inr impls'" using "2.prems"(2) by (auto split: if_splits)
  note rest = "2.IH" [OF new impls_sorted_add [OF "2.prems"(1)] this(2)]
  have later: "(name', ps') \<noteq> (name, ps) \<and> ps' \<notin> fst ` set (impl_list impls name' (length ps'))"
    if "(name', ps', impl') \<in> set specs" for name' ps' impl'
    using rest that by (fastforce simp: impl_list_add [OF "2.prems"(1)] split: if_splits)
  have "ps \<notin> fst ` set (impl_list impls name (length ps))" using new by blast
  moreover have "\<forall>(name, ps, impl) \<in> set specs. ps \<notin> fst ` set (impl_list impls name (length ps))" using later by blast
  moreover have "(name, ps) \<notin> set (map (\<lambda>(name, ps, impl). (name, ps)) specs)" using later by auto
  ultimately show ?case using rest by simp
qed simp

lemma matching_impl_found:
  "matching_impl args pairs (Some i) =
     (if filter (\<lambda>(ps, impl). matches ps args) pairs = [] then Inr (Some i) else Inl Bug)"
  by (induction pairs) auto

lemma matching_impl_search:
  "matching_impl args pairs None =
     (case filter (\<lambda>(ps, impl). matches ps args) pairs of
        [] \<Rightarrow> Inr None | [(ps, impl)] \<Rightarrow> Inr (Some impl) | _ \<Rightarrow> Inl Bug)"
  by (induction pairs) (auto simp: matching_impl_found split: list.split)

lemma overloads_matching:
  "filter (\<lambda>(ps, impl). matches ps args) (overloads specs name (length args)) =
     map snd (filter (\<lambda>(name', ps, impl). name' = name \<and> matches ps args) specs)"
  by (induction specs) (auto simp: overloads_def matches_def)

lemma find_impl_search:
  assumes "mk_ExternMethodImpls specs [] = Inr impls"
  shows "find_impl impls externType methodName args =
    (case filter (\<lambda>(name, ps, impl). name = externType @ ''.'' @ methodName \<and> matches ps args) specs of
       [] \<Rightarrow> Inr None | [(name, ps, impl)] \<Rightarrow> Inr (Some impl) | _ \<Rightarrow> Inl Bug)"
proof -
  have "impls_sorted []" by (simp add: impls_sorted_def)
  then have "impl_list impls name n = overloads specs name n" for name n
    using mk_impls_lists [OF assms] by (simp add: impl_list_def)
  then have "find_impl impls externType methodName args =
      (case map snd (filter (\<lambda>(name, ps, impl). name = externType @ ''.'' @ methodName \<and> matches ps args) specs) of
         [] \<Rightarrow> Inr None | [(ps, impl)] \<Rightarrow> Inr (Some impl) | _ \<Rightarrow> Inl Bug)"
    by (simp add: find_impl_def matching_impl_search overloads_matching)
  then show ?thesis by (auto split: list.split)
qed

lemma mk_impls_iff:
  "(\<exists>impls. mk_ExternMethodImpls specs [] = Inr impls) \<longleftrightarrow> distinct (map (\<lambda>(name, ps, impl). (name, ps)) specs)"
  using mk_impls_ok [of "[]" specs] mk_impls_duplicate [of "[]" specs] by (auto simp: impls_sorted_def impl_list_def)

lemma mk_impls_failure: "mk_ExternMethodImpls specs impls = Inl failure \<Longrightarrow> failure = Bug"
  by (induction specs impls rule: mk_ExternMethodImpls.induct) (auto split: if_splits)

text \<open>
  The table of implementations is what it is written as: it is accepted exactly when no two
  implementations have the same name and the same parameter names, and a look-up gives the only
  implementation of the list with the qualified name, the number of arguments and the names of the
  named arguments, nothing when there is none, and an error when there are several.
\<close>

lemma extern_lookup:
  "(case mk_ExternMethodImpls specs [] of
      Inl failure \<Rightarrow> failure = Bug \<and> \<not> distinct (map (\<lambda>(name, ps, impl). (name, ps)) specs)
    | Inr impls \<Rightarrow> distinct (map (\<lambda>(name, ps, impl). (name, ps)) specs) \<and>
        find_impl impls externType methodName args =
          (case filter (\<lambda>(name, ps, impl). name = externType @ ''.'' @ methodName \<and> matches ps args) specs of
             [] \<Rightarrow> Inr None | [(name, ps, impl)] \<Rightarrow> Inr (Some impl) | _ \<Rightarrow> Inl Bug))"
proof (cases "mk_ExternMethodImpls specs []")
  case (Inl failure)
  with mk_impls_iff [of specs] mk_impls_failure [OF Inl] show ?thesis by simp
next
  case (Inr impls)
  with mk_impls_iff [of specs] find_impl_search [OF Inr] show ?thesis by auto
qed

section \<open>The externs of the core library\<close>

text \<open>
  What the implementations read of the program, and operations of the tools' library: the name of the
  type of an extern object, the names of the arguments of a call, references and their types, the
  fields of a header, and the types a call and the instance it is made on are specialized with.
\<close>

record 'e extern_tools = "'e tools" +
  xt_externType :: "string \<Rightarrow> string option"
  xt_argumentName :: "pexp \<Rightarrow> nat \<Rightarrow> string option"
  xt_toString :: "StateVariable \<Rightarrow> string"
  xt_refType :: "StateVariable \<Rightarrow> ty"
  xt_isHeader :: "StateVariable \<Rightarrow> bool"
  xt_getHeaderValidity :: "StateVariable \<Rightarrow> StateVariable"
  xt_getFlatFields :: "'e \<Rightarrow> StateVariable \<Rightarrow> StateVariable list"
  xt_inOutValue :: "StateVariable \<Rightarrow> expr \<Rightarrow> expr"
  xt_typeArguments :: "pexp \<Rightarrow> ty list"
  xt_returnType :: "pexp \<Rightarrow> ty option"
  xt_instanceTypeArguments :: "string \<Rightarrow> ty list option"

fun call_clone_id :: "pexp \<Rightarrow> nat" where
  "call_clone_id (PCall n m ds args) = n_clone_id n"
| "call_clone_id _ = 0"

text \<open>The label of what a call leaves open: the object, the method and the number of the call.\<close>

definition call_label :: "ExternInfo \<Rightarrow> string" where
  "call_label info =
     ei_externObjectRef info @ ''_'' @ ei_methodName info @ ''_'' @
     number_string (call_clone_id (ei_originalCall info))"

text \<open>\<open>args->at(i)->expression\<close> as a reference the extern may write, and as a value.\<close>

definition ref_argument :: "ExternInfo \<Rightarrow> nat \<Rightarrow> StateVariable result" where
  "ref_argument info i =
     (if length (ei_externArgs info) \<le> i then Inl Bug
      else case ei_externArgs info ! i of InOutReference ref e \<Rightarrow> Inr ref | _ \<Rightarrow> Inl Bug)"

definition value_argument :: "('e, 'm) extern_tools_scheme \<Rightarrow> ExternInfo \<Rightarrow> nat \<Rightarrow> expr result" where
  "value_argument T info i =
     (if length (ei_externArgs info) \<le> i then Inl Bug
      else case ei_externArgs info ! i of
             NullArgument \<Rightarrow> Inl Bug | Argument e \<Rightarrow> Inr e | InOutReference ref e \<Rightarrow> Inr (xt_inOutValue T ref e))"

definition set_var :: "('e, 'm) tools_scheme \<Rightarrow> StateVariable \<Rightarrow> expr \<Rightarrow> ('e, 'z) exec_state \<Rightarrow> ('e, 'z) exec_state" where
  "set_var T var v st = (es_set T var v (fst st), snd st)"

definition no_op :: "('e, 'z) MethodImpl" where
  "no_op info st = Inr (None, st)"

definition unimplemented :: "('e, 'z) MethodImpl" where
  "unimplemented info st = Inl Unimplemented"

definition return_variable :: "ty \<Rightarrow> ('e, 'z) MethodImpl" where
  "return_variable t info st = Inr (Some (SymbolicVariable (getSymbolicVariable t (call_label info))), st)"

text \<open>
  Extracting a header: its validity and its fields become data-plane variables of their own. The variant
  for headers of variable size ignores the size and sets the same variables; it differs for fields of
  variable size only, which the types of the model do not have.
\<close>

definition extract_label :: "('e, 'm) extern_tools_scheme \<Rightarrow> ExternInfo \<Rightarrow> StateVariable \<Rightarrow> string" where
  "extract_label T info ref = ei_externObjectRef info @ ''_'' @ ei_methodName info @ ''_'' @ xt_toString T ref"

definition packet_in_extract :: "('e, 'm) extern_tools_scheme \<Rightarrow> ('e, 'z) MethodImpl" where
  "packet_in_extract T info st =
     and_then (ref_argument info 0) (\<lambda>extractRef.
     if \<not> xt_isHeader T extractRef then Inl Bug
     else
       (let st = set_var T (xt_getHeaderValidity T extractRef)
                   (DataPlaneVariable Type_Boolean (extract_label T info extractRef)) st;
            flatFields = xt_getFlatFields T (es_env (fst st)) extractRef in
        Inr (None, fold (\<lambda>field. set_var T field
                     (DataPlaneVariable (xt_refType T field)
                       (extract_label T info extractRef @ ''_'' @ xt_toString T field))) flatFields st)))"

definition packet_in_lookahead :: "('e, 'm) extern_tools_scheme \<Rightarrow> ('e, 'z) MethodImpl" where
  "packet_in_lookahead T info st =
     (case xt_typeArguments T (ei_originalCall info) of
        [lookaheadType] \<Rightarrow> and_then (createSymbolicExpression lookaheadType (call_label info)) (\<lambda>v. Inr (Some v, st))
      | _ \<Rightarrow> Inl Bug)"

definition core_externs :: "('e, 'm) extern_tools_scheme \<Rightarrow> (string \<times> string list \<times> ('e, 'z) MethodImpl) list" where
  "core_externs T =
     [(''packet_in.extract'', [''hdr''], packet_in_extract T),
      (''packet_in.extract'', [''hdr'', ''sizeInBits''], packet_in_extract T),
      (''packet_in.lookahead'', [], packet_in_lookahead T),
      (''packet_in.advance'', [''sizeInBits''], no_op),
      (''packet_in.length'', [], return_variable (Type_Bits 32 False)),
      (''packet_out.emit'', [''hdr''], no_op),
      (''*method.verify'', [''bool'', ''error''], no_op)]"

text \<open>
  Every resolver first looks into a table of its own and leaves what it does not find to the class it
  is derived from.
\<close>

definition argument_names :: "('e, 'm) extern_tools_scheme \<Rightarrow> ExternInfo \<Rightarrow> string option list" where
  "argument_names T info = map (xt_argumentName T (ei_originalCall info)) [0..<length (ei_externArgs info)]"

definition process_with ::
  "('e, 'm) extern_tools_scheme \<Rightarrow> (string \<times> string list \<times> ('e, 'z) MethodImpl) list \<Rightarrow>
   ('e, 'z) MethodImpl \<Rightarrow> ('e, 'z) MethodImpl" where
  "process_with T specs base info st =
     and_then (mk_ExternMethodImpls specs []) (\<lambda>impls.
     and_then (or_fail Bug (xt_externType T (ei_externObjectRef info))) (\<lambda>externType.
     and_then (find_impl impls externType (ei_methodName info) (argument_names T info)) (\<lambda>found.
       case found of Some impl \<Rightarrow> impl info st | None \<Rightarrow> base info st)))"

definition core_processExtern :: "('e, 'm) extern_tools_scheme \<Rightarrow> ('e, 'z) MethodImpl" where
  "core_processExtern T = process_with T (core_externs T) unimplemented"

section \<open>Calls\<close>

lemma process_with_found:
  assumes "distinct (map (\<lambda>(name, ps, impl). (name, ps)) specs)" and "xt_externType T (ei_externObjectRef info) = Some externType"
    and "filter (\<lambda>(name, ps, impl). name = externType @ ''.'' @ ei_methodName info \<and> matches ps (argument_names T info)) specs =
      [(name, ps, impl)]"
  shows "process_with T specs base info st = impl info st"
proof -
  obtain impls where impls: "mk_ExternMethodImpls specs [] = Inr impls" using assms(1) mk_impls_iff by blast
  have "find_impl impls externType (ei_methodName info) (argument_names T info) = Inr (Some impl)"
    unfolding find_impl_search [OF impls] assms(3) by simp
  then show ?thesis by (simp add: process_with_def impls assms(2))
qed

text \<open>What a call does is what an implementation of the table or of the base class does.\<close>

lemma process_with_cases:
  "process_with T specs base info st = Inl Bug \<or> process_with T specs base info st = base info st \<or>
   (\<exists>(name, ps, impl) \<in> set specs. process_with T specs base info st = impl info st)"
proof (cases "mk_ExternMethodImpls specs []")
  case (Inl failure)
  then show ?thesis using mk_impls_failure by (auto simp: process_with_def)
next
  case impls: (Inr impls)
  show ?thesis
  proof (cases "xt_externType T (ei_externObjectRef info)")
    case (Some externType)
    let ?P = "\<lambda>(name, ps, impl). name = externType @ ''.'' @ ei_methodName info \<and> matches ps (argument_names T info)"
    note search = find_impl_search [OF impls, of externType "ei_methodName info" "argument_names T info"]
    show ?thesis
    proof (cases "filter ?P specs")
      case Nil
      then show ?thesis using search by (simp add: process_with_def impls Some)
    next
      case (Cons x xs)
      obtain name ps impl where x: "x = (name, ps, impl)" by (cases x)
      have "x \<in> set (filter ?P specs)" using Cons by simp
      then have "x \<in> set specs" unfolding set_filter by blast
      with search Cons x show ?thesis by (cases xs) (auto simp: process_with_def impls Some)
    qed
  qed (simp add: process_with_def impls)
qed

text \<open>The variables a call may write: those it is given to write, and what belongs to them.\<close>

definition written_vars :: "('e, 'm) extern_tools_scheme \<Rightarrow> ExternInfo \<Rightarrow> StateVariable set" where
  "written_vars T info =
     {v. \<exists>ref e E. InOutReference ref e \<in> set (ei_externArgs info) \<and>
        (v = ref \<or> v = xt_getHeaderValidity T ref \<or> v \<in> set (xt_getFlatFields T E ref) \<or> v = VarMember ref ''egress_spec'')}"

text \<open>An implementation that changes the values of the variables \<open>W\<close> only.\<close>

definition changes_only ::
  "('e, 'm) tools_scheme \<Rightarrow> StateVariable set \<Rightarrow> ('e, 'z) exec_state \<Rightarrow> ('e, 'z) exec_state \<Rightarrow> bool" where
  "changes_only T W st st' \<longleftrightarrow>
     snd st' = snd st \<and> (\<exists>E. fst st' = (fst st)\<lparr>es_env := E\<rparr>) \<and>
     (\<forall>v. v \<notin> W \<longrightarrow> env_get T (es_env (fst st')) v = env_get T (es_env (fst st)) v)"

lemma changes_only_refl [simp]: "changes_only T W st st"
proof -
  have "fst st = (fst st)\<lparr>es_env := es_env (fst st)\<rparr>" by simp
  then show ?thesis unfolding changes_only_def by blast
qed

lemma changes_only_trans:
  assumes "changes_only T W st st1" and "changes_only T W st1 st2" shows "changes_only T W st st2"
proof -
  obtain E1 E2 where "fst st1 = (fst st)\<lparr>es_env := E1\<rparr>" "fst st2 = (fst st1)\<lparr>es_env := E2\<rparr>"
    using assms unfolding changes_only_def by blast
  then have "fst st2 = (fst st)\<lparr>es_env := E2\<rparr>" by simp
  with assms show ?thesis unfolding changes_only_def by (metis (no_types))
qed

lemma changes_only_set: "env_laws T \<Longrightarrow> v \<in> W \<Longrightarrow> changes_only T W st (set_var T v e st)"
  by (auto simp: changes_only_def set_var_def es_set_def env_laws_def)

lemma changes_only_fold:
  "env_laws T \<Longrightarrow> set vs \<subseteq> W \<Longrightarrow> changes_only T W st (fold (\<lambda>v. set_var T v (f v)) vs st)"
proof (induction vs arbitrary: st)
  case (Cons v vs)
  then have "changes_only T W (set_var T v (f v) st) (fold (\<lambda>v. set_var T v (f v)) vs (set_var T v (f v) st))" by simp
  from changes_only_trans [OF changes_only_set this] Cons.prems show ?case by simp
qed simp

definition writes_only :: "('e, 'm) extern_tools_scheme \<Rightarrow> StateVariable set \<Rightarrow> ('e, 'z) MethodImpl \<Rightarrow> bool" where
  "writes_only T W impl \<longleftrightarrow>
     (\<forall>info st r st'. impl info st = Inr (r, st') \<longrightarrow> changes_only T (W \<union> written_vars T info) st st')"

named_theorems writes_only

lemma writes_onlyI:
  "(\<And>info st r st'. impl info st = Inr (r, st') \<Longrightarrow> changes_only T (W \<union> written_vars T info) st st') \<Longrightarrow> writes_only T W impl"
  by (simp add: writes_only_def)

lemma ref_argument_written:
  assumes "ref_argument info i = Inr ref"
  shows "ref \<in> written_vars T info" "xt_getHeaderValidity T ref \<in> written_vars T info"
    "set (xt_getFlatFields T E ref) \<subseteq> written_vars T info" "VarMember ref ''egress_spec'' \<in> written_vars T info"
proof -
  obtain e where "i < length (ei_externArgs info)" "ei_externArgs info ! i = InOutReference ref e"
    using assms by (auto simp: ref_argument_def split: if_splits argument.splits)
  then have "InOutReference ref e \<in> set (ei_externArgs info)" using nth_mem by fastforce
  then show "ref \<in> written_vars T info" "xt_getHeaderValidity T ref \<in> written_vars T info"
    "set (xt_getFlatFields T E ref) \<subseteq> written_vars T info" "VarMember ref ''egress_spec'' \<in> written_vars T info"
    by (auto simp: written_vars_def)
qed

lemma quiet_writes_only [writes_only]:
  "writes_only T W no_op" "writes_only T W unimplemented" "writes_only T W (return_variable t)"
  "writes_only T W (packet_in_lookahead T)"
  by (auto simp: writes_only_def no_op_def unimplemented_def return_variable_def packet_in_lookahead_def option_simps
      split: list.splits)

lemma extract_writes_only [writes_only]:
  assumes "env_laws T" shows "writes_only T W (packet_in_extract T)"
proof (rule writes_onlyI)
  fix info st r st' assume "packet_in_extract T info st = Inr (r, st')"
  then obtain ref st1 where x: "ref_argument info 0 = Inr ref"
    "st1 = set_var T (xt_getHeaderValidity T ref) (DataPlaneVariable Type_Boolean (extract_label T info ref)) st"
    "st' = fold (\<lambda>field. set_var T field (DataPlaneVariable (xt_refType T field)
       (extract_label T info ref @ ''_'' @ xt_toString T field))) (xt_getFlatFields T (es_env (fst st1)) ref) st1"
    by (auto simp: packet_in_extract_def Let_def option_simps split: if_splits)
  have "changes_only T (W \<union> written_vars T info) st st1"
    unfolding x(2) using ref_argument_written [OF x(1)] by (intro changes_only_set [OF assms]) auto
  moreover have "changes_only T (W \<union> written_vars T info) st1 st'"
    unfolding x(3) using ref_argument_written(3) [OF x(1), of T "es_env (fst st1)"]
    by (intro changes_only_fold [OF assms]) blast
  ultimately show "changes_only T (W \<union> written_vars T info) st st'" by (rule changes_only_trans)
qed

lemma process_with_writes_only:
  assumes "\<And>name ps impl. (name, ps, impl) \<in> set specs \<Longrightarrow> writes_only T W impl" and "writes_only T W base"
  shows "writes_only T W (process_with T specs base)"
proof (rule writes_onlyI)
  fix info st r st' assume "process_with T specs base info st = Inr (r, st')"
  with process_with_cases [of T specs base info st]
  have "base info st = Inr (r, st') \<or> (\<exists>name ps impl. (name, ps, impl) \<in> set specs \<and> impl info st = Inr (r, st'))"
    by force
  then show "changes_only T (W \<union> written_vars T info) st st'"
    using assms unfolding writes_only_def by (elim disjE exE conjE) blast+
qed

lemma core_writes_only: "env_laws T \<Longrightarrow> writes_only T W (core_processExtern T)"
  unfolding core_processExtern_def
  by (rule process_with_writes_only) (auto simp: core_externs_def intro: writes_only)

end
