(* ===== verification/SymbolicExecution.thy ===== *)
theory SymbolicExecution
  imports ExpressionResolver
begin

text \<open>
  The symbolic execution of a control: the table executor (\<open>interpreter/table_executor.cpp\<close> and
  \<open>targets/*/table_executor.cpp\<close>) and the stepper (\<open>interpreter/stepper.cpp\<close>) on the programs of
  \<open>Statements\<close>. Actions and tables are executed with fuel for the depth of the calls; a program whose
  calls are not recursive never runs out of enough of it.
\<close>

section \<open>Match keys of a table\<close>

definition MATCH_KIND_SELECTOR :: string where "MATCH_KIND_SELECTOR = ''selector''"

definition computeTargetMatchType ::
  "('e, 'z) interpreter \<Rightarrow> string \<Rightarrow> expr KeyField \<Rightarrow> TableMatchKey result" where
  "computeTargetMatchType X symbolicTablePrefix keyField =
     (let keyExpression = kf_expression keyField; matchType = kf_matchType keyField; P = it_symbols X in
      and_then (or_fail Bug (kf_name keyField)) (\<lambda>fieldName.
        if matchType = MATCH_KIND_EXACT (it_compiler X)
        then Inr (mk_ExactTableMatchKey P symbolicTablePrefix fieldName keyExpression)
        else if matchType = MATCH_KIND_TERNARY (it_compiler X)
        then Inr (mk_TernaryTableMatchKey P symbolicTablePrefix fieldName keyExpression)
        else if matchType = MATCH_KIND_LPM (it_compiler X)
        then Inr (mk_LpmTableMatchKey P symbolicTablePrefix fieldName keyExpression)
        else Inl Unimplemented))"

text \<open>
  The targets add keys for optional, range and selector matches; the selector key of all but the
  FPGA target is named after the table.
\<close>

definition V1Model_computeTargetMatchType ::
  "('e, 'z) interpreter \<Rightarrow> string \<Rightarrow> string \<Rightarrow> expr KeyField \<Rightarrow> TableMatchKey result" where
  "V1Model_computeTargetMatchType X tableName symbolicTablePrefix keyField =
     (let keyExpression = kf_expression keyField; matchType = kf_matchType keyField; P = it_symbols X in
      and_then (or_fail Bug (kf_name keyField)) (\<lambda>fieldName.
        if matchType = MATCH_KIND_OPT
        then Inr (mk_OptionalMatchKey P symbolicTablePrefix fieldName keyExpression)
        else if matchType = MATCH_KIND_SELECTOR
        then Inr (mk_SelectorMatchKey P symbolicTablePrefix (tableName @ ''_selector_'' @ fieldName) keyExpression)
        else if matchType = MATCH_KIND_RANGE
        then Inr (mk_RangeTableMatchKey P symbolicTablePrefix fieldName keyExpression)
        else computeTargetMatchType X symbolicTablePrefix keyField))"

definition TofinoBase_computeTargetMatchType ::
  "('e, 'z) interpreter \<Rightarrow> string \<Rightarrow> string \<Rightarrow> expr KeyField \<Rightarrow> TableMatchKey result" where
  "TofinoBase_computeTargetMatchType X tableName symbolicTablePrefix keyField =
     (let keyExpression = kf_expression keyField; matchType = kf_matchType keyField; P = it_symbols X in
      and_then (or_fail Bug (kf_name keyField)) (\<lambda>fieldName.
        if matchType = MATCH_KIND_OPT
        then Inr (mk_OptionalMatchKey P symbolicTablePrefix fieldName keyExpression)
        else if matchType = MATCH_KIND_SELECTOR
        then Inr (mk_SelectorMatchKey P symbolicTablePrefix (tableName @ ''_selector_'' @ fieldName) keyExpression)
        else if matchType = MATCH_KIND_RANGE
        then Inr (mk_RangeTableMatchKey P symbolicTablePrefix fieldName keyExpression)
        else computeTargetMatchType X symbolicTablePrefix keyField))"

definition NikssBase_computeTargetMatchType ::
  "('e, 'z) interpreter \<Rightarrow> string \<Rightarrow> string \<Rightarrow> expr KeyField \<Rightarrow> TableMatchKey result" where
  "NikssBase_computeTargetMatchType X tableName symbolicTablePrefix keyField =
     (let keyExpression = kf_expression keyField; matchType = kf_matchType keyField; P = it_symbols X in
      and_then (or_fail Bug (kf_name keyField)) (\<lambda>fieldName.
        if matchType = MATCH_KIND_OPT
        then Inr (mk_OptionalMatchKey P symbolicTablePrefix fieldName keyExpression)
        else if matchType = MATCH_KIND_SELECTOR
        then Inr (mk_SelectorMatchKey P symbolicTablePrefix (tableName @ ''_selector_'' @ fieldName) keyExpression)
        else if matchType = MATCH_KIND_RANGE
        then Inr (mk_RangeTableMatchKey P symbolicTablePrefix fieldName keyExpression)
        else computeTargetMatchType X symbolicTablePrefix keyField))"

definition FpgaBase_computeTargetMatchType ::
  "('e, 'z) interpreter \<Rightarrow> string \<Rightarrow> string \<Rightarrow> expr KeyField \<Rightarrow> TableMatchKey result" where
  "FpgaBase_computeTargetMatchType X tableName symbolicTablePrefix keyField =
     (let keyExpression = kf_expression keyField; matchType = kf_matchType keyField; P = it_symbols X in
      and_then (or_fail Bug (kf_name keyField)) (\<lambda>fieldName.
        if matchType = MATCH_KIND_OPT
        then Inr (mk_OptionalMatchKey P symbolicTablePrefix fieldName keyExpression)
        else if matchType = MATCH_KIND_SELECTOR
        then Inr (mk_SelectorMatchKey P symbolicTablePrefix fieldName keyExpression)
        else if matchType = MATCH_KIND_RANGE
        then Inr (mk_RangeTableMatchKey P symbolicTablePrefix fieldName keyExpression)
        else computeTargetMatchType X symbolicTablePrefix keyField))"

fun target_match_type ::
  "target \<Rightarrow> ('e, 'z) interpreter \<Rightarrow> string \<Rightarrow> string \<Rightarrow> expr KeyField \<Rightarrow> TableMatchKey result" where
  "target_match_type Bmv2 = V1Model_computeTargetMatchType"
| "target_match_type Tofino = TofinoBase_computeTargetMatchType"
| "target_match_type Nikss = NikssBase_computeTargetMatchType"
| "target_match_type Fpga = FpgaBase_computeTargetMatchType"

text \<open>
  Resolving a key leaves it as it is when all of its fields are values already; otherwise it has the
  resolved fields only.
\<close>

definition set_expression :: "'k \<Rightarrow> 'j KeyField \<Rightarrow> 'k KeyField" where
  "set_expression e keyField =
     \<lparr>kf_expression = e, kf_name = kf_name keyField, kf_matchType = kf_matchType keyField\<rparr>"

definition resolveKey ::
  "('e, 'z) interpreter \<Rightarrow> ('e, 'z) callbacks \<Rightarrow> pexp KeyField list \<Rightarrow> ('e, 'z) resolver \<Rightarrow>
   (expr KeyField list \<times> ('e, 'z) resolver) result" where
  "resolveKey X C key r =
     (let changed = filter (\<lambda>keyField. \<not> isSymbolicValue X (kf_expression keyField)) key in
      if changed \<noteq> []
      then in_order (\<lambda>keyField r.
             and_then (computeResult X C (kf_expression keyField) r) (\<lambda>(e, r).
             Inr (set_expression e keyField, r))) changed r
      else and_then (or_fail Unresolved (all_some (map (\<lambda>keyField. as_expr (kf_expression keyField)) key)))
             (\<lambda>es. Inr (map2 set_expression es key, r)))"

definition computeHitCondition ::
  "('e, 'z) interpreter \<Rightarrow> string \<Rightarrow> string \<Rightarrow> expr KeyField list \<Rightarrow> TableMatchKey list result" where
  "computeHitCondition X tableName symbolicTablePrefix key =
     all_results (map (target_match_type (it_target X) X tableName symbolicTablePrefix) key)"

section \<open>Actions\<close>

text \<open>
  The variables of the control plane that stand for the arguments of an action. Boolean parameters are
  one-bit variables there.
\<close>

definition createActionCallArguments ::
  "('e, 'z) interpreter \<Rightarrow> string \<Rightarrow> string \<Rightarrow> ActionParameter list \<Rightarrow> argument list" where
  "createActionCallArguments X symbolicTablePrefix actionName parameters =
     map (\<lambda>parameter.
        Argument
          (if pp_type parameter = Type_Boolean
           then mk_Equ (SymbolicVariable (getTableActionArgument (it_symbols X) symbolicTablePrefix actionName
                     (pp_controlPlaneName parameter) (Type_Bits 1 False)))
                  (Constant (Type_Bits 1 False) 1)
           else SymbolicVariable (getTableActionArgument (it_symbols X) symbolicTablePrefix actionName
                     (pp_controlPlaneName parameter) (pp_type parameter)))) parameters"

text \<open>The value a parameter gets: an argument that may be written stays a reference.\<close>

fun argument_value :: "('e, 'z) interpreter \<Rightarrow> argument \<Rightarrow> expr result" where
  "argument_value X NullArgument = Inl Bug"
| "argument_value X (Argument e) = Inr e"
| "argument_value X (InOutReference var e) = Inr (inOutValue X var e)"

fun set_parameters ::
  "('e, 'z) interpreter \<Rightarrow> (ActionParameter \<times> argument) list \<Rightarrow> 'e ExecutionState \<Rightarrow> 'e ExecutionState result" where
  "set_parameters X [] s = Inr s"
| "set_parameters X ((parameter, argument) # rest) s =
     and_then (argument_value X argument) (\<lambda>actionArg.
     set_parameters X rest (es_set X (VarPath (ap_name parameter)) actionArg s))"

definition callAction ::
  "('e, 'z) interpreter \<Rightarrow> (stmt \<Rightarrow> ('e, 'z) exec_state \<Rightarrow> ('e, 'z) exec_state result) \<Rightarrow>
   exec_action \<Rightarrow> argument list \<Rightarrow> ('e, 'z) exec_state \<Rightarrow> ('e, 'z) exec_state result" where
  "callAction X body actionType arguments st =
     (if length arguments \<noteq> length (xa_parameters actionType) then Inl Bug
      else and_then (set_parameters X (zip (xa_parameters actionType) arguments) (fst st)) (\<lambda>s.
           body (xa_body actionType) (s, snd st)))"

section \<open>The table executor\<close>

text \<open>The arguments of the declared default action are taken as they are written.\<close>

definition processDefaultAction ::
  "('e, 'z) interpreter \<Rightarrow> (stmt \<Rightarrow> ('e, 'z) exec_state \<Rightarrow> ('e, 'z) exec_state result) \<Rightarrow>
   exec_table \<Rightarrow> ('e, 'z) exec_state \<Rightarrow> ('e, 'z) exec_state result" where
  "processDefaultAction X body table st =
     (case xt_defaultAction table of
        PCall n m ds arguments \<Rightarrow>
          and_then (or_fail Bug (getP4Action X (xt_defaultAction table))) (\<lambda>defaultActionType.
          and_then (or_fail Unresolved (all_some (map as_expr arguments))) (\<lambda>values.
          callAction X body defaultActionType (map Argument values) st))
      | _ \<Rightarrow> Inl Bug)"

definition action_equality :: "('e, 'z) interpreter \<Rightarrow> string \<Rightarrow> exec_action \<Rightarrow> expr" where
  "action_equality X symbolicTablePrefix actionType =
     mk_Equ (SymbolicVariable (getTableActionChoice (it_symbols X) symbolicTablePrefix))
       (StringLiteral (xa_controlPlaneName actionType))"

fun totalHitCondition ::
  "('e, 'z) interpreter \<Rightarrow> string \<Rightarrow> ActionListElement list \<Rightarrow> expr \<Rightarrow> expr result" where
  "totalHitCondition X symbolicTablePrefix [] cond = Inr cond"
| "totalHitCondition X symbolicTablePrefix (action # actions) cond =
     (if al_defaultOnly action then totalHitCondition X symbolicTablePrefix actions cond
      else and_then (or_fail Bug (getP4Action X (al_expression action))) (\<lambda>actionType.
           totalHitCondition X symbolicTablePrefix actions
             (mk_LOr cond (action_equality X symbolicTablePrefix actionType))))"

definition actionHitCondition ::
  "('e, 'z) interpreter \<Rightarrow> string \<Rightarrow> expr \<Rightarrow> ActionListElement \<Rightarrow> exec_action \<Rightarrow> expr" where
  "actionHitCondition X symbolicTablePrefix totalHit action actionType =
     (let hit = (if al_defaultOnly action then BoolLiteral False
                 else action_equality X symbolicTablePrefix actionType) in
      if al_tableOnly action then hit
      else mk_LOr hit
             (mk_LAnd (mk_LNot totalHit)
               (mk_Equ (SymbolicVariable (getDefaultActionVariable symbolicTablePrefix))
                 (StringLiteral (xa_controlPlaneName actionType)))))"

text \<open>Every action of the list runs in a copy of the state before the table and is merged at once.\<close>

fun process_actions ::
  "('e, 'z) interpreter \<Rightarrow> (stmt \<Rightarrow> ('e, 'z) exec_state \<Rightarrow> ('e, 'z) exec_state result) \<Rightarrow> string \<Rightarrow>
   'e ExecutionState \<Rightarrow> expr \<Rightarrow> ActionListElement list \<Rightarrow> ('e, 'z) exec_state \<times> expr \<Rightarrow>
   (('e, 'z) exec_state \<times> expr) result" where
  "process_actions X body symbolicTablePrefix referenceState totalHit [] st = Inr st"
| "process_actions X body symbolicTablePrefix referenceState totalHit (action # actions) (st, actionRun) =
     and_then (or_fail Bug (getP4Action X (al_expression action))) (\<lambda>actionType.
     let cond = actionHitCondition X symbolicTablePrefix totalHit action actionType in
     and_then (annotate_reachability X (al_node action) cond st) (\<lambda>(s, g).
     and_then
       (callAction X body actionType
         (createActionCallArguments X symbolicTablePrefix (xa_controlPlaneName actionType)
           (xa_parameters actionType))
         (pushExecutionCondition cond referenceState, g)) (\<lambda>(actionState, g).
     process_actions X body symbolicTablePrefix referenceState totalHit actions
       ((es_merge X actionState s, g),
        produceSimplifiedMux cond (StringLiteral (al_controlPlaneName action)) actionRun))))"

definition processTableActionOptions ::
  "('e, 'z) interpreter \<Rightarrow> (stmt \<Rightarrow> ('e, 'z) exec_state \<Rightarrow> ('e, 'z) exec_state result) \<Rightarrow>
   exec_table \<Rightarrow> 'e ExecutionState \<Rightarrow> ('e, 'z) exec_state \<times> expr \<times> expr \<Rightarrow>
   (('e, 'z) exec_state \<times> expr \<times> expr) result" where
  "processTableActionOptions X body table referenceState st =
     (case st of
        (st, totalHit, actionRun) \<Rightarrow>
          (let symbolicTablePrefix = xt_controlPlaneName table in
           case xt_actionList table of
             None \<Rightarrow> Inr (st, totalHit, actionRun)
           | Some actionList \<Rightarrow>
               and_then (totalHitCondition X symbolicTablePrefix actionList totalHit) (\<lambda>anyHit.
               let totalHit = mk_LAnd anyHit
                     (SymbolicVariable (getTableActive (it_symbols X) symbolicTablePrefix)) in
               and_then
                 (process_actions X body symbolicTablePrefix referenceState totalHit actionList (st, actionRun))
                 (\<lambda>(st, actionRun). Inr (st, totalHit, actionRun)))))"

text \<open>The match keys go to the table's configuration; a table without one is an error.\<close>

definition store_key_match ::
  "('e, 'z) interpreter \<Rightarrow> string \<Rightarrow> TableMatchKey list \<Rightarrow> 'z analysis \<Rightarrow> 'z analysis result" where
  "store_key_match X tableName tableKeyMap g =
     (case map_find (an_constraints g) tableName of
        None \<Rightarrow> Inr (g\<lparr>an_errors := an_errors g + 1\<rparr>)
      | Some i \<Rightarrow>
          (case item_table i of
             None \<Rightarrow> Inl Bug
           | Some cfg \<Rightarrow>
               (case setTableKeyMatch (it_backend X) tableKeyMap cfg (an_cache g) of
                  (cfg', c) \<Rightarrow>
                    Inr (g\<lparr>an_constraints := map_assign tableName (item_set_table cfg' i) (an_constraints g),
                           an_cache := c\<rparr>))))"

definition table_result :: "exec_table \<Rightarrow> expr \<Rightarrow> expr \<Rightarrow> expr" where
  "table_result table totalHit actionRun =
     StructExpression [''hit'', ''miss'', ''action_run'', ''table_name'']
       [totalHit, mk_LNot totalHit, actionRun, StringLiteral (xt_controlPlaneName table)]"

definition getDefaultActionName :: "exec_table \<Rightarrow> string" where
  "getDefaultActionName table =
     (case xt_defaultAction table of PCall n m ds arguments \<Rightarrow> to_string m | e \<Rightarrow> to_string e)"

definition processTable ::
  "('e, 'z) interpreter \<Rightarrow> ('e, 'z) callbacks \<Rightarrow>
   (stmt \<Rightarrow> ('e, 'z) exec_state \<Rightarrow> ('e, 'z) exec_state result) \<Rightarrow>
   exec_table \<Rightarrow> ('e, 'z) resolver \<Rightarrow> (expr \<times> ('e, 'z) resolver) result" where
  "processTable X C body table r =
     and_then
       (case xt_key table of
          None \<Rightarrow> Inr ([], r)
        | Some key \<Rightarrow>
            and_then (resolveKey X C key r) (\<lambda>(key, r).
            and_then (computeHitCondition X (xt_controlPlaneName table) (xt_controlPlaneName table) key)
              (\<lambda>tableKeyMap. Inr (tableKeyMap, r))))
       (\<lambda>(tableKeyMap, result, st).
     let referenceState = fst st in
     and_then (processDefaultAction X body table st) (\<lambda>st.
     and_then
       (processTableActionOptions X body table referenceState
         (st, BoolLiteral False, StringLiteral (getDefaultActionName table))) (\<lambda>((s, g), totalHit, actionRun).
     and_then (store_key_match X (xt_controlPlaneName table) tableKeyMap g) (\<lambda>g.
     Inr (table_result table totalHit actionRun, (result, s, g))))))"

section \<open>The stepper\<close>

fun run_all :: "('a \<Rightarrow> 's \<Rightarrow> 's result) \<Rightarrow> 'a list \<Rightarrow> 's \<Rightarrow> 's result" where
  "run_all body [] st = Inr st"
| "run_all body (x # xs) st = and_then (body x st) (run_all body xs)"

lemma run_all_cong [fundef_cong]:
  assumes "xs = xs'" and "st = st'" and "\<And>x st. x \<in> set xs' \<Longrightarrow> body x st = body' x st"
  shows "run_all body xs st = run_all body' xs' st'"
proof -
  have "run_all body xs' st = run_all body' xs' st"
    using assms(3) by (induction xs' arbitrary: st) (simp_all add: and_then_def split: sum.splits)
  with assms(1,2) show ?thesis by simp
qed

text \<open>Every statement and every branch gets a resolver of its own.\<close>

definition evaluate ::
  "('e, 'z) interpreter \<Rightarrow> ('e, 'z) callbacks \<Rightarrow> pexp \<Rightarrow> ('e, 'z) exec_state \<Rightarrow>
   (expr \<times> ('e, 'z) exec_state) result" where
  "evaluate X C e st = and_then (computeResult X C e (None, st)) (\<lambda>(v, r). Inr (v, snd r))"

fun pexp_type :: "pexp \<Rightarrow> ty" where
  "pexp_type (PPath n t x) = t"
| "pexp_type (PMember n t e m) = t"
| "pexp_type (POp (Op_Binary t op) es) = t"
| "pexp_type _ = Type_Unknown"

definition step_assign ::
  "('e, 'z) interpreter \<Rightarrow> ('e, 'z) callbacks \<Rightarrow> pexp \<Rightarrow> pexp \<Rightarrow> ('e, 'z) exec_state \<Rightarrow>
   ('e, 'z) exec_state result" where
  "step_assign X C left right st =
     and_then (or_fail Bug (to_StateVariable left)) (\<lambda>leftVar.
     and_then (evaluate X C right st) (\<lambda>(v, s, g).
       case v of
         StructExpression ns es \<Rightarrow>
           and_then (or_fail Bug (assignStructLike X leftVar v (es_env s))) (\<lambda>E. Inr (s\<lparr>es_env := E\<rparr>, g))
       | HeaderStackExpression t es \<Rightarrow>
           and_then (or_fail Bug (assignStructLike X leftVar v (es_env s))) (\<lambda>E. Inr (s\<lparr>es_env := E\<rparr>, g))
       | _ \<Rightarrow>
           if is_Type_Base (pexp_type left) then Inr (es_set X leftVar v s, g) else Inl Unimplemented))"

text \<open>The label of a switch case, in table mode the name of the action it refers to.\<close>

definition is_table_mode :: "pexp \<Rightarrow> bool" where
  "is_table_mode e =
     (case e of
        PMember n t (PCall cn m ds args) member \<Rightarrow> member = ''action_run''
      | _ \<Rightarrow> False)"

definition case_label :: "bool \<Rightarrow> pexp \<Rightarrow> expr result" where
  "case_label tableMode label =
     (if tableMode then (case label of PPath n t x \<Rightarrow> Inr (StringLiteral x) | _ \<Rightarrow> Inl Bug)
      else or_fail Unresolved (as_expr label))"

text \<open>
  The cases before the default. A case without statement falls through to the next: its label joins
  the condition, and as it has no statement only the block that ends the sequence is run. The states
  of the blocks are collected.
\<close>

fun step_cases ::
  "('e, 'z) interpreter \<Rightarrow> bool \<Rightarrow> expr \<Rightarrow>
   (stmt \<Rightarrow> ('e, 'z) exec_state \<Rightarrow> ('e, 'z) exec_state result) \<Rightarrow> expr option \<Rightarrow> switch_case list \<Rightarrow>
   ('e, 'z) exec_state \<Rightarrow> ('e ExecutionState list \<times> ('e, 'z) exec_state) result" where
  "step_cases X tableMode switchExpr body cond [] st = Inr ([], st)"
| "step_cases X tableMode switchExpr body cond (c # cs) st =
     (case sc_label c of
        None \<Rightarrow> Inr ([], st)
      | Some label \<Rightarrow>
          and_then (case_label tableMode label) (\<lambda>switchCaseLabel.
          let switchCaseEquality = mk_Equ switchExpr switchCaseLabel;
              cond = (case cond of None \<Rightarrow> switchCaseEquality | Some c' \<Rightarrow> mk_LOr c' switchCaseEquality) in
          and_then (annotate_reachability X (sc_node c) switchCaseEquality st) (\<lambda>(s, g).
            case sc_statement c of
              None \<Rightarrow> step_cases X tableMode switchExpr body (Some cond) cs (s, g)
            | Some ss \<Rightarrow>
                and_then (run_all body ss (pushExecutionCondition (simplify cond) s, g)) (\<lambda>(caseState, g).
                and_then (step_cases X tableMode switchExpr body None cs (s, g)) (\<lambda>(states, st).
                Inr (caseState # states, st))))))"

lemma step_cases_cong [fundef_cong]:
  assumes "cs = cs'" and "tm = tm'" and "v = v'" and "cond = cond'" and "st = st'"
    and "\<And>c ss x st. c \<in> set cs' \<Longrightarrow> sc_statement c = Some ss \<Longrightarrow> x \<in> set ss \<Longrightarrow> body x st = body' x st"
  shows "step_cases X tm v body cond cs st = step_cases X tm' v' body' cond' cs' st'"
proof -
  have "step_cases X tm v body cond cs' st = step_cases X tm v body' cond cs' st"
    using assms(6)
  proof (induction cs' arbitrary: cond st)
    case (Cons c cs)
    have "run_all body ss st = run_all body' ss st" if "sc_statement c = Some ss" for ss st
      by (intro run_all_cong refl Cons.prems [OF _ that]) simp_all
    moreover have "step_cases X tm v body cond cs st = step_cases X tm v body' cond cs st" for cond st
      by (intro Cons.IH Cons.prems) simp_all
    ultimately show ?case by (cases "sc_statement c"; cases "sc_label c") (simp_all add: Let_def)
  qed simp
  with assms(1-5) show ?thesis by simp
qed

text \<open>The statement of the default case; none is a null pointer.\<close>

fun default_statement :: "switch_case list \<Rightarrow> stmt list option option" where
  "default_statement [] = None"
| "default_statement (c # cs) = (if sc_label c = None then Some (sc_statement c) else default_statement cs)"

lemma default_statement_in:
  "default_statement cs = Some (Some ss) \<Longrightarrow> \<exists>c \<in> set cs. sc_statement c = Some ss"
  by (induction cs) (auto split: if_splits)

definition step_switch ::
  "('e, 'z) interpreter \<Rightarrow> ('e, 'z) callbacks \<Rightarrow> pexp \<Rightarrow> switch_case list \<Rightarrow>
   (stmt \<Rightarrow> ('e, 'z) exec_state \<Rightarrow> ('e, 'z) exec_state result) \<Rightarrow> ('e, 'z) exec_state \<Rightarrow>
   ('e, 'z) exec_state result" where
  "step_switch X C e cs body st =
     and_then (evaluate X C e st) (\<lambda>(switchExpr, st).
     and_then (step_cases X (is_table_mode e) switchExpr body None cs st) (\<lambda>(accumulatedStates, st).
     and_then
       (case default_statement cs of
          None \<Rightarrow> Inr st
        | Some None \<Rightarrow> Inl Bug
        | Some (Some ss) \<Rightarrow> run_all body ss st) (\<lambda>(s, g).
     Inr (fold (es_merge X) accumulatedStates s, g))))"

lemma step_switch_cong [fundef_cong]:
  assumes "e = e'" and "cs = cs'" and "st = st'"
    and "\<And>c ss x st. c \<in> set cs' \<Longrightarrow> sc_statement c = Some ss \<Longrightarrow> x \<in> set ss \<Longrightarrow> body x st = body' x st"
  shows "step_switch X C e cs body st = step_switch X C e' cs' body' st'"
proof -
  have cases: "step_cases X tm v body cond cs' st = step_cases X tm v body' cond cs' st" for tm v cond st
    using assms(4) by (intro step_cases_cong) auto
  have "run_all body ss st = run_all body' ss st" if "default_statement cs' = Some (Some ss)" for ss st
    using default_statement_in [OF that] assms(4) by (intro run_all_cong refl) blast
  then have def: "(case default_statement cs' of None \<Rightarrow> Inr st | Some None \<Rightarrow> Inl Bug | Some (Some ss) \<Rightarrow> run_all body ss st) =
      (case default_statement cs' of None \<Rightarrow> Inr st | Some None \<Rightarrow> Inl Bug | Some (Some ss) \<Rightarrow> run_all body' ss st)" for st
    by (simp split: option.splits)
  show ?thesis unfolding step_switch_def assms(1-3) cases def ..
qed

function (sequential) step ::
  "('e, 'z) interpreter \<Rightarrow> ('e, 'z) callbacks \<Rightarrow> stmt \<Rightarrow> ('e, 'z) exec_state \<Rightarrow> ('e, 'z) exec_state result" where
  "step X C SEmpty st = Inr st"
| "step X C (SAssign l r) st = step_assign X C l r st"
| "step X C (SIf n cond ifTrue ifFalse) st =
     and_then (evaluate X C cond st) (\<lambda>(cond, st).
     and_then (annotate_reachability X n cond st) (\<lambda>(s, g).
     and_then (step X C ifTrue (pushExecutionCondition cond s, g)) (\<lambda>(trueState, g).
     and_then (case ifFalse of None \<Rightarrow> Inr (s, g) | Some f \<Rightarrow> step X C f (s, g)) (\<lambda>(s, g).
     Inr (es_merge X trueState s, g)))))"
| "step X C (SSwitch n e cs) st = step_switch X C e cs (\<lambda>x st. step X C x st) st"
| "step X C (SCall n e) st = and_then (resolve X C e (None, st)) (\<lambda>(result, st). Inr st)"
| "step X C (SBlock ss) st = run_all (\<lambda>x st. step X C x st) ss st"
| "step X C x st = Inl Unimplemented"
  by pat_completeness auto
termination
  by (relation "measure (\<lambda>(X, C, x, st). size x)")
    (auto dest: block_statement_size case_statement_size)

text \<open>The knot: actions run statements, whose calls run with one unit of fuel less.\<close>

primrec callbacks_of :: "('e, 'z) interpreter \<Rightarrow> nat \<Rightarrow> ('e, 'z) callbacks" where
  "callbacks_of X 0 =
     \<lparr>cb_callAction = (\<lambda>actionType arguments st. Inl Out_of_fuel),
      cb_processTable = (\<lambda>table r. Inl Out_of_fuel)\<rparr>"
| "callbacks_of X (Suc fuel) =
     (let C = callbacks_of X fuel in
      \<lparr>cb_callAction = callAction X (step X C), cb_processTable = processTable X C (step X C)\<rparr>)"

definition apply_stepper ::
  "('e, 'z) interpreter \<Rightarrow> nat \<Rightarrow> stmt \<Rightarrow> ('e, 'z) exec_state \<Rightarrow> ('e, 'z) exec_state result" where
  "apply_stepper X fuel = step X (callbacks_of X fuel)"

section \<open>Controls\<close>

text \<open>Copying the parameters of a block in or out, each by the name the architecture has for it.\<close>

definition copy_parameters ::
  "('e, 'z) interpreter \<Rightarrow> (program_parameter \<Rightarrow> string \<Rightarrow> 'e \<Rightarrow> 'e) \<Rightarrow> string \<Rightarrow> program_parameter list \<Rightarrow>
   'e ExecutionState \<Rightarrow> 'e ExecutionState" where
  "copy_parameters X copy canonicalName params s =
     fold (\<lambda>(paramIdx, internalParam) s.
        s\<lparr>es_env := copy internalParam (getParamName X canonicalName paramIdx) (es_env s)\<rparr>)
       (enumerate 0 params) s"

definition step_control ::
  "('e, 'z) interpreter \<Rightarrow> nat \<Rightarrow> control_block \<Rightarrow> ('e, 'z) exec_state \<Rightarrow> ('e, 'z) exec_state result" where
  "step_control X fuel control st =
     and_then (or_fail Bug (getCanonicalBlockName X (cb_name control))) (\<lambda>canonicalName.
     and_then
       (initializeControlState X control
         (copy_parameters X (copyIn X) canonicalName (cb_applyParameters control) (fst st), snd st)) (\<lambda>(s, g).
     let s = fold (\<lambda>decl s. s\<lparr>es_env := declareVariable X decl (es_env s)\<rparr>) (cb_controlLocals control) s in
     and_then (apply_stepper X fuel (cb_body control) (s, g)) (\<lambda>(s, g).
     Inr (copy_parameters X (copyOut X) canonicalName (cb_applyParameters control) s, g))))"

end
