(* ===== verification/SharedAnnotations.thy ===== *)
theory SharedAnnotations
  imports ExecutionState
begin

text \<open>
  How the annotations evolve while states are cloned and merged: nobody takes an annotation away, a
  step over some nodes leaves the conditions and values of all other nodes alone in every state, and
  the symbols of a condition are registered in one of the states that are still to be merged. So the
  annotations of a finished execution have the invariant of \<open>NodeMap\<close>, although the maps of single
  states need not have it on the way.
\<close>

declare split_paired_All [simp del] split_paired_Ex [simp del]

section \<open>States and the store\<close>

abbreviation registered :: "shared_annotations \<Rightarrow> node \<Rightarrow> svar \<Rightarrow> bool" where
  "registered m n x \<equiv> n \<in> set (symbol_nodes (sa_reachabilitySymbolMap m) (sv_key x))"

definition store_ok :: "reachability_store \<Rightarrow> shared_annotations \<Rightarrow> bool" where
  "store_ok h m \<longleftrightarrow> map_sorted (sa_reachabilityMap m) \<and>
     (\<forall>n p. map_find (sa_reachabilityMap m) n = Some p \<longrightarrow> p < length h \<and> fst (h ! p) = n) \<and>
     symbol_map_ok (sa_reachabilitySymbolMap m) \<and>
     (\<forall>k. \<forall>n \<in> set (symbol_nodes (sa_reachabilitySymbolMap m) k). map_find (sa_reachabilityMap m) n \<noteq> None) \<and>
     covers se_originalExpression (sa_substitutionMap m) (sa_expressionSymbolMap m)"

definition extends :: "node set \<Rightarrow> shared_annotations \<Rightarrow> shared_annotations \<Rightarrow> bool" where
  "extends N m m' \<longleftrightarrow>
     (\<forall>n p. map_find (sa_reachabilityMap m) n = Some p \<longrightarrow> map_find (sa_reachabilityMap m') n = Some p) \<and>
     (\<forall>n e. map_find (sa_substitutionMap m) n = Some e \<longrightarrow> map_find (sa_substitutionMap m') n = Some e) \<and>
     (\<forall>n. n \<notin> N \<longrightarrow> map_find (sa_reachabilityMap m') n = map_find (sa_reachabilityMap m) n \<and>
        map_find (sa_substitutionMap m') n = map_find (sa_substitutionMap m) n) \<and>
     (\<forall>n x. registered m n x \<longrightarrow> registered m' n x)"

text \<open>
  From the store \<open>h\<close> and the annotations \<open>m\<close>, steps over the nodes \<open>N\<close> have led to the store \<open>h'\<close> and
  the states with the annotations \<open>M\<close>.
\<close>

definition evolves ::
  "node set \<Rightarrow> reachability_store \<Rightarrow> shared_annotations \<Rightarrow> reachability_store \<Rightarrow> shared_annotations set \<Rightarrow> bool" where
  "evolves N h m h' M \<longleftrightarrow> length h \<le> length h' \<and>
     (\<forall>p < length h. fst (h' ! p) = fst (h ! p) \<and> (fst (h ! p) \<notin> N \<longrightarrow> h' ! p = h ! p)) \<and>
     (\<forall>p < length h'. \<forall>x \<in> set (symbols_of (re_cond (snd (h' ! p)))).
        p < length h \<and> x \<in> set (symbols_of (re_cond (snd (h ! p)))) \<or>
        (\<exists>m' \<in> M. registered m' (fst (h' ! p)) x)) \<and>
     (\<forall>m' \<in> M. store_ok h' m' \<and> extends N m m')"

lemma extends_refl [simp]: "extends N m m"
  by (simp add: extends_def)

lemma extends_trans: "extends N m m1 \<Longrightarrow> extends N' m1 m2 \<Longrightarrow> extends (N \<union> N') m m2"
  by (simp add: extends_def)

lemma extends_mono: "extends N m m1 \<Longrightarrow> N \<subseteq> N' \<Longrightarrow> extends N' m m1"
  unfolding extends_def by blast

lemma store_ok_grows:
  assumes "store_ok h m" and "length h \<le> length h'" and "\<forall>p < length h. fst (h' ! p) = fst (h ! p)"
  shows "store_ok h' m"
  using assms unfolding store_ok_def by (metis less_le_trans)

lemma evolves_refl: "store_ok h m \<Longrightarrow> evolves N h m h {m}"
  by (simp add: evolves_def)

lemma evolves_mono:
  assumes "evolves N h m h' M" and "N \<subseteq> N'"
  shows "evolves N' h m h' M"
  using assms extends_mono [OF _ assms(2)] unfolding evolves_def by blast

lemma evolves_member: "evolves N h m h' M \<Longrightarrow> m' \<in> M \<Longrightarrow> store_ok h' m' \<and> extends N m m'"
  by (simp add: evolves_def)

text \<open>One of the states takes further steps; the state it started from may be kept as a clone.\<close>

lemma evolves_compose:
  assumes "evolves N h m h' M" and "m1 \<in> M" and "evolves N' h' m1 h'' M1"
  shows "evolves (N \<union> N') h m h'' (M1 \<union> M)"
  unfolding evolves_def
proof (intro conjI allI impI ballI)
  note e1 = assms(1) [unfolded evolves_def] and e2 = assms(3) [unfolded evolves_def]
  show "length h \<le> length h''" using e1 e2 by linarith
  show "fst (h'' ! p) = fst (h ! p)" if "p < length h" for p using e1 e2 that by (metis less_le_trans)
  show "h'' ! p = h ! p" if p: "p < length h" "fst (h ! p) \<notin> N \<union> N'" for p
  proof -
    have "p < length h'" "h' ! p = h ! p" using e1 p by auto
    with e2 p(2) show ?thesis by auto
  qed
  show "p < length h \<and> x \<in> set (symbols_of (re_cond (snd (h ! p)))) \<or> (\<exists>m' \<in> M1 \<union> M. registered m' (fst (h'' ! p)) x)"
    if p: "p < length h''" "x \<in> set (symbols_of (re_cond (snd (h'' ! p))))" for p x
  proof (cases "\<exists>m' \<in> M1. registered m' (fst (h'' ! p)) x")
    case False
    have "p < length h' \<and> x \<in> set (symbols_of (re_cond (snd (h' ! p)))) \<or>
        (\<exists>m' \<in> M1. registered m' (fst (h'' ! p)) x)" using e2 p by blast
    with False have h': "p < length h'" "x \<in> set (symbols_of (re_cond (snd (h' ! p))))" by blast+
    moreover have "fst (h'' ! p) = fst (h' ! p)" using e2 h'(1) by simp
    moreover from e1 h' have "p < length h \<and> x \<in> set (symbols_of (re_cond (snd (h ! p)))) \<or>
        (\<exists>m' \<in> M. registered m' (fst (h' ! p)) x)" by blast
    ultimately show ?thesis by auto
  qed blast
  show "store_ok h'' m'" if "m' \<in> M1 \<union> M" for m'
  proof (cases "m' \<in> M1")
    case False
    with that e1 have "store_ok h' m'" by auto
    with e2 show ?thesis by (auto intro: store_ok_grows)
  qed (use e2 in simp)
  show "extends (N \<union> N') m m'" if "m' \<in> M1 \<union> M" for m'
  proof (cases "m' \<in> M1")
    case True
    have "extends N m m1" "extends N' m1 m'" using e1 e2 assms(2) True by auto
    with True extends_trans show ?thesis by blast
  next
    case False
    with that e1 have "extends N m m'" by auto
    then show ?thesis by (rule extends_mono) simp
  qed
qed

lemma evolves_advance:
  "evolves N h m h' M \<Longrightarrow> m1 \<in> M \<Longrightarrow> evolves N' h' m1 h'' {m2} \<Longrightarrow> evolves (N \<union> N') h m h'' (insert m2 M)"
  using evolves_compose [of N h m h' M m1 N' h'' "{m2}"] by simp

text \<open>States are dropped when what they registered is registered elsewhere.\<close>

lemma evolves_drop:
  assumes "evolves N h m h' M" and "M' \<subseteq> M"
    and "\<And>m1 n x. m1 \<in> M \<Longrightarrow> registered m1 n x \<Longrightarrow> \<exists>m2 \<in> M'. registered m2 n x"
  shows "evolves N h m h' M'"
proof -
  have "\<exists>m2 \<in> M'. registered m2 n x" if "\<exists>m1 \<in> M. registered m1 n x" for n x using assms(3) that by blast
  with assms(1,2) show ?thesis unfolding evolves_def by blast
qed

lemma evolves_trans:
  assumes "evolves N h m h' {m1}" and "evolves N' h' m1 h'' {m2}"
  shows "evolves (N \<union> N') h m h'' {m2}"
proof (rule evolves_drop [OF evolves_advance [OF assms(1) _ assms(2)]])
  have "extends N' m1 m2" using assms(2) by (simp add: evolves_def)
  then show "\<exists>m2 \<in> {m2}. registered m2 n x" if "m' \<in> {m2, m1}" "registered m' n x" for m' n x
    using that by (auto simp: extends_def)
qed simp_all

section \<open>Merging\<close>

lemma symbol_inserts_nodes:
  assumes "symbol_map_ok m" and "symbol_map_ok other"
  shows "set (symbol_nodes (fold (\<lambda>(k, ns). symbol_insert k ns) other m) k) =
    set (symbol_nodes m k) \<union> set (symbol_nodes other k)"
proof -
  have entry: "(k, ns) \<in> set other \<longleftrightarrow> map_find other k = Some ns" for ns
    using assms(2) map_find_in_set [of other k] map_find_SomeD [of other k] unfolding symbol_map_ok_def by blast
  have "{n. \<exists>ns. (k, ns) \<in> set other \<and> n \<in> set ns} = set (symbol_nodes other k)"
    unfolding entry symbol_nodes_def by (cases "map_find other k") simp_all
  with symbol_inserts [OF assms(1), of other k] show ?thesis by (elim conjE) (simp only:)
qed

lemma merged_annotations:
  assumes "store_ok h a" and "store_ok h b"
  shows "map_find (sa_reachabilityMap (shared_mergeAnnotationMapping a b)) n =
      (case map_find (sa_reachabilityMap b) n of Some p \<Rightarrow> Some p | None \<Rightarrow> map_find (sa_reachabilityMap a) n)"
    and "map_find (sa_substitutionMap (shared_mergeAnnotationMapping a b)) n =
      (case map_find (sa_substitutionMap b) n of Some e \<Rightarrow> Some e | None \<Rightarrow> map_find (sa_substitutionMap a) n)"
    and "registered (shared_mergeAnnotationMapping a b) n x \<longleftrightarrow> registered a n x \<or> registered b n x"
    and "store_ok h (shared_mergeAnnotationMapping a b)"
proof -
  note ok = assms [unfolded store_ok_def]
  have s: "map_sorted (sa_reachabilityMap b)" "map_sorted (sa_substitutionMap b)"
    using ok by (auto simp: covers_def)
  show r: "map_find (sa_reachabilityMap (shared_mergeAnnotationMapping a b)) n =
      (case map_find (sa_reachabilityMap b) n of Some p \<Rightarrow> Some p | None \<Rightarrow> map_find (sa_reachabilityMap a) n)" for n
    using map_insert_all_find [OF s(1)] by (simp add: shared_mergeAnnotationMapping_def)
  show "map_find (sa_substitutionMap (shared_mergeAnnotationMapping a b)) n =
      (case map_find (sa_substitutionMap b) n of Some e \<Rightarrow> Some e | None \<Rightarrow> map_find (sa_substitutionMap a) n)"
    using map_insert_all_find [OF s(2)] by (simp add: shared_mergeAnnotationMapping_def)
  have nodes: "set (symbol_nodes (sa_reachabilitySymbolMap (shared_mergeAnnotationMapping a b)) k) =
      set (symbol_nodes (sa_reachabilitySymbolMap b) k) \<union> set (symbol_nodes (sa_reachabilitySymbolMap a) k)" for k
    using symbol_inserts_nodes ok by (simp add: shared_mergeAnnotationMapping_def)
  then show "registered (shared_mergeAnnotationMapping a b) n x \<longleftrightarrow> registered a n x \<or> registered b n x" by auto
  have "map_sorted (sa_reachabilityMap (shared_mergeAnnotationMapping a b))"
    "symbol_map_ok (sa_reachabilitySymbolMap (shared_mergeAnnotationMapping a b))"
    "covers se_originalExpression (sa_substitutionMap (shared_mergeAnnotationMapping a b))
       (sa_expressionSymbolMap (shared_mergeAnnotationMapping a b))"
    using map_insert_all_find [OF s(1)] symbol_inserts ok covers_merge
    by (auto simp: shared_mergeAnnotationMapping_def)
  moreover have "p < length h \<and> fst (h ! p) = n"
    if "map_find (sa_reachabilityMap (shared_mergeAnnotationMapping a b)) n = Some p" for n p
    using that ok by (auto simp: r split: option.splits)
  moreover have "map_find (sa_reachabilityMap (shared_mergeAnnotationMapping a b)) n \<noteq> None"
    if "n \<in> set (symbol_nodes (sa_reachabilitySymbolMap (shared_mergeAnnotationMapping a b)) k)" for n k
  proof -
    from that nodes have "n \<in> set (symbol_nodes (sa_reachabilitySymbolMap a) k) \<or>
        n \<in> set (symbol_nodes (sa_reachabilitySymbolMap b) k)" by blast
    with ok have "map_find (sa_reachabilityMap a) n \<noteq> None \<or> map_find (sa_reachabilityMap b) n \<noteq> None" by blast
    then show ?thesis by (auto simp: r split: option.splits)
  qed
  ultimately show "store_ok h (shared_mergeAnnotationMapping a b)" by (simp add: store_ok_def)
qed

lemma evolves_merge:
  assumes "evolves N h m h' M" and "a \<in> M" and "b \<in> M"
  shows "evolves N h m h' (insert (shared_mergeAnnotationMapping a b) M)"
proof -
  have a: "store_ok h' a" "extends N m a" and b: "store_ok h' b" "extends N m b"
    using evolves_member [OF assms(1)] assms(2,3) by auto
  note m = merged_annotations [OF a(1) b(1)]
  have "extends N m (shared_mergeAnnotationMapping a b)"
    using a(2) b(2) unfolding extends_def m(1,2) m(3) by (auto split: option.splits)
  with assms(1) m(4) show ?thesis unfolding evolves_def by auto
qed

text \<open>Merging two states into one of them, and nothing else is left.\<close>

lemma evolves_merge_two:
  assumes "evolves N h m h' {a, b}"
  shows "evolves N h m h' {shared_mergeAnnotationMapping a b}"
proof -
  have e: "evolves N h m h' {shared_mergeAnnotationMapping a b, a, b}"
    using evolves_merge [OF assms] by simp
  have "store_ok h' a" "store_ok h' b" using assms by (simp_all add: evolves_def)
  note m = merged_annotations [OF this]
  show ?thesis by (rule evolves_drop [OF e]) (auto simp: m(3))
qed

section \<open>Annotating\<close>

lemma registered_add:
  assumes "symbol_map_ok syms"
  shows "n' \<in> set (symbol_nodes (add_symbols n e syms) k) \<longleftrightarrow>
    n' \<in> set (symbol_nodes syms k) \<or> n' = n \<and> k \<in> sv_key ` set (symbols_of e)"
  using add_symbols_nodes [OF assms, of n e k] by auto

lemma store_ok_parts:
  assumes "store_ok h m"
  shows "map_sorted (sa_reachabilityMap m)" and "symbol_map_ok (sa_reachabilitySymbolMap m)"
    and "map_sorted (sa_substitutionMap m)"
    and "covers se_originalExpression (sa_substitutionMap m) (sa_expressionSymbolMap m)"
    and "map_find (sa_reachabilityMap m) n = Some p \<Longrightarrow> p < length h \<and> fst (h ! p) = n"
    and "n \<in> set (symbol_nodes (sa_reachabilitySymbolMap m) k) \<Longrightarrow> map_find (sa_reachabilityMap m) n \<noteq> None"
  using assms by (auto simp: store_ok_def covers_def)

lemma evolves_reachability:
  assumes init: "shared_initializeReachabilityMapping n c m h = (new, m', h')" and ok: "store_ok h m"
  shows "evolves {n} h m h' {m'}"
proof -
  note parts = store_ok_parts [OF ok]
  note reg = registered_add [OF parts(2), of _ n c]
  show ?thesis
  proof (cases "map_find (sa_reachabilityMap m) n")
    case None
    with init have m': "m' = m\<lparr>sa_reachabilitySymbolMap := add_symbols n c (sa_reachabilitySymbolMap m),
        sa_reachabilityMap := map_insert n (length h) (sa_reachabilityMap m)\<rparr>"
      and h': "h' = h @ [(n, mk_ReachabilityExpression c)]"
      by (auto simp: shared_initializeReachabilityMapping_def Let_def)
    have "store_ok h' m'"
      using parts(1-4) ok
      by (auto simp: store_ok_def m' h' store_simps reg add_symbols_ok nth_append less_Suc_eq split: if_splits)
    moreover have "extends {n} m m'"
      using parts(1) None by (auto simp: extends_def m' store_simps reg)
    ultimately show ?thesis
      by (auto simp: evolves_def h' nth_append mk_ReachabilityExpression_def m' reg less_Suc_eq)
  next
    case (Some p)
    with init have m': "m' = m\<lparr>sa_reachabilitySymbolMap := add_symbols n c (sa_reachabilitySymbolMap m)\<rparr>"
      and h': "h' = h[p := (fst (h ! p), addCondition c (snd (h ! p)))]"
      by (auto simp: shared_initializeReachabilityMapping_def Let_def)
    have p: "p < length h" "fst (h ! p) = n" using parts(5) [OF Some] by auto
    have "store_ok h' m" by (rule store_ok_grows [OF ok]) (auto simp: h' nth_list_update p(1))
    then have "store_ok h' m'" using Some by (auto simp: store_ok_def m' reg add_symbols_ok)
    moreover have "extends {n} m m'" by (auto simp: extends_def m' reg)
    ultimately show ?thesis
      using p by (auto simp: evolves_def h' nth_list_update addCondition_def mk_LOr_def m' reg)
  qed
qed

lemma evolves_expression:
  assumes init: "shared_initializeExpressionMapping n v c m = (new, m')" and ok: "store_ok h m"
  shows "evolves {n} h m h {m'}"
proof -
  note parts = store_ok_parts [OF ok]
  from init have m': "m' = m\<lparr>sa_expressionSymbolMap := add_symbols n v (sa_expressionSymbolMap m),
      sa_substitutionMap := map_insert n (mk_SubstitutionExpression c v) (sa_substitutionMap m)\<rparr>"
    by (simp add: shared_initializeExpressionMapping_def)
  have "covers se_originalExpression (sa_substitutionMap m') (sa_expressionSymbolMap m')"
    unfolding m' using parts(3,4)
    by (simp, intro covers_add [OF parts(4)])
      (auto simp: store_simps mk_SubstitutionExpression_def split: if_splits option.splits)
  then have "store_ok h m'" using ok by (auto simp: store_ok_def m')
  moreover have "extends {n} m m'" using parts(3) by (auto simp: extends_def m' store_simps)
  ultimately show ?thesis by (auto simp: evolves_def)
qed

lemma evolves_addReachabilityMapping:
  assumes "addReachabilityMapping X n c s h = Inr (s', h')" and "store_ok h (es_nodeAnnotationMap s)"
  shows "evolves {n} h (es_nodeAnnotationMap s) h' {es_nodeAnnotationMap s'}"
  using assms evolves_reachability
  by (auto simp: addReachabilityMapping_def split: prod.splits if_splits)

lemma evolves_addExpressionMapping:
  assumes "addExpressionMapping X n t v s = Inr s'" and "store_ok h (es_nodeAnnotationMap s)"
  shows "evolves {n} h (es_nodeAnnotationMap s) h {es_nodeAnnotationMap s'}"
proof (cases "es_nodeAnnotationMap s' = es_nodeAnnotationMap s")
  case True
  with assms(2) show ?thesis by (auto intro: evolves_mono [OF evolves_refl])
next
  case False
  with assms(1) obtain new where "shared_initializeExpressionMapping n v (getExecutionCondition s)
      (es_nodeAnnotationMap s) = (new, es_nodeAnnotationMap s')"
    by (auto simp: addExpressionMapping_def split: prod.splits if_splits ty.splits)
  then show ?thesis using assms(2) by (rule evolves_expression)
qed

section \<open>What is looked up\<close>

definition stored_condition :: "reachability_store \<Rightarrow> shared_annotations \<Rightarrow> node \<Rightarrow> expr option" where
  "stored_condition h m n = map_option (\<lambda>p. re_cond (snd (h ! p))) (map_find (sa_reachabilityMap m) n)"

definition stored_value :: "shared_annotations \<Rightarrow> node \<Rightarrow> expr option" where
  "stored_value m n = map_option se_originalExpression (map_find (sa_substitutionMap m) n)"

lemma stored_maps:
  "map_option re_cond (map_find (na_reachabilityMap (stored_annotations h m)) n) = stored_condition h m n"
  "map_option se_originalExpression (map_find (na_substitutionMap (stored_annotations h m)) n) = stored_value m n"
proof -
  have "map_find (map (\<lambda>(n, p). (n, snd (h ! p))) r) n = map_option (\<lambda>p. snd (h ! p)) (map_find r n)" for r
    by (induction r) auto
  then show "map_option re_cond (map_find (na_reachabilityMap (stored_annotations h m)) n) = stored_condition h m n"
    "map_option se_originalExpression (map_find (na_substitutionMap (stored_annotations h m)) n) = stored_value m n"
    by (simp_all add: stored_annotations_def stored_condition_def stored_value_def option.map_comp comp_def)
qed

lemma evolves_stored:
  assumes "evolves N h m h' M" and "m' \<in> M" and "store_ok h m" and "n \<notin> N"
  shows "stored_condition h' m' n = stored_condition h m n" and "stored_value m' n = stored_value m n"
proof -
  have e: "extends N m m'" using evolves_member [OF assms(1,2)] by simp
  with assms(4) show "stored_value m' n = stored_value m n" by (simp add: extends_def stored_value_def)
  have r: "map_find (sa_reachabilityMap m') n = map_find (sa_reachabilityMap m) n"
    using e assms(4) by (simp add: extends_def)
  show "stored_condition h' m' n = stored_condition h m n"
  proof (cases "map_find (sa_reachabilityMap m) n")
    case (Some p)
    from store_ok_parts(5) [OF assms(3) Some] assms(1,4) have "h' ! p = h ! p" by (auto simp: evolves_def)
    with r Some show ?thesis by (simp add: stored_condition_def)
  qed (simp add: r stored_condition_def)
qed

text \<open>Values are never replaced; conditions neither, for nodes that are not passed.\<close>

lemma evolves_value_kept:
  "evolves N h m h' M \<Longrightarrow> m' \<in> M \<Longrightarrow> stored_value m n = Some v \<Longrightarrow> stored_value m' n = Some v"
  by (auto simp: evolves_def extends_def stored_value_def)

lemma store_ok_start: "store_ok [] no_annotations"
  by (simp add: store_ok_def no_annotations_def covers_def symbol_map_ok_Nil)
    (simp add: map_sorted_def symbol_nodes_def)

lemma finished_annotations_ok:
  assumes "evolves N [] no_annotations h {m}"
  shows "annotations_ok (stored_annotations h m)"
proof -
  have ok: "store_ok h m" using assms by (simp add: evolves_def)
  note parts = store_ok_parts [OF ok]
  have reach: "map_find (na_reachabilityMap (stored_annotations h m)) n =
      map_option (\<lambda>p. snd (h ! p)) (map_find (sa_reachabilityMap m) n)" for n
  proof -
    have "map_find (map (\<lambda>(n, p). (n, snd (h ! p))) r) n = map_option (\<lambda>p. snd (h ! p)) (map_find r n)" for r
      by (induction r) auto
    then show ?thesis by (simp add: stored_annotations_def)
  qed
  have "map_sorted (na_reachabilityMap (stored_annotations h m))"
    using parts(1) by (simp add: stored_annotations_def map_sorted_def sorted_wrt_map split_beta)
  moreover have "n \<in> set (symbol_nodes (sa_reachabilitySymbolMap m) (sv_key x))"
    if "map_find (na_reachabilityMap (stored_annotations h m)) n = Some r" "x \<in> set (symbols_of (re_cond r))" for n r x
  proof -
    from that(1) obtain p where p: "map_find (sa_reachabilityMap m) n = Some p" "r = snd (h ! p)"
      by (auto simp: reach)
    from parts(5) [OF p(1)] have "p < length h" "fst (h ! p) = n" by auto
    with assms that(2) p(2) show ?thesis by (auto simp: evolves_def)
  qed
  ultimately have "covers re_cond (na_reachabilityMap (stored_annotations h m))
      (na_reachabilitySymbolMap (stored_annotations h m))"
    using parts(2,6) unfolding covers_def reach
    by (auto simp: stored_annotations_def)
  with parts(4) show ?thesis by (simp add: annotations_ok_def stored_annotations_def)
qed

end
