(* ===== verification/SymbolicSoundness.thy ===== *)
theory SymbolicSoundness
  imports SymbolicExecution SharedAnnotations ElimDeadCode
begin

text \<open>
  The symbolic execution is right: on every execution of a program, in an environment that gives the
  symbolic variables the values of that execution, a variable has the value of its symbolic expression,
  and every annotation is what the execution shows at the node.

  The executions are those of \<open>Statements\<close>. What they leave open is related to the interpreter by
  \<open>agreement\<close>: variables hold what is assigned to them, operators mean what they mean on symbolic
  values, a table picks the action that the variables of its configuration say, actions run their
  bodies, and externs are modelled faithfully by the target. The programs are typed and in the form the
  front end leaves: no declarations, returns or exits in bodies, assignments to variables of base types.
\<close>

declare split_paired_All [simp del] split_paired_Ex [simp del]

section \<open>The setting\<close>

record ('e, 'z, 's) setting =
  k_tools :: "('e, 'z) interpreter"
  k_language :: "'s p4_language"
  k_env :: env
  k_type :: "StateVariable \<Rightarrow> ty"
  k_callType :: "pexp \<Rightarrow> ty"
  k_nodeType :: "node \<Rightarrow> ty"
  k_scope :: "StateVariable set"
  k_actionNodes :: "node set"

text \<open>The value of a variable in a state of the program.\<close>

fun read_var :: "'s p4_language \<Rightarrow> StateVariable \<Rightarrow> 's \<Rightarrow> val option" where
  "read_var L (VarPath x) s = l_path L x s"
| "read_var L (VarMember v m) s = assign_or_return (read_var L v s) (l_member L m)"
| "read_var L (VarIndex v i) s = None"

text \<open>
  The states that occur: all variables in scope have a value of their type, and in a described state
  it is the value the variable has.
\<close>

abbreviation var_value :: "('e, 'z, 's) setting \<Rightarrow> ('e, 'z) exec_state \<Rightarrow> StateVariable \<Rightarrow> expr option" where
  "var_value K st \<equiv> env_get (k_tools K) (es_env (fst st))"

definition env_ok :: "('e, 'z, 's) setting \<Rightarrow> StateVariable set \<Rightarrow> ('e, 'z) exec_state \<Rightarrow> bool" where
  "env_ok K V st \<longleftrightarrow> (\<forall>v \<in> V. \<exists>e. var_value K st v = Some e \<and> typed_as e (k_type K v)) \<and>
     typed_as (getExecutionCondition (fst st)) Type_Boolean"

definition describes :: "('e, 'z, 's) setting \<Rightarrow> StateVariable set \<Rightarrow> ('e, 'z) exec_state \<Rightarrow> 's \<Rightarrow> bool" where
  "describes K V st s \<longleftrightarrow>
     (\<forall>v \<in> V. \<forall>e w. var_value K st v = Some e \<longrightarrow> read_var (k_language K) v s = Some w \<longrightarrow>
        eval (k_env K) e = Some w)"

definition reached :: "('e, 'z, 's) setting \<Rightarrow> ('e, 'z) exec_state \<Rightarrow> bool" where
  "reached K st \<longleftrightarrow> eval (k_env K) (getExecutionCondition (fst st)) = Some (VBool True)"

section \<open>Annotations along an execution\<close>

abbreviation annotations_of :: "('e, 'z) exec_state \<Rightarrow> shared_annotations" where
  "annotations_of st \<equiv> es_nodeAnnotationMap (fst st)"

abbreviation store_of :: "('e, 'z) exec_state \<Rightarrow> reachability_store" where
  "store_of st \<equiv> an_store (snd st)"

definition consistent :: "('e, 'z) exec_state \<Rightarrow> bool" where
  "consistent st \<longleftrightarrow> store_ok (store_of st) (annotations_of st)"

definition steps_to :: "node set \<Rightarrow> ('e, 'z) exec_state \<Rightarrow> ('e, 'z) exec_state \<Rightarrow> bool" where
  "steps_to N st st' \<longleftrightarrow>
     (consistent st \<longrightarrow>
        evolves N (store_of st) (annotations_of st) (store_of st') {annotations_of st'}) \<and>
     es_executionCondition (fst st') = es_executionCondition (fst st)"

lemma steps_to_refl [simp, intro]: "steps_to N st st"
  unfolding steps_to_def consistent_def using evolves_mono [OF evolves_refl] by blast

lemma steps_to_mono: "steps_to N st st' \<Longrightarrow> N \<subseteq> N' \<Longrightarrow> steps_to N' st st'"
  unfolding steps_to_def using evolves_mono by blast

lemma steps_to_consistent: "steps_to N st st' \<Longrightarrow> consistent st \<Longrightarrow> consistent st'"
  by (simp add: steps_to_def consistent_def evolves_def)

lemma steps_to_trans:
  assumes "steps_to N st st'" and "steps_to N' st' st''"
  shows "steps_to (N \<union> N') st st''"
  using assms evolves_trans steps_to_consistent [OF assms(1)] unfolding steps_to_def by metis

lemma steps_to_trans_in:
  "steps_to N st st' \<Longrightarrow> steps_to N st' st'' \<Longrightarrow> steps_to N st st''"
  using steps_to_trans [of N st st' N st''] by simp

text \<open>The conditions and values at the nodes, and the monitor for final conditions and values.\<close>

abbreviation condition_at :: "('e, 'z) exec_state \<Rightarrow> node \<Rightarrow> expr option" where
  "condition_at st \<equiv> stored_condition (store_of st) (annotations_of st)"

abbreviation value_at :: "('e, 'z) exec_state \<Rightarrow> node \<Rightarrow> expr option" where
  "value_at st \<equiv> stored_value (annotations_of st)"

definition monitor_of ::
  "('e, 'z, 's) setting \<Rightarrow> (node \<Rightarrow> expr option) \<Rightarrow> (node \<Rightarrow> expr option) \<Rightarrow> monitor" where
  "monitor_of K RC SC =
     \<lparr>m_value = (\<lambda>n v. \<forall>e. SC n = Some e \<longrightarrow> eval (k_env K) e = Some v \<and> val_type v = k_nodeType K n),
      m_cond = (\<lambda>n b. \<forall>c. RC n = Some c \<longrightarrow> eval (k_env K) c = Some (VBool b))\<rparr>"

definition agrees ::
  "node set \<Rightarrow> ('e, 'z) exec_state \<Rightarrow> (node \<Rightarrow> expr option) \<Rightarrow> (node \<Rightarrow> expr option) \<Rightarrow> bool" where
  "agrees N st RC SC \<longleftrightarrow> (\<forall>n \<in> N. RC n = condition_at st n \<and> SC n = value_at st n)"

definition fresh :: "node set \<Rightarrow> ('e, 'z) exec_state \<Rightarrow> bool" where
  "fresh N st \<longleftrightarrow> (\<forall>n \<in> N. condition_at st n = None \<and> value_at st n = None)"

lemma steps_to_at:
  assumes "steps_to N st st'" and "consistent st" and "n \<notin> N"
  shows "condition_at st' n = condition_at st n" and "value_at st' n = value_at st n"
  using assms evolves_stored [of N "store_of st" "annotations_of st" "store_of st'" "{annotations_of st'}"]
  by (auto simp: steps_to_def consistent_def)

lemma steps_to_fresh:
  assumes "steps_to N st st'" and "consistent st" and "fresh N' st" and "N \<inter> N' = {}"
  shows "fresh N' st'"
  unfolding fresh_def
proof
  fix n
  assume n: "n \<in> N'"
  with assms(4) have "n \<notin> N" by blast
  from steps_to_at [OF assms(1,2) this] n assms(3) show "condition_at st' n = None \<and> value_at st' n = None"
    by (simp add: fresh_def)
qed

lemma steps_to_agrees:
  assumes "steps_to N st st'" and "consistent st" and "agrees N' st' RC SC" and "N \<inter> N' = {}"
  shows "agrees N' st RC SC"
  unfolding agrees_def
proof
  fix n
  assume n: "n \<in> N'"
  with assms(4) have "n \<notin> N" by blast
  from steps_to_at [OF assms(1,2) this] n assms(3) show "RC n = condition_at st n \<and> SC n = value_at st n"
    by (simp add: agrees_def)
qed

lemma agrees_mono: "agrees N st RC SC \<Longrightarrow> N' \<subseteq> N \<Longrightarrow> agrees N' st RC SC"
  unfolding agrees_def by blast

lemma fresh_mono: "fresh N st \<Longrightarrow> N' \<subseteq> N \<Longrightarrow> fresh N' st"
  unfolding fresh_def by blast

lemma steps_to_reached: "steps_to N st st' \<Longrightarrow> reached K st' = reached K st"
  by (simp add: steps_to_def reached_def getExecutionCondition_def)

section \<open>Expressions of typed programs\<close>

text \<open>The nodes an expression annotates, and the nodes of paths that only lead to a member.\<close>

definition table_nodes :: "('e, 'z) interpreter \<Rightarrow> pexp \<Rightarrow> node list" where
  "table_nodes X m =
     (case findTable X m of
        Some xt \<Rightarrow> (case xt_actionList xt of Some acts \<Rightarrow> map al_node acts | None \<Rightarrow> [])
      | None \<Rightarrow> [])"

fun is_call :: "pexp \<Rightarrow> bool" where
  "is_call (PCall n m ds args) = True"
| "is_call _ = False"

fun enodes :: "('e, 'z) interpreter \<Rightarrow> pexp \<Rightarrow> node list" where
  "enodes X (PLit l) = []"
| "enodes X (PPath n t x) = [n]"
| "enodes X (PMember n t e m) = (if is_call e then enodes X e else []) @ [n]"
| "enodes X (PLNot e) = enodes X e"
| "enodes X (POp f es) = concat (map (enodes X) es)"
| "enodes X (PCall n m ds args) = concat (map (enodes X) args) @ table_nodes X m"

fun chain_nodes :: "pexp \<Rightarrow> node list" where
  "chain_nodes (PPath n t x) = [n]"
| "chain_nodes (PMember n t e m) = n # chain_nodes e"
| "chain_nodes _ = []"

fun bnodes :: "pexp \<Rightarrow> node list" where
  "bnodes (PMember n t e m) = (if is_call e then bnodes e else chain_nodes e)"
| "bnodes (PLNot e) = bnodes e"
| "bnodes (POp f es) = concat (map bnodes es)"
| "bnodes (PCall n m ds args) = concat (map bnodes args)"
| "bnodes _ = []"

fun is_chain :: "pexp \<Rightarrow> bool" where
  "is_chain (PPath n t x) = True"
| "is_chain (PMember n t e m) = is_chain e"
| "is_chain _ = False"

fun operator_type :: "operator \<Rightarrow> ty list \<Rightarrow> ty" where
  "operator_type (Op_Unary t op) ts = t"
| "operator_type (Op_Binary t op) ts = t"
| "operator_type (Op_Saturating t op) ts = t"
| "operator_type (Op_Slice t hi lo) ts = t"
| "operator_type (Op_Mux t) ts = t"
| "operator_type Op_List ts = Type_Tuple ts"
| "operator_type (Op_Struct ns) ts = Type_Struct ns ts"

fun ptype :: "('e, 'z, 's) setting \<Rightarrow> pexp \<Rightarrow> ty" where
  "ptype K (PLit l) = type_of l"
| "ptype K (PPath n t x) = t"
| "ptype K (PMember n t e m) = t"
| "ptype K (PLNot e) = Type_Boolean"
| "ptype K (POp f es) = operator_type f (map (ptype K) es)"
| "ptype K (PCall n m ds args) = k_callType K (PCall n m ds args)"

text \<open>Operands an operator may have; structures and lists only occur as whole arguments, and not here.\<close>

fun operator_ok :: "operator \<Rightarrow> ty list \<Rightarrow> bool" where
  "operator_ok (Op_Unary t op) [a] \<longleftrightarrow> (op = LNot \<longrightarrow> t = Type_Boolean)"
| "operator_ok (Op_Binary t op) [a, b] \<longleftrightarrow> op \<noteq> ArrayIndex \<and>
     (op = LAnd \<or> op = LOr \<longrightarrow> t = Type_Boolean \<and> a = Type_Boolean \<and> b = Type_Boolean) \<and>
     (op = Equ \<or> op = Neq \<longrightarrow> t = Type_Boolean)"
| "operator_ok (Op_Saturating t op) [a, b] \<longleftrightarrow> True"
| "operator_ok (Op_Slice t hi lo) [a] \<longleftrightarrow> True"
| "operator_ok (Op_Mux t) [c, a, b] \<longleftrightarrow> c = Type_Boolean \<and> a = t \<and> b = t"
| "operator_ok _ _ \<longleftrightarrow> False"

definition table_member_type :: "string \<Rightarrow> ty option" where
  "table_member_type m =
     (if m = ''hit'' \<or> m = ''miss'' then Some Type_Boolean
      else if m = ''action_run'' then Some Type_String else None)"

text \<open>A call of an extern function, or of a method of an extern object.\<close>

definition extern_call :: "('e, 'z, 's) setting \<Rightarrow> pexp \<Rightarrow> bool" where
  "extern_call K m \<longleftrightarrow> \<not> isAction (k_tools K) m \<and> applied_table (l_refMap (k_language K)) m = None \<and>
     (case m of
        PPath n t x \<Rightarrow> (\<forall>body. l_refMap (k_language K) x \<noteq> Some (ActionDecl body))
      | PMember n t obj f \<Rightarrow> isExternObject (k_tools K) obj \<and> (\<exists>n' t' x. obj = PPath n' t' x)
      | _ \<Rightarrow> False)"

text \<open>The tables and actions of the program as both sides see them.\<close>

definition table_matches :: "exec_table \<Rightarrow> table_decl \<Rightarrow> bool" where
  "table_matches xt td \<longleftrightarrow>
     (case xt_actionList xt of
        None \<Rightarrow> td_actions td = []
      | Some acts \<Rightarrow> td_actions td = map (\<lambda>el. (al_node el, al_controlPlaneName el)) acts)"

definition table_call :: "('e, 'z, 's) setting \<Rightarrow> StateVariable set \<Rightarrow> pexp \<Rightarrow> string \<Rightarrow> exec_table \<Rightarrow> bool" where
  "table_call K V e x xt \<longleftrightarrow> V = k_scope K \<and>
     (\<exists>cn n t n' t' ds td. e = PCall cn (PMember n t (PPath n' t' x) ''apply'') (Some ds) [] \<and>
        \<not> isAction (k_tools K) (PMember n t (PPath n' t' x) ''apply'') \<and>
        \<not> isExternObject (k_tools K) (PPath n' t' x) \<and>
        findTable (k_tools K) (PMember n t (PPath n' t' x) ''apply'') = Some xt \<and>
        l_refMap (k_language K) x = Some (TableDecl td) \<and> table_matches xt td)"

fun wt :: "('e, 'z, 's) setting \<Rightarrow> StateVariable set \<Rightarrow> pexp \<Rightarrow> bool" where
  "wt K V (PLit l) \<longleftrightarrow> to_Literal l \<noteq> None"
| "wt K V (PPath n t x) \<longleftrightarrow> is_Type_Base t \<and> VarPath x \<in> V \<and> k_type K (VarPath x) = t \<and> k_nodeType K n = t"
| "wt K V (PMember n t e m) \<longleftrightarrow> is_Type_Base t \<and> k_nodeType K n = t \<and>
     (if is_call e then (\<exists>x xt. table_call K V e x xt) \<and> table_member_type m = Some t
      else is_chain e \<and> (\<exists>v \<in> V. to_StateVariable (PMember n t e m) = Some v \<and> k_type K v = t))"
| "wt K V (PLNot e) \<longleftrightarrow> wt K V e \<and> ptype K e = Type_Boolean"
| "wt K V (POp f es) \<longleftrightarrow> (\<forall>e \<in> set es. wt K V e) \<and> operator_ok f (map (ptype K) es) \<and>
     (\<forall>t. f = Op_Mux t \<longrightarrow> (\<forall>e \<in> set es. call_free e))"
| "wt K V (PCall n m ds args) \<longleftrightarrow> extern_call K m \<and>
     (\<exists>ds'. ds = Some ds' \<and> length args \<le> length ds' \<and>
        (\<forall>i < length args. \<not> isExternParameter (k_tools K) m i \<and>
           (ds' ! i = Out \<or> ds' ! i = InOut \<longrightarrow> is_chain (args ! i)))) \<and>
     (\<forall>arg \<in> set args. wt K V arg)"

section \<open>What the sides have to agree on\<close>

text \<open>Operators mean on values what they mean on symbolic expressions.\<close>

fun operator_val :: "operator \<Rightarrow> val list \<Rightarrow> val option" where
  "operator_val (Op_Unary t op) [a] = typed t (unop_val t op a)"
| "operator_val (Op_Binary t op) [a, b] = typed t (binop_val op a b)"
| "operator_val (Op_Slice t hi lo) [a] = typed t (slice_val hi lo a)"
| "operator_val (Op_Mux t) [c, a, b] = (case c of VBool p \<Rightarrow> typed t (Some (if p then a else b)) | _ \<Rightarrow> None)"
| "operator_val _ _ = None"

definition is_saturating :: "operator \<Rightarrow> bool" where
  "is_saturating f \<longleftrightarrow> (case f of Op_Saturating t op \<Rightarrow> True | _ \<Rightarrow> False)"

definition operators_agree :: "('e, 'z, 's) setting \<Rightarrow> bool" where
  "operators_agree K \<longleftrightarrow>
     (\<forall>f ws w. \<not> is_saturating f \<and> l_op (k_language K) f ws = Some w \<longrightarrow> operator_val f ws = Some w) \<and>
     (\<forall>t op a b x y w. eval (k_env K) a = Some x \<and> eval (k_env K) b = Some y \<and>
        l_op (k_language K) (Op_Saturating t op) [x, y] = Some w \<longrightarrow>
        eval (k_env K) (eliminate (k_tools K) t op a b) = Some w) \<and>
     (\<forall>t op a b. ty_ok a \<and> ty_ok b \<longrightarrow> typed_as (eliminate (k_tools K) t op a b) t) \<and>
     (\<forall>a b x y w. eval (k_env K) a = Some x \<and> eval (k_env K) b = Some y \<and> eq_val True x y = Some w \<longrightarrow>
        eval (k_env K) (equate (k_tools K) a b) = Some w) \<and>
     (\<forall>a b. ty_ok a \<and> ty_ok b \<longrightarrow> typed_as (equate (k_tools K) a b) Type_Boolean)"

text \<open>Assignments and parameters of base types change the variable they name, and no other.\<close>

definition stores_agree :: "('e, 'z, 's) setting \<Rightarrow> bool" where
  "stores_agree K \<longleftrightarrow> env_laws (k_tools K) \<and>
     (\<forall>l v w s s'. to_StateVariable l = Some v \<and> is_chain l \<and> is_Type_Base (k_type K v) \<and>
        l_assign (k_language K) l w s = Some s' \<longrightarrow>
        (\<forall>v'. is_Type_Base (k_type K v') \<longrightarrow>
           read_var (k_language K) v' s' = (if v' = v then Some w else read_var (k_language K) v' s))) \<and>
     (\<forall>x w s v'. is_Type_Base (k_type K (VarPath x)) \<and> is_Type_Base (k_type K v') \<longrightarrow>
        read_var (k_language K) v' (l_declare (k_language K) x (Some w) s) =
          (if v' = VarPath x then Some w else read_var (k_language K) v' s))"

text \<open>The values of the arguments the callee reads.\<close>

fun arg_values :: "env \<Rightarrow> direction list \<Rightarrow> argument list \<Rightarrow> val list \<Rightarrow> bool" where
  "arg_values env ds [] vs = True"
| "arg_values env [] (a # as) vs = False"
| "arg_values env (d # ds) (a # as) vs =
     (if d = Out \<or> d = InOut then arg_values env ds as vs
      else case vs of
        [] \<Rightarrow> False
      | v # vs \<Rightarrow> (\<exists>e. a = Argument e \<and> eval env e = Some v) \<and> arg_values env ds as vs)"

text \<open>
  The target's model of an extern leaves the annotations alone, keeps variables typed, and follows the
  extern in states it describes.
\<close>

definition extern_info :: "pexp \<Rightarrow> argument list \<Rightarrow> ExternInfo" where
  "extern_info call as =
     (case call of
        PCall n (PMember n' t obj f) ds args \<Rightarrow>
          \<lparr>ei_originalCall = call, ei_externObjectRef = to_string obj, ei_methodName = f, ei_externArgs = as\<rparr>
      | PCall n m ds args \<Rightarrow>
          \<lparr>ei_originalCall = call, ei_externObjectRef = ''*method'', ei_methodName = to_string m, ei_externArgs = as\<rparr>
      | _ \<Rightarrow> \<lparr>ei_originalCall = call, ei_externObjectRef = [], ei_methodName = [], ei_externArgs = as\<rparr>)"

definition externs_agree :: "('e, 'z, 's) setting \<Rightarrow> bool" where
  "externs_agree K \<longleftrightarrow>
     (\<forall>info st res st'. processExtern (k_tools K) info st = Inr (res, st') \<longrightarrow>
        steps_to {} st st' \<and>
        (\<forall>V. env_ok K V st \<longrightarrow> env_ok K V st' \<and>
           (\<forall>v. res = Some v \<longrightarrow> typed_as v (k_callType K (ei_originalCall info))))) \<and>
     (\<forall>n m ds args as st res st' V s outs vs w s'.
        processExtern (k_tools K) (extern_info (PCall n m (Some ds) args) as) st = Inr (res, st') \<and>
        describes K V st s \<and> arg_values (k_env K) ds as vs \<and>
        l_call (k_language K) m outs vs s = Some (w, s') \<longrightarrow>
        describes K V st' s' \<and> (\<forall>v. res = Some v \<longrightarrow> eval (k_env K) v = Some w))"

text \<open>
  A table picks its action by the variables of its configuration: the chosen action of the entry that
  matches when the table is active and the action may be in entries, the default action otherwise; one
  that may be a default action gets the configured arguments, the declared one outside of the list its
  declared arguments.
\<close>

definition action_of :: "('e, 'z) interpreter \<Rightarrow> ActionListElement \<Rightarrow> exec_action option" where
  "action_of X el = getP4Action X (al_expression el)"

definition configured_arguments :: "('e, 'z, 's) setting \<Rightarrow> exec_table \<Rightarrow> exec_action \<Rightarrow> val option list" where
  "configured_arguments K xt act =
     map (\<lambda>a. case a of Argument e \<Rightarrow> eval (k_env K) e | _ \<Rightarrow> None)
       (createActionCallArguments (k_tools K) (xt_controlPlaneName xt) (xa_controlPlaneName act) (xa_parameters act))"

definition picks ::
  "('e, 'z, 's) setting \<Rightarrow> exec_table \<Rightarrow> ActionListElement list \<Rightarrow> string \<Rightarrow> val list \<Rightarrow> bool \<Rightarrow> bool" where
  "picks K xt acts a vs hit \<longleftrightarrow>
     (\<exists>active choice def. let X = k_tools K; table = xt_controlPlaneName xt;
          is_entry = (\<lambda>el. \<not> al_defaultOnly el \<and> map_option xa_controlPlaneName (action_of X el) = Some choice);
          is_default = (\<lambda>el. \<not> al_tableOnly el \<and> map_option xa_controlPlaneName (action_of X el) = Some def) in
        eval (k_env K) (SymbolicVariable (getTableActive (it_symbols X) table)) = Some (VBool active) \<and>
        eval (k_env K) (SymbolicVariable (getTableActionChoice (it_symbols X) table)) = Some (VStr choice) \<and>
        eval (k_env K) (SymbolicVariable (getDefaultActionVariable table)) = Some (VStr def) \<and>
        (\<not> active \<longrightarrow> (\<forall>el \<in> set acts. \<not> is_entry el)) \<and>
        (hit \<longleftrightarrow> active \<and> (\<exists>el \<in> set acts. is_entry el)) \<and>
        (\<forall>el \<in> set acts. al_controlPlaneName el = a \<longleftrightarrow> (if hit then is_entry el else is_default el)) \<and>
        (\<forall>el \<in> set acts. al_controlPlaneName el = a \<longrightarrow>
           (\<exists>act. action_of X el = Some act \<and> configured_arguments K xt act = map Some vs)) \<and>
        ((\<forall>el \<in> set acts. al_controlPlaneName el \<noteq> a) \<longrightarrow>
           a = getDefaultActionName xt \<and>
           (\<exists>n m ds args. xt_defaultAction xt = PCall n m ds args \<and>
              map (\<lambda>e. assign_or_return (as_expr e) (eval (k_env K))) args = map Some vs)))"

section \<open>Statements of typed programs\<close>

function (sequential) snodes :: "('e, 'z) interpreter \<Rightarrow> stmt \<Rightarrow> node list" where
  "snodes X (SAssign l r) = enodes X r"
| "snodes X (SIf n c t f) =
     enodes X c @ n # snodes X t @ (case f of None \<Rightarrow> [] | Some g \<Rightarrow> snodes X g)"
| "snodes X (SSwitch n e cs) =
     enodes X e @ concat (map (\<lambda>c. sc_node c #
       (case sc_statement c of None \<Rightarrow> [] | Some ss \<Rightarrow> concat (map (snodes X) ss))) cs)"
| "snodes X (SCall n e) = enodes X e"
| "snodes X (SBlock ss) = concat (map (snodes X) ss)"
| "snodes X x = []"
  by pat_completeness auto
termination
  by (relation "measure (\<lambda>(X, x). size x)") (auto dest: block_statement_size case_statement_size)

function (sequential) sbases :: "stmt \<Rightarrow> node list" where
  "sbases (SAssign l r) = bnodes r"
| "sbases (SIf n c t f) = bnodes c @ sbases t @ (case f of None \<Rightarrow> [] | Some g \<Rightarrow> sbases g)"
| "sbases (SSwitch n e cs) =
     bnodes e @ concat (map (\<lambda>c.
       (case sc_statement c of None \<Rightarrow> [] | Some ss \<Rightarrow> concat (map sbases ss))) cs)"
| "sbases (SCall n e) = bnodes e"
| "sbases (SBlock ss) = concat (map sbases ss)"
| "sbases x = []"
  by pat_completeness auto
termination
  by (relation "measure size") (auto dest: block_statement_size case_statement_size)

text \<open>An action does in the program what its body does, with its parameters declared.\<close>

fun declare_all :: "'s p4_language \<Rightarrow> (ActionParameter \<times> val) list \<Rightarrow> 's \<Rightarrow> 's" where
  "declare_all L [] s = s"
| "declare_all L ((p, v) # rest) s = declare_all L rest (l_declare L (ap_name p) (Some v) s)"

definition action_runs :: "('e, 'z, 's) setting \<Rightarrow> string \<Rightarrow> exec_action \<Rightarrow> bool" where
  "action_runs K a act \<longleftrightarrow>
     (\<forall>vs s s'. run_action (k_language K) a [] vs s = Some s' \<longrightarrow> length vs = length (xa_parameters act) \<and>
        (\<exists>stopped. run (k_language K) (xa_body act)
           (declare_all (k_language K) (zip (xa_parameters act) vs) s) = Some (s', stopped)))"

definition action_call :: "('e, 'z, 's) setting \<Rightarrow> StateVariable set \<Rightarrow> pexp \<Rightarrow> bool" where
  "action_call K V e \<longleftrightarrow> k_scope K \<subseteq> V \<and>
     (\<exists>n n' t a ds body act. e = PCall n (PPath n' t a) (Some ds) [] \<and> isAction (k_tools K) (PPath n' t a) \<and>
        l_refMap (k_language K) a = Some (ActionDecl body) \<and> getP4Action (k_tools K) e = Some act \<and>
        xa_parameters act = [] \<and> action_runs K a act)"

text \<open>The labels of a switch.\<close>

definition labels_of :: "switch_case list \<Rightarrow> pexp list" where
  "labels_of cs = concat (map (\<lambda>c. case sc_label c of None \<Rightarrow> [] | Some l \<Rightarrow> [l]) cs)"

function (sequential) wt_stmt :: "('e, 'z, 's) setting \<Rightarrow> StateVariable set \<Rightarrow> stmt \<Rightarrow> bool" where
  "wt_stmt K V SEmpty \<longleftrightarrow> True"
| "wt_stmt K V (SAssign l r) \<longleftrightarrow> is_chain l \<and> is_Type_Base (pexp_type l) \<and> wt K V r \<and>
     ptype K r = pexp_type l \<and> (\<exists>v \<in> V. to_StateVariable l = Some v \<and> k_type K v = pexp_type l)"
| "wt_stmt K V (SIf n c t f) \<longleftrightarrow> wt K V c \<and> ptype K c = Type_Boolean \<and> wt_stmt K V t \<and>
     (\<forall>g \<in> set_option f. wt_stmt K V g)"
| "wt_stmt K V (SSwitch n e cs) \<longleftrightarrow> wt K V e \<and> default_last cs \<and>
     distinct (map (l_label (k_language K)) (labels_of cs)) \<and>
     (\<forall>c \<in> set cs. \<forall>l \<in> set_option (sc_label c). \<exists>lit. case_label (is_table_mode e) l = Inr lit \<and>
        typed_as lit (ptype K e) \<and> eval (k_env K) lit = Some (l_label (k_language K) l)) \<and>
     (\<forall>c \<in> set cs. \<forall>ss \<in> set_option (sc_statement c). \<forall>x \<in> set ss. wt_stmt K V x)"
| "wt_stmt K V (SCall n e) \<longleftrightarrow> wt K V e \<and> is_call e \<or> (\<exists>x xt. table_call K V e x xt) \<or> action_call K V e"
| "wt_stmt K V (SBlock ss) \<longleftrightarrow> (\<forall>x \<in> set ss. wt_stmt K V x)"
| "wt_stmt K V x \<longleftrightarrow> False"
  by pat_completeness auto
termination
  by (relation "measure (\<lambda>(K, V, x). size x)") (auto dest: block_statement_size case_statement_size)

text \<open>All tables and actions of the program, and the names of the control plane's variables.\<close>

definition parameters_ok :: "('e, 'z, 's) setting \<Rightarrow> exec_action \<Rightarrow> bool" where
  "parameters_ok K act \<longleftrightarrow>
     (\<forall>p \<in> set (xa_parameters act). is_Type_Base (pp_type p) \<and> k_type K (VarPath (ap_name p)) = pp_type p)"

definition parameter_vars :: "exec_action \<Rightarrow> StateVariable set" where
  "parameter_vars act = (\<lambda>p. VarPath (ap_name p)) ` set (xa_parameters act)"

definition actions_ok :: "('e, 'z, 's) setting \<Rightarrow> bool" where
  "actions_ok K \<longleftrightarrow>
     (\<forall>call act. getP4Action (k_tools K) call = Some act \<longrightarrow>
        set (snodes (k_tools K) (xa_body act)) \<subseteq> k_actionNodes K \<and> parameters_ok K act \<and>
        (\<forall>V. k_scope K \<union> parameter_vars act \<subseteq> V \<longrightarrow> wt_stmt K V (xa_body act)))"

definition tables_ok :: "('e, 'z, 's) setting \<Rightarrow> bool" where
  "tables_ok K \<longleftrightarrow>
     (\<forall>m xt. findTable (k_tools K) m = Some xt \<longrightarrow>
        (\<forall>key. xt_key xt = Some key \<longrightarrow>
           (\<forall>kf \<in> set key. call_free (kf_expression kf) \<and>
              set (enodes (k_tools K) (kf_expression kf)) \<subseteq> k_actionNodes K)) \<and>
        (\<forall>acts. xt_actionList xt = Some acts \<longrightarrow>
           (\<forall>el \<in> set acts. \<forall>act. action_of (k_tools K) el = Some act \<longrightarrow>
              action_runs K (al_controlPlaneName el) act \<and> parameter_vars act \<inter> k_scope K = {})) \<and>
        (\<forall>act n dm ds args es. getP4Action (k_tools K) (xt_defaultAction xt) = Some act \<and>
           xt_defaultAction xt = PCall n dm ds args \<and> all_some (map as_expr args) = Some es \<longrightarrow>
           action_runs K (getDefaultActionName xt) act \<and> parameter_vars act \<inter> k_scope K = {} \<and>
           list_all2 (\<lambda>p e. typed_as e (pp_type p)) (xa_parameters act) es))"

definition symbols_ok :: "cp_symbols \<Rightarrow> bool" where
  "symbols_ok P \<longleftrightarrow>
     (\<forall>t. sv_type (getTableActive P t) = Type_Boolean \<and> sv_type (getTableActionChoice P t) = Type_String) \<and>
     (\<forall>t a p ty. sv_type (getTableActionArgument P t a p ty) = ty)"

definition picks_agree :: "('e, 'z, 's) setting \<Rightarrow> bool" where
  "picks_agree K \<longleftrightarrow>
     (\<forall>m t xt s a vs hit. findTable (k_tools K) m = Some xt \<and>
        (\<exists>n ty n' ty'. m = PMember n ty (PPath n' ty' t) ''apply'') \<and>
        l_pick (k_language K) t s = Some (a, vs, hit) \<longrightarrow>
        picks K xt (case xt_actionList xt of None \<Rightarrow> [] | Some acts \<Rightarrow> acts) a vs hit) \<and>
     (\<forall>a hit v. l_member (k_language K) ''hit'' (apply_result a hit) = Some v \<longrightarrow> v = VBool hit) \<and>
     (\<forall>a hit v. l_member (k_language K) ''miss'' (apply_result a hit) = Some v \<longrightarrow> v = VBool (\<not> hit)) \<and>
     (\<forall>a hit v. l_member (k_language K) ''action_run'' (apply_result a hit) = Some v \<longrightarrow> v = VStr a)"

definition agreement :: "('e, 'z, 's) setting \<Rightarrow> bool" where
  "agreement K \<longleftrightarrow> operators_agree K \<and> stores_agree K \<and> externs_agree K \<and> picks_agree K \<and>
     actions_ok K \<and> tables_ok K \<and> symbols_ok (it_symbols (k_tools K)) \<and>
     (\<forall>v \<in> k_scope K. is_Type_Base (k_type K v))"

end
