(* ===== verification/ResolverSoundness.thy ===== *)
theory ResolverSoundness
  imports SymbolicSoundness
begin

text \<open>
  Soundness of the expression resolver: what it returns for an expression has the value of the
  expression in every described state, the resolver follows the effects of the expression, and the
  annotations it leaves hold along the evaluation. The notion of simulation and its rules for sequences
  serve the statements as well.
\<close>

declare split_paired_All [simp del] split_paired_Ex [simp del]

section \<open>Annotating a node\<close>

lemma annotate_reachability_steps:
  assumes "annotate_reachability X n c st = Inr st'"
  shows "steps_to {n} st st'" and "es_env (fst st') = es_env (fst st)"
    and "value_at st' k = value_at st k"
    and "consistent st \<Longrightarrow> condition_at st n = None \<Longrightarrow>
      condition_at st' n = Some (mk_LAnd (getExecutionCondition (fst st)) c)"
proof -
  obtain s h where a: "addReachabilityMapping X n c (fst st) (an_store (snd st)) = Inr (s, h)"
    and st': "st' = (s, (snd st)\<lparr>an_store := h\<rparr>)"
    using assms by (auto simp: annotate_reachability_def option_simps)
  then obtain b m where i: "shared_initializeReachabilityMapping n (mk_LAnd (getExecutionCondition (fst st)) c)
      (annotations_of st) (store_of st) = (b, m, h)" and s: "s = (fst st)\<lparr>es_nodeAnnotationMap := m\<rparr>"
    by (auto simp: addReachabilityMapping_def split: prod.splits if_splits)
  show "steps_to {n} st st'"
    using evolves_addReachabilityMapping [OF a] by (simp add: steps_to_def consistent_def st' s)
  show "es_env (fst st') = es_env (fst st)" by (simp add: st' s)
  show "value_at st' k = value_at st k" using i
    by (auto simp: st' s stored_value_def shared_initializeReachabilityMapping_def Let_def split: option.splits)
  assume ok: "consistent st" and new: "condition_at st n = None"
  then show "condition_at st' n = Some (mk_LAnd (getExecutionCondition (fst st)) c)"
    using i by (auto simp: st' s stored_condition_def shared_initializeReachabilityMapping_def Let_def store_simps
        consistent_def store_ok_def mk_ReachabilityExpression_def)
qed

definition annotated_value :: "ty \<Rightarrow> expr \<Rightarrow> expr option" where
  "annotated_value t v = (case t of Type_Bits w s \<Rightarrow> Some v | _ \<Rightarrow> None)"

lemma annotate_expression_steps:
  assumes "annotate_expression X n t v st = Inr st'"
  shows "steps_to {n} st st'" and "es_env (fst st') = es_env (fst st)"
    and "condition_at st' k = condition_at st k"
    and "consistent st \<Longrightarrow> value_at st n = None \<Longrightarrow> value_at st' n = annotated_value t v"
proof -
  obtain s where a: "addExpressionMapping X n t v (fst st) = Inr s" and st': "st' = (s, snd st)"
    using assms by (auto simp: annotate_expression_def option_simps)
  have fields: "es_executionCondition s = es_executionCondition (fst st)" "es_env s = es_env (fst st)"
    "sa_reachabilityMap (es_nodeAnnotationMap s) = sa_reachabilityMap (annotations_of st)"
    using a by (auto simp: addExpressionMapping_def shared_initializeExpressionMapping_def
        split: prod.splits if_splits ty.splits)
  show "steps_to {n} st st'"
    using evolves_addExpressionMapping [OF a] by (simp add: steps_to_def consistent_def st' fields)
  show "es_env (fst st') = es_env (fst st)" by (simp add: st' fields)
  show "condition_at st' k = condition_at st k" by (simp add: st' fields stored_condition_def)
  assume "consistent st" and "value_at st n = None"
  then show "value_at st' n = annotated_value t v"
    using a by (auto simp: st' stored_value_def addExpressionMapping_def shared_initializeExpressionMapping_def
        store_simps consistent_def store_ok_def covers_def annotated_value_def mk_SubstitutionExpression_def
        split: prod.splits if_splits ty.splits)
qed

lemma same_env:
  assumes "es_env (fst st') = es_env (fst st)"
  shows "es_executionCondition (fst st') = es_executionCondition (fst st) \<Longrightarrow> env_ok K V st' = env_ok K V st"
    and "describes K V st' s = describes K V st s"
  using assms by (simp_all add: env_ok_def describes_def getExecutionCondition_def)

lemma steps_to_condition: "steps_to N st st' \<Longrightarrow> es_executionCondition (fst st') = es_executionCondition (fst st)"
  by (simp add: steps_to_def)

section \<open>Simulation\<close>

text \<open>
  The annotations of a node that is passed once: the node had none before, and the final conditions
  and values are those of the state after it.
\<close>

definition observed ::
  "('e, 'z, 's) setting \<Rightarrow> node list \<Rightarrow> node list \<Rightarrow> ('e, 'z) exec_state \<Rightarrow> ('e, 'z) exec_state \<Rightarrow>
   (node \<Rightarrow> expr option) \<Rightarrow> (node \<Rightarrow> expr option) \<Rightarrow> bool" where
  "observed K N B st st' RC SC \<longleftrightarrow> consistent st \<and> fresh (set N) st \<and> distinct N \<and>
     set N \<inter> k_actionNodes K = {} \<and> agrees (set N) st' RC SC \<and> (\<forall>n \<in> set B. SC n = None)"

text \<open>
  A step of the interpreter simulates a part of an execution. It annotates the nodes \<open>N\<close> (and those in
  actions) and keeps variables typed; on every execution of the part from a described state it arrives
  in a description of the state the execution ends in, and the execution is observed the way the
  annotations say. A part without tables may be executed in a state that is not reached.
\<close>

definition simulates ::
  "('e, 'z, 's) setting \<Rightarrow> StateVariable set \<Rightarrow> node list \<Rightarrow> node list \<Rightarrow> bool \<Rightarrow>
   ('e, 'z) exec_state \<Rightarrow> ('e, 'z) exec_state \<Rightarrow> bool \<Rightarrow>
   (monitor \<Rightarrow> 's \<Rightarrow> ('w \<times> 's) option) \<Rightarrow> ('w \<Rightarrow> bool) \<Rightarrow> bool" where
  "simulates K V N B g st st' T sem Q \<longleftrightarrow>
     steps_to (set N \<union> k_actionNodes K) st st' \<and>
     (env_ok K V st \<longrightarrow> env_ok K V st' \<and> T) \<and>
     (\<forall>s w s'. env_ok K V st \<and> describes K V st s \<and> (g \<or> reached K st) \<and>
        sem no_monitor s = Some (w, s') \<longrightarrow>
        describes K V st' s' \<and> Q w \<and>
        (\<forall>RC SC. observed K N B st st' RC SC \<longrightarrow> sem (monitor_of K RC SC) s = Some (w, s')))"

lemma simulatesI:
  assumes "steps_to (set N \<union> k_actionNodes K) st st'"
    and "env_ok K V st \<Longrightarrow> env_ok K V st' \<and> T"
    and "\<And>s w s'. env_ok K V st \<Longrightarrow> describes K V st s \<Longrightarrow> g \<or> reached K st \<Longrightarrow> sem no_monitor s = Some (w, s') \<Longrightarrow>
      describes K V st' s' \<and> Q w"
    and "\<And>s w s' RC SC. env_ok K V st \<Longrightarrow> describes K V st s \<Longrightarrow> g \<or> reached K st \<Longrightarrow>
      sem no_monitor s = Some (w, s') \<Longrightarrow> observed K N B st st' RC SC \<Longrightarrow> sem (monitor_of K RC SC) s = Some (w, s')"
  shows "simulates K V N B g st st' T sem Q"
  unfolding simulates_def
proof (intro conjI allI impI; (elim conjE)?)
  show "steps_to (set N \<union> k_actionNodes K) st st'" by (rule assms(1))
  show "env_ok K V st'" and T if "env_ok K V st" using assms(2) [OF that] by simp_all
qed (use assms(3) in simp, use assms(3) in simp, rule assms(4))

lemma simulatesD:
  assumes "simulates K V N B g st st' T sem Q"
  shows "steps_to (set N \<union> k_actionNodes K) st st'" and "env_ok K V st \<Longrightarrow> env_ok K V st'" and "env_ok K V st \<Longrightarrow> T"
    and "env_ok K V st \<Longrightarrow> describes K V st s \<Longrightarrow> g \<or> reached K st \<Longrightarrow> sem no_monitor s = Some (w, s') \<Longrightarrow> describes K V st' s'"
    and "env_ok K V st \<Longrightarrow> describes K V st s \<Longrightarrow> g \<or> reached K st \<Longrightarrow> sem no_monitor s = Some (w, s') \<Longrightarrow> Q w"
    and "env_ok K V st \<Longrightarrow> describes K V st s \<Longrightarrow> g \<or> reached K st \<Longrightarrow> sem no_monitor s = Some (w, s') \<Longrightarrow>
      observed K N B st st' RC SC \<Longrightarrow> sem (monitor_of K RC SC) s = Some (w, s')"
  using assms unfolding simulates_def by blast+

lemma observedD:
  assumes "observed K N B st st' RC SC"
  shows "consistent st" and "fresh (set N) st" and "agrees (set N) st' RC SC"
    and "n \<in> set N \<Longrightarrow> RC n = condition_at st' n" and "n \<in> set N \<Longrightarrow> SC n = value_at st' n"
    and "n \<in> set N \<Longrightarrow> condition_at st n = None" and "n \<in> set N \<Longrightarrow> value_at st n = None"
    and "n \<in> set B \<Longrightarrow> SC n = None" and "n \<in> set N \<Longrightarrow> n \<notin> k_actionNodes K"
  using assms by (auto simp: observed_def agrees_def fresh_def)

lemma observed_append:
  assumes "observed K (N1 @ N2) (B1 @ B2) st st2 RC SC"
  shows "(set N2 \<union> k_actionNodes K) \<inter> set N1 = {}" and "(set N1 \<union> k_actionNodes K) \<inter> set N2 = {}"
    and "fresh (set N1) st" and "fresh (set N2) st" and "agrees (set N1) st2 RC SC" and "agrees (set N2) st2 RC SC"
    and "distinct N1" and "distinct N2" and "\<forall>n \<in> set B1. SC n = None" and "\<forall>n \<in> set B2. SC n = None"
    and "set N1 \<inter> k_actionNodes K = {}" and "set N2 \<inter> k_actionNodes K = {}" and "consistent st"
  using assms by (auto simp: observed_def fresh_def agrees_def)

lemma observed_first:
  assumes "observed K (N1 @ N2) (B1 @ B2) st st2 RC SC" and "steps_to (set N1 \<union> k_actionNodes K) st st1"
    and "steps_to (set N2 \<union> k_actionNodes K) st1 st2"
  shows "observed K N1 B1 st st1 RC SC"
proof -
  note o = observed_append [OF assms(1)]
  have "agrees (set N1) st1 RC SC"
    by (rule steps_to_agrees [OF assms(3) steps_to_consistent [OF assms(2) o(13)] o(5,1)])
  with o show ?thesis by (simp add: observed_def)
qed

lemma observed_second:
  assumes "observed K (N1 @ N2) (B1 @ B2) st st2 RC SC" and "steps_to (set N1 \<union> k_actionNodes K) st st1"
  shows "observed K N2 B2 st1 st2 RC SC"
proof -
  note o = observed_append [OF assms(1)]
  have "fresh (set N2) st1" by (rule steps_to_fresh [OF assms(2) o(13,4,2)])
  with o steps_to_consistent [OF assms(2) o(13)] show ?thesis by (simp add: observed_def)
qed

lemma simulates_bind_if:
  assumes 1: "simulates K V N1 B1 g st st1 T1 sem1 Q1"
    and s2: "steps_to (set N2 \<union> k_actionNodes K) st1 st2" and e2: "env_ok K V st1 \<Longrightarrow> env_ok K V st2 \<and> T2"
    and 2: "\<And>w. Q1 w \<Longrightarrow> simulates K V N2 B2 g st1 st2 T2 (sem2 w) (Q2 w)"
    and T: "T1 \<Longrightarrow> T2 \<Longrightarrow> T" and Q: "\<And>w w'. Q1 w \<Longrightarrow> Q2 w w' \<Longrightarrow> Q w'"
    and sem: "\<And>M s. sem M s = (case sem1 M s of None \<Rightarrow> None | Some (w, s1) \<Rightarrow> sem2 w M s1)"
  shows "simulates K V (N1 @ N2) (B1 @ B2) g st st2 T sem Q"
proof (rule simulatesI)
  note s1 = simulatesD(1) [OF 1]
  show "steps_to (set (N1 @ N2) \<union> k_actionNodes K) st st2"
    by (rule steps_to_mono [OF steps_to_trans [OF s1 s2]]) auto
  show "env_ok K V st2 \<and> T" if "env_ok K V st"
    using e2 [OF simulatesD(2) [OF 1 that]] simulatesD(3) [OF 1 that] T by blast
  fix s w s'
  assume pre: "env_ok K V st" "describes K V st s" "g \<or> reached K st" and run: "sem no_monitor s = Some (w, s')"
  from run obtain w1 s1' where a: "sem1 no_monitor s = Some (w1, s1')" "sem2 w1 no_monitor s1' = Some (w, s')"
    by (auto simp: sem split: option.splits)
  from pre have ok: "env_ok K V st1" "describes K V st1 s1'" "g \<or> reached K st1"
    using simulatesD(2,4) [OF 1] a(1) steps_to_reached [OF s1, of K] by blast+
  note q = simulatesD(5) [OF 1 pre a(1)]
  show "describes K V st2 s' \<and> Q w"
    using simulatesD(4,5) [OF 2 [OF q] ok a(2)] q Q by blast
  fix RC SC
  assume o: "observed K (N1 @ N2) (B1 @ B2) st st2 RC SC"
  from simulatesD(6) [OF 1 pre a(1) observed_first [OF o s1 s2]]
    simulatesD(6) [OF 2 [OF q] ok a(2) observed_second [OF o s1]]
  show "sem (monitor_of K RC SC) s = Some (w, s')" by (simp add: sem)
qed

lemma simulates_bind:
  assumes 1: "simulates K V N1 B1 g st st1 T1 sem1 Q1"
    and 2: "\<And>w. simulates K V N2 B2 g st1 st2 T2 (sem2 w) (Q2 w)"
    and "T1 \<Longrightarrow> T2 \<Longrightarrow> T" and "\<And>w w'. Q1 w \<Longrightarrow> Q2 w w' \<Longrightarrow> Q w'"
    and "\<And>M s. sem M s = (case sem1 M s of None \<Rightarrow> None | Some (w, s1) \<Rightarrow> sem2 w M s1)"
  shows "simulates K V (N1 @ N2) (B1 @ B2) g st st2 T sem Q"
  by (rule simulates_bind_if [OF 1 simulatesD(1) [OF 2] _ 2 assms(3-5)])
    (simp_all add: simulatesD(2,3) [OF 2])

text \<open>A value that is computed from the value of a part, without effects.\<close>

lemma simulates_map:
  assumes 1: "simulates K V N B g st st' T sem Q"
    and sem: "\<And>M s. sem' M s = (case sem M s of None \<Rightarrow> None | Some (w, s1) \<Rightarrow> map_option (\<lambda>w'. (w', s1)) (f w))"
    and "T \<Longrightarrow> T'" and "\<And>w w'. T \<Longrightarrow> Q w \<Longrightarrow> f w = Some w' \<Longrightarrow> Q' w'" and "g' \<Longrightarrow> g"
  shows "simulates K V N B g' st st' T' sem' Q'"
proof (rule simulatesI)
  show "steps_to (set N \<union> k_actionNodes K) st st'" by (rule simulatesD(1) [OF 1])
  show "env_ok K V st' \<and> T'" if "env_ok K V st" using that simulatesD(2,3) [OF 1] assms(3) by blast
  fix s w s'
  assume pre: "env_ok K V st" "describes K V st s" "g' \<or> reached K st" and run: "sem' no_monitor s = Some (w, s')"
  from run obtain w1 where a: "sem no_monitor s = Some (w1, s')" "f w1 = Some w"
    by (auto simp: sem split: option.splits)
  from pre assms(5) have pre': "env_ok K V st" "describes K V st s" "g \<or> reached K st" by blast+
  show "describes K V st' s' \<and> Q' w"
    using simulatesD(3) [OF 1 pre'(1)] simulatesD(4,5) [OF 1 pre' a(1)] a(2) assms(4) by blast
  fix RC SC
  assume "observed K N B st st' RC SC"
  from simulatesD(6) [OF 1 pre' a(1) this] a(2) show "sem' (monitor_of K RC SC) s = Some (w, s')" by (simp add: sem)
qed

lemma simulates_skip:
  assumes "T" and "\<And>M s. sem M s = Some (w, s)" and "Q w"
  shows "simulates K V [] [] g st st T sem Q"
  using assms by (auto intro!: simulatesI)

lemma simulates_weaken:
  assumes "simulates K V N B g st st' T sem Q" and "g' \<Longrightarrow> g" and "T \<Longrightarrow> T'" and "\<And>w. T \<Longrightarrow> Q w \<Longrightarrow> Q' w"
  shows "simulates K V N B g' st st' T' sem Q'"
proof (rule simulates_map [where f = Some, OF assms(1)])
  show "sem M s = (case sem M s of None \<Rightarrow> None | Some (w, s1) \<Rightarrow> map_option (\<lambda>w'. (w', s1)) (Some w))" for M s
    by (simp split: option.splits)
qed (use assms in auto)

section \<open>Clones\<close>

text \<open>What happens to one clone leaves the annotations the other clones see of other nodes alone.\<close>

lemma bystander:
  assumes "steps_to N (a, g) (a', g')" and "consistent (a, g)" and "consistent (b, g)"
  shows "consistent (b, g')" and "n \<notin> N \<Longrightarrow> condition_at (b, g') n = condition_at (b, g) n"
proof -
  have e: "evolves N (an_store g) (es_nodeAnnotationMap a) (an_store g') {es_nodeAnnotationMap a'}"
    using assms(1,2) by (simp add: steps_to_def)
  note e' = e [unfolded evolves_def]
  show "consistent (b, g')"
    using assms(3) e' store_ok_grows [of "an_store g" "es_nodeAnnotationMap b" "an_store g'"]
    by (simp add: consistent_def)
  assume n: "n \<notin> N"
  show "condition_at (b, g') n = condition_at (b, g) n"
  proof (cases "map_find (sa_reachabilityMap (es_nodeAnnotationMap b)) n")
    case (Some p)
    from assms(3) have "store_ok (an_store g) (es_nodeAnnotationMap b)" by (simp add: consistent_def)
    from store_ok_parts(5) [OF this Some] have "p < length (an_store g)" "fst (an_store g ! p) = n" by auto
    with e' n have "an_store g' ! p = an_store g ! p" by auto
    then show ?thesis by (simp add: stored_condition_def Some)
  qed (simp add: stored_condition_def)
qed

lemma merge_at:
  assumes "consistent (a, g)" and "consistent (b, g)"
  shows "condition_at (es_merge X a b, g) n =
      (case condition_at (b, g) n of Some c \<Rightarrow> Some c | None \<Rightarrow> condition_at (a, g) n)"
    and "value_at (es_merge X a b, g') n =
      (case value_at (b, g') n of Some e \<Rightarrow> Some e | None \<Rightarrow> value_at (a, g') n)"
    and "consistent (es_merge X a b, g)"
proof -
  have "store_ok (an_store g) (es_nodeAnnotationMap a)" "store_ok (an_store g) (es_nodeAnnotationMap b)"
    using assms by (simp_all add: consistent_def)
  note m = merged_annotations [OF this]
  show "condition_at (es_merge X a b, g) n =
      (case condition_at (b, g) n of Some c \<Rightarrow> Some c | None \<Rightarrow> condition_at (a, g) n)"
    by (simp add: stored_condition_def m(1) split: option.splits)
  show "value_at (es_merge X a b, g') n =
      (case value_at (b, g') n of Some e \<Rightarrow> Some e | None \<Rightarrow> value_at (a, g') n)"
    by (simp add: stored_value_def m(2) split: option.splits)
  show "consistent (es_merge X a b, g)" using m(4) by (simp add: consistent_def)
qed

text \<open>A clone runs while its original waits, and is merged back.\<close>

lemma fork_merge:
  assumes "steps_to N (p, g) (t, g1)" and "es_nodeAnnotationMap p = es_nodeAnnotationMap s"
  shows "steps_to N (s, g) (es_merge X t s, g1)"
proof -
  have "evolves N (an_store g) (es_nodeAnnotationMap s) (an_store g1)
      {shared_mergeAnnotationMapping (es_nodeAnnotationMap t) (es_nodeAnnotationMap s)}" if "consistent (s, g)"
  proof (rule evolves_merge_two)
    have ok: "store_ok (an_store g) (es_nodeAnnotationMap s)" using that by (simp add: consistent_def)
    have "evolves N (an_store g) (es_nodeAnnotationMap s) (an_store g1) {es_nodeAnnotationMap t}"
      using assms that by (simp add: steps_to_def consistent_def)
    from evolves_advance [OF evolves_refl [OF ok, of N] _ this]
    show "evolves N (an_store g) (es_nodeAnnotationMap s) (an_store g1) {es_nodeAnnotationMap t, es_nodeAnnotationMap s}"
      by simp
  qed
  then show ?thesis by (simp add: steps_to_def)
qed

section \<open>Expressions without calls\<close>

text \<open>They annotate their nodes and change no variable.\<close>

definition quiet :: "('e, 'z) interpreter \<Rightarrow> node set \<Rightarrow> ('e, 'z) exec_state \<Rightarrow> ('e, 'z) exec_state \<Rightarrow> bool" where
  "quiet X N st st' \<longleftrightarrow> steps_to N st st' \<and> (\<forall>v. env_get X (es_env (fst st')) v = env_get X (es_env (fst st)) v)"

lemma quiet_refl [simp, intro]: "quiet X N st st"
  by (simp add: quiet_def)

lemma quiet_trans: "quiet X N st st1 \<Longrightarrow> quiet X N' st1 st2 \<Longrightarrow> quiet X (N \<union> N') st st2"
  unfolding quiet_def by (auto intro: steps_to_trans)

lemma quiet_mono: "quiet X N st st' \<Longrightarrow> N \<subseteq> N' \<Longrightarrow> quiet X N' st st'"
  unfolding quiet_def by (blast intro: steps_to_mono)

lemma quiet_trans_in: "quiet X N st st1 \<Longrightarrow> quiet X N st1 st2 \<Longrightarrow> quiet X N st st2"
  using quiet_trans [of X N st st1 N st2] by simp

lemma quiet_env: "quiet (k_tools K) N st st' \<Longrightarrow> env_ok K V st' = env_ok K V st \<and> describes K V st' s = describes K V st s"
  by (simp add: quiet_def env_ok_def describes_def steps_to_def getExecutionCondition_def)

lemma quiet_annotate:
  "annotate_reachability X n c st = Inr st' \<Longrightarrow> quiet X {n} st st'"
  "annotate_expression X n t v st = Inr st' \<Longrightarrow> quiet X {n} st st'"
  using annotate_reachability_steps [of X n c st st'] annotate_expression_steps [of X n t v st st']
  by (simp_all add: quiet_def)

lemma quiet_in_order:
  assumes "\<And>e r v r'. e \<in> set es \<Longrightarrow> visit e r = Inr (v, r') \<Longrightarrow> quiet X (F e) (f r) (f r')"
    and "in_order visit es r = Inr (vs, r')"
  shows "quiet X (\<Union>e \<in> set es. F e) (f r) (f r')"
  using assms
proof (induction es arbitrary: r vs)
  case (Cons e es)
  from Cons.prems(2) obtain v r1 vs' where *: "visit e r = Inr (v, r1)" "in_order visit es r1 = Inr (vs', r')"
    by (auto simp: option_simps)
  have "quiet X (F e) (f r) (f r1)" using Cons.prems(1) [OF _ *(1)] by simp
  moreover have "quiet X (\<Union>e \<in> set es. F e) (f r1) (f r')"
    using Cons.prems(1) by (intro Cons.IH [OF _ *(2)]) simp
  ultimately show ?case using quiet_trans by fastforce
qed auto

lemma computeD: "compute visit r = Inr (v, r') \<Longrightarrow> visit r = Inr r' \<and> fst r' = Some v"
  by (auto simp: compute_def option_simps)

lemma operandD:
  assumes "operand X e visit r = Inr (v, r')"
  obtains "as_expr e = Some v" "r' = r" | "visit r = Inr r'" "fst r' = Some v"
  using assms by (auto simp: operand_def option_simps dest!: computeD split: if_splits)

lemma quiet_merge:
  assumes "env_laws X" and "quiet X N (pushExecutionCondition c s, g) (t, g1)"
  shows "quiet X N (s, g) (es_merge X t s, g1)"
proof -
  have "env_get X (es_env t) = env_get X (es_env s)"
    using assms(2) by (auto simp: quiet_def pushExecutionCondition_def)
  then have "env_get X (es_env (es_merge X t s)) v = env_get X (es_env s) v" for v
    by (auto simp: es_merge_get [OF assms(1)] merged_def split: option.splits expr.splits)
  moreover have "steps_to N (s, g) (es_merge X t s, g1)"
    using assms(2) fork_merge [of N "pushExecutionCondition c s" g t g1 s]
    by (simp add: quiet_def pushExecutionCondition_def)
  ultimately show ?thesis by (simp add: quiet_def)
qed

lemma found_valueD:
  assumes "found_value X n t v r = Inr r'"
  shows "fst r' = Some v" and "annotate_expression X n t v (snd r) = Inr (snd r')"
  using assms by (auto simp: found_value_def option_simps)

lemma quiet_operand:
  assumes "operand X e visit r = Inr (v, r')" and "\<And>r r'. visit r = Inr r' \<Longrightarrow> quiet X N (snd r) (snd r')"
  shows "quiet X N (snd r) (snd r')"
  using assms(1) by (rule operandD) (auto dest: assms(2))

lemma quiet_mux:
  assumes visit: "\<And>e r r'. e \<in> set es \<Longrightarrow> visit e r = Inr r' \<Longrightarrow> quiet X (F e) (snd r) (snd r')"
    and laws: "env_laws X" and es: "es = [e0, e1, e2]" and r: "resolve_mux X t e0 e1 e2 visit r = Inr r'"
  shows "quiet X (\<Union>e \<in> set es. F e) (snd r) (snd r')"
proof -
  from r obtain c r1 v2 r2 v1 r3 where *: "operand X e0 (visit e0) r = Inr (c, r1)"
    "operand X e2 (visit e2) r1 = Inr (v2, r2)"
    "(if isSymbolicValue X e1 then and_then (or_fail Unresolved (as_expr e1)) (\<lambda>v. Inr (v, r2))
      else (let oldState = fst (snd r2) in
            and_then (compute (visit e1) (on_state (pushExecutionCondition c) r2)) (\<lambda>(v, r).
            Inr (v, on_state (\<lambda>trueState. es_merge X trueState oldState) r)))) = Inr (v1, r3)"
    "r' = with_result (Mux t c v1 v2) r3"
    by (auto simp: resolve_mux_def option_simps)
  have 0: "quiet X (F e0) (snd r) (snd r1)" using quiet_operand [OF *(1)] visit es by simp
  have 2: "quiet X (F e2) (snd r1) (snd r2)" using quiet_operand [OF *(2)] visit es by simp
  have 1: "quiet X (F e1) (snd r2) (snd r3)"
  proof (cases "isSymbolicValue X e1")
    case False
    with *(3) obtain r4 where v: "compute (visit e1) (on_state (pushExecutionCondition c) r2) = Inr (v1, r4)"
      "r3 = on_state (\<lambda>trueState. es_merge X trueState (fst (snd r2))) r4"
      by (auto simp: option_simps)
    from visit [of e1] es computeD [OF v(1)]
    have "quiet X (F e1) (snd (on_state (pushExecutionCondition c) r2)) (snd r4)" by simp
    then have "quiet X (F e1) (pushExecutionCondition c (fst (snd r2)), snd (snd r2)) (fst (snd r4), snd (snd r4))"
      by (simp add: on_state_def)
    from quiet_merge [OF laws this] show ?thesis by (simp add: v(2) on_state_def)
  qed (use *(3) in \<open>auto simp: option_simps\<close>)
  from quiet_trans [OF quiet_trans [OF 0 2] 1] have "quiet X (F e0 \<union> F e2 \<union> F e1) (snd r) (snd r3)" .
  moreover have "snd r' = snd r3" by (simp add: *(4) with_result_def)
  moreover have "F e0 \<union> F e2 \<union> F e1 = (\<Union>e \<in> set es. F e)" by (auto simp: es)
  ultimately show ?thesis by simp
qed

lemma operatorE:
  assumes "resolve_operator X f es visit r = Inr r'"
  obtains (mux) t e0 e1 e2 where "f = Op_Mux t" "es = [e0, e1, e2]" "resolve_mux X t e0 e1 e2 visit r = Inr r'"
  | (index) t left right where "f = Op_Binary t ArrayIndex" "es = [left, right]"
      "resolve_index X t left right visit r = Inr r'"
  | (struct) ns where "f = Op_Struct ns" "resolve_struct ns es visit r = Inr r'"
  | (operands) "resolve_operands X f es visit r = Inr r'"
  using assms by (cases "(X, f, es, visit, r)" rule: resolve_operator.cases) auto

lemma quiet_operator:
  assumes visit: "\<And>e r r'. e \<in> set es \<Longrightarrow> visit e r = Inr r' \<Longrightarrow> quiet X (F e) (snd r) (snd r')"
    and laws: "env_laws X" and r: "resolve_operator X f es visit r = Inr r'"
  shows "quiet X (\<Union>e \<in> set es. F e) (snd r) (snd r')"
proof -
  have operands: "quiet X (\<Union>e \<in> set es. F e) (snd r) (snd r')" if o: "resolve_operands X f es visit r = Inr r'"
  proof -
    from o obtain vs r1 v where *: "in_order (\<lambda>e. operand X e (visit e)) es r = Inr (vs, r1)" "r' = with_result v r1"
      by (auto simp: resolve_operands_def option_simps)
    from quiet_in_order [OF _ *(1), of X F snd] quiet_operand [of X _ "visit _"] visit
    have "quiet X (\<Union>e \<in> set es. F e) (snd r) (snd r1)" by blast
    with *(2) show ?thesis by (simp add: with_result_def)
  qed
  have struct: "quiet X (\<Union>e \<in> set es. F e) (snd r) (snd r')" if "resolve_struct ns es visit r = Inr r'" for ns
  proof -
    from that obtain vs r1 where *: "in_order (\<lambda>e. compute (visit e)) es r = Inr (vs, r1)"
      "r' = with_result (StructExpression ns vs) r1" by (auto simp: resolve_struct_def option_simps)
    have "quiet X (\<Union>e \<in> set es. F e) (snd r) (snd r1)"
      using quiet_in_order [OF _ *(1), of X F snd] visit computeD by blast
    with *(2) show ?thesis by (simp add: with_result_def)
  qed
  have index: "quiet X (\<Union>e \<in> set es. F e) (snd r) (snd r')"
    if "resolve_index X t left right visit r = Inr r'" "es = [left, right]" for t left right
  proof -
    from that(1) obtain v r1 w where *: "operand X right (visit right) r = Inr (v, r1)" "r' = with_result w r1"
      by (auto simp: resolve_index_def option_simps)
    have "quiet X (F right) (snd r) (snd r1)" using quiet_operand [OF *(1)] visit that(2) by simp
    moreover have "snd r' = snd r1" by (simp add: *(2) with_result_def)
    ultimately show ?thesis by (auto simp: that(2) elim: quiet_mono)
  qed
  from r show ?thesis
  proof (cases rule: operatorE)
    case (mux t e0 e1 e2)
    show ?thesis using visit by (rule quiet_mux [OF _ laws mux(2,3)])
  qed (use operands struct index in auto)
qed

lemma checkStructLikeD:
  assumes "checkStructLike X n member visit r = Inr (v, r')"
  obtains se r1 where
    "case member_base member of
       PCall cn m ds args \<Rightarrow> visit r = Inr r1 \<and> se = fst r1 \<and> (\<exists>ns es. se = Some (StructExpression ns es))
     | POp (Op_Struct ns) es \<Rightarrow> as_expr (member_base member) = se \<and> se \<noteq> None \<and> r1 = r
     | _ \<Rightarrow> se = None \<and> r1 = r"
    and "case se of
       None \<Rightarrow> v = None \<and> r' = r1
     | Some e \<Rightarrow> descend (member_ids member) e = Inr v \<and>
         (v = None \<and> r' = r1 \<or> (\<exists>w. v = Some w \<and>
            (if last (member_ids member) = ''hit'' \<or> last (member_ids member) = ''miss''
             then annotate_reachability X n w (snd r1) = Inr (snd r') \<and> fst r' = fst r1 else r' = r1)))"
proof -
  from assms [unfolded checkStructLike_def Let_def and_then_Inr] obtain p where
    p: "(case member_base member of
          PCall cn m ds args \<Rightarrow> and_then (compute visit r) (\<lambda>(v, r).
            case v of StructExpression ns es \<Rightarrow> Inr (Some v, r) | _ \<Rightarrow> Inl Bug)
        | POp (Op_Struct ns) es \<Rightarrow> and_then (or_fail Unresolved (as_expr (member_base member))) (\<lambda>v. Inr (Some v, r))
        | _ \<Rightarrow> Inr (None, r)) = Inr p" and
    q: "(case p of (None, r) \<Rightarrow> Inr (None, r)
        | (Some se, r) \<Rightarrow> and_then (descend (member_ids member) se) (\<lambda>found.
            case found of None \<Rightarrow> Inr (None, r)
            | Some v \<Rightarrow> and_then (if last (member_ids member) = ''hit'' \<or> last (member_ids member) = ''miss''
                  then annotate_reachability X n v (snd r) else Inr (snd r)) (\<lambda>st. Inr (Some v, fst r, st)))) = Inr (v, r')"
    by (auto split: prod.splits)
  obtain se r1 where pr: "p = (se, r1)" by (cases p)
  show thesis
  proof (rule that [of se r1])
    show "case member_base member of
       PCall cn m ds args \<Rightarrow> visit r = Inr r1 \<and> se = fst r1 \<and> (\<exists>ns es. se = Some (StructExpression ns es))
     | POp (Op_Struct ns) es \<Rightarrow> as_expr (member_base member) = se \<and> se \<noteq> None \<and> r1 = r
     | _ \<Rightarrow> se = None \<and> r1 = r"
      using p unfolding pr
      by (auto simp: option_simps dest!: computeD split: pexp.splits operator.splits expr.splits)
    show "case se of
       None \<Rightarrow> v = None \<and> r' = r1
     | Some e \<Rightarrow> descend (member_ids member) e = Inr v \<and>
         (v = None \<and> r' = r1 \<or> (\<exists>w. v = Some w \<and>
            (if last (member_ids member) = ''hit'' \<or> last (member_ids member) = ''miss''
             then annotate_reachability X n w (snd r1) = Inr (snd r') \<and> fst r' = fst r1 else r' = r1)))"
    proof (cases se)
      case (Some e)
      with q pr obtain found where d: "descend (member_ids member) e = Inr found"
        by (cases "descend (member_ids member) e") auto
      with q pr Some show ?thesis
        by (cases found) (auto simp: option_simps split: if_splits)
    qed (use q pr in auto)
  qed
qed

lemma call_free_base: "call_free e \<Longrightarrow> member_base e \<noteq> PCall cn m ds args"
  by (induction e) auto

lemma resolve_quiet:
  assumes "env_laws X" and "call_free e" and "resolve X C e r = Inr r'"
  shows "quiet X (set (enodes X e)) (snd r) (snd r')"
  using assms(2,3)
proof (induction e arbitrary: r r')
  case (PLit l)
  then show ?case by (auto simp: with_result_def)
next
  case (PPath n t x)
  then obtain v where "found_value X n t v r = Inr r'" by (auto simp: option_simps)
  from found_valueD(2) [OF this] show ?case by (auto dest: quiet_annotate)
next
  case (PMember n t e m)
  then obtain v r1 w where c: "checkStructLike X n (PMember n t e m) (\<lambda>r. resolve X C (member_base e) r) r = Inr (v, r1)"
    and f: "found_value X n t w r1 = Inr r'" by (auto simp: option_simps)
  from c have "snd r1 = snd r \<or> (\<exists>e. annotate_reachability X n e (snd r) = Inr (snd r1))"
    by (rule checkStructLikeD)
      (use call_free_base [of e] PMember.prems(1) in \<open>auto split: pexp.splits operator.splits option.splits if_splits\<close>)
  then have "quiet X {n} (snd r) (snd r1)" by (auto dest: quiet_annotate)
  moreover have "quiet X {n} (snd r1) (snd r')" using found_valueD(2) [OF f] by (rule quiet_annotate)
  ultimately have "quiet X {n} (snd r) (snd r')" by (rule quiet_trans_in)
  then show ?case by (rule quiet_mono) simp
next
  case (PLNot e)
  then obtain v r1 where o: "operand X e (\<lambda>r. resolve X C e r) r = Inr (v, r1)" "r' = with_result (mk_LNot v) r1"
    by (auto simp: option_simps)
  from quiet_operand [OF o(1) PLNot.IH] PLNot.prems(1) o(2) show ?case by (simp add: with_result_def)
next
  case (POp f es)
  have "quiet X (\<Union>e \<in> set es. set (enodes X e)) (snd r) (snd r')"
    using POp.prems by (intro quiet_operator [OF POp.IH assms(1), of es]) auto
  then show ?case by simp
qed simp

section \<open>Operators\<close>

lemma list_two: "length es = 2 \<longleftrightarrow> (\<exists>a b. es = [a, b])"
  by (auto simp: length_Suc_conv numeral_2_eq_2)

lemma apply_operator_typed:
  assumes "operator_ok f ts" and "list_all2 typed_as vs ts" and "apply_operator f vs = Some v"
  shows "typed_as v (operator_type f ts)"
  using assms by (cases "(f, vs)" rule: apply_operator.cases)
    (auto simp: list_all2_Cons1 typed_as_def)

lemma apply_operator_value:
  assumes "operator_ok f ts" and "apply_operator f vs = Some v"
    and "map (eval env) vs = map Some ws" and "operator_val f ws = Some w"
  shows "eval env v = Some w"
proof (cases "(f, vs)" rule: apply_operator.cases)
  case (2 t op l r)
  with assms obtain x y where xy: "ws = [x, y]" "eval env l = Some x" "eval env r = Some y"
    "v = Binary t op l r" by (auto simp: map_eq_Cons_conv)
  with assms(4) 2 have "binop_val op x y = Some w" "val_type w = t" "in_range w" by (auto simp: typed_Some)
  with xy show ?thesis
    by (cases "op = LAnd \<or> op = LOr")
      (auto simp: eval_Binary_Some eval_LAnd_Some eval_LOr_Some bool_val_def simp del: eval.simps split: val.splits)
qed (use assms in \<open>auto simp: map_eq_Cons_conv typed_Some eval_Mux_Some eval_Unary_Some eval_Slice_Some
    all_some_Some simp del: eval.simps split: val.splits if_splits\<close>)

lemma operator_resultE:
  assumes "operator_result X f vs = Inr v"
  obtains (equ) t left right where "f = Op_Binary t Equ" "vs = [left, right]" "v = equate X left right"
  | (neq) t left right where "f = Op_Binary t Neq" "vs = [left, right]" "v = mk_LNot (equate X left right)"
  | (saturating) t op left right where "f = Op_Saturating t op" "vs = [left, right]" "v = eliminate X t op left right"
  | (other) "apply_operator f vs = Some v" "\<not> is_saturating f"
  using assms by (cases "(X, f, vs)" rule: operator_result.cases; cases f)
    (auto simp: option_simps is_saturating_def)

lemma operator_result_typed:
  assumes agree: "operators_agree K" and "operator_ok f ts" and "list_all2 typed_as vs ts"
    and r: "operator_result (k_tools K) f vs = Inr v"
  shows "typed_as v (operator_type f ts)"
proof -
  have e: "typed_as (eliminate (k_tools K) t op a b) t" "typed_as (equate (k_tools K) a b) Type_Boolean"
    if "ty_ok a" "ty_ok b" for t op a b using agree that by (auto simp: operators_agree_def)
  note e typed_asD(1) [OF e(2)]
  with r assms(2,3) show ?thesis
    by (elim operator_resultE) (auto simp: list_all2_Cons1 typed_asD apply_operator_typed)
qed

lemma operator_result_value:
  assumes agree: "operators_agree K" and "operator_ok f ts" and r: "operator_result (k_tools K) f vs = Inr v"
    and vs: "map (eval (k_env K)) vs = map Some ws" and op: "l_op (k_language K) f ws = Some w"
  shows "eval (k_env K) v = Some w"
proof -
  have val: "operator_val f ws = Some w" if "\<not> is_saturating f"
    using agree op that by (auto simp: operators_agree_def)
  have equate: "eval (k_env K) (equate (k_tools K) l r) = Some z"
    if "eval (k_env K) l = Some x" "eval (k_env K) r = Some y" "eq_val True x y = Some z" for l r x y z
    using agree that unfolding operators_agree_def by blast
  have two: "\<exists>x y. ws = [x, y] \<and> eval (k_env K) left = Some x \<and> eval (k_env K) right = Some y"
    if "vs = [left, right]" for left right using vs that by (auto simp: map_eq_Cons_conv)
  from r show ?thesis
  proof (cases rule: operator_resultE)
    case (equ t left right)
    with two obtain x y where xy: "ws = [x, y]" "eval (k_env K) left = Some x" "eval (k_env K) right = Some y" by blast
    with val equ have "eq_val True x y = Some w" by (auto simp: is_saturating_def typed_Some)
    with xy equ equate show ?thesis by simp
  next
    case (neq t left right)
    with two obtain x y where xy: "ws = [x, y]" "eval (k_env K) left = Some x" "eval (k_env K) right = Some y" by blast
    with val neq have "eq_val False x y = Some w" by (auto simp: is_saturating_def typed_Some)
    then have "eq_val True x y = Some (VBool (x = y))" "w = VBool (x \<noteq> y)" by (auto simp: eq_val_def split: if_splits)
    with equate [OF xy(2,3)] neq LNot_value show ?thesis by simp
  next
    case (saturating t op left right)
    with two obtain x y where xy: "ws = [x, y]" "eval (k_env K) left = Some x" "eval (k_env K) right = Some y" by blast
    with agree op saturating show ?thesis unfolding operators_agree_def by blast
  next
    case other
    with val apply_operator_value [OF assms(2) _ vs] show ?thesis by blast
  qed
qed

section \<open>Operands that are values as they stand\<close>

lemma as_expr_values:
  assumes "\<And>e v. e \<in> set es \<Longrightarrow> as_expr e = Some v \<Longrightarrow>
      enodes X e = [] \<and> typed_as v (T e) \<and> (\<forall>M s w s'. peval L M e s = Some (w, s') \<longrightarrow>
        s' = s \<and> eval env v = Some w \<and> (\<forall>M'. peval L M' e s = Some (w, s)))"
    and "map as_expr es = map Some vs"
  shows "concat (map (enodes X) es) = [] \<and> list_all2 typed_as vs (map T es) \<and>
    (\<forall>M s ws s'. pevals L M es s = Some (ws, s') \<longrightarrow>
      s' = s \<and> map (eval env) vs = map Some ws \<and> (\<forall>M'. pevals L M' es s = Some (ws, s)))"
  using assms
proof (induction es arbitrary: vs)
  case (Cons e es)
  then obtain v vs' where vs: "vs = v # vs'" "as_expr e = Some v" "map as_expr es = map Some vs'"
    by (auto simp: map_eq_Cons_conv)
  note head = Cons.prems(1) [OF _ vs(2)] and tail = Cons.IH [OF Cons.prems(1) vs(3)]
  show ?case using head tail by (fastforce simp: vs(1) split: option.splits)
qed auto

lemma as_expr_value:
  assumes "operators_agree K" and "wt K V e" and "as_expr e = Some v"
  shows "enodes (k_tools K) e = [] \<and> typed_as v (ptype K e) \<and>
    (\<forall>M s w s'. peval (k_language K) M e s = Some (w, s') \<longrightarrow>
       s' = s \<and> eval (k_env K) v = Some w \<and> (\<forall>M'. peval (k_language K) M' e s = Some (w, s)))"
  using assms(2,3)
proof (induction e arbitrary: v)
  case (PLit l)
  then show ?case by (cases l) (auto simp: literal_value_def typed_as_def)
next
  case (PLNot e)
  then obtain a where "as_expr e = Some a" "v = mk_LNot a" by auto
  with PLNot.IH [of a] PLNot.prems(1) show ?case
    by (auto simp: typed_asD LNot_value split: option.splits val.splits prod.splits)
next
  case (POp f es)
  then obtain vs where vs: "map as_expr es = map Some vs" "apply_operator f vs = Some v" by (auto simp: option_simps)
  have ok: "operator_ok f (map (ptype K) es)" using POp.prems by simp
  have "enodes (k_tools K) e = [] \<and> typed_as v (ptype K e) \<and>
      (\<forall>M s w s'. peval (k_language K) M e s = Some (w, s') \<longrightarrow>
        s' = s \<and> eval (k_env K) v = Some w \<and> (\<forall>M'. peval (k_language K) M' e s = Some (w, s)))"
    if "e \<in> set es" "as_expr e = Some v" for e v
  proof -
    have "wt K V e" using POp.prems(1) that(1) by simp
    from POp.IH [OF that(1) this that(2)] show ?thesis .
  qed
  note es = as_expr_values [of es "k_tools K" "ptype K", OF this vs(1)]
  have "\<not> is_saturating f" using vs(2) by (cases f) (auto simp: is_saturating_def)
  with assms(1) have val: "operator_val f ws = Some w" if "l_op (k_language K) f ws = Some w" for ws w
    using that by (auto simp: operators_agree_def)
  from apply_operator_typed [OF ok _ vs(2)] es have "typed_as v (ptype K (POp f es))" by simp
  moreover have "s' = s \<and> eval (k_env K) v = Some w \<and> (\<forall>M'. peval (k_language K) M' (POp f es) s = Some (w, s))"
    if p: "peval (k_language K) M (POp f es) s = Some (w, s')" for M s w s'
  proof -
    from p obtain ws where ws: "pevals (k_language K) M es s = Some (ws, s')" "l_op (k_language K) f ws = Some w"
      by (auto split: option.splits)
    with es have e: "s' = s" "map (eval (k_env K)) vs = map Some ws" "\<forall>M'. pevals (k_language K) M' es s = Some (ws, s)"
      by blast+
    with apply_operator_value [OF ok vs(2) e(2) val [OF ws(2)]] ws(2) show ?thesis by simp
  qed
  moreover have "enodes (k_tools K) (POp f es) = []" using es by simp
  ultimately show ?case by blast
qed simp_all

section \<open>Paths and members\<close>

text \<open>A chain of members reads its variable; only the member at its end is annotated.\<close>

lemma chain_reads:
  assumes "is_chain e" and "to_StateVariable e = Some v" and "peval (k_language K) no_monitor e s = Some (w, s')"
  shows "s' = s \<and> read_var (k_language K) v s = Some w \<and>
    (\<forall>RC SC. (\<forall>n \<in> set (chain_nodes e). SC n = None) \<longrightarrow> peval (k_language K) (monitor_of K RC SC) e s = Some (w, s))"
  using assms
proof (induction e arbitrary: v w s')
  case (PPath n t x)
  then show ?case by (auto simp: monitor_of_def split: option.splits if_splits)
next
  case (PMember n t e m)
  then obtain v' where v': "to_StateVariable e = Some v'" "v = VarMember v' m" by auto
  from PMember.prems(3) obtain u s1 where u: "peval (k_language K) no_monitor e s = Some (u, s1)"
    "l_member (k_language K) m u = Some w" "s' = s1" by (auto split: option.splits if_splits)
  from PMember.prems(1) have "is_chain e" by simp
  from PMember.IH [OF this v'(1) u(1)] u v'(2) show ?case by (auto simp: monitor_of_def)
qed auto

lemma base_type_get:
  "is_Type_Base t \<Longrightarrow> es_get X s v t = or_fail Bug (env_get X (es_env s) v)"
  by (cases t) (simp_all add: es_get_def)

text \<open>Reading a variable and annotating the node that reads it.\<close>

lemma found_value_simulates:
  assumes f: "found_value (k_tools K) n t v r = Inr r'" and v: "var_value K (snd r) x = Some v"
    and x: "x \<in> V" "k_type K x = t" and n: "k_nodeType K n = t"
    and sem: "\<And>s w s'. sem no_monitor s = Some (w, s') \<Longrightarrow> s' = s \<and> read_var (k_language K) x s = Some w \<and>
      (\<forall>RC SC. (\<forall>b \<in> set B. SC b = None) \<and> m_value (monitor_of K RC SC) n w \<longrightarrow>
         sem (monitor_of K RC SC) s = Some (w, s))"
  shows "simulates K V [n] B g (snd r) (snd r') (\<forall>v. fst r' = Some v \<longrightarrow> typed_as v t) sem
    (\<lambda>w. \<forall>v. fst r' = Some v \<longrightarrow> eval (k_env K) v = Some w)"
proof (rule simulatesI)
  note fv = found_valueD [OF f]
  note steps = annotate_expression_steps [OF fv(2)]
  show s: "steps_to (set [n] \<union> k_actionNodes K) (snd r) (snd r')" by (rule steps_to_mono [OF steps(1)]) auto
  note env = same_env(1) [OF steps(2) steps_to_condition [OF steps(1)], of K V] same_env(2) [OF steps(2), of K V]
  have typed: "typed_as v t" if "env_ok K V (snd r)" using that x v by (auto simp: env_ok_def)
  then show "env_ok K V (snd r') \<and> (\<forall>v. fst r' = Some v \<longrightarrow> typed_as v t)" if "env_ok K V (snd r)"
    using that env fv(1) by simp
  fix s w s'
  assume ok: "env_ok K V (snd r)" "describes K V (snd r) s" and run: "sem no_monitor s = Some (w, s')"
  note rd = sem [OF run]
  have val: "eval (k_env K) v = Some w" using rd ok(2) x(1) v by (auto simp: describes_def)
  then show "describes K V (snd r') s' \<and> (\<forall>v. fst r' = Some v \<longrightarrow> eval (k_env K) v = Some w)"
    using rd ok(2) env fv(1) by simp
  fix RC SC
  assume o: "observed K [n] B (snd r) (snd r') RC SC"
  note od = observedD [OF o]
  have "SC n = annotated_value t v" using od(5) [of n] steps(4) [OF od(1)] od(7) [of n] by simp
  then have "m_value (monitor_of K RC SC) n w"
    using val n typed [OF ok(1)] eval_type [OF val]
    by (auto simp: monitor_of_def annotated_value_def typed_as_def split: ty.splits)
  with rd od(8) show "sem (monitor_of K RC SC) s = Some (w, s')" by simp
qed

text \<open>What a resolver computes for an expression.\<close>

abbreviation resolves ::
  "('e, 'z, 's) setting \<Rightarrow> StateVariable set \<Rightarrow> pexp \<Rightarrow> ('e, 'z) resolver \<Rightarrow> ('e, 'z) resolver \<Rightarrow> bool" where
  "resolves K V e r r' \<equiv>
     simulates K V (enodes (k_tools K) e) (bnodes e) (call_free e) (snd r) (snd r')
       (\<forall>v. fst r' = Some v \<longrightarrow> typed_as v (ptype K e)) (\<lambda>M s. peval (k_language K) M e s)
       (\<lambda>w. \<forall>v. fst r' = Some v \<longrightarrow> eval (k_env K) v = Some w)"

abbreviation computes ::
  "('e, 'z, 's) setting \<Rightarrow> StateVariable set \<Rightarrow> bool \<Rightarrow> pexp \<Rightarrow> ('e, 'z) exec_state \<Rightarrow> expr \<Rightarrow> ('e, 'z) exec_state \<Rightarrow> bool" where
  "computes K V g e st v st' \<equiv>
     simulates K V (enodes (k_tools K) e) (bnodes e) g st st' (typed_as v (ptype K e))
       (\<lambda>M s. peval (k_language K) M e s) (\<lambda>w. eval (k_env K) v = Some w)"

lemma resolve_path:
  assumes "wt K V (PPath n t x)" and "resolve (k_tools K) C (PPath n t x) r = Inr r'"
  shows "resolves K V (PPath n t x) r r'"
proof -
  from assms obtain v where v: "var_value K (snd r) (VarPath x) = Some v" "found_value (k_tools K) n t v r = Inr r'"
    by (auto simp: base_type_get option_simps)
  have sem: "s' = s \<and> read_var (k_language K) (VarPath x) s = Some w \<and>
      (\<forall>RC SC. (\<forall>b \<in> set []. SC b = None) \<and> m_value (monitor_of K RC SC) n w \<longrightarrow>
         peval (k_language K) (monitor_of K RC SC) (PPath n t x) s = Some (w, s))"
    if "peval (k_language K) no_monitor (PPath n t x) s = Some (w, s')" for s w s'
    using that by (auto split: option.splits if_splits)
  have wt: "VarPath x \<in> V" "k_type K (VarPath x) = t" "k_nodeType K n = t" using assms(1) by simp_all
  from found_value_simulates [OF v(2,1) wt sem] show ?thesis by simp
qed

lemma resolve_memberE:
  assumes "resolve X C (PMember n t e m) r = Inr r'"
  obtains se r1 w where
    "checkStructLike X n (PMember n t e m) (\<lambda>r. resolve X C (member_base e) r) r = Inr (se, r1)"
    and "case se of Some v \<Rightarrow> w = v
         | None \<Rightarrow> \<exists>var. to_StateVariable (PMember n t e m) = Some var \<and> es_get X (fst (snd r1)) var t = Inr w"
    and "found_value X n t w r1 = Inr r'"
proof -
  from assms [unfolded resolve.simps and_then_Inr] obtain p where
    c: "checkStructLike X n (PMember n t e m) (\<lambda>r. resolve X C (member_base e) r) r = Inr p"
    and rest: "(case p of (structExpr, r) \<Rightarrow>
        and_then (case structExpr of Some v \<Rightarrow> Inr v
          | None \<Rightarrow> and_then (or_fail Bug (to_StateVariable (PMember n t e m))) (\<lambda>var. es_get X (fst (snd r)) var t))
         (\<lambda>v. found_value X n t v r)) = Inr r'" by blast
  obtain se r1 where p: "p = (se, r1)" by (cases p)
  with rest obtain w where w: "(case se of Some v \<Rightarrow> Inr v
      | None \<Rightarrow> and_then (or_fail Bug (to_StateVariable (PMember n t e m))) (\<lambda>var. es_get X (fst (snd r1)) var t)) = Inr w"
    "found_value X n t w r1 = Inr r'" unfolding p prod.case and_then_Inr by blast
  show thesis
    by (rule that [OF _ _ w(2)], use c p in simp, use w(1) in \<open>cases se; simp add: option_simps\<close>)
qed

lemma resolve_chain:
  assumes "wt K V (PMember n t e m)" and "\<not> is_call e" and "resolve (k_tools K) C (PMember n t e m) r = Inr r'"
  shows "resolves K V (PMember n t e m) r r'"
proof -
  from assms(1,2) obtain x where x: "is_Type_Base t" "k_nodeType K n = t" "is_chain e" "x \<in> V"
    "to_StateVariable (PMember n t e m) = Some x" "k_type K x = t" by auto
  have base: "\<exists>n t x. member_base e = PPath n t x" using x(3) by (induction e) auto
  from assms(3) obtain se r1 w where c: "checkStructLike (k_tools K) n (PMember n t e m)
      (\<lambda>r. resolve (k_tools K) C (member_base e) r) r = Inr (se, r1)"
    "case se of Some v \<Rightarrow> w = v | None \<Rightarrow> \<exists>var. to_StateVariable (PMember n t e m) = Some var \<and>
        es_get (k_tools K) (fst (snd r1)) var t = Inr w"
    "found_value (k_tools K) n t w r1 = Inr r'" by (rule resolve_memberE)
  from c(1) base have "se = None \<and> r1 = r"
    by (elim checkStructLikeD) (auto split: option.splits)
  with c x(1,5) have v: "var_value K (snd r) x = Some w" "found_value (k_tools K) n t w r = Inr r'"
    by (auto simp: base_type_get option_simps)
  have sem: "s' = s \<and> read_var (k_language K) x s = Some w \<and>
      (\<forall>RC SC. (\<forall>b \<in> set (chain_nodes e). SC b = None) \<and> m_value (monitor_of K RC SC) n w \<longrightarrow>
         peval (k_language K) (monitor_of K RC SC) (PMember n t e m) s = Some (w, s))"
    if "peval (k_language K) no_monitor (PMember n t e m) s = Some (w, s')" for s w s'
  proof -
    from that obtain u where u: "peval (k_language K) no_monitor e s = Some (u, s')"
      "l_member (k_language K) m u = Some w" by (auto split: option.splits if_splits)
    from x(5) obtain v' where v': "to_StateVariable e = Some v'" "x = VarMember v' m" by auto
    from chain_reads [OF x(3) v'(1) u(1)] u(2) v'(2) show ?thesis by auto
  qed
  have "enodes (k_tools K) (PMember n t e m) = [n]" "bnodes (PMember n t e m) = chain_nodes e"
    using assms(2) by simp_all
  moreover have "simulates K V [n] (chain_nodes e) (call_free e) (snd r) (snd r') (\<forall>v. fst r' = Some v \<longrightarrow> typed_as v t)
      (\<lambda>M s. peval (k_language K) M (PMember n t e m) s) (\<lambda>w. \<forall>v. fst r' = Some v \<longrightarrow> eval (k_env K) v = Some w)"
    using sem by (rule found_value_simulates [OF v(2,1) x(4,6,2)])
  ultimately show ?thesis by (simp only: ptype.simps call_free.simps)
qed

end
