(* ===== verification/ExpressionSoundness.thy ===== *)
theory ExpressionSoundness
  imports ResolverSoundness
begin

text \<open>
  Soundness of the expression resolver, expression by expression: operands in order, conditionals,
  arguments of calls, members of the result of a table. What applying a table does is taken from a
  contract that \<open>TableSoundness\<close> proves.
\<close>

declare split_paired_All [simp del] split_paired_Ex [simp del]

section \<open>Operands\<close>

lemma simulates_trivial:
  "steps_to (set N \<union> k_actionNodes K) st st' \<Longrightarrow> \<not> env_ok K V st \<Longrightarrow> simulates K V N B g st st' T sem Q"
  unfolding simulates_def by blast

lemma observed_perm:
  "observed K N B st st' RC SC \<Longrightarrow> set N' = set N \<Longrightarrow> distinct N' = distinct N \<Longrightarrow> set B' = set B \<Longrightarrow>
   observed K N' B' st st' RC SC"
  by (simp add: observed_def)

lemma simulates_perm:
  assumes "simulates K V N B g st st' T sem Q" and "set N' = set N" and "distinct N' = distinct N"
    and "set B' = set B" and "\<And>M s. sem' M s = sem M s"
  shows "simulates K V N' B' g st st' T sem' Q"
proof (rule simulatesI)
  show "steps_to (set N' \<union> k_actionNodes K) st st'" using simulatesD(1) [OF assms(1)] assms(2) by simp
  show "env_ok K V st' \<and> T" if "env_ok K V st" using simulatesD(2,3) [OF assms(1)] that by simp
  fix s w s'
  assume pre: "env_ok K V st" "describes K V st s" "g \<or> reached K st" and "sem' no_monitor s = Some (w, s')"
  then have run: "sem no_monitor s = Some (w, s')" by (simp add: assms(5))
  show "describes K V st' s' \<and> Q w" using simulatesD(4,5) [OF assms(1) pre run] by simp
  fix RC SC
  assume "observed K N' B' st st' RC SC"
  then have "observed K N B st st' RC SC" by (rule observed_perm) (simp_all add: assms(2-4))
  from simulatesD(6) [OF assms(1) pre run this] show "sem' (monitor_of K RC SC) s = Some (w, s')"
    by (simp add: assms(5))
qed

lemma simulates_extend:
  assumes "simulates K V N B g st st' T sem Q" and "set N \<subseteq> set N'" and "distinct N' \<Longrightarrow> distinct N"
  shows "simulates K V N' B g st st' T sem Q"
proof (rule simulatesI)
  show "steps_to (set N' \<union> k_actionNodes K) st st'"
    by (rule steps_to_mono [OF simulatesD(1) [OF assms(1)]]) (use assms(2) in auto)
  show "env_ok K V st' \<and> T" if "env_ok K V st" using simulatesD(2,3) [OF assms(1)] that by simp
  fix s w s'
  assume pre: "env_ok K V st" "describes K V st s" "g \<or> reached K st" and run: "sem no_monitor s = Some (w, s')"
  show "describes K V st' s' \<and> Q w" using simulatesD(4,5) [OF assms(1) pre run] by simp
  fix RC SC
  assume "observed K N' B st st' RC SC"
  then have "observed K N B st st' RC SC"
    using assms(2,3) unfolding observed_def by (blast intro: fresh_mono agrees_mono)
  then show "sem (monitor_of K RC SC) s = Some (w, s')" by (rule simulatesD(6) [OF assms(1) pre run])
qed

lemma operand_computes:
  assumes agree: "operators_agree K" and wt: "wt K V e" and o: "operand (k_tools K) e visit r = Inr (v, r')"
    and visit: "\<And>r r'. visit r = Inr r' \<Longrightarrow> resolves K V e r r'"
  shows "computes K V (call_free e) e (snd r) v (snd r')"
  using o
proof (cases rule: operandD)
  case 1
  note v = as_expr_value [OF agree wt 1(1)]
  then have "enodes (k_tools K) e = []" "typed_as v (ptype K e)" by simp_all
  moreover have "\<And>M s w s'. peval (k_language K) M e s = Some (w, s') \<Longrightarrow> s' = s \<and> eval (k_env K) v = Some w \<and>
      (\<forall>M'. peval (k_language K) M' e s = Some (w, s))" using v by blast
  ultimately show ?thesis unfolding 1(2) by (intro simulatesI) (simp_all, blast+)
next
  case 2
  show ?thesis by (rule simulates_weaken [OF visit [OF 2(1)]]) (simp_all add: 2(2))
qed

lemma compute_computes:
  assumes "compute visit r = Inr (v, r')" and visit: "\<And>r r'. visit r = Inr r' \<Longrightarrow> resolves K V e r r'"
  shows "computes K V (call_free e) e (snd r) v (snd r')"
proof -
  from computeD [OF assms(1)] have v: "visit r = Inr r'" "fst r' = Some v" by auto
  show ?thesis by (rule simulates_weaken [OF visit [OF v(1)]]) (simp_all add: v(2))
qed

lemma in_order_computes:
  assumes "\<And>e r v r'. e \<in> set es \<Longrightarrow> visit e r = Inr (v, r') \<Longrightarrow> computes K V g e (f r) v (f r')"
    and "in_order visit es r = Inr (vs, r')"
  shows "simulates K V (concat (map (enodes (k_tools K)) es)) (concat (map bnodes es)) g (f r) (f r')
    (list_all2 typed_as vs (map (ptype K) es)) (\<lambda>M s. pevals (k_language K) M es s)
    (\<lambda>ws. map (eval (k_env K)) vs = map Some ws)"
  using assms
proof (induction es arbitrary: r vs)
  case Nil
  then show ?case by (auto intro!: simulates_skip)
next
  case (Cons e es)
  from Cons.prems(2) obtain v r1 vs' where *: "visit e r = Inr (v, r1)" "in_order visit es r1 = Inr (vs', r')"
    "vs = v # vs'" by (auto simp: option_simps)
  have 1: "computes K V g e (f r) v (f r1)" using Cons.prems(1) [OF _ *(1)] by simp
  have 2: "simulates K V (concat (map (enodes (k_tools K)) es)) (concat (map bnodes es)) g (f r1) (f r')
      (list_all2 typed_as vs' (map (ptype K) es)) (\<lambda>M s. pevals (k_language K) M es s)
      (\<lambda>ws. map (eval (k_env K)) vs' = map Some ws)"
    using Cons.prems(1) by (intro Cons.IH [OF _ *(2)]) simp
  have 3: "simulates K V (concat (map (enodes (k_tools K)) es)) (concat (map bnodes es)) g (f r1) (f r')
      (list_all2 typed_as vs' (map (ptype K) es))
      (\<lambda>M s. case pevals (k_language K) M es s of None \<Rightarrow> None | Some (ws, s') \<Rightarrow> Some (w # ws, s'))
      (\<lambda>ws. \<exists>ws'. ws = w # ws' \<and> map (eval (k_env K)) vs' = map Some ws')" for w
    by (rule simulates_map [OF 2, where f = "\<lambda>ws. Some (w # ws)"]) (auto split: option.splits)
  have "simulates K V (enodes (k_tools K) e @ concat (map (enodes (k_tools K)) es))
      (bnodes e @ concat (map bnodes es)) g (f r) (f r')
      (list_all2 typed_as vs (map (ptype K) (e # es))) (\<lambda>M s. pevals (k_language K) M (e # es) s)
      (\<lambda>ws. map (eval (k_env K)) vs = map Some ws)"
    by (rule simulates_bind [OF 1 3]) (auto simp: *(3) split: option.splits)
  then show ?case by simp
qed

text \<open>An operator on its operands.\<close>

lemma operands_resolve:
  assumes agree: "operators_agree K" and wt: "wt K V (POp f es)"
    and r: "resolve_operands (k_tools K) f es visit r = Inr r'"
    and visit: "\<And>e r r'. e \<in> set es \<Longrightarrow> visit e r = Inr r' \<Longrightarrow> resolves K V e r r'"
  shows "resolves K V (POp f es) r r'"
proof -
  let ?g = "\<forall>e \<in> set es. call_free e"
  from r obtain vs r1 v where *: "in_order (\<lambda>e. operand (k_tools K) e (visit e)) es r = Inr (vs, r1)"
    "operator_result (k_tools K) f vs = Inr v" "r' = with_result v r1"
    by (auto simp: resolve_operands_def option_simps)
  have ok: "operator_ok f (map (ptype K) es)" using wt by simp
  have operand: "computes K V ?g e (snd r) v (snd r')"
    if "e \<in> set es" "operand (k_tools K) e (visit e) r = Inr (v, r')" for e r v r'
  proof (rule simulates_weaken [OF operand_computes [OF agree _ that(2) visit [OF that(1)]]])
    show "wt K V e" using wt that(1) by simp
  qed (use that(1) in auto)
  from in_order_computes [where visit = "\<lambda>e. operand (k_tools K) e (visit e)" and f = snd, OF operand *(1)]
  have 1: "simulates K V (concat (map (enodes (k_tools K)) es)) (concat (map bnodes es)) ?g (snd r) (snd r1)
    (list_all2 typed_as vs (map (ptype K) es)) (\<lambda>M s. pevals (k_language K) M es s)
    (\<lambda>ws. map (eval (k_env K)) vs = map Some ws)" .
  have "simulates K V (concat (map (enodes (k_tools K)) es)) (concat (map bnodes es)) ?g (snd r) (snd r1)
    (typed_as v (operator_type f (map (ptype K) es))) (\<lambda>M s. peval (k_language K) M (POp f es) s)
    (\<lambda>w. eval (k_env K) v = Some w)"
    by (rule simulates_map [OF 1, where f = "l_op (k_language K) f"])
      (use operator_result_typed [OF agree ok _ *(2)] operator_result_value [OF agree ok *(2)]
       in \<open>auto split: option.splits\<close>)
  then show ?thesis by (simp add: *(3) with_result_def)
qed

section \<open>Conditionals\<close>

text \<open>A clone with one more condition, run for an expression without calls and merged back.\<close>

lemma push_fields [simp]:
  "es_env (pushExecutionCondition c s) = es_env s"
  "es_nodeAnnotationMap (pushExecutionCondition c s) = es_nodeAnnotationMap s"
  by (simp_all add: pushExecutionCondition_def)

lemma fork_at:
  assumes "steps_to N (p, g) (t, g')" and "es_nodeAnnotationMap p = es_nodeAnnotationMap s" and "consistent (s, g)"
    and "condition_at (s, g) n = None" and "value_at (s, g) n = None"
  shows "condition_at (es_merge X t s, g') n = condition_at (t, g') n"
    and "value_at (es_merge X t s, g') n = value_at (t, g') n"
proof -
  have p: "consistent (p, g)" using assms(2,3) by (simp add: consistent_def)
  have t: "consistent (t, g')" by (rule steps_to_consistent [OF assms(1) p])
  have s: "consistent (s, g')" by (rule bystander(1) [OF assms(1) p assms(3)])
  have none: "condition_at (s, g') n = None" using assms(4) by (simp add: stored_condition_def)
  show "condition_at (es_merge X t s, g') n = condition_at (t, g') n"
    using merge_at(1) [OF t s, of X n] none by simp
  show "value_at (es_merge X t s, g') n = value_at (t, g') n"
    using merge_at(2) [OF t s, of X g' n] assms(5) by simp
qed

lemma observed_fork:
  assumes o: "observed K N B (s, g) (es_merge X t s, g') RC SC"
    and steps: "steps_to N' (p, g) (t, g')" and p: "es_nodeAnnotationMap p = es_nodeAnnotationMap s"
  shows "observed K N B (p, g) (t, g') RC SC"
proof -
  note od = o [unfolded observed_def]
  have "agrees (set N) (t, g') RC SC"
    unfolding agrees_def
  proof
    fix n
    assume n: "n \<in> set N"
    note at = fork_at [OF steps p observedD(1) [OF o] observedD(6,7) [OF o n]]
    show "RC n = condition_at (t, g') n \<and> SC n = value_at (t, g') n"
      using observedD(4,5) [OF o n] at by simp
  qed
  with od p show ?thesis by (simp add: observed_def consistent_def fresh_def)
qed

lemma fork_simulates:
  assumes 1: "simulates K V N B True (pushExecutionCondition c s, g) (t, g') T sem Q"
    and q: "quiet (k_tools K) (set N \<union> k_actionNodes K) (pushExecutionCondition c s, g) (t, g')"
    and laws: "env_laws (k_tools K)" and c: "typed_as c Type_Boolean"
  shows "simulates K V N B h (s, g) (es_merge (k_tools K) t s, g') T sem Q"
proof (rule simulatesI)
  have q': "quiet (k_tools K) (set N \<union> k_actionNodes K) (s, g) (es_merge (k_tools K) t s, g')"
    by (rule quiet_merge [OF laws q])
  then show "steps_to (set N \<union> k_actionNodes K) (s, g) (es_merge (k_tools K) t s, g')" by (simp add: quiet_def)
  have push: "env_ok K V (pushExecutionCondition c s, g)" if "env_ok K V (s, g)"
    using that pushed_typed [of s c] c by (simp add: env_ok_def)
  show "env_ok K V (es_merge (k_tools K) t s, g') \<and> T" if "env_ok K V (s, g)"
    using quiet_env [OF q'] that simulatesD(3) [OF 1 push [OF that]] by blast
  fix u w u'
  assume ok: "env_ok K V (s, g)" "describes K V (s, g) u" and run: "sem no_monitor u = Some (w, u')"
  have d: "describes K V (pushExecutionCondition c s, g) u" using ok(2) by (simp add: describes_def)
  note dyn = simulatesD(4,5) [OF 1 push [OF ok(1)] d _ run]
  have "describes K V (t, g') u'" "Q w" using dyn by simp_all
  moreover have "describes K V (es_merge (k_tools K) t s, g') u' = describes K V (s, g) u'"
    "describes K V (t, g') u' = describes K V (pushExecutionCondition c s, g) u'"
    using quiet_env [OF q'] quiet_env [OF q] by blast+
  moreover have "describes K V (pushExecutionCondition c s, g) u' = describes K V (s, g) u'"
    by (simp add: describes_def)
  ultimately show "describes K V (es_merge (k_tools K) t s, g') u' \<and> Q w" by blast
  fix RC SC
  assume "observed K N B (s, g) (es_merge (k_tools K) t s, g') RC SC"
  then have "observed K N B (pushExecutionCondition c s, g) (t, g') RC SC"
    by (rule observed_fork [OF _ simulatesD(1) [OF 1]]) simp
  from simulatesD(6) [OF 1 push [OF ok(1)] d _ run this]
  show "sem (monitor_of K RC SC) u = Some (w, u')" by simp
qed

lemma mux_resolve:
  assumes agree: "operators_agree K" and laws: "env_laws (k_tools K)" and wt: "wt K V (POp (Op_Mux t) [e0, e1, e2])"
    and r: "resolve_mux (k_tools K) t e0 e1 e2 visit r = Inr r'"
    and visit: "\<And>e r r'. e \<in> {e0, e1, e2} \<Longrightarrow> visit e r = Inr r' \<Longrightarrow> resolves K V e r r'"
    and quiet: "\<And>r r'. visit e1 r = Inr r' \<Longrightarrow> quiet (k_tools K) (set (enodes (k_tools K) e1)) (snd r) (snd r')"
  shows "resolves K V (POp (Op_Mux t) [e0, e1, e2]) r r'"
proof -
  let ?X = "k_tools K" and ?L = "k_language K"
  from wt have w: "wt K V e0" "wt K V e1" "wt K V e2" "call_free e0" "call_free e1" "call_free e2"
    "ptype K e0 = Type_Boolean" "ptype K e1 = t" "ptype K e2 = t" by auto
  from r obtain c r1 v2 r2 v1 r3 where *: "operand ?X e0 (visit e0) r = Inr (c, r1)"
    "operand ?X e2 (visit e2) r1 = Inr (v2, r2)"
    "(if isSymbolicValue ?X e1 then and_then (or_fail Unresolved (as_expr e1)) (\<lambda>v. Inr (v, r2))
      else (let oldState = fst (snd r2) in
            and_then (compute (visit e1) (on_state (pushExecutionCondition c) r2)) (\<lambda>(v, r).
            Inr (v, on_state (\<lambda>trueState. es_merge ?X trueState oldState) r)))) = Inr (v1, r3)"
    "r' = with_result (Mux t c v1 v2) r3"
    by (auto simp: resolve_mux_def option_simps)
  have 0: "computes K V True e0 (snd r) c (snd r1)"
    using operand_computes [OF agree w(1) *(1) visit [of e0]] w(4) by simp
  have 2: "computes K V True e2 (snd r1) v2 (snd r2)"
    using operand_computes [OF agree w(3) *(2) visit [of e2]] w(6) by simp
  have 1: "computes K V True e1 (snd r2) v1 (snd r3)" if c: "typed_as c Type_Boolean"
  proof (cases "isSymbolicValue ?X e1")
    case True
    with *(3) have "operand ?X e1 (visit e1) r2 = Inr (v1, r3)" by (simp add: operand_def)
    from operand_computes [OF agree w(2) this visit [of e1]] w(5) show ?thesis by simp
  next
    case False
    with *(3) obtain r4 where v: "compute (visit e1) (on_state (pushExecutionCondition c) r2) = Inr (v1, r4)"
      "r3 = on_state (\<lambda>trueState. es_merge ?X trueState (fst (snd r2))) r4"
      by (auto simp: option_simps)
    have run: "computes K V True e1 (pushExecutionCondition c (fst (snd r2)), snd (snd r2)) v1 (fst (snd r4), snd (snd r4))"
      using compute_computes [OF v(1) visit [of e1]] w(5) by (simp add: on_state_def)
    have "quiet ?X (set (enodes ?X e1)) (pushExecutionCondition c (fst (snd r2)), snd (snd r2)) (fst (snd r4), snd (snd r4))"
      using quiet [OF conjunct1 [OF computeD [OF v(1)]]] by (simp add: on_state_def)
    then have "quiet ?X (set (enodes ?X e1) \<union> k_actionNodes K) (pushExecutionCondition c (fst (snd r2)), snd (snd r2)) (fst (snd r4), snd (snd r4))"
      by (rule quiet_mono) simp
    from fork_simulates [OF run this laws c] show ?thesis by (simp add: v(2) on_state_def)
  qed
  have sem: "pevals ?L M [e0, e1, e2] s =
      (case peval ?L M e0 s of None \<Rightarrow> None | Some (a, s1) \<Rightarrow>
        (case peval ?L M e2 s1 of None \<Rightarrow> None | Some (b, s2) \<Rightarrow>
          (case peval ?L M e1 s2 of None \<Rightarrow> None | Some (d, s3) \<Rightarrow> Some ([a, d, b], s3))))" for M s
  proof (cases "peval ?L M e0 s")
    case (Some p)
    then obtain a where a: "p = (a, s)" using call_free_state [OF w(4), of ?L M s] by (cases p) auto
    show ?thesis
      using call_free_state [OF w(5), of ?L M s] call_free_state [OF w(6), of ?L M s] Some a
      by (cases "peval ?L M e1 s"; cases "peval ?L M e2 s") auto
  qed simp
  have steps: "steps_to (set (enodes ?X (POp (Op_Mux t) [e0, e1, e2])) \<union> k_actionNodes K) (snd r) (snd r')"
  proof -
    have "quiet ?X (set (enodes ?X e1)) (snd r2) (snd r3)"
    proof (cases "isSymbolicValue ?X e1")
      case False
      with *(3) obtain r4 where v: "compute (visit e1) (on_state (pushExecutionCondition c) r2) = Inr (v1, r4)"
        "r3 = on_state (\<lambda>trueState. es_merge ?X trueState (fst (snd r2))) r4"
        by (auto simp: option_simps)
      have "quiet ?X (set (enodes ?X e1)) (pushExecutionCondition c (fst (snd r2)), snd (snd r2)) (fst (snd r4), snd (snd r4))"
        using quiet [OF conjunct1 [OF computeD [OF v(1)]]] by (simp add: on_state_def)
      from quiet_merge [OF laws this] show ?thesis by (simp add: v(2) on_state_def)
    qed (use *(3) in \<open>auto simp: option_simps\<close>)
    then have "steps_to (set (enodes ?X e1)) (snd r2) (snd r3)" by (simp add: quiet_def)
    from steps_to_trans [OF steps_to_trans [OF simulatesD(1) [OF 0] simulatesD(1) [OF 2]] this]
    have "steps_to (set (enodes ?X (POp (Op_Mux t) [e0, e1, e2])) \<union> k_actionNodes K) (snd r) (snd r3)"
      by (rule steps_to_mono) auto
    then show ?thesis by (simp add: *(4) with_result_def)
  qed
  show ?thesis
  proof (cases "env_ok K V (snd r)")
    case False
    from simulates_trivial [OF steps this] show ?thesis .
  next
    case True
    note c = simulatesD(3) [OF 0 True, unfolded w(7)]
    have one: "simulates K V (enodes ?X e1) (bnodes e1) True (snd r2) (snd r3) (typed_as v1 t)
        (\<lambda>M s. case peval ?L M e1 s of None \<Rightarrow> None | Some (d, s3) \<Rightarrow> Some ([a, d, b], s3))
        (\<lambda>ws. \<exists>d. ws = [a, d, b] \<and> eval (k_env K) v1 = Some d)" for a b
      by (rule simulates_map [OF 1 [OF c], where f = "\<lambda>d. Some [a, d, b]"]) (auto simp: w split: option.splits)
    have 21: "simulates K V (enodes ?X e2 @ enodes ?X e1) (bnodes e2 @ bnodes e1) True (snd r1) (snd r3)
        (typed_as v2 t \<and> typed_as v1 t)
        (\<lambda>M s. case peval ?L M e2 s of None \<Rightarrow> None | Some (b, s2) \<Rightarrow>
          (case peval ?L M e1 s2 of None \<Rightarrow> None | Some (d, s3) \<Rightarrow> Some ([a, d, b], s3)))
        (\<lambda>ws. \<exists>d b. ws = [a, d, b] \<and> eval (k_env K) v1 = Some d \<and> eval (k_env K) v2 = Some b)" for a
      by (rule simulates_bind [OF 2 one]) (auto simp: w)
    have "simulates K V (enodes ?X e0 @ enodes ?X e2 @ enodes ?X e1) (bnodes e0 @ bnodes e2 @ bnodes e1) True
        (snd r) (snd r3) (typed_as (Mux t c v1 v2) t)
        (\<lambda>M s. case peval ?L M e0 s of None \<Rightarrow> None | Some (a, s1) \<Rightarrow>
          (case peval ?L M e2 s1 of None \<Rightarrow> None | Some (b, s2) \<Rightarrow>
            (case peval ?L M e1 s2 of None \<Rightarrow> None | Some (d, s3) \<Rightarrow> Some ([a, d, b], s3))))
        (\<lambda>ws. map (eval (k_env K)) [c, v1, v2] = map Some ws)"
      by (rule simulates_bind [OF 0 21]) (auto simp: w)
    then have "simulates K V (enodes ?X e0 @ enodes ?X e1 @ enodes ?X e2) (bnodes e0 @ bnodes e1 @ bnodes e2) True
        (snd r) (snd r3) (typed_as (Mux t c v1 v2) t) (\<lambda>M s. pevals ?L M [e0, e1, e2] s)
        (\<lambda>ws. map (eval (k_env K)) [c, v1, v2] = map Some ws)"
    proof (rule simulates_perm)
      show "pevals ?L M [e0, e1, e2] s =
        (case peval ?L M e0 s of None \<Rightarrow> None | Some (a, s1) \<Rightarrow>
          (case peval ?L M e2 s1 of None \<Rightarrow> None | Some (b, s2) \<Rightarrow>
            (case peval ?L M e1 s2 of None \<Rightarrow> None | Some (d, s3) \<Rightarrow> Some ([a, d, b], s3))))" for M s
        by (rule sem)
    qed auto
    then have "simulates K V (enodes ?X e0 @ enodes ?X e1 @ enodes ?X e2) (bnodes e0 @ bnodes e1 @ bnodes e2) True
        (snd r) (snd r3) (typed_as (Mux t c v1 v2) t) (\<lambda>M s. peval ?L M (POp (Op_Mux t) [e0, e1, e2]) s)
        (\<lambda>w. eval (k_env K) (Mux t c v1 v2) = Some w)"
    proof (rule simulates_map [where f = "l_op ?L (Op_Mux t)"])
      fix ws w
      assume vs: "map (eval (k_env K)) [c, v1, v2] = map Some ws" and op: "l_op ?L (Op_Mux t) ws = Some w"
      have "operator_ok (Op_Mux t) [Type_Boolean, t, t]" by simp
      from operator_result_value [OF agree this _ vs op, of "Mux t c v1 v2"]
      show "eval (k_env K) (Mux t c v1 v2) = Some w" by simp
    qed (auto split: option.splits)
    with w(4-6) show ?thesis by (simp add: *(4) with_result_def)
  qed
qed

section \<open>Arguments of extern calls\<close>

lemma quiet_simulates:
  assumes "quiet (k_tools K) (set N) st st'" and "\<And>M s. sem M s = Some (w, s)" and "Q w"
  shows "simulates K V N B g st st' True sem Q"
proof (rule simulatesI)
  show "steps_to (set N \<union> k_actionNodes K) st st'"
    using assms(1) by (auto simp: quiet_def elim: steps_to_mono)
  show "env_ok K V st' \<and> True" if "env_ok K V st"
    using that by (simp add: quiet_env [OF assms(1), THEN conjunct1])
  show "describes K V st' s' \<and> Q v" if "describes K V st s" "sem no_monitor s = Some (v, s')" for s v s'
    using that assms(2,3) by (simp add: quiet_env [OF assms(1), THEN conjunct2])
qed (use assms(2) in auto)

lemma arguments_simulate:
  assumes visit: "\<And>e r r'. e \<in> set args \<Longrightarrow> visit e r = Inr r' \<Longrightarrow> resolves K V e r r'"
    and quiet: "\<And>e r r'. e \<in> set args \<Longrightarrow> is_chain e \<Longrightarrow> visit e r = Inr r' \<Longrightarrow>
      quiet (k_tools K) (set (enodes (k_tools K) e)) (snd r) (snd r')"
    and ok: "\<forall>i < length args. \<not> isExternParameter (k_tools K) m (k + i) \<and>
      (ps ! (k + i) = Out \<or> ps ! (k + i) = InOut \<longrightarrow> is_chain (args ! i))"
    and run: "in_order (\<lambda>arg. resolve_argument (k_tools K) m ps arg (visit arg)) args (k, r) = Inr (as, k', r')"
  shows "simulates K V (concat (map (enodes (k_tools K)) args)) (concat (map bnodes args)) False (snd r) (snd r') True
    (\<lambda>M s. map_option (\<lambda>(outs, vs, s'). ((outs, vs), s')) (peval_args (k_language K) M (drop k ps) args s))
    (\<lambda>(outs, vs). arg_values (k_env K) (drop k ps) as vs)"
  using assms
proof (induction args arbitrary: k r as)
  case Nil
  then show ?case by (auto intro!: simulates_skip)
next
  case (Cons arg args)
  from Cons.prems(4) obtain a k1 r1 as' where *: "resolve_argument (k_tools K) m ps arg (visit arg) (k, r) = Inr (a, k1, r1)"
    "in_order (\<lambda>arg. resolve_argument (k_tools K) m ps arg (visit arg)) args (k1, r1) = Inr (as', k', r')"
    "as = a # as'" by (auto simp: option_simps)
  from Cons.prems(3) have e: "\<not> isExternParameter (k_tools K) m k"
    "ps ! k = Out \<or> ps ! k = InOut \<Longrightarrow> is_chain arg" by force+
  from *(1) e(1) obtain v where v: "k < length ps" "compute (visit arg) r = Inr (v, r1)" "k1 = Suc k"
    "if ps ! k = InOut \<or> ps ! k = Out then \<exists>x. a = InOutReference x v else a = Argument v"
    by (auto simp: resolve_argument_def option_simps split: if_splits)
  have ps: "drop k ps = ps ! k # drop (Suc k) ps" using v(1) by (rule Cons_nth_drop_Suc [symmetric])
  have rest: "simulates K V (concat (map (enodes (k_tools K)) args)) (concat (map bnodes args)) False (snd r1) (snd r') True
    (\<lambda>M s. map_option (\<lambda>(outs, vs, s'). ((outs, vs), s')) (peval_args (k_language K) M (drop (Suc k) ps) args s))
    (\<lambda>(outs, vs). arg_values (k_env K) (drop (Suc k) ps) as' vs)"
  proof (rule Cons.IH)
    show "\<forall>i < length args. \<not> isExternParameter (k_tools K) m (Suc k + i) \<and>
        (ps ! (Suc k + i) = Out \<or> ps ! (Suc k + i) = InOut \<longrightarrow> is_chain (args ! i))"
      using Cons.prems(3) by force
    show "in_order (\<lambda>arg. resolve_argument (k_tools K) m ps arg (visit arg)) args (Suc k, r1) = Inr (as', k', r')"
      using *(2) v(3) by simp
  qed (use Cons.prems(1,2) in auto)
  have "simulates K V (enodes (k_tools K) arg @ concat (map (enodes (k_tools K)) args))
      (bnodes arg @ concat (map bnodes args)) False (snd r) (snd r') True
      (\<lambda>M s. map_option (\<lambda>(outs, vs, s'). ((outs, vs), s')) (peval_args (k_language K) M (drop k ps) (arg # args) s))
      (\<lambda>(outs, vs). arg_values (k_env K) (drop k ps) as vs)"
  proof (cases "ps ! k = Out \<or> ps ! k = InOut")
    case True
    have "quiet (k_tools K) (set (enodes (k_tools K) arg)) (snd r) (snd r1)"
      using Cons.prems(2) [OF _ e(2) [OF True] conjunct1 [OF computeD [OF v(2)]]] by simp
    then have 1: "simulates K V (enodes (k_tools K) arg) (bnodes arg) False (snd r) (snd r1) True (\<lambda>M s. Some ((), s)) (\<lambda>u. True)"
      by (rule quiet_simulates) simp_all
    have 2: "simulates K V (concat (map (enodes (k_tools K)) args)) (concat (map bnodes args)) False (snd r1) (snd r') True
        (\<lambda>M s. map_option (\<lambda>(outs, vs, s'). ((arg # outs, vs), s')) (peval_args (k_language K) M (drop (Suc k) ps) args s))
        (\<lambda>(outs, vs). arg_values (k_env K) (drop k ps) as vs)"
      by (rule simulates_map [OF rest, where f = "\<lambda>(outs, vs). Some (arg # outs, vs)"])
        (use True v(4) in \<open>auto simp: ps *(3) split: option.splits\<close>)
    show ?thesis
    proof (rule simulates_bind [OF 1 2])
      show "map_option (\<lambda>(outs, vs, s'). ((outs, vs), s')) (peval_args (k_language K) M (drop k ps) (arg # args) s) =
        (case Some ((), s) of None \<Rightarrow> None | Some (w, s1) \<Rightarrow> map_option (\<lambda>(outs, vs, s'). ((arg # outs, vs), s'))
          (peval_args (k_language K) M (drop (Suc k) ps) args s1))" for M s
        using True by (cases "peval_args (k_language K) M (drop (Suc k) ps) args s") (auto simp: ps)
    qed
  next
    case False
    have 1: "computes K V False arg (snd r) v (snd r1)"
      using compute_computes [OF v(2) Cons.prems(1) [of arg]] by (auto elim: simulates_weaken)
    have 2: "simulates K V (concat (map (enodes (k_tools K)) args)) (concat (map bnodes args)) False (snd r1) (snd r') True
        (\<lambda>M s. map_option (\<lambda>(outs, vs, s'). ((outs, w # vs), s')) (peval_args (k_language K) M (drop (Suc k) ps) args s))
        (\<lambda>(outs, vs). \<exists>vs'. vs = w # vs' \<and> arg_values (k_env K) (drop (Suc k) ps) as' vs')" for w
      by (rule simulates_map [OF rest, where f = "\<lambda>(outs, vs). Some (outs, w # vs)"]) (auto split: option.splits)
    show ?thesis
    proof (rule simulates_bind [OF 1 2])
      show "map_option (\<lambda>(outs, vs, s'). ((outs, vs), s')) (peval_args (k_language K) M (drop k ps) (arg # args) s) =
        (case peval (k_language K) M arg s of None \<Rightarrow> None
         | Some (w, s1) \<Rightarrow> map_option (\<lambda>(outs, vs, s'). ((outs, w # vs), s'))
          (peval_args (k_language K) M (drop (Suc k) ps) args s1))" for M s
      proof (cases "peval (k_language K) M arg s")
        case (Some p)
        then show ?thesis using False
          by (cases "peval_args (k_language K) M (drop (Suc k) ps) args (snd p)") (auto simp: ps split: prod.splits)
      qed (use False in \<open>simp add: ps\<close>)
      show "case w' of (outs, vs) \<Rightarrow> arg_values (k_env K) (drop k ps) as vs"
        if "eval (k_env K) v = Some w" "case w' of (outs, vs) \<Rightarrow>
          \<exists>vs'. vs = w # vs' \<and> arg_values (k_env K) (drop (Suc k) ps) as' vs'" for w w'
        using that False v(4) by (auto simp: ps *(3))
    qed simp
  qed
  then show ?case by simp
qed

section \<open>Results of tables\<close>

abbreviation result_struct :: "expr \<Rightarrow> expr \<Rightarrow> string \<Rightarrow> expr" where
  "result_struct h ar tn \<equiv>
     StructExpression [''hit'', ''miss'', ''action_run'', ''table_name''] [h, mk_LNot h, ar, StringLiteral tn]"

definition typed_result :: "expr \<Rightarrow> bool" where
  "typed_result v \<longleftrightarrow> (\<exists>h ar tn. v = result_struct h ar tn \<and> typed_as h Type_Boolean \<and> typed_as ar Type_String)"

definition shows_result :: "env \<Rightarrow> expr \<Rightarrow> val \<Rightarrow> bool" where
  "shows_result env v w \<longleftrightarrow> (\<exists>h ar tn a hit. v = result_struct h ar tn \<and> w = apply_result a hit \<and>
     eval env h = Some (VBool hit) \<and> eval env ar = Some (VStr a))"

text \<open>The contract of the callback that applies tables.\<close>

definition tables_sound :: "('e, 'z, 's) setting \<Rightarrow> ('e, 'z) callbacks \<Rightarrow> bool" where
  "tables_sound K C \<longleftrightarrow>
     (\<forall>n t n' t' x xt td r v r'.
        findTable (k_tools K) (PMember n t (PPath n' t' x) ''apply'') = Some xt \<and>
        l_refMap (k_language K) x = Some (TableDecl td) \<and> table_matches xt td \<and>
        cb_processTable C xt r = Inr (v, r') \<longrightarrow>
        simulates K (k_scope K) (table_nodes (k_tools K) (PMember n t (PPath n' t' x) ''apply'')) [] False
          (snd r) (snd r') (typed_result v) (\<lambda>M s. run_table (k_language K) M x td s) (shows_result (k_env K) v))"

lemma table_resolve:
  assumes tables: "tables_sound K C" and e: "table_call K V e x xt" and r: "resolve (k_tools K) C e r = Inr r'"
  shows "\<exists>v. fst r' = Some v \<and> simulates K V (enodes (k_tools K) e) (bnodes e) False (snd r) (snd r')
    (typed_result v) (\<lambda>M s. peval (k_language K) M e s) (shows_result (k_env K) v)"
proof -
  from e obtain cn n t n' t' ds td where V: "V = k_scope K"
    and m: "e = PCall cn (PMember n t (PPath n' t' x) ''apply'') (Some ds) []"
    "\<not> isAction (k_tools K) (PMember n t (PPath n' t' x) ''apply'')"
    "\<not> isExternObject (k_tools K) (PPath n' t' x)"
    and table: "findTable (k_tools K) (PMember n t (PPath n' t' x) ''apply'') = Some xt"
    "l_refMap (k_language K) x = Some (TableDecl td)" "table_matches xt td"
    by (auto simp: table_call_def)
  from r m table(1) obtain v r1 where p: "cb_processTable C xt r = Inr (v, r1)" "r' = with_result v r1"
    by (auto simp: call_method_def option_simps)
  have "simulates K (k_scope K) (table_nodes (k_tools K) (PMember n t (PPath n' t' x) ''apply'')) [] False
      (snd r) (snd r1) (typed_result v) (\<lambda>M s. run_table (k_language K) M x td s) (shows_result (k_env K) v)"
    using tables table p(1) unfolding tables_sound_def by blast
  moreover have "peval (k_language K) M e s = run_table (k_language K) M x td s" for M s
    using m(1) table(2) by (simp add: applied_table_def)
  ultimately show ?thesis by (auto simp: V m(1) p(2) with_result_def)
qed

text \<open>A node that is annotated with a value that has no bits, perhaps after its reachability.\<close>

lemma member_simulates:
  assumes "snd r2 = snd r1 \<or> (\<exists>c. annotate_reachability (k_tools K) n c (snd r1) = Inr (snd r2))"
    and f: "found_value (k_tools K) n t v r2 = Inr r'" and t: "annotated_value t v = None"
  shows "simulates K V [n] [] g (snd r1) (snd r') True
    (\<lambda>M s. case u of None \<Rightarrow> None | Some w \<Rightarrow> if m_value M n w then Some (w, s) else None) (\<lambda>w. u = Some w)"
proof -
  let ?X = "k_tools K"
  note fv = found_valueD(2) [OF f]
  have 1: "quiet ?X {n} (snd r1) (snd r2)" using assms(1) by (auto dest: quiet_annotate)
  have 2: "quiet ?X {n} (snd r2) (snd r')" by (rule quiet_annotate(2) [OF fv])
  have q: "quiet ?X (set [n]) (snd r1) (snd r')" using quiet_trans_in [OF 1 2] by simp
  show ?thesis
  proof (rule simulatesI)
    show "steps_to (set [n] \<union> k_actionNodes K) (snd r1) (snd r')"
      using q by (auto simp: quiet_def elim: steps_to_mono)
    show "env_ok K V (snd r') \<and> True" if "env_ok K V (snd r1)"
      using that by (simp add: quiet_env [OF q, THEN conjunct1])
    fix s w s'
    assume d: "describes K V (snd r1) s"
      and run: "(case u of None \<Rightarrow> None | Some w \<Rightarrow> if m_value no_monitor n w then Some (w, s) else None) = Some (w, s')"
    then show "describes K V (snd r') s' \<and> u = Some w"
      by (auto simp: quiet_env [OF q, THEN conjunct2] split: option.splits if_splits)
    fix RC SC
    assume o: "observed K [n] [] (snd r1) (snd r') RC SC"
    note od = observedD [OF o]
    have "consistent (snd r2)" by (rule steps_to_consistent [OF conjunct1 [OF 1 [unfolded quiet_def]] od(1)])
    moreover have "value_at (snd r2) n = None"
      using assms(1) od(7) [of n] annotate_reachability_steps(3) [of ?X n _ "snd r1" "snd r2" n] by auto
    ultimately have "SC n = None" using annotate_expression_steps(4) [OF fv] od(5) [of n] t by simp
    with run show "(case u of None \<Rightarrow> None | Some w \<Rightarrow> if m_value (monitor_of K RC SC) n w then Some (w, s) else None) = Some (w, s')"
      by (auto simp: monitor_of_def split: option.splits if_splits)
  qed
qed

lemma descend_result:
  assumes "descend [m] (result_struct h ar tn) = Inr (Some f)"
  shows "m = ''hit'' \<and> f = h \<or> m = ''miss'' \<and> f = mk_LNot h \<or> m = ''action_run'' \<and> f = ar \<or> m = ''table_name''"
  using assms by (auto simp: option_simps split: if_splits expr.splits)

lemma checkStructLike_call:
  assumes "checkStructLike X n member visit r = Inr (Some f, r2)" and "member_base member = PCall cn m ds args"
  obtains v r1 where "visit r = Inr r1" and "fst r1 = Some v" and "descend (member_ids member) v = Inr (Some f)"
    and "snd r2 = snd r1 \<or> (\<exists>c. annotate_reachability X n c (snd r1) = Inr (snd r2))"
proof -
  from assms(1) obtain se r1 where v: "visit r = Inr r1" "fst r1 = se" "se \<noteq> None"
    and c: "case se of None \<Rightarrow> Some f = None \<and> r2 = r1
     | Some e \<Rightarrow> descend (member_ids member) e = Inr (Some f) \<and>
         (Some f = None \<and> r2 = r1 \<or> (\<exists>w. Some f = Some w \<and>
            (if last (member_ids member) = ''hit'' \<or> last (member_ids member) = ''miss''
             then annotate_reachability X n w (snd r1) = Inr (snd r2) \<and> fst r2 = fst r1 else r2 = r1)))"
    by (rule checkStructLikeD) (use assms(2) in auto)
  from v(3) obtain e where "se = Some e" by auto
  with v c show thesis by (intro that [of r1 e]) (auto split: if_splits)
qed

lemma table_member_resolve:
  assumes agree: "picks_agree K" and tables: "tables_sound K C" and wt: "wt K V (PMember n t e m)" and call: "is_call e"
    and r: "resolve (k_tools K) C (PMember n t e m) r = Inr r'"
  shows "resolves K V (PMember n t e m) r r'"
proof -
  let ?X = "k_tools K" and ?L = "k_language K"
  from wt call obtain x xt where e: "table_call K V e x xt" and m: "table_member_type m = Some t" by auto
  from m have t: "annotated_value t f = None" for f
    by (auto simp: table_member_type_def annotated_value_def split: if_splits)
  from e have base: "\<exists>cn mm ds args. e = PCall cn mm ds args" "member_base e = e" by (auto simp: table_call_def)
  from r obtain se r2 f where c: "checkStructLike ?X n (PMember n t e m) (\<lambda>r. resolve ?X C (member_base e) r) r = Inr (se, r2)"
    and w: "case se of Some v \<Rightarrow> f = v
      | None \<Rightarrow> \<exists>var. to_StateVariable (PMember n t e m) = Some var \<and> es_get ?X (fst (snd r2)) var t = Inr f"
    and fv: "found_value ?X n t f r2 = Inr r'" by (rule resolve_memberE)
  have se: "se = Some f" using w base(1) by (auto split: option.splits)
  from c obtain v r1 where v: "resolve ?X C e r = Inr r1" "fst r1 = Some v" "descend [m] v = Inr (Some f)"
    "snd r2 = snd r1 \<or> (\<exists>c. annotate_reachability ?X n c (snd r1) = Inr (snd r2))"
  proof -
    from base(1) obtain cn mm ds args where cn: "e = PCall cn mm ds args" by blast
    then have "member_base (PMember n t e m) = PCall cn mm ds args" by simp
    from c [unfolded se] this obtain v r1 where "resolve ?X C (member_base e) r = Inr r1" "fst r1 = Some v"
      "descend (member_ids (PMember n t e m)) v = Inr (Some f)"
      "snd r2 = snd r1 \<or> (\<exists>c. annotate_reachability ?X n c (snd r1) = Inr (snd r2))"
      by (rule checkStructLike_call)
    moreover have "member_ids (PMember n t e m) = [m]" by (simp add: cn)
    ultimately show thesis using base(2) by (intro that [of r1 v]) (simp_all only:)
  qed
  from table_resolve [OF tables e v(1)] v(2)
  have 1: "simulates K V (enodes ?X e) (bnodes e) False (snd r) (snd r1) (typed_result v)
      (\<lambda>M s. peval ?L M e s) (shows_result (k_env K) v)" by simp
  have 2: "simulates K V [n] [] False (snd r1) (snd r') True
      (\<lambda>M s. case l_member ?L m a of None \<Rightarrow> None | Some w \<Rightarrow> if m_value M n w then Some (w, s) else None)
      (\<lambda>w. l_member ?L m a = Some w)" for a
    by (rule member_simulates [OF v(4) fv t])
  have f: "fst r' = Some f" by (rule found_valueD(1) [OF fv])
  have "simulates K V (enodes ?X e @ [n]) (bnodes e @ []) False (snd r) (snd r')
      (\<forall>v. fst r' = Some v \<longrightarrow> typed_as v t) (\<lambda>M s. peval ?L M (PMember n t e m) s)
      (\<lambda>w. \<forall>v. fst r' = Some v \<longrightarrow> eval (k_env K) v = Some w)"
  proof (rule simulates_bind [OF 1 2])
    show "\<forall>v. fst r' = Some v \<longrightarrow> typed_as v t" if typed: "typed_result v"
    proof -
      from typed obtain h ar tn where h: "v = result_struct h ar tn" "typed_as h Type_Boolean" "typed_as ar Type_String"
        by (auto simp: typed_result_def)
      from descend_result [OF v(3) [unfolded h(1)]] h(2,3) m f show ?thesis
        by (auto simp: table_member_type_def typed_asD split: if_splits)
    qed
    show "\<forall>v. fst r' = Some v \<longrightarrow> eval (k_env K) v = Some w'"
      if res: "shows_result (k_env K) v w" and u: "l_member ?L m w = Some w'" for w w'
    proof -
      from res obtain h ar tn a hit where h: "v = result_struct h ar tn" "w = apply_result a hit"
        "eval (k_env K) h = Some (VBool hit)" "eval (k_env K) ar = Some (VStr a)" by (auto simp: shows_result_def)
      have "m = ''hit'' \<Longrightarrow> w' = VBool hit" "m = ''miss'' \<Longrightarrow> w' = VBool (\<not> hit)" "m = ''action_run'' \<Longrightarrow> w' = VStr a"
        using agree u h(2) by (auto simp: picks_agree_def)
      with descend_result [OF v(3) [unfolded h(1)]] h(3,4) m f LNot_value [OF h(3)] show ?thesis
        by (auto simp: table_member_type_def)
    qed
  qed (auto split: option.splits)
  moreover have "\<not> call_free e" using base(1) by auto
  ultimately show ?thesis using call by simp
qed

section \<open>Calls of externs\<close>

lemma extern_resolve:
  assumes agree: "externs_agree K" and wt: "wt K V (PCall n m (Some ds) args)"
    and args: "in_order (\<lambda>arg. resolve_argument (k_tools K) m ds arg (\<lambda>r. resolve (k_tools K) C arg r)) args (0, r) = Inr (as, k, r1)"
    and call: "call_method (k_tools K) C (PCall n m (Some ds) args) m as r1 = Inr r'"
    and visit: "\<And>e r r'. e \<in> set args \<Longrightarrow> resolve (k_tools K) C e r = Inr r' \<Longrightarrow> resolves K V e r r'"
    and laws: "env_laws (k_tools K)"
  shows "simulates K V (concat (map (enodes (k_tools K)) args)) (concat (map bnodes args)) False (snd r) (snd r')
    (\<forall>v. fst r' = Some v \<longrightarrow> typed_as v (ptype K (PCall n m (Some ds) args)))
    (\<lambda>M s. peval (k_language K) M (PCall n m (Some ds) args) s)
    (\<lambda>w. \<forall>v. fst r' = Some v \<longrightarrow> eval (k_env K) v = Some w)"
proof -
  let ?X = "k_tools K" and ?L = "k_language K" and ?call = "PCall n m (Some ds) args"
  from wt have m: "extern_call K m" and len: "length args \<le> length ds"
    and ok: "\<forall>i < length args. \<not> isExternParameter ?X m (0 + i) \<and>
      (ds ! (0 + i) = Out \<or> ds ! (0 + i) = InOut \<longrightarrow> is_chain (args ! i))" by auto
  have chain: "call_free e" if "is_chain e" for e using that by (induction e) auto
  have 1: "simulates K V (concat (map (enodes ?X) args)) (concat (map bnodes args)) False (snd r) (snd r1) True
    (\<lambda>M s. map_option (\<lambda>(outs, vs, s'). ((outs, vs), s')) (peval_args ?L M (drop 0 ds) args s))
    (\<lambda>(outs, vs). arg_values (k_env K) (drop 0 ds) as vs)"
    by (rule arguments_simulate [OF visit _ ok args]) (use resolve_quiet [OF laws chain] in auto)
  have ext: "processExtern ?X (extern_info ?call as) (snd r1) = Inr (fst r', snd r')"
    using call m by (auto simp: call_method_def extern_call_def call_extern_def extern_info_def split: pexp.splits)
  have run: "run_call ?L m outs vs s = l_call ?L m outs vs s" for outs vs s
    using m by (auto simp: run_call_def extern_call_def split: pexp.splits option.splits decl.splits)
  have original: "ei_originalCall (extern_info ?call as) = ?call" by (simp add: extern_info_def split: pexp.split)
  note static = agree [unfolded externs_agree_def, THEN conjunct1, rule_format, OF ext]
  have s2: "steps_to {} (snd r1) (snd r')" by (rule conjunct1 [OF static])
  have e2: "env_ok K V (snd r') \<and> (\<forall>v. fst r' = Some v \<longrightarrow> typed_as v (ptype K ?call))" if "env_ok K V (snd r1)"
    unfolding ptype.simps by (rule conjunct2 [OF static, THEN spec, THEN mp, OF that, unfolded original])
  have d2: "describes K V (snd r') s' \<and> (\<forall>v. fst r' = Some v \<longrightarrow> eval (k_env K) v = Some w)"
    if "describes K V (snd r1) s" "arg_values (k_env K) ds as vs" "l_call ?L m outs vs s = Some (w, s')" for s vs outs w s'
  proof -
    note agree [unfolded externs_agree_def, THEN conjunct2, rule_format, of n m ds args as "snd r1" "fst r'" "snd r'" V]
    with ext that show ?thesis by blast
  qed
  have s2': "steps_to (set [] \<union> k_actionNodes K) (snd r1) (snd r')" by (rule steps_to_mono [OF s2]) simp
  have 2: "simulates K V [] [] False (snd r1) (snd r') (\<forall>v. fst r' = Some v \<longrightarrow> typed_as v (ptype K ?call))
      (\<lambda>M s. case a of (outs, vs) \<Rightarrow> run_call ?L m outs vs s) (\<lambda>w. \<forall>v. fst r' = Some v \<longrightarrow> eval (k_env K) v = Some w)"
    if "case a of (outs, vs) \<Rightarrow> arg_values (k_env K) (drop 0 ds) as vs" for a
    by (rule simulatesI [OF s2' e2]) (use that d2 in \<open>auto simp: run split: prod.splits\<close>)
  have "simulates K V (concat (map (enodes ?X) args) @ []) (concat (map bnodes args) @ []) False (snd r) (snd r')
    (\<forall>v. fst r' = Some v \<longrightarrow> typed_as v (ptype K ?call)) (\<lambda>M s. peval ?L M ?call s)
    (\<lambda>w. \<forall>v. fst r' = Some v \<longrightarrow> eval (k_env K) v = Some w)"
  proof (rule simulates_bind_if [OF 1 s2' e2 2])
    show "peval ?L M ?call s = (case map_option (\<lambda>(outs, vs, s'). ((outs, vs), s')) (peval_args ?L M (drop 0 ds) args s) of
        None \<Rightarrow> None | Some (a, s1) \<Rightarrow> (case a of (outs, vs) \<Rightarrow> run_call ?L m outs vs s1))" for M s
      using m len by (auto simp: extern_call_def split: option.splits prod.splits)
  qed auto
  then show ?thesis by simp
qed

section \<open>All expressions\<close>

lemma resolve_simulates:
  assumes agree: "agreement K" and tables: "tables_sound K C"
    and "wt K V e" and "resolve (k_tools K) C e r = Inr r'"
  shows "resolves K V e r r'"
  using assms(3,4)
proof (induction e arbitrary: r r')
  case (PLit l)
  then have "r' = with_result l r" and l: "to_Literal l \<noteq> None" by simp_all
  moreover have "eval (k_env K) l = literal_value l" "typed_as l (type_of l)"
    using l by (cases l; simp add: literal_value_def typed_as_def)+
  ultimately show ?case by (auto simp: with_result_def intro!: simulatesI split: option.splits)
next
  case (PPath n t x)
  then show ?case by (rule resolve_path)
next
  case (PMember n t e m)
  show ?case
  proof (cases "is_call e")
    case True
    from agree have "picks_agree K" by (simp add: agreement_def)
    from table_member_resolve [OF this tables PMember.prems(1) True PMember.prems(2)] show ?thesis .
  next
    case False
    from resolve_chain [OF PMember.prems(1) False PMember.prems(2)] show ?thesis .
  qed
next
  case (PLNot e)
  from agree have ops: "operators_agree K" by (simp add: agreement_def)
  from PLNot.prems have wt: "wt K V e" "ptype K e = Type_Boolean" by auto
  from PLNot.prems(2) obtain v r1 where o: "operand (k_tools K) e (\<lambda>r. resolve (k_tools K) C e r) r = Inr (v, r1)"
    and r': "r' = with_result (mk_LNot v) r1" by (auto simp: option_simps)
  have 1: "computes K V (call_free e) e (snd r) v (snd r1)"
    by (rule operand_computes [OF ops wt(1) o PLNot.IH [OF wt(1)]])
  have "simulates K V (enodes (k_tools K) e) (bnodes e) (call_free e) (snd r) (snd r1) (typed_as (mk_LNot v) Type_Boolean)
      (\<lambda>M s. peval (k_language K) M (PLNot e) s) (\<lambda>w. eval (k_env K) (mk_LNot v) = Some w)"
    by (rule simulates_map [OF 1, where f = "\<lambda>w. case w of VBool b \<Rightarrow> Some (VBool (\<not> b)) | _ \<Rightarrow> None"])
      (auto simp: wt(2) typed_asD LNot_value split: option.splits val.splits)
  then show ?case by (simp add: r' with_result_def)
next
  case (POp f es)
  from agree have ops: "operators_agree K" and laws: "env_laws (k_tools K)"
    by (simp_all add: agreement_def stores_agree_def)
  from POp.prems(1) have wt: "wt K V e" if "e \<in> set es" for e using that by simp
  from POp.prems(2) have "resolve_operator (k_tools K) f es (\<lambda>e r. resolve (k_tools K) C e r) r = Inr r'" by simp
  then show ?case
  proof (cases rule: operatorE)
    case (mux t e0 e1 e2)
    note IH = POp.IH [OF _ wt, unfolded mux(2)]
    have quiet: "quiet (k_tools K) (set (enodes (k_tools K) e1)) (snd r) (snd r')"
      if "resolve (k_tools K) C e1 r = Inr r'" for r r'
      using resolve_quiet [OF laws _ that] POp.prems(1) mux by simp
    show ?thesis unfolding mux(1,2)
      by (rule mux_resolve [OF ops laws POp.prems(1) [unfolded mux(1,2)] mux(3) _ quiet])
        (use POp.IH wt mux(2) in auto)
  next
    case (index t left right)
    with POp.prems(1) show ?thesis by simp
  next
    case (struct ns)
    with POp.prems(1) show ?thesis by simp
  next
    case operands
    show ?thesis by (rule operands_resolve [OF ops POp.prems(1) operands POp.IH]) (use wt in auto)
  qed
next
  case (PCall n m ds args)
  from agree have ext: "externs_agree K" and laws: "env_laws (k_tools K)"
    by (simp_all add: agreement_def stores_agree_def)
  from PCall.prems(1) obtain ds' where ds: "ds = Some ds'" by auto
  from PCall.prems(2) ds obtain as k r1 where a:
    "in_order (\<lambda>arg. resolve_argument (k_tools K) m ds' arg (\<lambda>r. resolve (k_tools K) C arg r)) args (0, r) = Inr (as, k, r1)"
    "call_method (k_tools K) C (PCall n m ds args) m as r1 = Inr r'" by (auto simp: option_simps)
  have visit: "resolves K V e r r'" if "e \<in> set args" "resolve (k_tools K) C e r = Inr r'" for e r r'
    using PCall.IH(2) [OF that(1) _ that(2)] PCall.prems(1) that(1) by simp
  have "simulates K V (concat (map (enodes (k_tools K)) args)) (concat (map bnodes args)) False (snd r) (snd r')
    (\<forall>v. fst r' = Some v \<longrightarrow> typed_as v (ptype K (PCall n m (Some ds') args)))
    (\<lambda>M s. peval (k_language K) M (PCall n m (Some ds') args) s)
    (\<lambda>w. \<forall>v. fst r' = Some v \<longrightarrow> eval (k_env K) v = Some w)"
    using visit by (rule extern_resolve [OF ext PCall.prems(1) [unfolded ds] a(1) a(2) [unfolded ds] _ laws])
  then show ?case unfolding ds bnodes.simps call_free.simps by (rule simulates_extend) auto
qed

end
