(* ===== verification/TableSoundness.thy ===== *)
theory TableSoundness
  imports ExpressionSoundness
begin

text \<open>
  Soundness of the table executor: running an action follows its body, and applying a table follows the
  action the table picks, for the default action and every action of the list, each of which runs in a
  clone of the state before the table and is merged under the condition that the configuration picks it.
\<close>

declare split_paired_All [simp del] split_paired_Ex [simp del]

section \<open>Setting and merging variables\<close>

definition scope_ok :: "('e, 'z, 's) setting \<Rightarrow> StateVariable set \<Rightarrow> bool" where
  "scope_ok K V \<longleftrightarrow> k_scope K \<subseteq> V \<and> (\<forall>v \<in> V. is_Type_Base (k_type K v))"

lemma env_ok_mono: "env_ok K V st \<Longrightarrow> V' \<subseteq> V \<Longrightarrow> env_ok K V' st"
  by (auto simp: env_ok_def)

lemma describes_mono: "describes K V st s \<Longrightarrow> V' \<subseteq> V \<Longrightarrow> describes K V' st s"
  unfolding describes_def by blast

lemma env_laws_set: "env_laws X \<Longrightarrow> env_get X (env_set X v e E) v' = (if v' = v then Some e else env_get X E v')"
  by (simp add: env_laws_def)

lemma set_env_ok:
  assumes "env_laws (k_tools K)" and "env_ok K V (s, g)" and "typed_as e (k_type K v)"
  shows "env_ok K (insert v V) (es_set (k_tools K) v e s, g')"
  using assms by (auto simp: env_ok_def es_set_def env_laws_set getExecutionCondition_def)

lemma set_describes:
  assumes "env_laws (k_tools K)" and "describes K V (s, g) u" and "eval (k_env K) e = Some w"
    and "\<And>v'. v' \<in> insert v V \<Longrightarrow>
      read_var (k_language K) v' u' = (if v' = v then Some w else read_var (k_language K) v' u)"
  shows "describes K (insert v V) (es_set (k_tools K) v e s, g') u'"
  using assms by (auto simp: describes_def es_set_def env_laws_set split: if_splits)

lemma merge_env_ok:
  assumes laws: "env_laws (k_tools K)" and s: "env_ok K V (s, g)" and a: "env_ok K V (a, g')"
  shows "env_ok K V (es_merge (k_tools K) a s, g'')"
proof -
  have cond: "typed_as (simplify (getExecutionCondition a)) Type_Boolean"
    using a by (simp add: env_ok_def simplify_typed)
  have "\<exists>e. env_get (k_tools K) (es_env (es_merge (k_tools K) a s)) v = Some e \<and> typed_as e (k_type K v)"
    if "v \<in> V" for v
    using s a that merged_typed [OF cond] by (fastforce simp: es_merge_get [OF laws] env_ok_def)
  moreover have "typed_as (getExecutionCondition (es_merge (k_tools K) a s)) Type_Boolean"
    using s by (simp add: env_ok_def getExecutionCondition_def)
  ultimately show ?thesis by (simp add: env_ok_def)
qed

lemma merge_describes:
  assumes laws: "env_laws (k_tools K)" and s: "env_ok K V (s, g)" and a: "env_ok K V (a, g')"
    and b: "eval (k_env K) (getExecutionCondition a) = Some (VBool b)"
    and d: "if b then describes K V (a, g') u else describes K V (s, g) u"
  shows "describes K V (es_merge (k_tools K) a s, g'') u"
  unfolding describes_def
proof (intro ballI allI impI)
  fix v e w
  assume v: "v \<in> V" and e: "var_value K (es_merge (k_tools K) a s, g'') v = Some e"
    and w: "read_var (k_language K) v u = Some w"
  from s a v obtain c d' where cd: "env_get (k_tools K) (es_env s) v = Some c"
    "env_get (k_tools K) (es_env a) v = Some d'" "typed_as c (k_type K v)" "typed_as d' (k_type K v)"
    by (fastforce simp: env_ok_def)
  with e have "e = merged (simplify (getExecutionCondition a)) c d'" by (simp add: es_merge_get [OF laws])
  moreover have "eval (k_env K) (if b then d' else c) = Some w"
    using d v w cd by (auto simp: describes_def split: if_splits)
  ultimately show "eval (k_env K) e = Some w"
    using merged_value [OF b, of d' c w] cd(3,4) by (simp add: typed_asD)
qed

section \<open>Waiting states\<close>

text \<open>A state from which others were cloned, while the execution has gone on elsewhere.\<close>

definition attends :: "'e ExecutionState \<Rightarrow> ('e, 'z) exec_state \<Rightarrow> bool" where
  "attends ref st \<longleftrightarrow> consistent st \<and> consistent (ref, snd st) \<and>
     extends UNIV (es_nodeAnnotationMap ref) (annotations_of st)"

lemma attends_start: "consistent (s, g) \<Longrightarrow> attends s (s, g)"
  by (simp add: attends_def)

lemma steps_to_extends:
  "steps_to N st st' \<Longrightarrow> consistent st \<Longrightarrow> extends N (annotations_of st) (annotations_of st')"
  by (auto simp: steps_to_def evolves_def)

lemma attends_step:
  assumes "attends ref st" and "steps_to N st st'"
  shows "attends ref st'"
proof -
  have c: "consistent st" "consistent (ref, snd st)" and e: "extends UNIV (es_nodeAnnotationMap ref) (annotations_of st)"
    using assms(1) by (simp_all add: attends_def)
  have "consistent (ref, snd st')"
    using bystander(1) [of N "fst st" "snd st" "fst st'" "snd st'" ref] assms(2) c by simp
  moreover have "extends UNIV (es_nodeAnnotationMap ref) (annotations_of st')"
    using extends_trans [OF e steps_to_extends [OF assms(2) c(1)]] by simp
  ultimately show ?thesis using steps_to_consistent [OF assms(2) c(1)] by (simp add: attends_def)
qed

lemma attends_join:
  assumes ref: "attends ref (s, g)" and run: "steps_to N (p, g) (a, g')"
    and p: "es_nodeAnnotationMap p = es_nodeAnnotationMap ref"
  shows "steps_to N (s, g) (es_merge X a s, g')"
proof -
  have c: "consistent (s, g)" "consistent (ref, g)" and r: "extends UNIV (es_nodeAnnotationMap ref) (es_nodeAnnotationMap s)"
    using ref by (simp_all add: attends_def)
  have cp: "consistent (p, g)" using c(2) p by (simp add: consistent_def)
  then have e: "evolves N (an_store g) (es_nodeAnnotationMap ref) (an_store g') {es_nodeAnnotationMap a}"
    using run p by (simp add: steps_to_def)
  have oks: "store_ok (an_store g') (es_nodeAnnotationMap a)" "store_ok (an_store g') (es_nodeAnnotationMap s)"
    using e bystander(1) [OF run cp c(1)] by (auto simp: evolves_def consistent_def)
  note m = merged_annotations [OF oks]
  have a: "extends N (es_nodeAnnotationMap ref) (es_nodeAnnotationMap a)" using e by (simp add: evolves_def)
  have "extends N (es_nodeAnnotationMap s) (shared_mergeAnnotationMapping (es_nodeAnnotationMap a) (es_nodeAnnotationMap s))"
    unfolding extends_def
  proof (intro conjI allI impI)
    fix n
    assume n: "n \<notin> N"
    show "map_find (sa_reachabilityMap (shared_mergeAnnotationMapping (es_nodeAnnotationMap a) (es_nodeAnnotationMap s))) n =
        map_find (sa_reachabilityMap (es_nodeAnnotationMap s)) n"
      using a r n by (cases "map_find (sa_reachabilityMap (es_nodeAnnotationMap ref)) n") (auto simp: m(1) extends_def split: option.splits)
    show "map_find (sa_substitutionMap (shared_mergeAnnotationMapping (es_nodeAnnotationMap a) (es_nodeAnnotationMap s))) n =
        map_find (sa_substitutionMap (es_nodeAnnotationMap s)) n"
      using a r n by (cases "map_find (sa_substitutionMap (es_nodeAnnotationMap ref)) n") (auto simp: m(2) extends_def split: option.splits)
  qed (simp_all add: m(1,2) m(3))
  with e m(3,4) have "evolves N (an_store g) (es_nodeAnnotationMap s) (an_store g')
      {shared_mergeAnnotationMapping (es_nodeAnnotationMap a) (es_nodeAnnotationMap s)}"
    unfolding evolves_def by auto
  then show ?thesis by (simp add: steps_to_def)
qed

section \<open>Calls of actions\<close>

text \<open>An execution of a statement, with the information whether it left its block as a result.\<close>

definition runs :: "'s p4_language \<Rightarrow> stmt \<Rightarrow> monitor \<Rightarrow> 's \<Rightarrow> (bool \<times> 's) option" where
  "runs L x M s = (case exec L M x s of None \<Rightarrow> None | Some (s', b) \<Rightarrow> Some (b, s'))"

definition body_sound :: "('e, 'z, 's) setting \<Rightarrow> (stmt \<Rightarrow> ('e, 'z) exec_state \<Rightarrow> ('e, 'z) exec_state result) \<Rightarrow> bool" where
  "body_sound K body \<longleftrightarrow>
     (\<forall>V x st st'. scope_ok K V \<and> wt_stmt K V x \<and> body x st = Inr st' \<longrightarrow>
        simulates K V (snodes (k_tools K) x) (sbases x) False st st' True (runs (k_language K) x) (\<lambda>b. \<not> b))"

definition args_typed :: "exec_action \<Rightarrow> expr list \<Rightarrow> bool" where
  "args_typed act es \<longleftrightarrow> list_all2 (\<lambda>p e. typed_as e (pp_type p)) (xa_parameters act) es"

definition action_sound ::
  "('e, 'z, 's) setting \<Rightarrow> (exec_action \<Rightarrow> argument list \<Rightarrow> ('e, 'z) exec_state \<Rightarrow> ('e, 'z) exec_state result) \<Rightarrow> bool" where
  "action_sound K f \<longleftrightarrow>
     (\<forall>act args st st' call. getP4Action (k_tools K) call = Some act \<and> f act args st = Inr st' \<longrightarrow>
        steps_to (k_actionNodes K) st st' \<and>
        (\<forall>V es. scope_ok K V \<and> args = map Argument es \<and> args_typed act es \<and> env_ok K V st \<longrightarrow>
           env_ok K V st' \<and>
           (\<forall>s vs s' b. describes K V st s \<and> reached K st \<and> map (eval (k_env K)) es = map Some vs \<and>
              run (k_language K) (xa_body act)
                (declare_all (k_language K) (zip (xa_parameters act) vs) s) = Some (s', b) \<longrightarrow>
              describes K V st' s')))"

lemma action_soundD:
  assumes "action_sound K f" and "getP4Action (k_tools K) call = Some act" and "f act args st = Inr st'"
  shows "steps_to (k_actionNodes K) st st'"
    and "scope_ok K V \<Longrightarrow> args = map Argument es \<Longrightarrow> args_typed act es \<Longrightarrow> env_ok K V st \<Longrightarrow> env_ok K V st'"
    and "scope_ok K V \<Longrightarrow> args = map Argument es \<Longrightarrow> args_typed act es \<Longrightarrow> env_ok K V st \<Longrightarrow>
      describes K V st s \<Longrightarrow> reached K st \<Longrightarrow> map (eval (k_env K)) es = map Some vs \<Longrightarrow>
      run (k_language K) (xa_body act) (declare_all (k_language K) (zip (xa_parameters act) vs) s) = Some (s', b) \<Longrightarrow>
      describes K V st' s'"
  using assms unfolding action_sound_def by blast+

lemma set_parameters_fields:
  "set_parameters X ps s = Inr s' \<Longrightarrow>
   es_executionCondition s' = es_executionCondition s \<and> es_nodeAnnotationMap s' = es_nodeAnnotationMap s"
  by (induction ps arbitrary: s) (auto simp: option_simps es_set_def)

lemma set_parameters_sound:
  assumes agree: "stores_agree K" and "set_parameters (k_tools K) (zip ps (map Argument es)) s = Inr s1"
    and "list_all2 (\<lambda>p e. typed_as e (pp_type p)) ps es"
    and "\<forall>p \<in> set ps. is_Type_Base (pp_type p) \<and> k_type K (VarPath (ap_name p)) = pp_type p"
    and "env_ok K V (s, g)" and "\<forall>v \<in> V. is_Type_Base (k_type K v)"
  shows "env_ok K (V \<union> (\<lambda>p. VarPath (ap_name p)) ` set ps) (s1, g) \<and>
    (\<forall>u vs. describes K V (s, g) u \<and> map (eval (k_env K)) es = map Some vs \<longrightarrow>
       describes K (V \<union> (\<lambda>p. VarPath (ap_name p)) ` set ps) (s1, g) (declare_all (k_language K) (zip ps vs) u))"
  using assms(2-)
proof (induction ps arbitrary: es s V)
  case (Cons p ps)
  from agree have laws: "env_laws (k_tools K)" by (simp add: stores_agree_def)
  from Cons.prems(2) obtain e es' where es: "es = e # es'" "typed_as e (pp_type p)"
    "list_all2 (\<lambda>p e. typed_as e (pp_type p)) ps es'" by (auto simp: list_all2_Cons1)
  let ?v = "VarPath (ap_name p)" and ?s = "es_set (k_tools K) (VarPath (ap_name p)) e s"
  have p: "is_Type_Base (pp_type p)" "k_type K ?v = pp_type p" using Cons.prems(3) by simp_all
  from Cons.prems(1) es have run: "set_parameters (k_tools K) (zip ps (map Argument es')) ?s = Inr s1"
    by (simp add: option_simps)
  have ok: "env_ok K (insert ?v V) (?s, g)" by (rule set_env_ok [OF laws Cons.prems(4)]) (use es p in simp)
  have rest: "\<forall>p \<in> set ps. is_Type_Base (pp_type p) \<and> k_type K (VarPath (ap_name p)) = pp_type p"
    "\<forall>v \<in> insert ?v V. is_Type_Base (k_type K v)" using Cons.prems(3,5) p by auto
  note IH = Cons.IH [OF run es(3) rest(1) ok rest(2)]
  have "describes K (insert ?v V) (?s, g) (l_declare (k_language K) (ap_name p) (Some w) u)"
    if "describes K V (s, g) u" "eval (k_env K) e = Some w" for u w
    by (rule set_describes [OF laws that])
      (use agree rest(2) in \<open>auto simp: stores_agree_def simp del: read_var.simps\<close>)
  with IH show ?case by (auto simp: es map_eq_Cons_conv)
qed auto

lemma callAction_sound:
  assumes agree: "agreement K" and body: "body_sound K body"
  shows "action_sound K (callAction (k_tools K) body)"
  unfolding action_sound_def
proof (intro allI impI; elim conjE)
  fix act args st st' call
  assume call: "getP4Action (k_tools K) call = Some act" and run: "callAction (k_tools K) body act args st = Inr st'"
  let ?V = "\<lambda>V. V \<union> (\<lambda>p. VarPath (ap_name p)) ` set (xa_parameters act)"
  from agree have stores: "stores_agree K" and acts: "actions_ok K" and scope: "\<forall>v \<in> k_scope K. is_Type_Base (k_type K v)"
    by (simp_all add: agreement_def)
  from acts call have act: "set (snodes (k_tools K) (xa_body act)) \<subseteq> k_actionNodes K" "parameters_ok K act"
    "\<And>V. k_scope K \<union> parameter_vars act \<subseteq> V \<Longrightarrow> wt_stmt K V (xa_body act)" by (auto simp: actions_ok_def)
  from run obtain s where s: "length args = length (xa_parameters act)"
    "set_parameters (k_tools K) (zip (xa_parameters act) args) (fst st) = Inr s" "body (xa_body act) (s, snd st) = Inr st'"
    by (auto simp: callAction_def option_simps split: if_splits)
  have sim: "simulates K (?V V) (snodes (k_tools K) (xa_body act)) (sbases (xa_body act)) False (s, snd st) st' True
      (runs (k_language K) (xa_body act)) (\<lambda>b. \<not> b)" if "scope_ok K V" for V
  proof -
    have "scope_ok K (?V V)" using that act(2) by (auto simp: scope_ok_def parameters_ok_def)
    moreover have "wt_stmt K (?V V) (xa_body act)"
      by (rule act(3)) (use that in \<open>auto simp: scope_ok_def parameter_vars_def\<close>)
    ultimately show ?thesis using body s(3) unfolding body_sound_def by blast
  qed
  have start: "steps_to (k_actionNodes K) st (s, snd st)"
    using set_parameters_fields [OF s(2)] by (simp add: steps_to_def consistent_def evolves_refl)
  have "steps_to (k_actionNodes K) (s, snd st) st'"
    using simulatesD(1) [OF sim [of "k_scope K"]] scope act(1) by (auto simp: scope_ok_def Un_absorb1)
  with start have steps: "steps_to (k_actionNodes K) st st'" by (rule steps_to_trans_in)
  moreover have "env_ok K V st' \<and> (\<forall>u vs u' b. describes K V st u \<and> reached K st \<and> map (eval (k_env K)) es = map Some vs \<and>
      run (k_language K) (xa_body act) (declare_all (k_language K) (zip (xa_parameters act) vs) u) = Some (u', b) \<longrightarrow>
      describes K V st' u')"
    if V: "scope_ok K V" and es: "args = map Argument es" "args_typed act es" and ok: "env_ok K V st" for V es
  proof (intro conjI allI impI; (elim conjE)?)
    have p: "env_ok K (?V V) (s, snd st) \<and>
      (\<forall>u vs. describes K V (fst st, snd st) u \<and> map (eval (k_env K)) es = map Some vs \<longrightarrow>
        describes K (?V V) (s, snd st) (declare_all (k_language K) (zip (xa_parameters act) vs) u))"
      by (rule set_parameters_sound [OF stores s(2) [unfolded es(1)]])
        (use es(2) act(2) ok V in \<open>auto simp: args_typed_def parameters_ok_def scope_ok_def\<close>)
    from simulatesD(2) [OF sim [OF V]] p have ok': "env_ok K (?V V) st'" by blast
    then show "env_ok K V st'" by (rule env_ok_mono) simp
    fix u vs u' b
    assume u: "describes K V st u" "reached K st" "map (eval (k_env K)) es = map Some vs"
      and r: "run (k_language K) (xa_body act) (declare_all (k_language K) (zip (xa_parameters act) vs) u) = Some (u', b)"
    from p u have "describes K (?V V) (s, snd st) (declare_all (k_language K) (zip (xa_parameters act) vs) u)" by simp
    moreover have "reached K (s, snd st)" using steps_to_reached [OF start, of K] u(2) by simp
    moreover have "runs (k_language K) (xa_body act) no_monitor (declare_all (k_language K) (zip (xa_parameters act) vs) u) = Some (b, u')"
      using r by (simp add: runs_def)
    ultimately have "describes K (?V V) st' u'" using simulatesD(4) [OF sim [OF V]] p by blast
    then show "describes K V st' u'" by (rule describes_mono) simp
  qed
  ultimately show "steps_to (k_actionNodes K) st st' \<and>
        (\<forall>V es. scope_ok K V \<and> args = map Argument es \<and> args_typed act es \<and> env_ok K V st \<longrightarrow>
           env_ok K V st' \<and>
           (\<forall>s vs s' b. describes K V st s \<and> reached K st \<and> map (eval (k_env K)) es = map Some vs \<and>
              run (k_language K) (xa_body act)
                (declare_all (k_language K) (zip (xa_parameters act) vs) s) = Some (s', b) \<longrightarrow>
              describes K V st' s'))" by blast
qed

section \<open>Conditions of the actions\<close>

abbreviation is_entry :: "('e, 'z) interpreter \<Rightarrow> string \<Rightarrow> ActionListElement \<Rightarrow> bool" where
  "is_entry X choice el \<equiv> \<not> al_defaultOnly el \<and> map_option xa_controlPlaneName (action_of X el) = Some choice"

lemma action_equality_typed: "typed_as (action_equality X t act) Type_Boolean"
  by (simp add: action_equality_def)

lemma action_equality_value:
  assumes "eval env (SymbolicVariable (getTableActionChoice (it_symbols X) t)) = Some (VStr choice)"
  shows "eval env (action_equality X t act) = Some (VBool (choice = xa_controlPlaneName act))"
proof -
  have "eval env (StringLiteral (xa_controlPlaneName act)) = Some (VStr (xa_controlPlaneName act))" by simp
  from Equ_value [OF assms this] show ?thesis by (simp add: action_equality_def)
qed

lemma totalHitCondition_sound:
  assumes "totalHitCondition X t acts c = Inr h"
  shows "typed_as c Type_Boolean \<Longrightarrow> typed_as h Type_Boolean"
    and "eval env (SymbolicVariable (getTableActionChoice (it_symbols X) t)) = Some (VStr choice) \<Longrightarrow>
      eval env c = Some (VBool b) \<Longrightarrow> eval env h = Some (VBool (b \<or> (\<exists>el \<in> set acts. is_entry X choice el)))"
  using assms
proof (induction acts arbitrary: c b)
  case (Cons el acts)
  {
    case 1
    show ?case
    proof (cases "al_defaultOnly el")
      case True
      with 1(2) Cons.IH(1) [OF 1(1)] show ?thesis by simp
    next
      case False
      with 1(2) obtain act where "totalHitCondition X t acts (mk_LOr c (action_equality X t act)) = Inr h"
        by (auto simp: option_simps)
      from Cons.IH(1) [OF _ this] 1(1) show ?thesis by (simp add: action_equality_typed)
    qed
  next
    case 2
    show ?case
    proof (cases "al_defaultOnly el")
      case True
      with 2(3) Cons.IH(2) [OF 2(1,2)] show ?thesis by simp
    next
      case False
      with 2(3) obtain act where act: "getP4Action X (al_expression el) = Some act"
        "totalHitCondition X t acts (mk_LOr c (action_equality X t act)) = Inr h"
        by (auto simp: option_simps)
      have "eval env (mk_LOr c (action_equality X t act)) = Some (VBool (b \<or> choice = xa_controlPlaneName act))"
        by (rule LOr_value [OF 2(2) action_equality_value [OF 2(1)]])
      from Cons.IH(2) [OF 2(1) this act(2)] show ?thesis
        using False act(1) by (auto simp: action_of_def)
    qed
  }
qed auto

lemma actionHitCondition_typed:
  assumes "typed_as h Type_Boolean"
  shows "typed_as (actionHitCondition X t h el act) Type_Boolean"
  using assms action_equality_typed [of X t act]
  by (auto simp: actionHitCondition_def Let_def typed_asD)

lemma actionHitCondition_value:
  assumes choice: "eval env (SymbolicVariable (getTableActionChoice (it_symbols X) t)) = Some (VStr choice)"
    and "eval env (SymbolicVariable (getDefaultActionVariable t)) = Some (VStr def)"
    and h: "eval env h = Some (VBool hit)" and act: "action_of X el = Some act"
  shows "eval env (actionHitCondition X t h el act) = Some (VBool (is_entry X choice el \<or>
    \<not> al_tableOnly el \<and> \<not> hit \<and> xa_controlPlaneName act = def))"
proof -
  have entry: "eval env (if al_defaultOnly el then BoolLiteral False else action_equality X t act) =
      Some (VBool (is_entry X choice el))"
    using action_equality_value [OF choice, of act] act by auto
  have "eval env (StringLiteral (xa_controlPlaneName act)) = Some (VStr (xa_controlPlaneName act))" by simp
  from Equ_value [OF assms(2) this]
  have "eval env (mk_Equ (SymbolicVariable (getDefaultActionVariable t)) (StringLiteral (xa_controlPlaneName act))) =
      Some (VBool (def = xa_controlPlaneName act))" by simp
  from LOr_value [OF entry LAnd_value [OF LNot_value [OF h] this]] entry show ?thesis
    by (auto simp: actionHitCondition_def Let_def)
qed

text \<open>Under the configuration that picks an action, exactly the conditions of that action hold.\<close>

lemma picks_conditions:
  assumes p: "picks K xt acts a vs hit"
    and h: "totalHitCondition (k_tools K) (xt_controlPlaneName xt) acts (BoolLiteral False) = Inr h0"
  defines "h \<equiv> mk_LAnd h0 (SymbolicVariable (getTableActive (it_symbols (k_tools K)) (xt_controlPlaneName xt)))"
  shows "eval (k_env K) h = Some (VBool hit)"
    and "el \<in> set acts \<Longrightarrow> action_of (k_tools K) el = Some act \<Longrightarrow>
      eval (k_env K) (actionHitCondition (k_tools K) (xt_controlPlaneName xt) h el act) =
        Some (VBool (al_controlPlaneName el = a))"
proof -
  let ?X = "k_tools K" and ?t = "xt_controlPlaneName xt"
  from p obtain active choice def where
    v: "eval (k_env K) (SymbolicVariable (getTableActive (it_symbols ?X) ?t)) = Some (VBool active)"
    "eval (k_env K) (SymbolicVariable (getTableActionChoice (it_symbols ?X) ?t)) = Some (VStr choice)"
    "eval (k_env K) (SymbolicVariable (getDefaultActionVariable ?t)) = Some (VStr def)"
    and inactive: "\<not> active \<longrightarrow> (\<forall>el \<in> set acts. \<not> is_entry ?X choice el)"
    and hit: "hit \<longleftrightarrow> active \<and> (\<exists>el \<in> set acts. is_entry ?X choice el)"
    and pick: "\<forall>el \<in> set acts. al_controlPlaneName el = a \<longleftrightarrow> (if hit then is_entry ?X choice el
        else \<not> al_tableOnly el \<and> map_option xa_controlPlaneName (action_of ?X el) = Some def)"
    unfolding picks_def Let_def by blast
  have f: "eval (k_env K) (BoolLiteral False) = Some (VBool False)" by simp
  show val: "eval (k_env K) h = Some (VBool hit)"
    using LAnd_value [OF totalHitCondition_sound(2) [OF h v(2) f] v(1)] by (auto simp: h_def hit conj_commute)
  assume el: "el \<in> set acts" and act: "action_of ?X el = Some act"
  from actionHitCondition_value [OF v(2,3) val act]
  have "eval (k_env K) (actionHitCondition ?X ?t h el act) = Some (VBool (is_entry ?X choice el \<or>
      \<not> al_tableOnly el \<and> \<not> hit \<and> xa_controlPlaneName act = def))" .
  moreover have "(is_entry ?X choice el \<or> \<not> al_tableOnly el \<and> \<not> hit \<and> xa_controlPlaneName act = def) =
      (al_controlPlaneName el = a)"
  proof (cases hit)
    case True
    with pick el show ?thesis by auto
  next
    case False
    then have "\<not> is_entry ?X choice el" using hit inactive el by blast
    with pick el act False show ?thesis by auto
  qed
  ultimately show "eval (k_env K) (actionHitCondition ?X ?t h el act) = Some (VBool (al_controlPlaneName el = a))"
    by simp
qed

lemma picks_arguments:
  assumes "picks K xt acts a vs hit"
  shows "el \<in> set acts \<Longrightarrow> al_controlPlaneName el = a \<Longrightarrow>
      \<exists>act. action_of (k_tools K) el = Some act \<and> configured_arguments K xt act = map Some vs"
    and "\<forall>el \<in> set acts. al_controlPlaneName el \<noteq> a \<Longrightarrow> a = getDefaultActionName xt \<and>
      (\<exists>n m ds args. xt_defaultAction xt = PCall n m ds args \<and>
         map (\<lambda>e. assign_or_return (as_expr e) (eval (k_env K))) args = map Some vs)"
  using assms unfolding picks_def Let_def by blast+

section \<open>Running the actions of a table\<close>

lemma process_actionE:
  assumes "process_actions X body t ref h (el # acts) (st, ar) = Inr r"
  obtains act st1 a g where "action_of X el = Some act"
    and "annotate_reachability X (al_node el) (actionHitCondition X t h el act) st = Inr st1"
    and "callAction X body act
      (createActionCallArguments X t (xa_controlPlaneName act) (xa_parameters act))
      (pushExecutionCondition (actionHitCondition X t h el act) ref, snd st1) = Inr (a, g)"
    and "process_actions X body t ref h acts ((es_merge X a (fst st1), g),
      produceSimplifiedMux (actionHitCondition X t h el act) (StringLiteral (al_controlPlaneName el)) ar) = Inr r"
  using assms by (auto simp: action_of_def option_simps Let_def)

lemma configured_exprs:
  assumes "symbols_ok (it_symbols (k_tools K))"
  obtains es where
    "createActionCallArguments (k_tools K) (xt_controlPlaneName xt) (xa_controlPlaneName act) (xa_parameters act) = map Argument es"
    and "args_typed act es" and "configured_arguments K xt act = map (eval (k_env K)) es"
proof -
  define f where "f = (\<lambda>parameter :: ActionParameter. if pp_type parameter = Type_Boolean
      then mk_Equ (SymbolicVariable (getTableActionArgument (it_symbols (k_tools K)) (xt_controlPlaneName xt) (xa_controlPlaneName act)
             (pp_controlPlaneName parameter) (Type_Bits 1 False))) (Constant (Type_Bits 1 False) 1)
      else SymbolicVariable (getTableActionArgument (it_symbols (k_tools K)) (xt_controlPlaneName xt) (xa_controlPlaneName act)
             (pp_controlPlaneName parameter) (pp_type parameter)))"
  show thesis
  proof (rule that [of "map f (xa_parameters act)"])
    show "createActionCallArguments (k_tools K) (xt_controlPlaneName xt) (xa_controlPlaneName act) (xa_parameters act) =
        map Argument (map f (xa_parameters act))" by (simp add: createActionCallArguments_def f_def)
    show "args_typed act (map f (xa_parameters act))"
      using assms by (auto simp: args_typed_def list_all2_conv_all_nth f_def symbols_ok_def typed_as_def mk_Equ_def)
    show "configured_arguments K xt act = map (eval (k_env K)) (map f (xa_parameters act))"
      by (simp add: configured_arguments_def createActionCallArguments_def f_def)
  qed
qed

lemma process_actions_condition:
  "process_actions X body t ref h acts (st, ar) = Inr (st', ar') \<Longrightarrow>
   es_executionCondition (fst st') = es_executionCondition (fst st)"
proof (induction acts arbitrary: st ar)
  case (Cons el acts)
  from Cons.prems obtain act st1 a g where *:
    "annotate_reachability X (al_node el) (actionHitCondition X t h el act) st = Inr st1"
    "process_actions X body t ref h acts ((es_merge X a (fst st1), g),
      produceSimplifiedMux (actionHitCondition X t h el act) (StringLiteral (al_controlPlaneName el)) ar) = Inr (st', ar')"
    by (rule process_actionE)
  from Cons.IH [OF *(2)] steps_to_condition [OF annotate_reachability_steps(1) [OF *(1)]] show ?case by simp
qed simp

lemma action_step:
  assumes act: "action_sound K (callAction (k_tools K) body)" and ref: "attends ref st"
    and "action_of (k_tools K) el = Some action"
    and n: "annotate_reachability (k_tools K) n c st = Inr st1"
    and run: "callAction (k_tools K) body action args (pushExecutionCondition c ref, snd st1) = Inr (a, g)"
  shows "steps_to (k_actionNodes K) st1 (es_merge (k_tools K) a (fst st1), g)"
    and "attends ref st1" and "attends ref (es_merge (k_tools K) a (fst st1), g)"
proof -
  show 1: "attends ref st1" by (rule attends_step [OF ref annotate_reachability_steps(1) [OF n]])
  have "steps_to (k_actionNodes K) (pushExecutionCondition c ref, snd st1) (a, g)"
    using action_soundD(1) [OF act _ run] assms(3) by (simp add: action_of_def)
  from attends_join [OF _ this, of ref "fst st1"] 1
  show 2: "steps_to (k_actionNodes K) st1 (es_merge (k_tools K) a (fst st1), g)" by simp
  show "attends ref (es_merge (k_tools K) a (fst st1), g)" by (rule attends_step [OF 1 2])
qed

lemma process_actions_steps:
  assumes act: "action_sound K (callAction (k_tools K) body)"
    and "attends ref st" and "process_actions (k_tools K) body t ref h acts (st, ar) = Inr (st', ar')"
  shows "steps_to (set (map al_node acts) \<union> k_actionNodes K) st st'"
  using assms(2,3)
proof (induction acts arbitrary: st ar)
  case (Cons el acts)
  from Cons.prems(2) obtain action st1 a g where *: "action_of (k_tools K) el = Some action"
    "annotate_reachability (k_tools K) (al_node el) (actionHitCondition (k_tools K) t h el action) st = Inr st1"
    "callAction (k_tools K) body action
      (createActionCallArguments (k_tools K) t (xa_controlPlaneName action) (xa_parameters action))
      (pushExecutionCondition (actionHitCondition (k_tools K) t h el action) ref, snd st1) = Inr (a, g)"
    "process_actions (k_tools K) body t ref h acts ((es_merge (k_tools K) a (fst st1), g),
      produceSimplifiedMux (actionHitCondition (k_tools K) t h el action) (StringLiteral (al_controlPlaneName el)) ar) = Inr (st', ar')"
    by (rule process_actionE)
  note s = action_step [OF act Cons.prems(1) *(1-3)]
  from steps_to_trans [OF steps_to_trans [OF annotate_reachability_steps(1) [OF *(2)] s(1)] Cons.IH [OF s(3) *(4)]]
  show ?case by (rule steps_to_mono) auto
qed auto

lemma process_actions_typed:
  fixes xt :: exec_table
  assumes agree: "agreement K" and act: "action_sound K (callAction (k_tools K) body)"
    and h: "typed_as h Type_Boolean" and ref: "\<And>g. env_ok K (k_scope K) (ref, g)"
    and "env_ok K (k_scope K) st" and "typed_as ar Type_String"
    and "process_actions (k_tools K) body (xt_controlPlaneName xt) ref h acts (st, ar) = Inr (st', ar')"
  shows "env_ok K (k_scope K) st' \<and> typed_as ar' Type_String"
  using assms(5-)
proof (induction acts arbitrary: st ar)
  case (Cons el acts)
  let ?X = "k_tools K" and ?t = "xt_controlPlaneName xt"
  from agree have laws: "env_laws ?X" and scope: "scope_ok K (k_scope K)" and sym: "symbols_ok (it_symbols ?X)"
    by (auto simp: agreement_def stores_agree_def scope_ok_def)
  from Cons.prems(3) obtain action st1 a g where *: "action_of ?X el = Some action"
    "annotate_reachability ?X (al_node el) (actionHitCondition ?X ?t h el action) st = Inr st1"
    "callAction ?X body action
      (createActionCallArguments ?X ?t (xa_controlPlaneName action) (xa_parameters action))
      (pushExecutionCondition (actionHitCondition ?X ?t h el action) ref, snd st1) = Inr (a, g)"
    "process_actions ?X body ?t ref h acts ((es_merge ?X a (fst st1), g),
      produceSimplifiedMux (actionHitCondition ?X ?t h el action) (StringLiteral (al_controlPlaneName el)) ar) = Inr (st', ar')"
    by (rule process_actionE)
  note c = actionHitCondition_typed [OF h, of ?X ?t el action]
  from sym obtain es where es: "createActionCallArguments ?X ?t (xa_controlPlaneName action) (xa_parameters action) = map Argument es"
    "args_typed action es" by (rule configured_exprs [of K xt action])
  have "env_ok K (k_scope K) (pushExecutionCondition (actionHitCondition ?X ?t h el action) ref, snd st1)"
    using ref pushed_typed [OF _ c, of ref] by (simp add: env_ok_def)
  then have a: "env_ok K (k_scope K) (a, g)"
    using action_soundD(2) [OF act _ *(3) scope es] *(1) by (simp add: action_of_def)
  note steps = annotate_reachability_steps [OF *(2)]
  have "env_ok K (k_scope K) st1" using same_env(1) [OF steps(2) steps_to_condition [OF steps(1)], of K] Cons.prems(1) by simp
  with merge_env_ok [OF laws _ a, of "fst st1" "snd st1"]
  have "env_ok K (k_scope K) (es_merge ?X a (fst st1), g)" by simp
  moreover have "typed_as (produceSimplifiedMux (actionHitCondition ?X ?t h el action) (StringLiteral (al_controlPlaneName el)) ar) Type_String"
    by (rule simplifiedMux_typed [OF c _ Cons.prems(2)]) simp
  ultimately show ?case using Cons.IH *(4) by blast
qed simp

text \<open>
  One of the actions run is the picked one, or none is and the state before has what the default action
  did: then the state after has what the picked action does.
\<close>

lemma process_actions_value:
  fixes xt :: exec_table
  assumes agree: "agreement K" and act: "action_sound K (callAction (k_tools K) body)"
    and h: "typed_as h Type_Boolean" and ref: "\<And>g. env_ok K (k_scope K) (ref, g)"
    and "env_ok K (k_scope K) st" and "typed_as ar Type_String"
    and d: "\<And>g. describes K (k_scope K) (ref, g) s" and r: "\<And>g. reached K (ref, g)"
    and effect: "run_action (k_language K) a [] vs s = Some s'"
    and "\<And>el action. el \<in> set acts \<Longrightarrow> action_of (k_tools K) el = Some action \<Longrightarrow>
      eval (k_env K) (actionHitCondition (k_tools K) (xt_controlPlaneName xt) h el action) = Some (VBool (al_controlPlaneName el = a))"
    and "\<And>el action. el \<in> set acts \<Longrightarrow> al_controlPlaneName el = a \<Longrightarrow> action_of (k_tools K) el = Some action \<Longrightarrow>
      configured_arguments K xt action = map Some vs \<and> action_runs K a action"
    and "sel \<Longrightarrow> describes K (k_scope K) st s' \<and> eval (k_env K) ar = Some (VStr a)"
    and "process_actions (k_tools K) body (xt_controlPlaneName xt) ref h acts (st, ar) = Inr (st', ar')"
    and "sel \<or> (\<exists>el \<in> set acts. al_controlPlaneName el = a)"
  shows "describes K (k_scope K) st' s' \<and> eval (k_env K) ar' = Some (VStr a)"
  using assms(5,6,10-)
proof (induction acts arbitrary: st ar sel)
  case (Cons el acts)
  let ?X = "k_tools K" and ?t = "xt_controlPlaneName xt"
  from agree have laws: "env_laws ?X" and scope: "scope_ok K (k_scope K)" and sym: "symbols_ok (it_symbols ?X)"
    by (auto simp: agreement_def stores_agree_def scope_ok_def)
  from Cons.prems(6) obtain action st1 b g where *: "action_of ?X el = Some action"
    "annotate_reachability ?X (al_node el) (actionHitCondition ?X ?t h el action) st = Inr st1"
    "callAction ?X body action
      (createActionCallArguments ?X ?t (xa_controlPlaneName action) (xa_parameters action))
      (pushExecutionCondition (actionHitCondition ?X ?t h el action) ref, snd st1) = Inr (b, g)"
    "process_actions ?X body ?t ref h acts ((es_merge ?X b (fst st1), g),
      produceSimplifiedMux (actionHitCondition ?X ?t h el action) (StringLiteral (al_controlPlaneName el)) ar) = Inr (st', ar')"
    by (rule process_actionE)
  let ?c = "actionHitCondition ?X ?t h el action" and ?p = "al_controlPlaneName el = a"
  note c = actionHitCondition_typed [OF h, of ?X ?t el action]
  have cv: "eval (k_env K) ?c = Some (VBool ?p)" using Cons.prems(3) *(1) by simp
  have call: "getP4Action ?X (al_expression el) = Some action" using *(1) by (simp add: action_of_def)
  obtain es where es: "createActionCallArguments ?X ?t (xa_controlPlaneName action) (xa_parameters action) = map Argument es"
    "args_typed action es" "configured_arguments K xt action = map (eval (k_env K)) es"
    by (rule configured_exprs [OF sym, of xt action])
  have start: "env_ok K (k_scope K) (pushExecutionCondition ?c ref, snd st1)"
    using ref pushed_typed [OF _ c, of ref] by (simp add: env_ok_def)
  have b: "env_ok K (k_scope K) (b, g)"
    by (rule action_soundD(2) [OF act call *(3) scope es(1,2) start])
  note steps = annotate_reachability_steps [OF *(2)]
  have st1: "env_ok K (k_scope K) st1" "describes K (k_scope K) st1 s' = describes K (k_scope K) st s'"
    using same_env(1) [OF steps(2) steps_to_condition [OF steps(1)], of K] same_env(2) [OF steps(2), of K] Cons.prems(1) by simp_all
  have pushed: "eval (k_env K) (getExecutionCondition (pushExecutionCondition ?c ref)) = Some (VBool ?p)"
    by (rule pushed_condition [OF _ cv]) (use r in \<open>simp add: reached_def\<close>)
  have cond: "eval (k_env K) (getExecutionCondition b) = Some (VBool ?p)"
    using steps_to_condition [OF action_soundD(1) [OF act call *(3)]] pushed by (simp add: getExecutionCondition_def)
  have effected: "describes K (k_scope K) (b, g) s'" if ?p
  proof -
    have e: "map (eval (k_env K)) es = map Some vs" "action_runs K a action"
      using Cons.prems(4) [OF _ that *(1)] es(3) by simp_all
    from e(2) effect obtain stopped where run: "run (k_language K) (xa_body action)
        (declare_all (k_language K) (zip (xa_parameters action) vs) s) = Some (s', stopped)"
      unfolding action_runs_def by blast
    have "describes K (k_scope K) (pushExecutionCondition ?c ref, snd st1) s" using d by (simp add: describes_def)
    moreover have "reached K (pushExecutionCondition ?c ref, snd st1)" using pushed that by (simp add: reached_def)
    ultimately show ?thesis
      using action_soundD(3) [OF act call *(3) scope es(1,2) start _ _ e(1) run] by blast
  qed
  let ?m = "(es_merge ?X b (fst st1), g)" and ?ar = "produceSimplifiedMux ?c (StringLiteral (al_controlPlaneName el)) ar"
  have m: "describes K (k_scope K) ?m s'" if "?p \<or> sel"
    by (rule merge_describes [where g = "snd st1", OF laws _ b cond]) (use st1 effected that Cons.prems(5) in auto)
  have arv: "eval (k_env K) ?ar = Some (VStr a)" if "?p \<or> sel"
    by (rule simplifiedMux_value [OF cv]) (use that Cons.prems(2,5) in \<open>auto simp: typed_asD\<close>)
  show ?case
  proof (rule Cons.IH [where sel = "?p \<or> sel", OF _ _ Cons.prems(3,4) _ *(4)])
    show "env_ok K (k_scope K) ?m" using merge_env_ok [OF laws _ b, of "fst st1" "snd st1"] st1(1) by simp
    show "typed_as ?ar Type_String" by (rule simplifiedMux_typed [OF c _ Cons.prems(2)]) simp
    show "describes K (k_scope K) ?m s' \<and> eval (k_env K) ?ar = Some (VStr a)" if "?p \<or> sel" using m arv that by simp
    show "(?p \<or> sel) \<or> (\<exists>el \<in> set acts. al_controlPlaneName el = a)" using Cons.prems(7) by auto
  qed simp_all
qed simp

lemma process_actions_monitored:
  assumes act: "action_sound K (callAction (k_tools K) body)"
    and "attends ref st" and "reached K st" and "fresh (set (map al_node acts)) st" and "distinct (map al_node acts)"
    and "set (map al_node acts) \<inter> k_actionNodes K = {}"
    and "agrees (set (map al_node acts)) st' RC SC"
    and "\<And>el action. el \<in> set acts \<Longrightarrow> action_of (k_tools K) el = Some action \<Longrightarrow>
      eval (k_env K) (actionHitCondition (k_tools K) t h el action) = Some (VBool (al_controlPlaneName el = a))"
    and "process_actions (k_tools K) body t ref h acts (st, ar) = Inr (st', ar')"
  shows "\<forall>el \<in> set acts. m_cond (monitor_of K RC SC) (al_node el) (al_controlPlaneName el = a)"
  using assms(2-)
proof (induction acts arbitrary: st ar)
  case (Cons el acts)
  let ?X = "k_tools K"
  from Cons.prems(8) obtain action st1 b g where *: "action_of ?X el = Some action"
    "annotate_reachability ?X (al_node el) (actionHitCondition ?X t h el action) st = Inr st1"
    "callAction ?X body action
      (createActionCallArguments ?X t (xa_controlPlaneName action) (xa_parameters action))
      (pushExecutionCondition (actionHitCondition ?X t h el action) ref, snd st1) = Inr (b, g)"
    "process_actions ?X body t ref h acts ((es_merge ?X b (fst st1), g),
      produceSimplifiedMux (actionHitCondition ?X t h el action) (StringLiteral (al_controlPlaneName el)) ar) = Inr (st', ar')"
    by (rule process_actionE)
  let ?c = "actionHitCondition ?X t h el action" and ?m = "(es_merge ?X b (fst st1), g)"
  note s = action_step [OF act Cons.prems(1) *(1-3)] and steps = annotate_reachability_steps [OF *(2)]
  have ok: "consistent st" using Cons.prems(1) by (simp add: attends_def)
  have m: "steps_to ({al_node el} \<union> k_actionNodes K) st ?m" by (rule steps_to_trans [OF steps(1) s(1)])
  have rest: "steps_to (set (map al_node acts) \<union> k_actionNodes K) ?m st'" by (rule process_actions_steps [OF act s(3) *(4)])
  have el: "al_node el \<notin> set (map al_node acts)" "al_node el \<notin> k_actionNodes K" using Cons.prems(4,5) by auto
  have "condition_at st1 (al_node el) = Some (mk_LAnd (getExecutionCondition (fst st)) ?c)"
    by (rule steps(4) [OF ok]) (use Cons.prems(3) in \<open>simp add: fresh_def\<close>)
  moreover have "condition_at ?m (al_node el) = condition_at st1 (al_node el)"
    by (rule steps_to_at(1) [OF s(1) steps_to_consistent [OF steps(1) ok] el(2)])
  moreover have "condition_at st' (al_node el) = condition_at ?m (al_node el)"
    by (rule steps_to_at(1) [OF rest steps_to_consistent [OF m ok]]) (use el in simp)
  moreover have "RC (al_node el) = condition_at st' (al_node el)" using Cons.prems(6) by (simp add: agrees_def)
  moreover have "eval (k_env K) (mk_LAnd (getExecutionCondition (fst st)) ?c) = Some (VBool (True \<and> al_controlPlaneName el = a))"
    by (rule LAnd_value) (use Cons.prems(2,7) *(1) in \<open>simp_all add: reached_def\<close>)
  ultimately have first: "m_cond (monitor_of K RC SC) (al_node el) (al_controlPlaneName el = a)"
    by (simp add: monitor_of_def)
  have "\<forall>el \<in> set acts. m_cond (monitor_of K RC SC) (al_node el) (al_controlPlaneName el = a)"
  proof (rule Cons.IH [OF s(3) _ _ _ _ _ Cons.prems(7) *(4)])
    show "reached K ?m" using steps_to_reached [OF m, of K] Cons.prems(2) by simp
    show "fresh (set (map al_node acts)) ?m"
      by (rule steps_to_fresh [OF m ok fresh_mono [OF Cons.prems(3)]]) (use el Cons.prems(5) in auto)
    show "agrees (set (map al_node acts)) st' RC SC" by (rule agrees_mono [OF Cons.prems(6)]) auto
  qed (use Cons.prems(4,5) in auto)
  with first show ?case by simp
qed simp

section \<open>Applying a table\<close>

definition table_actions :: "exec_table \<Rightarrow> ActionListElement list" where
  "table_actions xt = (case xt_actionList xt of None \<Rightarrow> [] | Some acts \<Rightarrow> acts)"

lemma resolveKey_quiet:
  assumes laws: "env_laws X" and keys: "\<forall>kf \<in> set key. call_free (kf_expression kf) \<and> set (enodes X (kf_expression kf)) \<subseteq> N"
    and run: "resolveKey X C key r = Inr (key', r')"
  shows "quiet X N (snd r) (snd r')"
proof (cases "filter (\<lambda>keyField. \<not> isSymbolicValue X (kf_expression keyField)) key = []")
  case True
  with run show ?thesis by (auto simp: resolveKey_def option_simps)
next
  case False
  with run have "in_order (\<lambda>keyField r. and_then (computeResult X C (kf_expression keyField) r) (\<lambda>(e, r).
      Inr (set_expression e keyField, r))) (filter (\<lambda>keyField. \<not> isSymbolicValue X (kf_expression keyField)) key) r = Inr (key', r')"
    by (auto simp: resolveKey_def)
  then have "quiet X (\<Union>kf \<in> set (filter (\<lambda>keyField. \<not> isSymbolicValue X (kf_expression keyField)) key). N) (snd r) (snd r')"
  proof (rule quiet_in_order [where f = snd, rotated])
    fix kf r0 v r1
    assume kf: "kf \<in> set (filter (\<lambda>keyField. \<not> isSymbolicValue X (kf_expression keyField)) key)"
      and v: "and_then (computeResult X C (kf_expression kf) r0) (\<lambda>(e, r). Inr (set_expression e kf, r)) = Inr (v, r1)"
    from v obtain e where "computeResult X C (kf_expression kf) r0 = Inr (e, r1)" by (auto simp: option_simps)
    from resolve_quiet [OF laws _ conjunct1 [OF computeD [OF this]]] kf keys
    have "quiet X (set (enodes X (kf_expression kf))) (snd r0) (snd r1)" by simp
    then show "quiet X N (snd r0) (snd r1)" by (rule quiet_mono) (use kf keys in simp)
  qed
  then show ?thesis by (rule quiet_mono) auto
qed

lemma store_key_match_store: "store_key_match X t keys g = Inr g' \<Longrightarrow> an_store g' = an_store g"
  by (auto simp: store_key_match_def option_simps split: option.splits prod.splits)

lemma default_actionE:
  assumes "processDefaultAction X body xt st = Inr st'"
  obtains n m ds args act es where "xt_defaultAction xt = PCall n m ds args"
    and "getP4Action X (xt_defaultAction xt) = Some act" and "all_some (map as_expr args) = Some es"
    and "callAction X body act (map Argument es) st = Inr st'"
  using assms by (auto simp: processDefaultAction_def option_simps split: pexp.splits)

text \<open>The conditions and results of the actions, whether the table has a list of actions or none.\<close>

lemma action_optionsE:
  assumes run: "processTableActionOptions (k_tools K) body xt ref (st, BoolLiteral False, ar) = Inr (st', h, ar')"
    and sym: "symbols_ok (it_symbols (k_tools K))"
  shows "process_actions (k_tools K) body (xt_controlPlaneName xt) ref h (table_actions xt) (st, ar) = Inr (st', ar')"
    and "typed_as h Type_Boolean"
    and "picks K xt (table_actions xt) a vs hit \<Longrightarrow> eval (k_env K) h = Some (VBool hit)"
    and "picks K xt (table_actions xt) a vs hit \<Longrightarrow> el \<in> set (table_actions xt) \<Longrightarrow> action_of (k_tools K) el = Some act \<Longrightarrow>
      eval (k_env K) (actionHitCondition (k_tools K) (xt_controlPlaneName xt) h el act) =
        Some (VBool (al_controlPlaneName el = a))"
proof -
  let ?X = "k_tools K" and ?t = "xt_controlPlaneName xt"
  have "process_actions ?X body ?t ref h (table_actions xt) (st, ar) = Inr (st', ar') \<and> typed_as h Type_Boolean \<and>
    (\<forall>a vs hit. picks K xt (table_actions xt) a vs hit \<longrightarrow> eval (k_env K) h = Some (VBool hit) \<and>
      (\<forall>el act. el \<in> set (table_actions xt) \<and> action_of ?X el = Some act \<longrightarrow>
        eval (k_env K) (actionHitCondition ?X ?t h el act) = Some (VBool (al_controlPlaneName el = a))))"
  proof (cases "xt_actionList xt")
    case None
    with run have "st' = st" "h = BoolLiteral False" "ar' = ar" by (simp_all add: processTableActionOptions_def Let_def)
    with None show ?thesis by (auto simp: table_actions_def picks_def Let_def)
  next
    case (Some acts)
    with run obtain h0 where h0: "totalHitCondition ?X ?t acts (BoolLiteral False) = Inr h0"
      "h = mk_LAnd h0 (SymbolicVariable (getTableActive (it_symbols ?X) ?t))"
      "process_actions ?X body ?t ref h acts (st, ar) = Inr (st', ar')"
      by (auto simp: processTableActionOptions_def option_simps Let_def)
    have "typed_as h Type_Boolean"
      using totalHitCondition_sound(1) [OF h0(1)] sym by (simp add: h0(2) symbols_ok_def)
    with h0(3) Some picks_conditions [OF _ h0(1), folded h0(2)] show ?thesis by (auto simp: table_actions_def)
  qed
  then show "process_actions ?X body ?t ref h (table_actions xt) (st, ar) = Inr (st', ar')"
    "typed_as h Type_Boolean"
    "picks K xt (table_actions xt) a vs hit \<Longrightarrow> eval (k_env K) h = Some (VBool hit)"
    "picks K xt (table_actions xt) a vs hit \<Longrightarrow> el \<in> set (table_actions xt) \<Longrightarrow> action_of ?X el = Some act \<Longrightarrow>
      eval (k_env K) (actionHitCondition ?X ?t h el act) = Some (VBool (al_controlPlaneName el = a))"
    by blast+
qed

lemma processTableE:
  assumes "processTable X C body xt r = Inr (v, r')"
  obtains r1 st st2 h ar g where "xt_key xt = None \<and> r1 = r \<or>
      (\<exists>key key'. xt_key xt = Some key \<and> resolveKey X C key r = Inr (key', r1))"
    and "processDefaultAction X body xt (snd r1) = Inr st"
    and "processTableActionOptions X body xt (fst (snd r1)) (st, BoolLiteral False, StringLiteral (getDefaultActionName xt)) = Inr (st2, h, ar)"
    and "an_store g = an_store (snd st2)" and "v = table_result xt h ar" and "r' = (fst r1, fst st2, g)"
proof -
  from assms [unfolded processTable_def Let_def and_then_Inr] obtain p where
    p: "(case xt_key xt of None \<Rightarrow> Inr ([], r) | Some key \<Rightarrow> and_then (resolveKey X C key r) (\<lambda>(key, r).
          and_then (computeHitCondition X (xt_controlPlaneName xt) (xt_controlPlaneName xt) key)
            (\<lambda>tableKeyMap. Inr (tableKeyMap, r)))) = Inr p"
    and q: "(case p of (tableKeyMap, result, st) \<Rightarrow> and_then (processDefaultAction X body xt st) (\<lambda>st'.
      and_then (processTableActionOptions X body xt (fst st) (st', BoolLiteral False, StringLiteral (getDefaultActionName xt)))
       (\<lambda>((s, g), totalHit, actionRun). and_then (store_key_match X (xt_controlPlaneName xt) tableKeyMap g) (\<lambda>g.
          Inr (table_result xt totalHit actionRun, result, s, g))))) = Inr (v, r')" by blast
  obtain keys r1 where pr: "p = (keys, r1)" by (cases p)
  from p have 1: "xt_key xt = None \<and> r1 = r \<or> (\<exists>key key'. xt_key xt = Some key \<and> resolveKey X C key r = Inr (key', r1))"
    by (auto simp: pr option_simps split: option.splits)
  from q obtain st st2 h ar g where "processDefaultAction X body xt (snd r1) = Inr st"
    "processTableActionOptions X body xt (fst (snd r1)) (st, BoolLiteral False, StringLiteral (getDefaultActionName xt)) = Inr (st2, h, ar)"
    "store_key_match X (xt_controlPlaneName xt) keys (snd st2) = Inr g" "v = table_result xt h ar" "r' = (fst r1, fst st2, g)"
    by (cases r1) (fastforce simp: pr option_simps)
  with store_key_match_store [of X "xt_controlPlaneName xt" keys "snd st2" g] 1 show thesis by (intro that) auto
qed

text \<open>The states of an execution are only looked at through their state and the store.\<close>

lemma same_store:
  assumes "an_store g = an_store (snd st)"
  shows "steps_to N st0 (fst st, g) = steps_to N st0 st" and "env_ok K V (fst st, g) = env_ok K V st"
    and "describes K V (fst st, g) s = describes K V st s" and "agrees N (fst st, g) RC SC = agrees N st RC SC"
  using assms by (simp_all add: steps_to_def env_ok_def describes_def agrees_def)

lemma processTable_simulates:
  assumes agree: "agreement K" and body: "body_sound K body"
    and m: "m = PMember n t (PPath n' t' x) ''apply''" and table: "findTable (k_tools K) m = Some xt"
    and matches: "table_matches xt td" and run: "processTable (k_tools K) C body xt r = Inr (v, r')"
  shows "simulates K (k_scope K) (table_nodes (k_tools K) m) [] False (snd r) (snd r') (typed_result v)
    (\<lambda>M s. run_table (k_language K) M x td s) (shows_result (k_env K) v)"
proof -
  let ?X = "k_tools K" and ?L = "k_language K" and ?acts = "table_actions xt" and ?A = "k_actionNodes K"
    and ?V = "k_scope K" and ?t = "xt_controlPlaneName xt" and ?name = "getDefaultActionName xt"
  from agree have laws: "env_laws ?X" and scope: "scope_ok K ?V" and sym: "symbols_ok (it_symbols ?X)"
    and tables: "tables_ok K" and picks: "picks_agree K"
    by (auto simp: agreement_def stores_agree_def scope_ok_def)
  note act = callAction_sound [OF agree body]
  from run obtain r1 st0 st2 h ar g where *: "xt_key xt = None \<and> r1 = r \<or>
      (\<exists>key key'. xt_key xt = Some key \<and> resolveKey ?X C key r = Inr (key', r1))"
    "processDefaultAction ?X body xt (snd r1) = Inr st0"
    "processTableActionOptions ?X body xt (fst (snd r1)) (st0, BoolLiteral False, StringLiteral ?name) = Inr (st2, h, ar)"
    "an_store g = an_store (snd st2)" "v = table_result xt h ar" "r' = (fst r1, fst st2, g)"
    by (rule processTableE)
  have nodes: "table_nodes ?X m = map al_node ?acts" and td: "td_actions td = map (\<lambda>el. (al_node el, al_controlPlaneName el)) ?acts"
    using table matches by (auto simp: table_nodes_def table_actions_def table_matches_def split: option.splits)
  have "quiet ?X ?A (snd r) (snd r1)"
    using *(1) resolveKey_quiet [OF laws] tables table unfolding tables_ok_def by (metis quiet_refl)
  note q = this quiet_env [OF this, of ?V]
  from *(2) obtain dn dm ds args act es where d: "xt_defaultAction xt = PCall dn dm ds args"
    "getP4Action ?X (xt_defaultAction xt) = Some act" "all_some (map as_expr args) = Some es"
    "callAction ?X body act (map Argument es) (snd r1) = Inr st0" by (rule default_actionE)
  have default: "action_runs K ?name act" "args_typed act es"
    using tables table d(1-3) unfolding tables_ok_def args_typed_def by blast+
  note opts = action_optionsE [OF *(3) sym]
  note ds = action_soundD [OF \<open>action_sound K (callAction ?X body)\<close> d(2,4)]
  have final: "snd r' = (fst st2, g)" by (simp add: *(6))
  note same = same_store [OF *(4)]
  have attends: "attends (fst (snd r1)) st0" if "consistent (snd r1)"
    using attends_step [OF _ ds(1)] attends_start [of "fst (snd r1)" "snd (snd r1)"] that by simp
  have steps: "steps_to (set (map al_node ?acts) \<union> ?A) (snd r1) (snd r')"
  proof (cases "consistent (snd r1)")
    case True
    from steps_to_trans [OF ds(1) process_actions_steps [OF act attends [OF True] opts(1)]]
    show ?thesis by (simp add: final same Un_commute Un_left_commute)
  next
    case False
    then show ?thesis
      using process_actions_condition [OF opts(1)] steps_to_condition [OF ds(1)] by (simp add: final steps_to_def)
  qed
  have key: "steps_to ?A (snd r) (snd r1)" using q(1) by (simp add: quiet_def)
  have all: "steps_to (set (map al_node ?acts) \<union> ?A) (snd r) (snd r')"
    by (rule steps_to_trans_in [OF steps_to_mono [OF key] steps]) simp
  have typed: "env_ok K ?V st0" "env_ok K ?V st2 \<and> typed_as ar Type_String" "\<And>g. env_ok K ?V (fst (snd r1), g)"
    if "env_ok K ?V (snd r)"
  proof -
    have r1: "env_ok K ?V (snd r1)" using q(2) that by blast
    then show st0: "env_ok K ?V st0" by (rule ds(2) [OF scope refl default(2)])
    show ref: "env_ok K ?V (fst (snd r1), g)" for g using r1 by (simp add: env_ok_def)
    show "env_ok K ?V st2 \<and> typed_as ar Type_String"
      by (rule process_actions_typed [OF agree act opts(2) ref st0 _ opts(1)]) simp
  qed
  have dynamic: "describes K ?V (snd r') s' \<and> shows_result (k_env K) v w \<and>
      (\<forall>RC SC. observed K (map al_node ?acts) [] (snd r) (snd r') RC SC \<longrightarrow> run_table ?L (monitor_of K RC SC) x td s = Some (w, s'))"
    if ok: "env_ok K ?V (snd r)" "describes K ?V (snd r) s" "reached K (snd r)" and w: "run_table ?L no_monitor x td s = Some (w, s')"
    for s w s'
  proof -
    from w obtain a vs hit where pick: "l_pick ?L x s = Some (a, vs, hit)" and effect: "run_action ?L a [] vs s = Some s'"
      and res: "w = apply_result a hit" by (auto simp: run_table_def no_monitor_def split: option.splits if_splits)
    have p: "picks K xt ?acts a vs hit"
      using picks table pick unfolding picks_agree_def table_actions_def m by blast
    have ref: "describes K ?V (fst (snd r1), g) s" "reached K (fst (snd r1), g)" for g
      using q(2) ok(2,3) steps_to_reached [OF key, of K] by (auto simp: describes_def reached_def)
    have sel: "describes K ?V st0 s' \<and> eval (k_env K) (StringLiteral ?name) = Some (VStr a)"
      if none: "\<forall>el \<in> set ?acts. al_controlPlaneName el \<noteq> a"
    proof -
      from picks_arguments(2) [OF p none] d(1) have a: "a = ?name"
        "map (\<lambda>e. assign_or_return (as_expr e) (eval (k_env K))) args = map Some vs" by auto
      from d(3) have "map as_expr args = map Some es" by (simp add: option_simps)
      then have "map (\<lambda>e. assign_or_return (as_expr e) (eval (k_env K))) args = map (eval (k_env K)) es"
        by (induction args arbitrary: es) (auto simp: map_eq_Cons_conv)
      with a(2) have es: "map (eval (k_env K)) es = map Some vs" by simp
      from default(1) effect a(1) obtain stopped where
        r: "run ?L (xa_body act) (declare_all ?L (zip (xa_parameters act) vs) s) = Some (s', stopped)"
        unfolding action_runs_def by blast
      have "env_ok K ?V (snd r1)" using q(2) ok(1) by blast
      from ds(3) [OF scope refl default(2) this _ _ es r] ref [of "snd (snd r1)"] show ?thesis by (simp add: a(1))
    qed
    have chosen: "configured_arguments K xt action = map Some vs \<and> action_runs K a action"
      if "el \<in> set ?acts" "al_controlPlaneName el = a" "action_of ?X el = Some action" for el action
    proof -
      from picks_arguments(1) [OF p that(1,2)] that(3) have "configured_arguments K xt action = map Some vs" by auto
      moreover have "xt_actionList xt = Some ?acts" using that(1) by (cases "xt_actionList xt") (auto simp: table_actions_def)
      then have "action_runs K (al_controlPlaneName el) action"
        using tables table that(1,3) unfolding tables_ok_def by blast
      ultimately show ?thesis by (simp add: that(2))
    qed
    note cond = opts(4) [OF p]
    have "describes K ?V st2 s' \<and> eval (k_env K) ar = Some (VStr a)"
      by (rule process_actions_value [OF agree act opts(2) typed(3) [OF ok(1)] typed(1) [OF ok(1)] _ ref effect cond chosen sel opts(1)])
        auto
    then have "describes K ?V (snd r') s'" "shows_result (k_env K) v w"
      using opts(3) [OF p] by (auto simp: final same shows_result_def *(5) table_result_def res)
    moreover have "run_table ?L (monitor_of K RC SC) x td s = Some (w, s')"
      if o: "observed K (map al_node ?acts) [] (snd r) (snd r') RC SC" for RC SC
    proof -
      have disj: "?A \<inter> set (map al_node ?acts) = {}" using o by (auto simp: observed_def)
      note cons = steps_to_consistent [OF key observedD(1) [OF o]]
      have st0: "steps_to ?A (snd r) st0" by (rule steps_to_trans_in [OF key ds(1)])
      have "\<forall>el \<in> set ?acts. m_cond (monitor_of K RC SC) (al_node el) (al_controlPlaneName el = a)"
      proof (rule process_actions_monitored [OF act attends [OF cons] _ _ _ _ _ cond opts(1)])
        show "reached K st0" using steps_to_reached [OF st0, of K] ok(3) by simp
        show "fresh (set (map al_node ?acts)) st0"
          by (rule steps_to_fresh [OF st0 observedD(1,2) [OF o] disj])
        show "agrees (set (map al_node ?acts)) st2 RC SC" using observedD(3) [OF o] by (simp add: final same)
      qed (use o in \<open>auto simp: observed_def\<close>)
      with pick effect res show ?thesis by (auto simp: run_table_def td)
    qed
    ultimately show ?thesis by blast
  qed
  show ?thesis
    unfolding nodes
  proof (rule simulatesI [OF all])
    show "env_ok K ?V (snd r') \<and> typed_result v" if "env_ok K ?V (snd r)"
      using typed(2) [OF that] opts(2) by (auto simp: final same *(5) table_result_def typed_result_def)
  qed (use dynamic in blast)+
qed

lemma processTable_sound:
  assumes "agreement K" and "body_sound K body" and "cb_processTable D = processTable (k_tools K) C body"
  shows "tables_sound K D"
  unfolding tables_sound_def assms(3) using processTable_simulates [OF assms(1,2) refl] by blast

end
