(* ===== verification/CloneSoundness.thy ===== *)
theory CloneSoundness
  imports TableSoundness
begin

text \<open>
  Clones of a state that run one after the other while their original waits, and are merged in the end:
  the branches of a conditional statement, the cases of a switch. What is found at a node after all
  merges is what the first state that passed the node left there.
\<close>

declare split_paired_All [simp del] split_paired_Ex [simp del]

section \<open>Annotations after all merges\<close>

definition joint :: "('e, 'z) interpreter \<Rightarrow> 'e ExecutionState list \<Rightarrow> ('e, 'z) exec_state \<Rightarrow> ('e, 'z) exec_state" where
  "joint X cl st = (fold (es_merge X) cl (fst st), snd st)"

definition clones_ok :: "'e ExecutionState list \<Rightarrow> ('e, 'z) exec_state \<Rightarrow> bool" where
  "clones_ok cl st \<longleftrightarrow> consistent st \<and> (\<forall>a \<in> set cl. consistent (a, snd st))"

lemma joint_Nil [simp]: "joint X [] st = st"
  by (simp add: joint_def)

lemma joint_store [simp]: "snd (joint X cl st) = snd st"
  by (simp add: joint_def)

lemma joint_snoc: "joint X (cl @ [a]) (s, g) = (es_merge X a (fst (joint X cl (s, g'))), g)"
  by (simp add: joint_def)

lemma joint_consistent: "clones_ok cl st \<Longrightarrow> consistent (joint X cl st)"
proof (induction cl rule: rev_induct)
  case (snoc a cl)
  obtain s g where st: "st = (s, g)" by (cases st)
  have "consistent (fst (joint X cl (s, g)), g)" using snoc by (simp add: clones_ok_def st joint_def)
  moreover have "consistent (a, g)" using snoc.prems by (simp add: clones_ok_def st)
  ultimately show ?case by (simp add: st joint_snoc [of X cl a s g g] merge_at(3))
qed (simp add: clones_ok_def)

lemma joint_at:
  assumes "clones_ok (cl @ [a]) (s, g)"
  shows "condition_at (joint X (cl @ [a]) (s, g)) n =
      (case condition_at (joint X cl (s, g)) n of Some c \<Rightarrow> Some c | None \<Rightarrow> condition_at (a, g) n)"
    and "value_at (joint X (cl @ [a]) (s, g)) n =
      (case value_at (joint X cl (s, g)) n of Some e \<Rightarrow> Some e | None \<Rightarrow> value_at (a, g) n)"
proof -
  have "clones_ok cl (s, g)" "consistent (a, g)" using assms by (auto simp: clones_ok_def)
  with joint_consistent [of cl "(s, g)" X] have "consistent (a, g)" "consistent (fst (joint X cl (s, g)), g)"
    by (simp_all add: joint_def)
  note m = merge_at [OF this]
  show "condition_at (joint X (cl @ [a]) (s, g)) n =
      (case condition_at (joint X cl (s, g)) n of Some c \<Rightarrow> Some c | None \<Rightarrow> condition_at (a, g) n)"
    using m(1) [of X n] by (simp add: joint_def)
  show "value_at (joint X (cl @ [a]) (s, g)) n =
      (case value_at (joint X cl (s, g)) n of Some e \<Rightarrow> Some e | None \<Rightarrow> value_at (a, g) n)"
    using m(2) [of X g n] by (simp add: joint_def)
qed

lemma fresh_joint:
  assumes "clones_ok cl st"
  shows "fresh N (joint X cl st) \<longleftrightarrow> fresh N st \<and> (\<forall>a \<in> set cl. fresh N (a, snd st))"
  using assms
proof (induction cl rule: rev_induct)
  case (snoc a cl)
  obtain s g where st: "st = (s, g)" by (cases st)
  have "clones_ok cl st" using snoc.prems by (auto simp: clones_ok_def)
  note IH = snoc.IH [OF this, unfolded st]
  have "fresh N (joint X (cl @ [a]) (s, g)) \<longleftrightarrow> fresh N (joint X cl (s, g)) \<and> fresh N (a, g)"
    using joint_at [OF snoc.prems [unfolded st], of X] unfolding fresh_def by (auto split: option.splits)
  with IH show ?case by (auto simp: st)
qed simp

text \<open>The store has grown by what another state did: the joint annotations at other nodes stay.\<close>

lemma joint_grows:
  assumes run: "steps_to N (p, g) (a, g')" and "consistent (p, g)" and "clones_ok cl (s, g)"
  shows "clones_ok cl (s, g')"
    and "n \<notin> N \<Longrightarrow> condition_at (joint X cl (s, g')) n = condition_at (joint X cl (s, g)) n"
    and "value_at (joint X cl (s, g')) n = value_at (joint X cl (s, g)) n"
    and "fresh M (joint X cl (s, g)) \<Longrightarrow> fresh M (joint X cl (s, g'))"
proof -
  show ok: "clones_ok cl (s, g')"
    using assms(3) bystander(1) [OF run assms(2)] by (auto simp: clones_ok_def)
  have "consistent (fst (joint X cl (s, g)), g)" using joint_consistent [OF assms(3), of X] by (simp add: joint_def)
  note b = bystander(2) [OF run assms(2) this]
  show "n \<notin> N \<Longrightarrow> condition_at (joint X cl (s, g')) n = condition_at (joint X cl (s, g)) n"
    using b by (simp add: joint_def)
  show v: "value_at (joint X cl (s, g')) n = value_at (joint X cl (s, g)) n" for n by (simp add: joint_def)
  show "fresh M (joint X cl (s, g)) \<Longrightarrow> fresh M (joint X cl (s, g'))"
    by (simp add: fresh_def joint_def stored_condition_def)
qed

section \<open>Running a clone\<close>

lemma clone_run:
  assumes ok: "clones_ok cl (s, g)" and run: "steps_to N (p, g) (a, g')"
    and p: "es_nodeAnnotationMap p = es_nodeAnnotationMap s"
  shows "clones_ok (cl @ [a]) (s, g')" and "consistent (p, g)"
    and "n \<notin> N \<Longrightarrow> condition_at (joint X (cl @ [a]) (s, g')) n = condition_at (joint X cl (s, g)) n \<and>
      value_at (joint X (cl @ [a]) (s, g')) n = value_at (joint X cl (s, g)) n"
    and "fresh M (joint X cl (s, g)) \<Longrightarrow> n \<in> M \<Longrightarrow>
      condition_at (joint X (cl @ [a]) (s, g')) n = condition_at (a, g') n \<and>
      value_at (joint X (cl @ [a]) (s, g')) n = value_at (a, g') n"
proof -
  show pc: "consistent (p, g)" using ok p by (simp add: clones_ok_def consistent_def)
  note j = joint_grows [OF run pc ok]
  show ok': "clones_ok (cl @ [a]) (s, g')"
    using j(1) steps_to_consistent [OF run pc] by (auto simp: clones_ok_def)
  note at = joint_at [OF ok', of X]
  show "condition_at (joint X (cl @ [a]) (s, g')) n = condition_at (joint X cl (s, g)) n \<and>
      value_at (joint X (cl @ [a]) (s, g')) n = value_at (joint X cl (s, g)) n" if n: "n \<notin> N"
  proof -
    have a: "condition_at (a, g') n = condition_at (s, g) n" "value_at (a, g') n = value_at (s, g) n"
      using steps_to_at [OF run pc n] p by (simp_all add: stored_condition_def)
    have none: "condition_at (joint X cl (s, g)) n = None \<Longrightarrow> condition_at (s, g) n = None"
      "value_at (joint X cl (s, g)) n = None \<Longrightarrow> value_at (s, g) n = None"
    proof -
      have "condition_at (joint X cl (s, g)) n = None \<longrightarrow> condition_at (s, g) n = None"
        "value_at (joint X cl (s, g)) n = None \<longrightarrow> value_at (s, g) n = None"
        using ok
      proof (induction cl rule: rev_induct)
        case (snoc b cl)
        {
          case 1
          with snoc show ?case using joint_at(1) [OF 1, of X n] by (auto simp: clones_ok_def split: option.splits)
        next
          case 2
          with snoc show ?case using joint_at(2) [OF 2, of X n] by (auto simp: clones_ok_def split: option.splits)
        }
      qed simp_all
      then show "condition_at (joint X cl (s, g)) n = None \<Longrightarrow> condition_at (s, g) n = None"
        "value_at (joint X cl (s, g)) n = None \<Longrightarrow> value_at (s, g) n = None" by blast+
    qed
    show ?thesis using at(1) [of n] at(2) [of n] j(2) [OF n, of X] j(3) [of X n] a none by (auto split: option.splits)
  qed
  show "condition_at (joint X (cl @ [a]) (s, g')) n = condition_at (a, g') n \<and>
      value_at (joint X (cl @ [a]) (s, g')) n = value_at (a, g') n" if "fresh M (joint X cl (s, g))" "n \<in> M"
    using at(1) [of n] at(2) [of n] j(4) [OF that(1)] that(2) by (auto simp: fresh_def split: option.splits)
qed

lemma clone_observed:
  assumes ok: "clones_ok cl (s, g)" and run: "steps_to N' (p, g) (a, g')"
    and p: "es_nodeAnnotationMap p = es_nodeAnnotationMap s"
    and fresh: "fresh (set N) (joint X cl (s, g))" and "agrees (set N) (joint X (cl @ [a]) (s, g')) RC SC"
    and "distinct N" and "set N \<inter> k_actionNodes K = {}" and "\<forall>n \<in> set B. SC n = None"
  shows "observed K N B (p, g) (a, g') RC SC"
proof -
  note c = clone_run [OF ok run p]
  have "fresh (set N) (s, g)" using fresh fresh_joint [OF ok] by blast
  then have "fresh (set N) (p, g)" using p by (simp add: fresh_def)
  moreover have "agrees (set N) (a, g') RC SC"
    using assms(5) c(4) [OF fresh] by (auto simp: agrees_def)
  ultimately show ?thesis using assms(6-8) c(2) by (simp add: observed_def)
qed

section \<open>Running the original\<close>

lemma original_run:
  assumes ok: "clones_ok cl (s, g)" and run: "steps_to N (s, g) (s', g')"
  shows "clones_ok cl (s', g')"
    and "n \<notin> N \<Longrightarrow> condition_at (joint X cl (s', g')) n = condition_at (joint X cl (s, g)) n \<and>
      value_at (joint X cl (s', g')) n = value_at (joint X cl (s, g)) n"
    and "fresh M (joint X cl (s, g)) \<Longrightarrow> n \<in> M \<Longrightarrow>
      condition_at (joint X cl (s', g')) n = condition_at (s', g') n \<and>
      value_at (joint X cl (s', g')) n = value_at (s', g') n"
proof -
  have s: "consistent (s, g)" using ok by (simp add: clones_ok_def)
  show "clones_ok cl (s', g')"
    using joint_grows(1) [OF run s ok] steps_to_consistent [OF run s] by (simp add: clones_ok_def)
  have "n \<notin> N \<longrightarrow> condition_at (joint X cl (s', g')) n = condition_at (joint X cl (s, g)) n \<and>
      value_at (joint X cl (s', g')) n = value_at (joint X cl (s, g)) n"
    "fresh M (joint X cl (s, g)) \<and> n \<in> M \<longrightarrow>
      condition_at (joint X cl (s', g')) n = condition_at (s', g') n \<and>
      value_at (joint X cl (s', g')) n = value_at (s', g') n"
    using ok
  proof (induction cl rule: rev_induct)
    case Nil
    {
      case 1
      then show ?case using steps_to_at [OF run s] by simp
    next
      case 2
      then show ?case by simp
    }
  next
    case (snoc a cl)
    {
      case 1
      then have ok: "clones_ok cl (s, g)" and a: "consistent (a, g)" by (auto simp: clones_ok_def)
      have ok': "clones_ok (cl @ [a]) (s', g')"
        using joint_grows(1) [OF run s 1] steps_to_consistent [OF run s] by (simp add: clones_ok_def)
      show ?case
        using joint_at [OF 1, of X n] joint_at [OF ok', of X n] snoc(1) [OF ok] bystander(2) [OF run s a]
        by (auto split: option.splits)
    next
      case 2
      then have ok: "clones_ok cl (s, g)" by (auto simp: clones_ok_def)
      have ok': "clones_ok (cl @ [a]) (s', g')"
        using joint_grows(1) [OF run s 2] steps_to_consistent [OF run s] by (simp add: clones_ok_def)
      have "fresh M (joint X (cl @ [a]) (s, g)) \<Longrightarrow> fresh M (joint X cl (s, g)) \<and> fresh M (a, g)"
        using fresh_joint [OF 2, of M X] fresh_joint [OF ok, of M X] by auto
      then show ?case
        using joint_at [OF ok', of X n] snoc(2) [OF ok]
        by (auto simp: fresh_def stored_condition_def split: option.splits)
    }
  qed
  then show "n \<notin> N \<Longrightarrow> condition_at (joint X cl (s', g')) n = condition_at (joint X cl (s, g)) n \<and>
      value_at (joint X cl (s', g')) n = value_at (joint X cl (s, g)) n"
    "fresh M (joint X cl (s, g)) \<Longrightarrow> n \<in> M \<Longrightarrow>
      condition_at (joint X cl (s', g')) n = condition_at (s', g') n \<and>
      value_at (joint X cl (s', g')) n = value_at (s', g') n" by blast+
qed

lemma original_observed:
  assumes ok: "clones_ok cl (s, g)" and run: "steps_to N' (s, g) (s', g')"
    and fresh: "fresh (set N) (joint X cl (s, g))" and "agrees (set N) (joint X cl (s', g')) RC SC"
    and "distinct N" and "set N \<inter> k_actionNodes K = {}" and "\<forall>n \<in> set B. SC n = None"
  shows "observed K N B (s, g) (s', g') RC SC"
proof -
  have "fresh (set N) (s, g)" using fresh fresh_joint [OF ok] by blast
  moreover have "agrees (set N) (s', g') RC SC"
    using assms(4) original_run(3) [OF ok run fresh] by (auto simp: agrees_def)
  ultimately show ?thesis using assms(5-7) ok by (simp add: observed_def clones_ok_def)
qed

section \<open>Where the runs lead\<close>

definition spawned :: "node set \<Rightarrow> ('e, 'z) exec_state \<Rightarrow> 'e ExecutionState list \<Rightarrow> ('e, 'z) exec_state \<Rightarrow> bool" where
  "spawned N st0 cl st \<longleftrightarrow>
     (consistent st0 \<longrightarrow> evolves N (store_of st0) (annotations_of st0) (store_of st)
        (insert (annotations_of st) (es_nodeAnnotationMap ` set cl))) \<and>
     es_executionCondition (fst st) = es_executionCondition (fst st0)"

lemma spawned_start: "steps_to N st0 st \<Longrightarrow> spawned N st0 [] st"
  by (simp add: spawned_def steps_to_def)

lemma spawned_mono: "spawned N st0 cl st \<Longrightarrow> N \<subseteq> N' \<Longrightarrow> spawned N' st0 cl st"
  unfolding spawned_def using evolves_mono by blast

lemma spawned_ok: "spawned N st0 cl st \<Longrightarrow> consistent st0 \<Longrightarrow> clones_ok cl st"
  by (auto simp: spawned_def evolves_def clones_ok_def consistent_def)

lemma spawned_clone:
  assumes "spawned N st0 cl (s, g)" and run: "steps_to N' (p, g) (a, g')"
    and p: "es_nodeAnnotationMap p = es_nodeAnnotationMap s"
  shows "spawned (N \<union> N') st0 (cl @ [a]) (s, g')"
proof -
  have "evolves (N \<union> N') (store_of st0) (annotations_of st0) (an_store g')
      ({es_nodeAnnotationMap a} \<union> insert (es_nodeAnnotationMap s) (es_nodeAnnotationMap ` set cl))" if c: "consistent st0"
  proof (rule evolves_compose)
    show "evolves N (store_of st0) (annotations_of st0) (an_store g) (insert (es_nodeAnnotationMap s) (es_nodeAnnotationMap ` set cl))"
      using assms(1) c by (simp add: spawned_def)
    have "consistent (p, g)" using spawned_ok [OF assms(1) c] p by (simp add: clones_ok_def consistent_def)
    with run p show "evolves N' (an_store g) (es_nodeAnnotationMap s) (an_store g') {es_nodeAnnotationMap a}"
      by (simp add: steps_to_def)
  qed simp
  then show ?thesis using assms(1) by (simp add: spawned_def insert_commute)
qed

lemma spawned_original:
  assumes "spawned N st0 cl (s, g)" and run: "steps_to N' (s, g) (s', g')"
  shows "spawned (N \<union> N') st0 cl (s', g')"
proof -
  let ?M = "insert (es_nodeAnnotationMap s) (es_nodeAnnotationMap ` set cl)"
    and ?M' = "insert (es_nodeAnnotationMap s') (es_nodeAnnotationMap ` set cl)"
  have "evolves (N \<union> N') (store_of st0) (annotations_of st0) (an_store g') ?M'" if c: "consistent st0"
  proof (rule evolves_drop)
    have "consistent (s, g)" using spawned_ok [OF assms(1) c] by (simp add: clones_ok_def)
    with run have run': "evolves N' (an_store g) (es_nodeAnnotationMap s) (an_store g') {es_nodeAnnotationMap s'}"
      by (simp add: steps_to_def)
    show "evolves (N \<union> N') (store_of st0) (annotations_of st0) (an_store g') ({es_nodeAnnotationMap s'} \<union> ?M)"
      by (rule evolves_compose [OF _ _ run']) (use assms(1) c in \<open>simp_all add: spawned_def\<close>)
    have "extends N' (es_nodeAnnotationMap s) (es_nodeAnnotationMap s')" using run' by (simp add: evolves_def)
    then show "\<exists>m2 \<in> ?M'. registered m2 n x" if "m1 \<in> {es_nodeAnnotationMap s'} \<union> ?M" "registered m1 n x" for m1 n x
      using that by (auto simp: extends_def)
  qed auto
  then show ?thesis using assms(1) run by (simp add: spawned_def steps_to_def)
qed

lemma spawned_join:
  assumes "spawned N st0 cl st"
  shows "steps_to N st0 (joint X cl st)"
  using assms
proof (induction cl arbitrary: st)
  case Nil
  then show ?case by (simp add: spawned_def steps_to_def)
next
  case (Cons a cl)
  obtain s g where st: "st = (s, g)" by (cases st)
  let ?M = "insert (es_nodeAnnotationMap s) (es_nodeAnnotationMap ` set (a # cl))"
    and ?m = "shared_mergeAnnotationMapping (es_nodeAnnotationMap a) (es_nodeAnnotationMap s)"
  have "evolves N (store_of st0) (annotations_of st0) (an_store g) (insert ?m (es_nodeAnnotationMap ` set cl))"
    if c: "consistent st0"
  proof (rule evolves_drop)
    have e: "evolves N (store_of st0) (annotations_of st0) (an_store g) ?M"
      using Cons.prems c by (simp add: spawned_def st)
    from evolves_merge [OF this] show "evolves N (store_of st0) (annotations_of st0) (an_store g) (insert ?m ?M)" by simp
    have "store_ok (an_store g) (es_nodeAnnotationMap a)" "store_ok (an_store g) (es_nodeAnnotationMap s)"
      using e by (simp_all add: evolves_def)
    note m = merged_annotations(3) [OF this]
    show "\<exists>m2 \<in> insert ?m (es_nodeAnnotationMap ` set cl). registered m2 n x"
      if "m1 \<in> insert ?m ?M" "registered m1 n x" for m1 n x using that m by auto
  qed auto
  then have "spawned N st0 cl (es_merge X a s, g)" using Cons.prems by (simp add: spawned_def st)
  from Cons.IH [OF this] show ?case by (simp add: st joint_def)
qed

section \<open>Values after all merges\<close>

text \<open>Each clone says by its condition whether it is the one that describes the state.\<close>

lemma joint_env_ok:
  assumes laws: "env_laws (k_tools K)" and "env_ok K V st" and "\<And>a g. a \<in> set cl \<Longrightarrow> env_ok K V (a, g)"
  shows "env_ok K V (joint (k_tools K) cl st)"
  using assms(2,3)
proof (induction cl arbitrary: st)
  case (Cons a cl)
  have "env_ok K V (es_merge (k_tools K) a (fst st), snd st)"
    by (rule merge_env_ok [where g = "snd st", OF laws _ Cons.prems(2)]) (use Cons.prems(1) in auto)
  from Cons.IH [OF this] Cons.prems(2) show ?case by (simp add: joint_def)
qed simp

lemma joint_describes:
  assumes laws: "env_laws (k_tools K)" and "list_all2 (\<lambda>a b. eval (k_env K) (getExecutionCondition a) = Some (VBool b)) cl bs"
    and "\<And>a g. a \<in> set cl \<Longrightarrow> env_ok K V (a, g)" and "\<And>a g. (a, True) \<in> set (zip cl bs) \<Longrightarrow> describes K V (a, g) u"
    and "env_ok K V st" and "True \<in> set bs \<or> describes K V st u"
  shows "describes K V (joint (k_tools K) cl st) u"
proof -
  have "describes K V (joint (k_tools K) cl st) u"
    if "describes K V st u \<or> True \<in> set bs" using assms(2-5) that
  proof (induction cl bs arbitrary: st rule: list_all2_induct)
    case (Cons a cl b bs)
    let ?st = "(es_merge (k_tools K) a (fst st), snd st)"
    have a: "env_ok K V (a, g)" for g using Cons.prems(1) by simp
    have ok: "env_ok K V ?st" by (rule merge_env_ok [where g = "snd st", OF laws _ a]) (use Cons.prems(3) in simp)
    have "describes K V ?st u" if "b \<or> describes K V st u"
      by (rule merge_describes [where g = "snd st", OF laws _ a Cons.hyps(1)])
        (use Cons.prems(2,3) that in auto)
    moreover have "describes K V (joint (k_tools K) cl ?st) u" if "describes K V ?st u \<or> True \<in> set bs"
      by (rule Cons.IH [OF _ _ ok that]) (use Cons.prems(1,2) in auto)
    ultimately have "describes K V (joint (k_tools K) cl ?st) u" using Cons.prems(4) by auto
    then show ?case by (simp add: joint_def)
  qed simp
  with assms(6) show ?thesis by blast
qed

end
