(* ===== verification/BranchSoundness.thy ===== *)
theory BranchSoundness
  imports CloneSoundness
begin

text \<open>
  Soundness of the parts of the stepper: sequences, assignments, conditional statements and the cases
  of a switch, given that the statements in them are stepped soundly. A branch runs in a clone under
  the condition that the execution takes it; what the other branches do to their clones does not matter.
\<close>

declare split_paired_All [simp del] split_paired_Ex [simp del]

section \<open>Sequences\<close>

definition runs_list :: "'s p4_language \<Rightarrow> stmt list \<Rightarrow> monitor \<Rightarrow> 's \<Rightarrow> (bool \<times> 's) option" where
  "runs_list L xs M s = (case exec_list L M xs s of None \<Rightarrow> None | Some (s', b) \<Rightarrow> Some (b, s'))"

lemma runs_list_Cons:
  "runs_list L (x # xs) M s =
     (case runs L x M s of None \<Rightarrow> None | Some (b, s') \<Rightarrow> if b then Some (True, s') else runs_list L xs M s')"
  by (auto simp: runs_list_def runs_def split: option.splits prod.splits)

definition steps_sound ::
  "('e, 'z, 's) setting \<Rightarrow> StateVariable set \<Rightarrow> (stmt \<Rightarrow> ('e, 'z) exec_state \<Rightarrow> ('e, 'z) exec_state result) \<Rightarrow> stmt \<Rightarrow> bool" where
  "steps_sound K V body x \<longleftrightarrow> (\<forall>st st'. body x st = Inr st' \<longrightarrow>
     simulates K V (snodes (k_tools K) x) (sbases x) False st st' True (runs (k_language K) x) (\<lambda>b. \<not> b))"

abbreviation block_nodes :: "('e, 'z) interpreter \<Rightarrow> stmt list \<Rightarrow> node list" where
  "block_nodes X xs \<equiv> concat (map (snodes X) xs)"

abbreviation block_bases :: "stmt list \<Rightarrow> node list" where
  "block_bases xs \<equiv> concat (map sbases xs)"

lemma run_all_simulates:
  assumes "\<forall>x \<in> set xs. steps_sound K V body x" and "run_all body xs st = Inr st'"
  shows "simulates K V (block_nodes (k_tools K) xs) (block_bases xs) False st st' True (runs_list (k_language K) xs) (\<lambda>b. \<not> b)"
  using assms
proof (induction xs arbitrary: st)
  case Nil
  then show ?case by (auto simp: runs_list_def intro: simulates_skip)
next
  case (Cons x xs)
  from Cons.prems(2) obtain st1 where s: "body x st = Inr st1" "run_all body xs st1 = Inr st'"
    by (auto simp: option_simps)
  have 1: "simulates K V (snodes (k_tools K) x) (sbases x) False st st1 True (runs (k_language K) x) (\<lambda>b. \<not> b)"
    using Cons.prems(1) s(1) by (simp add: steps_sound_def)
  have 2: "simulates K V (block_nodes (k_tools K) xs) (block_bases xs) False st1 st' True (runs_list (k_language K) xs) (\<lambda>b. \<not> b)"
    using Cons.IH [OF _ s(2)] Cons.prems(1) by simp
  have "simulates K V (snodes (k_tools K) x @ block_nodes (k_tools K) xs) (sbases x @ block_bases xs) False st st' True
      (runs_list (k_language K) (x # xs)) (\<lambda>b. \<not> b)"
  proof (rule simulates_bind_if [OF 1 simulatesD(1) [OF 2]])
    show "simulates K V (block_nodes (k_tools K) xs) (block_bases xs) False st1 st' True
        (if b then (\<lambda>M s. Some (True, s)) else runs_list (k_language K) xs) (\<lambda>b. \<not> b)" if "\<not> b" for b
      using 2 that by simp
  qed (auto simp: runs_list_Cons simulatesD(2) [OF 2] split: option.splits)
  then show ?case by simp
qed

section \<open>Evaluation and assignment\<close>

lemma evaluate_computes:
  assumes "agreement K" and "tables_sound K C" and "wt K V e" and "evaluate (k_tools K) C e st = Inr (v, st')"
  shows "computes K V False e st v st'"
proof -
  from assms(4) obtain r where c: "computeResult (k_tools K) C e (None, st) = Inr (v, r)" "st' = snd r"
    by (auto simp: evaluate_def option_simps)
  from computeD [OF c(1)] have v: "resolve (k_tools K) C e (None, st) = Inr r" "fst r = Some v" by auto
  show ?thesis
    using simulates_weaken [OF resolve_simulates [OF assms(1-3) v(1)], where g' = False] v(2) c(2) by simp
qed

lemma set_simulates:
  assumes agree: "stores_agree K" and V: "v \<in> V" "\<forall>v \<in> V. is_Type_Base (k_type K v)"
    and l: "to_StateVariable l = Some v" "is_chain l" and e: "typed_as e (k_type K v)"
    and "eval (k_env K) e = Some w"
  shows "simulates K V [] [] False st (es_set (k_tools K) v e (fst st), snd st) True
    (\<lambda>M u. map_option (\<lambda>u'. (False, u')) (l_assign (k_language K) l w u)) (\<lambda>b. \<not> b)"
proof (rule simulatesI)
  from agree have laws: "env_laws (k_tools K)" by (simp add: stores_agree_def)
  have V': "insert v V = V" using V by blast
  show "steps_to (set [] \<union> k_actionNodes K) st (es_set (k_tools K) v e (fst st), snd st)"
    by (simp add: steps_to_def consistent_def es_set_def evolves_refl)
  show "env_ok K V (es_set (k_tools K) v e (fst st), snd st) \<and> True" if "env_ok K V st"
    using set_env_ok [OF laws _ e, of V "fst st" "snd st" "snd st"] that V' by simp
  fix u b u'
  assume d: "describes K V st u" and a: "map_option (\<lambda>u'. (False, u')) (l_assign (k_language K) l w u) = Some (b, u')"
  have "describes K (insert v V) (es_set (k_tools K) v e (fst st), snd st) u'"
  proof (rule set_describes [OF laws _ assms(7), where g = "snd st"])
    show "read_var (k_language K) v' u' = (if v' = v then Some w else read_var (k_language K) v' u)" if "v' \<in> insert v V" for v'
    proof -
      have "l_assign (k_language K) l w u = Some u'" using a by auto
      moreover have "is_Type_Base (k_type K v)" "is_Type_Base (k_type K v')" using V that V' by auto
      ultimately show ?thesis
        using agree [unfolded stores_agree_def, THEN conjunct2, THEN conjunct1, rule_format, of l v w u u' v'] l by blast
    qed
  qed (use d in simp)
  with a V' show "describes K V (es_set (k_tools K) v e (fst st), snd st) u' \<and> \<not> b" by auto
qed auto

lemma typed_base: "typed_as v t \<Longrightarrow> is_Type_Base t \<Longrightarrow> (\<nexists>ns es. v = StructExpression ns es) \<and> (\<nexists>u es. v = HeaderStackExpression u es)"
  by (auto simp: typed_as_def)

lemma assign_simulates:
  assumes agree: "agreement K" and tables: "tables_sound K C" and V: "scope_ok K V" and wt: "wt_stmt K V (SAssign l r)"
    and run: "step_assign (k_tools K) C l r st = Inr st'"
  shows "simulates K V (enodes (k_tools K) r) (bnodes r) False st st' True (runs (k_language K) (SAssign l r)) (\<lambda>b. \<not> b)"
proof -
  from wt obtain v where l: "to_StateVariable l = Some v" "v \<in> V" "k_type K v = pexp_type l" "is_chain l"
    and r: "wt K V r" "ptype K r = pexp_type l" "is_Type_Base (pexp_type l)" by auto
  from run l(1) obtain e s g where e: "evaluate (k_tools K) C r st = Inr (e, s, g)"
    and rest: "(case e of
         StructExpression ns es \<Rightarrow>
           and_then (or_fail Bug (assignStructLike (k_tools K) v e (es_env s))) (\<lambda>E. Inr (s\<lparr>es_env := E\<rparr>, g))
       | HeaderStackExpression t es \<Rightarrow>
           and_then (or_fail Bug (assignStructLike (k_tools K) v e (es_env s))) (\<lambda>E. Inr (s\<lparr>es_env := E\<rparr>, g))
       | _ \<Rightarrow> if is_Type_Base (pexp_type l) then Inr (es_set (k_tools K) v e s, g) else Inl Unimplemented) = Inr st'"
    by (auto simp: step_assign_def option_simps)
  note 1 = evaluate_computes [OF agree tables r(1) e]
  from agree have stores: "stores_agree K" by (simp add: agreement_def)
  show ?thesis
  proof (cases "env_ok K V st")
    case True
    from simulatesD(3) [OF 1 True] r(2) have typed: "typed_as e (k_type K v)" by (simp add: l(3))
    have st': "st' = (es_set (k_tools K) v e s, g)"
      using rest typed_base [OF typed] r(3) l(3) by (cases e) auto
    note set = set_simulates [OF stores l(2) _ l(1,4) typed]
    have V': "\<forall>v \<in> V. is_Type_Base (k_type K v)" using V by (simp add: scope_ok_def)
    have "steps_to {} (s, g) st'" "env_ok K V (s, g) \<Longrightarrow> env_ok K V st'"
      using set_env_ok [of K V s g e v g] typed stores l(2)
      by (auto simp: st' steps_to_def consistent_def es_set_def evolves_refl stores_agree_def insert_absorb)
    then have s2: "steps_to (set [] \<union> k_actionNodes K) (s, g) st'" "env_ok K V (s, g) \<Longrightarrow> env_ok K V st' \<and> True"
      by (auto elim: steps_to_mono)
    have "simulates K V (enodes (k_tools K) r @ []) (bnodes r @ []) False st st' True
        (runs (k_language K) (SAssign l r)) (\<lambda>b. \<not> b)"
      by (rule simulates_bind_if [OF 1 s2 set [OF V', of _ "(s, g)", simplified, folded st']])
        (auto simp: runs_def split: option.splits)
    then show ?thesis by simp
  next
    case False
    have "steps_to {} (s, g) st'"
      using rest by (cases e) (auto simp: option_simps steps_to_def consistent_def es_set_def evolves_refl split: if_splits)
    from steps_to_trans [OF simulatesD(1) [OF 1] this]
    show ?thesis by (intro simulates_trivial [OF _ False]) (simp add: Un_assoc)
  qed
qed

section \<open>Conditional statements\<close>

lemma pushed_env_ok:
  assumes "env_ok K V (s, g)" and "typed_as c Type_Boolean"
  shows "env_ok K V (pushExecutionCondition c s, g')"
  using assms pushed_typed [of s c] by (simp add: env_ok_def)

lemma other_store: "env_ok K V (s, g) \<Longrightarrow> env_ok K V (s, g')" "describes K V (s, g) u \<Longrightarrow> describes K V (s, g') u"
  "reached K (s, g) \<Longrightarrow> reached K (s, g')"
  by (simp_all add: env_ok_def describes_def reached_def)

lemma pushed_describes: "describes K V (s, g) u \<Longrightarrow> describes K V (pushExecutionCondition c s, g') u"
  by (simp add: describes_def)

lemma pushed_reached:
  "reached K (s, g) \<Longrightarrow> eval (k_env K) c = Some (VBool True) \<Longrightarrow> reached K (pushExecutionCondition c s, g')"
  using pushed_condition [of "k_env K" s c True] by (simp add: reached_def)

lemma branch_simulates:
  assumes agree: "env_laws (k_tools K)" and c: "typed_as c Type_Boolean" "eval (k_env K) c = Some (VBool b)"
    and ann: "annotate_reachability (k_tools K) n c st = Inr (s, g)"
    and t: "simulates K V NT BT False (pushExecutionCondition c s, g) (a, g1) True semT Q"
    and f: "simulates K V NF BF False (s, g1) (s', g2) True semF Q"
  shows "simulates K V (n # NT @ NF) (BT @ BF) False st (es_merge (k_tools K) a s', g2) True
    (\<lambda>M u. if m_cond M n b then (if b then semT M u else semF M u) else None) Q"
proof -
  let ?X = "k_tools K"
  note steps = annotate_reachability_steps [OF ann]
  note runT = simulatesD(1) [OF t] and runF = simulatesD(1) [OF f]
  have final: "(es_merge ?X a s', g2) = joint ?X [a] (s', g2)" by (simp add: joint_def)
  have all: "steps_to (set (n # NT @ NF) \<union> k_actionNodes K) st (es_merge ?X a s', g2)"
  proof -
    note s = spawned_original [OF spawned_clone [OF spawned_start [OF steps(1)] runT] runF]
    from spawned_mono [OF s, of "set (n # NT @ NF) \<union> k_actionNodes K"]
    show ?thesis unfolding final by (intro spawned_join) auto
  qed
  have ok: "env_ok K V (s, g')" "describes K V (s, g') u = describes K V st u" if "env_ok K V st" for g' u
    using same_env [OF steps(2), of K V] steps_to_condition [OF steps(1)] that
      other_store(1) [of K V s g g'] other_store(2) [of K V s g u g'] other_store(2) [of K V s g' u g] by auto
  have typed: "env_ok K V (a, g')" "env_ok K V (s', g')" if "env_ok K V st" for g'
    using simulatesD(2) [OF t pushed_env_ok [OF ok(1) c(1)]] simulatesD(2) [OF f ok(1)] that other_store(1) by blast+
  have cond: "eval (k_env K) (getExecutionCondition a) = Some (VBool b)" if "reached K st"
  proof -
    have "eval (k_env K) (getExecutionCondition (pushExecutionCondition c s)) = Some (VBool b)"
      by (rule pushed_condition [OF _ c(2)])
        (use that steps_to_reached [OF steps(1), of K] in \<open>simp add: reached_def\<close>)
    with steps_to_condition [OF runT] show ?thesis by (simp add: getExecutionCondition_def)
  qed
  show ?thesis
  proof (rule simulatesI [OF all])
    show "env_ok K V (es_merge ?X a s', g2) \<and> True" if "env_ok K V st"
      using merge_env_ok [OF agree typed(2,1)] that by blast
    fix u w u'
    assume pre: "env_ok K V st" "describes K V st u" "False \<or> reached K st"
    have reached: "reached K (s, g')" for g' using steps_to_reached [OF steps(1), of K] pre(3) other_store(3) by auto
    have true: "describes K V (a, g1) u' \<and> Q w" if "b" "semT no_monitor u = Some (w, u')"
    proof -
      have "env_ok K V (pushExecutionCondition c s, g)" "describes K V (pushExecutionCondition c s, g) u"
        "False \<or> reached K (pushExecutionCondition c s, g)"
        using pushed_env_ok [OF ok(1) c(1)] pushed_describes [of K V s g u] ok(2) pre(1,2) pushed_reached [OF reached] c(2) that(1)
        by auto
      from simulatesD(4,5) [OF t this that(2)] show ?thesis ..
    qed
    have false: "describes K V (s', g2) u' \<and> Q w" if "\<not> b" "semF no_monitor u = Some (w, u')"
    proof -
      have "env_ok K V (s, g1)" "describes K V (s, g1) u" "False \<or> reached K (s, g1)" using ok pre(1,2) reached by auto
      from simulatesD(4,5) [OF f this that(2)] show ?thesis ..
    qed
    {
      assume run: "(if m_cond no_monitor n b then (if b then semT no_monitor u else semF no_monitor u) else None) = Some (w, u')"
      then have run': "b \<Longrightarrow> semT no_monitor u = Some (w, u')" "\<not> b \<Longrightarrow> semF no_monitor u = Some (w, u')"
        by (auto split: if_splits)
      have "describes K V (es_merge ?X a s', g2) u'"
        by (rule merge_describes [where g = g2, OF agree typed(2) [OF pre(1)] typed(1) [OF pre(1)] cond])
          (use pre(3) true false run' in auto)
      moreover have "Q w" using true false run' by blast
      ultimately show "describes K V (es_merge ?X a s', g2) u' \<and> Q w" ..
      fix RC SC
      assume o: "observed K (n # NT @ NF) (BT @ BF) st (es_merge ?X a s', g2) RC SC"
      have od: "consistent st" "fresh (set (n # NT @ NF)) st" "distinct (n # NT @ NF)" "set (n # NT @ NF) \<inter> k_actionNodes K = {}"
        "agrees (set (n # NT @ NF)) (joint ?X [a] (s', g2)) RC SC" "\<forall>n \<in> set (BT @ BF). SC n = None"
        using o unfolding observed_def final by blast+
      have dis: "n \<notin> set NT \<union> k_actionNodes K" "n \<notin> set NF \<union> k_actionNodes K"
        "{n} \<inter> set NT = {}" "{n} \<inter> set NF = {}" "\<And>k. k \<in> set NT \<Longrightarrow> k \<notin> set NF \<union> k_actionNodes K"
        "\<And>k. k \<in> set NF \<Longrightarrow> k \<notin> set NT \<union> k_actionNodes K" using od(3,4) by auto
      have "clones_ok [] (s, g)" using steps_to_consistent [OF steps(1) od(1)] by (simp add: clones_ok_def)
      note start = this clone_run [OF this runT push_fields(2)] clone_observed [OF this runT push_fields(2)]
      from start(2) have ok1: "clones_ok [a] (s, g1)" by simp
      note main = original_run [OF ok1 runF] original_observed [OF ok1 runF]
      have freshT: "fresh (set NT) (s, g)" and freshF: "fresh (set NF) (s, g)"
        using steps_to_fresh [OF steps(1) od(1) fresh_mono [OF od(2)]] dis(3,4) by auto
      have "condition_at (s, g) n = Some (mk_LAnd (getExecutionCondition (fst st)) c)"
        by (rule steps(4) [OF od(1)]) (use od(2) in \<open>simp add: fresh_def\<close>)
      then have "RC n = Some (mk_LAnd (getExecutionCondition (fst st)) c)"
        using od(5) main(2) [where X = ?X, OF dis(2)] start(4) [where X = ?X, OF dis(1)] by (simp add: agrees_def)
      moreover have "eval (k_env K) (mk_LAnd (getExecutionCondition (fst st)) c) = Some (VBool (True \<and> b))"
        by (rule LAnd_value [OF _ c(2)]) (use pre(3) in \<open>simp add: reached_def\<close>)
      ultimately have n: "m_cond (monitor_of K RC SC) n b" by (simp add: monitor_of_def)
      show "(if m_cond (monitor_of K RC SC) n b then (if b then semT (monitor_of K RC SC) u else semF (monitor_of K RC SC) u) else None) =
          Some (w, u')"
      proof (cases b)
        case True
        have "agrees (set NT) (joint ?X [a] (s, g1)) RC SC"
          using od(5) main(2) [where X = ?X, OF dis(5)] by (auto simp: agrees_def)
        then have "observed K NT BT (pushExecutionCondition c s, g) (a, g1) RC SC"
          by (intro start(6) [where X = ?X]) (use od freshT in auto)
        moreover have "env_ok K V (pushExecutionCondition c s, g)" "describes K V (pushExecutionCondition c s, g) u"
          "False \<or> reached K (pushExecutionCondition c s, g)"
          using pushed_env_ok [OF ok(1) c(1)] pushed_describes [of K V s g u] ok(2) pre(1,2) pushed_reached [OF reached] c(2) True
          by auto
        ultimately show ?thesis using simulatesD(6) [OF t _ _ _ run'(1) [OF True]] n True by simp
      next
        case False
        have fresh: "fresh (set NF) (joint ?X [a] (s, g1))"
          using freshF start(4) [where X = ?X, OF dis(6)] by (auto simp: fresh_def)
        have "observed K NF BF (s, g1) (s', g2) RC SC"
          by (rule main(4) [OF fresh]) (use od agrees_mono [OF od(5)] in auto)
        moreover have "env_ok K V (s, g1)" "describes K V (s, g1) u" "False \<or> reached K (s, g1)"
          using ok pre(1,2) reached by auto
        ultimately show ?thesis using simulatesD(6) [OF f _ _ _ run'(2) [OF False]] n False by simp
      qed
    }
  qed
qed

section \<open>The cases of a switch\<close>

text \<open>
  For each block before the default, whether it is run for a value; \<open>q\<close> says that a label since the
  last block has been the value. The statements run are those of the block, or of the default.
\<close>

fun flags :: "'s p4_language \<Rightarrow> val \<Rightarrow> bool \<Rightarrow> switch_case list \<Rightarrow> bool list" where
  "flags L w q [] = []"
| "flags L w q (c # cs) =
     (case sc_statement c of
        None \<Rightarrow> flags L w (q \<or> case_matches L w c) cs
      | Some ss \<Rightarrow> (q \<or> case_matches L w c) # flags L w False cs)"

definition selected :: "'s p4_language \<Rightarrow> val \<Rightarrow> bool \<Rightarrow> switch_case list \<Rightarrow> stmt list" where
  "selected L w q cs = (if q then first_statement cs else chosen_statement L w cs)"

lemma selected_Cons:
  "selected L w q (c # cs) =
     (if q \<or> case_matches L w c then (case sc_statement c of None \<Rightarrow> selected L w True cs | Some ss \<Rightarrow> ss)
      else selected L w False cs)"
  by (auto simp: selected_def chosen_statement_def split: option.splits)

lemma flags_none: "\<not> q \<Longrightarrow> \<forall>c \<in> set cs. \<not> case_matches L w c \<Longrightarrow> True \<notin> set (flags L w q cs)"
  by (induction L w q cs rule: flags.induct) (auto split: option.splits)

lemma flags_default: "True \<notin> set (flags L w q cs) \<Longrightarrow> selected L w q (cs @ ds) = selected L w (q \<or> (\<exists>c \<in> set cs. case_matches L w c)) ds"
proof (induction L w q cs rule: flags.induct)
  case (2 L w q c cs)
  then show ?case by (cases "sc_statement c") (auto simp: selected_Cons)
qed simp

lemma flags_selected: "True \<in> set (flags L w q cs) \<Longrightarrow> selected L w q (cs @ ds) = selected L w q cs"
proof (induction cs arbitrary: q)
  case (Cons c cs)
  show ?case
  proof (cases "sc_statement c")
    case None
    then show ?thesis using Cons.IH [of "q \<or> case_matches L w c"] Cons.prems by (auto simp: selected_Cons)
  next
    case (Some ss)
    then show ?thesis using Cons.IH [of False] Cons.prems by (auto simp: selected_Cons)
  qed
qed simp

definition case_nodes :: "('e, 'z) interpreter \<Rightarrow> switch_case \<Rightarrow> node list" where
  "case_nodes X c = sc_node c # (case sc_statement c of None \<Rightarrow> [] | Some ss \<Rightarrow> block_nodes X ss)"

definition case_bases :: "switch_case \<Rightarrow> node list" where
  "case_bases c = (case sc_statement c of None \<Rightarrow> [] | Some ss \<Rightarrow> block_bases ss)"

definition or_cond :: "expr option \<Rightarrow> expr \<Rightarrow> expr" where
  "or_cond cond e = (case cond of None \<Rightarrow> e | Some c \<Rightarrow> mk_LOr c e)"

lemma step_cases_Cons:
  "step_cases X tm v body cond (c # cs) st =
     (case sc_label c of
        None \<Rightarrow> Inr ([], st)
      | Some label \<Rightarrow>
          and_then (case_label tm label) (\<lambda>lit.
          and_then (annotate_reachability X (sc_node c) (mk_Equ v lit) st) (\<lambda>(s, g).
            case sc_statement c of
              None \<Rightarrow> step_cases X tm v body (Some (or_cond cond (mk_Equ v lit))) cs (s, g)
            | Some ss \<Rightarrow>
                and_then (run_all body ss (pushExecutionCondition (simplify (or_cond cond (mk_Equ v lit))) s, g)) (\<lambda>(caseState, g).
                and_then (step_cases X tm v body None cs (s, g)) (\<lambda>(states, st). Inr (caseState # states, st))))))"
  by (cases "sc_label c"; cases "sc_statement c") (simp_all add: or_cond_def Let_def)

lemma step_casesE:
  assumes "step_cases X tm v body cond (c # cs) st = Inr (states, st')" and "sc_label c \<noteq> None"
  obtains (fall) label lit s g where "sc_label c = Some label" "case_label tm label = Inr lit"
      "annotate_reachability X (sc_node c) (mk_Equ v lit) st = Inr (s, g)" "sc_statement c = None"
      "step_cases X tm v body (Some (or_cond cond (mk_Equ v lit))) cs (s, g) = Inr (states, st')"
  | (block) label lit s g ss a g1 states' where "sc_label c = Some label" "case_label tm label = Inr lit"
      "annotate_reachability X (sc_node c) (mk_Equ v lit) st = Inr (s, g)" "sc_statement c = Some ss"
      "run_all body ss (pushExecutionCondition (simplify (or_cond cond (mk_Equ v lit))) s, g) = Inr (a, g1)"
      "step_cases X tm v body None cs (s, g1) = Inr (states', st')" "states = a # states'"
  using assms unfolding step_cases_Cons by (auto simp: option_simps split: option.splits)

lemma step_cases_append:
  assumes "\<forall>c \<in> set cs. sc_label c \<noteq> None" and "ds = [] \<or> sc_label (hd ds) = None"
  shows "step_cases X tm v body cond (cs @ ds) st = step_cases X tm v body cond cs st"
  using assms(1)
proof (induction cs arbitrary: cond st)
  case Nil
  then show ?case using assms(2) by (cases ds) auto
next
  case (Cons c cs)
  have "step_cases X tm v body cond (cs @ ds) st = step_cases X tm v body cond cs st" for cond st
    using Cons by simp
  then show ?case
    unfolding step_cases_Cons append_Cons by (cases "sc_label c"; cases "sc_statement c") simp_all
qed

text \<open>The blocks of the cases, each of which is stepped soundly.\<close>

definition blocks_sound ::
  "('e, 'z, 's) setting \<Rightarrow> StateVariable set \<Rightarrow> (stmt \<Rightarrow> ('e, 'z) exec_state \<Rightarrow> ('e, 'z) exec_state result) \<Rightarrow>
   switch_case list \<Rightarrow> bool" where
  "blocks_sound K V body cs \<longleftrightarrow>
     (\<forall>c \<in> set cs. \<forall>ss \<in> set_option (sc_statement c). \<forall>x \<in> set ss. steps_sound K V body x)"

lemma blocks_soundD:
  assumes "blocks_sound K V body (c # cs)"
  shows "blocks_sound K V body cs"
    and "sc_statement c = Some ss \<Longrightarrow> run_all body ss st = Inr st' \<Longrightarrow>
      simulates K V (block_nodes (k_tools K) ss) (block_bases ss) False st st' True (runs_list (k_language K) ss) (\<lambda>b. \<not> b)"
  using assms run_all_simulates [of ss K V body st st'] by (auto simp: blocks_sound_def)

lemma step_cases_spawned:
  assumes "step_cases (k_tools K) tm v body cond cs st = Inr (states, st')" and "\<forall>c \<in> set cs. sc_label c \<noteq> None"
    and "blocks_sound K V body cs" and "spawned N st0 cl st"
  shows "spawned (N \<union> set (concat (map (case_nodes (k_tools K)) cs)) \<union> k_actionNodes K) st0 (cl @ states) st' \<and>
    es_env (fst st') = es_env (fst st) \<and> es_executionCondition (fst st') = es_executionCondition (fst st)"
  using assms
proof (induction cs arbitrary: cond st states N cl)
  case Nil
  then show ?case by (auto intro: spawned_mono)
next
  case (Cons c cs)
  have label: "sc_label c \<noteq> None" and labels: "\<forall>c \<in> set cs. sc_label c \<noteq> None" using Cons.prems(2) by auto
  note blocks = blocks_soundD [OF Cons.prems(3)]
  obtain s0 g0 where st: "st = (s0, g0)" by (cases st)
  note spawned = Cons.prems(4) [unfolded st]
  from Cons.prems(1) label show ?case
  proof (cases rule: step_casesE)
    case (fall label lit s g)
    note steps = annotate_reachability_steps [OF fall(3)]
    note IH = Cons.IH [OF fall(5) labels blocks(1) spawned_original [OF spawned steps(1) [unfolded st]]]
    show ?thesis
      using IH steps(2) steps_to_condition [OF steps(1)]
      by (auto elim!: spawned_mono simp: case_nodes_def)
  next
    case (block label lit s g ss a g1 states')
    note steps = annotate_reachability_steps [OF block(3)]
    note run = simulatesD(1) [OF blocks(2) [OF block(4,5)]]
    note IH = Cons.IH [OF block(6) labels blocks(1)
        spawned_clone [OF spawned_original [OF spawned steps(1) [unfolded st]] run push_fields(2)]]
    show ?thesis
      using IH steps(2) steps_to_condition [OF steps(1)]
      by (auto elim!: spawned_mono simp: case_nodes_def block(4,7))
  qed
qed

definition labels_ok :: "('e, 'z, 's) setting \<Rightarrow> bool \<Rightarrow> ty \<Rightarrow> switch_case list \<Rightarrow> bool" where
  "labels_ok K tm t cs \<longleftrightarrow>
     (\<forall>c \<in> set cs. \<exists>l lit. sc_label c = Some l \<and> case_label tm l = Inr lit \<and> typed_as lit t \<and>
        eval (k_env K) lit = Some (l_label (k_language K) l))"

lemma labels_okD:
  assumes "labels_ok K tm t (c # cs)" and "typed_as v t"
  shows "labels_ok K tm t cs" and "sc_label c \<noteq> None"
    and "sc_label c = Some l \<Longrightarrow> case_label tm l = Inr lit \<Longrightarrow> typed_as (mk_Equ v lit) Type_Boolean"
    and "sc_label c = Some l \<Longrightarrow> case_label tm l = Inr lit \<Longrightarrow> eval (k_env K) v = Some w \<Longrightarrow>
      eval (k_env K) (mk_Equ v lit) = Some (VBool (case_matches (k_language K) w c))"
proof -
  show "labels_ok K tm t cs" "sc_label c \<noteq> None" using assms(1) by (auto simp: labels_ok_def)
  assume l: "sc_label c = Some l" "case_label tm l = Inr lit"
  with assms(1) have lit: "typed_as lit t" "eval (k_env K) lit = Some (l_label (k_language K) l)"
    by (auto simp: labels_ok_def)
  with assms(2) show "typed_as (mk_Equ v lit) Type_Boolean" by (simp add: typed_asD)
  assume v: "eval (k_env K) v = Some w"
  have "val_type w = val_type (l_label (k_language K) l)"
    using eval_type [OF v] eval_type [OF lit(2)] assms(2) lit(1) by (simp add: typed_asD)
  from Equ_value [OF v lit(2) this] show "eval (k_env K) (mk_Equ v lit) = Some (VBool (case_matches (k_language K) w c))"
    by (auto simp: case_matches_def l(1))
qed

text \<open>The condition for the labels since the last block.\<close>

definition cond_typed :: "expr option \<Rightarrow> bool" where
  "cond_typed cond \<longleftrightarrow> (\<forall>c. cond = Some c \<longrightarrow> typed_as c Type_Boolean)"

definition cond_value :: "env \<Rightarrow> expr option \<Rightarrow> bool \<Rightarrow> bool" where
  "cond_value env cond q \<longleftrightarrow> (case cond of None \<Rightarrow> \<not> q | Some c \<Rightarrow> eval env c = Some (VBool q))"

lemma or_cond_typed: "cond_typed cond \<Longrightarrow> typed_as e Type_Boolean \<Longrightarrow> typed_as (or_cond cond e) Type_Boolean"
  by (auto simp: cond_typed_def or_cond_def split: option.splits)

lemma or_cond_value:
  "cond_value env cond q \<Longrightarrow> eval env e = Some (VBool b) \<Longrightarrow> eval env (or_cond cond e) = Some (VBool (q \<or> b))"
  using LOr_value [of env _ q e b] by (auto simp: cond_value_def or_cond_def split: option.splits)

lemma step_cases_typed:
  assumes "step_cases (k_tools K) tm v body cond cs st = Inr (states, st')" and "labels_ok K tm t cs" and "typed_as v t"
    and "blocks_sound K V body cs" and "env_ok K V st" and "cond_typed cond"
  shows "env_ok K V st' \<and> (\<forall>a \<in> set states. \<forall>g. env_ok K V (a, g))"
  using assms(1,2,4-)
proof (induction cs arbitrary: cond st states)
  case (Cons c cs)
  note labels = labels_okD [OF Cons.prems(2) assms(3)] and blocks = blocks_soundD [OF Cons.prems(3)]
  have same: "env_ok K V (s, g')" if "annotate_reachability (k_tools K) n d st = Inr (s, g)" for s g n d g'
    using same_env(1) [OF annotate_reachability_steps(2) steps_to_condition [OF annotate_reachability_steps(1)], OF that that, of K V]
      Cons.prems(4) other_store(1) by blast
  from Cons.prems(1) labels(2) show ?case
  proof (cases rule: step_casesE)
    case (fall label lit s g)
    have "cond_typed (Some (or_cond cond (mk_Equ v lit)))"
      using or_cond_typed [OF Cons.prems(5) labels(3) [OF fall(1,2)]] by (simp add: cond_typed_def)
    from Cons.IH [OF fall(5) labels(1) blocks(1) same [OF fall(3)] this] show ?thesis .
  next
    case (block label lit s g ss a g1 states')
    have "typed_as (simplify (or_cond cond (mk_Equ v lit))) Type_Boolean"
      by (rule simplify_typed [OF or_cond_typed [OF Cons.prems(5) labels(3) [OF block(1,2)]]])
    from simulatesD(2) [OF blocks(2) [OF block(4,5)] pushed_env_ok [OF same [OF block(3)] this]]
    have "env_ok K V (a, g)" for g using other_store(1) by blast
    moreover have "env_ok K V st' \<and> (\<forall>a \<in> set states'. \<forall>g. env_ok K V (a, g))"
      by (rule Cons.IH [OF block(6) labels(1) blocks(1) same [OF block(3)]]) (simp add: cond_typed_def)
    ultimately show ?thesis by (simp add: block(7))
  qed
qed simp

lemma step_cases_joint:
  assumes "step_cases (k_tools K) tm v body cond cs st = Inr (states, st')" and "\<forall>c \<in> set cs. sc_label c \<noteq> None"
    and "blocks_sound K V body cs" and "clones_ok cl st"
  shows "clones_ok (cl @ states) st' \<and>
    (\<forall>n. n \<notin> set (concat (map (case_nodes (k_tools K)) cs)) \<union> k_actionNodes K \<longrightarrow>
       condition_at (joint (k_tools K) (cl @ states) st') n = condition_at (joint (k_tools K) cl st) n \<and>
       value_at (joint (k_tools K) (cl @ states) st') n = value_at (joint (k_tools K) cl st) n)"
  using assms
proof (induction cs arbitrary: cond st states cl)
  case (Cons c cs)
  let ?X = "k_tools K"
  have label: "sc_label c \<noteq> None" and labels: "\<forall>c \<in> set cs. sc_label c \<noteq> None" using Cons.prems(2) by auto
  note blocks = blocks_soundD [OF Cons.prems(3)]
  obtain s0 g0 where st: "st = (s0, g0)" by (cases st)
  note ok = Cons.prems(4) [unfolded st]
  from Cons.prems(1) label show ?case
  proof (cases rule: step_casesE)
    case (fall label lit s g)
    note run = original_run [OF ok annotate_reachability_steps(1) [OF fall(3), unfolded st]]
    show ?thesis
      using Cons.IH [OF fall(5) labels blocks(1) run(1)] run(2) [where X = ?X] by (auto simp: st case_nodes_def)
  next
    case (block label lit s g ss a g1 states')
    note run = original_run [OF ok annotate_reachability_steps(1) [OF block(3), unfolded st]]
    note clone = clone_run [OF run(1) simulatesD(1) [OF blocks(2) [OF block(4,5)]] push_fields(2)]
    show ?thesis
      using Cons.IH [OF block(6) labels blocks(1) clone(1)] run(2) [where X = ?X] clone(3) [where X = ?X]
      by (auto simp: st case_nodes_def block(4,7))
  qed
qed simp

lemma step_cases_value:
  assumes "step_cases (k_tools K) tm v body cond cs st = Inr (states, st')" and "labels_ok K tm t cs"
    and v: "typed_as v t" "eval (k_env K) v = Some w"
    and "blocks_sound K V body cs" and "env_ok K V st" and "cond_typed cond" and "cond_value (k_env K) cond q" and "reached K st"
  shows "list_all2 (\<lambda>a b. eval (k_env K) (getExecutionCondition a) = Some (VBool b)) states (flags (k_language K) w q cs) \<and>
    (length (filter (case_matches (k_language K) w) cs) \<le> (if q then 0 else 1) \<longrightarrow>
       (\<forall>a g u u' z. (a, True) \<in> set (zip states (flags (k_language K) w q cs)) \<longrightarrow> describes K V st u \<longrightarrow>
         runs_list (k_language K) (selected (k_language K) w q cs) no_monitor u = Some (z, u') \<longrightarrow>
         describes K V (a, g) u' \<and> \<not> z))"
  using assms(1,2,5-)
proof (induction cs arbitrary: cond st states q)
  case (Cons c cs)
  let ?L = "k_language K" and ?q = "q \<or> case_matches (k_language K) w c"
  note labels = labels_okD [OF Cons.prems(2) v(1)] and blocks = blocks_soundD [OF Cons.prems(3)]
  have same: "env_ok K V (s, g')" "describes K V (s, g') u = describes K V st u" "reached K (s, g')"
    if "annotate_reachability (k_tools K) n d st = Inr (s, g)" for s g n d g' u
  proof -
    note steps = annotate_reachability_steps [OF that]
    show "env_ok K V (s, g')" "reached K (s, g')"
      using same_env(1) [OF steps(2) steps_to_condition [OF steps(1)], of K V] steps_to_reached [OF steps(1), of K]
        Cons.prems(4,7) other_store(1,3) by blast+
    show "describes K V (s, g') u = describes K V st u"
      using same_env(2) [OF steps(2), of K V u] other_store(2) [of K V s g u g'] other_store(2) [of K V s g' u g] by auto
  qed
  have cond: "typed_as (or_cond cond (mk_Equ v lit)) Type_Boolean"
    "eval (k_env K) (or_cond cond (mk_Equ v lit)) = Some (VBool ?q)"
    if "sc_label c = Some l" "case_label tm l = Inr lit" for l lit
    using or_cond_typed [OF Cons.prems(5) labels(3) [OF that]] or_cond_value [OF Cons.prems(6) labels(4) [OF that v(2)]] by auto
  from Cons.prems(1) labels(2) show ?case
  proof (cases rule: step_casesE)
    case (fall label lit s g)
    have "cond_typed (Some (or_cond cond (mk_Equ v lit)))" "cond_value (k_env K) (Some (or_cond cond (mk_Equ v lit))) ?q"
      using cond [OF fall(1,2)] by (simp_all add: cond_typed_def cond_value_def)
    note IH = Cons.IH [OF fall(5) labels(1) blocks(1) same(1) [OF fall(3)] this same(3) [OF fall(3)]]
    have sel: "selected ?L w q (c # cs) = selected ?L w ?q cs" "flags ?L w q (c # cs) = flags ?L w ?q cs"
      using fall(4) by (auto simp: selected_Cons)
    have "length (filter (case_matches ?L w) (c # cs)) \<le> (if q then 0 else 1) \<Longrightarrow>
        length (filter (case_matches ?L w) cs) \<le> (if ?q then 0 else 1)" by (auto split: if_splits)
    with IH show ?thesis unfolding sel using same(2) [OF fall(3)] by blast
  next
    case (block label lit s g ss a g1 states')
    let ?c = "simplify (or_cond cond (mk_Equ v lit))"
    have c: "typed_as ?c Type_Boolean" "eval (k_env K) ?c = Some (VBool ?q)"
      using cond [OF block(1,2)] by (simp_all add: simplify_typed simplify_value)
    note run = blocks(2) [OF block(4,5)]
    note IH = Cons.IH [OF block(6) labels(1) blocks(1) same(1) [OF block(3)], of False]
    have rest: "list_all2 (\<lambda>a b. eval (k_env K) (getExecutionCondition a) = Some (VBool b)) states' (flags ?L w False cs) \<and>
       (length (filter (case_matches ?L w) cs) \<le> 1 \<longrightarrow> (\<forall>a g' u u' z. (a, True) \<in> set (zip states' (flags ?L w False cs)) \<longrightarrow>
         describes K V st u \<longrightarrow> runs_list ?L (selected ?L w False cs) no_monitor u = Some (z, u') \<longrightarrow>
         describes K V (a, g') u' \<and> \<not> z))"
      using IH same(2,3) [OF block(3)] by (simp add: cond_typed_def cond_value_def) blast
    have flags: "flags ?L w q (c # cs) = ?q # flags ?L w False cs" using block(4) by simp
    have "eval (k_env K) (getExecutionCondition (pushExecutionCondition ?c s)) = Some (VBool ?q)"
      by (rule pushed_condition [OF _ c(2)]) (use same(3) [OF block(3)] in \<open>simp add: reached_def\<close>)
    then have first: "eval (k_env K) (getExecutionCondition a) = Some (VBool ?q)"
      using steps_to_condition [OF simulatesD(1) [OF run]] by (simp add: getExecutionCondition_def)
    have val: "describes K V (b, g') u' \<and> \<not> z"
      if one: "length (filter (case_matches ?L w) (c # cs)) \<le> (if q then 0 else 1)"
        and b: "(b, True) \<in> set (zip states (flags ?L w q (c # cs)))" and d: "describes K V st u"
        and r: "runs_list ?L (selected ?L w q (c # cs)) no_monitor u = Some (z, u')" for b g' u u' z
    proof (cases ?q)
      case True
      have "length (filter (case_matches ?L w) cs) = 0" using one True by (auto split: if_splits)
      then have "True \<notin> set (flags ?L w False cs)" by (intro flags_none) (auto simp: filter_empty_conv)
      then have a: "b = a" using b unfolding flags block(7) by (auto dest: set_zip_rightD)
      have start: "env_ok K V (pushExecutionCondition ?c s, g)" "describes K V (pushExecutionCondition ?c s, g) u"
        "False \<or> reached K (pushExecutionCondition ?c s, g)"
        using pushed_env_ok [OF same(1) [OF block(3)] c(1)] pushed_describes [of K V s g u] same(2) [OF block(3)] d
          pushed_reached [OF same(3) [OF block(3)]] c(2) True by auto
      have "runs_list ?L ss no_monitor u = Some (z, u')" using r True block(4) by (simp add: selected_Cons)
      from simulatesD(4,5) [OF run start this] other_store(2) [of K V a g1 u' g'] show ?thesis by (simp add: a)
    next
      case False
      then have in_rest: "(b, True) \<in> set (zip states' (flags ?L w False cs))" using b unfolding flags block(7) by auto
      have "selected ?L w q (c # cs) = selected ?L w False cs" using False by (simp add: selected_Cons)
      with r have r': "runs_list ?L (selected ?L w False cs) no_monitor u = Some (z, u')" by simp
      have len: "length (filter (case_matches ?L w) cs) \<le> 1" using one False by (auto split: if_splits)
      from conjunct2 [OF rest, rule_format, OF len in_rest d r'] show ?thesis .
    qed
    have "list_all2 (\<lambda>a b. eval (k_env K) (getExecutionCondition a) = Some (VBool b)) states (flags ?L w q (c # cs))"
      unfolding flags block(7) using first conjunct1 [OF rest] by simp
    with val show ?thesis by blast
  qed
qed simp

lemma fresh_keeps:
  assumes "fresh N st" and "\<And>n. n \<in> N \<Longrightarrow> condition_at st' n = condition_at st n \<and> value_at st' n = value_at st n"
  shows "fresh N st'"
  using assms by (simp add: fresh_def)

lemma agrees_keeps:
  assumes "agrees N st' RC SC" and "\<And>n. n \<in> N \<Longrightarrow> condition_at st' n = condition_at st n \<and> value_at st' n = value_at st n"
  shows "agrees N st RC SC"
  using assms by (simp add: agrees_def)

lemma step_cases_monitored:
  assumes "step_cases (k_tools K) tm v body cond cs st = Inr (states, st')" and "labels_ok K tm t cs"
    and v: "typed_as v t" "eval (k_env K) v = Some w"
    and "blocks_sound K V body cs" and "env_ok K V st" and "cond_typed cond" and "cond_value (k_env K) cond q" and "reached K st"
    and "clones_ok cl st" and "fresh (set (concat (map (case_nodes (k_tools K)) cs))) (joint (k_tools K) cl st)"
    and "distinct (concat (map (case_nodes (k_tools K)) cs))"
    and "set (concat (map (case_nodes (k_tools K)) cs)) \<inter> k_actionNodes K = {}"
    and "agrees (set (concat (map (case_nodes (k_tools K)) cs))) (joint (k_tools K) (cl @ states) st') RC SC"
    and "\<forall>n \<in> set (concat (map case_bases cs)). SC n = None"
  shows "(\<forall>c \<in> set cs. m_cond (monitor_of K RC SC) (sc_node c) (case_matches (k_language K) w c)) \<and>
    (True \<in> set (flags (k_language K) w q cs) \<longrightarrow> (\<forall>u z u'. describes K V st u \<longrightarrow>
       runs_list (k_language K) (selected (k_language K) w q cs) no_monitor u = Some (z, u') \<longrightarrow>
       runs_list (k_language K) (selected (k_language K) w q cs) (monitor_of K RC SC) u = Some (z, u')))"
  using assms(1,2,5-)
proof (induction cs arbitrary: cond st states q cl)
  case (Cons c cs)
  let ?X = "k_tools K" and ?L = "k_language K" and ?q = "q \<or> case_matches (k_language K) w c"
    and ?rest = "concat (map (case_nodes (k_tools K)) cs)" and ?M = "monitor_of K RC SC"
  note labels = labels_okD [OF Cons.prems(2) v(1)] and blocks = blocks_soundD [OF Cons.prems(3)]
  have all: "\<forall>c \<in> set cs. sc_label c \<noteq> None" using labels(1) by (auto simp: labels_ok_def)
  obtain s0 g0 where st: "st = (s0, g0)" by (cases st)
  note ok = Cons.prems(8) [unfolded st]
  obtain R where R: "case_nodes ?X c = sc_node c # R" by (simp add: case_nodes_def)
  have parts: "fresh (insert (sc_node c) (set ?rest)) (joint ?X cl (s0, g0))" "sc_node c \<notin> set ?rest"
    "sc_node c \<notin> k_actionNodes K" "distinct ?rest" "set ?rest \<inter> k_actionNodes K = {}"
    "agrees (insert (sc_node c) (set ?rest)) (joint ?X (cl @ states) st') RC SC" "\<forall>n \<in> set (concat (map case_bases cs)). SC n = None"
    using Cons.prems(9-13) by (auto simp: st R fresh_def agrees_def simp del: snodes.simps)
  have same: "env_ok K V (s, g')" "describes K V (s, g') u = describes K V st u" "reached K (s, g')"
    if "annotate_reachability ?X n d st = Inr (s, g)" for s g n d g' u
  proof -
    note steps = annotate_reachability_steps [OF that]
    show "env_ok K V (s, g')" "reached K (s, g')"
      using same_env(1) [OF steps(2) steps_to_condition [OF steps(1)], of K V] steps_to_reached [OF steps(1), of K]
        Cons.prems(4,7) other_store(1,3) by blast+
    show "describes K V (s, g') u = describes K V st u"
      using same_env(2) [OF steps(2), of K V u] other_store(2) [of K V s g u g'] other_store(2) [of K V s g' u g] by auto
  qed
  have cond: "typed_as (or_cond cond (mk_Equ v lit)) Type_Boolean"
    "eval (k_env K) (or_cond cond (mk_Equ v lit)) = Some (VBool ?q)"
    if "sc_label c = Some l" "case_label tm l = Inr lit" for l lit
    using or_cond_typed [OF Cons.prems(5) labels(3) [OF that]] or_cond_value [OF Cons.prems(6) labels(4) [OF that v(2)]] by auto
  have at_label: "m_cond ?M (sc_node c) (case_matches ?L w c)"
    if l: "sc_label c = Some l" "case_label tm l = Inr lit" and ann: "annotate_reachability ?X (sc_node c) (mk_Equ v lit) st = Inr (s, g)"
      and rc: "RC (sc_node c) = condition_at (s, g) (sc_node c)" for l lit s g
  proof -
    note steps = annotate_reachability_steps [OF ann]
    have "fresh {sc_node c} st" using fresh_mono [OF parts(1), of "{sc_node c}"] fresh_joint [OF ok, of _ ?X] by (simp add: st)
    then have "condition_at (s, g) (sc_node c) = Some (mk_LAnd (getExecutionCondition (fst st)) (mk_Equ v lit))"
      using steps(4) Cons.prems(8) by (simp add: fresh_def clones_ok_def)
    moreover have "eval (k_env K) (mk_LAnd (getExecutionCondition (fst st)) (mk_Equ v lit)) =
        Some (VBool (True \<and> case_matches ?L w c))"
      by (rule LAnd_value [OF _ labels(4) [OF l v(2)]]) (use Cons.prems(7) in \<open>simp add: reached_def\<close>)
    ultimately show ?thesis using rc by (simp add: monitor_of_def)
  qed
  from Cons.prems(1) labels(2) show ?case
  proof (cases rule: step_casesE)
    case (fall label lit s g)
    note steps = annotate_reachability_steps [OF fall(3)]
    note run = original_run [OF ok steps(1) [unfolded st]]
    note joint = step_cases_joint [OF fall(5) all blocks(1) run(1)]
    have rc: "RC (sc_node c) = condition_at (s, g) (sc_node c)"
      using parts(6) joint parts(2,3) run(3) [where X = ?X, OF parts(1), of "sc_node c"] by (auto simp: agrees_def)
    have fresh: "fresh (set ?rest) (joint ?X cl (s, g))"
    proof (rule fresh_keeps [OF fresh_mono [OF parts(1)]])
      show "condition_at (joint ?X cl (s, g)) n = condition_at (joint ?X cl (s0, g0)) n \<and>
          value_at (joint ?X cl (s, g)) n = value_at (joint ?X cl (s0, g0)) n" if "n \<in> set ?rest" for n
        by (rule run(2)) (use that parts(2) in auto)
    qed auto
    have "cond_typed (Some (or_cond cond (mk_Equ v lit)))" "cond_value (k_env K) (Some (or_cond cond (mk_Equ v lit))) ?q"
      using cond [OF fall(1,2)] by (simp_all add: cond_typed_def cond_value_def)
    note IH = Cons.IH [OF fall(5) labels(1) blocks(1) same(1) [OF fall(3)] this same(3) [OF fall(3)] run(1) fresh parts(4,5)
        agrees_mono [OF parts(6)] parts(7)]
    have sel: "selected ?L w q (c # cs) = selected ?L w ?q cs" "flags ?L w q (c # cs) = flags ?L w ?q cs"
      using fall(4) by (auto simp: selected_Cons)
    show ?thesis
      unfolding sel using IH at_label [OF fall(1-3) rc] same(2) [OF fall(3)] by auto
  next
    case (block label lit s g ss a g1 states')
    let ?c = "simplify (or_cond cond (mk_Equ v lit))"
    have c: "typed_as ?c Type_Boolean" "eval (k_env K) ?c = Some (VBool ?q)"
      using cond [OF block(1,2)] by (simp_all add: simplify_typed simplify_value)
    note steps = annotate_reachability_steps [OF block(3)]
    note run = original_run [OF ok steps(1) [unfolded st]]
    note sim = blocks(2) [OF block(4,5)]
    note clone = clone_run [OF run(1) simulatesD(1) [OF sim] push_fields(2)]
      and observed = clone_observed [OF run(1) simulatesD(1) [OF sim] push_fields(2)]
    note joint = step_cases_joint [OF block(6) all blocks(1) clone(1)]
    have states: "cl @ states = (cl @ [a]) @ states'" by (simp add: block(7))
    have nodes: "case_nodes ?X c = sc_node c # block_nodes ?X ss" by (simp add: case_nodes_def block(4))
    have dis: "sc_node c \<notin> set (block_nodes ?X ss)" "distinct (block_nodes ?X ss)"
      "set (block_nodes ?X ss) \<inter> k_actionNodes K = {}" "set (block_nodes ?X ss) \<inter> set ?rest = {}"
      "\<forall>n \<in> set (block_bases ss). SC n = None"
      using Cons.prems(10,11,13) nodes by (auto simp: case_bases_def block(4))
    have agree: "agrees (set (block_nodes ?X ss)) (joint ?X (cl @ states) st') RC SC"
      by (rule agrees_mono [OF Cons.prems(12)]) (use nodes in auto)
    have fresh_all: "fresh (set (block_nodes ?X ss) \<union> set ?rest) (joint ?X cl (s, g))"
    proof (rule fresh_keeps [OF fresh_mono [OF Cons.prems(9) [unfolded st]]])
      show "condition_at (joint ?X cl (s, g)) n = condition_at (joint ?X cl (s0, g0)) n \<and>
          value_at (joint ?X cl (s, g)) n = value_at (joint ?X cl (s0, g0)) n"
        if "n \<in> set (block_nodes ?X ss) \<union> set ?rest" for n
        by (rule run(2)) (use that parts(2) dis(1) in auto)
    qed (use nodes in auto)
    have rc: "RC (sc_node c) = condition_at (s, g) (sc_node c)"
      using parts(6) joint parts(2,3) run(3) [where X = ?X, OF parts(1), of "sc_node c"] dis(1) clone(3) [where X = ?X, of "sc_node c"]
      by (auto simp: agrees_def states)
    have fresh: "fresh (set ?rest) (joint ?X (cl @ [a]) (s, g1))"
    proof (rule fresh_keeps [OF fresh_mono [OF fresh_all]])
      show "condition_at (joint ?X (cl @ [a]) (s, g1)) n = condition_at (joint ?X cl (s, g)) n \<and>
          value_at (joint ?X (cl @ [a]) (s, g1)) n = value_at (joint ?X cl (s, g)) n" if "n \<in> set ?rest" for n
        by (rule clone(3)) (use that dis(4) parts(5) in auto)
    qed auto
    note IH = Cons.IH [OF block(6) labels(1) blocks(1) same(1) [OF block(3)] _ _ same(3) [OF block(3)] clone(1) fresh parts(4,5)
        agrees_mono [OF parts(6) [unfolded states]] parts(7), of False]
    have rest: "(\<forall>c \<in> set cs. m_cond ?M (sc_node c) (case_matches ?L w c)) \<and>
      (True \<in> set (flags ?L w False cs) \<longrightarrow> (\<forall>u z u'. describes K V st u \<longrightarrow>
         runs_list ?L (selected ?L w False cs) no_monitor u = Some (z, u') \<longrightarrow>
         runs_list ?L (selected ?L w False cs) ?M u = Some (z, u')))"
      using IH same(2) [OF block(3)] by (simp add: cond_typed_def cond_value_def subset_insertI)
    have val: "runs_list ?L (selected ?L w q (c # cs)) ?M u = Some (z, u')"
      if t: "True \<in> set (flags ?L w q (c # cs))" and d: "describes K V st u"
        and r: "runs_list ?L (selected ?L w q (c # cs)) no_monitor u = Some (z, u')" for u z u'
    proof (cases ?q)
      case True
      have sel: "selected ?L w q (c # cs) = ss" using True block(4) by (simp add: selected_Cons)
      have "agrees (set (block_nodes ?X ss)) (joint ?X (cl @ [a]) (s, g1)) RC SC"
      proof (rule agrees_keeps [OF agree [unfolded states]])
        show "condition_at (joint ?X ((cl @ [a]) @ states') st') n = condition_at (joint ?X (cl @ [a]) (s, g1)) n \<and>
            value_at (joint ?X ((cl @ [a]) @ states') st') n = value_at (joint ?X (cl @ [a]) (s, g1)) n"
          if "n \<in> set (block_nodes ?X ss)" for n
          by (rule conjunct2 [OF joint, rule_format]) (use that dis(3,4) in auto)
      qed
      from observed [OF fresh_mono [OF fresh_all] this dis(2,3,5)]
      have o: "observed K (block_nodes ?X ss) (block_bases ss) (pushExecutionCondition ?c s, g) (a, g1) RC SC" by simp
      have "env_ok K V (pushExecutionCondition ?c s, g)" "describes K V (pushExecutionCondition ?c s, g) u"
        "False \<or> reached K (pushExecutionCondition ?c s, g)"
        using pushed_env_ok [OF same(1) [OF block(3)] c(1)] pushed_describes [of K V s g u] same(2) [OF block(3)] d
          pushed_reached [OF same(3) [OF block(3)]] c(2) True by auto
      from simulatesD(6) [OF sim this r [unfolded sel] o] show ?thesis by (simp only: sel)
    next
      case False
      then have "selected ?L w q (c # cs) = selected ?L w False cs" by (simp add: selected_Cons)
      moreover have "True \<in> set (flags ?L w False cs)" using t False block(4) by auto
      ultimately show ?thesis using rest d r by simp
    qed
    show ?thesis using at_label [OF block(1-3) rc] rest val by auto
  qed
qed simp

end
