(* ===== verification/StepperSoundness.thy ===== *)
theory StepperSoundness
  imports BranchSoundness
begin

text \<open>
  Soundness of the stepper: a statement that is stepped simulates its executions, with actions and
  tables called at any depth that the fuel allows.
\<close>

declare split_paired_All [simp del] split_paired_Ex [simp del]

section \<open>Switches\<close>

lemma one_label:
  assumes "distinct (map (l_label L) (labels_of cs))" and "\<forall>c \<in> set cs. sc_label c \<noteq> None"
  shows "length (filter (case_matches L w) cs) \<le> 1"
  using assms
proof (induction cs)
  case (Cons c cs)
  from Cons.prems(2) obtain l where l: "sc_label c = Some l" by auto
  have labels: "labels_of (c # cs) = l # labels_of cs" by (simp add: labels_of_def l)
  have "\<not> case_matches L w d" if c: "case_matches L w c" and d: "d \<in> set cs" for d
  proof -
    from Cons.prems(2) d obtain l' where l': "sc_label d = Some l'" by auto
    with d have "l' \<in> set (labels_of cs)" by (force simp: labels_of_def)
    then have "l_label L l' \<in> set (map (l_label L) (labels_of cs))" by simp
    moreover have "l_label L l \<notin> set (map (l_label L) (labels_of cs))" using Cons.prems(1) labels by simp
    ultimately have "l_label L l' \<noteq> l_label L l" by metis
    with c show ?thesis by (simp add: case_matches_def l l')
  qed
  then have "filter (case_matches L w) cs = []" if "case_matches L w c" using that by (simp add: filter_empty_conv)
  with Cons labels show ?case by auto
qed simp

text \<open>The statements after the cases with labels.\<close>

definition ends_with :: "switch_case list \<Rightarrow> stmt list \<Rightarrow> bool" where
  "ends_with post ss \<longleftrightarrow> post = [] \<and> ss = [] \<or> (\<exists>d. post = [d] \<and> sc_label d = None \<and> sc_statement d = Some ss)"

lemma ends_withD:
  assumes "ends_with post ss"
  shows "post = [] \<or> sc_label (hd post) = None" and "\<forall>c \<in> set post. sc_label c = None"
    and "selected L w q post = ss" and "concat (map case_bases post) = block_bases ss"
    and "set (block_nodes X ss) \<subseteq> set (concat (map (case_nodes X) post))"
    and "distinct (concat (map (case_nodes X) post)) \<Longrightarrow> distinct (block_nodes X ss)"
  using assms
  by (auto simp: ends_with_def selected_def chosen_statement_def case_matches_def case_bases_def case_nodes_def)

lemma split_cases:
  assumes "default_last cs"
    and "(case default_statement cs of None \<Rightarrow> Inr st | Some None \<Rightarrow> Inl Bug | Some (Some ss) \<Rightarrow> run_all body ss st) = Inr st'"
  obtains pre post ss where "cs = pre @ post" and "\<forall>c \<in> set pre. sc_label c \<noteq> None" and "ends_with post ss"
    and "run_all body ss st = Inr st'"
proof -
  have "\<exists>pre post ss. cs = pre @ post \<and> (\<forall>c \<in> set pre. sc_label c \<noteq> None) \<and> ends_with post ss \<and> run_all body ss st = Inr st'"
    using assms
  proof (induction cs)
    case Nil
    then show ?case by (auto simp: ends_with_def)
  next
    case (Cons c cs)
    show ?case
    proof (cases "sc_label c = None")
      case True
      then have "cs = []" using Cons.prems(1) by (auto simp: default_last_def split: if_splits)
      with True Cons.prems(2) obtain ss where "sc_statement c = Some ss" "run_all body ss st = Inr st'"
        by (auto split: option.splits)
      with True \<open>cs = []\<close> show ?thesis
        by (intro exI [of _ "[]"] exI [of _ "[c]"] exI [of _ ss]) (simp add: ends_with_def)
    next
      case False
      have "default_last cs" using Cons.prems(1) by (auto simp: default_last_def split: if_splits)
      moreover have "default_statement (c # cs) = default_statement cs" using False by (simp del: not_None_eq)
      ultimately obtain pre post ss where "cs = pre @ post" "\<forall>c \<in> set pre. sc_label c \<noteq> None" "ends_with post ss"
        "run_all body ss st = Inr st'" using Cons by auto
      with False show ?thesis by (intro exI [of _ "c # pre"] exI [of _ post] exI [of _ ss]) auto
    qed
  qed
  then show thesis using that by blast
qed

lemma cases_simulate:
  fixes K :: "('e, 'z, 's) setting" and states :: "'e ExecutionState list"
  assumes laws: "env_laws (k_tools K)" and post: "ends_with post ss" and labels: "labels_ok K tm t pre"
    and blocks: "blocks_sound K V body pre" and rest: "\<forall>x \<in> set ss. steps_sound K V body x"
    and one: "length (filter (case_matches (k_language K) w) pre) \<le> 1"
    and v: "typed_as v t" "eval (k_env K) v = Some w"
    and cases: "step_cases (k_tools K) tm v body None pre st = Inr (states, st2)" and final: "run_all body ss st2 = Inr st3"
  shows "simulates K V (concat (map (case_nodes (k_tools K)) (pre @ post))) (concat (map case_bases (pre @ post))) False
    st (joint (k_tools K) states st3) True
    (\<lambda>M u. if cases_ok (k_language K) M w (pre @ post) then runs_list (k_language K) (chosen_statement (k_language K) w (pre @ post)) M u
      else None) (\<lambda>b. \<not> b)"
proof -
  let ?X = "k_tools K" and ?L = "k_language K" and ?cs = "pre @ post" and ?A = "k_actionNodes K"
    and ?pre = "concat (map (case_nodes (k_tools K)) pre)" and ?post = "concat (map (case_nodes (k_tools K)) post)"
  have all: "\<forall>c \<in> set pre. sc_label c \<noteq> None" using labels by (auto simp: labels_ok_def)
  note last = ends_withD [OF post]
  obtain s2 g2 s3 g3 where st2: "st2 = (s2, g2)" and st3: "st3 = (s3, g3)" by (cases st2; cases st3) auto
  note sim = run_all_simulates [OF rest final]
  note run = simulatesD(1) [OF sim]
  note cases' = cases [unfolded st2] and run' = run [unfolded st2 st3]
  have start: "spawned {} st [] st" by (rule spawned_start) simp
  note spawned = step_cases_spawned [OF cases' all blocks start]
  have steps: "steps_to (set (concat (map (case_nodes ?X) ?cs)) \<union> ?A) st (joint ?X states st3)"
  proof -
    from spawned have "spawned (set ?pre \<union> ?A) st states (s2, g2)" by simp
    from spawned_original [OF this run'] have "spawned (set ?pre \<union> ?A \<union> (set (block_nodes ?X ss) \<union> ?A)) st states st3"
      by (simp add: st3)
    from this have "spawned (set (concat (map (case_nodes ?X) ?cs)) \<union> ?A) st states st3"
      by (rule spawned_mono) (use last(5) [of ?X] in auto)
    then show ?thesis by (rule spawned_join)
  qed
  have sel: "chosen_statement ?L w ?cs = selected ?L w False ?cs" by (simp add: selected_def)
  have cond: "cond_typed None" "cond_value (k_env K) None False" by (simp_all add: cond_typed_def cond_value_def)
  have typed: "env_ok K V st2" "\<And>a g. a \<in> set states \<Longrightarrow> env_ok K V (a, g)" "env_ok K V st3" if "env_ok K V st"
    using step_cases_typed [OF cases labels v(1) blocks that cond(1)] simulatesD(2) [OF sim] by blast+
  show ?thesis
  proof (rule simulatesI [OF steps])
    show "env_ok K V (joint ?X states st3) \<and> True" if "env_ok K V st"
      using joint_env_ok [OF laws] typed [OF that] by blast
    fix u z u'
    assume pre: "env_ok K V st" "describes K V st u" "False \<or> reached K st"
      and r: "(if cases_ok ?L no_monitor w ?cs then runs_list ?L (chosen_statement ?L w ?cs) no_monitor u else None) = Some (z, u')"
    from r have chosen: "runs_list ?L (selected ?L w False ?cs) no_monitor u = Some (z, u')" by (simp add: sel split: if_splits)
    have reach: "reached K st" using pre(3) by simp
    note vals = step_cases_value [OF cases labels v blocks pre(1) cond reach]
    have st2_ok: "describes K V st2 u" "False \<or> reached K st2"
      using spawned pre(2) reach by (simp_all add: st2 describes_def reached_def getExecutionCondition_def)
    have taken: "runs_list ?L (selected ?L w False pre) no_monitor u = Some (z, u')" if "True \<in> set (flags ?L w False pre)"
      using flags_selected [OF that, of post] chosen by simp
    have default: "runs_list ?L ss no_monitor u = Some (z, u')" "selected ?L w False ?cs = ss"
      if "True \<notin> set (flags ?L w False pre)"
      using chosen unfolding flags_default [OF that, of post] last(3) by simp_all
    have d: "describes K V st3 u'" "\<not> z" if "True \<notin> set (flags ?L w False pre)"
      using simulatesD(4,5) [OF sim typed(1) [OF pre(1)] st2_ok default(1) [OF that]] by simp_all
    have b: "describes K V (a, g) u' \<and> \<not> z" if a: "(a, True) \<in> set (zip states (flags ?L w False pre))" for a g
    proof -
      from a have t: "True \<in> set (flags ?L w False pre)" by (rule set_zip_rightD)
      have "length (filter (case_matches ?L w) pre) \<le> (if False then 0 else 1)" using one by simp
      from conjunct2 [OF vals, rule_format, OF this a pre(2) taken [OF t]] show ?thesis .
    qed
    have "describes K V (joint ?X states st3) u'"
      by (rule joint_describes [OF laws conjunct1 [OF vals] typed(2) [OF pre(1)] conjunct1 [OF b] typed(3) [OF pre(1)]])
        (use d(1) in blast)+
    moreover have "\<not> z"
    proof (cases "True \<in> set (flags ?L w False pre)")
      case True
      have len: "length states = length (flags ?L w False pre)" using conjunct1 [OF vals] by (rule list_all2_lengthD)
      from True obtain i where "i < length (flags ?L w False pre)" "flags ?L w False pre ! i = True" by (auto simp: in_set_conv_nth)
      with len have "(states ! i, True) \<in> set (zip states (flags ?L w False pre))"
        by (auto simp: in_set_zip intro!: exI [of _ i])
      with b show ?thesis by blast
    next
      case False
      with d(2) show ?thesis .
    qed
    ultimately show "describes K V (joint ?X states st3) u' \<and> \<not> z" ..
    fix RC SC
    assume o: "observed K (concat (map (case_nodes ?X) ?cs)) (concat (map case_bases ?cs)) st (joint ?X states st3) RC SC"
    have od: "consistent st" "fresh (set ?pre \<union> set ?post) st" "distinct ?pre" "distinct ?post" "set ?pre \<inter> set ?post = {}"
      "set ?pre \<inter> ?A = {}" "set ?post \<inter> ?A = {}" "agrees (set ?pre \<union> set ?post) (joint ?X states (s3, g3)) RC SC"
      "\<forall>n \<in> set (concat (map case_bases pre)). SC n = None" "\<forall>n \<in> set (block_bases ss). SC n = None"
      using o unfolding observed_def st3 by (auto simp: Int_Un_distrib2 last(4) [symmetric] simp del: set_concat)
    have clones: "clones_ok [] st" using od(1) by (simp add: clones_ok_def)
    note joint = step_cases_joint [OF cases' all blocks clones]
    have ok2: "clones_ok states (s2, g2)" using joint by simp
    note main = original_run [OF ok2 run']
    let ?M = "monitor_of K RC SC"
    have agree_pre: "agrees (set ?pre) (joint ?X ([] @ states) (s2, g2)) RC SC"
    proof (rule agrees_keeps [OF agrees_mono [OF od(8)]])
      show "condition_at (joint ?X states (s3, g3)) n = condition_at (joint ?X ([] @ states) (s2, g2)) n \<and>
          value_at (joint ?X states (s3, g3)) n = value_at (joint ?X ([] @ states) (s2, g2)) n" if "n \<in> set ?pre" for n
        unfolding append_Nil by (rule main(2)) (use that od(5,6) last(5) [of ?X] in blast)
    qed simp
    have fresh_pre: "fresh (set ?pre) (joint ?X [] st)" using fresh_mono [OF od(2)] by simp
    note monitored = step_cases_monitored [OF cases' labels v blocks pre(1) cond reach clones fresh_pre od(3,6) agree_pre od(9)]
    have "cases_ok ?L ?M w ?cs" using conjunct1 [OF monitored] last(2) by (auto simp: cases_ok_def)
    moreover have "runs_list ?L (selected ?L w False ?cs) ?M u = Some (z, u')"
    proof (cases "True \<in> set (flags ?L w False pre)")
      case True
      from conjunct2 [OF monitored, rule_format, OF True pre(2) taken [OF True]] show ?thesis
        using flags_selected [OF True, of post] by simp
    next
      case False
      have fresh: "fresh (set (block_nodes ?X ss)) (joint ?X states (s2, g2))"
      proof (rule fresh_keeps [OF fresh_mono [OF od(2)]])
        show "condition_at (joint ?X states (s2, g2)) n = condition_at st n \<and> value_at (joint ?X states (s2, g2)) n = value_at st n"
          if "n \<in> set (block_nodes ?X ss)" for n
        proof -
          have "n \<notin> set ?pre \<union> ?A" using that od(5,7) last(5) [of ?X] by blast
          from conjunct2 [OF joint, rule_format, OF this] show ?thesis by simp
        qed
      qed (use last(5) [of ?X] in auto)
      have "observed K (block_nodes ?X ss) (block_bases ss) (s2, g2) (s3, g3) RC SC"
        by (rule original_observed [OF ok2 run' fresh agrees_mono [OF od(8)] last(6) [OF od(4)] _ od(10)])
          (use last(5) [of ?X] od(7) in blast)+
      from simulatesD(6) [OF sim typed(1) [OF pre(1)] st2_ok default(1) [OF False] this [folded st2 st3]]
      show ?thesis by (simp only: default(2) [OF False])
    qed
    ultimately show "(if cases_ok ?L ?M w ?cs then runs_list ?L (chosen_statement ?L w ?cs) ?M u else None) = Some (z, u')"
      by (simp add: sel)
  qed
qed

text \<open>What a part does before it is known to be typed, and what it does after.\<close>

lemma simulates_after:
  assumes 1: "computes K V g e st v st1" and steps: "steps_to (set N \<union> k_actionNodes K) st1 st2"
    and 2: "\<And>w. typed_as v (ptype K e) \<Longrightarrow> eval (k_env K) v = Some w \<Longrightarrow> simulates K V N B g st1 st2 True (sem2 w) Q"
    and env: "env_ok K V st1 \<Longrightarrow> typed_as v (ptype K e) \<Longrightarrow> env_ok K V st2"
    and sem: "\<And>M s. sem M s = (case peval (k_language K) M e s of None \<Rightarrow> None | Some (w, s1) \<Rightarrow> sem2 w M s1)"
  shows "simulates K V (enodes (k_tools K) e @ N) (bnodes e @ B) g st st2 True sem Q"
proof (cases "env_ok K V st")
  case True
  note typed = simulatesD(3) [OF 1 True]
  show ?thesis
    by (rule simulates_bind_if [OF 1 steps _ 2 [OF typed] _ _ sem]) (use env typed in auto)
next
  case False
  show ?thesis
    by (rule simulates_trivial [OF steps_to_mono [OF steps_to_trans [OF simulatesD(1) [OF 1] steps]] False]) auto
qed

lemma switch_simulates:
  assumes agree: "agreement K" and tables: "tables_sound K C" and wt: "wt_stmt K V (SSwitch n e cs)"
    and blocks: "blocks_sound K V body cs" and run: "step_switch (k_tools K) C e cs body st = Inr st'"
  shows "simulates K V (snodes (k_tools K) (SSwitch n e cs)) (sbases (SSwitch n e cs)) False st st' True
    (runs (k_language K) (SSwitch n e cs)) (\<lambda>b. \<not> b)"
proof -
  let ?X = "k_tools K" and ?L = "k_language K"
  from agree have laws: "env_laws ?X" by (simp add: agreement_def stores_agree_def)
  from wt have e: "wt K V e" and last: "default_last cs" and distinct: "distinct (map (l_label ?L) (labels_of cs))"
    and labels: "\<forall>c \<in> set cs. \<forall>l \<in> set_option (sc_label c). \<exists>lit. case_label (is_table_mode e) l = Inr lit \<and>
        typed_as lit (ptype K e) \<and> eval (k_env K) lit = Some (l_label ?L l)" by auto
  from run obtain v st1 states st2 st3 where s: "evaluate ?X C e st = Inr (v, st1)"
    "step_cases ?X (is_table_mode e) v body None cs st1 = Inr (states, st2)"
    "(case default_statement cs of None \<Rightarrow> Inr st2 | Some None \<Rightarrow> Inl Bug | Some (Some ss) \<Rightarrow> run_all body ss st2) = Inr st3"
    "st' = joint ?X states st3"
    by (auto simp: step_switch_def option_simps joint_def)
  from last s(3) obtain pre post ss where split: "cs = pre @ post" "\<forall>c \<in> set pre. sc_label c \<noteq> None" "ends_with post ss"
    "run_all body ss st2 = Inr st3" by (rule split_cases)
  have cases: "step_cases ?X (is_table_mode e) v body None pre st1 = Inr (states, st2)"
    using s(2) step_cases_append [OF split(2) ends_withD(1) [OF split(3)], of ?X "is_table_mode e" v body None st1]
    by (simp add: split(1))
  have labels_pre: "labels_ok K (is_table_mode e) (ptype K e) pre"
    unfolding labels_ok_def
  proof
    fix c
    assume c: "c \<in> set pre"
    with split(2) obtain l where l: "sc_label c = Some l" by blast
    with labels c split(1) show "\<exists>l lit. sc_label c = Some l \<and> case_label (is_table_mode e) l = Inr lit \<and> typed_as lit (ptype K e) \<and>
        eval (k_env K) lit = Some (l_label ?L l)" by auto
  qed
  have blocks_pre: "blocks_sound K V body pre" using blocks by (auto simp: blocks_sound_def split(1))
  have rest: "\<forall>x \<in> set ss. steps_sound K V body x"
    using blocks split(3) by (auto simp: blocks_sound_def split(1) ends_with_def)
  have "distinct (map (l_label ?L) (labels_of pre))" using distinct by (simp add: split(1) labels_of_def)
  note one = one_label [OF this split(2)]
  note after = cases_simulate [OF laws split(3) labels_pre blocks_pre rest one _ _ cases split(4), folded split(1) s(4)]
  have steps: "steps_to (set (concat (map (case_nodes ?X) cs)) \<union> k_actionNodes K) st1 st'"
  proof -
    obtain s2 g2 s3 g3 where st2: "st2 = (s2, g2)" and st3: "st3 = (s3, g3)" by (cases st2; cases st3) auto
    have "spawned {} st1 [] st1" by (rule spawned_start) simp
    from step_cases_spawned [OF cases split(2) blocks_pre this]
    have "spawned (set (concat (map (case_nodes ?X) pre)) \<union> k_actionNodes K) st1 states (s2, g2)" by (simp add: st2)
    from spawned_original [OF this simulatesD(1) [OF run_all_simulates [OF rest split(4)], unfolded st2 st3]]
    have "spawned (set (concat (map (case_nodes ?X) cs)) \<union> k_actionNodes K) st1 states st3"
      unfolding st3 by (rule spawned_mono) (use ends_withD(5) [OF split(3), of ?X] in \<open>auto simp: split(1)\<close>)
    then show ?thesis unfolding s(4) by (rule spawned_join)
  qed
  have env: "env_ok K V st'" if "env_ok K V st1" "typed_as v (ptype K e)"
    using step_cases_typed [OF cases labels_pre that(2) blocks_pre that(1)] joint_env_ok [OF laws, of V st3 states]
      simulatesD(2) [OF run_all_simulates [OF rest split(4)]] by (simp add: cond_typed_def s(4))
  have "simulates K V (enodes ?X e @ concat (map (case_nodes ?X) cs)) (bnodes e @ concat (map case_bases cs)) False st st' True
      (runs ?L (SSwitch n e cs)) (\<lambda>b. \<not> b)"
  proof (rule simulates_after [OF evaluate_computes [OF agree tables e s(1)] steps after env])
    show "runs ?L (SSwitch n e cs) M s = (case peval ?L M e s of None \<Rightarrow> None | Some (w, s1) \<Rightarrow>
        if cases_ok ?L M w cs then runs_list ?L (chosen_statement ?L w cs) M s1 else None)" for M s
      by (cases "peval ?L M e s") (auto simp: runs_def runs_list_def)
  qed
  then show ?thesis by (simp add: case_nodes_def case_bases_def cong: map_cong)
qed

lemma if_simulates:
  assumes agree: "agreement K" and tables: "tables_sound K C" and wt: "wt_stmt K V (SIf n c t f)"
    and t: "steps_sound K V (step (k_tools K) C) t" and f: "\<forall>f' \<in> set_option f. steps_sound K V (step (k_tools K) C) f'"
    and run: "step (k_tools K) C (SIf n c t f) st = Inr st'"
  shows "simulates K V (snodes (k_tools K) (SIf n c t f)) (sbases (SIf n c t f)) False st st' True
    (runs (k_language K) (SIf n c t f)) (\<lambda>b. \<not> b)"
proof -
  let ?X = "k_tools K" and ?L = "k_language K"
    and ?NF = "case f of None \<Rightarrow> [] | Some f' \<Rightarrow> snodes (k_tools K) f'" and ?BF = "case f of None \<Rightarrow> [] | Some f' \<Rightarrow> sbases f'"
    and ?F = "\<lambda>M s. case f of None \<Rightarrow> Some (False, s) | Some f' \<Rightarrow> runs (k_language K) f' M s"
  from agree have laws: "env_laws ?X" by (simp add: agreement_def stores_agree_def)
  from wt have c: "wt K V c" "ptype K c = Type_Boolean" by auto
  from run obtain v st1 s g a g1 s' g2 where e: "evaluate ?X C c st = Inr (v, st1)"
    "annotate_reachability ?X n v st1 = Inr (s, g)" "step ?X C t (pushExecutionCondition v s, g) = Inr (a, g1)"
    "(case f of None \<Rightarrow> Inr (s, g1) | Some f' \<Rightarrow> step ?X C f' (s, g1)) = Inr (s', g2)" "st' = (es_merge ?X a s', g2)"
    by (fastforce simp: option_simps)
  have true: "simulates K V (snodes ?X t) (sbases t) False (pushExecutionCondition v s, g) (a, g1) True (runs ?L t) (\<lambda>b. \<not> b)"
    using t e(3) by (simp add: steps_sound_def)
  have false: "simulates K V ?NF ?BF False (s, g1) (s', g2) True ?F (\<lambda>b. \<not> b)"
    using f e(4) by (cases f) (auto simp: steps_sound_def intro: simulates_skip)
  have after: "simulates K V (n # snodes ?X t @ ?NF) (sbases t @ ?BF) False st1 st' True
      (\<lambda>M u. case w of VBool b \<Rightarrow> if m_cond M n b then (if b then runs ?L t M u else ?F M u) else None | _ \<Rightarrow> None) (\<lambda>b. \<not> b)"
    if "typed_as v (ptype K c)" "eval (k_env K) v = Some w" for w
  proof -
    from eval_type [OF that(2)] that(1) c(2) obtain b where w: "w = VBool b" by (cases w) (auto simp: typed_asD)
    with that c(2) branch_simulates [OF laws _ _ e(2) true false] show ?thesis by (simp add: e(5))
  qed
  have steps: "steps_to (set (n # snodes ?X t @ ?NF) \<union> k_actionNodes K) st1 st'"
  proof -
    note s = spawned_original [OF spawned_clone [OF spawned_start [OF annotate_reachability_steps(1) [OF e(2)]]
          simulatesD(1) [OF true] push_fields(2)] simulatesD(1) [OF false]]
    have "steps_to (set (n # snodes ?X t @ ?NF) \<union> k_actionNodes K) st1 (joint ?X [a] (s', g2))"
      by (rule spawned_join [OF spawned_mono [OF s [simplified]]]) auto
    then show ?thesis by (simp add: e(5) joint_def)
  qed
  have env: "env_ok K V st'" if ok: "env_ok K V st1" "typed_as v (ptype K c)"
  proof -
    have s: "env_ok K V (s, g')" for g'
      using same_env(1) [OF annotate_reachability_steps(2) [OF e(2)] steps_to_condition [OF annotate_reachability_steps(1) [OF e(2)]], of K V]
        ok(1) other_store(1) by blast
    have "env_ok K V (a, g1)" using simulatesD(2) [OF true pushed_env_ok [OF s]] ok(2) c(2) by simp
    moreover have "env_ok K V (s', g2)" by (rule simulatesD(2) [OF false s])
    ultimately show ?thesis using merge_env_ok [OF laws] by (simp add: e(5))
  qed
  have "simulates K V (enodes ?X c @ n # snodes ?X t @ ?NF) (bnodes c @ sbases t @ ?BF) False st st' True
      (runs ?L (SIf n c t f)) (\<lambda>b. \<not> b)"
  proof (rule simulates_after [OF evaluate_computes [OF agree tables c(1) e(1)] steps after env])
    fix M s
    show "runs ?L (SIf n c t f) M s = (case peval ?L M c s of None \<Rightarrow> None | Some (w, s1) \<Rightarrow>
        (case w of VBool b \<Rightarrow> if m_cond M n b then (if b then runs ?L t M s1 else ?F M s1) else None | _ \<Rightarrow> None))"
    proof (cases "peval ?L M c s")
      case (Some p)
      obtain w s1 where p: "p = (w, s1)" by (cases p)
      show ?thesis by (cases w; cases f) (auto simp: runs_def Some p)
    qed (simp add: runs_def)
  qed
  then show ?thesis by simp
qed

section \<open>Calls\<close>

lemma call_result:
  assumes "simulates K V N B False st st' T (\<lambda>M s. peval (k_language K) M e s) Q"
  shows "simulates K V N B False st st' True (runs (k_language K) (SCall n e)) (\<lambda>b. \<not> b)"
  by (rule simulates_map [OF assms, where f = "\<lambda>w. Some False"])
    (auto simp: runs_def split: option.splits)

lemma action_simulates:
  assumes action: "action_sound K (cb_callAction C)" and V: "scope_ok K V" and e: "action_call K V e"
    and run: "resolve (k_tools K) C e (None, st) = Inr r"
  shows "simulates K V (enodes (k_tools K) e) (bnodes e) False st (snd r) True (runs (k_language K) (SCall n e)) (\<lambda>b. \<not> b)"
proof -
  from e obtain cn n' t a ds body act where call: "e = PCall cn (PPath n' t a) (Some ds) []" "isAction (k_tools K) (PPath n' t a)"
    "l_refMap (k_language K) a = Some (ActionDecl body)" "getP4Action (k_tools K) e = Some act" "xa_parameters act = []"
    "action_runs K a act" by (auto simp: action_call_def)
  from run call(1,2,4) have f: "cb_callAction C act (map Argument []) st = Inr (snd r)"
    by (auto simp: call_method_def option_simps)
  note sound = action_soundD [OF action call(4) f]
  have args: "args_typed act []" by (simp add: args_typed_def call(5))
  have sem: "peval (k_language K) M e s = map_option (\<lambda>s'. (VTuple [], s')) (run_action (k_language K) a [] [] s)" for M s
    by (simp add: call(1) applied_table_def run_call_def call(3))
  show ?thesis
  proof (rule simulatesI)
    show "steps_to (set (enodes (k_tools K) e) \<union> k_actionNodes K) st (snd r)" by (rule steps_to_mono [OF sound(1)]) simp
    show "env_ok K V (snd r) \<and> True" if "env_ok K V st" using sound(2) [OF V refl args that] by simp
    fix u b u'
    assume pre: "env_ok K V st" "describes K V st u" "False \<or> reached K st"
      and r: "runs (k_language K) (SCall n e) no_monitor u = Some (b, u')"
    then have effect: "run_action (k_language K) a [] [] u = Some u'" and b: "\<not> b"
      by (auto simp: runs_def sem split: option.splits)
    from call(6) effect obtain stopped where "run (k_language K) (xa_body act)
        (declare_all (k_language K) (zip (xa_parameters act) []) u) = Some (u', stopped)" unfolding action_runs_def by blast
    from sound(3) [OF V refl args pre(1,2) _ _ this] pre(3) b show "describes K V (snd r) u' \<and> \<not> b" by simp
    show "runs (k_language K) (SCall n e) (monitor_of K RC SC) u = Some (b, u')" for RC SC
      using r by (simp add: runs_def sem)
  qed
qed

lemma call_simulates:
  assumes agree: "agreement K" and tables: "tables_sound K C" and action: "action_sound K (cb_callAction C)"
    and V: "scope_ok K V" and wt: "wt_stmt K V (SCall n e)" and run: "resolve (k_tools K) C e (None, st) = Inr r"
  shows "simulates K V (enodes (k_tools K) e) (bnodes e) False st (snd r) True (runs (k_language K) (SCall n e)) (\<lambda>b. \<not> b)"
proof -
  from wt consider "wt K V e" | x xt where "table_call K V e x xt" | "action_call K V e" by auto
  then show ?thesis
  proof cases
    case 1
    show ?thesis
      by (rule call_result [OF simulates_weaken [OF resolve_simulates [OF agree tables 1 run, unfolded snd_conv]]]) auto
  next
    case 2
    from table_resolve [OF tables 2 run] show ?thesis by (auto intro: call_result)
  next
    case 3
    show ?thesis by (rule action_simulates [OF action V 3 run])
  qed
qed

section \<open>Statements\<close>

lemma step_simulates:
  assumes agree: "agreement K" and tables: "tables_sound K C" and action: "action_sound K (cb_callAction C)" and V: "scope_ok K V"
    and "wt_stmt K V x"
  shows "steps_sound K V (step (k_tools K) C) x"
  using assms(5)
proof (induction x rule: measure_induct_rule [where f = size])
  case (less x)
  show ?case
    unfolding steps_sound_def
  proof (intro allI impI)
    fix st st'
    assume run: "step (k_tools K) C x st = Inr st'"
    show "simulates K V (snodes (k_tools K) x) (sbases x) False st st' True (runs (k_language K) x) (\<lambda>b. \<not> b)"
    proof (cases x)
      case SEmpty
      with run show ?thesis by (auto simp: runs_def intro: simulates_skip)
    next
      case (SAssign l r)
      with run have "step_assign (k_tools K) C l r st = Inr st'" by simp
      from assign_simulates [OF agree tables V less.prems [unfolded SAssign] this] show ?thesis by (simp add: SAssign)
    next
      case (SIf n c t f)
      have "steps_sound K V (step (k_tools K) C) t" using less.prems by (intro less.IH) (auto simp: SIf)
      moreover have "\<forall>f' \<in> set_option f. steps_sound K V (step (k_tools K) C) f'"
        using less.prems by (intro ballI less.IH) (auto simp: SIf)
      ultimately show ?thesis using if_simulates [OF agree tables] less.prems run unfolding SIf by blast
    next
      case (SSwitch n e cs)
      have "blocks_sound K V (step (k_tools K) C) cs"
        unfolding blocks_sound_def
      proof (intro ballI)
        fix c ss y
        assume *: "c \<in> set cs" "ss \<in> set_option (sc_statement c)" "y \<in> set ss"
        then have "size y < size x" using case_statement_size [of c cs ss y] by (auto simp: SSwitch)
        with less.prems * show "steps_sound K V (step (k_tools K) C) y" by (intro less.IH) (auto simp: SSwitch)
      qed
      from switch_simulates [OF agree tables _ this] less.prems run show ?thesis unfolding SSwitch by simp
    next
      case (SCall n e)
      with run obtain r where r: "resolve (k_tools K) C e (None, st) = Inr r" "snd r = st'" by (auto simp: option_simps)
      from call_simulates [OF agree tables action V less.prems [unfolded SCall] r(1)] show ?thesis by (simp add: SCall r(2))
    next
      case (SBlock ss)
      have "\<forall>y \<in> set ss. steps_sound K V (step (k_tools K) C) y"
      proof
        fix y
        assume y: "y \<in> set ss"
        then have "size y < size x" using block_statement_size by (auto simp: SBlock)
        with less.prems y show "steps_sound K V (step (k_tools K) C) y" by (intro less.IH) (auto simp: SBlock)
      qed
      from run_all_simulates [OF this, of st st'] run show ?thesis
        by (simp add: SBlock runs_def [abs_def] runs_list_def [abs_def])
    qed (use less.prems in auto)
  qed
qed

text \<open>Every depth of calls: the contracts of the callbacks hold with any fuel.\<close>

lemma callbacks_sound:
  assumes agree: "agreement K"
  shows "tables_sound K (callbacks_of (k_tools K) fuel) \<and> action_sound K (cb_callAction (callbacks_of (k_tools K) fuel))"
proof (induction fuel)
  case 0
  show ?case by (simp add: tables_sound_def action_sound_def)
next
  case (Suc fuel)
  let ?C = "callbacks_of (k_tools K) fuel"
  have body: "body_sound K (step (k_tools K) ?C)"
    unfolding body_sound_def using step_simulates [OF agree conjunct1 [OF Suc] conjunct2 [OF Suc]] by (simp add: steps_sound_def)
  have "action_sound K (callAction (k_tools K) (step (k_tools K) ?C))" by (rule callAction_sound [OF agree body])
  moreover have "tables_sound K (callbacks_of (k_tools K) (Suc fuel))"
    by (rule processTable_sound [OF agree body, of _ ?C]) (simp add: Let_def)
  ultimately show ?case by (simp add: Let_def)
qed

lemma stepper_simulates:
  assumes "agreement K" and "scope_ok K V" and "wt_stmt K V x" and "apply_stepper (k_tools K) fuel x st = Inr st'"
  shows "simulates K V (snodes (k_tools K) x) (sbases x) False st st' True (runs (k_language K) x) (\<lambda>b. \<not> b)"
  using step_simulates [OF assms(1) _ _ assms(2,3)] callbacks_sound [OF assms(1), of fuel] assms(4)
  by (auto simp: steps_sound_def apply_stepper_def)

end
