(* ===== verification/SymbolicResults.thy ===== *)
theory SymbolicResults
  imports StepperSoundness
begin

text \<open>
  What the soundness of the stepper says of a program that is executed once, and a setting in which
  all the assumptions hold, with a table, an action and a branch.
\<close>

declare split_paired_All [simp del] split_paired_Ex [simp del]

section \<open>A setting\<close>

definition demo_action :: exec_action where
  "demo_action =
     \<lparr>xa_controlPlaneName = ''a'', xa_parameters = [],
      xa_body = SAssign (PPath (Node 21 0) Type_Boolean ''d'') (PLit (BoolLiteral True))\<rparr>"

definition demo_action_call :: pexp where
  "demo_action_call = PCall (Node 22 0) (PPath (Node 23 0) Type_Unknown ''a'') (Some []) []"

definition demo_exec_table :: exec_table where
  "demo_exec_table =
     \<lparr>xt_controlPlaneName = ''t'', xt_key = None,
      xt_actionList = Some [\<lparr>al_node = Node 24 0, al_expression = demo_action_call, al_controlPlaneName = ''a'',
        al_defaultOnly = False, al_tableOnly = False\<rparr>],
      xt_defaultAction = demo_action_call\<rparr>"

fun demo_findTable :: "pexp \<Rightarrow> exec_table option" where
  "demo_findTable (PMember n t (PPath n' t' x) m) = (if x = ''t'' \<and> m = ''apply'' then Some demo_exec_table else None)"
| "demo_findTable _ = None"

fun demo_isAction :: "pexp \<Rightarrow> bool" where
  "demo_isAction (PPath n t x) \<longleftrightarrow> x = ''a''"
| "demo_isAction _ \<longleftrightarrow> False"

fun demo_getP4Action :: "pexp \<Rightarrow> exec_action option" where
  "demo_getP4Action (PCall n m ds args) = (if demo_isAction m then Some demo_action else None)"
| "demo_getP4Action _ = None"

definition demo_interpreter :: "((StateVariable \<times> expr) list, expr) interpreter" where
  "demo_interpreter =
     \<lparr>env_get = map_of, env_set = (\<lambda>v e E. (v, e) # E), getInternalMap = AList.clearjunk,
      convertToComplexExpression = (\<lambda>E v t. None), assignStructLike = (\<lambda>v e E. None), opt_strict = False,
      opt_usePlaceholders = False,
      it_backend = ir_backend, it_symbols = example_symbols, it_compiler = example_compiler, it_target = Bmv2,
      isSymbolicValue = (\<lambda>e. False), equate = mk_Equ,
      eliminate = (\<lambda>t op a b. SymbolicVariable (SVar False t ''eliminated'')), inOutValue = (\<lambda>v e. e),
      findTable = demo_findTable, getP4Action = demo_getP4Action, isAction = demo_isAction,
      isExternObject = (\<lambda>e. False), isHeader = (\<lambda>e. False), isExternParameter = (\<lambda>m i. False),
      getHeaderValidity = (\<lambda>v. v), initializeStructLike = (\<lambda>v E. E),
      processExtern = (\<lambda>info st. Inl Unimplemented), getCanonicalBlockName = Some, getParamName = (\<lambda>n i. n),
      copyIn = (\<lambda>p n E. E), copyOut = (\<lambda>p n E. E), declareVariable = (\<lambda>d E. E),
      initializeControlState = (\<lambda>c st. Inr st)\<rparr>"

definition demo_values :: "ReferenceMap \<Rightarrow> (string \<Rightarrow> val option) p4_language" where
  "demo_values refs =
     \<lparr>l_refMap = refs, l_path = (\<lambda>x s. s x),
      l_member = (\<lambda>m v. case v of VStruct xs vs \<Rightarrow> map_of (zip xs vs) m | _ \<Rightarrow> None),
      l_op = (\<lambda>f vs. if is_saturating f then None else operator_val f vs), l_call = (\<lambda>m outs vs s. None),
      l_action = (\<lambda>a outs vs s. if a = ''a'' \<and> vs = [] then Some (s(''d'' \<mapsto> VBool True)) else None),
      l_pick = (\<lambda>t s. if t = ''t'' then Some (''a'', [], False) else None),
      l_label = (\<lambda>e. case e of PLit (BoolLiteral b) \<Rightarrow> VBool b | _ \<Rightarrow> VTuple []),
      l_assign = (\<lambda>l v s. case l of PPath n t x \<Rightarrow> Some (s(x \<mapsto> v)) | _ \<Rightarrow> None),
      l_declare = (\<lambda>x v s. s(x := v)), l_other = (\<lambda>x s. None)\<rparr>"

definition demo_env :: env where
  "demo_env k =
     (if k = sv_key (getTableActionChoice example_symbols ''t'') then VStr ''none''
      else if k = sv_key (getDefaultActionVariable ''t'') then VStr ''a'' else VBool False)"

fun demo_type :: "StateVariable \<Rightarrow> ty" where
  "demo_type (VarPath x) = Type_Boolean"
| "demo_type _ = Type_Struct [] []"

definition demo_setting :: "ReferenceMap \<Rightarrow> ((StateVariable \<times> expr) list, expr, string \<Rightarrow> val option) setting" where
  "demo_setting refs =
     \<lparr>k_tools = demo_interpreter, k_language = demo_values refs, k_env = demo_env, k_type = demo_type,
      k_callType = (\<lambda>e. Type_Boolean), k_nodeType = (\<lambda>n. Type_Boolean), k_scope = {VarPath ''c'', VarPath ''d''},
      k_actionNodes = {}\<rparr>"

lemmas demo_setting_simps [simp] =
  demo_setting_def [THEN arg_cong [where f = k_tools], simplified]
  demo_setting_def [THEN arg_cong [where f = k_language], simplified]
  demo_setting_def [THEN arg_cong [where f = k_env], simplified]
  demo_setting_def [THEN arg_cong [where f = k_type], simplified]
  demo_setting_def [THEN arg_cong [where f = k_callType], simplified]
  demo_setting_def [THEN arg_cong [where f = k_nodeType], simplified]
  demo_setting_def [THEN arg_cong [where f = k_scope], simplified]
  demo_setting_def [THEN arg_cong [where f = k_actionNodes], simplified]

lemma demo_operators: "operators_agree (demo_setting refs)"
  by (auto simp: operators_agree_def demo_values_def demo_interpreter_def is_saturating_def mk_Equ_def eval_Binary_Some
      typed_as_def eq_val_def split: if_splits)

lemma demo_stores: "stores_agree (demo_setting refs)"
  unfolding stores_agree_def
proof (intro conjI allI impI; (elim conjE)?)
  show "env_laws (k_tools (demo_setting refs))"
    by (simp add: env_laws_def demo_interpreter_def map_of_clearjunk distinct_clearjunk)
next
  fix l v w s s' v'
  assume "to_StateVariable l = Some v" "l_assign (k_language (demo_setting refs)) l w s = Some s'"
    and "is_Type_Base (k_type (demo_setting refs) v')"
  then show "read_var (k_language (demo_setting refs)) v' s' = (if v' = v then Some w else read_var (k_language (demo_setting refs)) v' s)"
    by (cases v') (auto simp: demo_values_def split: pexp.splits if_splits)
next
  fix x w s v'
  assume "is_Type_Base (k_type (demo_setting refs) v')"
  then show "read_var (k_language (demo_setting refs)) v' (l_declare (k_language (demo_setting refs)) x (Some w) s) =
      (if v' = VarPath x then Some w else read_var (k_language (demo_setting refs)) v' s)"
    by (cases v') (auto simp: demo_values_def)
qed

lemma demo_externs: "externs_agree (demo_setting refs)"
  by (simp add: externs_agree_def demo_interpreter_def)

lemma demo_findTable_Some: "demo_findTable m = Some xt \<Longrightarrow> xt = demo_exec_table"
  by (induction m rule: demo_findTable.induct) (auto split: if_splits)

lemma demo_variables:
  "eval demo_env (SymbolicVariable (getTableActive example_symbols ''t'')) = Some (VBool False)"
  "eval demo_env (SymbolicVariable (getTableActionChoice example_symbols ''t'')) = Some (VStr ''none'')"
  "eval demo_env (SymbolicVariable (getDefaultActionVariable ''t'')) = Some (VStr ''a'')"
  by (simp_all add: demo_env_def example_symbols_def getDefaultActionVariable_def sv_key_def typed_def)

lemma demo_pick: "picks (demo_setting refs) demo_exec_table
    [\<lparr>al_node = Node 24 0, al_expression = demo_action_call, al_controlPlaneName = ''a'',
      al_defaultOnly = False, al_tableOnly = False\<rparr>] ''a'' [] False"
  unfolding picks_def Let_def
proof (intro exI conjI)
  show "eval (k_env (demo_setting refs)) (SymbolicVariable (getTableActive (it_symbols (k_tools (demo_setting refs)))
      (xt_controlPlaneName demo_exec_table))) = Some (VBool False)"
    and "eval (k_env (demo_setting refs)) (SymbolicVariable (getTableActionChoice (it_symbols (k_tools (demo_setting refs)))
      (xt_controlPlaneName demo_exec_table))) = Some (VStr ''none'')"
    and "eval (k_env (demo_setting refs)) (SymbolicVariable (getDefaultActionVariable
      (xt_controlPlaneName demo_exec_table))) = Some (VStr ''a'')"
    using demo_variables by (simp_all add: demo_interpreter_def demo_exec_table_def)
qed (auto simp: action_of_def demo_interpreter_def demo_action_call_def demo_action_def configured_arguments_def
      createActionCallArguments_def)

lemma demo_picks: "picks_agree (demo_setting refs)"
  unfolding picks_agree_def
proof (intro conjI allI impI; (elim conjE exE)?)
  fix m t xt s a vs hit n ty n' ty'
  assume "findTable (k_tools (demo_setting refs)) m = Some xt" "l_pick (k_language (demo_setting refs)) t s = Some (a, vs, hit)"
  then have "xt = demo_exec_table" "a = ''a''" "vs = []" "hit = False"
    using demo_findTable_Some by (auto simp: demo_interpreter_def demo_values_def split: if_splits)
  then show "picks (demo_setting refs) xt (case xt_actionList xt of None \<Rightarrow> [] | Some acts \<Rightarrow> acts) a vs hit"
    using demo_pick by (simp add: demo_exec_table_def)
qed (simp_all add: demo_values_def apply_result_def)

lemma demo_getP4Action_Some: "demo_getP4Action c = Some act \<Longrightarrow> act = demo_action"
  by (induction c rule: demo_getP4Action.induct) (auto split: if_splits)

lemma demo_actions: "actions_ok (demo_setting refs)"
  unfolding actions_ok_def
proof (intro allI impI)
  fix call act
  assume "getP4Action (k_tools (demo_setting refs)) call = Some act"
  then have "act = demo_action" using demo_getP4Action_Some by (simp add: demo_interpreter_def)
  then show "set (snodes (k_tools (demo_setting refs)) (xa_body act)) \<subseteq> k_actionNodes (demo_setting refs) \<and>
      parameters_ok (demo_setting refs) act \<and>
      (\<forall>V. k_scope (demo_setting refs) \<union> parameter_vars act \<subseteq> V \<longrightarrow> wt_stmt (demo_setting refs) V (xa_body act))"
    by (simp add: demo_action_def parameters_ok_def)
qed

lemma demo_action_runs:
  assumes "refs ''a'' \<noteq> Some (ActionDecl [])"
  shows "action_runs (demo_setting refs) ''a'' demo_action"
  using assms
  by (auto simp: action_runs_def run_action_def demo_action_def demo_values_def literal_value_def split: if_splits)

lemma demo_tables:
  assumes "refs ''a'' \<noteq> Some (ActionDecl [])"
  shows "tables_ok (demo_setting refs)"
  unfolding tables_ok_def
proof (intro allI impI)
  fix m xt
  assume "findTable (k_tools (demo_setting refs)) m = Some xt"
  then have "xt = demo_exec_table" using demo_findTable_Some by (simp add: demo_interpreter_def)
  with demo_action_runs [of refs, OF assms]
  show "(\<forall>key. xt_key xt = Some key \<longrightarrow> (\<forall>kf \<in> set key. call_free (kf_expression kf) \<and>
        set (enodes (k_tools (demo_setting refs)) (kf_expression kf)) \<subseteq> k_actionNodes (demo_setting refs))) \<and>
      (\<forall>acts. xt_actionList xt = Some acts \<longrightarrow> (\<forall>el \<in> set acts. \<forall>act. action_of (k_tools (demo_setting refs)) el = Some act \<longrightarrow>
        action_runs (demo_setting refs) (al_controlPlaneName el) act \<and> parameter_vars act \<inter> k_scope (demo_setting refs) = {})) \<and>
      (\<forall>act n dm ds args es. getP4Action (k_tools (demo_setting refs)) (xt_defaultAction xt) = Some act \<and>
        xt_defaultAction xt = PCall n dm ds args \<and> all_some (map as_expr args) = Some es \<longrightarrow>
        action_runs (demo_setting refs) (getDefaultActionName xt) act \<and> parameter_vars act \<inter> k_scope (demo_setting refs) = {} \<and>
        list_all2 (\<lambda>p e. typed_as e (pp_type p)) (xa_parameters act) es)"
    by (auto simp: demo_exec_table_def demo_action_call_def demo_interpreter_def action_of_def getDefaultActionName_def
        parameter_vars_def demo_action_def)
qed

lemma demo_agreement:
  assumes "refs ''a'' \<noteq> Some (ActionDecl [])"
  shows "agreement (demo_setting refs)"
  using demo_operators demo_stores demo_externs demo_picks demo_actions demo_tables [of refs, OF assms]
  by (auto simp: agreement_def symbols_ok_def demo_interpreter_def example_symbols_def)

section \<open>Executing a statement once\<close>

text \<open>Every node of a statement occurs once, and in no action; the inner nodes of member chains carry no annotations.\<close>

definition nodes_ok :: "('e, 'z, 's) setting \<Rightarrow> stmt \<Rightarrow> bool" where
  "nodes_ok K x \<longleftrightarrow> distinct (snodes (k_tools K) x) \<and> set (snodes (k_tools K) x) \<inter> k_actionNodes K = {} \<and>
     set (sbases x) \<inter> (set (snodes (k_tools K) x) \<union> k_actionNodes K) = {}"

abbreviation nodes_of :: "('e, 'z, 's) setting \<Rightarrow> stmt \<Rightarrow> node set" where
  "nodes_of K x \<equiv> set (snodes (k_tools K) x) \<union> set (sbases x)"

text \<open>
  A state before an execution: consistent, with all variables in scope typed, describing the state \<open>u\<close>
  of the program, and reached.
\<close>

definition ready :: "('e, 'z, 's) setting \<Rightarrow> StateVariable set \<Rightarrow> ('e, 'z) exec_state \<Rightarrow> 's \<Rightarrow> bool" where
  "ready K V st u \<longleftrightarrow> consistent st \<and> env_ok K V st \<and> describes K V st u \<and> reached K st"

lemma stepper_observed:
  assumes "agreement K" and "scope_ok K V" and "wt_stmt K V x" and nodes: "nodes_ok K x"
    and run: "apply_stepper (k_tools K) fuel x st = Inr st'" and ready: "ready K V st u" and "fresh (nodes_of K x) st"
    and "run (k_language K) x u = Some (u', stopped)"
    and rest: "steps_to N st' st2" "N \<inter> nodes_of K x = {}"
  shows "\<not> stopped \<and> ready K V st' u' \<and>
    exec (k_language K) (monitor_of K (condition_at st2) (value_at st2)) x u = Some (u', stopped)"
proof -
  note sim = stepper_simulates [OF assms(1-3) run]
  have pre: "env_ok K V st" "describes K V st u" "False \<or> reached K st" "consistent st" using ready by (simp_all add: ready_def)
  have r: "runs (k_language K) x no_monitor u = Some (stopped, u')" using assms(8) by (simp add: runs_def)
  note steps = simulatesD(1) [OF sim]
  have ok: "consistent st'" by (rule steps_to_consistent [OF steps pre(4)])
  have "agrees (set (snodes (k_tools K) x)) st' (condition_at st2) (value_at st2)"
    by (rule steps_to_agrees [OF rest(1) ok]) (use rest(2) in \<open>auto simp: agrees_def\<close>)
  moreover have "value_at st2 n = None" if n: "n \<in> set (sbases x)" for n
  proof -
    have "n \<notin> set (snodes (k_tools K) x) \<union> k_actionNodes K" "n \<notin> N" using n nodes rest(2) by (auto simp: nodes_ok_def)
    with steps_to_at(2) [OF steps pre(4)] steps_to_at(2) [OF rest(1) ok] n assms(7) show ?thesis by (simp add: fresh_def)
  qed
  ultimately have "observed K (snodes (k_tools K) x) (sbases x) st st' (condition_at st2) (value_at st2)"
    using pre(4) nodes fresh_mono [OF assms(7)] by (simp add: observed_def nodes_ok_def)
  from simulatesD(6) [OF sim pre(1-3) r this]
  have "exec (k_language K) (monitor_of K (condition_at st2) (value_at st2)) x u = Some (u', stopped)"
    by (auto simp: runs_def split: option.splits prod.splits)
  moreover have "\<not> stopped" "describes K V st' u'"
    using simulatesD(4,5) [OF sim pre(1-3) r] by simp_all
  moreover have "env_ok K V st'" "reached K st'"
    using simulatesD(2) [OF sim pre(1)] steps_to_reached [OF steps, of K] pre(3) by simp_all
  ultimately show ?thesis using ok by (simp add: ready_def)
qed

text \<open>
  Claim C2. The symbolic execution is right. Take a typed statement whose nodes occur once and have no
  annotations yet, and an environment in which the variables of the configuration describe what the
  tables pick. When the stepper executes the statement from a state that describes the state of the
  program, it arrives in a state that describes the state in which the execution of the program ends,
  and along this execution every branch, case, action and hit test goes the way the condition annotated
  at its node evaluates, and every path and member has the value annotated at its node.
\<close>

theorem symbolic_execution_sound:
  assumes "agreement K" and "scope_ok K V" and "wt_stmt K V x" and "nodes_ok K x"
    and "apply_stepper (k_tools K) fuel x st = Inr st'" and "ready K V st u" and "fresh (nodes_of K x) st"
    and "run (k_language K) x u = Some (u', stopped)"
  shows "\<not> stopped \<and> ready K V st' u' \<and>
    exec (k_language K) (monitor_of K (condition_at st') (value_at st')) x u = Some (u', stopped)"
  by (rule stepper_observed [OF assms, of "{}"]) simp_all

text \<open>
  A table whose default action sets \<open>d\<close>, and a branch on \<open>c\<close>, which holds the symbolic variable of a
  parser value set that is not configured.
\<close>

definition demo_start :: "((StateVariable \<times> expr) list, expr) exec_state" where
  "demo_start =
     (es_create [(VarPath ''c'', SymbolicVariable (getParserValueSetConfigured ''v'')), (VarPath ''d'', BoolLiteral False)],
      \<lparr>an_store = [], an_constraints = [], an_cache = Map.empty, an_errors = 0\<rparr>)"

definition demo_values_start :: "string \<Rightarrow> val option" where
  "demo_values_start = [''c'' \<mapsto> VBool False, ''d'' \<mapsto> VBool False]"

definition demo_refs :: ReferenceMap where
  "demo_refs =
     [''t'' \<mapsto> TableDecl \<lparr>td_isImmutable = False, td_actions = [(Node 24 0, ''a'')], td_defaultAction = Some demo_action_call\<rparr>,
      ''a'' \<mapsto> ActionDecl [xa_body demo_action]]"

definition demo_if :: stmt where
  "demo_if = SIf (Node 3 0) (PPath (Node 4 0) Type_Boolean ''c'')
     (SAssign (PPath (Node 5 0) Type_Boolean ''d'') (PLit (BoolLiteral True))) None"

definition demo_table_call :: pexp where
  "demo_table_call =
     PCall (Node 7 0) (PMember (Node 8 0) Type_Unknown (PPath (Node 9 0) Type_Unknown ''t'') ''apply'') (Some []) []"

definition demo_block :: stmt where
  "demo_block = SBlock [SCall (Node 6 0) demo_table_call, demo_if]"

lemma demo_scope: "scope_ok (demo_setting refs) {VarPath ''c'', VarPath ''d''}"
  by (simp add: scope_ok_def)

lemma demo_ready: "ready (demo_setting refs) {VarPath ''c'', VarPath ''d''} demo_start demo_values_start"
  by (simp add: ready_def consistent_def demo_start_def es_create_def store_ok_start env_ok_def describes_def reached_def
      getExecutionCondition_def demo_interpreter_def demo_values_def demo_values_start_def demo_env_def
      getParserValueSetConfigured_def example_symbols_def getDefaultActionVariable_def sv_key_def typed_def)

lemma demo_fresh: "fresh N demo_start"
  by (simp add: fresh_def demo_start_def es_create_def no_annotations_def stored_condition_def stored_value_def)

lemma demo_typed:
  "wt_stmt (demo_setting refs) {VarPath ''c'', VarPath ''d''} demo_if"
  "wt_stmt (demo_setting demo_refs) {VarPath ''c'', VarPath ''d''} demo_block"
proof -
  show "wt_stmt (demo_setting refs) {VarPath ''c'', VarPath ''d''} demo_if" for refs by (simp add: demo_if_def)
  then have 1: "wt_stmt (demo_setting demo_refs) {VarPath ''c'', VarPath ''d''} demo_if" .
  have "table_call (demo_setting demo_refs) {VarPath ''c'', VarPath ''d''} demo_table_call ''t'' demo_exec_table"
    by (simp add: table_call_def demo_table_call_def demo_interpreter_def demo_values_def demo_refs_def table_matches_def
        demo_exec_table_def)
  then have "wt_stmt (demo_setting demo_refs) {VarPath ''c'', VarPath ''d''} (SCall (Node 6 0) demo_table_call)" by auto
  with 1 show "wt_stmt (demo_setting demo_refs) {VarPath ''c'', VarPath ''d''} demo_block" by (simp add: demo_block_def)
qed

lemma demo_nodes: "nodes_ok (demo_setting refs) demo_if" "nodes_ok (demo_setting refs) demo_block"
  by (simp_all add: nodes_ok_def demo_if_def demo_block_def demo_table_call_def demo_interpreter_def table_nodes_def demo_exec_table_def)

lemma demo_stepped: "\<exists>st. apply_stepper (k_tools (demo_setting refs)) (Suc 0) demo_block demo_start = Inr st"
proof -
  have "case apply_stepper demo_interpreter (Suc 0) demo_block demo_start of Inl e \<Rightarrow> False | Inr st \<Rightarrow> True"
    by code_simp
  then show ?thesis by (auto split: sum.splits)
qed

theorem symbolic_execution_sound_witness:
  "\<exists>st. apply_stepper demo_interpreter (Suc 0) demo_block demo_start = Inr st \<and>
     exec (demo_values demo_refs) (monitor_of (demo_setting demo_refs) (condition_at st) (value_at st)) demo_block
       demo_values_start = Some (demo_values_start(''d'' \<mapsto> VBool True), False)"
proof -
  have refs: "demo_refs ''a'' \<noteq> Some (ActionDecl [])" by (simp add: demo_refs_def)
  obtain st where st: "apply_stepper (k_tools (demo_setting demo_refs)) (Suc 0) demo_block demo_start = Inr st"
    using demo_stepped by blast
  have run: "run (k_language (demo_setting demo_refs)) demo_block demo_values_start =
      Some (demo_values_start(''d'' \<mapsto> VBool True), False)"
    by (simp add: demo_block_def demo_table_call_def demo_if_def demo_values_def applied_table_def demo_refs_def
        run_table_def run_action_def demo_values_start_def no_monitor_def literal_value_def)
  from symbolic_execution_sound [OF demo_agreement [of demo_refs, OF refs] demo_scope demo_typed(2) demo_nodes(2) st demo_ready demo_fresh run] st
  show ?thesis by auto
qed

text \<open>
  Claim C4. Symbolic execution keeps types: when the stepper executes a typed statement from a state in
  which every variable in scope has a well-typed symbolic value of the type the program declares, and
  the execution condition is a well-typed boolean, every variable in scope has one of its type
  afterwards and the execution condition is a boolean still. Merging branches, switch cases and actions
  never mixes types.
\<close>

theorem symbolic_execution_typed:
  assumes "agreement K" and "scope_ok K V" and "wt_stmt K V x"
    and "apply_stepper (k_tools K) fuel x st = Inr st'"
    and "typed_as (getExecutionCondition (fst st)) Type_Boolean"
    and "\<forall>v \<in> V. \<exists>e. var_value K st v = Some e \<and> typed_as e (k_type K v)"
  shows "typed_as (getExecutionCondition (fst st')) Type_Boolean \<and>
    (\<forall>v \<in> V. \<exists>e. var_value K st' v = Some e \<and> typed_as e (k_type K v))"
  using simulatesD(2) [OF stepper_simulates [OF assms(1-4)]] assms(5,6) by (simp add: env_ok_def)

theorem symbolic_execution_typed_witness:
  "\<exists>st e. apply_stepper demo_interpreter (Suc 0) demo_block demo_start = Inr st \<and>
     env_get demo_interpreter (es_env (fst st)) (VarPath ''d'') = Some e \<and> typed_as e Type_Boolean"
proof -
  have refs: "demo_refs ''a'' \<noteq> Some (ActionDecl [])" by (simp add: demo_refs_def)
  obtain st where st: "apply_stepper (k_tools (demo_setting demo_refs)) (Suc 0) demo_block demo_start = Inr st"
    using demo_stepped by blast
  have "env_ok (demo_setting demo_refs) {VarPath ''c'', VarPath ''d''} demo_start"
    using demo_ready by (simp add: ready_def)
  then have start: "typed_as (getExecutionCondition (fst demo_start)) Type_Boolean"
    "\<forall>v \<in> {VarPath ''c'', VarPath ''d''}. \<exists>e. var_value (demo_setting demo_refs) demo_start v = Some e \<and>
       typed_as e (k_type (demo_setting demo_refs) v)"
    by (simp_all add: env_ok_def)
  from symbolic_execution_typed [OF demo_agreement [of demo_refs, OF refs] demo_scope demo_typed(2) st start] st
  show ?thesis by auto
qed

section \<open>A statement as a part of a program\<close>

text \<open>
  The stepper executes the statement between other parts of the program, which annotate other nodes;
  the execution of the program starts without annotations.
\<close>

definition executed_in ::
  "('e, 'z, 's) setting \<Rightarrow> StateVariable set \<Rightarrow> nat \<Rightarrow> stmt \<Rightarrow> ('e, 'z) exec_state \<Rightarrow> 's \<Rightarrow> bool" where
  "executed_in K V fuel x st u \<longleftrightarrow>
     (\<exists>st0 st1 st2 N. annotations_of st0 = no_annotations \<and> store_of st0 = [] \<and> steps_to N st0 st1 \<and> ready K V st1 u \<and>
        apply_stepper (k_tools K) fuel x st1 = Inr st2 \<and> steps_to N st2 st \<and> N \<inter> nodes_of K x = {})"

lemma executed_inI:
  assumes "annotations_of st0 = no_annotations" and "store_of st0 = []"
    and "apply_stepper (k_tools K) fuel x st0 = Inr st" and "ready K V st0 u"
  shows "executed_in K V fuel x st u"
  unfolding executed_in_def using assms steps_to_refl [of "{}"] by blast

lemma executed_in_sound:
  assumes "agreement K" and "scope_ok K V" and "wt_stmt K V x" and "nodes_ok K x" and "executed_in K V fuel x st u"
    and "run (k_language K) x u = Some (u', stopped)"
  shows "annotations_ok (stored_annotations (store_of st) (annotations_of st))"
    and "exec (k_language K) (monitor_of K (condition_at st) (value_at st)) x u = Some (u', stopped)"
proof -
  from assms(5) obtain st0 st1 st2 N where x: "annotations_of st0 = no_annotations" "store_of st0 = []" "steps_to N st0 st1"
    "ready K V st1 u" "apply_stepper (k_tools K) fuel x st1 = Inr st2" "steps_to N st2 st" "N \<inter> nodes_of K x = {}"
    unfolding executed_in_def by blast
  have start: "consistent st0" using x(1,2) store_ok_start by (simp add: consistent_def)
  have "fresh (nodes_of K x) st0"
    by (simp add: fresh_def x(1,2) no_annotations_def stored_condition_def stored_value_def)
  from steps_to_fresh [OF x(3) start this x(7)] have "fresh (nodes_of K x) st1" .
  from stepper_observed [OF assms(1-4) x(5,4) this assms(6) x(6,7)]
  show "exec (k_language K) (monitor_of K (condition_at st) (value_at st)) x u = Some (u', stopped)" by simp
  note s = steps_to_trans [OF steps_to_trans [OF x(3) simulatesD(1) [OF stepper_simulates [OF assms(1-3) x(5)]]] x(6)]
  show "annotations_ok (stored_annotations (store_of st) (annotations_of st))"
    by (rule finished_annotations_ok) (use s start x(1,2) in \<open>auto simp: steps_to_def\<close>)
qed

end
