(* ===== verification/CallDepth.thy ===== *)
theory CallDepth
  imports SymbolicResults
begin

text \<open>
  The fuel of the symbolic execution: when the calls of actions and tables are nested no deeper than
  the fuel, the execution never runs out of it, and more fuel changes nothing. P4 has no recursion, so
  every program has such a depth.
\<close>

declare split_paired_All [simp del] split_paired_Ex [simp del]

section \<open>Calls\<close>

text \<open>The calls in an expression, in the statements of a body, and in what applying a table runs.\<close>

fun expr_calls :: "pexp \<Rightarrow> pexp list" where
  "expr_calls (PMember n t e m) = expr_calls e"
| "expr_calls (PLNot e) = expr_calls e"
| "expr_calls (POp f es) = concat (map expr_calls es)"
| "expr_calls (PCall n m ds args) = PCall n m ds args # concat (map expr_calls args)"
| "expr_calls e = []"

function (sequential) stmt_calls :: "stmt \<Rightarrow> pexp list" where
  "stmt_calls (SAssign l r) = expr_calls r"
| "stmt_calls (SIf n c t f) = expr_calls c @ stmt_calls t @ (case f of None \<Rightarrow> [] | Some g \<Rightarrow> stmt_calls g)"
| "stmt_calls (SSwitch n e cs) = expr_calls e @
     concat (map (\<lambda>c. case sc_statement c of None \<Rightarrow> [] | Some ss \<Rightarrow> concat (map stmt_calls ss)) cs)"
| "stmt_calls (SCall n e) = expr_calls e"
| "stmt_calls (SBlock ss) = concat (map stmt_calls ss)"
| "stmt_calls x = []"
  by pat_completeness auto
termination
  by (relation "measure size") (auto dest: block_statement_size case_statement_size)

definition action_calls :: "('e, 'z) interpreter \<Rightarrow> pexp \<Rightarrow> pexp list" where
  "action_calls X call = (case getP4Action X call of None \<Rightarrow> [] | Some act \<Rightarrow> stmt_calls (xa_body act))"

definition table_calls :: "('e, 'z) interpreter \<Rightarrow> exec_table \<Rightarrow> pexp list" where
  "table_calls X xt =
     (case xt_key xt of None \<Rightarrow> [] | Some key \<Rightarrow> concat (map (\<lambda>kf. expr_calls (kf_expression kf)) key)) @
     (case xt_actionList xt of None \<Rightarrow> [] | Some acts \<Rightarrow> concat (map (\<lambda>el. action_calls X (al_expression el)) acts)) @
     action_calls X (xt_defaultAction xt)"

primrec depth_ok :: "('e, 'z) interpreter \<Rightarrow> nat \<Rightarrow> pexp \<Rightarrow> bool" where
  "depth_ok X 0 call \<longleftrightarrow>
     (case call of PCall n m ds args \<Rightarrow> \<not> isAction X m \<and> findTable X m = None | _ \<Rightarrow> True)"
| "depth_ok X (Suc d) call \<longleftrightarrow>
     (case call of
        PCall n m ds args \<Rightarrow>
          (isAction X m \<longrightarrow> (\<forall>c \<in> set (action_calls X call). depth_ok X d c)) \<and>
          (\<forall>xt. findTable X m = Some xt \<longrightarrow> (\<forall>c \<in> set (table_calls X xt). depth_ok X d c))
      | _ \<Rightarrow> True)"

lemma depth_ok_PCall:
  "depth_ok X (Suc d) (PCall n m ds args) \<longleftrightarrow>
     (isAction X m \<longrightarrow> (\<forall>c \<in> set (action_calls X (PCall n m ds args)). depth_ok X d c)) \<and>
     (\<forall>xt. findTable X m = Some xt \<longrightarrow> (\<forall>c \<in> set (table_calls X xt). depth_ok X d c))"
  by simp

lemma depth_ok_other: "\<nexists>n m ds args. c = PCall n m ds args \<Longrightarrow> depth_ok X d c"
  by (cases d; cases c) auto

lemma depth_ok_Suc: "depth_ok X d c \<Longrightarrow> depth_ok X (Suc d) c"
proof (induction d arbitrary: c)
  case 0
  then show ?case by (auto split: pexp.splits)
next
  case (Suc d)
  show ?case
  proof (cases "\<exists>n m ds args. c = PCall n m ds args")
    case True
    with Suc show ?thesis by (auto simp only: depth_ok_PCall)
  qed (blast intro: depth_ok_other)
qed

lemma depth_ok_mono:
  assumes "d \<le> d'" and "depth_ok X d c" shows "depth_ok X d' c"
  using assms by (induction d' rule: dec_induct) (blast intro: depth_ok_Suc)+

section \<open>Results that do not run out of fuel\<close>

definition fueled :: "'a result \<Rightarrow> bool" where
  "fueled r \<longleftrightarrow> r \<noteq> Inl Out_of_fuel"

named_theorems fueled

lemma fueled_simps [simp]: "fueled (Inr v)" "fueled (Inl f) \<longleftrightarrow> f \<noteq> Out_of_fuel" "fueled (or_fail f r) \<longleftrightarrow> r = None \<longrightarrow> f \<noteq> Out_of_fuel"
  by (auto simp: fueled_def option_simps)

lemma fueled_and_then [fueled]: "fueled r \<Longrightarrow> (\<And>v. r = Inr v \<Longrightarrow> fueled (k v)) \<Longrightarrow> fueled (and_then r k)"
  by (cases r) simp_all

lemma fueled_If: "(c \<Longrightarrow> fueled a) \<Longrightarrow> (\<not> c \<Longrightarrow> fueled b) \<Longrightarrow> fueled (if c then a else b)"
  by simp

lemma fueled_compute [fueled]: "(\<And>r. fueled (visit r)) \<Longrightarrow> fueled (compute visit r)"
  unfolding compute_def by (rule fueled_and_then, assumption, rule fueled_and_then) simp_all

lemma fueled_operand [fueled]: "(\<And>r. fueled (visit r)) \<Longrightarrow> fueled (operand X e visit r)"
  unfolding operand_def by (rule fueled_If) (rule fueled_and_then, simp_all, rule fueled_compute)

lemma fueled_in_order [fueled]:
  assumes "\<And>e r. e \<in> set es \<Longrightarrow> fueled (visit e r)" shows "fueled (in_order visit es r)"
  using assms
proof (induction es arbitrary: r)
  case (Cons e es)
  have "fueled (visit e r)" for r by (rule Cons.prems) simp
  moreover have "fueled (in_order visit es r)" for r by (rule Cons.IH) (simp add: Cons.prems)
  ultimately show ?case by (auto intro!: fueled split: prod.splits)
qed simp

lemma fueled_run_all [fueled]:
  assumes "\<And>x st. x \<in> set xs \<Longrightarrow> fueled (body x st)" shows "fueled (run_all body xs st)"
  using assms
proof (induction xs arbitrary: st)
  case (Cons x xs)
  have "fueled (body x st)" for st by (rule Cons.prems) simp
  moreover have "fueled (run_all body xs st)" for st by (rule Cons.IH) (simp add: Cons.prems)
  ultimately show ?case by (auto intro!: fueled)
qed simp

lemma fueled_get [fueled]: "fueled (es_get X s v t)"
  by (simp add: es_get_def)

lemma fueled_reachability [fueled]: "fueled (annotate_reachability Y n c st)"
  by (auto simp: annotate_reachability_def addReachabilityMapping_def intro!: fueled split: prod.splits)

lemma fueled_expression [fueled]: "fueled (annotate_expression Y n t e st)"
  by (auto simp: annotate_expression_def addExpressionMapping_def intro!: fueled split: prod.splits ty.splits)

lemma fueled_found [fueled]: "fueled (found_value Y n t e r)"
  unfolding found_value_def by (rule fueled_and_then [OF fueled_expression]) simp

lemma fueled_descend [fueled]: "fueled (descend ms e)"
  by (induction ms e rule: descend.induct) (auto intro!: fueled split: expr.splits)

lemma fueled_operator_result [fueled]: "fueled (operator_result Y f vs)"
  by (cases "(Y, f, vs)" rule: operator_result.cases) auto

lemma fueled_header_method [fueled]: "fueled (header_method Y h m r)"
  unfolding header_method_def by (auto intro!: fueled)

text \<open>Callbacks that never run out of fuel on a call.\<close>

definition call_fueled :: "('e, 'z) interpreter \<Rightarrow> ('e, 'z) callbacks \<Rightarrow> pexp \<Rightarrow> bool" where
  "call_fueled X C call \<longleftrightarrow>
     (case call of
        PCall n m ds args \<Rightarrow>
          (isAction X m \<longrightarrow> (\<forall>act. getP4Action X call = Some act \<longrightarrow> (\<forall>as st. fueled (cb_callAction C act as st)))) \<and>
          (\<forall>xt r. findTable X m = Some xt \<longrightarrow> fueled (cb_processTable C xt r))
      | _ \<Rightarrow> True)"

definition externs_fueled :: "('e, 'z) interpreter \<Rightarrow> bool" where
  "externs_fueled X \<longleftrightarrow> (\<forall>info st. fueled (processExtern X info st))"

lemma fueled_operator:
  assumes "\<And>e r. e \<in> set es \<Longrightarrow> fueled (visit e r)"
  shows "fueled (resolve_operator X f es visit r)"
proof (cases "(X, f, es, visit, r)" rule: resolve_operator.cases)
  case (1 X t e0 e1 e2 visit r)
  with assms show ?thesis
    by (auto simp: resolve_mux_def Let_def intro!: fueled split: prod.splits if_splits)
qed (use assms in \<open>auto simp: resolve_index_def resolve_struct_def resolve_operands_def intro!: fueled split: prod.splits\<close>)

lemma fueled_checkStructLike:
  assumes "\<And>r. fueled (visit r)" shows "fueled (checkStructLike X n member visit r)"
  unfolding checkStructLike_def Let_def
  by (rule fueled_and_then)
    (auto intro!: fueled fueled_compute [OF assms] split: pexp.splits operator.splits expr.splits option.splits)

lemma fueled_argument:
  assumes "\<And>r. fueled (visit r)" shows "fueled (resolve_argument X callee ps arg visit ir)"
  by (auto simp: resolve_argument_def intro!: fueled fueled_compute [OF assms] split: prod.splits)

lemma fueled_call_method:
  assumes call: "call_fueled X C (PCall n callee ds args)" and ext: "externs_fueled X"
  shows "fueled (call_method X C (PCall n callee ds args) callee as r)"
proof (cases "isAction X callee")
  case True
  with call show ?thesis
    by (auto simp: call_method_def call_fueled_def or_fail_Inr intro!: fueled)
next
  case False
  have extern: "fueled (call_extern X info r)" for info
    using ext by (simp add: call_extern_def externs_fueled_def)
  have table: "fueled (cb_processTable C xt r)" if "findTable X callee = Some xt" for xt
    using call that by (simp add: call_fueled_def)
  from False extern table show ?thesis
    by (cases callee) (auto simp: call_method_def intro!: fueled split: pexp.split option.split prod.split)
qed

lemma member_base_calls: "expr_calls (member_base e) = expr_calls e"
  by (induction e) simp_all

lemma resolve_fueled:
  assumes "externs_fueled X" and "\<forall>c \<in> set (expr_calls e). call_fueled X C c"
  shows "fueled (resolve X C e r)"
  using assms
proof (induction X C e r rule: resolve.induct)
  case (3 X C n t e m r)
  then have "fueled (resolve X C (member_base e) r)" for r by (simp add: member_base_calls)
  then show ?case
    by (auto intro!: fueled fueled_checkStructLike split: option.splits prod.splits)
next
  case (5 X C f es r)
  then show ?case by (auto intro!: fueled_operator)
next
  case (6 X C n callee ds args r)
  show ?case
  proof (cases ds)
    case (Some ps)
    have "fueled (resolve X C arg r)" if "arg \<in> set args" for arg r
      using 6 Some that by auto
    then have "fueled (in_order (\<lambda>arg. resolve_argument X callee ps arg (\<lambda>r. resolve X C arg r)) args (0, r))"
      by (intro fueled_in_order fueled_argument)
    with 6 Some show ?thesis by (auto intro!: fueled fueled_call_method split: prod.splits)
  qed simp
qed (auto intro!: fueled split: prod.splits)

section \<open>Statements and tables\<close>

lemma fueled_evaluate:
  assumes "externs_fueled X" and "\<forall>c \<in> set (expr_calls e). call_fueled X C c"
  shows "fueled (evaluate X C e st)"
  unfolding evaluate_def
  by (rule fueled_and_then, rule fueled_compute [OF resolve_fueled [OF assms]]) (simp split: prod.split)

lemma fueled_assign:
  assumes "externs_fueled X" and "\<forall>c \<in> set (expr_calls e). call_fueled X C c"
  shows "fueled (step_assign X C l e st)"
  unfolding step_assign_def
  by (auto intro!: fueled fueled_evaluate [OF assms] split: prod.splits expr.splits)

lemma fueled_case_label [fueled]: "fueled (case_label tm label)"
  by (simp add: case_label_def split: pexp.split)

lemma fueled_cases:
  assumes "\<And>c ss x st. c \<in> set cs \<Longrightarrow> sc_statement c = Some ss \<Longrightarrow> x \<in> set ss \<Longrightarrow> fueled (body x st)"
  shows "fueled (step_cases X tm v body cond cs st)"
  using assms
proof (induction cs arbitrary: cond st)
  case (Cons c cs)
  have "fueled (run_all body ss st)" if "sc_statement c = Some ss" for ss st
    by (rule fueled_run_all, rule Cons.prems [OF _ that]) simp_all
  moreover have "fueled (step_cases X tm v body cond cs st)" for cond st
    by (rule Cons.IH, rule Cons.prems) simp_all
  ultimately show ?case
    by (simp add: Let_def fueled_and_then fueled_case_label fueled_reachability split: option.split prod.split)
qed simp

lemma fueled_switch:
  assumes "externs_fueled X" and "\<forall>c \<in> set (expr_calls e). call_fueled X C c"
    and "\<And>c ss x st. c \<in> set cs \<Longrightarrow> sc_statement c = Some ss \<Longrightarrow> x \<in> set ss \<Longrightarrow> fueled (body x st)"
  shows "fueled (step_switch X C e cs body st)"
proof -
  have default: "fueled (run_all body ss st)" if "default_statement cs = Some (Some ss)" for ss st
    using default_statement_in [OF that] assms(3) by (auto intro: fueled_run_all)
  show ?thesis
    unfolding step_switch_def
    by (auto intro!: fueled fueled_evaluate [OF assms(1,2)] fueled_cases assms(3) default
      split: prod.splits option.splits)
qed

lemma step_fueled:
  assumes "externs_fueled X" and "\<forall>c \<in> set (stmt_calls x). call_fueled X C c"
  shows "fueled (step X C x st)"
  using assms
proof (induction X C x st rule: step.induct)
  case (2 X C l e st)
  then show ?case by (simp add: fueled_assign)
next
  case (3 X C n e t f st)
  then show ?case
    by (auto intro!: fueled fueled_evaluate split: prod.splits option.splits)
next
  case (4 X C n e cs st)
  show ?case unfolding step.simps
  proof (rule fueled_switch)
    fix c ss x st assume "c \<in> set cs" "sc_statement c = Some ss" "x \<in> set ss"
    with 4 show "fueled (step X C x st)" by fastforce
  qed (use 4 in auto)
next
  case (6 X C ss st)
  show ?case unfolding step.simps
    by (rule fueled_run_all) (use 6 in auto)
qed (auto intro!: fueled resolve_fueled split: prod.splits)

lemma fueled_callAction:
  assumes "\<And>st. fueled (body (xa_body act) st)"
  shows "fueled (callAction X body act as st)"
proof -
  have argument: "fueled (argument_value X a)" for a by (cases a) simp_all
  have "fueled (set_parameters X ps s)" for ps s
    by (induction ps arbitrary: s) (auto intro!: fueled argument)
  with assms show ?thesis by (auto simp: callAction_def intro!: fueled)
qed

lemma fueled_resolveKey:
  assumes "externs_fueled X" and "\<forall>kf \<in> set key. \<forall>c \<in> set (expr_calls (kf_expression kf)). call_fueled X C c"
  shows "fueled (resolveKey X C key r)"
  unfolding resolveKey_def Let_def
proof (rule fueled_If)
  show "fueled (in_order (\<lambda>keyField r. and_then (computeResult X C (kf_expression keyField) r)
      (\<lambda>(e, r). Inr (set_expression e keyField, r))) (filter (\<lambda>keyField. \<not> isSymbolicValue X (kf_expression keyField)) key) r)"
    by (rule fueled_in_order, rule fueled_and_then, rule fueled_compute, rule resolve_fueled [OF assms(1)])
      (use assms(2) in \<open>auto split: prod.split\<close>)
qed (simp add: fueled_and_then)

lemma fueled_all_results: "(\<And>x. x \<in> set xs \<Longrightarrow> fueled (f x)) \<Longrightarrow> fueled (all_results (map f xs))"
  by (induction xs) (auto intro!: fueled)

lemma fueled_match_type: "fueled (target_match_type target X tableName prefix keyField)"
proof -
  have "fueled (computeTargetMatchType X prefix keyField)"
    by (simp add: computeTargetMatchType_def Let_def fueled_and_then)
  then show ?thesis
    by (cases target) (simp_all add: V1Model_computeTargetMatchType_def TofinoBase_computeTargetMatchType_def
      NikssBase_computeTargetMatchType_def FpgaBase_computeTargetMatchType_def Let_def fueled_and_then)
qed

lemma fueled_process_actions:
  assumes "\<forall>el \<in> set actions. \<forall>act. getP4Action X (al_expression el) = Some act \<longrightarrow> (\<forall>st. fueled (body (xa_body act) st))"
  shows "fueled (process_actions X body prefix s cond actions st)"
  using assms
proof (induction X body prefix s cond actions st rule: process_actions.induct)
  case (2 X body prefix s cond action actions st run)
  then show ?case
    by (auto simp: Let_def or_fail_Inr intro!: fueled fueled_callAction split: prod.splits)
qed simp

lemma fueled_store_key_match: "fueled (store_key_match X tableName keys g)"
  by (simp add: store_key_match_def split: option.split prod.split)

lemma processTable_fueled:
  assumes ext: "externs_fueled X" and calls: "\<forall>c \<in> set (table_calls X xt). call_fueled X C c"
  shows "fueled (processTable X C (step X C) xt r)"
proof -
  have body: "fueled (step X C (xa_body act) st)"
    if "getP4Action X call = Some act" "set (action_calls X call) \<subseteq> set (table_calls X xt)" for act st call
    using that calls by (intro step_fueled [OF ext]) (auto simp: action_calls_def)
  have key: "fueled (resolveKey X C key r)" if "xt_key xt = Some key" for key r
    using that calls by (intro fueled_resolveKey [OF ext]) (auto simp: table_calls_def)
  have default: "fueled (processDefaultAction X (step X C) xt st)" for st
  proof -
    have "fueled (callAction X (step X C) act as st)"
      if "getP4Action X (xt_defaultAction xt) = Some act" for act as
      by (rule fueled_callAction, rule body [OF that]) (auto simp: table_calls_def)
    then show ?thesis
      by (auto simp: processDefaultAction_def or_fail_Inr intro!: fueled split: pexp.split)
  qed
  have total: "fueled (totalHitCondition X prefix actions cond)" for prefix actions cond
    by (induction X prefix actions cond rule: totalHitCondition.induct) (auto intro!: fueled)
  have options: "fueled (processTableActionOptions X (step X C) xt s st)" for s st
  proof -
    have "fueled (process_actions X (step X C) prefix s cond actions st)"
      if "xt_actionList xt = Some actions" for prefix s cond actions st
    proof (rule fueled_process_actions, intro ballI allI impI)
      fix el act st assume "el \<in> set actions" and "getP4Action X (al_expression el) = Some act"
      then show "fueled (step X C (xa_body act) st)"
        by (intro body) (use that in \<open>auto simp: table_calls_def\<close>)
    qed
    then show ?thesis
      by (auto simp: processTableActionOptions_def Let_def intro!: fueled total split: prod.split option.split)
  qed
  have hit: "fueled (computeHitCondition X n p key)" for n p key
    unfolding computeHitCondition_def by (rule fueled_all_results) (rule fueled_match_type)
  show ?thesis
    unfolding processTable_def Let_def
    by (auto intro!: fueled key default options hit fueled_store_key_match split: option.split prod.split)
qed

text \<open>Calls of a depth below the fuel never run out of it.\<close>

lemma callbacks_fueled:
  assumes ext: "externs_fueled X" and "depth_ok X d c"
  shows "call_fueled X (callbacks_of X d) c"
  using assms(2)
proof (induction d arbitrary: c)
  case 0
  then show ?case by (auto simp: call_fueled_def split: pexp.splits)
next
  case (Suc d)
  let ?C = "callbacks_of X d"
  show ?case
  proof (cases "\<exists>n m ds args. c = PCall n m ds args")
    case True
    then obtain n m ds args where c: "c = PCall n m ds args" by blast
    have action: "fueled (callAction X (step X ?C) act as st)"
      if "isAction X m" "getP4Action X c = Some act" for act as st
    proof (rule fueled_callAction, rule step_fueled [OF ext])
      show "\<forall>c \<in> set (stmt_calls (xa_body act)). call_fueled X ?C c"
        using Suc that by (auto simp: c action_calls_def)
    qed
    have table: "fueled (processTable X ?C (step X ?C) xt r)" if "findTable X m = Some xt" for xt r
      using Suc that by (intro processTable_fueled [OF ext]) (auto simp: c)
    from action table show ?thesis by (simp add: c call_fueled_def Let_def)
  next
    case False
    then show ?thesis by (cases c) (simp_all add: call_fueled_def)
  qed
qed

lemma apply_stepper_fueled:
  assumes "externs_fueled X" and "\<forall>c \<in> set (stmt_calls x). depth_ok X d c"
  shows "fueled (apply_stepper X d x st)"
  unfolding apply_stepper_def using assms by (intro step_fueled ballI callbacks_fueled) auto

section \<open>More fuel changes nothing\<close>

text \<open>Callbacks that do the same on a call.\<close>

definition same_call ::
  "('e, 'z) interpreter \<Rightarrow> ('e, 'z) callbacks \<Rightarrow> ('e, 'z) callbacks \<Rightarrow> pexp \<Rightarrow> bool" where
  "same_call X C C' call \<longleftrightarrow>
     (case call of
        PCall n m ds args \<Rightarrow>
          (isAction X m \<longrightarrow> (\<forall>act. getP4Action X call = Some act \<longrightarrow> cb_callAction C act = cb_callAction C' act)) \<and>
          (\<forall>xt. findTable X m = Some xt \<longrightarrow> cb_processTable C xt = cb_processTable C' xt)
      | _ \<Rightarrow> True)"

lemma call_method_same:
  assumes "same_call X C C' (PCall n callee ds args)"
  shows "call_method X C (PCall n callee ds args) callee as r = call_method X C' (PCall n callee ds args) callee as r"
proof (cases "isAction X callee")
  case True
  with assms show ?thesis
    by (cases "getP4Action X (PCall n callee ds args)") (simp_all add: call_method_def same_call_def)
next
  case False
  with assms show ?thesis
    by (auto simp: call_method_def same_call_def split: pexp.split option.split)
qed

lemma resolve_same:
  assumes "\<forall>c \<in> set (expr_calls e). same_call X C C' c"
  shows "resolve X C e r = resolve X C' e r"
  using assms
proof (induction X C e r rule: resolve.induct)
  case (3 X C n t e m r)
  then have "resolve X C (member_base e) r = resolve X C' (member_base e) r" for r by (simp add: member_base_calls)
  then have "(\<lambda>r. resolve X C (member_base e) r) = (\<lambda>r. resolve X C' (member_base e) r)" by blast
  then show ?case by simp
next
  case (4 X C e r)
  then have "(\<lambda>r. resolve X C e r) = (\<lambda>r. resolve X C' e r)" by (intro ext) simp
  then show ?case by simp
next
  case (5 X C f es r)
  show ?case unfolding resolve.simps
    by (rule resolve_operator_cong [OF refl refl refl]) (use 5 in auto)
next
  case (6 X C n callee ds args r)
  show ?case
  proof (cases ds)
    case (Some ps)
    have "resolve X C arg r = resolve X C' arg r" if "arg \<in> set args" for arg r
      using 6 Some that by auto
    then have "in_order (\<lambda>arg. resolve_argument X callee ps arg (\<lambda>r. resolve X C arg r)) args (0, r) =
        in_order (\<lambda>arg. resolve_argument X callee ps arg (\<lambda>r. resolve X C' arg r)) args (0, r)"
      by (intro in_order_cong resolve_argument_cong refl)
    moreover have "same_call X C C' (PCall n callee (Some ps) args)" using 6 Some by simp
    then have "call_method X C (PCall n callee (Some ps) args) callee as r =
        call_method X C' (PCall n callee (Some ps) args) callee as r" for as r by (rule call_method_same)
    ultimately show ?thesis by (auto simp: Some intro!: and_then_cong)
  qed simp
qed simp_all

lemma evaluate_same:
  assumes "\<forall>c \<in> set (expr_calls e). same_call X C C' c"
  shows "evaluate X C e st = evaluate X C' e st"
  using resolve_same [OF assms] by (simp add: evaluate_def compute_def)

lemma step_same:
  assumes "\<forall>c \<in> set (stmt_calls x). same_call X C C' c"
  shows "step X C x st = step X C' x st"
  using assms
proof (induction X C x st rule: step.induct)
  case (2 X C l e st)
  then have "evaluate X C e st = evaluate X C' e st" by (simp add: evaluate_same)
  then show ?case by (simp only: step.simps step_assign_def)
next
  case (3 X C n e t f st)
  then have "evaluate X C e st = evaluate X C' e st" by (simp add: evaluate_same)
  with 3 show ?case unfolding step.simps
    by (auto intro!: and_then_cong split: prod.splits option.splits)
next
  case (4 X C n e cs st)
  have body: "step X C x st = step X C' x st"
    if "c \<in> set cs" "sc_statement c = Some ss" "x \<in> set ss" for c ss x st
    using 4 that by fastforce
  have "step_switch X C e cs (step X C) st = step_switch X C e cs (step X C') st"
    by (rule step_switch_cong [OF refl refl refl body])
  also have "\<dots> = step_switch X C' e cs (step X C') st"
    using evaluate_same [of e X C C' st] 4(2) by (simp add: step_switch_def)
  finally show ?case by simp
next
  case (6 X C ss st)
  show ?case unfolding step.simps
    by (rule run_all_cong [OF refl refl]) (use 6 in auto)
qed (simp_all add: resolve_same)

lemma callAction_same:
  assumes "\<And>st. body (xa_body act) st = body' (xa_body act) st"
  shows "callAction X body act = callAction X body' act"
  using assms by (intro ext) (simp add: callAction_def cong: and_then_cong)

lemma resolveKey_same:
  assumes "\<forall>kf \<in> set key. \<forall>c \<in> set (expr_calls (kf_expression kf)). same_call X C C' c"
  shows "resolveKey X C key r = resolveKey X C' key r"
proof -
  have visit: "computeResult X C (kf_expression kf) r = computeResult X C' (kf_expression kf) r"
    if "kf \<in> set key" for kf r
    using that assms resolve_same [of "kf_expression kf" X C C'] by (simp add: compute_def)
  have "in_order (\<lambda>kf r. and_then (computeResult X C (kf_expression kf) r) (\<lambda>(e, r). Inr (set_expression e kf, r)))
        (filter (\<lambda>kf. \<not> isSymbolicValue X (kf_expression kf)) key) r =
      in_order (\<lambda>kf r. and_then (computeResult X C' (kf_expression kf) r) (\<lambda>(e, r). Inr (set_expression e kf, r)))
        (filter (\<lambda>kf. \<not> isSymbolicValue X (kf_expression kf)) key) r"
    using visit by (intro in_order_cong refl) simp
  then show ?thesis by (simp only: resolveKey_def Let_def)
qed

lemma process_actions_same:
  assumes "\<forall>el \<in> set actions. \<forall>act. getP4Action X (al_expression el) = Some act \<longrightarrow>
      (\<forall>st. body (xa_body act) st = body' (xa_body act) st)"
  shows "process_actions X body prefix s cond actions st = process_actions X body' prefix s cond actions st"
  using assms
proof (induction actions arbitrary: st)
  case (Cons action actions)
  have same: "callAction X body act = callAction X body' act" if "getP4Action X (al_expression action) = Some act" for act
    using Cons.prems that by (intro callAction_same) simp
  have rest: "process_actions X body prefix s cond actions st = process_actions X body' prefix s cond actions st" for st
    using Cons by simp
  show ?case
    by (cases st; cases "getP4Action X (al_expression action)") (simp_all add: Let_def same rest)
qed simp

lemma processTable_same:
  assumes calls: "\<forall>c \<in> set (table_calls X xt). same_call X C C' c"
  shows "processTable X C (step X C) xt = processTable X C' (step X C') xt"
proof
  fix r
  have body: "step X C (xa_body act) st = step X C' (xa_body act) st"
    if "getP4Action X call = Some act" "set (action_calls X call) \<subseteq> set (table_calls X xt)" for act st call
    using that calls by (intro step_same) (auto simp: action_calls_def)
  have key: "resolveKey X C key r = resolveKey X C' key r" if "xt_key xt = Some key" for key r
    using that calls by (intro resolveKey_same) (auto simp: table_calls_def)
  have same: "callAction X (step X C) act = callAction X (step X C') act"
    if "getP4Action X (xt_defaultAction xt) = Some act" for act
    by (rule callAction_same, rule body [OF that]) (auto simp: table_calls_def)
  have default: "processDefaultAction X (step X C) xt st = processDefaultAction X (step X C') xt st" for st
    by (auto simp: processDefaultAction_def or_fail_Inr same split: pexp.split intro!: and_then_cong)
  have actions: "process_actions X (step X C) prefix s cond actions st = process_actions X (step X C') prefix s cond actions st"
    if "xt_actionList xt = Some actions" for prefix s cond actions st
  proof (rule process_actions_same, intro ballI allI impI)
    fix el act st assume "el \<in> set actions" and "getP4Action X (al_expression el) = Some act"
    then show "step X C (xa_body act) st = step X C' (xa_body act) st"
      by (intro body) (use that in \<open>auto simp: table_calls_def\<close>)
  qed
  have options: "processTableActionOptions X (step X C) xt s st = processTableActionOptions X (step X C') xt s st" for s st
    by (cases "xt_actionList xt") (simp_all add: processTableActionOptions_def Let_def actions)
  show "processTable X C (step X C) xt r = processTable X C' (step X C') xt r"
    by (cases "xt_key xt") (simp_all add: processTable_def Let_def key default options)
qed

lemma callbacks_same:
  assumes "depth_ok X d c" and "d \<le> fuel"
  shows "same_call X (callbacks_of X d) (callbacks_of X fuel) c"
  using assms
proof (induction d arbitrary: c fuel)
  case 0
  then show ?case by (auto simp: same_call_def split: pexp.splits)
next
  case (Suc d)
  then obtain fuel' where fuel: "fuel = Suc fuel'" "d \<le> fuel'" by (cases fuel) auto
  let ?C = "callbacks_of X d" and ?C' = "callbacks_of X fuel'"
  show ?case
  proof (cases "\<exists>n m ds args. c = PCall n m ds args")
    case True
    then obtain n m ds args where c: "c = PCall n m ds args" by blast
    have action: "callAction X (step X ?C) act = callAction X (step X ?C') act"
      if "isAction X m" "getP4Action X c = Some act" for act
    proof (rule callAction_same, rule step_same)
      show "\<forall>c \<in> set (stmt_calls (xa_body act)). same_call X ?C ?C' c"
        using Suc that fuel by (auto simp: c action_calls_def)
    qed
    have table: "processTable X ?C (step X ?C) xt = processTable X ?C' (step X ?C') xt"
      if "findTable X m = Some xt" for xt
      using Suc that fuel by (intro processTable_same) (auto simp: c)
    from action table show ?thesis by (simp add: c same_call_def Let_def fuel)
  next
    case False
    then show ?thesis by (cases c) (simp_all add: same_call_def)
  qed
qed

lemma apply_stepper_same:
  assumes "\<forall>c \<in> set (stmt_calls x). depth_ok X d c" and "d \<le> fuel"
  shows "apply_stepper X fuel x st = apply_stepper X d x st"
  unfolding apply_stepper_def
  using assms by (intro step_same [symmetric] ballI callbacks_same) auto

text \<open>
  Claim C3. Symbolic execution terminates, and the fuel of the model does not show in its results: with
  at least as much fuel as actions and tables are nested in a body, executing it symbolically never runs
  out of fuel, and its result is the one for every such amount of fuel. The depth is that of the calls in
  the bodies of the actions and in the keys of the tables; the externs of the target are assumed to end.
\<close>

theorem symbolic_execution_terminates:
  assumes "externs_fueled X" and "\<forall>c \<in> set (stmt_calls x). depth_ok X d c" and "d \<le> fuel"
  shows "apply_stepper X fuel x st \<noteq> Inl Out_of_fuel \<and> apply_stepper X fuel x st = apply_stepper X d x st"
  using apply_stepper_fueled [OF assms(1,2)] apply_stepper_same [OF assms(2,3)] by (simp add: fueled_def)

theorem symbolic_execution_terminates_witness:
  "apply_stepper demo_interpreter 5 demo_block demo_start \<noteq> Inl Out_of_fuel \<and>
     apply_stepper demo_interpreter 5 demo_block demo_start = apply_stepper demo_interpreter 1 demo_block demo_start"
proof (rule symbolic_execution_terminates)
  show "externs_fueled demo_interpreter" by (simp add: externs_fueled_def demo_interpreter_def)
  show "\<forall>c \<in> set (stmt_calls demo_block). depth_ok demo_interpreter 1 c"
    by (simp add: demo_block_def demo_if_def demo_table_call_def demo_interpreter_def demo_exec_table_def table_calls_def
        action_calls_def demo_action_call_def demo_action_def)
qed simp

end
