(* ===== verification/TargetExterns.thy ===== *)
theory TargetExterns
  imports ExternMethods CallDepth
begin

text \<open>
  The externs of the targets: BMv2 (\<open>targets/bmv2/expression_resolver.cpp\<close>), the portable switch
  architecture of NIKSS (\<open>targets/nikss/psa/expression_resolver.cpp\<close>), the FPGA target
  (\<open>targets/fpga/xsa/expression_resolver.cpp\<close>) and Tofino
  (\<open>targets/tofino/base/expression_resolver.cpp\<close>). What an extern returns or writes is left open: it
  becomes a symbolic variable named after the call.
\<close>

declare split_paired_All [simp del] split_paired_Ex [simp del]

section \<open>BMv2\<close>

definition DROP_PORT :: int where "DROP_PORT = 511"

definition PKT_INSTANCE_TYPE_NORMAL :: int where "PKT_INSTANCE_TYPE_NORMAL = 0"
definition PKT_INSTANCE_TYPE_INGRESS_CLONE :: int where "PKT_INSTANCE_TYPE_INGRESS_CLONE = 1"
definition PKT_INSTANCE_TYPE_EGRESS_CLONE :: int where "PKT_INSTANCE_TYPE_EGRESS_CLONE = 2"

text \<open>The symbolic variables of a clone session; the one of its identifier depends on a type.\<close>

record 'e bmv2_tools = "'e extern_tools" +
  getCloneActive :: svar
  getCloneSessionId :: "ty \<Rightarrow> svar"

definition mark_to_drop :: "('e, 'm) extern_tools_scheme \<Rightarrow> ('e, 'z) MethodImpl" where
  "mark_to_drop T info st =
     and_then (ref_argument info 0) (\<lambda>metadataLabel.
     Inr (None, set_var T (VarMember metadataLabel ''egress_spec'') (Constant (Type_Bits 9 False) DROP_PORT) st))"

text \<open>
  Several externs write a symbolic variable to one of their arguments: \<open>random\<close>, \<open>hash\<close> and reading a
  register to the first, and externs of other targets.
\<close>

definition write_variable :: "nat \<Rightarrow> ('e, 'm) extern_tools_scheme \<Rightarrow> ('e, 'z) MethodImpl" where
  "write_variable i T info st =
     and_then (ref_argument info i) (\<lambda>resultVar.
     Inr (None, set_var T resultVar
       (SymbolicVariable (getSymbolicVariable (xt_refType T resultVar) (call_label info))) st))"

definition bmv2_random :: "('e, 'm) extern_tools_scheme \<Rightarrow> ('e, 'z) MethodImpl" where
  "bmv2_random = write_variable 0"

definition register_read :: "('e, 'm) extern_tools_scheme \<Rightarrow> ('e, 'z) MethodImpl" where
  "register_read = write_variable 0"

definition bmv2_hash :: "('e, 'm) extern_tools_scheme \<Rightarrow> ('e, 'z) MethodImpl" where
  "bmv2_hash = write_variable 0"

fun constant_value :: "expr \<Rightarrow> int result" where
  "constant_value (Constant t n) = Inr n"
| "constant_value _ = Inl Bug"

definition bmv2_clone :: "('e, 'm) bmv2_tools_scheme \<Rightarrow> ('e, 'z) MethodImpl" where
  "bmv2_clone T info st =
     and_then (value_argument T info 0) (\<lambda>cloneType.
     and_then (value_argument T info 1) (\<lambda>sessionID.
     and_then (constant_value cloneType) (\<lambda>cloneType.
     let instanceBitType = Type_Bits 32 False;
         isCloned = mk_LAnd (SymbolicVariable (getCloneActive T))
           (mk_Equ sessionID (SymbolicVariable (getCloneSessionId T (type_of sessionID)))) in
     and_then
       (if cloneType = 0 then Inr PKT_INSTANCE_TYPE_INGRESS_CLONE
        else if cloneType = 1 then Inr PKT_INSTANCE_TYPE_EGRESS_CLONE
        else Inl Unimplemented) (\<lambda>instanceTypeConst.
     Inr (None,
       (setPlaceholderValue T ''standard_metadata.instance_type''
          (Mux instanceBitType isCloned (Constant instanceBitType instanceTypeConst)
            (Constant instanceBitType PKT_INSTANCE_TYPE_NORMAL)) (fst st), snd st))))))"

definition Checksum16_get :: "('e, 'z) MethodImpl" where
  "Checksum16_get = return_variable (Type_Bits 16 False)"

text \<open>A failed verification is left open when the condition holds, and does not happen otherwise.\<close>

definition checksum_error :: StateVariable where
  "checksum_error = VarMember (VarPath ''*standard_metadata'') ''checksum_error''"

definition verify_checksum :: "('e, 'm) extern_tools_scheme \<Rightarrow> ('e, 'z) MethodImpl" where
  "verify_checksum T info st =
     and_then (value_argument T info 0) (\<lambda>cond.
     let oneBitType = Type_Bits 1 False in
     Inr (None, set_var T checksum_error
       (Mux oneBitType cond (SymbolicVariable (getSymbolicVariable oneBitType (call_label info)))
         (Constant oneBitType 0)) st))"

definition verify_checksum_with_payload :: "('e, 'm) extern_tools_scheme \<Rightarrow> ('e, 'z) MethodImpl" where
  "verify_checksum_with_payload T info st =
     and_then (value_argument T info 0) (\<lambda>cond.
     let oneBitType = Type_Bits 1 False in
     Inr (None, set_var T checksum_error
       (Mux oneBitType cond (SymbolicVariable (getSymbolicVariable oneBitType (call_label info)))
         (Constant oneBitType 0)) st))"

definition update_checksum :: "('e, 'm) extern_tools_scheme \<Rightarrow> ('e, 'z) MethodImpl" where
  "update_checksum T info st =
     and_then (value_argument T info 0) (\<lambda>cond.
     and_then (ref_argument info 2) (\<lambda>checksumVar.
     and_then (es_get T (fst st) checksumVar (xt_refType T checksumVar)) (\<lambda>checksumCurrentVal.
     Inr (None, set_var T checksumVar
       (Mux (xt_refType T checksumVar) cond
         (SymbolicVariable (getSymbolicVariable (xt_refType T checksumVar) (call_label info)))
         checksumCurrentVal) st))))"

definition update_checksum_with_payload :: "('e, 'm) extern_tools_scheme \<Rightarrow> ('e, 'z) MethodImpl" where
  "update_checksum_with_payload T info st =
     and_then (value_argument T info 0) (\<lambda>cond.
     and_then (ref_argument info 2) (\<lambda>checksumVar.
     and_then (es_get T (fst st) checksumVar (xt_refType T checksumVar)) (\<lambda>checksumCurrentVal.
     Inr (None, set_var T checksumVar
       (Mux (xt_refType T checksumVar) cond
         (SymbolicVariable (getSymbolicVariable (xt_refType T checksumVar) (call_label info)))
         checksumCurrentVal) st))))"

definition bmv2_externs :: "('e, 'm) bmv2_tools_scheme \<Rightarrow> (string \<times> string list \<times> ('e, 'z) MethodImpl) list" where
  "bmv2_externs T =
     [(''*method.mark_to_drop'', [''standard_metadata''], mark_to_drop T),
      (''*method.random'', [''result'', ''lo'', ''hi''], bmv2_random T),
      (''*method.log_msg'', [''msg'', ''args''], no_op),
      (''*method.log_msg'', [''msg''], no_op),
      (''*method.assume'', [''check''], no_op),
      (''*method.assert'', [''check''], no_op),
      (''register.write'', [''index'', ''value''], no_op),
      (''register.read'', [''result'', ''index''], register_read T),
      (''counter.count'', [''index''], no_op),
      (''direct_counter.count'', [], no_op),
      (''meter.execute_meter'', [''index'', ''result''], no_op),
      (''direct_meter.read'', [''result''], no_op),
      (''*method.digest'', [''receiver'', ''data''], no_op),
      (''*method.clone_preserving_field_list'', [''type'', ''session'', ''data''], bmv2_clone T),
      (''*method.resubmit_preserving_field_list'', [''data''], no_op),
      (''*method.recirculate_preserving_field_list'', [''index''], no_op),
      (''*method.clone'', [''type'', ''session''], bmv2_clone T),
      (''*method.hash'', [''result'', ''algo'', ''base'', ''data'', ''max''], bmv2_hash T),
      (''Checksum16.get'', [''data''], Checksum16_get),
      (''*method.verify_checksum'', [''condition'', ''data'', ''checksum'', ''algo''], verify_checksum T),
      (''*method.verify_checksum_with_payload'', [''condition'', ''data'', ''checksum'', ''algo''],
        verify_checksum_with_payload T),
      (''*method.update_checksum'', [''condition'', ''data'', ''checksum'', ''algo''], update_checksum T),
      (''*method.update_checksum_with_payload'', [''condition'', ''data'', ''checksum'', ''algo''],
        update_checksum_with_payload T)]"

definition V1Model_processExtern :: "('e, 'm) bmv2_tools_scheme \<Rightarrow> ('e, 'z) MethodImpl" where
  "V1Model_processExtern T = process_with T (bmv2_externs T) (core_processExtern T)"

section \<open>NIKSS\<close>

text \<open>
  Externs whose result has the first type argument of the instance they are called on, which must have
  \<open>n\<close> of them.
\<close>

definition return_instance_type :: "nat \<Rightarrow> ('e, 'm) extern_tools_scheme \<Rightarrow> ('e, 'z) MethodImpl" where
  "return_instance_type n T info st =
     (case xt_instanceTypeArguments T (ei_externObjectRef info) of
        None \<Rightarrow> Inl Bug
      | Some ts \<Rightarrow> if length ts \<noteq> n \<or> n = 0 then Inl Bug else return_variable (ts ! 0) info st)"

definition psa_externs :: "('e, 'm) extern_tools_scheme \<Rightarrow> (string \<times> string list \<times> ('e, 'z) MethodImpl) list" where
  "psa_externs T =
     [(''Random.read'', [], return_instance_type 1 T),
      (''*method.assume'', [''check''], no_op),
      (''*method.assert'', [''check''], no_op),
      (''Register.write'', [''index'', ''value''], no_op),
      (''Register.read'', [''index''], return_instance_type 2 T),
      (''Counter.count'', [''index''], no_op),
      (''DirectCounter.count'', [], no_op),
      (''Meter.execute'', [''index''], return_variable (Type_Bits 32 False)),
      (''Meter.execute'', [''index'', ''color''], return_variable (Type_Bits 32 False)),
      (''DirectMeter.execute'', [], return_variable (Type_Bits 32 False)),
      (''DirectMeter.execute'', [''color''], return_variable (Type_Bits 32 False)),
      (''Digest.pack'', [''data''], no_op),
      (''*method.psa_clone_i2e'', [''istd''], return_variable Type_Boolean),
      (''*method.psa_resubmit'', [''istd''], return_variable Type_Boolean),
      (''*method.psa_normal'', [''istd''], return_variable Type_Boolean),
      (''*method.psa_clone_e2e'', [''istd''], return_variable Type_Boolean),
      (''*method.psa_recirculate'', [''istd'', ''edstd''], return_variable Type_Boolean),
      (''Hash.get_hash'', [''data''], return_instance_type 1 T),
      (''Hash.get_hash'', [''base'', ''data'', ''max''], return_instance_type 1 T),
      (''Checksum.clear'', [], no_op),
      (''Checksum.update'', [''data''], no_op),
      (''Checksum.get'', [], return_instance_type 1 T),
      (''InternetChecksum.clear'', [], no_op),
      (''InternetChecksum.add'', [''data''], no_op),
      (''InternetChecksum.subtract'', [''data''], no_op),
      (''InternetChecksum.get'', [], return_variable (Type_Bits 16 False)),
      (''InternetChecksum.get_state'', [], return_variable (Type_Bits 16 False)),
      (''InternetChecksum.set_state'', [''data''], no_op)]"

text \<open>The base class of the target has an empty table of its own.\<close>

definition NikssBase_processExtern :: "('e, 'm) extern_tools_scheme \<Rightarrow> ('e, 'z) MethodImpl" where
  "NikssBase_processExtern T = process_with T [] (core_processExtern T)"

definition Psa_processExtern :: "('e, 'm) extern_tools_scheme \<Rightarrow> ('e, 'z) MethodImpl" where
  "Psa_processExtern T = process_with T (psa_externs T) (NikssBase_processExtern T)"

section \<open>FPGA\<close>

text \<open>A user extern may write its second argument.\<close>

definition xsa_externs :: "('e, 'm) extern_tools_scheme \<Rightarrow> (string \<times> string list \<times> ('e, 'z) MethodImpl) list" where
  "xsa_externs T = [(''UserExtern.apply'', [''extern_in'', ''extern_out''], write_variable 1 T)]"

definition FpgaBase_processExtern :: "('e, 'm) extern_tools_scheme \<Rightarrow> ('e, 'z) MethodImpl" where
  "FpgaBase_processExtern T = process_with T [] (core_processExtern T)"

definition Xsa_processExtern :: "('e, 'm) extern_tools_scheme \<Rightarrow> ('e, 'z) MethodImpl" where
  "Xsa_processExtern T = process_with T (xsa_externs T) (FpgaBase_processExtern T)"

section \<open>Tofino\<close>

text \<open>
  The functions a register action is declared with; their bodies are executed symbolically by the
  stepper, which is an argument here.
\<close>

record extern_function =
  ef_parameters :: "program_parameter list"
  ef_body :: stmt

record 'e tofino_tools = "'e extern_tools" +
  xt_instanceFunctions :: "string \<Rightarrow> extern_function list"
  createTargetUninitialized :: "ty \<Rightarrow> expr"
  xt_initializeStructLike :: "StateVariable \<Rightarrow> 'e \<Rightarrow> 'e"

definition ReturnDummyImpl :: "('e, 'm) extern_tools_scheme \<Rightarrow> ('e, 'z) MethodImpl" where
  "ReturnDummyImpl T info st =
     and_then (or_fail Bug (xt_returnType T (ei_originalCall info))) (\<lambda>returnType. return_variable returnType info st)"

definition tofino_max :: "('e, 'm) extern_tools_scheme \<Rightarrow> ('e, 'z) MethodImpl" where
  "tofino_max T info st =
     and_then (value_argument T info 0) (\<lambda>t1.
     and_then (value_argument T info 1) (\<lambda>t2.
     Inr (Some (Mux (type_of t1) (Binary Type_Boolean Grt t1 t2) t1 t2), st)))"

definition tofino_min :: "('e, 'm) extern_tools_scheme \<Rightarrow> ('e, 'z) MethodImpl" where
  "tofino_min T info st =
     and_then (value_argument T info 0) (\<lambda>t1.
     and_then (value_argument T info 1) (\<lambda>t2.
     Inr (Some (Mux (type_of t1) (mk_Lss t1 t2) t1 t2), st)))"

definition port_metadata_unpack :: "('e, 'm) extern_tools_scheme \<Rightarrow> ('e, 'z) MethodImpl" where
  "port_metadata_unpack T info st =
     (case xt_typeArguments T (ei_originalCall info) of
        [] \<Rightarrow> Inl Bug
      | unpackType # _ \<Rightarrow> and_then (createSymbolicExpression unpackType (call_label info)) (\<lambda>v. Inr (Some v, st)))"

definition Wred_execute :: "('e, 'z) MethodImpl" where
  "Wred_execute info st =
     and_then (createSymbolicExpression (Type_Bits 8 False) (call_label info @ ''_return'')) (\<lambda>v. Inr (Some v, st))"

text \<open>The arguments of the function of a register action: the value of the register, and the result.\<close>

fun bind_parameters ::
  "('e, 'm) tofino_tools_scheme \<Rightarrow> (program_parameter \<times> expr option) list \<Rightarrow> 'e ExecutionState \<Rightarrow>
   'e ExecutionState result" where
  "bind_parameters T [] s = Inr s"
| "bind_parameters T ((parameter, argument) # rest) s =
     (let paramRef = VarPath (pr_name parameter) in
      and_then
        (case pr_type parameter of
           Type_Struct ns ts \<Rightarrow>
             if pr_direction parameter = Out
             then Inr (s\<lparr>es_env := xt_initializeStructLike T paramRef (es_env s)\<rparr>)
             else and_then (or_fail Bug argument) (\<lambda>v.
                  and_then (or_fail Bug (assignStructLike T paramRef v (es_env s))) (\<lambda>E. Inr (s\<lparr>es_env := E\<rparr>)))
         | paramType \<Rightarrow>
             if is_Type_Base paramType
             then if pr_direction parameter = Out
               then Inr (es_set T paramRef (createTargetUninitialized T paramType) s)
               else and_then (or_fail Bug argument) (\<lambda>v. Inr (es_set T paramRef v s))
             else Inl Unimplemented)
        (bind_parameters T rest))"

text \<open>
  Both kinds of register actions, which differ in the number of type arguments they expect: three for
  a register action and two for a direct one.
\<close>

definition RegisterAction_execute ::
  "nat \<Rightarrow> ('e, 'm) tofino_tools_scheme \<Rightarrow> (stmt \<Rightarrow> ('e, 'z) exec_state \<Rightarrow> ('e, 'z) exec_state result) \<Rightarrow>
   ('e, 'z) MethodImpl" where
  "RegisterAction_execute n T applyStepper info st =
     and_then (or_fail Bug (xt_instanceTypeArguments T (ei_externObjectRef info))) (\<lambda>typeArguments.
     if length typeArguments \<noteq> n \<or> n = 0 then Inl Bug
     else case xt_instanceFunctions T (ei_externObjectRef info) of
       [applyDecl] \<Rightarrow>
         (let applyParameters = ef_parameters applyDecl in
          if length applyParameters \<noteq> 1 \<and> length applyParameters \<noteq> 2 then Inl Bug
          else and_then
            (createSymbolicExpression (typeArguments ! 0)
              (call_label info @ ''_apply_'' @ pr_name (applyParameters ! 0))) (\<lambda>valueExpr.
          if length applyParameters = 2 \<and> pr_direction (applyParameters ! 1) \<noteq> Out then Inl Bug
          else and_then (bind_parameters T (zip applyParameters [Some valueExpr, None]) (fst st)) (\<lambda>s.
          and_then (applyStepper (ef_body applyDecl) (s, snd st)) (\<lambda>st.
          if length applyParameters = 2
          then and_then
            (es_get T (fst st) (VarPath (pr_name (applyParameters ! 1))) (pr_type (applyParameters ! 1))) (\<lambda>v.
            Inr (Some v, st))
          else if length typeArguments \<le> 2 then Inl Bug
          else Inr (Some (SymbolicVariable (getSymbolicVariable (typeArguments ! 2)
                 (ei_externObjectRef info @ ''_'' @ ei_methodName info @ ''_return''))), st)))))
     | _ \<Rightarrow> Inl Bug)"

definition tofino_externs ::
  "('e, 'm) tofino_tools_scheme \<Rightarrow> (stmt \<Rightarrow> ('e, 'z) exec_state \<Rightarrow> ('e, 'z) exec_state result) \<Rightarrow>
   (string \<times> string list \<times> ('e, 'z) MethodImpl) list" where
  "tofino_externs T applyStepper =
     [(''Checksum.add'', [''data''], no_op),
      (''Checksum.subtract'', [''data''], no_op),
      (''Checksum.verify'', [], return_variable Type_Boolean),
      (''Checksum.subtract_all_and_deposit'', [''residual''], write_variable 0 T),
      (''Checksum.get'', [], return_variable (Type_Bits 16 False)),
      (''Checksum.update'', [''data''], return_variable (Type_Bits 16 False)),
      (''Checksum.update'', [''data'', ''zeros_as_ones''], return_variable (Type_Bits 16 False)),
      (''ParserCounter.set'', [''value''], no_op),
      (''ParserCounter.set'', [''field'', ''max'', ''rotate'', ''mask'', ''add''], unimplemented),
      (''ParserCounter.is_zero'', [], return_variable Type_Boolean),
      (''ParserCounter.is_negative'', [], return_variable Type_Boolean),
      (''ParserCounter.increment'', [''value''], no_op),
      (''ParserCounter.decrement'', [''value''], no_op),
      (''ParserPriority.set'', [''prio''], no_op),
      (''Hash.get'', [''data''], ReturnDummyImpl T),
      (''Random.get'', [], ReturnDummyImpl T),
      (''*method.max'', [''t1'', ''t2''], tofino_max T),
      (''*method.min'', [''t1'', ''t2''], tofino_min T),
      (''*method.funnel_shift_right'', [''dst'', ''src1'', ''src2'', ''shift_amount''], unimplemented),
      (''*method.invalidate'', [''field''], unimplemented),
      (''*method.is_validated'', [''field''], unimplemented),
      (''*method.port_metadata_unpack'', [''pkt''], port_metadata_unpack T),
      (''*method.sizeInBits'', [''h''], ReturnDummyImpl T),
      (''*method.sizeInBytes'', [''h''], ReturnDummyImpl T),
      (''Counter.count'', [''index''], no_op),
      (''Counter.count'', [''index'', ''adjust_byte_count''], no_op),
      (''DirectCounter.count'', [], no_op),
      (''DirectCounter.count'', [''adjust_byte_count''], no_op),
      (''Meter.execute'', [''index'', ''color''], ReturnDummyImpl T),
      (''Meter.execute'', [''index'', ''color'', ''adjust_byte_count''], ReturnDummyImpl T),
      (''Meter.execute'', [''index''], ReturnDummyImpl T),
      (''Meter.execute'', [''index'', ''adjust_byte_count''], ReturnDummyImpl T),
      (''DirectMeter.execute'', [''color''], ReturnDummyImpl T),
      (''DirectMeter.execute'', [''color'', ''adjust_byte_count''], ReturnDummyImpl T),
      (''DirectMeter.execute'', [], ReturnDummyImpl T),
      (''DirectMeter.execute'', [''adjust_byte_count''], ReturnDummyImpl T),
      (''Lpf.execute'', [''val'', ''index''], unimplemented),
      (''DirectLpf.execute'', [''val''], unimplemented),
      (''Wred.execute'', [''val'', ''index''], Wred_execute),
      (''DirectWred.execute'', [''val''], Wred_execute),
      (''Register.read'', [''index''], ReturnDummyImpl T),
      (''Register.write'', [''index'', ''value''], no_op),
      (''DirectRegister.read'', [], ReturnDummyImpl T),
      (''DirectRegister.write'', [''value''], no_op),
      (''RegisterParam.read'', [], unimplemented),
      (''MathUnit.execute'', [''x''], unimplemented),
      (''RegisterAction.execute'', [''index''], RegisterAction_execute 3 T applyStepper),
      (''RegisterAction.execute_log'', [''''], unimplemented),
      (''RegisterAction.apply'', [''value'', ''rv''], unimplemented),
      (''RegisterAction.predicate'', [''cmplo'', ''cmphi''], unimplemented),
      (''DirectRegisterAction.execute'', [], RegisterAction_execute 2 T applyStepper),
      (''DirectRegisterAction.apply'', [''value'', ''rv''], unimplemented),
      (''DirectRegisterAction.predicate'', [''cmplo'', ''cmphi''], unimplemented),
      (''SelectorAction.execute'', [''index''], unimplemented),
      (''SelectorAction.apply'', [''value'', ''rv''], unimplemented),
      (''Mirror.emit'', [''session_id''], unimplemented),
      (''Mirror.emit'', [''session_id'', ''hdr''], unimplemented),
      (''Resubmit.emit'', [], unimplemented),
      (''Resubmit.emit'', [''hdr''], unimplemented),
      (''Digest.pack'', [''data''], no_op)]"

definition TofinoBase_processExtern ::
  "('e, 'm) tofino_tools_scheme \<Rightarrow> (stmt \<Rightarrow> ('e, 'z) exec_state \<Rightarrow> ('e, 'z) exec_state result) \<Rightarrow>
   ('e, 'z) MethodImpl" where
  "TofinoBase_processExtern T applyStepper = process_with T (tofino_externs T applyStepper) (core_processExtern T)"

definition Tofino1_processExtern ::
  "('e, 'm) tofino_tools_scheme \<Rightarrow> (stmt \<Rightarrow> ('e, 'z) exec_state \<Rightarrow> ('e, 'z) exec_state result) \<Rightarrow>
   ('e, 'z) MethodImpl" where
  "Tofino1_processExtern T applyStepper = process_with T [] (TofinoBase_processExtern T applyStepper)"

section \<open>The tables are well formed\<close>

lemma extern_tables_distinct:
  "distinct (map (\<lambda>(name, ps, impl). (name, ps)) (core_externs T))"
  "distinct (map (\<lambda>(name, ps, impl). (name, ps)) (bmv2_externs T'))"
  "distinct (map (\<lambda>(name, ps, impl). (name, ps)) (psa_externs T))"
  "distinct (map (\<lambda>(name, ps, impl). (name, ps)) (xsa_externs T))"
  "distinct (map (\<lambda>(name, ps, impl). (name, ps)) (tofino_externs T'' apply))"
  by (simp_all add: core_externs_def bmv2_externs_def psa_externs_def xsa_externs_def tofino_externs_def)

section \<open>What the externs write\<close>

text \<open>Besides what they are given to write: the checksum error and the placeholder of the packet's type.\<close>

definition global_vars :: "StateVariable set" where
  "global_vars = {checksum_error, VarMember PLACEHOLDER_LABEL ''standard_metadata.instance_type''}"

lemma writes_one:
  assumes "env_laws T"
    and "\<And>info st r st'. impl info st = Inr (r, st') \<Longrightarrow>
      st' = st \<or> (\<exists>v e. st' = set_var T v e st \<and> v \<in> global_vars \<union> written_vars T info)"
  shows "writes_only T global_vars impl"
proof (rule writes_onlyI)
  fix info st r st' assume "impl info st = Inr (r, st')"
  from assms(2) [OF this] show "changes_only T (global_vars \<union> written_vars T info) st st'"
    by (elim disjE exE conjE) (simp_all add: changes_only_set [OF assms(1)])
qed

lemma mark_to_drop_writes [writes_only]:
  assumes laws: "env_laws T" shows "writes_only T global_vars (mark_to_drop T)"
proof (rule writes_one [OF laws])
  fix info st r st' assume "mark_to_drop T info st = Inr (r, st')"
  then show "st' = st \<or> (\<exists>v e. st' = set_var T v e st \<and> v \<in> global_vars \<union> written_vars T info)"
    by (auto simp: mark_to_drop_def option_simps dest!: ref_argument_written(4) [of _ _ _ T])
qed

lemma write_variable_writes [writes_only]:
  assumes laws: "env_laws T" shows "writes_only T global_vars (write_variable i T)"
proof (rule writes_one [OF laws])
  fix info st r st' assume "write_variable i T info st = Inr (r, st')"
  then show "st' = st \<or> (\<exists>v e. st' = set_var T v e st \<and> v \<in> global_vars \<union> written_vars T info)"
    by (auto simp: write_variable_def option_simps dest!: ref_argument_written(1) [of _ _ _ T])
qed

lemma verify_checksum_writes [writes_only]:
  assumes laws: "env_laws T" shows "writes_only T global_vars (verify_checksum T)"
proof (rule writes_one [OF laws])
  fix info st r st' assume "verify_checksum T info st = Inr (r, st')"
  then show "st' = st \<or> (\<exists>v e. st' = set_var T v e st \<and> v \<in> global_vars \<union> written_vars T info)"
    by (auto simp: verify_checksum_def option_simps Let_def global_vars_def)
qed

lemma verify_payload_writes [writes_only]:
  assumes laws: "env_laws T" shows "writes_only T global_vars (verify_checksum_with_payload T)"
proof (rule writes_one [OF laws])
  fix info st r st' assume "verify_checksum_with_payload T info st = Inr (r, st')"
  then show "st' = st \<or> (\<exists>v e. st' = set_var T v e st \<and> v \<in> global_vars \<union> written_vars T info)"
    by (auto simp: verify_checksum_with_payload_def option_simps Let_def global_vars_def)
qed

lemma update_checksum_writes [writes_only]:
  assumes laws: "env_laws T" shows "writes_only T global_vars (update_checksum T)"
proof (rule writes_one [OF laws])
  fix info st r st' assume "update_checksum T info st = Inr (r, st')"
  then show "st' = st \<or> (\<exists>v e. st' = set_var T v e st \<and> v \<in> global_vars \<union> written_vars T info)"
    by (auto simp: update_checksum_def option_simps dest!: ref_argument_written(1) [of _ _ _ T])
qed

lemma update_payload_writes [writes_only]:
  assumes laws: "env_laws T" shows "writes_only T global_vars (update_checksum_with_payload T)"
proof (rule writes_one [OF laws])
  fix info st r st' assume "update_checksum_with_payload T info st = Inr (r, st')"
  then show "st' = st \<or> (\<exists>v e. st' = set_var T v e st \<and> v \<in> global_vars \<union> written_vars T info)"
    by (auto simp: update_checksum_with_payload_def option_simps dest!: ref_argument_written(1) [of _ _ _ T])
qed

lemma instance_type_writes [writes_only]: "writes_only T global_vars (return_instance_type n T)"
  by (auto simp: writes_only_def return_instance_type_def return_variable_def split: option.splits if_splits)

lemma clone_writes [writes_only]:
  assumes laws: "env_laws T" shows "writes_only T global_vars (bmv2_clone T)"
proof (rule writes_one [OF laws])
  fix info st r st' assume "bmv2_clone T info st = Inr (r, st')"
  then obtain v where "st' = set_var T (VarMember PLACEHOLDER_LABEL ''standard_metadata.instance_type'') v st"
    by (auto simp: bmv2_clone_def Let_def option_simps setPlaceholderValue_def set_var_def split: if_splits)
  then show "st' = st \<or> (\<exists>v e. st' = set_var T v e st \<and> v \<in> global_vars \<union> written_vars T info)"
    by (auto simp: global_vars_def)
qed

text \<open>
  The externs of the BMv2, NIKSS and FPGA targets, with those of the core library, change
  nothing but what they are given to write: after a call the execution condition, the visited parser
  states, the annotations and the configuration are what they were, and so is every variable that is
  neither an argument the callee may write, nor the validity or a field of a header among them, nor the
  output port of metadata among them, nor the checksum error or the placeholder of the packet's type.
\<close>

lemma extern_calls_frame:
  assumes "env_laws T"
    and "process \<in> {V1Model_processExtern T, Psa_processExtern T, Xsa_processExtern T}"
    and "process info st = Inr (r, st')"
  shows "snd st' = snd st \<and> (\<exists>E. fst st' = (fst st)\<lparr>es_env := E\<rparr>) \<and>
    (\<forall>v. v \<notin> global_vars \<and> v \<notin> written_vars T info \<longrightarrow>
       env_get T (es_env (fst st')) v = env_get T (es_env (fst st)) v)"
proof -
  have "writes_only T global_vars (V1Model_processExtern T)"
    unfolding V1Model_processExtern_def
    by (rule process_with_writes_only [OF _ core_writes_only [OF assms(1)]])
      (auto simp: bmv2_externs_def bmv2_random_def register_read_def bmv2_hash_def Checksum16_get_def
        intro: writes_only assms(1))
  moreover have "writes_only T global_vars (Psa_processExtern T)"
    unfolding Psa_processExtern_def NikssBase_processExtern_def
    by (rule process_with_writes_only [OF _ process_with_writes_only [OF _ core_writes_only [OF assms(1)]]])
      (auto simp: psa_externs_def intro: writes_only assms(1))
  moreover have "writes_only T global_vars (Xsa_processExtern T)"
    unfolding Xsa_processExtern_def FpgaBase_processExtern_def
    by (rule process_with_writes_only [OF _ process_with_writes_only [OF _ core_writes_only [OF assms(1)]]])
      (auto simp: xsa_externs_def intro: writes_only assms(1))
  ultimately have "writes_only T global_vars process" using assms(2) by blast
  with assms(3) have "changes_only T (global_vars \<union> written_vars T info) st st'" by (simp add: writes_only_def)
  then show ?thesis unfolding changes_only_def by blast
qed

text \<open>A program with a function, a register and a meter.\<close>

definition demo_extern_tools :: "(StateVariable \<times> expr) list bmv2_tools" where
  "demo_extern_tools =
     \<lparr>env_get = map_of, env_set = (\<lambda>v e E. (v, e) # E), getInternalMap = AList.clearjunk,
      convertToComplexExpression = (\<lambda>E v t. None), assignStructLike = (\<lambda>v e E. None), opt_strict = False,
      opt_usePlaceholders = False,
      xt_externType = [''*method'' \<mapsto> ''*method'', ''r'' \<mapsto> ''register'', ''m'' \<mapsto> ''meter''],
      xt_argumentName = (\<lambda>call i. None), xt_toString = (\<lambda>v. ''v''), xt_refType = (\<lambda>v. Type_Bits 8 False),
      xt_isHeader = (\<lambda>v. False), xt_getHeaderValidity = (\<lambda>v. VarMember v ''*valid''), xt_getFlatFields = (\<lambda>E v. []),
      xt_inOutValue = (\<lambda>v e. e), xt_typeArguments = (\<lambda>call. []), xt_returnType = (\<lambda>call. None),
      xt_instanceTypeArguments = (\<lambda>x. None),
      getCloneActive = getSymbolicVariable Type_Boolean ''clone_session_active'',
      getCloneSessionId = (\<lambda>t. getSymbolicVariable t ''clone_session_id'')\<rparr>"

definition demo_extern_call :: "string \<Rightarrow> string \<Rightarrow> string \<Rightarrow> argument list \<Rightarrow> ExternInfo" where
  "demo_extern_call object name var rest =
     \<lparr>ei_originalCall = PCall (Node 1 7) (PPath (Node 2 0) Type_Unknown name) None [],
      ei_externObjectRef = object, ei_methodName = name,
      ei_externArgs = InOutReference (VarPath var) (Constant (Type_Bits 8 False) 0) # rest\<rparr>"

definition demo_extern_state :: "((StateVariable \<times> expr) list, expr) exec_state" where
  "demo_extern_state =
     (es_create [(VarPath ''x'', Constant (Type_Bits 8 False) 0), (VarPath ''y'', Constant (Type_Bits 8 False) 1)],
      \<lparr>an_store = [], an_constraints = [], an_cache = Map.empty, an_errors = 0\<rparr>)"

lemma demo_extern_laws: "env_laws demo_extern_tools"
  by (simp add: env_laws_def demo_extern_tools_def map_of_clearjunk distinct_clearjunk)

text \<open>The implementation a call of an extern of BMv2 finds.\<close>

lemma bmv2_found:
  assumes "xt_externType T (ei_externObjectRef info) = Some externType"
    and "filter (\<lambda>(name, ps, impl). name = externType @ ''.'' @ ei_methodName info \<and> matches ps (argument_names T info))
      (bmv2_externs T) = [(name, ps, impl)]"
  shows "V1Model_processExtern T info st = impl info st"
  unfolding V1Model_processExtern_def using process_with_found [OF extern_tables_distinct(2) assms] .

lemma extern_calls_frame_example:
  "\<exists>st'. V1Model_processExtern demo_extern_tools
       (demo_extern_call ''*method'' ''random'' ''x'' [Argument (Constant (Type_Bits 8 False) 1), Argument (Constant (Type_Bits 8 False) 9)])
       demo_extern_state = Inr (None, st') \<and>
     env_get demo_extern_tools (es_env (fst st')) (VarPath ''y'') = Some (Constant (Type_Bits 8 False) 1)"
proof -
  let ?info = "demo_extern_call ''*method'' ''random'' ''x''
    [Argument (Constant (Type_Bits 8 False) 1), Argument (Constant (Type_Bits 8 False) 9)]"
  obtain st' where run: "V1Model_processExtern demo_extern_tools ?info demo_extern_state = Inr (None, st')"
  proof -
    have "V1Model_processExtern demo_extern_tools ?info demo_extern_state = bmv2_random demo_extern_tools ?info demo_extern_state"
      by (rule bmv2_found [where externType = "''*method''"])
        (simp_all add: demo_extern_call_def demo_extern_tools_def bmv2_externs_def argument_names_def matches_def upt_rec)
    then show thesis
      using that by (simp add: bmv2_random_def write_variable_def ref_argument_def demo_extern_call_def)
  qed
  have y: "VarPath ''y'' \<notin> global_vars \<and> VarPath ''y'' \<notin> written_vars demo_extern_tools ?info"
    by (auto simp: global_vars_def checksum_error_def written_vars_def demo_extern_call_def demo_extern_tools_def)
  from extern_calls_frame [of demo_extern_tools "V1Model_processExtern demo_extern_tools", OF demo_extern_laws insertI1 run] y
  have "env_get demo_extern_tools (es_env (fst st')) (VarPath ''y'') =
      env_get demo_extern_tools (es_env (fst demo_extern_state)) (VarPath ''y'')" by simp
  also have "\<dots> = Some (Constant (Type_Bits 8 False) 1)"
    by (simp add: demo_extern_tools_def demo_extern_state_def es_create_def)
  finally show ?thesis using run by blast
qed

text \<open>
  The meters of BMv2 lose their result: both \<open>execute_meter\<close> and \<open>read\<close> of a meter are declared
  to write a color to their last parameter, but executing such a call symbolically leaves the whole
  state as it is, so the variable keeps the value it had before and the program is specialized as if
  the meter had returned that value.
\<close>

lemma meter_results_lost:
  assumes "xt_externType T (ei_externObjectRef info) = Some externType"
    and "(externType, ei_methodName info, argument_names T info) \<in>
      {(''meter'', ''execute_meter'', [None, None]), (''direct_meter'', ''read'', [None])}"
  shows "V1Model_processExtern T info st = Inr (None, st)"
proof -
  have "V1Model_processExtern T info st = no_op info st"
    using assms(2) by (elim insertE emptyE) (rule bmv2_found [OF assms(1)]; simp add: bmv2_externs_def matches_def)+
  then show ?thesis by (simp add: no_op_def)
qed

lemma meter_results_lost_example:
  "V1Model_processExtern demo_extern_tools (demo_extern_call ''m'' ''execute_meter'' ''x'' [Argument (Constant (Type_Bits 8 False) 1)])
     demo_extern_state = Inr (None, demo_extern_state)"
  using meter_results_lost [of demo_extern_tools "demo_extern_call ''m'' ''execute_meter'' ''x'' [Argument (Constant (Type_Bits 8 False) 1)]"
      "''meter''" demo_extern_state]
  by (simp add: demo_extern_call_def demo_extern_tools_def argument_names_def upt_rec)

text \<open>
  Reading a register twice with the same call gives the same symbolic variable, whatever was written
  in between: two reads by one action that two tables run cannot differ.
\<close>

lemma register_reads_agree:
  assumes "env_laws T" and "xt_externType T (ei_externObjectRef info) = Some ''register''" and "ei_methodName info = ''read''"
    and "ei_externArgs info = [InOutReference var e, index]" and "argument_names T info = [None, None]"
  shows "\<exists>v. \<forall>st. \<exists>st'. V1Model_processExtern T info st = Inr (None, st') \<and> env_get T (es_env (fst st')) var = Some v"
proof -
  have "V1Model_processExtern T info st = register_read T info st" for st
    by (rule bmv2_found [OF assms(2)]) (simp add: bmv2_externs_def matches_def assms(3,5))
  then have "V1Model_processExtern T info st = Inr (None, set_var T var
      (SymbolicVariable (getSymbolicVariable (xt_refType T var) (call_label info))) st)" for st
    by (simp add: register_read_def write_variable_def ref_argument_def assms(4))
  moreover have "env_get T (es_env (fst (set_var T var v st))) var = Some v" for v and st :: "'a ExecutionState \<times> 'c analysis"
    using assms(1) by (simp add: set_var_def es_set_def env_laws_def)
  ultimately show ?thesis by blast
qed

text \<open>
  A direct register action whose function has one parameter always fails: it is checked to have two
  type arguments, and the type of its result is taken from the third.
\<close>

lemma direct_register_action_fails:
  assumes "xt_externType T (ei_externObjectRef info) = Some ''DirectRegisterAction''" and "ei_methodName info = ''execute''"
    and "ei_externArgs info = []" and "xt_instanceFunctions T (ei_externObjectRef info) = [f]" and "length (ef_parameters f) = 1"
  shows "TofinoBase_processExtern T applyStepper info st \<noteq> Inr r"
proof -
  have "TofinoBase_processExtern T applyStepper info st = RegisterAction_execute 2 T applyStepper info st"
    unfolding TofinoBase_processExtern_def
    by (rule process_with_found [OF extern_tables_distinct(5) assms(1)])
      (simp add: tofino_externs_def matches_def assms(2,3) argument_names_def)
  then show ?thesis by (auto simp: RegisterAction_execute_def assms(4,5) Let_def option_simps)
qed

section \<open>Externs do not run out of fuel\<close>

lemma fueled_process_with:
  assumes "\<And>name ps impl. (name, ps, impl) \<in> set specs \<Longrightarrow> fueled (impl info st)" and "fueled (base info st)"
  shows "fueled (process_with T specs base info st)"
  using process_with_cases [of T specs base info st] assms by fastforce

lemma fueled_symbolic: "fueled (createSymbolicExpression t l)"
proof (induction t l rule: createSymbolicExpression.induct)
  case (1 ns ts label)
  have "fueled (all_results (map (\<lambda>(fieldLabel, type). createSymbolicExpression type fieldLabel)
      (zip (map (\<lambda>field. label @ ''_'' @ field) ns) ts)))"
    by (rule fueled_all_results) (use 1 in auto)
  then show ?case by (auto intro: fueled)
next
  case (2 t n label)
  have "fueled (all_results (map (\<lambda>idx. createSymbolicExpression t (label @ ''['' @ number_string idx @ '']'')) [0..<n]))"
    by (rule fueled_all_results) (use 2 in auto)
  then show ?case by (auto intro: fueled)
qed (simp_all split: if_splits)

lemma fueled_arguments:
  "fueled (ref_argument info i)" "fueled (value_argument T info i)" "fueled (constant_value e)" "fueled (return_variable t info st)"
  "fueled (no_op info st)" "fueled (unimplemented info st)"
  by (auto simp: ref_argument_def value_argument_def return_variable_def no_op_def unimplemented_def split: argument.split
      intro: constant_value.cases [of e])

lemma fueled_core: "fueled (core_processExtern T info st)"
  unfolding core_processExtern_def
  by (rule fueled_process_with)
    (auto simp: core_externs_def fueled_arguments packet_in_extract_def packet_in_lookahead_def Let_def fueled_symbolic
      intro!: fueled split: list.split)

lemma fueled_bmv2_impls:
  "fueled (mark_to_drop T info st)" "fueled (write_variable i T info st)" "fueled (verify_checksum T info st)"
  "fueled (verify_checksum_with_payload T info st)" "fueled (update_checksum T info st)"
  "fueled (update_checksum_with_payload T info st)" "fueled (bmv2_clone T' info st)" "fueled (return_instance_type n T info st)"
  by (auto simp: mark_to_drop_def write_variable_def verify_checksum_def verify_checksum_with_payload_def update_checksum_def
      update_checksum_with_payload_def bmv2_clone_def return_instance_type_def Let_def fueled_arguments
      intro!: fueled split: option.split)

text \<open>So an interpreter with the externs of one of these targets meets what its termination asks of externs.\<close>

lemma target_externs_fueled:
  assumes "processExtern X \<in> {V1Model_processExtern T, Psa_processExtern T, Xsa_processExtern T}"
  shows "externs_fueled X"
proof -
  have "fueled (V1Model_processExtern T info st)" for info st
    unfolding V1Model_processExtern_def
    by (rule fueled_process_with [OF _ fueled_core])
      (auto simp: bmv2_externs_def bmv2_random_def register_read_def bmv2_hash_def Checksum16_get_def fueled_arguments
        fueled_bmv2_impls)
  moreover have "fueled (Psa_processExtern T info st)" for info st
    unfolding Psa_processExtern_def NikssBase_processExtern_def
    by (rule fueled_process_with [OF _ fueled_process_with [OF _ fueled_core]])
      (auto simp: psa_externs_def fueled_arguments fueled_bmv2_impls)
  moreover have "fueled (Xsa_processExtern T info st)" for info st
    unfolding Xsa_processExtern_def FpgaBase_processExtern_def
    by (rule fueled_process_with [OF _ fueled_process_with [OF _ fueled_core]])
      (auto simp: xsa_externs_def fueled_bmv2_impls)
  ultimately show ?thesis using assms by (auto simp: externs_fueled_def)
qed

end
