(* ===== verification/ParserStepper.thy ===== *)
theory ParserStepper
  imports TargetExterns
begin

text \<open>
  The symbolic execution of parsers (\<open>interpreter/parser_stepper.cpp\<close>), what the targets prepare before
  a program and before a parser (\<open>targets/*/*stepper.cpp\<close>), and the execution of the blocks of a program
  in order (\<open>interpreter/partial_evaluator.cpp\<close>).

  A parser state executes its statements and goes to the next states: the cases of a selection run in
  states of their own that are merged afterwards, the default case runs in place. A state that was
  visited before is refused, except when the default case leads to it. Fuel bounds the number of
  states on a path; the theorems say when it is enough.
\<close>

declare split_paired_All [simp del] split_paired_Ex [simp del]

section \<open>Parsers\<close>

text \<open>A value set has its name at the control plane and the type of its elements.\<close>

datatype keyset = DefaultKeyset | ValueSet string ty | Keyset pexp

record select_case =
  sl_keyset :: keyset
  sl_state :: string

datatype transition = Select pexp "select_case list" | Goto string | OtherTransition

record parser_state =
  ps_name :: string
  ps_clone_id :: int
  ps_components :: "stmt list"
  ps_selectExpression :: transition

record parser_block =
  pb_name :: string
  pb_controlPlaneName :: string
  pb_applyParameters :: "program_parameter list"
  pb_parserLocals :: "(string \<times> ty \<times> pexp option) list"
  pb_states :: "(string \<times> parser_state) list"

definition findState :: "parser_block \<Rightarrow> string \<Rightarrow> parser_state result" where
  "findState P name = or_fail Bug (map_of (pb_states P) name)"

section \<open>Parser states\<close>

definition keyset_value ::
  "('e, 'z) interpreter \<Rightarrow> ('e, 'z) callbacks \<Rightarrow> keyset \<Rightarrow> ('e, 'z) resolver \<Rightarrow> (expr \<times> ('e, 'z) resolver) result" where
  "keyset_value X C keyset r =
     (case keyset of
        ValueSet name elementType \<Rightarrow> and_then (createSymbolicExpression elementType (''pvs_'' @ name)) (\<lambda>v. Inr (v, r))
      | Keyset e \<Rightarrow> computeResult X C e r
      | DefaultKeyset \<Rightarrow> Inl Bug)"

text \<open>A value set matches only when it is configured.\<close>

definition match_condition :: "('e, 'z) interpreter \<Rightarrow> expr \<Rightarrow> keyset \<Rightarrow> expr \<Rightarrow> expr" where
  "match_condition X selectKeyExpr keyset selectCaseMatchExpr =
     (let matchCond = equate X selectKeyExpr selectCaseMatchExpr in
      case keyset of
        ValueSet name elementType \<Rightarrow> mk_LAnd matchCond (SymbolicVariable (getParserValueSetConfigured name))
      | _ \<Rightarrow> matchCond)"

text \<open>
  The cases up to the default one. The states of the cases are collected; the negations of their
  conditions restrict the later ones.
\<close>

fun select_cases ::
  "('e, 'z) interpreter \<Rightarrow> ('e, 'z) callbacks \<Rightarrow> parser_block \<Rightarrow>
   (parser_state \<Rightarrow> ('e, 'z) exec_state \<Rightarrow> ('e, 'z) exec_state result) \<Rightarrow> expr \<Rightarrow> expr option \<Rightarrow>
   select_case list \<Rightarrow> ('e, 'z) resolver \<Rightarrow> ('e ExecutionState list \<times> ('e, 'z) resolver) result" where
  "select_cases X C P visit selectKeyExpr notCond [] r = Inr ([], r)"
| "select_cases X C P visit selectKeyExpr notCond (selectCase # cases) r =
     and_then (findState P (sl_state selectCase)) (\<lambda>decl.
     if sl_keyset selectCase = DefaultKeyset
     then and_then (visit decl (snd r)) (\<lambda>st. Inr ([], (fst r, st)))
     else if hasVisitedParserId (fst (snd r)) (ps_clone_id decl) then Inl Unimplemented
     else and_then (keyset_value X C (sl_keyset selectCase) r) (\<lambda>(selectCaseMatchExpr, r).
       let matchCond = match_condition X selectKeyExpr (sl_keyset selectCase) selectCaseMatchExpr;
           selectState = addParserId (ps_clone_id decl) (fst (snd r));
           (selectState, notCond) =
             (case notCond of
                None \<Rightarrow> (pushExecutionCondition matchCond selectState, mk_LNot matchCond)
              | Some notCond \<Rightarrow> (pushExecutionCondition (mk_LAnd notCond matchCond) selectState,
                  mk_LAnd notCond (mk_LNot matchCond))) in
       and_then (visit decl (selectState, snd (snd r))) (\<lambda>(selectState, g).
       and_then (select_cases X C P visit selectKeyExpr (Some notCond) cases (fst r, (fst (snd r), g)))
         (\<lambda>(accumulatedStates, r). Inr (selectState # accumulatedStates, r)))))"

definition processSelectExpression ::
  "('e, 'z) interpreter \<Rightarrow> ('e, 'z) callbacks \<Rightarrow> parser_block \<Rightarrow>
   (parser_state \<Rightarrow> ('e, 'z) exec_state \<Rightarrow> ('e, 'z) exec_state result) \<Rightarrow> pexp \<Rightarrow> select_case list \<Rightarrow>
   ('e, 'z) exec_state \<Rightarrow> ('e, 'z) exec_state result" where
  "processSelectExpression X C P visit select selectCases st =
     and_then (computeResult X C select (None, st)) (\<lambda>(selectKeyExpr, r).
     and_then (select_cases X C P visit selectKeyExpr None selectCases r) (\<lambda>(accumulatedStates, r).
     Inr (fold (es_merge X) accumulatedStates (fst (snd r)), snd (snd r))))"

definition is_exit_state :: "parser_state \<Rightarrow> bool" where
  "is_exit_state s \<longleftrightarrow> ps_name s = ''accept'' \<or> ps_name s = ''reject''"

primrec step_parser_state ::
  "('e, 'z) interpreter \<Rightarrow> ('e, 'z) callbacks \<Rightarrow> parser_block \<Rightarrow> nat \<Rightarrow> parser_state \<Rightarrow>
   ('e, 'z) exec_state \<Rightarrow> ('e, 'z) exec_state result" where
  "step_parser_state X C P 0 parserState st = Inl Out_of_fuel"
| "step_parser_state X C P (Suc fuel) parserState st =
     (if is_exit_state parserState then Inr st
      else and_then (run_all (step X C) (ps_components parserState) st) (\<lambda>st.
        case ps_selectExpression parserState of
          Select select selectCases \<Rightarrow>
            processSelectExpression X C P (step_parser_state X C P fuel) select selectCases st
        | Goto name \<Rightarrow>
            and_then (findState P name) (\<lambda>decl.
              if hasVisitedParserId (fst st) (ps_clone_id decl) then Inl Unimplemented
              else step_parser_state X C P fuel decl (addParserId (ps_clone_id decl) (fst st), snd st))
        | OtherTransition \<Rightarrow> Inl Unimplemented))"

section \<open>Parser blocks\<close>

text \<open>
  Skipping a parser makes everything it may write symbolic. \<open>initializeParserState\<close> is the operation of
  the target.
\<close>

fun skip_parameters ::
  "('e, 'z) interpreter \<Rightarrow> parser_block \<Rightarrow> string \<Rightarrow> nat \<Rightarrow> program_parameter list \<Rightarrow> 'e ExecutionState \<Rightarrow>
   'e ExecutionState result" where
  "skip_parameters X parser canonicalName paramIdx [] s = Inr s"
| "skip_parameters X parser canonicalName paramIdx (internalParam # params) s =
     (if pr_direction internalParam \<noteq> Out \<and> pr_direction internalParam \<noteq> InOut
      then skip_parameters X parser canonicalName (Suc paramIdx) params s
      else and_then
        (createSymbolicExpression (pr_type internalParam)
          (pb_controlPlaneName parser @ ''_'' @ pr_controlPlaneName internalParam)) (\<lambda>symbolicExpression.
        and_then
          (or_fail Bug (assignStructLike X (VarPath (getParamName X canonicalName paramIdx)) symbolicExpression (es_env s)))
          (\<lambda>E. skip_parameters X parser canonicalName (Suc paramIdx) params (s\<lparr>es_env := E\<rparr>))))"

definition step_parser ::
  "('e, 'z) interpreter \<Rightarrow> bool \<Rightarrow>
   (parser_block \<Rightarrow> string \<Rightarrow> 'e ExecutionState \<Rightarrow> 'e ExecutionState result) \<Rightarrow> nat \<Rightarrow> nat \<Rightarrow> parser_block \<Rightarrow>
   ('e, 'z) exec_state \<Rightarrow> ('e, 'z) exec_state result" where
  "step_parser X skipParsers initializeParserState fuel states parser st =
     and_then (or_fail Bug (getCanonicalBlockName X (pb_name parser))) (\<lambda>canonicalName.
     let params = pb_applyParameters parser in
     if skipParsers
     then and_then (skip_parameters X parser canonicalName 0 params (fst st)) (\<lambda>s. Inr (s, snd st))
     else
       (let s = copy_parameters X (copyIn X) canonicalName params (fst st) in
        and_then (initializeParserState parser canonicalName s) (\<lambda>s.
        let s = fold (\<lambda>decl s. s\<lparr>es_env := declareVariable X decl (es_env s)\<rparr>) (pb_parserLocals parser) s in
        and_then (findState parser ''start'') (\<lambda>startState.
        and_then
          (step_parser_state X (callbacks_of X fuel) parser states startState
            (addParserId (ps_clone_id startState) s, snd st)) (\<lambda>(s, g).
        Inr (copy_parameters X (copyOut X) canonicalName params s, g))))))"

text \<open>The error of a parser is symbolic; where it is kept depends on the target.\<close>

definition set_parser_error ::
  "('e, 'm) tools_scheme \<Rightarrow> parser_block \<Rightarrow> program_parameter \<Rightarrow> ty \<Rightarrow> string \<Rightarrow> 'e ExecutionState \<Rightarrow> 'e ExecutionState" where
  "set_parser_error X parser metadataBlock type field s =
     es_set X (VarMember (VarPath (pr_name metadataBlock)) field)
       (SymbolicVariable (getSymbolicVariable type
         (pb_controlPlaneName parser @ ''_'' @ pr_controlPlaneName metadataBlock @ ''_'' @ field))) s"

definition V1Model_initializeParserState ::
  "('e, 'm) tools_scheme \<Rightarrow> parser_block \<Rightarrow> string \<Rightarrow> 'e ExecutionState \<Rightarrow> 'e ExecutionState result" where
  "V1Model_initializeParserState X parser canonicalName s =
     (let parameters = pb_applyParameters parser in
      if length parameters \<noteq> 4 then Inl Bug
      else Inr (set_parser_error X parser (parameters ! 3) (Type_Bits 32 False) ''parser_error'' s))"

definition Xsa_initializeParserState ::
  "('e, 'm) tools_scheme \<Rightarrow> parser_block \<Rightarrow> string \<Rightarrow> 'e ExecutionState \<Rightarrow> 'e ExecutionState result" where
  "Xsa_initializeParserState X parser canonicalName s =
     (let parameters = pb_applyParameters parser in
      if length parameters \<noteq> 4 then Inl Bug
      else Inr (set_parser_error X parser (parameters ! 3) (Type_Bits 32 False) ''parser_error'' s))"

definition Tofino1_initializeParserState ::
  "('e, 'm) tools_scheme \<Rightarrow> parser_block \<Rightarrow> string \<Rightarrow> 'e ExecutionState \<Rightarrow> 'e ExecutionState result" where
  "Tofino1_initializeParserState X parser canonicalName s =
     (let parameters = pb_applyParameters parser in
      if canonicalName = ''IngressParserT''
      then Inr (if length parameters > 3
                then set_parser_error X parser (parameters ! 3) (Type_Bits 16 False) ''parser_err'' s else s)
      else if canonicalName = ''EgressParserT''
      then Inr (if length parameters > 4
                then set_parser_error X parser (parameters ! 4) (Type_Bits 16 False) ''parser_err'' s else s)
      else Inl Bug)"

section \<open>The start of an execution\<close>

text \<open>
  \<open>initializeBlockParams\<close> of the tools' library sets the parameters of the programmable block with an
  index to their initial values.
\<close>

definition initialize_blocks :: "(nat \<Rightarrow> 'e \<Rightarrow> 'e) \<Rightarrow> nat \<Rightarrow> 'e ExecutionState \<Rightarrow> 'e ExecutionState" where
  "initialize_blocks initializeBlockParams blocks s =
     fold (\<lambda>blockIdx s. s\<lparr>es_env := initializeBlockParams blockIdx (es_env s)\<rparr>) [0..<blocks] s"

definition V1Model_initializeState ::
  "('e, 'm) tools_scheme \<Rightarrow> (nat \<Rightarrow> 'e \<Rightarrow> 'e) \<Rightarrow> nat \<Rightarrow> 'e ExecutionState \<Rightarrow> 'e ExecutionState" where
  "V1Model_initializeState X initializeBlockParams blocks s =
     (let metadata = VarPath ''*standard_metadata'';
          normal = Constant (Type_Bits 32 False) PKT_INSTANCE_TYPE_NORMAL;
          s = initialize_blocks initializeBlockParams blocks s;
          s = es_set X (VarMember metadata ''ingress_port'')
                (SymbolicVariable (getSymbolicVariable (Type_Bits 9 False) ''standard_metadata.ingress_port'')) s;
          s = es_set X (VarMember metadata ''instance_type'')
                (if opt_usePlaceholders X then Placeholder ''standard_metadata.instance_type'' normal
                 else SymbolicVariable (getSymbolicVariable (Type_Bits 32 False) ''standard_metadata.instance_type'')) s in
      setPlaceholderValue X ''standard_metadata.instance_type'' normal s)"

definition NikssBase_initializeState ::
  "('e, 'm) tools_scheme \<Rightarrow> (nat \<Rightarrow> 'e \<Rightarrow> 'e) \<Rightarrow> nat \<Rightarrow> 'e ExecutionState \<Rightarrow> 'e ExecutionState" where
  "NikssBase_initializeState X initializeBlockParams blocks s =
     es_set X (VarMember (VarPath ''ingres_istd'') ''parser_error'')
       (SymbolicVariable (getSymbolicVariable (Type_Bits 32 False) ''*ingress_istdparser_error''))
       (initialize_blocks initializeBlockParams blocks s)"

definition TofinoBase_initializeState ::
  "('e, 'm) tools_scheme \<Rightarrow> (nat \<Rightarrow> 'e \<Rightarrow> 'e) \<Rightarrow> nat \<Rightarrow> 'e ExecutionState \<Rightarrow> 'e ExecutionState" where
  "TofinoBase_initializeState X initializeBlockParams blocks s =
     (let s = initialize_blocks initializeBlockParams blocks s;
          s = es_set X (VarMember (VarPath ''*ig_intr_md_from_prsr'') ''parser_err'')
                (SymbolicVariable (getSymbolicVariable (Type_Bits 16 False) ''ig_intr_md_from_prsr.parser_err'')) s in
      es_set X (VarMember (VarPath ''*eg_intr_md_from_prsr'') ''parser_err'')
        (SymbolicVariable (getSymbolicVariable (Type_Bits 16 False) ''eg_intr_md_from_prsr.parser_err'')) s)"

definition FpgaBase_initializeState ::
  "('e, 'm) tools_scheme \<Rightarrow> (nat \<Rightarrow> 'e \<Rightarrow> 'e) \<Rightarrow> nat \<Rightarrow> 'e ExecutionState \<Rightarrow> 'e ExecutionState" where
  "FpgaBase_initializeState X initializeBlockParams blocks s = initialize_blocks initializeBlockParams blocks s"

text \<open>The blocks of a program in the order of the pipeline.\<close>

datatype pipeline_block = ParserBlock parser_block | ControlBlock control_block

definition execute_pipeline ::
  "('e, 'z) interpreter \<Rightarrow> bool \<Rightarrow>
   (parser_block \<Rightarrow> string \<Rightarrow> 'e ExecutionState \<Rightarrow> 'e ExecutionState result) \<Rightarrow> nat \<Rightarrow> nat \<Rightarrow>
   ('e ExecutionState \<Rightarrow> 'e ExecutionState) \<Rightarrow> pipeline_block list \<Rightarrow> ('e, 'z) exec_state \<Rightarrow>
   ('e, 'z) exec_state result" where
  "execute_pipeline X skipParsers initializeParserState fuel states initializeState pipelineSequence st =
     run_all
       (\<lambda>node st.
          case node of
            ParserBlock parser \<Rightarrow> step_parser X skipParsers initializeParserState fuel states parser st
          | ControlBlock control \<Rightarrow> step_control X fuel control st)
       pipelineSequence (initializeState (fst st), snd st)"

section \<open>How deep parsers go\<close>

text \<open>
  When every transition of a parser leads to a state of lower rank and the calls in it do not run out of
  their fuel, as many steps as the rank of the first state are enough.
\<close>

fun transition_states :: "transition \<Rightarrow> string list" where
  "transition_states (Select e cases) = map sl_state cases"
| "transition_states (Goto name) = [name]"
| "transition_states OtherTransition = []"

fun keyset_calls :: "keyset \<Rightarrow> pexp list" where
  "keyset_calls (Keyset e) = expr_calls e"
| "keyset_calls k = []"

fun transition_calls :: "transition \<Rightarrow> pexp list" where
  "transition_calls (Select e cases) = expr_calls e @ concat (map (\<lambda>c. keyset_calls (sl_keyset c)) cases)"
| "transition_calls t = []"

definition parser_state_calls :: "parser_state \<Rightarrow> pexp list" where
  "parser_state_calls s = concat (map stmt_calls (ps_components s)) @ transition_calls (ps_selectExpression s)"

definition parser_ranked :: "(parser_state \<Rightarrow> nat) \<Rightarrow> parser_block \<Rightarrow> bool" where
  "parser_ranked rank P \<longleftrightarrow>
     (\<forall>s \<in> snd ` set (pb_states P). \<forall>name \<in> set (transition_states (ps_selectExpression s)). \<forall>decl.
        findState P name = Inr decl \<longrightarrow> rank decl < rank s)"

lemma findState_in: "findState P name = Inr s \<Longrightarrow> s \<in> snd ` set (pb_states P)"
  by (force simp: findState_def option_simps dest: map_of_SomeD)

lemma fueled_computeResult:
  assumes "externs_fueled X" and "\<forall>c \<in> set (expr_calls e). call_fueled X C c"
  shows "fueled (computeResult X C e r)"
  by (rule fueled_compute [OF resolve_fueled [OF assms]])

lemma fueled_keyset:
  assumes "externs_fueled X" and "\<forall>c \<in> set (keyset_calls k). call_fueled X C c"
  shows "fueled (keyset_value X C k r)"
proof (cases k)
  case (Keyset e)
  with fueled_computeResult [OF assms(1)] assms(2) show ?thesis by (simp add: keyset_value_def)
qed (simp_all add: keyset_value_def fueled_and_then fueled_symbolic)

lemma fueled_select_cases:
  assumes ext: "externs_fueled X"
    and calls: "\<forall>c \<in> set (concat (map (\<lambda>c. keyset_calls (sl_keyset c)) cases)). call_fueled X C c"
    and visit: "\<And>c decl st. c \<in> set cases \<Longrightarrow> findState P (sl_state c) = Inr decl \<Longrightarrow> fueled (visit decl st)"
  shows "fueled (select_cases X C P visit key notCond cases r)"
  using calls visit
proof (induction cases arbitrary: notCond r)
  case (Cons c cases)
  have key: "fueled (keyset_value X C (sl_keyset c) r)" for r
    by (rule fueled_keyset [OF ext]) (use Cons.prems(1) in auto)
  have rest: "fueled (select_cases X C P visit key notCond cases r)" for notCond r
  proof (rule Cons.IH)
    show "\<forall>c \<in> set (concat (map (\<lambda>c. keyset_calls (sl_keyset c)) cases)). call_fueled X C c"
      using Cons.prems(1) by simp
    show "fueled (visit decl st)" if "c' \<in> set cases" "findState P (sl_state c') = Inr decl" for c' decl st
      by (rule Cons.prems(2) [OF _ that(2)]) (simp add: that(1))
  qed
  have find: "fueled (findState P name)" for name by (simp add: findState_def)
  show ?case
    unfolding select_cases.simps
  proof (rule fueled_and_then [OF find])
    fix decl assume decl: "findState P (sl_state c) = Inr decl"
    have "fueled (visit decl st)" for st by (rule Cons.prems(2) [OF _ decl]) simp
    with key rest show "fueled (if sl_keyset c = DefaultKeyset
     then and_then (visit decl (snd r)) (\<lambda>st. Inr ([], (fst r, st)))
     else if hasVisitedParserId (fst (snd r)) (ps_clone_id decl) then Inl Unimplemented
     else and_then (keyset_value X C (sl_keyset c) r) (\<lambda>(selectCaseMatchExpr, r).
       let matchCond = match_condition X key (sl_keyset c) selectCaseMatchExpr;
           selectState = addParserId (ps_clone_id decl) (fst (snd r));
           (selectState, notCond) =
             (case notCond of
                None \<Rightarrow> (pushExecutionCondition matchCond selectState, mk_LNot matchCond)
              | Some notCond \<Rightarrow> (pushExecutionCondition (mk_LAnd notCond matchCond) selectState,
                  mk_LAnd notCond (mk_LNot matchCond))) in
       and_then (visit decl (selectState, snd (snd r))) (\<lambda>(selectState, g).
       and_then (select_cases X C P visit key (Some notCond) cases (fst r, (fst (snd r), g)))
         (\<lambda>(accumulatedStates, r). Inr (selectState # accumulatedStates, r)))))"
      by (simp add: Let_def fueled_and_then split: prod.split option.split)
  qed
qed simp

lemma step_parser_state_fueled:
  assumes ext: "externs_fueled X" and ranked: "parser_ranked rank P"
    and calls: "\<forall>s \<in> snd ` set (pb_states P). \<forall>c \<in> set (parser_state_calls s). call_fueled X C c"
    and "s \<in> snd ` set (pb_states P)" and "rank s < fuel"
  shows "fueled (step_parser_state X C P fuel s st)"
  using assms(4,5)
proof (induction fuel arbitrary: s st)
  case (Suc fuel)
  have s: "\<forall>c \<in> set (concat (map stmt_calls (ps_components s))). call_fueled X C c"
    "\<forall>c \<in> set (transition_calls (ps_selectExpression s)). call_fueled X C c"
    using calls Suc.prems(1) by (auto simp: parser_state_calls_def)
  have body: "fueled (run_all (step X C) (ps_components s) st)" for st
    by (rule fueled_run_all, rule step_fueled [OF ext]) (use s(1) in auto)
  have later: "fueled (step_parser_state X C P fuel decl st)"
    if "name \<in> set (transition_states (ps_selectExpression s))" "findState P name = Inr decl" for name decl st
  proof (rule Suc.IH [OF findState_in [OF that(2)]])
    have "rank decl < rank s" using ranked that Suc.prems(1) by (auto simp: parser_ranked_def)
    with Suc.prems(2) show "rank decl < fuel" by simp
  qed
  have select: "fueled (processSelectExpression X C P (step_parser_state X C P fuel) e cases st)"
    if t: "ps_selectExpression s = Select e cases" for e cases st
  proof -
    have "fueled (select_cases X C P (step_parser_state X C P fuel) key n cases r)" for key n r
    proof (rule fueled_select_cases [OF ext])
      show "\<forall>c \<in> set (concat (map (\<lambda>c. keyset_calls (sl_keyset c)) cases)). call_fueled X C c"
        using s(2) t by simp
      show "fueled (step_parser_state X C P fuel decl st)" if "c \<in> set cases" "findState P (sl_state c) = Inr decl" for c decl st
        by (rule later [OF _ that(2)]) (simp add: t that(1))
    qed
    moreover have "fueled (computeResult X C e r)" for r
      by (rule fueled_computeResult [OF ext]) (use s(2) t in auto)
    ultimately show ?thesis
      by (simp add: processSelectExpression_def fueled_and_then split: prod.split)
  qed
  show ?case
  proof (cases "ps_selectExpression s")
    case (Goto name)
    have "fueled (findState P name)" by (simp add: findState_def)
    moreover have "fueled (step_parser_state X C P fuel decl st)" if "findState P name = Inr decl" for decl st
      using later [OF _ that] Goto by simp
    ultimately show ?thesis
      by (simp add: Goto fueled_and_then body)
  qed (simp_all add: fueled_and_then body select)
qed simp

text \<open>The states of a parser whose transitions go down, and calls that are nested no deeper than the fuel.\<close>

lemma parser_terminates:
  assumes "externs_fueled X" and "parser_ranked rank P" and "s \<in> snd ` set (pb_states P)" and "rank s < states"
    and "\<forall>s \<in> snd ` set (pb_states P). \<forall>c \<in> set (parser_state_calls s). depth_ok X fuel c"
  shows "step_parser_state X (callbacks_of X fuel) P states s st \<noteq> Inl Out_of_fuel"
  using step_parser_state_fueled [OF assms(1,2) _ assms(3,4)] callbacks_fueled [OF assms(1)] assms(5)
  by (simp add: fueled_def)

text \<open>
  A state whose default case leads back to it is stepped into again without end: the visited states are
  only looked up for the other cases.
\<close>

lemma default_loop_diverges:
  assumes s: "ps_components s = []" "ps_selectExpression s = Select e [\<lparr>sl_keyset = DefaultKeyset, sl_state = name\<rparr>]"
    "\<not> is_exit_state s" "findState P name = Inr s"
    and key: "\<And>st. computeResult X C e (None, st) = Inr (v, (Some v, st))"
  shows "step_parser_state X C P fuel s st = Inl Out_of_fuel"
  by (induction fuel arbitrary: st) (simp_all add: s processSelectExpression_def key)

text \<open>A visited state is refused everywhere else.\<close>

lemma visited_state_refused:
  assumes "ps_components s = []" and "ps_selectExpression s = Goto name" and "\<not> is_exit_state s"
    and "findState P name = Inr decl" and "hasVisitedParserId (fst st) (ps_clone_id decl)"
  shows "step_parser_state X C P (Suc fuel) s st = Inl Unimplemented"
  using assms by simp

end
